(* ===== verification/Blert_Prelude.thy ===== *)
theory Blert_Prelude
  imports Main "HOL-Library.AList"
begin

text \<open>
  Vocabulary shared by the components: JavaScript arrays written by index, insertion-ordered
  JavaScript maps (association lists under \<^const>\<open>AList.update\<close>), the decimal rendering of
  numbers used in string keys and file names, and generic list lemmas.
\<close>

named_theorems model_defs \<open>definitions that component proofs unfold\<close>

subsection \<open>JavaScript arrays\<close>

text \<open>
  \<open>a[i] = v\<close> on an array whose holes read as \<open>undefined\<close>: in range it replaces the element, out of
  range it extends the array, the skipped positions reading as \<open>undefined\<close> (\<^const>\<open>None\<close>).
\<close>

definition arr_set :: "'a option list \<Rightarrow> nat \<Rightarrow> 'a \<Rightarrow> 'a option list" where
  "arr_set xs i v =
     (if i < length xs then xs[i := Some v]
      else xs @ replicate (i - length xs) None @ [Some v])"

text \<open>\<open>a[i]\<close>: a read outside the array is \<open>undefined\<close>.\<close>

definition arr_get :: "'a option list \<Rightarrow> nat \<Rightarrow> 'a option" where
  "arr_get xs i = (if i < length xs then xs ! i else None)"

lemma arr_get_set: "arr_get (arr_set xs i v) j = (if j = i then Some v else arr_get xs j)"
  by (auto simp: arr_get_def arr_set_def nth_append nth_Cons' less_Suc_eq)

lemma length_arr_set [simp]: "length (arr_set xs i v) = max (length xs) (Suc i)"
  by (auto simp: arr_set_def)

lemma length_arr_set_in: "i < length xs \<Longrightarrow> length (arr_set xs i v) = length xs"
  by (simp add: arr_set_def)

lemma arr_get_blank [simp]: "arr_get (replicate n None) i = None"
  by (simp add: arr_get_def)

lemma arr_get_Some_less: "arr_get xs i = Some v \<Longrightarrow> i < length xs"
  by (auto simp: arr_get_def split: if_splits)

lemma arr_get_ext:
  "length xs = length ys \<Longrightarrow> (\<And>i. arr_get xs i = arr_get ys i) \<Longrightarrow> xs = ys"
  by (metis arr_get_def nth_equalityI)

subsection \<open>Keyed stores\<close>

text \<open>
  What the components rely on when they keep data under a key (a JavaScript \<open>Map\<close>, a
  database table with a primary key): a lookup after a write sees exactly that write.
\<close>

locale keyed_store =
  fixes get :: "'s \<Rightarrow> 'k \<Rightarrow> 'v option"
    and put :: "'k \<Rightarrow> 'v \<Rightarrow> 's \<Rightarrow> 's"
  assumes get_put: "get (put k v s) k' = (if k' = k then Some v else get s k')"
begin

lemma get_put_same [simp]: "get (put k v s) k = Some v"
  by (simp add: get_put)

lemma get_put_other: "k' \<noteq> k \<Longrightarrow> get (put k v s) k' = get s k'"
  by (simp add: get_put)

lemma get_put_stable: "get s k' = Some w \<Longrightarrow> get (put k v s) k' \<noteq> None"
  by (simp add: get_put)

text \<open>Writing a list of pairs in order: the last write of a key is the one a lookup sees.\<close>

lemma get_fold_put:
  "get (fold (\<lambda>(k, v). put k v) kvs s) k =
     (case map_of (rev kvs) k of None \<Rightarrow> get s k | Some v \<Rightarrow> Some v)"
  by (induction kvs arbitrary: s)
    (auto simp: get_put map_add_def split: option.splits)

end

lemma key_mem: "(a, b) \<in> set xs \<Longrightarrow> a \<in> fst ` set xs"
  by force

text \<open>An insertion-ordered \<open>Map\<close>: setting an existing key keeps its position.\<close>

type_synonym ('k, 'v) omap = "('k \<times> 'v) list"

interpretation omap: keyed_store map_of AList.update
  by unfold_locales (simp add: update_conv')

interpretation arr: keyed_store arr_get "\<lambda>i v xs. arr_set xs i v"
  by unfold_locales (simp add: arr_get_set)

definition omap_keys :: "('k, 'v) omap \<Rightarrow> 'k list" where
  "omap_keys m = map fst m"

lemma omap_keys_update:
  "omap_keys (AList.update k v m) =
     (if k \<in> set (omap_keys m) then omap_keys m else omap_keys m @ [k])"
  by (simp add: omap_keys_def update_keys)

lemma distinct_omap_keys_update:
  "distinct (omap_keys m) \<Longrightarrow> distinct (omap_keys (AList.update k v m))"
  by (simp add: omap_keys_def distinct_update)

subsection \<open>Sums over groups\<close>

lemma sum_list_indicator:
  "distinct ks \<Longrightarrow> k \<in> set ks \<Longrightarrow>
     (\<Sum>x \<leftarrow> ks. if x = k then v else 0) = (v :: 'a::comm_monoid_add)"
proof (induction ks)
  case (Cons y ks)
  have "(\<Sum>x \<leftarrow> ks. if x = y then v else 0) = 0" if "y \<notin> set ks"
    using that by (induction ks) auto
  with Cons show ?case by (cases "y = k") auto
qed simp

text \<open>Summing by group and then over the groups is summing.\<close>

lemma sum_list_by_group:
  assumes "distinct ks" and "f ` set es \<subseteq> set ks"
  shows "(\<Sum>k \<leftarrow> ks. \<Sum>e \<leftarrow> filter (\<lambda>e. f e = k) es. g e) = (\<Sum>e \<leftarrow> es. g e :: int)"
  using assms(2)
proof (induction es)
  case (Cons e es)
  have "(\<Sum>k \<leftarrow> ks. \<Sum>x \<leftarrow> filter (\<lambda>x. f x = k) (e # es). g x) =
        (\<Sum>k \<leftarrow> ks. (if k = f e then g e else 0) + (\<Sum>x \<leftarrow> filter (\<lambda>x. f x = k) es. g x))"
    by (intro arg_cong [where f = sum_list] map_cong) auto
  also have "\<dots> = g e + (\<Sum>x \<leftarrow> es. g x)"
    using Cons assms(1) by (simp add: sum_list_addf sum_list_indicator)
  finally show ?case by simp
qed simp

subsection \<open>Partial maps over lists\<close>

lemma map_filter_cong:
  "(\<And>x. x \<in> set xs \<Longrightarrow> f x = g x) \<Longrightarrow> List.map_filter f xs = List.map_filter g xs"
  by (induction xs) (auto simp: List.map_filter_simps split: option.splits)

lemma map_filter_append:
  "List.map_filter f (xs @ ys) = List.map_filter f xs @ List.map_filter f ys"
  by (simp add: List.map_filter_def)

lemma set_map_filter_conv: "y \<in> set (List.map_filter f xs) \<longleftrightarrow> (\<exists>x \<in> set xs. f x = Some y)"
  by (force simp: List.map_filter_def)

subsection \<open>Insertion-ordered sets\<close>

definition oset_add :: "'a \<Rightarrow> 'a list \<Rightarrow> 'a list" where
  "oset_add x s = (if x \<in> set s then s else s @ [x])"

lemma set_oset_add [simp]: "set (oset_add x s) = insert x (set s)"
  by (auto simp: oset_add_def)

lemma distinct_oset_add: "distinct s \<Longrightarrow> distinct (oset_add x s)"
  by (simp add: oset_add_def)

subsection \<open>Decimal rendering\<close>

text \<open>The string JavaScript's template literals render for a non-negative integer.\<close>

definition digit_char :: "nat \<Rightarrow> char" where
  "digit_char d = char_of (48 + d)"

fun show_nat :: "nat \<Rightarrow> string" where
  "show_nat n = (if n < 10 then [digit_char n] else show_nat (n div 10) @ [digit_char (n mod 10)])"

declare show_nat.simps [simp del]

definition digit_val :: "char \<Rightarrow> nat" where
  "digit_val c = of_char c - 48"

definition is_digit :: "char \<Rightarrow> bool" where
  "is_digit c \<longleftrightarrow> 48 \<le> (of_char c :: nat) \<and> (of_char c :: nat) \<le> 57"

definition read_nat :: "string \<Rightarrow> nat" where
  "read_nat s = foldl (\<lambda>n c. 10 * n + digit_val c) 0 s"

lemma of_digit_char: "d < 10 \<Longrightarrow> (of_char (digit_char d) :: nat) = 48 + d"
  by (simp add: digit_char_def)

lemma digit_val_char [simp]: "d < 10 \<Longrightarrow> digit_val (digit_char d) = d"
  by (simp add: digit_val_def of_digit_char)

lemma is_digit_char [simp]: "d < 10 \<Longrightarrow> is_digit (digit_char d)"
  by (simp add: is_digit_def of_digit_char)

lemma show_nat_digits: "c \<in> set (show_nat n) \<Longrightarrow> is_digit c"
proof (induction n rule: show_nat.induct)
  case (1 n)
  then show ?case
    by (cases "n < 10") (auto simp: show_nat.simps [of n])
qed

lemma show_nat_nonempty [simp]: "show_nat n \<noteq> []"
  by (subst show_nat.simps) simp

lemma read_show_nat [simp]: "read_nat (show_nat n) = n"
proof (induction n rule: show_nat.induct)
  case (1 n)
  then show ?case
    by (cases "n < 10") (auto simp: show_nat.simps [of n] read_nat_def)
qed

lemma show_nat_inj: "show_nat a = show_nat b \<longleftrightarrow> a = b"
  by (metis read_show_nat)

lemma is_digit_colon: "\<not> is_digit CHR '':''"
  by (simp add: is_digit_def)

text \<open>Two strings that agree after a separator neither tail contains agree on both sides.\<close>

lemma append_sep_inj:
  assumes "xs @ c # ys = xs' @ c # ys'" and "c \<notin> set ys" and "c \<notin> set ys'"
  shows "xs = xs' \<and> ys = ys'"
proof -
  from assms(1) have "rev ys @ c # rev xs = rev ys' @ c # rev xs'"
    by (metis append.assoc append_Cons append_Nil rev.simps(2) rev_append)
  then have "takeWhile (\<lambda>x. x \<noteq> c) (rev ys @ c # rev xs) =
             takeWhile (\<lambda>x. x \<noteq> c) (rev ys' @ c # rev xs')" by simp
  moreover have "takeWhile (\<lambda>x. x \<noteq> c) (rev zs @ c # ws) = rev zs" if "c \<notin> set zs" for zs ws
    using that by (induction zs arbitrary: ws rule: rev_induct) auto
  ultimately have "rev ys = rev ys'"
    using assms(2,3) by simp
  with assms(1) show ?thesis by simp
qed

end
