(* ===== verification/Ledger.thy ===== *)
theory Ledger
  imports Blert_Prelude
begin

text \<open>
  The Blertcoin ledger: the tables of \<^verbatim>\<open>blertbank/migrations\<close>, the stored procedure
  \<^verbatim>\<open>blertbank/sql/post_blertcoin_transaction/20260201-balance-snapshots.sql\<close> and the account
  queries of \<^verbatim>\<open>blertbank/core/accounts.ts\<close>. A table with a primary key is an insertion-ordered
  map. A statement that raises rolls back every row it wrote, but not the sequence value it drew,
  so the procedure returns its new state beside its result. BIGINT and INTEGER columns reject
  values outside their range. Row order of an unordered \<^verbatim>\<open>SELECT\<close> is insertion order; no
  property depends on it.
\<close>

subsection \<open>Tables\<close>

datatype account_kind = User | Treasury | Sink | Liability | Escrow

record account =
  ac_owner :: "int option"
  ac_kind :: account_kind
  ac_created_at :: nat

record balance_row =
  br_balance :: int
  br_updated_at :: nat

record txn_row =
  tx_id :: nat
  tx_created_at :: nat
  tx_created_by :: int
  tx_created_by_svc :: string
  tx_reason :: string
  tx_source_table :: "string option"
  tx_source_id :: "int option"
  tx_idempotency_key :: "string option"
  tx_metadata :: string

record entry_row =
  en_txn_id :: nat
  en_account_id :: int
  en_amount :: int

record snapshot_row =
  sn_txn_id :: nat
  sn_account_id :: int
  sn_delta :: int
  sn_balance_after :: int

record ledger =
  lg_accounts :: "(int, account) omap"
  lg_balances :: "(int, balance_row) omap"
  lg_system :: "(string, int) omap"
  lg_txns :: "txn_row list"
  lg_entries :: "entry_row list"
  lg_snapshots :: "snapshot_row list"
  lg_next_account :: nat
  lg_next_txn :: nat

text \<open>Errors a statement can raise; the ledger's own codes and those of the database.\<close>

datatype pg_error =
    Unbalanced_Transaction | Invalid_Amount | Insufficient_Funds | Missing_Snapshot
  | Negative_Balance_Not_Allowed | Foreign_Key_Violation | Unique_Violation
  | Numeric_Out_Of_Range | In_Failed_Transaction | Invalid_Text

fun pg_code :: "pg_error \<Rightarrow> string" where
  "pg_code Unbalanced_Transaction = ''BL101''"
| "pg_code Invalid_Amount = ''BL102''"
| "pg_code Insufficient_Funds = ''BL103''"
| "pg_code Missing_Snapshot = ''BL104''"
| "pg_code Negative_Balance_Not_Allowed = ''BL104''"
| "pg_code Foreign_Key_Violation = ''23503''"
| "pg_code Unique_Violation = ''23505''"
| "pg_code Numeric_Out_Of_Range = ''22003''"
| "pg_code In_Failed_Transaction = ''25P02''"
| "pg_code Invalid_Text = ''22P02''"

definition bigint_ok :: "int \<Rightarrow> bool" where
  "bigint_ok x \<longleftrightarrow> - (2 ^ 63) \<le> x \<and> x < 2 ^ 63"

definition integer_ok :: "int \<Rightarrow> bool" where
  "integer_ok x \<longleftrightarrow> - (2 ^ 31) \<le> x \<and> x < 2 ^ 31"

subsection \<open>Account queries\<close>

record account_row =
  row_id :: int
  row_owner_user_id :: "int option"
  row_kind :: account_kind
  row_balance :: int
  row_created_at :: nat
  row_updated_at :: nat

definition account_row_of :: "ledger \<Rightarrow> int \<Rightarrow> account \<Rightarrow> account_row option" where
  "account_row_of l i a =
     (case map_of (lg_balances l) i of
        None \<Rightarrow> None
      | Some b \<Rightarrow> Some \<lparr>row_id = i, row_owner_user_id = ac_owner a, row_kind = ac_kind a,
          row_balance = br_balance b, row_created_at = ac_created_at a,
          row_updated_at = br_updated_at b\<rparr>)"

definition find_account_by_id :: "ledger \<Rightarrow> int \<Rightarrow> account_row option" where
  "find_account_by_id l i =
     (case map_of (lg_accounts l) i of None \<Rightarrow> None | Some a \<Rightarrow> account_row_of l i a)"

definition find_system_account_by_name :: "ledger \<Rightarrow> string \<Rightarrow> account_row option" where
  "find_system_account_by_name l name =
     (case map_of (lg_system l) name of None \<Rightarrow> None | Some i \<Rightarrow> find_account_by_id l i)"

definition is_user_account :: "int \<Rightarrow> int \<times> account \<Rightarrow> bool" where
  "is_user_account u p \<longleftrightarrow> ac_owner (snd p) = Some u \<and> ac_kind (snd p) = User"

definition find_user_account_by_user_id :: "ledger \<Rightarrow> int \<Rightarrow> account_row option" where
  "find_user_account_by_user_id l u =
     (case List.map_filter (\<lambda>(i, a). if is_user_account u (i, a) then account_row_of l i a else None)
             (lg_accounts l) of
        [] \<Rightarrow> None
      | r # _ \<Rightarrow> Some r)"

text \<open>
  Opening an account. The lookup reads the committed state \<open>seen\<close>; the insert runs on the state
  \<open>l\<close> current at that time, which differs when another request committed in between.
\<close>

definition insert_user_account :: "nat \<Rightarrow> int \<Rightarrow> ledger \<Rightarrow> (pg_error + account_row) \<times> ledger" where
  "insert_user_account now u l =
     (let i = int (lg_next_account l); l1 = l\<lparr>lg_next_account := Suc (lg_next_account l)\<rparr>
      in if \<exists>p \<in> set (lg_accounts l). is_user_account u p then (Inl Unique_Violation, l1)
         else
           (Inr \<lparr>row_id = i, row_owner_user_id = Some u, row_kind = User, row_balance = 0,
                  row_created_at = now, row_updated_at = now\<rparr>,
            l1\<lparr>lg_accounts := lg_accounts l @ [(i, \<lparr>ac_owner = Some u, ac_kind = User, ac_created_at = now\<rparr>)],
               lg_balances :=
                 (if map_of (lg_balances l) i = None
                  then lg_balances l @ [(i, \<lparr>br_balance = 0, br_updated_at = now\<rparr>)]
                  else lg_balances l)\<rparr>))"

text \<open>
  A database transaction: its state and the error of the first of its statements that failed, after which the database
  refuses every further one. \<open>sql_begin\<close> is the driver's \<^verbatim>\<open>sql.begin\<close>: it commits when no statement failed, and otherwise
  rolls back, which keeps only the sequences, and throws the error of the first failure whatever the callback made of it.
\<close>

record pg_tx =
  tx_ledger :: ledger
  tx_failed :: "pg_error option"

definition tx_run :: "(ledger \<Rightarrow> (pg_error + 'a) \<times> ledger) \<Rightarrow> pg_tx \<Rightarrow> (pg_error + 'a) \<times> pg_tx" where
  "tx_run stmt t =
     (case tx_failed t of
        Some e \<Rightarrow> (Inl In_Failed_Transaction, t)
      | None \<Rightarrow>
          (case stmt (tx_ledger t) of
             (Inl e, l) \<Rightarrow> (Inl e, t\<lparr>tx_ledger := l, tx_failed := Some e\<rparr>)
           | (Inr r, l) \<Rightarrow> (Inr r, t\<lparr>tx_ledger := l\<rparr>)))"

definition sql_begin :: "(pg_tx \<Rightarrow> (pg_error + 'a) \<times> pg_tx) \<Rightarrow> ledger \<Rightarrow> (pg_error + 'a) \<times> ledger" where
  "sql_begin body l =
     (case body \<lparr>tx_ledger = l, tx_failed = None\<rparr> of
        (r, t) \<Rightarrow>
          (case tx_failed t of
             None \<Rightarrow> (r, tx_ledger t)
           | Some e \<Rightarrow> (Inl e, l\<lparr>lg_next_account := lg_next_account (tx_ledger t), lg_next_txn := lg_next_txn (tx_ledger t)\<rparr>)))"

definition select_user_account :: "ledger \<Rightarrow> int \<Rightarrow> ledger \<Rightarrow> (pg_error + account_row option) \<times> ledger" where
  "select_user_account seen u l = (Inr (find_user_account_by_user_id seen u), l)"

text \<open>The callback: the \<^verbatim>\<open>catch\<close> block reads on the same transaction.\<close>

definition get_or_create_body ::
    "nat \<Rightarrow> int \<Rightarrow> ledger \<Rightarrow> pg_tx \<Rightarrow> (pg_error + account_row \<times> bool) \<times> pg_tx" where
  "get_or_create_body now u seen t =
     (case tx_run (select_user_account seen u) t of
        (Inl e, t1) \<Rightarrow> (Inl e, t1)
      | (Inr (Some a), t1) \<Rightarrow> (Inr (a, False), t1)
      | (Inr None, t1) \<Rightarrow>
          (case tx_run (insert_user_account now u) t1 of
             (Inr a, t2) \<Rightarrow> (Inr (a, True), t2)
           | (Inl e, t2) \<Rightarrow>
               (if e = Unique_Violation then
                  (case tx_run (\<lambda>l. select_user_account l u l) t2 of
                     (Inl e', t3) \<Rightarrow> (Inl e', t3)
                   | (Inr (Some a), t3) \<Rightarrow> (Inr (a, False), t3)
                   | (Inr None, t3) \<Rightarrow> (Inl e, t3))
                else (Inl e, t2))))"

definition get_or_create_user_account ::
    "nat \<Rightarrow> int \<Rightarrow> ledger \<Rightarrow> ledger \<Rightarrow> (pg_error + account_row \<times> bool) \<times> ledger" where
  "get_or_create_user_account now u seen l = sql_begin (get_or_create_body now u seen) l"

subsection \<open>Posting a transaction\<close>

record post_args =
  pa_created_by :: int
  pa_svc :: string
  pa_reason :: string
  pa_key :: "string option"
  pa_source_table :: "string option"
  pa_source_id :: "int option"
  pa_metadata :: "string option"
  pa_entries :: "(int \<times> int) list"

record result_row =
  rr_transaction_id :: nat
  rr_created_at :: nat
  rr_account_id :: int
  rr_delta :: int
  rr_balance_after :: int
  rr_idempotent :: bool

definition validate_entries :: "post_args \<Rightarrow> pg_error option" where
  "validate_entries a =
     (if \<not> integer_ok (pa_created_by a) \<or>
         (\<exists>e \<in> set (pa_entries a). \<not> bigint_ok (fst e) \<or> \<not> bigint_ok (snd e)) \<or>
         (case pa_source_id a of None \<Rightarrow> False | Some i \<Rightarrow> \<not> bigint_ok i)
      then Some Numeric_Out_Of_Range
      else if \<not> bigint_ok (\<Sum>e \<leftarrow> pa_entries a. snd e) then Some Numeric_Out_Of_Range
      else if (\<Sum>e \<leftarrow> pa_entries a. snd e) \<noteq> 0 then Some Unbalanced_Transaction
      else if \<exists>e \<in> set (pa_entries a). snd e = 0 then Some Invalid_Amount
      else None)"

text \<open>\<^verbatim>\<open>SELECT account_id, SUM(amount) ... GROUP BY account_id\<close>.\<close>

definition group_deltas :: "(int \<times> int) list \<Rightarrow> (int, int) omap" where
  "group_deltas es =
     map (\<lambda>a. (a, \<Sum>e \<leftarrow> filter (\<lambda>e. fst e = a) es. snd e)) (remdups (map fst es))"

definition ensure_balances :: "nat \<Rightarrow> int list \<Rightarrow> ledger \<Rightarrow> pg_error + ledger" where
  "ensure_balances now ids l =
     (let missing = filter (\<lambda>a. map_of (lg_balances l) a = None) (remdups ids)
      in if \<exists>a \<in> set missing. map_of (lg_accounts l) a = None then Inl Foreign_Key_Violation
         else Inr (l\<lparr>lg_balances := lg_balances l @
                map (\<lambda>a. (a, \<lparr>br_balance = 0, br_updated_at = now\<rparr>)) missing\<rparr>))"

definition requires_funds :: "account_kind \<Rightarrow> bool" where
  "requires_funds k \<longleftrightarrow> k = User \<or> k = Sink \<or> k = Escrow"

definition balance_of :: "ledger \<Rightarrow> int \<Rightarrow> int" where
  "balance_of l a = (case map_of (lg_balances l) a of None \<Rightarrow> 0 | Some b \<Rightarrow> br_balance b)"

definition insufficient_funds :: "(int, int) omap \<Rightarrow> ledger \<Rightarrow> bool" where
  "insufficient_funds ds l \<longleftrightarrow>
     (\<exists>(a, d) \<in> set ds. map_of (lg_balances l) a \<noteq> None \<and>
        (case map_of (lg_accounts l) a of
           None \<Rightarrow> False
         | Some ac \<Rightarrow> requires_funds (ac_kind ac) \<and> balance_of l a + d < 0))"

text \<open>The trigger on \<^verbatim>\<open>blertcoin_account_balances\<close>.\<close>

definition check_balance_by_account_type :: "ledger \<Rightarrow> int \<Rightarrow> int \<Rightarrow> bool" where
  "check_balance_by_account_type l a b \<longleftrightarrow>
     (b < 0 \<longrightarrow> (case map_of (lg_accounts l) a of
         None \<Rightarrow> False | Some ac \<Rightarrow> ac_kind ac = Liability \<or> ac_kind ac = Treasury))"

definition write_balance :: "nat \<Rightarrow> (int, int) omap \<Rightarrow> int \<times> balance_row \<Rightarrow> int \<times> balance_row" where
  "write_balance now ds p =
     (case map_of ds (fst p) of
        None \<Rightarrow> p
      | Some d \<Rightarrow> (fst p, \<lparr>br_balance = br_balance (snd p) + d, br_updated_at = now\<rparr>))"

definition update_balances :: "nat \<Rightarrow> nat \<Rightarrow> (int, int) omap \<Rightarrow> ledger \<Rightarrow> pg_error + ledger" where
  "update_balances now txn ds l =
     (let updated = map (\<lambda>(a, d). (a, d, balance_of l a + d))
                      (filter (\<lambda>(a, d). map_of (lg_balances l) a \<noteq> None) ds)
      in if \<exists>(a, d, b) \<in> set updated. \<not> bigint_ok b \<or> \<not> bigint_ok d then Inl Numeric_Out_Of_Range
         else if \<exists>(a, d, b) \<in> set updated. \<not> check_balance_by_account_type l a b
           then Inl Negative_Balance_Not_Allowed
         else Inr (l\<lparr>
           lg_balances := map (write_balance now ds) (lg_balances l),
           lg_snapshots := lg_snapshots l @
             map (\<lambda>(a, d, b). \<lparr>sn_txn_id = txn, sn_account_id = a, sn_delta = d,
                               sn_balance_after = b\<rparr>) updated\<rparr>))"

definition snapshot_rows :: "ledger \<Rightarrow> nat \<Rightarrow> nat \<Rightarrow> bool \<Rightarrow> result_row list" where
  "snapshot_rows l txn created idem =
     map (\<lambda>s. \<lparr>rr_transaction_id = txn, rr_created_at = created, rr_account_id = sn_account_id s,
               rr_delta = sn_delta s, rr_balance_after = sn_balance_after s, rr_idempotent = idem\<rparr>)
       (filter (\<lambda>s. sn_txn_id s = txn) (lg_snapshots l))"

definition find_txn_by_key :: "ledger \<Rightarrow> string \<Rightarrow> txn_row option" where
  "find_txn_by_key l k = find (\<lambda>t. tx_idempotency_key t = Some k) (lg_txns l)"

definition new_txn_row :: "nat \<Rightarrow> post_args \<Rightarrow> nat \<Rightarrow> txn_row" where
  "new_txn_row now a i =
     \<lparr>tx_id = i, tx_created_at = now, tx_created_by = pa_created_by a,
      tx_created_by_svc = pa_svc a, tx_reason = pa_reason a,
      tx_source_table = pa_source_table a, tx_source_id = pa_source_id a,
      tx_idempotency_key = pa_key a,
      tx_metadata = (case pa_metadata a of None \<Rightarrow> ''{}'' | Some m \<Rightarrow> m)\<rparr>"

text \<open>The part of the procedure after the transaction row has been inserted.\<close>

definition post_body :: "nat \<Rightarrow> post_args \<Rightarrow> nat \<Rightarrow> ledger \<Rightarrow> pg_error + ledger" where
  "post_body now a txn l =
     (case ensure_balances now (map fst (pa_entries a)) l of
        Inl e \<Rightarrow> Inl e
      | Inr l1 \<Rightarrow>
          (if insufficient_funds (group_deltas (pa_entries a)) l1 then Inl Insufficient_Funds
           else update_balances now txn (group_deltas (pa_entries a))
             (l1\<lparr>lg_entries := lg_entries l1 @
                map (\<lambda>e. \<lparr>en_txn_id = txn, en_account_id = fst e, en_amount = snd e\<rparr>)
                  (pa_entries a)\<rparr>)))"

definition post_blertcoin_transaction ::
    "nat \<Rightarrow> post_args \<Rightarrow> ledger \<Rightarrow> (pg_error + result_row list) \<times> ledger" where
  "post_blertcoin_transaction now a l =
     (case validate_entries a of
        Some e \<Rightarrow> (Inl e, l)
      | None \<Rightarrow>
          (let i = lg_next_txn l; l0 = l\<lparr>lg_next_txn := Suc i\<rparr>;
               fresh = (case post_body now a i (l0\<lparr>lg_txns := lg_txns l @ [new_txn_row now a i]\<rparr>) of
                          Inl e \<Rightarrow> (Inl e, l0)
                        | Inr l' \<Rightarrow> (Inr (snapshot_rows l' i now False), l'))
           in case pa_key a of
                None \<Rightarrow> fresh
              | Some k \<Rightarrow>
                  (case find_txn_by_key l k of
                     None \<Rightarrow> fresh
                   | Some t \<Rightarrow>
                       (let rows = snapshot_rows l (tx_id t) (tx_created_at t) True
                        in if rows = [] then (Inl Missing_Snapshot, l0) else (Inr rows, l0)))))"

subsection \<open>What the books promise\<close>

definition account_total :: "ledger \<Rightarrow> int \<Rightarrow> int" where
  "account_total l a = (\<Sum>e \<leftarrow> filter (\<lambda>e. en_account_id e = a) (lg_entries l). en_amount e)"

definition txn_total :: "ledger \<Rightarrow> nat \<Rightarrow> int" where
  "txn_total l t = (\<Sum>e \<leftarrow> filter (\<lambda>e. en_txn_id e = t) (lg_entries l). en_amount e)"

definition total_balance :: "ledger \<Rightarrow> int" where
  "total_balance l = (\<Sum>p \<leftarrow> lg_balances l. br_balance (snd p))"

definition keys_wf :: "ledger \<Rightarrow> bool" where
  "keys_wf l \<longleftrightarrow>
     distinct (map fst (lg_accounts l)) \<and> distinct (map fst (lg_balances l)) \<and>
     fst ` set (lg_balances l) = fst ` set (lg_accounts l) \<and>
     (\<forall>u. length (filter (is_user_account u) (lg_accounts l)) \<le> 1) \<and>
     (\<forall>p \<in> set (lg_accounts l). fst p < int (lg_next_account l)) \<and>
     (\<forall>e \<in> set (lg_entries l). en_account_id e \<in> fst ` set (lg_accounts l))"

definition txns_wf :: "ledger \<Rightarrow> bool" where
  "txns_wf l \<longleftrightarrow>
     distinct (map tx_id (lg_txns l)) \<and>
     distinct (List.map_filter tx_idempotency_key (lg_txns l)) \<and>
     (\<forall>t \<in> set (lg_txns l). tx_id t < lg_next_txn l) \<and>
     en_txn_id ` set (lg_entries l) \<subseteq> tx_id ` set (lg_txns l) \<and>
     (\<forall>s \<in> set (lg_snapshots l). sn_txn_id s < lg_next_txn l)"

definition books_balance :: "ledger \<Rightarrow> bool" where
  "books_balance l \<longleftrightarrow>
     (\<forall>a. balance_of l a = account_total l a) \<and> (\<forall>t. txn_total l t = 0)"

definition solvent :: "ledger \<Rightarrow> bool" where
  "solvent l \<longleftrightarrow>
     (\<forall>a ac. map_of (lg_accounts l) a = Some ac \<and> requires_funds (ac_kind ac) \<longrightarrow>
        0 \<le> balance_of l a)"

definition ledger_wf :: "ledger \<Rightarrow> bool" where
  "ledger_wf l \<longleftrightarrow> keys_wf l \<and> txns_wf l \<and> books_balance l \<and> solvent l"

text \<open>Double-entry bookkeeping: if every transaction sums to zero, so do all balances together.\<close>

lemma total_balance_zero:
  assumes "ledger_wf l"
  shows "total_balance l = 0"
proof -
  have k: "keys_wf l" and t: "txns_wf l" and b: "books_balance l"
    using assms by (simp_all add: ledger_wf_def)
  have "balance_of l (fst p) = br_balance (snd p)" if "p \<in> set (lg_balances l)" for p
    using k that by (cases p) (simp add: keys_wf_def balance_of_def map_of_is_SomeI)
  then have "total_balance l = (\<Sum>a \<leftarrow> map fst (lg_balances l). balance_of l a)"
    by (auto simp: total_balance_def o_def intro!: arg_cong [where f = sum_list])
  also have "\<dots> = (\<Sum>a \<leftarrow> map fst (lg_balances l). account_total l a)"
    using b by (simp add: books_balance_def)
  also have "\<dots> = (\<Sum>e \<leftarrow> lg_entries l. en_amount e)"
    unfolding account_total_def
    using k by (intro sum_list_by_group) (auto simp: keys_wf_def)
  also have "\<dots> = (\<Sum>i \<leftarrow> map tx_id (lg_txns l). txn_total l i)"
    unfolding txn_total_def
    using t by (intro sum_list_by_group [symmetric]) (auto simp: txns_wf_def)
  also have "\<dots> = 0"
    using b by (simp add: books_balance_def o_def)
  finally show ?thesis .
qed

subsection \<open>The steps of a posting\<close>

lemma map_of_group_deltas:
  "map_of (group_deltas es) a =
     (if a \<in> fst ` set es then Some (\<Sum>e \<leftarrow> filter (\<lambda>e. fst e = a) es. snd e) else None)"
  by (auto simp: group_deltas_def map_of_map_restrict restrict_map_def
      map_of_map [of "\<lambda>a. \<Sum>e \<leftarrow> filter (\<lambda>e. fst e = a) es. snd e"] image_iff)

lemma distinct_group_deltas [simp]: "distinct (map fst (group_deltas es))"
  by (simp add: group_deltas_def o_def)

lemma fst_group_deltas [simp]: "fst ` set (group_deltas es) = fst ` set es"
  by (force simp: group_deltas_def image_iff)

lemma ensure_balances_Inr:
  assumes "ensure_balances now ids l = Inr l1"
  obtains missing where
    "l1 = l\<lparr>lg_balances := lg_balances l @ map (\<lambda>a. (a, \<lparr>br_balance = 0, br_updated_at = now\<rparr>)) missing\<rparr>"
    "set missing = {a \<in> set ids. map_of (lg_balances l) a = None}" "distinct missing"
    "\<And>a. a \<in> set ids \<Longrightarrow> map_of (lg_balances l) a = None \<Longrightarrow> map_of (lg_accounts l) a \<noteq> None"
  using assms
  by (intro that [of "filter (\<lambda>a. map_of (lg_balances l) a = None) (remdups ids)"])
    (auto simp: ensure_balances_def Let_def split: if_splits)

lemma map_of_zero_rows:
  "map_of (map (\<lambda>a. (a, r)) ks) a = (if a \<in> set ks then Some r else None)"
  by (induction ks) auto

lemma balance_of_append_zero:
  "balance_of (l\<lparr>lg_balances := lg_balances l @ map (\<lambda>a. (a, \<lparr>br_balance = 0, br_updated_at = now\<rparr>)) ks\<rparr>) a
     = balance_of l a"
  by (auto simp: balance_of_def map_add_def map_of_zero_rows split: option.splits)

lemma map_of_write_balance:
  "map_of (map (write_balance now ds) bs) a =
     map_option (\<lambda>b. snd (write_balance now ds (a, b))) (map_of bs a)"
  by (induction bs) (auto simp: write_balance_def split: option.splits)

lemma fst_write_balance [simp]: "fst (write_balance now ds p) = fst p"
  by (simp add: write_balance_def split: option.split)

lemma balance_of_write:
  "balance_of (l\<lparr>lg_balances := map (write_balance now ds) (lg_balances l), lg_snapshots := sn\<rparr>) a =
     balance_of l a +
     (if map_of (lg_balances l) a = None then 0
      else case map_of ds a of None \<Rightarrow> 0 | Some d \<Rightarrow> d)"
  by (auto simp: balance_of_def map_of_write_balance write_balance_def split: option.splits)

text \<open>The snapshots a posting writes: one row per account it touches, in group order.\<close>

definition snapshots_of :: "nat \<Rightarrow> (int, int) omap \<Rightarrow> ledger \<Rightarrow> snapshot_row list" where
  "snapshots_of txn ds l =
     map (\<lambda>(a, d). \<lparr>sn_txn_id = txn, sn_account_id = a, sn_delta = d,
                     sn_balance_after = balance_of l a + d\<rparr>) ds"

lemma update_balances_Inr:
  assumes "update_balances now txn ds l = Inr l'"
    and "fst ` set ds \<subseteq> fst ` set (lg_balances l)"
  shows "l' = l\<lparr>lg_balances := map (write_balance now ds) (lg_balances l),
                lg_snapshots := lg_snapshots l @ snapshots_of txn ds l\<rparr>"
    and "\<And>a d. (a, d) \<in> set ds \<Longrightarrow> check_balance_by_account_type l a (balance_of l a + d)"
proof -
  have "filter (\<lambda>(a, d). map_of (lg_balances l) a \<noteq> None) ds = ds"
    using assms(2) by (force simp: filter_id_conv map_of_eq_None_iff)
  then show "l' = l\<lparr>lg_balances := map (write_balance now ds) (lg_balances l),
                lg_snapshots := lg_snapshots l @ snapshots_of txn ds l\<rparr>"
    and "\<And>a d. (a, d) \<in> set ds \<Longrightarrow> check_balance_by_account_type l a (balance_of l a + d)"
    using assms(1)
    by (force simp: update_balances_def Let_def snapshots_of_def o_def case_prod_unfold
        split: if_splits)+
qed

text \<open>Everything a successful posting changes, in one place.\<close>

lemma post_body_Inr:
  assumes "post_body now a txn l = Inr l'"
  obtains ks where
    "l' = l\<lparr>
       lg_balances := map (write_balance now (group_deltas (pa_entries a)))
         (lg_balances l @ map (\<lambda>a. (a, \<lparr>br_balance = 0, br_updated_at = now\<rparr>)) ks),
       lg_entries := lg_entries l @
         map (\<lambda>e. \<lparr>en_txn_id = txn, en_account_id = fst e, en_amount = snd e\<rparr>) (pa_entries a),
       lg_snapshots := lg_snapshots l @ snapshots_of txn (group_deltas (pa_entries a)) l\<rparr>"
    "set ks = {x \<in> fst ` set (pa_entries a). map_of (lg_balances l) x = None}" "distinct ks"
    "\<And>x. x \<in> fst ` set (pa_entries a) \<Longrightarrow> map_of (lg_balances l) x = None \<Longrightarrow>
       map_of (lg_accounts l) x \<noteq> None"
    "\<not> insufficient_funds (group_deltas (pa_entries a))
        (l\<lparr>lg_balances := lg_balances l @ map (\<lambda>a. (a, \<lparr>br_balance = 0, br_updated_at = now\<rparr>)) ks\<rparr>)"
proof -
  let ?ds = "group_deltas (pa_entries a)"
  from assms obtain l1 where e: "ensure_balances now (map fst (pa_entries a)) l = Inr l1"
    and funds: "\<not> insufficient_funds ?ds l1"
    and u: "update_balances now txn ?ds (l1\<lparr>lg_entries := lg_entries l1 @
        map (\<lambda>e. \<lparr>en_txn_id = txn, en_account_id = fst e, en_amount = snd e\<rparr>) (pa_entries a)\<rparr>) = Inr l'"
    by (auto simp: post_body_def split: sum.splits if_splits)
  from e obtain ks where l1: "l1 = l\<lparr>lg_balances := lg_balances l @
        map (\<lambda>a. (a, \<lparr>br_balance = 0, br_updated_at = now\<rparr>)) ks\<rparr>"
    and ks: "set ks = {x \<in> set (map fst (pa_entries a)). map_of (lg_balances l) x = None}" "distinct ks"
    and acc: "\<And>x. x \<in> set (map fst (pa_entries a)) \<Longrightarrow> map_of (lg_balances l) x = None \<Longrightarrow>
        map_of (lg_accounts l) x \<noteq> None"
    by (rule ensure_balances_Inr) blast
  have sub: "fst ` set ?ds \<subseteq> fst ` set (lg_balances l1)"
  proof -
    have "fst ` set (lg_balances l1) = fst ` set (lg_balances l) \<union> set ks"
      by (simp add: l1 image_Un image_image)
    with ks show ?thesis by (auto simp: map_of_eq_None_iff)
  qed
  have snap: "snapshots_of txn ?ds (l1\<lparr>lg_entries := es\<rparr>) = snapshots_of txn ?ds l" for es
  proof -
    have "balance_of (l1\<lparr>lg_entries := es\<rparr>) x = balance_of l x" for x
      using balance_of_append_zero [of l now ks x] by (simp add: l1 balance_of_def)
    then show ?thesis by (simp add: snapshots_of_def)
  qed
  show thesis
    using update_balances_Inr(1) [OF u] sub funds ks acc snap
    by (intro that [of ks]) (simp_all add: l1)
qed

subsection \<open>Every operation keeps the books\<close>

lemma amounts_of_entries:
  "(\<Sum>e \<leftarrow> filter (\<lambda>e. en_account_id e = x)
      (map (\<lambda>e. \<lparr>en_txn_id = t, en_account_id = fst e, en_amount = snd e\<rparr>) es). en_amount e) =
   (\<Sum>e \<leftarrow> filter (\<lambda>e. fst e = x) es. snd e)"
  by (induction es) auto

lemma txn_of_entries:
  "(\<Sum>e \<leftarrow> filter (\<lambda>e. en_txn_id e = t')
      (map (\<lambda>e. \<lparr>en_txn_id = t, en_account_id = fst e, en_amount = snd e\<rparr>) es). en_amount e) =
   (if t' = t then (\<Sum>e \<leftarrow> es. snd e) else 0)"
  by (induction es) auto

text \<open>The delta a list of entries adds to an account: zero for an account it does not name.\<close>

definition delta_of :: "(int \<times> int) list \<Rightarrow> int \<Rightarrow> int" where
  "delta_of es x = (\<Sum>e \<leftarrow> filter (\<lambda>e. fst e = x) es. snd e)"

lemma delta_of_unnamed: "x \<notin> fst ` set es \<Longrightarrow> delta_of es x = 0"
  by (induction es) (auto simp: delta_of_def)

lemma group_deltas_delta_of:
  "map_of (group_deltas es) x = (if x \<in> fst ` set es then Some (delta_of es x) else None)"
  by (simp add: map_of_group_deltas delta_of_def)

lemma post_body_balance:
  assumes "post_body now a txn l = Inr l'"
  shows "balance_of l' x = balance_of l x + delta_of (pa_entries a) x"
proof -
  let ?zero = "\<lambda>a. (a, \<lparr>br_balance = 0, br_updated_at = now\<rparr>)"
  from assms obtain ks where
    l': "l' = l\<lparr>
       lg_balances := map (write_balance now (group_deltas (pa_entries a)))
         (lg_balances l @ map ?zero ks),
       lg_entries := lg_entries l @
         map (\<lambda>e. \<lparr>en_txn_id = txn, en_account_id = fst e, en_amount = snd e\<rparr>) (pa_entries a),
       lg_snapshots := lg_snapshots l @ snapshots_of txn (group_deltas (pa_entries a)) l\<rparr>"
    and ks: "set ks = {x \<in> fst ` set (pa_entries a). map_of (lg_balances l) x = None}"
    by (rule post_body_Inr)
  let ?l1 = "l\<lparr>lg_balances := lg_balances l @ map ?zero ks\<rparr>"
  have "balance_of l' x = balance_of (?l1\<lparr>
      lg_balances := map (write_balance now (group_deltas (pa_entries a))) (lg_balances ?l1),
      lg_snapshots := lg_snapshots ?l1\<rparr>) x"
    by (simp add: l' balance_of_def)
  also have "\<dots> = balance_of l x + delta_of (pa_entries a) x"
    using ks by (subst balance_of_write)
      (auto simp: balance_of_append_zero group_deltas_delta_of delta_of_unnamed
        map_add_def map_of_zero_rows split: option.splits)
  finally show ?thesis .
qed

lemma validate_entries_None:
  "validate_entries a = None \<Longrightarrow>
     (\<Sum>e \<leftarrow> pa_entries a. snd e) = 0 \<and> (\<forall>e \<in> set (pa_entries a). snd e \<noteq> 0)"
  by (auto simp: validate_entries_def split: if_splits)

lemma find_txn_None:
  "find_txn_by_key l k = None \<longleftrightarrow> (\<forall>t \<in> set (lg_txns l). tx_idempotency_key t \<noteq> Some k)"
  by (auto simp: find_txn_by_key_def find_None_iff)

text \<open>The outcomes of a posting.\<close>

lemma post_cases:
  obtains (rejected) e l0 where
      "post_blertcoin_transaction now a l = (Inl e, l0)"
      "l0 = l \<or> l0 = l\<lparr>lg_next_txn := Suc (lg_next_txn l)\<rparr>"
    | (replayed) k t where "validate_entries a = None" "pa_key a = Some k"
      "find_txn_by_key l k = Some t" "snapshot_rows l (tx_id t) (tx_created_at t) True \<noteq> []"
      "post_blertcoin_transaction now a l =
         (Inr (snapshot_rows l (tx_id t) (tx_created_at t) True), l\<lparr>lg_next_txn := Suc (lg_next_txn l)\<rparr>)"
    | (posted) l' where "validate_entries a = None"
      "\<And>k. pa_key a = Some k \<Longrightarrow> find_txn_by_key l k = None"
      "post_body now a (lg_next_txn l) (l\<lparr>lg_next_txn := Suc (lg_next_txn l),
         lg_txns := lg_txns l @ [new_txn_row now a (lg_next_txn l)]\<rparr>) = Inr l'"
      "post_blertcoin_transaction now a l = (Inr (snapshot_rows l' (lg_next_txn l) now False), l')"
proof (cases "validate_entries a")
  case (Some e)
  then show thesis
    by (intro rejected [of e l]) (simp_all add: post_blertcoin_transaction_def)
next
  case None
  note v = None
  show thesis
  proof (cases "\<exists>k t. pa_key a = Some k \<and> find_txn_by_key l k = Some t")
    case True
    then obtain k t where kt: "pa_key a = Some k" "find_txn_by_key l k = Some t" by blast
    show thesis
    proof (cases "snapshot_rows l (tx_id t) (tx_created_at t) True = []")
      case True
      with v kt show thesis
        by (intro rejected) (auto simp: post_blertcoin_transaction_def Let_def)
    next
      case False
      with v kt show thesis
        by (intro replayed [of k t]) (auto simp: post_blertcoin_transaction_def Let_def)
    qed
  next
    case False
    then have f: "post_blertcoin_transaction now a l =
        (case post_body now a (lg_next_txn l) (l\<lparr>lg_next_txn := Suc (lg_next_txn l),
           lg_txns := lg_txns l @ [new_txn_row now a (lg_next_txn l)]\<rparr>) of
           Inl e \<Rightarrow> (Inl e, l\<lparr>lg_next_txn := Suc (lg_next_txn l)\<rparr>)
         | Inr l' \<Rightarrow> (Inr (snapshot_rows l' (lg_next_txn l) now False), l'))"
      using v by (auto simp: post_blertcoin_transaction_def Let_def split: option.split)
    show thesis
      using f False v posted rejected
      by (cases "post_body now a (lg_next_txn l) (l\<lparr>lg_next_txn := Suc (lg_next_txn l),
           lg_txns := lg_txns l @ [new_txn_row now a (lg_next_txn l)]\<rparr>)") auto
  qed
qed

lemma post_body_fields:
  assumes "post_body now a txn l = Inr l'"
  shows "lg_accounts l' = lg_accounts l" "lg_next_account l' = lg_next_account l"
    "lg_txns l' = lg_txns l" "lg_next_txn l' = lg_next_txn l"
    "lg_entries l' = lg_entries l @
       map (\<lambda>e. \<lparr>en_txn_id = txn, en_account_id = fst e, en_amount = snd e\<rparr>) (pa_entries a)"
    "lg_snapshots l' = lg_snapshots l @ snapshots_of txn (group_deltas (pa_entries a)) l"
    "lg_system l' = lg_system l"
  by (rule post_body_Inr [OF assms], simp)+

lemma post_body_keys_wf:
  assumes "post_body now a txn l = Inr l'" and "keys_wf l"
  shows "keys_wf l'"
proof -
  from assms(1) obtain ks where
    l': "l' = l\<lparr>
       lg_balances := map (write_balance now (group_deltas (pa_entries a)))
         (lg_balances l @ map (\<lambda>a. (a, \<lparr>br_balance = 0, br_updated_at = now\<rparr>)) ks),
       lg_entries := lg_entries l @
         map (\<lambda>e. \<lparr>en_txn_id = txn, en_account_id = fst e, en_amount = snd e\<rparr>) (pa_entries a),
       lg_snapshots := lg_snapshots l @ snapshots_of txn (group_deltas (pa_entries a)) l\<rparr>"
    and ks: "set ks = {x \<in> fst ` set (pa_entries a). map_of (lg_balances l) x = None}" "distinct ks"
    and acc: "\<And>x. x \<in> fst ` set (pa_entries a) \<Longrightarrow> map_of (lg_balances l) x = None \<Longrightarrow>
       map_of (lg_accounts l) x \<noteq> None"
    by (rule post_body_Inr) blast
  have k: "fst ` set (lg_balances l) = fst ` set (lg_accounts l)"
    using assms(2) by (simp add: keys_wf_def)
  have none: "map_of (lg_balances l) x = None \<longleftrightarrow> x \<notin> fst ` set (lg_accounts l)" for x
    by (simp add: map_of_eq_None_iff k)
  have sub: "fst ` set (pa_entries a) \<subseteq> fst ` set (lg_accounts l)"
    using acc none by (auto simp: map_of_eq_None_iff)
  then have "set ks = {}"
    unfolding ks(1) none by blast
  then have "ks = []" by simp
  then have "map fst (lg_balances l') = map fst (lg_balances l)"
    by (simp add: l' o_def)
  moreover have "fst ` set (lg_balances l') = fst ` set (lg_balances l)"
    using arg_cong [OF calculation, of set] by simp
  moreover have "en_account_id e \<in> fst ` set (lg_accounts l)" if "e \<in> set (lg_entries l')" for e
  proof -
    from that have "e \<in> set (lg_entries l) \<or> en_account_id e \<in> fst ` set (pa_entries a)"
      by (force simp: l')
    then show ?thesis
      using assms(2) sub unfolding keys_wf_def by blast
  qed
  ultimately show ?thesis
    using assms(2) by (simp add: keys_wf_def l')
qed

lemma post_body_txns_wf:
  assumes "post_body now a txn l = Inr l'" and "txns_wf l" and "txn \<in> tx_id ` set (lg_txns l)"
  shows "txns_wf l'"
proof -
  from assms(2,3) have "txn < lg_next_txn l" by (auto simp: txns_wf_def)
  moreover have "en_txn_id ` set (lg_entries l') \<subseteq> en_txn_id ` set (lg_entries l) \<union> {txn}"
    by (auto simp: post_body_fields [OF assms(1)])
  ultimately show ?thesis
    using assms(2,3) post_body_fields [OF assms(1)]
    by (auto simp: txns_wf_def snapshots_of_def)
qed

lemma post_body_books:
  assumes "post_body now a txn l = Inr l'" and "books_balance l"
    and "(\<Sum>e \<leftarrow> pa_entries a. snd e) = 0"
  shows "books_balance l'"
proof -
  note entries = post_body_fields(5) [OF assms(1)]
  have "account_total l' x = account_total l x + delta_of (pa_entries a) x" for x
    by (simp add: account_total_def entries amounts_of_entries delta_of_def)
  moreover have "txn_total l' t = txn_total l t" for t
    using assms(3) by (simp add: txn_total_def entries txn_of_entries)
  ultimately show ?thesis
    using assms(1,2) by (simp add: books_balance_def post_body_balance)
qed

lemma post_body_solvent:
  assumes "post_body now a txn l = Inr l'" and "solvent l"
  shows "solvent l'"
proof -
  let ?ds = "group_deltas (pa_entries a)"
  from assms(1) obtain ks where
    ks: "set ks = {x \<in> fst ` set (pa_entries a). map_of (lg_balances l) x = None}"
    and funds: "\<not> insufficient_funds ?ds
        (l\<lparr>lg_balances := lg_balances l @ map (\<lambda>a. (a, \<lparr>br_balance = 0, br_updated_at = now\<rparr>)) ks\<rparr>)"
    by (rule post_body_Inr)
  note acc' = post_body_fields(1) [OF assms(1)]
  show ?thesis
    unfolding solvent_def
  proof (intro allI impI, elim conjE)
    fix x ac
    assume x: "map_of (lg_accounts l') x = Some ac" "requires_funds (ac_kind ac)"
    show "0 \<le> balance_of l' x"
    proof (cases "x \<in> fst ` set (pa_entries a)")
      case True
      then have d: "(x, delta_of (pa_entries a) x) \<in> set ?ds"
        by (intro map_of_SomeD) (simp add: group_deltas_delta_of)
      have "map_of (lg_balances l @ map (\<lambda>a. (a, \<lparr>br_balance = 0, br_updated_at = now\<rparr>)) ks) x \<noteq> None"
        using True ks by (auto simp: map_add_def map_of_zero_rows split: option.splits)
      with d funds x have "\<not> balance_of l x + delta_of (pa_entries a) x < 0"
        unfolding insufficient_funds_def balance_of_append_zero acc'
        by (fastforce simp: balance_of_append_zero)
      then show ?thesis
        using assms(1) by (simp add: post_body_balance)
    next
      case False
      then show ?thesis
        using assms x acc' by (simp add: post_body_balance delta_of_unnamed solvent_def)
    qed
  qed
qed

lemma totals_frame [simp]:
  "balance_of (l\<lparr>lg_next_txn := n\<rparr>) = balance_of l"
  "balance_of (l\<lparr>lg_txns := ts\<rparr>) = balance_of l"
  "balance_of (l\<lparr>lg_next_account := n\<rparr>) = balance_of l"
  "account_total (l\<lparr>lg_next_txn := n\<rparr>) = account_total l"
  "account_total (l\<lparr>lg_txns := ts\<rparr>) = account_total l"
  "account_total (l\<lparr>lg_next_account := n\<rparr>) = account_total l"
  "txn_total (l\<lparr>lg_next_txn := n\<rparr>) = txn_total l"
  "txn_total (l\<lparr>lg_txns := ts\<rparr>) = txn_total l"
  "txn_total (l\<lparr>lg_next_account := n\<rparr>) = txn_total l"
  by (simp_all add: balance_of_def account_total_def txn_total_def fun_eq_iff)

lemma wf_frame [simp]:
  "solvent (l\<lparr>lg_next_txn := n\<rparr>) = solvent l"
  "solvent (l\<lparr>lg_txns := ts\<rparr>) = solvent l"
  "solvent (l\<lparr>lg_next_account := n\<rparr>) = solvent l"
  "books_balance (l\<lparr>lg_next_txn := n\<rparr>) = books_balance l"
  "books_balance (l\<lparr>lg_txns := ts\<rparr>) = books_balance l"
  "books_balance (l\<lparr>lg_next_account := n\<rparr>) = books_balance l"
  "keys_wf (l\<lparr>lg_next_txn := n\<rparr>) = keys_wf l"
  "keys_wf (l\<lparr>lg_txns := ts\<rparr>) = keys_wf l"
  "txns_wf (l\<lparr>lg_next_account := n\<rparr>) = txns_wf l"
  by (simp_all add: solvent_def books_balance_def keys_wf_def txns_wf_def)

lemma bump_txn_wf:
  "ledger_wf l \<Longrightarrow> ledger_wf (l\<lparr>lg_next_txn := Suc (lg_next_txn l)\<rparr>)"
  by (simp add: ledger_wf_def txns_wf_def less_Suc_eq)

lemma insert_txn_wf:
  assumes "ledger_wf l" and "\<And>k. pa_key a = Some k \<Longrightarrow> find_txn_by_key l k = None"
  shows "ledger_wf (l\<lparr>lg_next_txn := Suc (lg_next_txn l),
            lg_txns := lg_txns l @ [new_txn_row now a (lg_next_txn l)]\<rparr>)"
proof -
  have "txns_wf (l\<lparr>lg_next_txn := Suc (lg_next_txn l),
            lg_txns := lg_txns l @ [new_txn_row now a (lg_next_txn l)]\<rparr>)"
    using assms
    by (auto simp: ledger_wf_def txns_wf_def new_txn_row_def List.map_filter_def find_txn_None
        less_Suc_eq)
  then show ?thesis
    using assms(1) by (simp add: ledger_wf_def)
qed

lemma post_wf:
  assumes "ledger_wf l"
  shows "ledger_wf (snd (post_blertcoin_transaction now a l))"
proof (cases rule: post_cases [of now a l])
  case (posted l')
  let ?l1 = "l\<lparr>lg_next_txn := Suc (lg_next_txn l),
               lg_txns := lg_txns l @ [new_txn_row now a (lg_next_txn l)]\<rparr>"
  have wf: "ledger_wf ?l1" using assms posted(2) by (rule insert_txn_wf)
  have "lg_next_txn l \<in> tx_id ` set (lg_txns ?l1)" by (simp add: new_txn_row_def)
  with wf posted show ?thesis
    using validate_entries_None [OF posted(1)]
    by (auto simp: ledger_wf_def intro: post_body_keys_wf post_body_txns_wf post_body_books
        post_body_solvent)
qed (use assms bump_txn_wf in auto)

lemma insert_user_account_wf:
  assumes "ledger_wf l"
  shows "ledger_wf (snd (insert_user_account now u l))"
proof (cases "\<exists>p \<in> set (lg_accounts l). is_user_account u p")
  case True
  then have "snd (insert_user_account now u l) = l\<lparr>lg_next_account := Suc (lg_next_account l)\<rparr>"
    by (simp add: insert_user_account_def Let_def)
  moreover have "keys_wf (l\<lparr>lg_next_account := Suc (lg_next_account l)\<rparr>)"
    using assms by (fastforce simp: ledger_wf_def keys_wf_def)
  ultimately show ?thesis
    using assms by (simp add: ledger_wf_def)
next
  case False
  let ?i = "int (lg_next_account l)"
  have k: "keys_wf l" using assms by (simp add: ledger_wf_def)
  have fresh: "?i \<notin> fst ` set (lg_accounts l)" using k by (auto simp: keys_wf_def)
  then have none: "map_of (lg_balances l) ?i = None" "?i \<notin> fst ` set (lg_balances l)"
    using k by (auto simp: keys_wf_def map_of_eq_None_iff)
  define l' where "l' = snd (insert_user_account now u l)"
  have l': "l' = l\<lparr>lg_next_account := Suc (lg_next_account l),
      lg_accounts := lg_accounts l @ [(?i, \<lparr>ac_owner = Some u, ac_kind = User, ac_created_at = now\<rparr>)],
      lg_balances := lg_balances l @ [(?i, \<lparr>br_balance = 0, br_updated_at = now\<rparr>)]\<rparr>"
    using False none by (simp add: l'_def insert_user_account_def Let_def)
  have bal: "balance_of l' x = balance_of l x" for x
    by (auto simp: l' balance_of_def map_add_def split: option.splits)
  have "length (filter (is_user_account v) (lg_accounts l')) \<le> 1" for v
  proof (cases "v = u")
    case True
    with False have "filter (is_user_account v) (lg_accounts l) = []"
      by (auto simp: filter_empty_conv)
    then show ?thesis by (simp add: l')
  next
    case False
    with k show ?thesis by (simp add: l' keys_wf_def is_user_account_def)
  qed
  then have "keys_wf l'"
    using k fresh none by (simp add: keys_wf_def l' less_Suc_eq order_less_imp_le) force
  moreover have "solvent l'"
    unfolding solvent_def bal
  proof (intro allI impI, elim conjE)
    fix x ac
    assume x: "map_of (lg_accounts l') x = Some ac" "requires_funds (ac_kind ac)"
    show "0 \<le> balance_of l x"
    proof (cases "x = ?i")
      case True
      with none show ?thesis by (simp add: balance_of_def)
    next
      case False
      with x have "map_of (lg_accounts l) x = Some ac"
        by (simp add: l' map_add_def split: option.splits)
      with x(2) assms show ?thesis by (simp add: ledger_wf_def solvent_def)
    qed
  qed
  moreover have "txns_wf l'" "books_balance l'"
    using assms bal
    by (simp_all add: ledger_wf_def txns_wf_def books_balance_def account_total_def txn_total_def l')
  ultimately show ?thesis by (simp add: ledger_wf_def flip: l'_def)
qed

lemma get_or_create_cases:
  "get_or_create_user_account now u seen l =
     (case find_user_account_by_user_id seen u of
        Some a \<Rightarrow> (Inr (a, False), l)
      | None \<Rightarrow>
          (case insert_user_account now u l of
             (Inr a, l') \<Rightarrow> (Inr (a, True), l')
           | (Inl e, l') \<Rightarrow> (Inl e, l')))"
  by (auto simp: get_or_create_user_account_def sql_begin_def get_or_create_body_def tx_run_def select_user_account_def
      insert_user_account_def Let_def split: option.split)

lemma get_or_create_ledger:
  "snd (get_or_create_user_account now u seen l) = l \<or>
   snd (get_or_create_user_account now u seen l) = snd (insert_user_account now u l)"
  by (auto simp: get_or_create_cases split: option.splits prod.splits sum.splits)

lemma get_or_create_wf:
  "ledger_wf l \<Longrightarrow> ledger_wf (snd (get_or_create_user_account now u seen l))"
  using get_or_create_ledger [of now u seen l] insert_user_account_wf by auto

subsection \<open>Reachable ledgers\<close>

text \<open>The state after \<^verbatim>\<open>20251116053349-seed-system-accounts.ts\<close>.\<close>

definition initial_ledger :: "nat \<Rightarrow> ledger" where
  "initial_ledger now =
     \<lparr>lg_accounts = [(1, \<lparr>ac_owner = None, ac_kind = Treasury, ac_created_at = now\<rparr>),
                    (2, \<lparr>ac_owner = None, ac_kind = Sink, ac_created_at = now\<rparr>)],
      lg_balances = [(1, \<lparr>br_balance = 0, br_updated_at = now\<rparr>), (2, \<lparr>br_balance = 0, br_updated_at = now\<rparr>)],
      lg_system = [(''treasury'', 1), (''purchases'', 2)],
      lg_txns = [], lg_entries = [], lg_snapshots = [], lg_next_account = 3, lg_next_txn = 1\<rparr>"

inductive ledger_step :: "ledger \<Rightarrow> ledger \<Rightarrow> bool" where
  post: "ledger_step l (snd (post_blertcoin_transaction now a l))"
| open_account: "ledger_step l (snd (get_or_create_user_account now u seen l))"

inductive_cases ledger_stepE: "ledger_step l l'"

inductive reachable_ledger :: "ledger \<Rightarrow> bool" where
  start: "reachable_ledger (initial_ledger now)"
| step: "reachable_ledger l \<Longrightarrow> ledger_step l l' \<Longrightarrow> reachable_ledger l'"

lemma initial_ledger_wf: "ledger_wf (initial_ledger now)"
  by (auto simp: ledger_wf_def keys_wf_def txns_wf_def books_balance_def solvent_def
      initial_ledger_def balance_of_def account_total_def txn_total_def List.map_filter_def
      is_user_account_def)

lemma ledger_step_wf: "ledger_step l l' \<Longrightarrow> ledger_wf l \<Longrightarrow> ledger_wf l'"
  by (auto elim!: ledger_stepE intro: post_wf get_or_create_wf)

lemma ledger_steps_wf: "ledger_step\<^sup>*\<^sup>* l l' \<Longrightarrow> ledger_wf l \<Longrightarrow> ledger_wf l'"
  by (induction rule: rtranclp_induct) (auto intro: ledger_step_wf)

lemma reachable_ledger_wf: "reachable_ledger l \<Longrightarrow> ledger_wf l"
  by (induction rule: reachable_ledger.induct) (auto intro: initial_ledger_wf ledger_step_wf)

text \<open>A recorded transaction is never rewritten.\<close>

definition recorded :: "ledger \<Rightarrow> string \<Rightarrow> txn_row \<Rightarrow> snapshot_row list \<Rightarrow> bool" where
  "recorded l k t sn \<longleftrightarrow>
     find_txn_by_key l k = Some t \<and> filter (\<lambda>s. sn_txn_id s = tx_id t) (lg_snapshots l) = sn"

lemma find_append:
  "find P (xs @ ys) = (case find P xs of None \<Rightarrow> find P ys | Some x \<Rightarrow> Some x)"
  by (induction xs) auto

lemma find_Some_mem: "find P xs = Some x \<Longrightarrow> x \<in> set xs \<and> P x"
  by (induction xs) (auto split: if_splits)

lemma recorded_post:
  assumes "ledger_wf l" and "recorded l k t sn"
  shows "recorded (snd (post_blertcoin_transaction now a l)) k t sn"
proof (cases rule: post_cases [of now a l])
  case (posted l')
  have "tx_id t < lg_next_txn l"
    using assms find_Some_mem
    by (fastforce simp: recorded_def find_txn_by_key_def ledger_wf_def txns_wf_def)
  then have "filter (\<lambda>s. sn_txn_id s = tx_id t) (snapshots_of (lg_next_txn l) ds l0) = []" for ds l0
    by (auto simp: snapshots_of_def filter_empty_conv)
  with assms(2) posted show ?thesis
    by (simp add: recorded_def find_txn_by_key_def post_body_fields [OF posted(3)] find_append)
qed (use assms in \<open>auto simp: recorded_def find_txn_by_key_def\<close>)

text \<open>Accounts are never closed.\<close>

lemma accounts_kept: "ledger_step\<^sup>*\<^sup>* l l' \<Longrightarrow> set (lg_accounts l) \<subseteq> set (lg_accounts l')"
proof (induction rule: rtranclp_induct)
  case (step l1 l2)
  from step.hyps(2) have "set (lg_accounts l1) \<subseteq> set (lg_accounts l2)"
  proof cases
    case (post now a)
    then show ?thesis by (cases rule: post_cases [of now a l1]) (auto simp: post_body_fields)
  next
    case (open_account now u seen)
    then show ?thesis
      using get_or_create_ledger [of now u seen l1] by (auto simp: insert_user_account_def Let_def split: if_splits)
  qed
  with step.IH show ?case by blast
qed simp

lemma recorded_open:
  "recorded l k t sn \<Longrightarrow> recorded (snd (get_or_create_user_account now u seen l)) k t sn"
  using get_or_create_ledger [of now u seen l]
  by (auto simp: recorded_def find_txn_by_key_def insert_user_account_def Let_def)

lemma recorded_step: "ledger_step l l' \<Longrightarrow> ledger_wf l \<Longrightarrow> recorded l k t sn \<Longrightarrow> recorded l' k t sn"
  by (auto elim!: ledger_stepE intro: recorded_post recorded_open)

lemma recorded_steps:
  "ledger_step\<^sup>*\<^sup>* l l' \<Longrightarrow> ledger_wf l \<Longrightarrow> recorded l k t sn \<Longrightarrow> recorded l' k t sn"
  by (induction rule: rtranclp_induct) (auto intro: recorded_step ledger_steps_wf)

subsection \<open>The posting service\<close>

text \<open>
  What the API relies on when it posts: an operation that keeps a validity invariant, leaves every
  balance alone when it fails or replays, and otherwise adds to each account exactly what a
  zero-sum list of entries says.
\<close>

locale posting_service =
  fixes valid :: "'l \<Rightarrow> bool"
    and bal :: "'l \<Rightarrow> int \<Rightarrow> int"
    and post :: "nat \<Rightarrow> post_args \<Rightarrow> 'l \<Rightarrow> ('e + result_row list) \<times> 'l"
  assumes post_valid: "valid l \<Longrightarrow> valid (snd (post now a l))"
    and post_effect: "valid l \<Longrightarrow>
        bal (snd (post now a l)) = bal l \<or>
        (\<forall>x. bal (snd (post now a l)) x = bal l x + delta_of (pa_entries a) x) \<and>
        (\<Sum>e \<leftarrow> pa_entries a. snd e) = 0"
    and post_failure: "valid l \<Longrightarrow> fst (post now a l) = Inl e \<Longrightarrow> bal (snd (post now a l)) = bal l"
begin

text \<open>Money neither appears nor vanishes inside a set of accounts that holds all the entries.\<close>

lemma post_conserves:
  assumes "valid l" and "finite A" and "fst ` set (pa_entries a) \<subseteq> A"
  shows "(\<Sum>x \<in> A. bal (snd (post now a l)) x) = (\<Sum>x \<in> A. bal l x)"
proof -
  have "(\<Sum>x \<in> A. delta_of es x) = (\<Sum>e \<leftarrow> es. snd e)" if "fst ` set es \<subseteq> A" for es
    using that
  proof (induction es)
    case (Cons e es)
    have "(\<Sum>x \<in> A. delta_of (e # es) x) = (\<Sum>x \<in> A. (if x = fst e then snd e else 0) + delta_of es x)"
      by (intro sum.cong) (auto simp: delta_of_def)
    also have "\<dots> = snd e + (\<Sum>e \<leftarrow> es. snd e)"
      using Cons assms(2) by (simp add: sum.distrib)
    finally show ?case by simp
  qed (simp add: delta_of_def)
  then show ?thesis
    using post_effect [OF assms(1), of now a] assms(3) by (auto simp: sum.distrib)
qed

lemma posts_conserve:
  assumes "valid l" and "finite A" and "\<forall>(now, a) \<in> set ps. fst ` set (pa_entries a) \<subseteq> A"
  shows "(\<Sum>x \<in> A. bal (fold (\<lambda>(now, a) l. snd (post now a l)) ps l) x) = (\<Sum>x \<in> A. bal l x)"
  using assms(1,3)
proof (induction ps arbitrary: l)
  case (Cons p ps)
  then show ?case
    using post_conserves [OF _ assms(2)] by (auto simp: post_valid)
qed simp

end

lemma post_effect_cases:
  "balance_of (snd (post_blertcoin_transaction now a l)) = balance_of l \<or>
   (\<forall>x. balance_of (snd (post_blertcoin_transaction now a l)) x = balance_of l x + delta_of (pa_entries a) x) \<and>
   (\<Sum>e \<leftarrow> pa_entries a. snd e) = 0"
proof (cases rule: post_cases [of now a l])
  case (posted l')
  then show ?thesis
    using post_body_balance [OF posted(3)] validate_entries_None [OF posted(1)] by simp
qed auto

lemma post_failure_ledger:
  assumes "fst (post_blertcoin_transaction now a l) = Inl e"
  shows "snd (post_blertcoin_transaction now a l) = l \<or>
         snd (post_blertcoin_transaction now a l) = l\<lparr>lg_next_txn := Suc (lg_next_txn l)\<rparr>"
  using assms by (cases rule: post_cases [of now a l]) auto

interpretation bank: posting_service ledger_wf balance_of post_blertcoin_transaction
proof unfold_locales
  fix now a l e
  assume "fst (post_blertcoin_transaction now a l) = Inl e"
  then show "balance_of (snd (post_blertcoin_transaction now a l)) = balance_of l"
    using post_failure_ledger by fastforce
qed (use post_wf post_effect_cases in auto)

lemma find_user_account_iff:
  assumes "keys_wf l"
  shows "find_user_account_by_user_id l u = None \<longleftrightarrow> \<not> (\<exists>p \<in> set (lg_accounts l). is_user_account u p)"
proof -
  have "account_row_of l (fst p) (snd p) \<noteq> None" if "p \<in> set (lg_accounts l)" for p
    using assms that
    by (auto simp: keys_wf_def account_row_of_def map_of_eq_None_iff split: option.split)
  then have "List.map_filter (\<lambda>(i, a). if is_user_account u (i, a) then account_row_of l i a else None)
      (lg_accounts l) = [] \<longleftrightarrow> \<not> (\<exists>p \<in> set (lg_accounts l). is_user_account u p)"
    by (force simp: List.map_filter_def filter_empty_conv)
  then show ?thesis
    by (auto simp: find_user_account_by_user_id_def split: list.splits)
qed

lemma insert_user_account_fresh:
  assumes "keys_wf l" and "\<not> (\<exists>p \<in> set (lg_accounts l). is_user_account u p)"
  shows "\<exists>row. fst (insert_user_account now u l) = Inr row \<and> row_owner_user_id row = Some u \<and>
     row_balance row = 0 \<and>
     find_user_account_by_user_id (snd (insert_user_account now u l)) u = Some row"
proof -
  let ?i = "int (lg_next_account l)"
  have fresh: "?i \<notin> fst ` set (lg_accounts l)" "?i \<notin> fst ` set (lg_balances l)"
    using assms(1) by (auto simp: keys_wf_def)
  then have none: "map_of (lg_balances l) ?i = None" by (simp add: map_of_eq_None_iff)
  have "List.map_filter (\<lambda>(i, a). if is_user_account u (i, a) then f i a else None) (lg_accounts l) = []"
    for f :: "int \<Rightarrow> account \<Rightarrow> account_row option"
    using assms(2) by (auto simp: List.map_filter_def filter_empty_conv)
  then show ?thesis
    using assms(2) none
    by (simp add: insert_user_account_def Let_def find_user_account_by_user_id_def
        List.map_filter_def is_user_account_def account_row_of_def map_add_def)
qed

text \<open>The trigger's error is unreachable through a posting: the procedure checks first.\<close>

lemma post_body_never_triggers:
  assumes "keys_wf l"
  shows "post_body now a txn l \<noteq> Inl Negative_Balance_Not_Allowed"
proof
  let ?ds = "group_deltas (pa_entries a)"
  assume "post_body now a txn l = Inl Negative_Balance_Not_Allowed"
  then obtain l1 where e: "ensure_balances now (map fst (pa_entries a)) l = Inr l1"
    and funds: "\<not> insufficient_funds ?ds l1"
    and u: "update_balances now txn ?ds (l1\<lparr>lg_entries := lg_entries l1 @
        map (\<lambda>e. \<lparr>en_txn_id = txn, en_account_id = fst e, en_amount = snd e\<rparr>) (pa_entries a)\<rparr>)
          = Inl Negative_Balance_Not_Allowed"
    by (auto simp: post_body_def ensure_balances_def Let_def split: sum.splits if_splits)
  from u obtain x d where d: "(x, d) \<in> set ?ds" "map_of (lg_balances l1) x \<noteq> None"
    and trig: "\<not> check_balance_by_account_type l1 x (balance_of l1 x + d)"
    by (auto simp: update_balances_def Let_def check_balance_by_account_type_def balance_of_def
        split: if_splits)
  have k: "fst ` set (lg_balances l) = fst ` set (lg_accounts l)"
    using assms by (simp add: keys_wf_def)
  obtain ac where ac: "map_of (lg_accounts l1) x = Some ac"
  proof -
    from e obtain ks where l1: "l1 = l\<lparr>lg_balances := lg_balances l @
        map (\<lambda>a. (a, \<lparr>br_balance = 0, br_updated_at = now\<rparr>)) ks\<rparr>"
      and acc: "\<And>y. y \<in> set (map fst (pa_entries a)) \<Longrightarrow> map_of (lg_balances l) y = None \<Longrightarrow>
        map_of (lg_accounts l) y \<noteq> None"
      by (rule ensure_balances_Inr) blast
    have "x \<in> fst ` set ?ds" using d(1) by (rule rev_image_eqI) simp
    then have "map_of (lg_balances l) x = None \<Longrightarrow> map_of (lg_accounts l) x \<noteq> None"
      using acc [of x] by simp
    moreover have "map_of (lg_balances l) x = None \<longleftrightarrow> map_of (lg_accounts l) x = None"
      by (simp add: map_of_eq_None_iff k)
    ultimately have "map_of (lg_accounts l) x \<noteq> None" by auto
    then show thesis using that by (auto simp: l1)
  qed
  with trig have "balance_of l1 x + d < 0" "requires_funds (ac_kind ac)"
    by (cases "ac_kind ac"; simp add: check_balance_by_account_type_def requires_funds_def)+
  with d ac funds show False
    by (fastforce simp: insufficient_funds_def)
qed

subsection \<open>Properties\<close>

text \<open>A ledger reached by opening an account for user 7 and granting it five coins.\<close>

definition sample_grant :: post_args where
  "sample_grant = \<lparr>pa_created_by = 0, pa_svc = ''web'', pa_reason = ''grant'', pa_key = Some ''k1'',
     pa_source_table = None, pa_source_id = None, pa_metadata = None, pa_entries = [(1, -5), (3, 5)]\<rparr>"

definition sample_opened :: ledger where
  "sample_opened = snd (get_or_create_user_account 1 7 (initial_ledger 0) (initial_ledger 0))"

definition sample_ledger :: ledger where
  "sample_ledger = snd (post_blertcoin_transaction 2 sample_grant sample_opened)"

lemma sample_opened_reachable: "reachable_ledger sample_opened"
  unfolding sample_opened_def
  by (rule reachable_ledger.step [OF reachable_ledger.start ledger_step.open_account])

lemma sample_ledger_reachable: "reachable_ledger sample_ledger"
  unfolding sample_ledger_def
  by (rule reachable_ledger.step [OF sample_opened_reachable ledger_step.post])

text \<open>What a fresh posting returns: one row per account named, carrying its new balance.\<close>

lemma posted_rows:
  assumes "ledger_wf l" and "post_body now a (lg_next_txn l) (l\<lparr>lg_next_txn := Suc (lg_next_txn l),
      lg_txns := lg_txns l @ [new_txn_row now a (lg_next_txn l)]\<rparr>) = Inr l'"
  shows "snapshot_rows l' (lg_next_txn l) now False =
    map (\<lambda>x. \<lparr>rr_transaction_id = lg_next_txn l, rr_created_at = now, rr_account_id = x,
              rr_delta = delta_of (pa_entries a) x, rr_balance_after = balance_of l' x,
              rr_idempotent = False\<rparr>) (remdups (map fst (pa_entries a)))"
proof -
  let ?i = "lg_next_txn l"
  have "filter (\<lambda>s. sn_txn_id s = ?i) (lg_snapshots l) = []"
    using assms(1) by (auto simp: ledger_wf_def txns_wf_def filter_empty_conv)
  moreover have "filter (\<lambda>s. sn_txn_id s = ?i) (snapshots_of ?i ds l0) = snapshots_of ?i ds l0" for ds l0
    by (auto simp: snapshots_of_def filter_id_conv)
  ultimately show ?thesis
    using post_body_fields(6) [OF assms(2)] post_body_balance [OF assms(2)]
    by (simp add: snapshot_rows_def snapshots_of_def group_deltas_def delta_of_def o_def)
qed

definition bump_txn_sequence :: "ledger \<Rightarrow> ledger" where
  "bump_txn_sequence l = l\<lparr>lg_next_txn := Suc (lg_next_txn l)\<rparr>"

text \<open>
  C16: In every ledger reachable from the seeded state by postings and account openings, whatever
  their outcome, all balances sum to zero, each balance is the sum of the account's entries, every
  transaction's entries cancel, and no user, sink or escrow account is below zero.
\<close>

theorem ledger_books_balance:
  assumes "reachable_ledger l"
  shows "total_balance l = 0 \<and>
    (\<forall>a. balance_of l a = account_total l a) \<and> (\<forall>t. txn_total l t = 0) \<and>
    (\<forall>a ac. map_of (lg_accounts l) a = Some ac \<and> ac_kind ac \<in> {User, Sink, Escrow} \<longrightarrow> 0 \<le> balance_of l a)"
  using reachable_ledger_wf [OF assms] total_balance_zero
  by (auto simp: ledger_wf_def books_balance_def solvent_def requires_funds_def)

theorem ledger_books_balance_witness:
  "balance_of sample_ledger 3 = 5 \<and> balance_of sample_ledger 1 = -5 \<and> total_balance sample_ledger = 0"
proof -
  have "balance_of sample_ledger 3 = 5 \<and> balance_of sample_ledger 1 = -5" by code_simp
  with ledger_books_balance [OF sample_ledger_reachable] show ?thesis by simp
qed

text \<open>
  C27: Idempotency. Once a posting under a key has returned rows, any later posting under that key
  whose entries pass validation, after any further steps of the ledger, returns the same rows
  marked as replayed and changes nothing but the drawn sequence value.
\<close>

theorem post_replays:
  assumes "reachable_ledger l" and "post_blertcoin_transaction now a l = (Inr rows, l1)"
    and "pa_key a = Some k" and "pa_entries a \<noteq> []"
    and "ledger_step\<^sup>*\<^sup>* l1 l2" and "pa_key b = Some k" and "validate_entries b = None"
  shows "post_blertcoin_transaction now' b l2 =
    (Inr (map (\<lambda>r. r\<lparr>rr_idempotent := True\<rparr>) rows), l2\<lparr>lg_next_txn := Suc (lg_next_txn l2)\<rparr>)"
proof -
  have wf: "ledger_wf l" using assms(1) by (rule reachable_ledger_wf)
  have l1: "l1 = snd (post_blertcoin_transaction now a l)" using assms(2) by simp
  have wf1: "ledger_wf l1" unfolding l1 using wf by (rule post_wf)
  have "\<exists>t sn. recorded l1 k t sn \<and> sn \<noteq> [] \<and>
      map (\<lambda>r. r\<lparr>rr_idempotent := True\<rparr>) rows = snapshot_rows l1 (tx_id t) (tx_created_at t) True"
  proof (cases rule: post_cases [of now a l])
    case (rejected e l0)
    with assms(2) show ?thesis by simp
  next
    case (replayed k' t)
    with assms(2,3) show ?thesis
      by (intro exI [of _ t]) (auto simp: recorded_def find_txn_by_key_def snapshot_rows_def)
  next
    case (posted l')
    let ?i = "lg_next_txn l"
    have "filter (\<lambda>s. sn_txn_id s = ?i) (lg_snapshots l) = []"
      using wf by (auto simp: ledger_wf_def txns_wf_def filter_empty_conv)
    moreover have "filter (\<lambda>s. sn_txn_id s = ?i) (snapshots_of ?i ds l0) = snapshots_of ?i ds l0" for ds l0
      by (auto simp: snapshots_of_def filter_id_conv)
    moreover have "group_deltas (pa_entries a) \<noteq> []"
      using assms(4) by (auto simp: group_deltas_def)
    ultimately show ?thesis
      using posted assms(2,3) post_body_fields [OF posted(3)]
      by (intro exI [of _ "new_txn_row now a ?i"])
        (auto simp: recorded_def find_txn_by_key_def find_append new_txn_row_def snapshot_rows_def
          snapshots_of_def)
  qed
  then obtain t sn where rec: "recorded l1 k t sn" and ne: "sn \<noteq> []"
    and rows: "map (\<lambda>r. r\<lparr>rr_idempotent := True\<rparr>) rows = snapshot_rows l1 (tx_id t) (tx_created_at t) True"
    by blast
  have rec2: "recorded l2 k t sn" using assms(5) wf1 rec by (rule recorded_steps)
  then have "snapshot_rows l2 (tx_id t) (tx_created_at t) True = snapshot_rows l1 (tx_id t) (tx_created_at t) True"
    using rec by (simp add: snapshot_rows_def recorded_def)
  moreover have "snapshot_rows l2 (tx_id t) (tx_created_at t) True \<noteq> []"
    using rec2 ne by (simp add: snapshot_rows_def recorded_def)
  ultimately show ?thesis
    using rec2 assms(6,7) rows
    by (simp add: post_blertcoin_transaction_def recorded_def Let_def)
qed

theorem post_replays_witness:
  "post_blertcoin_transaction 9 (sample_grant\<lparr>pa_entries := [(1, 4), (3, -4)]\<rparr>) sample_ledger =
    (Inr (map (\<lambda>r. r\<lparr>rr_idempotent := True\<rparr>)
            (snapshot_rows sample_ledger 1 2 False)),
     sample_ledger\<lparr>lg_next_txn := Suc (lg_next_txn sample_ledger)\<rparr>)"
proof -
  have "fst (post_blertcoin_transaction 2 sample_grant sample_opened) = Inr (snapshot_rows sample_ledger 1 2 False)"
    by code_simp
  then have p: "post_blertcoin_transaction 2 sample_grant sample_opened =
      (Inr (snapshot_rows sample_ledger 1 2 False), sample_ledger)"
    by (simp add: sample_ledger_def prod_eq_iff)
  have v: "validate_entries (sample_grant\<lparr>pa_entries := [(1, 4), (3, -4)]\<rparr>) = None" by code_simp
  show ?thesis
    by (rule post_replays [OF sample_opened_reachable p _ _ rtranclp.rtrancl_refl _ v])
      (simp_all add: sample_grant_def)
qed

text \<open>The outcomes of a posting on a reachable ledger. A failure rolls back every row, keeping at
  most the drawn sequence value, and is never the trigger's error; a replay writes nothing; a fresh
  posting adds to every account exactly the sum of its entries and returns one row per account
  named, with that sum and the account's new balance.
\<close>

theorem post_outcomes:
  assumes "reachable_ledger l"
  shows "case post_blertcoin_transaction now a l of
      (Inl e, l') \<Rightarrow> e \<noteq> Negative_Balance_Not_Allowed \<and> l' \<in> {l, bump_txn_sequence l}
    | (Inr rows, l') \<Rightarrow>
        (if \<exists>k. pa_key a = Some k \<and> find_txn_by_key l k \<noteq> None then l' = bump_txn_sequence l
         else (\<forall>x. balance_of l' x = balance_of l x + delta_of (pa_entries a) x) \<and>
           map rr_account_id rows = remdups (map fst (pa_entries a)) \<and>
           (\<forall>r \<in> set rows. rr_delta r = delta_of (pa_entries a) (rr_account_id r) \<and>
              rr_balance_after r = balance_of l' (rr_account_id r) \<and> \<not> rr_idempotent r))"
proof (cases rule: post_cases [of now a l])
  case (rejected e l0)
  have wf: "ledger_wf l" using assms by (rule reachable_ledger_wf)
  have "keys_wf (l\<lparr>lg_next_txn := Suc (lg_next_txn l),
      lg_txns := lg_txns l @ [new_txn_row now a (lg_next_txn l)]\<rparr>)"
    using wf by (simp add: ledger_wf_def)
  then have "e \<noteq> Negative_Balance_Not_Allowed"
    using rejected(1) post_body_never_triggers
    by (auto simp: post_blertcoin_transaction_def validate_entries_def Let_def
        split: option.splits sum.splits if_splits)
  with rejected show ?thesis by (simp add: bump_txn_sequence_def)
next
  case (replayed k t)
  then show ?thesis by (auto simp: bump_txn_sequence_def)
next
  case (posted l')
  have "ledger_wf l" using assms by (rule reachable_ledger_wf)
  with posted show ?thesis
    using post_body_balance [OF posted(3)]
    by (auto simp: posted_rows o_def)
qed

theorem post_outcomes_witness:
  "balance_of (snd (post_blertcoin_transaction 5 (sample_grant\<lparr>pa_key := None\<rparr>) sample_ledger)) 3 = 10"
proof -
  have "\<not> isl (fst (post_blertcoin_transaction 5 (sample_grant\<lparr>pa_key := None\<rparr>) sample_ledger))"
    by code_simp
  then have r: "\<exists>rows. fst (post_blertcoin_transaction 5 (sample_grant\<lparr>pa_key := None\<rparr>) sample_ledger) = Inr rows"
    by (auto simp: isl_def split: sum.splits) (metis obj_sumE)
  have "balance_of sample_ledger 3 = 5" "delta_of (pa_entries sample_grant) 3 = 5"
    by code_simp+
  with post_outcomes [OF sample_ledger_reachable, where now = 5 and a = "sample_grant\<lparr>pa_key := None\<rparr>"] r
  show ?thesis by (auto split: prod.splits)
qed

text \<open>Opening an account on the current state of a reachable ledger always succeeds: the row it
  returns is the account a lookup then finds, it belongs to the user, a created one is empty, a
  second call returns it again without creating another, and the total is unchanged.
\<close>

theorem open_account_functional:
  assumes "reachable_ledger l"
  shows "\<exists>row created l'. get_or_create_user_account now u l l = (Inr (row, created), l') \<and>
    find_user_account_by_user_id l' u = Some row \<and>
    (created \<longleftrightarrow> find_user_account_by_user_id l u = None) \<and>
    (created \<longrightarrow> row_balance row = 0 \<and> row_owner_user_id row = Some u) \<and>
    get_or_create_user_account now' u l' l' = (Inr (row, False), l') \<and>
    (\<forall>x. balance_of l' x = balance_of l x)"
proof (cases "find_user_account_by_user_id l u")
  case (Some row)
  then show ?thesis by (auto simp: get_or_create_cases)
next
  case None
  have wf: "ledger_wf l" using assms by (rule reachable_ledger_wf)
  then have k: "keys_wf l" by (simp add: ledger_wf_def)
  have none: "\<not> (\<exists>p \<in> set (lg_accounts l). is_user_account u p)"
    using None find_user_account_iff [OF k] by simp
  obtain row where row: "fst (insert_user_account now u l) = Inr row" "row_owner_user_id row = Some u"
      "row_balance row = 0" "find_user_account_by_user_id (snd (insert_user_account now u l)) u = Some row"
    using insert_user_account_fresh [OF k none] by blast
  have "balance_of (snd (insert_user_account now u l)) x = balance_of l x" for x
    by (auto simp: insert_user_account_def Let_def balance_of_def map_add_def split: option.splits)
  with None row show ?thesis
    by (cases "insert_user_account now u l") (auto simp: get_or_create_cases)
qed

theorem open_account_functional_witness:
  "\<exists>row. fst (get_or_create_user_account 9 7 sample_ledger sample_ledger) = Inr (row, False)"
proof -
  have "find_user_account_by_user_id sample_ledger 7 \<noteq> None" by code_simp
  then show ?thesis
    using open_account_functional [OF sample_ledger_reachable, of 9 7 9] by fastforce
qed

end
