(* ===== verification/Bank_Api.thy ===== *)
theory Bank_Api
  imports Ledger
begin

text \<open>
  The HTTP surface of blertbank: \<^verbatim>\<open>core/transactions.ts\<close> (the call of the stored procedure and the
  translation of its error codes), \<^verbatim>\<open>api/transactions.ts\<close> (validation, participant resolution,
  responses), \<^verbatim>\<open>api/accounts.ts\<close>, \<^verbatim>\<open>api/error.ts\<close> and the error handler of \<^verbatim>\<open>api/index.ts\<close>. A request
  body is a JSON value where the code inspects its type; a thrown error is the left side of a sum.
  Participants are resolved in list order, one of the orders \<^verbatim>\<open>Promise.all\<close> admits; the queries read
  the committed ledger \<open>seen\<close>, the posting runs on the ledger \<open>l\<close>. Messages are the code's, without
  the identifiers and indices it interpolates.
\<close>

subsection \<open>Values and errors\<close>

datatype json =
    JNull | JBool bool | JInt int | JFrac | JStr string
  | JArr "json list" | JObj "(string \<times> json) list"

fun json_field :: "string \<Rightarrow> json \<Rightarrow> json option" where
  "json_field k (JObj kvs) = map_of kvs k"
| "json_field k v = None"

text \<open>\<^verbatim>\<open>typeof v === 'object' && v !== null\<close>.\<close>

fun is_json_object :: "json \<Rightarrow> bool" where
  "is_json_object (JObj kvs) = True"
| "is_json_object (JArr vs) = True"
| "is_json_object v = False"

text \<open>\<^verbatim>\<open>Number.isInteger(v)\<close>, with the integer.\<close>

fun json_int :: "json option \<Rightarrow> int option" where
  "json_int (Some (JInt n)) = Some n"
| "json_int v = None"

fun is_json_number :: "json option \<Rightarrow> bool" where
  "is_json_number (Some (JInt n)) = True"
| "is_json_number (Some JFrac) = True"
| "is_json_number v = False"

datatype api_error_code =
    ACCOUNT_NOT_FOUND | INSUFFICIENT_FUNDS | INVALID_AMOUNT | UNBALANCED_TRANSACTION
  | BAD_REQUEST | INTERNAL_ERROR | UNAUTHORIZED

fun status_code :: "api_error_code \<Rightarrow> nat" where
  "status_code BAD_REQUEST = 400"
| "status_code INVALID_AMOUNT = 400"
| "status_code UNBALANCED_TRANSACTION = 400"
| "status_code INSUFFICIENT_FUNDS = 422"
| "status_code ACCOUNT_NOT_FOUND = 404"
| "status_code INTERNAL_ERROR = 500"
| "status_code UNAUTHORIZED = 401"

datatype transaction_error_code = Unbalanced | Bad_Amount | No_Funds

datatype failure =
    Api_Error api_error_code string
  | Transaction_Error transaction_error_code string
  | Plain_Error string
  | Postgres_Error pg_error

text \<open>The body \<^verbatim>\<open>apiErrorHandler\<close> sends: status, error code and message.\<close>

fun api_error_handler :: "failure \<Rightarrow> nat \<times> api_error_code \<times> string" where
  "api_error_handler (Api_Error c msg) = (status_code c, c, msg)"
| "api_error_handler (Transaction_Error c msg) = (500, INTERNAL_ERROR, ''An unexpected error occurred'')"
| "api_error_handler (Plain_Error msg) = (500, INTERNAL_ERROR, ''An unexpected error occurred'')"
| "api_error_handler (Postgres_Error e) = (500, INTERNAL_ERROR, ''An unexpected error occurred'')"

subsection \<open>\<^verbatim>\<open>postTransaction\<close>\<close>

record post_result =
  pr_transaction_id :: nat
  pr_created_at :: nat
  pr_entries :: "(int \<times> int \<times> int) list"
  pr_idempotent :: bool

definition pg_failure :: "pg_error \<Rightarrow> failure" where
  "pg_failure e =
     (if pg_code e = ''BL101'' then
        Transaction_Error Unbalanced ''Transaction entries do not sum to zero''
      else if pg_code e = ''BL102'' then
        Transaction_Error Bad_Amount ''Zero-amount entries are not allowed''
      else if pg_code e = ''BL103'' then
        Transaction_Error No_Funds ''Account has insufficient funds''
      else if pg_code e = ''BL104'' then Plain_Error ''Internal error posting transaction''
      else Postgres_Error e)"

definition post_transaction :: "nat \<Rightarrow> post_args \<Rightarrow> ledger \<Rightarrow> (failure + post_result) \<times> ledger" where
  "post_transaction now req l =
     (case post_blertcoin_transaction now req l of
        (Inl e, l') \<Rightarrow> (Inl (pg_failure e), l')
      | (Inr rows, l') \<Rightarrow>
          ((case rows of
              [] \<Rightarrow> Inl (Plain_Error ''No rows returned from post_blertcoin_transaction'')
            | r # _ \<Rightarrow> Inr \<lparr>pr_transaction_id = rr_transaction_id r, pr_created_at = rr_created_at r,
                pr_entries = map (\<lambda>r. (rr_account_id r, rr_delta r, rr_balance_after r)) rows,
                pr_idempotent = rr_idempotent r\<rparr>), l'))"

subsection \<open>Participants\<close>

datatype participant_id = By_Account json | By_User json | By_System string

record participant =
  pt_id :: participant_id
  pt_amount :: "json option"

text \<open>\<^verbatim>\<open>isParticipant\<close>, returning the participant it accepts.\<close>

definition is_participant :: "json \<Rightarrow> participant option" where
  "is_participant p =
     (case json_field ''kind'' p of
        Some (JStr kind) \<Rightarrow>
          (if kind = ''account'' \<and> is_json_number (json_field ''accountId'' p) then
             Some \<lparr>pt_id = By_Account (the (json_field ''accountId'' p)), pt_amount = json_field ''amount'' p\<rparr>
           else if kind = ''user'' \<and> is_json_number (json_field ''userId'' p) then
             Some \<lparr>pt_id = By_User (the (json_field ''userId'' p)), pt_amount = json_field ''amount'' p\<rparr>
           else if kind = ''system'' then
             (case json_field ''name'' p of
                Some (JStr name) \<Rightarrow> Some \<lparr>pt_id = By_System name, pt_amount = json_field ''amount'' p\<rparr>
              | _ \<Rightarrow> None)
           else None)
      | _ \<Rightarrow> None)"

definition not_found :: "string \<Rightarrow> failure" where
  "not_found msg = Api_Error ACCOUNT_NOT_FOUND msg"

text \<open>A numeric parameter of a query: the database rejects what its column type cannot hold.\<close>

fun sql_number :: "(int \<Rightarrow> bool) \<Rightarrow> json \<Rightarrow> failure + int" where
  "sql_number ok (JInt n) = (if ok n then Inr n else Inl (Postgres_Error Numeric_Out_Of_Range))"
| "sql_number ok v = Inl (Postgres_Error Invalid_Text)"

definition resolve_participant :: "ledger \<Rightarrow> participant \<Rightarrow> failure + int" where
  "resolve_participant seen p =
     (case pt_id p of
        By_Account v \<Rightarrow>
          (case sql_number bigint_ok v of
             Inl e \<Rightarrow> Inl e
           | Inr i \<Rightarrow> (case find_account_by_id seen i of
                 None \<Rightarrow> Inl (not_found ''Account not found'')
               | Some a \<Rightarrow> Inr i))
      | By_User v \<Rightarrow>
          (case sql_number integer_ok v of
             Inl e \<Rightarrow> Inl e
           | Inr u \<Rightarrow> (case find_user_account_by_user_id seen u of
                 None \<Rightarrow> Inl (not_found ''User does not have an account'')
               | Some a \<Rightarrow> Inr (row_id a)))
      | By_System name \<Rightarrow>
          (case find_system_account_by_name seen name of
             None \<Rightarrow> Inl (not_found ''System account not found'')
           | Some a \<Rightarrow> Inr (row_id a)))"

fun resolve_all :: "ledger \<Rightarrow> participant list \<Rightarrow> failure + (participant \<times> int) list" where
  "resolve_all seen [] = Inr []"
| "resolve_all seen (p # ps) =
     (case resolve_participant seen p of
        Inl e \<Rightarrow> Inl e
      | Inr i \<Rightarrow> (case resolve_all seen ps of Inl e \<Rightarrow> Inl e | Inr rs \<Rightarrow> Inr ((p, i) # rs)))"

text \<open>An entry as the handler holds it before validation: account ID and amount, unchecked.\<close>

type_synonym raw_entry = "json option \<times> json option"

definition resolve_participants ::
    "ledger \<Rightarrow> participant list \<Rightarrow> failure + raw_entry list \<times> (int, participant) omap" where
  "resolve_participants seen ps =
     (case resolve_all seen ps of
        Inl e \<Rightarrow> Inl e
      | Inr rs \<Rightarrow> Inr (map (\<lambda>(p, i). (Some (JInt i), pt_amount p)) rs,
                     fold (\<lambda>(p, i). AList.update i p) rs []))"

subsection \<open>\<^verbatim>\<open>create\<close>\<close>

record create_body =
  cb_created_by :: "json option"
  cb_reason :: "json option"
  cb_idempotency_key :: "string option"
  cb_source :: "(string \<times> int) option"
  cb_metadata :: "string option"
  cb_entries :: "json option"
  cb_participants :: "json option"

definition bad_request :: "string \<Rightarrow> failure" where
  "bad_request msg = Api_Error BAD_REQUEST msg"

text \<open>\<^verbatim>\<open>Array.isArray(v) && v.length > 0\<close>, with the elements.\<close>

fun nonempty_array :: "json option \<Rightarrow> json list option" where
  "nonempty_array (Some (JArr (v # vs))) = Some (v # vs)"
| "nonempty_array v = None"

fun check_participants :: "json list \<Rightarrow> failure + participant list" where
  "check_participants [] = Inr []"
| "check_participants (v # vs) =
     (case is_participant v of
        None \<Rightarrow> Inl (bad_request ''Invalid participant'')
      | Some p \<Rightarrow> (case check_participants vs of Inl e \<Rightarrow> Inl e | Inr ps \<Rightarrow> Inr (p # ps)))"

fun check_entries :: "raw_entry list \<Rightarrow> failure + (int \<times> int) list" where
  "check_entries [] = Inr []"
| "check_entries ((acct, amt) # es) =
     (case json_int acct of
        None \<Rightarrow> Inl (bad_request ''Account IDs must be integers'')
      | Some i \<Rightarrow> (case json_int amt of
            None \<Rightarrow> Inl (bad_request ''Transaction amounts must be integers'')
          | Some n \<Rightarrow> (case check_entries es of Inl e \<Rightarrow> Inl e | Inr r \<Rightarrow> Inr ((i, n) # r))))"

text \<open>The loop over \<^verbatim>\<open>entries\<close> when they come from the body: elements must be objects first.\<close>

fun check_json_entries :: "json list \<Rightarrow> failure + (int \<times> int) list" where
  "check_json_entries [] = Inr []"
| "check_json_entries (v # vs) =
     (if \<not> is_json_object v then Inl (bad_request ''Invalid entry'')
      else case check_entries [(json_field ''accountId'' v, json_field ''amount'' v)] of
             Inl e \<Rightarrow> Inl e
           | Inr r \<Rightarrow> (case check_json_entries vs of Inl e \<Rightarrow> Inl e | Inr rs \<Rightarrow> Inr (r @ rs)))"

definition gather_entries ::
    "ledger \<Rightarrow> create_body \<Rightarrow> failure + (int \<times> int) list \<times> (int, participant) omap option" where
  "gather_entries seen b =
     (case (nonempty_array (cb_entries b), nonempty_array (cb_participants b)) of
        (Some es, Some ps) \<Rightarrow> Inl (bad_request ''Provide either entries or participants, not both'')
      | (None, None) \<Rightarrow> Inl (bad_request ''Either entries or participants is required'')
      | (Some es, None) \<Rightarrow>
          (case check_json_entries es of Inl e \<Rightarrow> Inl e | Inr r \<Rightarrow> Inr (r, None))
      | (None, Some vs) \<Rightarrow>
          (case check_participants vs of
             Inl e \<Rightarrow> Inl e
           | Inr ps \<Rightarrow> (case resolve_participants seen ps of
                 Inl e \<Rightarrow> Inl e
               | Inr (raw, m) \<Rightarrow> (case check_entries raw of Inl e \<Rightarrow> Inl e | Inr r \<Rightarrow> Inr (r, Some m)))))"

datatype response_items =
    Entries "(int \<times> int \<times> int) list"
  | Participants "(participant option \<times> int) list"

record tx_response =
  rs_transaction_id :: nat
  rs_created_at :: nat
  rs_idempotent :: bool
  rs_items :: response_items

definition to_transaction_response :: "post_result \<Rightarrow> (int, participant) omap option \<Rightarrow> tx_response" where
  "to_transaction_response r m =
     \<lparr>rs_transaction_id = pr_transaction_id r, rs_created_at = pr_created_at r,
      rs_idempotent = pr_idempotent r,
      rs_items =
        (case m of
           Some m \<Rightarrow> Participants (map (\<lambda>(i, d, b). (map_of m i, b)) (pr_entries r))
         | None \<Rightarrow> Entries (pr_entries r))\<rparr>"

fun map_transaction_error :: "failure \<Rightarrow> failure" where
  "map_transaction_error (Transaction_Error No_Funds msg) = Api_Error INSUFFICIENT_FUNDS msg"
| "map_transaction_error (Transaction_Error Bad_Amount msg) = Api_Error INVALID_AMOUNT msg"
| "map_transaction_error (Transaction_Error Unbalanced msg) = Api_Error UNBALANCED_TRANSACTION msg"
| "map_transaction_error e = e"

definition create ::
    "nat \<Rightarrow> string \<Rightarrow> create_body \<Rightarrow> ledger \<Rightarrow> ledger \<Rightarrow> (failure + nat \<times> tx_response) \<times> ledger" where
  "create now service b seen l =
     (case json_int (cb_created_by b) of
        None \<Rightarrow> (Inl (bad_request ''createdBy must be an integer''), l)
      | Some by \<Rightarrow>
          (case cb_reason b of
             Some (JStr (c # cs)) \<Rightarrow>
               (case gather_entries seen b of
                  Inl e \<Rightarrow> (Inl e, l)
                | Inr (es, m) \<Rightarrow>
                    (case post_transaction now
                            \<lparr>pa_created_by = by, pa_svc = service, pa_reason = c # cs,
                             pa_key = cb_idempotency_key b,
                             pa_source_table = map_option fst (cb_source b),
                             pa_source_id = map_option snd (cb_source b),
                             pa_metadata = cb_metadata b, pa_entries = es\<rparr> l of
                       (Inl e, l') \<Rightarrow> (Inl (map_transaction_error e), l')
                     | (Inr r, l') \<Rightarrow>
                         (Inr (if pr_idempotent r then 200 else 201, to_transaction_response r m), l')))
           | _ \<Rightarrow> (Inl (bad_request ''reason is required''), l)))"


subsection \<open>Accounts endpoints\<close>

definition to_user_account_response :: "account_row \<Rightarrow> failure + account_row" where
  "to_user_account_response a =
     (if row_kind a \<noteq> User \<or> row_owner_user_id a = None then Inl (Plain_Error ''Expected user account'')
      else Inr a)"


definition get_by_user_id :: "int option \<Rightarrow> ledger \<Rightarrow> failure + nat \<times> account_row" where
  "get_by_user_id user_id seen =
     (case user_id of
        None \<Rightarrow> Inl (bad_request ''Invalid user ID'')
      | Some u \<Rightarrow>
          (if \<not> integer_ok u then Inl (Postgres_Error Numeric_Out_Of_Range)
           else case find_user_account_by_user_id seen u of
             None \<Rightarrow> Inl (Api_Error ACCOUNT_NOT_FOUND ''Account not found'')
           | Some a \<Rightarrow> (case to_user_account_response a of Inl e \<Rightarrow> Inl e | Inr r \<Rightarrow> Inr (200, r))))"

subsection \<open>Facts about the handler\<close>

lemma post_transaction_balance:
  assumes "ledger_wf l" and "post_transaction now req l = (r, l')"
  shows "(case r of Inl e \<Rightarrow> True | Inr x \<Rightarrow> pr_idempotent x) \<Longrightarrow> balance_of l' = balance_of l"
    and "ledger_wf l'"
proof -
  have l': "l' = snd (post_blertcoin_transaction now req l)"
    using assms(2) by (auto simp: post_transaction_def split: prod.splits sum.splits)
  show "ledger_wf l'" unfolding l' using assms(1) by (rule post_wf)
  show "balance_of l' = balance_of l" if flag: "case r of Inl e \<Rightarrow> True | Inr x \<Rightarrow> pr_idempotent x"
  proof (cases rule: post_cases [of now req l])
    case (posted l'')
    then have r: "r = (case snapshot_rows l'' (lg_next_txn l) now False of
              [] \<Rightarrow> Inl (Plain_Error ''No rows returned from post_blertcoin_transaction'')
            | r # rs \<Rightarrow> Inr \<lparr>pr_transaction_id = rr_transaction_id r, pr_created_at = rr_created_at r,
                pr_entries = map (\<lambda>r. (rr_account_id r, rr_delta r, rr_balance_after r))
                  (snapshot_rows l'' (lg_next_txn l) now False),
                pr_idempotent = rr_idempotent r\<rparr>)"
      using assms(2) by (auto simp: post_transaction_def split: list.splits)
    have "pa_entries req = []"
      using flag r posted_rows [OF assms(1) posted(3)]
      by (cases "remdups (map fst (pa_entries req))") (auto split: list.splits)
    then have "balance_of l'' = balance_of l"
      using post_body_balance [OF posted(3)] by (auto simp: fun_eq_iff delta_of_def)
    with posted(4) show ?thesis by (simp add: l')
  qed (auto simp: l')
qed

lemma map_of_participant_map:
  assumes "distinct (map snd rs)" and "(p, i) \<in> set rs"
  shows "map_of (fold (\<lambda>(p, i). AList.update i p) rs []) i = Some p"
proof -
  have "fold (\<lambda>(p, i). AList.update i p) rs [] =
        fold (\<lambda>(k, v). AList.update k v) (map prod.swap rs) []"
    by (simp add: fold_map o_def case_prod_unfold)
  moreover have "map_of (rev (map prod.swap rs)) i = Some p"
  proof (rule map_of_is_SomeI)
    show "distinct (map fst (rev (map prod.swap rs)))"
      using assms(1) by (simp add: o_def flip: rev_map)
    show "(i, p) \<in> set (rev (map prod.swap rs))"
      using assms(2) by (force simp: image_iff)
  qed
  ultimately show ?thesis
    by (simp add: omap.get_fold_put)
qed

lemma resolve_participants_Inr:
  assumes "resolve_all seen ps = Inr rs"
  shows "map fst rs = ps"
    and "resolve_participants seen ps =
      Inr (map (\<lambda>(p, i). (Some (JInt i), pt_amount p)) rs, fold (\<lambda>(p, i). AList.update i p) rs [])"
  using assms
  by (induction ps arbitrary: rs) (auto simp: resolve_participants_def split: sum.splits)

lemma check_entries_resolved:
  "check_entries (map (\<lambda>(p, i). (Some (JInt i), pt_amount p)) rs) = Inr es \<Longrightarrow>
     map fst es = map snd rs \<and> list_all2 (\<lambda>(p, i) e. json_int (pt_amount p) = Some (snd e)) rs es"
  by (induction rs arbitrary: es) (auto split: option.splits sum.splits)

lemma delta_of_distinct:
  "distinct (map fst es) \<Longrightarrow> e \<in> set es \<Longrightarrow> delta_of es (fst e) = snd e"
proof (induction es)
  case (Cons d es)
  then show ?case
    using delta_of_unnamed [of "fst d" es] by (auto simp: delta_of_def dest: key_mem)
qed simp

lemma create_Inr:
  assumes "create now service b seen l = (Inr (s, resp), l')"
  shows "\<exists>req r m. gather_entries seen b = Inr (pa_entries req, m) \<and>
    post_transaction now req l = (Inr r, l') \<and> s = (if pr_idempotent r then 200 else 201) \<and>
    resp = to_transaction_response r m"
proof -
  from assms obtain u c cs es m where h: "json_int (cb_created_by b) = Some u"
    "cb_reason b = Some (JStr (c # cs))" "gather_entries seen b = Inr (es, m)"
    by (auto simp: create_def split: option.splits json.splits list.splits sum.splits)
  define req where "req = \<lparr>pa_created_by = u, pa_svc = service, pa_reason = c # cs,
      pa_key = cb_idempotency_key b, pa_source_table = map_option fst (cb_source b),
      pa_source_id = map_option snd (cb_source b), pa_metadata = cb_metadata b, pa_entries = es\<rparr>"
  have "create now service b seen l = (case post_transaction now req l of
            (Inl e, l') \<Rightarrow> (Inl (map_transaction_error e), l')
          | (Inr r, l') \<Rightarrow> (Inr (if pr_idempotent r then 200 else 201, to_transaction_response r m), l'))"
    using h by (simp add: create_def req_def)
  with assms h(3) show ?thesis
    by (intro exI [of _ req]) (auto simp: req_def split: prod.splits sum.splits)
qed

subsection \<open>Properties\<close>

definition sample_body :: "json \<Rightarrow> create_body" where
  "sample_body ps = \<lparr>cb_created_by = Some (JInt 0), cb_reason = Some (JStr ''grant''),
     cb_idempotency_key = None, cb_source = None, cb_metadata = None, cb_entries = None,
     cb_participants = Some ps\<rparr>"

definition sample_participants :: json where
  "sample_participants = JArr
     [JObj [(''kind'', JStr ''system''), (''name'', JStr ''treasury''), (''amount'', JInt (-3))],
      JObj [(''kind'', JStr ''user''), (''userId'', JInt 7), (''amount'', JInt 3)]]"

subsection \<open>The answers of a request\<close>

text \<open>
  The reference for \<^verbatim>\<open>POST /transactions\<close>: the outcome of a posting and the status and error code of an answer, read off
  the request and the ledger without the intermediate steps of the code.
\<close>

definition request_error :: "post_args \<Rightarrow> pg_error option" where
  "request_error a =
     (if \<not> (integer_ok (pa_created_by a) \<and> list_all (\<lambda>(i, n). bigint_ok i \<and> bigint_ok n) (pa_entries a) \<and>
           bigint_ok (\<Sum>e \<leftarrow> pa_entries a. snd e) \<and> (\<forall>i. pa_source_id a = Some i \<longrightarrow> bigint_ok i)) then Some Numeric_Out_Of_Range
      else if (\<Sum>e \<leftarrow> pa_entries a. snd e) \<noteq> 0 then Some Unbalanced_Transaction
      else if 0 \<in> snd ` set (pa_entries a) then Some Invalid_Amount
      else None)"

definition booking_error :: "(int \<times> int) list \<Rightarrow> ledger \<Rightarrow> pg_error option" where
  "booking_error es l =
     (if \<not> fst ` set es \<subseteq> fst ` set (lg_accounts l) then Some Foreign_Key_Violation
      else if \<exists>x \<in> fst ` set es. \<exists>ac. map_of (lg_accounts l) x = Some ac \<and> requires_funds (ac_kind ac) \<and>
        balance_of l x + delta_of es x < 0 then Some Insufficient_Funds
      else if \<exists>x \<in> fst ` set es. \<not> bigint_ok (balance_of l x + delta_of es x) \<or> \<not> bigint_ok (delta_of es x)
      then Some Numeric_Out_Of_Range
      else None)"

definition replayed_txn :: "post_args \<Rightarrow> ledger \<Rightarrow> txn_row option" where
  "replayed_txn a l = Option.bind (pa_key a) (find_txn_by_key l)"

definition post_outcome :: "post_args \<Rightarrow> ledger \<Rightarrow> pg_error option" where
  "post_outcome a l =
     (case request_error a of
        Some e \<Rightarrow> Some e
      | None \<Rightarrow>
          (case replayed_txn a l of
             Some t \<Rightarrow> (if tx_id t \<in> sn_txn_id ` set (lg_snapshots l) then None else Some Missing_Snapshot)
           | None \<Rightarrow> booking_error (pa_entries a) l))"

lemma group_deltas_set: "set (group_deltas es) = (\<lambda>x. (x, delta_of es x)) ` fst ` set es"
  by (auto simp: group_deltas_def delta_of_def)

lemma post_body_outcome:
  assumes k: "keys_wf l"
  shows "(case post_body now a txn l of Inl e \<Rightarrow> Some e | Inr l' \<Rightarrow> None) = booking_error (pa_entries a) l"
proof (cases "fst ` set (pa_entries a) \<subseteq> fst ` set (lg_accounts l)")
  case False
  then have "ensure_balances now (map fst (pa_entries a)) l = Inl Foreign_Key_Violation"
    using k by (auto simp: ensure_balances_def Let_def keys_wf_def map_of_eq_None_iff)
  with False show ?thesis by (simp add: post_body_def booking_error_def)
next
  case True
  let ?es = "pa_entries a" and ?ds = "group_deltas (pa_entries a)"
  let ?l = "l\<lparr>lg_entries := lg_entries l @ map (\<lambda>e. \<lparr>en_txn_id = txn, en_account_id = fst e, en_amount = snd e\<rparr>) ?es\<rparr>"
  have known: "map_of (lg_balances l) x \<noteq> None" "map_of (lg_accounts l) x \<noteq> None" if "x \<in> fst ` set ?es" for x
    using True k that by (auto simp: keys_wf_def map_of_eq_None_iff)
  then have "filter (\<lambda>x. map_of (lg_balances l) x = None) (remdups (map fst ?es)) = []" by (auto simp: filter_empty_conv)
  then have e: "ensure_balances now (map fst ?es) l = Inr l" by (simp add: ensure_balances_def Let_def)
  have funds: "insufficient_funds ?ds l \<longleftrightarrow> (\<exists>x \<in> fst ` set ?es. \<exists>ac. map_of (lg_accounts l) x = Some ac \<and>
      requires_funds (ac_kind ac) \<and> balance_of l x + delta_of ?es x < 0)"
  proof -
    have "insufficient_funds ?ds l \<longleftrightarrow> (\<exists>x \<in> fst ` set ?es. map_of (lg_balances l) x \<noteq> None \<and>
        (case map_of (lg_accounts l) x of None \<Rightarrow> False | Some ac \<Rightarrow> requires_funds (ac_kind ac) \<and> balance_of l x + delta_of ?es x < 0))"
      by (simp add: insufficient_funds_def group_deltas_set)
    also have "\<dots> \<longleftrightarrow> (\<exists>x \<in> fst ` set ?es. \<exists>ac. map_of (lg_accounts l) x = Some ac \<and>
        requires_funds (ac_kind ac) \<and> balance_of l x + delta_of ?es x < 0)"
      by (rule bex_cong [OF refl]) (simp add: known split: option.split)
    finally show ?thesis .
  qed
  have bal: "balance_of ?l x = balance_of l x" for x by (simp add: balance_of_def)
  have "filter (\<lambda>(x, d). map_of (lg_balances l) x \<noteq> None) ?ds = ?ds"
    using known by (auto simp: filter_id_conv group_deltas_set)
  then have upd: "update_balances now txn ?ds ?l \<noteq> Inl Negative_Balance_Not_Allowed \<Longrightarrow>
      (case update_balances now txn ?ds ?l of Inl e \<Rightarrow> Some e | Inr l' \<Rightarrow> None) =
      (if \<exists>x \<in> fst ` set ?es. \<not> bigint_ok (balance_of l x + delta_of ?es x) \<or> \<not> bigint_ok (delta_of ?es x)
       then Some Numeric_Out_Of_Range else None)"
    by (auto simp: update_balances_def Let_def bal group_deltas_set split: if_splits)
  have pb: "post_body now a txn l = (if insufficient_funds ?ds l then Inl Insufficient_Funds else update_balances now txn ?ds ?l)"
    using e by (simp add: post_body_def)
  show ?thesis
  proof (cases "insufficient_funds ?ds l")
    case short: True
    with True pb show ?thesis unfolding booking_error_def funds [symmetric] by simp
  next
    case False
    then have "post_body now a txn l = update_balances now txn ?ds ?l" using pb by simp
    with upd post_body_never_triggers [OF k, of now a txn]
    have "(case post_body now a txn l of Inl e \<Rightarrow> Some e | Inr l' \<Rightarrow> None) =
        (if \<exists>x \<in> fst ` set ?es. \<not> bigint_ok (balance_of l x + delta_of ?es x) \<or> \<not> bigint_ok (delta_of ?es x)
         then Some Numeric_Out_Of_Range else None)" by (simp only: not_False_eq_True)
    with False True show ?thesis unfolding booking_error_def funds [symmetric] by simp
  qed
qed

lemma post_outcome_correct:
  assumes "keys_wf l"
  shows "(case fst (post_blertcoin_transaction now a l) of Inl e \<Rightarrow> Some e | Inr rows \<Rightarrow> None) = post_outcome a l"
proof -
  let ?l0 = "l\<lparr>lg_next_txn := Suc (lg_next_txn l), lg_txns := lg_txns l @ [new_txn_row now a (lg_next_txn l)]\<rparr>"
  have k: "keys_wf ?l0" using assms by (simp add: keys_wf_def)
  have "booking_error (pa_entries a) ?l0 = booking_error (pa_entries a) l"
  proof -
    have "balance_of ?l0 = balance_of l" by (simp add: balance_of_def fun_eq_iff)
    moreover have "lg_accounts ?l0 = lg_accounts l" by simp
    ultimately show ?thesis unfolding booking_error_def by (simp only:)
  qed
  with post_body_outcome [OF k, of now a "lg_next_txn l"]
  have b: "(case post_body now a (lg_next_txn l) ?l0 of Inl e \<Rightarrow> Some e | Inr l' \<Rightarrow> None) = booking_error (pa_entries a) l"
    by simp
  have v: "validate_entries a = request_error a"
  proof -
    have zero: "0 \<in> snd ` set (pa_entries a) \<longleftrightarrow> (\<exists>e \<in> set (pa_entries a). snd e = 0)" by force
    show ?thesis
      unfolding validate_entries_def request_error_def zero by (auto simp: list_all_iff split_def split: option.splits)
  qed
  have f: "(case fst (case post_body now a (lg_next_txn l) ?l0 of
        Inl e \<Rightarrow> (Inl e, l\<lparr>lg_next_txn := Suc (lg_next_txn l)\<rparr>)
      | Inr l' \<Rightarrow> (Inr (snapshot_rows l' (lg_next_txn l) now False), l')) of Inl e \<Rightarrow> Some e | Inr rows \<Rightarrow> None) =
      (case post_body now a (lg_next_txn l) ?l0 of Inl e \<Rightarrow> Some e | Inr l' \<Rightarrow> None)"
    by (simp split: sum.split)
  have rows: "snapshot_rows l t c True = [] \<longleftrightarrow> t \<notin> sn_txn_id ` set (lg_snapshots l)" for t c
    by (auto simp: snapshot_rows_def filter_empty_conv)
  show ?thesis
  proof (cases "request_error a")
    case (Some e)
    then show ?thesis by (simp add: post_blertcoin_transaction_def post_outcome_def v)
  next
    case None
    note none = None
    show ?thesis
    proof (cases "replayed_txn a l")
      case None
      with none f b show ?thesis
        by (cases "pa_key a") (auto simp: post_blertcoin_transaction_def post_outcome_def replayed_txn_def v Let_def)
    next
      case (Some t)
      then obtain key where "pa_key a = Some key" "find_txn_by_key l key = Some t"
        by (cases "pa_key a") (auto simp: replayed_txn_def)
      with none Some rows show ?thesis by (simp add: post_blertcoin_transaction_def post_outcome_def v Let_def)
    qed
  qed
qed

type_synonym answer = "nat \<times> api_error_code option"

definition answer_of :: "failure + nat \<times> 'a \<Rightarrow> answer" where
  "answer_of r = (case r of Inl e \<Rightarrow> (fst (api_error_handler e), Some (fst (snd (api_error_handler e)))) | Inr (s, _) \<Rightarrow> (s, None))"

abbreviation "bad_answer \<equiv> (400, Some BAD_REQUEST) :: answer"

abbreviation "internal_answer \<equiv> (500, Some INTERNAL_ERROR) :: answer"

fun error_answer :: "pg_error \<Rightarrow> answer" where
  "error_answer Unbalanced_Transaction = (400, Some UNBALANCED_TRANSACTION)"
| "error_answer Invalid_Amount = (400, Some INVALID_AMOUNT)"
| "error_answer Insufficient_Funds = (422, Some INSUFFICIENT_FUNDS)"
| "error_answer e = internal_answer"

definition entry_of :: "json \<Rightarrow> (int \<times> int) option" where
  "entry_of v =
     (if is_json_object v
      then Option.bind (json_int (json_field ''accountId'' v)) (\<lambda>i. map_option (Pair i) (json_int (json_field ''amount'' v)))
      else None)"

text \<open>The account a participant stands for, or the answer when there is none.\<close>

definition account_of :: "ledger \<Rightarrow> participant \<Rightarrow> answer + int" where
  "account_of seen p =
     (let lookup = (\<lambda>r. case r of None \<Rightarrow> Inl (404, Some ACCOUNT_NOT_FOUND) | Some a \<Rightarrow> Inr (row_id a)) in
      case pt_id p of
        By_Account (JInt i) \<Rightarrow> (if bigint_ok i then lookup (find_account_by_id seen i) else Inl internal_answer)
      | By_User (JInt u) \<Rightarrow> (if integer_ok u then lookup (find_user_account_by_user_id seen u) else Inl internal_answer)
      | By_System name \<Rightarrow> lookup (find_system_account_by_name seen name)
      | _ \<Rightarrow> Inl internal_answer)"

text \<open>The entries a request stands for, or its answer: the first participant that cannot be resolved decides.\<close>

definition requested_entries :: "ledger \<Rightarrow> create_body \<Rightarrow> answer + (int \<times> int) list" where
  "requested_entries seen b =
     (case (nonempty_array (cb_entries b), nonempty_array (cb_participants b)) of
        (Some vs, None) \<Rightarrow> (if None \<in> set (map entry_of vs) then Inl bad_answer else Inr (map (the \<circ> entry_of) vs))
      | (None, Some vs) \<Rightarrow>
          (if None \<in> set (map is_participant vs) then Inl bad_answer
           else (let ps = map (the \<circ> is_participant) vs in
             case List.find (\<lambda>p. isl (account_of seen p)) ps of
               Some p \<Rightarrow> Inl (projl (account_of seen p))
             | None \<Rightarrow>
                 (if None \<in> set (map (json_int \<circ> pt_amount) ps) then Inl bad_answer
                  else Inr (map (\<lambda>p. (projr (account_of seen p), the (json_int (pt_amount p)))) ps))))
      | _ \<Rightarrow> Inl bad_answer)"

definition create_args :: "string \<Rightarrow> create_body \<Rightarrow> (int \<times> int) list \<Rightarrow> post_args" where
  "create_args service b es =
     \<lparr>pa_created_by = the (json_int (cb_created_by b)), pa_svc = service,
      pa_reason = (case cb_reason b of Some (JStr r) \<Rightarrow> r | _ \<Rightarrow> []), pa_key = cb_idempotency_key b,
      pa_source_table = map_option fst (cb_source b), pa_source_id = map_option snd (cb_source b),
      pa_metadata = cb_metadata b, pa_entries = es\<rparr>"

text \<open>The answer to a request.\<close>

definition has_reason :: "create_body \<Rightarrow> bool" where
  "has_reason b \<longleftrightarrow> (case cb_reason b of Some (JStr r) \<Rightarrow> r \<noteq> [] | _ \<Rightarrow> False)"

definition create_answer :: "string \<Rightarrow> create_body \<Rightarrow> ledger \<Rightarrow> ledger \<Rightarrow> answer" where
  "create_answer service b seen l =
     (if json_int (cb_created_by b) = None \<or> \<not> has_reason b then bad_answer
      else case requested_entries seen b of
          Inl a \<Rightarrow> a
        | Inr es \<Rightarrow>
            (case post_outcome (create_args service b es) l of
               Some e \<Rightarrow> error_answer e
             | None \<Rightarrow> (if replayed_txn (create_args service b es) l = None then 201 else 200, None)))"

lemma answer_of_Inl [simp]:
  "answer_of (Inl (bad_request msg)) = bad_answer" "answer_of (Inl (not_found msg)) = (404, Some ACCOUNT_NOT_FOUND)"
  "answer_of (Inl (Postgres_Error e)) = internal_answer"
  by (simp_all add: answer_of_def bad_request_def not_found_def)

lemma answer_pg_failure: "answer_of (Inl (map_transaction_error (pg_failure e))) = error_answer e"
  by (cases e) (simp_all add: pg_failure_def answer_of_def)

text \<open>Each loop of the handler agrees with its reference.\<close>

definition agrees :: "failure + 'a \<Rightarrow> answer + 'a \<Rightarrow> bool" where
  "agrees r s \<longleftrightarrow> (case r of Inl e \<Rightarrow> s = Inl (answer_of (Inl e :: failure + nat \<times> unit)) | Inr x \<Rightarrow> s = Inr x)"

lemma answer_of_Inl_any: "answer_of (Inl e :: failure + nat \<times> 'a) = answer_of (Inl e :: failure + nat \<times> 'b)"
  by (simp add: answer_of_def)

lemma check_json_entries_agrees:
  "agrees (check_json_entries vs) (if None \<in> set (map entry_of vs) then Inl bad_answer else Inr (map (the \<circ> entry_of) vs))"
proof (induction vs)
  case (Cons v vs)
  then show ?case
    by (cases "json_int (json_field ''accountId'' v)"; cases "json_int (json_field ''amount'' v)"; cases "is_json_object v")
      (auto simp: entry_of_def agrees_def split: sum.splits if_splits)
qed (simp add: agrees_def)

lemma check_participants_agrees:
  "agrees (check_participants vs)
     (if None \<in> set (map is_participant vs) then Inl bad_answer else Inr (map (the \<circ> is_participant) vs))"
proof (induction vs)
  case (Cons v vs)
  then show ?case by (cases "is_participant v") (auto simp: agrees_def split: sum.splits if_splits)
qed (simp add: agrees_def)

lemma resolve_participant_agrees: "agrees (resolve_participant seen p) (account_of seen p)"
proof -
  have id: "row_id a = i" if "find_account_by_id seen i = Some a" for i a
    using that by (auto simp: find_account_by_id_def account_row_of_def split: option.splits)
  have num: "sql_number ok v = (case v of JInt n \<Rightarrow> if ok n then Inr n else Inl (Postgres_Error Numeric_Out_Of_Range)
      | _ \<Rightarrow> Inl (Postgres_Error Invalid_Text))" for ok v
    by (cases v) simp_all
  show ?thesis
    by (auto simp: agrees_def resolve_participant_def account_of_def num id split: participant_id.split json.split option.split)
qed

lemma resolve_all_agrees:
  "agrees (resolve_all seen ps)
     (case List.find (\<lambda>p. isl (account_of seen p)) ps of
        Some p \<Rightarrow> Inl (projl (account_of seen p)) | None \<Rightarrow> Inr (map (\<lambda>p. (p, projr (account_of seen p))) ps))"
proof (induction ps)
  case (Cons p ps)
  have "agrees (resolve_participant seen p) (account_of seen p)" by (rule resolve_participant_agrees)
  with Cons show ?case
    by (cases "resolve_participant seen p"; cases "resolve_all seen ps") (auto simp: agrees_def split: option.splits)
qed (simp add: agrees_def)

lemma check_entries_agrees:
  "agrees (check_entries (map (\<lambda>(p, i). (Some (JInt i), pt_amount p)) rs))
     (if None \<in> set (map (json_int \<circ> pt_amount \<circ> fst) rs) then Inl bad_answer
      else Inr (map (\<lambda>(p, i). (i, the (json_int (pt_amount p)))) rs))"
proof (induction rs)
  case (Cons r rs)
  then show ?case by (cases r; cases "json_int (pt_amount (fst r))") (auto simp: agrees_def split: sum.splits if_splits)
qed (simp add: agrees_def)

lemma gather_entries_agrees:
  "case gather_entries seen b of
     Inl e \<Rightarrow> requested_entries seen b = Inl (answer_of (Inl e :: failure + nat \<times> unit))
   | Inr (es, m) \<Rightarrow> requested_entries seen b = Inr es \<and> es \<noteq> []"
proof (cases "nonempty_array (cb_entries b)")
  case None
  show ?thesis
  proof (cases "nonempty_array (cb_participants b)")
    case none: None
    with None show ?thesis by (simp add: gather_entries_def requested_entries_def)
  next
    case (Some vs)
    have ne: "vs \<noteq> []" using Some by (cases "cb_participants b" rule: nonempty_array.cases) auto
    show ?thesis
    proof (cases "check_participants vs")
      case (Inl e)
      with check_participants_agrees [of vs] None Some show ?thesis
        by (auto simp: gather_entries_def requested_entries_def agrees_def split: if_splits)
    next
      case (Inr ps)
      with check_participants_agrees [of vs] have ps: "None \<notin> set (map is_participant vs)" "ps = map (the \<circ> is_participant) vs"
        by (auto simp: agrees_def split: if_splits)
      have req: "requested_entries seen b = (case List.find (\<lambda>p. isl (account_of seen p)) ps of
            Some p \<Rightarrow> Inl (projl (account_of seen p))
          | None \<Rightarrow> (if None \<in> set (map (json_int \<circ> pt_amount) ps) then Inl bad_answer
              else Inr (map (\<lambda>p. (projr (account_of seen p), the (json_int (pt_amount p)))) ps)))"
        using None Some ps(1) unfolding ps(2) requested_entries_def Let_def by simp
      show ?thesis
      proof (cases "resolve_all seen ps")
        case (Inl e)
        with resolve_all_agrees [of seen ps] req None Some \<open>check_participants vs = Inr ps\<close> show ?thesis
          by (auto simp: gather_entries_def resolve_participants_def agrees_def split: option.splits)
      next
        case rs: (Inr rs)
        with resolve_all_agrees [of seen ps] have f: "List.find (\<lambda>p. isl (account_of seen p)) ps = None"
          and r: "rs = map (\<lambda>p. (p, projr (account_of seen p))) ps"
          by (auto simp: agrees_def split: option.splits)
        have "map (json_int \<circ> pt_amount \<circ> fst) rs = map (json_int \<circ> pt_amount) ps"
          "map (\<lambda>(p, i). (i, the (json_int (pt_amount p)))) rs = map (\<lambda>p. (projr (account_of seen p), the (json_int (pt_amount p)))) ps"
          unfolding r by simp_all
        with check_entries_agrees [of rs] req f rs None Some \<open>check_participants vs = Inr ps\<close> ne ps(2) show ?thesis
          by (cases "check_entries (map (\<lambda>(p, i). (Some (JInt i), pt_amount p)) rs)")
            (auto simp: gather_entries_def resolve_participants_def agrees_def split: if_splits)
      qed
    qed
  qed
next
  case (Some vs)
  have ne: "vs \<noteq> []" using Some by (cases "cb_entries b" rule: nonempty_array.cases) auto
  show ?thesis
  proof (cases "nonempty_array (cb_participants b)")
    case None
    with Some ne check_json_entries_agrees [of vs] show ?thesis
      by (cases "check_json_entries vs") (auto simp: gather_entries_def requested_entries_def agrees_def split: if_splits)
  qed (use Some in \<open>simp add: gather_entries_def requested_entries_def\<close>)
qed

lemma post_transaction_answer:
  assumes wf: "ledger_wf l" and "pa_entries a \<noteq> []" and run: "post_transaction now a l = (r, l')"
  shows "(case post_outcome a l of
       Some e \<Rightarrow> r = Inl (pg_failure e)
     | None \<Rightarrow> \<exists>x. r = Inr x \<and> (pr_idempotent x \<longleftrightarrow> replayed_txn a l \<noteq> None)) \<and>
     (\<forall>x. balance_of l' x = balance_of l x +
        (if post_outcome a l = None \<and> replayed_txn a l = None then delta_of (pa_entries a) x else 0))"
proof -
  have k: "keys_wf l" using wf by (simp add: ledger_wf_def)
  note o = post_outcome_correct [OF k, of now a, symmetric]
  show ?thesis
  proof (cases rule: post_cases [of now a l])
    case (rejected e l0)
    have "balance_of l0 = balance_of l" using rejected(2) by (auto simp: balance_of_def fun_eq_iff)
    with rejected run o show ?thesis by (simp add: post_transaction_def)
  next
    case (replayed key t)
    then obtain x xs where "snapshot_rows l (tx_id t) (tx_created_at t) True = x # xs" "rr_idempotent x"
      by (cases "snapshot_rows l (tx_id t) (tx_created_at t) True") (auto simp: snapshot_rows_def)
    moreover have "balance_of (l\<lparr>lg_next_txn := Suc (lg_next_txn l)\<rparr>) = balance_of l" by (simp add: balance_of_def fun_eq_iff)
    ultimately show ?thesis using replayed run o by (auto simp: post_transaction_def replayed_txn_def)
  next
    case (posted l1)
    then obtain x xs where x: "snapshot_rows l1 (lg_next_txn l) now False = x # xs" "\<not> rr_idempotent x"
      using posted_rows [OF wf posted(3)] assms(2)
      by (cases "snapshot_rows l1 (lg_next_txn l) now False") (auto simp: snapshot_rows_def)
    have new: "replayed_txn a l = None" using posted(2) by (cases "pa_key a") (auto simp: replayed_txn_def)
    have "balance_of (l\<lparr>lg_next_txn := Suc (lg_next_txn l), lg_txns := ts\<rparr>) = balance_of l" for ts
      by (simp add: balance_of_def fun_eq_iff)
    with post_body_balance [OF posted(3)] have "balance_of l1 y = balance_of l y + delta_of (pa_entries a) y" for y by simp
    with x new posted run o show ?thesis by (auto simp: post_transaction_def)
  qed
qed

text \<open>
  C36: Every answer of \<^verbatim>\<open>POST /transactions\<close> on a reachable ledger is the one the request and the ledger call for, status and
  error code on every branch: a malformed request, entries and participants together or neither, a participant that
  does not exist, an unbalanced or zero amount, insufficient funds, a replayed key, a fresh posting. The balances change by
  the entries of the request exactly when the answer is 201, and not at all otherwise.
\<close>

theorem create_status_and_effect:
  assumes "reachable_ledger l" and run: "create now service b seen l = (r, l')"
  shows "answer_of r = create_answer service b seen l \<and>
    (\<forall>x. balance_of l' x = balance_of l x +
       (if fst (answer_of r) = 201 then delta_of (projr (requested_entries seen b)) x else 0))"
proof (cases "json_int (cb_created_by b) = None \<or> \<not> has_reason b")
  case True
  with run have "answer_of r = bad_answer \<and> l' = l"
    by (auto simp: create_def has_reason_def split: option.splits json.splits list.splits)
  with True show ?thesis by (simp add: create_answer_def)
next
  case False
  then obtain u c cs where u: "json_int (cb_created_by b) = Some u" and reason: "cb_reason b = Some (JStr (c # cs))"
    by (auto simp: has_reason_def split: option.splits json.splits) (metis neq_Nil_conv)
  have wf: "ledger_wf l" using assms(1) by (rule reachable_ledger_wf)
  show ?thesis
  proof (cases "gather_entries seen b")
    case (Inl e)
    then have req: "requested_entries seen b = Inl (answer_of (Inl e :: failure + nat \<times> unit))"
      using gather_entries_agrees [of seen b] by simp
    have r: "r = Inl e" "l' = l" using run Inl u reason by (simp_all add: create_def)
    have any: "answer_of (Inl e :: failure + nat \<times> unit) = answer_of (Inl e :: failure + nat \<times> tx_response)"
      by (rule answer_of_Inl_any)
    have "status_code code \<noteq> 201" for code by (cases code) simp_all
    then have "fst (answer_of (Inl e :: failure + nat \<times> tx_response)) \<noteq> 201" by (cases e) (simp_all add: answer_of_def)
    then show ?thesis using False req by (auto simp: create_answer_def r any)
  next
    case (Inr g)
    obtain es m where g: "g = (es, m)" by (cases g)
    then have req: "requested_entries seen b = Inr es" "es \<noteq> []" using gather_entries_agrees [of seen b] Inr by simp_all
    let ?a = "create_args service b es"
    obtain q l1 where q: "post_transaction now ?a l = (q, l1)" by fastforce
    have args: "?a = \<lparr>pa_created_by = u, pa_svc = service, pa_reason = c # cs, pa_key = cb_idempotency_key b,
        pa_source_table = map_option fst (cb_source b), pa_source_id = map_option snd (cb_source b),
        pa_metadata = cb_metadata b, pa_entries = es\<rparr>"
      by (simp add: create_args_def u reason)
    have r: "(r, l') = (case q of Inl e \<Rightarrow> (Inl (map_transaction_error e), l1)
        | Inr x \<Rightarrow> (Inr (if pr_idempotent x then 200 else 201, to_transaction_response x m), l1))"
      using run Inr g u reason q unfolding args by (simp add: create_def split: sum.splits)
    have "pa_entries ?a = es" by (simp add: create_args_def)
    note p = post_transaction_answer [OF wf _ q, unfolded this, OF req(2)]
    show ?thesis
    proof (cases "post_outcome ?a l")
      case (Some e)
      then have "r = Inl (map_transaction_error (pg_failure e))" "l' = l1" using p r by simp_all
      moreover have "fst (error_answer e) \<noteq> 201" by (cases e) simp_all
      ultimately show ?thesis
        using p Some False req(1) by (auto simp: create_answer_def answer_pg_failure)
    next
      case None
      with p r obtain x where "q = Inr x" "pr_idempotent x \<longleftrightarrow> replayed_txn ?a l \<noteq> None" by auto
      with p r None False req(1) show ?thesis by (auto simp: create_answer_def answer_of_def)
    qed
  qed
qed

theorem create_status_and_effect_witness:
  "create_answer ''web'' (sample_body sample_participants) sample_ledger sample_ledger = (201, None) \<and>
   balance_of (snd (create 3 ''web'' (sample_body sample_participants) sample_ledger sample_ledger)) 3 = 8 \<and>
   create_answer ''web'' (sample_body (JArr [JNull])) sample_ledger sample_ledger = (400, Some BAD_REQUEST)"
proof -
  let ?b = "sample_body sample_participants"
  let ?c = "create 3 ''web'' ?b sample_ledger sample_ledger" and ?d = "create 3 ''web'' (sample_body (JArr [JNull])) sample_ledger sample_ledger"
  have "answer_of (fst ?c) = (201, None)" "answer_of (fst ?d) = (400, Some BAD_REQUEST)"
    "requested_entries sample_ledger ?b = Inr [(1, -3), (3, 3)]" "balance_of sample_ledger 3 = 5" by code_simp+
  with create_status_and_effect [OF sample_ledger_reachable, of 3 "''web''" ?b sample_ledger "fst ?c" "snd ?c"]
    create_status_and_effect [OF sample_ledger_reachable, of 3 "''web''" "sample_body (JArr [JNull])" sample_ledger "fst ?d" "snd ?d"]
  show ?thesis by (simp add: delta_of_def)
qed



text \<open>A request by participants that resolve to distinct accounts and that posts freshly answers
  with those participants, each once, in the request's order, each with the new balance of its
  account, which is the old one plus the amount it asked for.
\<close>

theorem create_participants:
  assumes "reachable_ledger l"
    and "nonempty_array (cb_entries b) = None" and "nonempty_array (cb_participants b) = Some vs"
    and "check_participants vs = Inr ps" and "resolve_all seen ps = Inr rs" and "distinct (map snd rs)"
    and "create now service b seen l = (Inr (201, resp), l')"
  shows "rs_items resp = Participants (map (\<lambda>(p, i). (Some p, balance_of l' i)) rs) \<and> map fst rs = ps \<and>
    (\<forall>(p, i) \<in> set rs. json_int (pt_amount p) = Some (balance_of l' i - balance_of l i))"
proof -
  let ?m = "fold (\<lambda>(p, i). AList.update i p) rs []"
  have wf: "ledger_wf l" using assms(1) by (rule reachable_ledger_wf)
  note resolved = resolve_participants_Inr [OF assms(5)]
  have "\<exists>es. check_entries (map (\<lambda>(p, i). (Some (JInt i), pt_amount p)) rs) = Inr es"
    using assms(2-5,7) resolved(2)
    by (cases "check_entries (map (\<lambda>(p, i). (Some (JInt i), pt_amount p)) rs)")
      (auto simp: create_def gather_entries_def split: option.splits json.splits list.splits)
  then obtain es where es: "check_entries (map (\<lambda>(p, i). (Some (JInt i), pt_amount p)) rs) = Inr es"
    by blast
  note entries = check_entries_resolved [OF es]
  have g: "gather_entries seen b = Inr (es, Some ?m)"
    using assms(2-5) resolved(2) es by (simp add: gather_entries_def)
  with create_Inr [OF assms(7)] obtain req r where req: "pa_entries req = es"
    and post: "post_transaction now req l = (Inr r, l')" "\<not> pr_idempotent r"
    and resp: "resp = to_transaction_response r (Some ?m)"
    by (auto split: if_splits)
  have effect: "pr_entries r = map (\<lambda>i. (i, delta_of es i, balance_of l' i)) (map snd rs) \<and>
      (\<forall>x. balance_of l' x = balance_of l x + delta_of es x)"
  proof (cases rule: post_cases [of now req l])
    case (posted l'')
    have "remdups (map fst es) = map snd rs"
      using entries assms(6) by (simp add: distinct_remdups_id)
    with post posted posted_rows [OF wf posted(3)] post_body_balance [OF posted(3)] req
    show ?thesis
      by (auto simp: post_transaction_def o_def split: list.splits)
  qed (use post in \<open>auto simp: post_transaction_def snapshot_rows_def split: list.splits\<close>)
  have "json_int (pt_amount p) = Some (delta_of es i)" if mem: "(p, i) \<in> set rs" for p i
  proof -
    from mem obtain n where n: "n < length rs" "rs ! n = (p, i)" by (auto simp: in_set_conv_nth)
    have len: "length es = length rs" using entries by (metis length_map)
    then have "fst (es ! n) = i" using n entries by (metis nth_map snd_conv)
    moreover have "json_int (pt_amount p) = Some (snd (es ! n))"
      using entries n len by (auto simp: list_all2_conv_all_nth)
    ultimately show ?thesis
      using delta_of_distinct [of es "es ! n"] entries assms(6) n len by simp
  qed
  moreover have "map_of ?m i = Some p" if "(p, i) \<in> set rs" for p i
    using assms(6) that by (rule map_of_participant_map)
  ultimately show ?thesis
    using effect resolved(1) by (auto simp: resp to_transaction_response_def)
qed

theorem create_participants_witness:
  "fst (create 3 ''web'' (sample_body sample_participants) sample_ledger sample_ledger) =
     Inr (201, \<lparr>rs_transaction_id = 2, rs_created_at = 3, rs_idempotent = False,
       rs_items = Participants
         [(Some \<lparr>pt_id = By_System ''treasury'', pt_amount = Some (JInt (-3))\<rparr>, -8),
          (Some \<lparr>pt_id = By_User (JInt 7), pt_amount = Some (JInt 3)\<rparr>, 8)]\<rparr>)"
proof -
  let ?b = "sample_body sample_participants"
  let ?ps = "[\<lparr>pt_id = By_System ''treasury'', pt_amount = Some (JInt (-3))\<rparr>,
              \<lparr>pt_id = By_User (JInt 7), pt_amount = Some (JInt 3)\<rparr>]"
  let ?rs = "zip ?ps [1, 3]"
  obtain vs where vs: "nonempty_array (cb_participants ?b) = Some vs" "check_participants vs = Inr ?ps"
    by (simp add: sample_body_def sample_participants_def is_participant_def)
  have rs: "resolve_all sample_ledger ?ps = Inr ?rs" by code_simp
  have "(case fst (create 3 ''web'' ?b sample_ledger sample_ledger) of
           Inl e \<Rightarrow> False | Inr (s, resp) \<Rightarrow> s = 201 \<and> rs_transaction_id resp = 2 \<and> rs_created_at resp = 3 \<and>
             \<not> rs_idempotent resp)"
    by code_simp
  then obtain resp l' where c: "create 3 ''web'' ?b sample_ledger sample_ledger = (Inr (201, resp), l')"
    and h: "rs_transaction_id resp = 2" "rs_created_at resp = 3" "\<not> rs_idempotent resp"
    by (cases "create 3 ''web'' ?b sample_ledger sample_ledger") (auto split: sum.splits)
  have none: "nonempty_array (cb_entries ?b) = None" by (simp add: sample_body_def)
  have bal: "balance_of sample_ledger 1 = -5" "balance_of sample_ledger 3 = 5" by code_simp+
  have "rs_items resp = Participants (map (\<lambda>(p, i). (Some p, balance_of l' i)) ?rs) \<and> map fst ?rs = ?ps \<and>
    (\<forall>(p, i) \<in> set ?rs. json_int (pt_amount p) = Some (balance_of l' i - balance_of sample_ledger i))"
    using create_participants [OF sample_ledger_reachable none vs rs _ c] by simp
  then show ?thesis
    using bal c h by (cases resp) auto
qed

end
