(* ===== verification/Alignment.thy ===== *)
theory Alignment
  imports Complex_Main Blert_Prelude
begin

text \<open>
  Local alignment of two tick timelines: \<^verbatim>\<open>challenge-server/merging/alignment.ts\<close>. A timeline is a
  list whose missing ticks are \<^const>\<open>None\<close>; the similarity function is a parameter, as in the class.
  Scores are rationals, \<open>-Infinity\<close> is \<^const>\<open>None\<close>: the floating-point scores in play (sums of a few
  hundred weights of small magnitude) are taken as exact. A run that would read outside the score
  matrix or cast a gap to a merge entry has the result \<^const>\<open>None\<close>.
\<close>

subsection \<open>Data\<close>

datatype align_entry =
    MERGE (base_index: nat) (target_index: nat) (merge_score: rat)
  | INSERT nat
  | KEEP nat

type_synonym alignment = "align_entry list"

record align_range =
  base_start :: nat
  base_end :: nat
  target_start :: nat
  target_end :: nat

datatype direction = NONE | MATCH | GAP_TARGET | GAP_BASE

text \<open>One position of the four matrices of \<^verbatim>\<open>AlignmentMatrices\<close>.\<close>

record cell =
  c_score :: rat
  c_dir :: direction
  c_sim :: "rat option"
  c_margin :: rat

record align_config =
  min_score :: rat
  min_length :: nat
  min_context :: nat
  gap_open_penalty :: rat

definition default_alignment_config :: align_config where
  "default_alignment_config =
     \<lparr>min_score = 5, min_length = 3, min_context = 10, gap_open_penalty = 5\<rparr>"

record local_alignment =
  la_entries :: alignment
  la_range :: align_range
  la_similarity :: "rat option list list"
  la_margin :: "rat list list"
  la_base_null :: "nat list"
  la_target_null :: "nat list"

record alignment_result =
  ar_alignments :: "local_alignment list"
  ar_base_coverage :: rat
  ar_target_coverage :: rat
  ar_gap_count :: nat

subsection \<open>Filling the matrices\<close>

definition score_similarity ::
    "('b \<Rightarrow> 't \<Rightarrow> rat option) \<Rightarrow> 'b option list \<Rightarrow> 't option list \<Rightarrow> nat \<Rightarrow> nat \<Rightarrow> rat option" where
  "score_similarity f base target i j =
     (case (base ! i, target ! j) of (Some b, Some t) \<Rightarrow> f b t | _ \<Rightarrow> Some 0)"

definition mk_cell :: "align_config \<Rightarrow> rat option \<Rightarrow> rat \<Rightarrow> rat \<Rightarrow> rat \<Rightarrow> cell" where
  "mk_cell cfg sim diag up left =
     (let s2 = up - gap_open_penalty cfg; s3 = left - gap_open_penalty cfg;
          s1 = map_option (\<lambda>s. diag + s) sim;
          gaps = max 0 (max s2 s3);
          m = (case s1 of None \<Rightarrow> gaps | Some v \<Rightarrow> max v gaps);
          above = (\<lambda>v. case s1 of None \<Rightarrow> v | Some w \<Rightarrow> max w v)
      in if s1 = Some m then \<lparr>c_score = m, c_dir = MATCH, c_sim = sim, c_margin = m - max 0 (max s2 s3)\<rparr>
         else if m = s2 then \<lparr>c_score = m, c_dir = GAP_TARGET, c_sim = sim, c_margin = m - above (max 0 s3)\<rparr>
         else if m = s3 then \<lparr>c_score = m, c_dir = GAP_BASE, c_sim = sim, c_margin = m - above (max 0 s2)\<rparr>
         else \<lparr>c_score = m, c_dir = NONE, c_sim = sim, c_margin = 0\<rparr>)"

text \<open>
  One row, left to right, given the scores of the row above; the neighbours outside the matrix
  score 0.
\<close>

fun fill_row :: "align_config \<Rightarrow> rat option list \<Rightarrow> rat list \<Rightarrow> rat \<Rightarrow> rat \<Rightarrow> cell list" where
  "fill_row cfg (s # ss) (u # us) diag left =
     (let c = mk_cell cfg s diag u left in c # fill_row cfg ss us u (c_score c))"
| "fill_row cfg _ _ diag left = []"

fun fill_rows :: "align_config \<Rightarrow> rat option list list \<Rightarrow> rat list \<Rightarrow> cell list list" where
  "fill_rows cfg [] ups = []"
| "fill_rows cfg (ss # sss) ups =
     (let row = fill_row cfg ss ups 0 0 in row # fill_rows cfg sss (map c_score row))"

definition similarity_rows :: "(nat \<Rightarrow> nat \<Rightarrow> rat option) \<Rightarrow> align_range \<Rightarrow> rat option list list" where
  "similarity_rows sim r =
     map (\<lambda>i. map (\<lambda>j. sim i j) [target_start r..<target_end r]) [base_start r..<base_end r]"

definition fill_matrices :: "align_config \<Rightarrow> (nat \<Rightarrow> nat \<Rightarrow> rat option) \<Rightarrow> align_range \<Rightarrow> cell list list" where
  "fill_matrices cfg sim r =
     fill_rows cfg (similarity_rows sim r) (replicate (target_end r - target_start r) 0)"

subsection \<open>Backtracking\<close>

fun better :: "rat \<times> nat \<times> nat \<Rightarrow> nat \<times> nat \<times> cell \<Rightarrow> rat \<times> nat \<times> nat" where
  "better (m, mi, mj) (i, j, c) = (if c_score c > m then (c_score c, i, j) else (m, mi, mj))"

definition cells_of :: "cell list list \<Rightarrow> (nat \<times> nat \<times> cell) list" where
  "cells_of m = concat (map (\<lambda>i. map (\<lambda>j. (i, j, m ! i ! j)) [0..<length (m ! i)]) [0..<length m])"

definition best_cell :: "cell list list \<Rightarrow> rat \<times> nat \<times> nat" where
  "best_cell m = foldl better (0, 0, 0) (cells_of m)"

text \<open>
  The loop \<^verbatim>\<open>while (i >= 0 && j >= 0)\<close>, its indices shifted by one; pushing and reversing at the
  end is consing.
\<close>

fun backtrack :: "cell list list \<Rightarrow> align_range \<Rightarrow> nat \<Rightarrow> nat \<Rightarrow> alignment \<Rightarrow> alignment" where
  "backtrack m r (Suc i) (Suc j) acc =
     (case c_dir (m ! i ! j) of
        NONE \<Rightarrow> acc
      | MATCH \<Rightarrow> backtrack m r i j
          (MERGE (i + base_start r) (j + target_start r)
             (case c_sim (m ! i ! j) of None \<Rightarrow> 0 | Some s \<Rightarrow> s) # acc)
      | GAP_TARGET \<Rightarrow> backtrack m r i (Suc j) (KEEP (i + base_start r) # acc)
      | GAP_BASE \<Rightarrow> backtrack m r (Suc i) j (INSERT (j + target_start r) # acc))"
| "backtrack m r _ _ acc = acc"

definition backtrack_best :: "align_config \<Rightarrow> align_range \<Rightarrow> cell list list \<Rightarrow> alignment option option" where
  "backtrack_best cfg r m =
     (let (s, i, j) = best_cell m
      in if s < min_score cfg then Some None
         else if i < length m \<and> j < length (m ! i) then Some (Some (backtrack m r (Suc i) (Suc j) []))
         else None)"

subsection \<open>The aligner\<close>

definition align_local ::
    "align_config \<Rightarrow> ('b \<Rightarrow> 't \<Rightarrow> rat option) \<Rightarrow> 'b option list \<Rightarrow> 't option list \<Rightarrow> align_range \<Rightarrow>
     local_alignment option option" where
  "align_local cfg f base target r =
     (let m = fill_matrices cfg (score_similarity f base target) r
      in case backtrack_best cfg r m of
           None \<Rightarrow> None
         | Some None \<Rightarrow> Some None
         | Some (Some es) \<Rightarrow>
             if length es < min_length cfg then Some None
             else Some (Some
               \<lparr>la_entries = es, la_range = r, la_similarity = map (map c_sim) m,
                la_margin = map (map c_margin) m,
                la_base_null = filter (\<lambda>i. base ! i = None) [base_start r..<base_end r],
                la_target_null = filter (\<lambda>j. target ! j = None) [target_start r..<target_end r]\<rparr>))"

lemma length_fill_row: "length (fill_row cfg ss us diag left) = min (length ss) (length us)"
  by (induction cfg ss us diag left rule: fill_row.induct) (auto simp: Let_def)

lemma length_fill_rows [simp]: "length (fill_rows cfg sss ups) = length sss"
  by (induction cfg sss ups rule: fill_rows.induct) (auto simp: Let_def)

lemma length_fill_rows_nth:
  "i < length sss \<Longrightarrow> \<forall>ss \<in> set sss. length ss = n \<Longrightarrow> length ups = n \<Longrightarrow>
     length (fill_rows cfg sss ups ! i) = n"
proof (induction sss arbitrary: i ups)
  case (Cons ss sss)
  then show ?case
    by (cases i) (auto simp: Let_def length_fill_row)
qed simp

lemma length_fill_matrices [simp]: "length (fill_matrices cfg sim r) = base_end r - base_start r"
  by (simp add: fill_matrices_def similarity_rows_def)

lemma length_fill_matrices_nth [simp]:
  "i < base_end r - base_start r \<Longrightarrow> length (fill_matrices cfg sim r ! i) = target_end r - target_start r"
  unfolding fill_matrices_def
  by (rule length_fill_rows_nth) (auto simp: similarity_rows_def)

lemma backtrack_within:
  "MERGE b t s \<in> set (backtrack m r i j acc) \<Longrightarrow>
     MERGE b t s \<in> set acc \<or>
     (base_start r \<le> b \<and> b < base_start r + i \<and> target_start r \<le> t \<and> t < target_start r + j)"
  by (induction m r i j acc rule: backtrack.induct) (fastforce split: direction.splits)+

lemma align_local_within:
  assumes "align_local cfg f base target r = Some (Some la)" and "MERGE b t s \<in> set (la_entries la)"
  shows "base_start r \<le> b \<and> b < base_end r \<and> target_start r \<le> t \<and> t < target_end r"
proof -
  let ?m = "fill_matrices cfg (score_similarity f base target) r"
  from assms(1) obtain s' i j where ij: "i < length ?m" "j < length (?m ! i)"
    and es: "la_entries la = backtrack ?m r (Suc i) (Suc j) []"
    by (auto simp: align_local_def backtrack_best_def Let_def split: prod.splits option.splits if_splits)
  from backtrack_within [OF assms(2) [unfolded es]] ij show ?thesis by auto
qed

text \<open>
  \<^verbatim>\<open>alignOver\<close>: the flag it returns is ignored by every caller. The recursion runs on the base
  range, which shrinks because a local alignment begins and ends inside it.
\<close>

function align_over ::
    "align_config \<Rightarrow> ('b \<Rightarrow> 't \<Rightarrow> rat option) \<Rightarrow> 'b option list \<Rightarrow> 't option list \<Rightarrow> align_range \<Rightarrow>
     local_alignment list \<Rightarrow> local_alignment list option" where
  "align_over cfg f base target r acc =
     (if base_end r - base_start r < min_context cfg \<or> target_end r - target_start r < min_context cfg
      then Some acc
      else case align_local cfg f base target r of
             None \<Rightarrow> None
           | Some None \<Rightarrow> Some acc
           | Some (Some la) \<Rightarrow>
               if la_entries la = [] then None
               else (case (hd (la_entries la), last (la_entries la)) of
                   (MERGE b1 t1 s1, MERGE b2 t2 s2) \<Rightarrow>
                     (case align_over cfg f base target
                             (r\<lparr>base_end := b1, target_end := t1\<rparr>) acc of
                        None \<Rightarrow> None
                      | Some acc1 \<Rightarrow> align_over cfg f base target
                             (r\<lparr>base_start := b2 + 1, target_start := t2 + 1\<rparr>) (acc1 @ [la]))
                 | _ \<Rightarrow> None))"
  by pat_completeness auto
termination
proof (relation "measure (\<lambda>(cfg, f, base, target, r, acc). base_end r - base_start r)", goal_cases)
  case (2 cfg f base target r acc x2 la hd' lst b1 t1 s1 b2 t2 s2)
  then have "MERGE b1 t1 s1 \<in> set (la_entries la)"
    by (metis hd_in_set prod.inject)
  with 2 show ?case
    using align_local_within by fastforce
next
  case (3 cfg f base target r acc x2 la hd' lst b1 t1 s1 b2 t2 s2 acc1)
  then have "MERGE b2 t2 s2 \<in> set (la_entries la)"
    by (metis last_in_set prod.inject)
  with 3 show ?case
    using align_local_within by fastforce
qed simp

declare align_over.simps [simp del]

definition count_action :: "(align_entry \<Rightarrow> bool) \<Rightarrow> local_alignment list \<Rightarrow> nat" where
  "count_action p las = length (filter p (concat (map la_entries las)))"

fun is_keep :: "align_entry \<Rightarrow> bool" where
  "is_keep (KEEP b) = True"
| "is_keep e = False"

fun is_insert :: "align_entry \<Rightarrow> bool" where
  "is_insert (INSERT t) = True"
| "is_insert e = False"

definition align ::
    "align_config \<Rightarrow> ('b \<Rightarrow> 't \<Rightarrow> rat option) \<Rightarrow> 'b option list \<Rightarrow> 't option list \<Rightarrow>
     alignment_result option" where
  "align cfg f base target =
     (case align_over cfg f base target
             \<lparr>base_start = 0, base_end = length base, target_start = 0, target_end = length target\<rparr> [] of
        None \<Rightarrow> None
      | Some las \<Rightarrow>
          (let mc = count_action is_MERGE las; kc = count_action is_keep las; ic = count_action is_insert las
           in Some \<lparr>ar_alignments = las,
                ar_base_coverage = (if length base > 0 then of_nat (mc + kc) / of_nat (length base) else 0),
                ar_target_coverage = (if length target > 0 then of_nat (mc + ic) / of_nat (length target) else 0),
                ar_gap_count = kc + ic\<rparr>))"

subsection \<open>The recurrence the matrices satisfy\<close>

text \<open>The score at a matrix position shifted by one, so that the border of zeros is row and column 0.\<close>

definition score_at :: "cell list list \<Rightarrow> nat \<Rightarrow> nat \<Rightarrow> rat" where
  "score_at m i j = (if i = 0 \<or> j = 0 then 0 else c_score (m ! (i - 1) ! (j - 1)))"

lemma score_at_border [simp]: "score_at m 0 j = 0" "score_at m i 0 = 0"
  by (simp_all add: score_at_def)

lemma score_at_Suc: "score_at m (Suc i) (Suc j) = c_score (m ! i ! j)"
  by (simp add: score_at_def)

lemma fill_row_nth:
  "length us = length ss \<Longrightarrow> j < length ss \<Longrightarrow>
     fill_row cfg ss us diag left ! j =
       mk_cell cfg (ss ! j) (if j = 0 then diag else us ! (j - 1)) (us ! j)
         (if j = 0 then left else c_score (fill_row cfg ss us diag left ! (j - 1)))"
proof (induction cfg ss us diag left arbitrary: j rule: fill_row.induct)
  case (1 cfg s ss u us diag left)
  show ?case
  proof (cases j)
    case 0
    then show ?thesis by (simp add: Let_def)
  next
    case (Suc k)
    with 1 show ?thesis by (cases k) (auto simp: Let_def)
  qed
qed auto

lemma fill_rows_nth:
  "i < length sss \<Longrightarrow>
     fill_rows cfg sss ups ! i =
       fill_row cfg (sss ! i) (if i = 0 then ups else map c_score (fill_rows cfg sss ups ! (i - 1))) 0 0"
proof (induction sss arbitrary: i ups)
  case (Cons ss sss)
  show ?case
  proof (cases i)
    case 0
    then show ?thesis by (simp add: Let_def)
  next
    case (Suc k)
    with Cons show ?thesis by (cases k) (auto simp: Let_def)
  qed
qed simp

lemma fill_matrices_nth:
  assumes m_def: "m = fill_matrices cfg sim r"
    and i: "i < base_end r - base_start r" and j: "j < target_end r - target_start r"
  shows "m ! i ! j = mk_cell cfg (sim (base_start r + i) (target_start r + j))
           (score_at m i j) (score_at m i (Suc j)) (score_at m (Suc i) j)"
proof -
  let ?rows = "similarity_rows sim r"
  let ?cols = "target_end r - target_start r"
  let ?ups = "if i = 0 then replicate ?cols 0 else map c_score (m ! (i - 1))"
  have row: "m ! i = fill_row cfg (?rows ! i) ?ups 0 0"
    unfolding m_def fill_matrices_def by (rule fill_rows_nth) (use i in \<open>simp add: similarity_rows_def\<close>)
  have sim_row: "?rows ! i = map (\<lambda>j. sim (base_start r + i) j) [target_start r..<target_end r]"
    using i by (simp add: similarity_rows_def)
  have len: "length ?ups = length (?rows ! i)"
    using i by (simp add: m_def sim_row)
  have ups: "?ups ! k = score_at m i (Suc k)" if "k < ?cols" for k
    using that i by (simp add: score_at_def m_def)
  have "m ! i ! j = mk_cell cfg (?rows ! i ! j) (if j = 0 then 0 else ?ups ! (j - 1)) (?ups ! j)
          (if j = 0 then 0 else c_score (m ! i ! (j - 1)))"
    unfolding row by (rule fill_row_nth [OF len]) (use j in \<open>simp add: sim_row\<close>)
  moreover have "(if j = 0 then 0 else ?ups ! (j - 1)) = score_at m i j"
    using ups [of "j - 1"] j by (cases j) auto
  moreover have "(if j = 0 then 0 else c_score (m ! i ! (j - 1))) = score_at m (Suc i) j"
    by (simp add: score_at_def)
  ultimately show ?thesis
    using j by (simp add: sim_row ups)
qed

text \<open>What one cell guarantees, by the direction it records.\<close>

lemma mk_cell_sim [simp]: "c_sim (mk_cell cfg s d u l) = s"
  by (simp add: mk_cell_def Let_def)

lemma mk_cell_score:
  "c_score (mk_cell cfg None d u l) = max 0 (max (u - gap_open_penalty cfg) (l - gap_open_penalty cfg))"
  "c_score (mk_cell cfg (Some v) d u l) =
     max (d + v) (max 0 (max (u - gap_open_penalty cfg) (l - gap_open_penalty cfg)))"
  by (simp_all only: mk_cell_def Let_def option.map option.case if_distrib [of c_score] cell.simps if_cancel)

lemma mk_cell_bounds:
  "0 \<le> c_score (mk_cell cfg s d u l)"
  "u - gap_open_penalty cfg \<le> c_score (mk_cell cfg s d u l)"
  "l - gap_open_penalty cfg \<le> c_score (mk_cell cfg s d u l)"
  by (cases s; simp only: mk_cell_score; simp only: max.coboundedI1 max.coboundedI2 order_refl max.cobounded1)+

lemma mk_cell_bound_match: "d + v \<le> c_score (mk_cell cfg (Some v) d u l)"
  by (simp only: mk_cell_score max.cobounded1)

lemma mk_cell_cases:
  "(c_dir (mk_cell cfg s d u l) = MATCH \<and> s = Some (c_score (mk_cell cfg s d u l) - d)) \<or>
   (c_dir (mk_cell cfg s d u l) = GAP_TARGET \<and> c_score (mk_cell cfg s d u l) = u - gap_open_penalty cfg) \<or>
   (c_dir (mk_cell cfg s d u l) = GAP_BASE \<and> c_score (mk_cell cfg s d u l) = l - gap_open_penalty cfg) \<or>
   (c_dir (mk_cell cfg s d u l) = NONE \<and> c_score (mk_cell cfg s d u l) = 0)"
proof -
  let ?a = "u - gap_open_penalty cfg" and ?b = "l - gap_open_penalty cfg"
  have split: "x = w \<or> x = ?a \<or> x = ?b \<or> x = 0" if "x = max w (max 0 (max ?a ?b))" for x w :: rat
    using that by (metis max_def)
  have split0: "x = ?a \<or> x = ?b \<or> x = 0" if "x = max 0 (max ?a ?b)" for x :: rat
    using that by (metis max_def)
  show ?thesis
  proof (cases s)
    case None
    show ?thesis
      using split0 [OF refl] unfolding None by (simp add: mk_cell_def Let_def) blast
  next
    case (Some v)
    define M where "M = max (d + v) (max 0 (max ?a ?b))"
    have "mk_cell cfg s d u l =
       (if d + v = M then \<lparr>c_score = M, c_dir = MATCH, c_sim = s, c_margin = M - max 0 (max ?a ?b)\<rparr>
        else if M = ?a then \<lparr>c_score = M, c_dir = GAP_TARGET, c_sim = s, c_margin = M - max (d + v) (max 0 ?b)\<rparr>
        else if M = ?b then \<lparr>c_score = M, c_dir = GAP_BASE, c_sim = s, c_margin = M - max (d + v) (max 0 ?a)\<rparr>
        else \<lparr>c_score = M, c_dir = NONE, c_sim = s, c_margin = 0\<rparr>)"
      by (simp only: Some mk_cell_def Let_def option.map option.case option.inject M_def)
    with split [OF M_def] show ?thesis
      using Some by simp metis
  qed
qed

subsection \<open>Paths\<close>

text \<open>
  A path through the two timelines: from \<open>(i, j)\<close> it consumes base and target ticks in order, a
  merge one of each, and collects the score the aligner maximises.
\<close>

inductive walks ::
    "(nat \<Rightarrow> nat \<Rightarrow> rat option) \<Rightarrow> rat \<Rightarrow> nat \<Rightarrow> nat \<Rightarrow> alignment \<Rightarrow> nat \<Rightarrow> nat \<Rightarrow> rat \<Rightarrow> bool"
  for sim g i j where
  walk_start: "walks sim g i j [] i j 0"
| walk_merge: "walks sim g i j es i' j' v \<Longrightarrow> sim i' j' = Some s \<Longrightarrow>
     walks sim g i j (es @ [MERGE i' j' s]) (Suc i') (Suc j') (v + s)"
| walk_insert: "walks sim g i j es i' j' v \<Longrightarrow> walks sim g i j (es @ [INSERT j']) i' (Suc j') (v - g)"
| walk_keep: "walks sim g i j es i' j' v \<Longrightarrow> walks sim g i j (es @ [KEEP i']) (Suc i') j' (v - g)"

lemma walks_mono: "walks sim g i j es i' j' v \<Longrightarrow> i \<le> i' \<and> j \<le> j'"
  by (induction rule: walks.induct) auto

text \<open>No path that stays in the range scores more than the cell it ends in.\<close>

lemma score_at_nonneg:
  assumes "m = fill_matrices cfg sim r"
    and "i \<le> base_end r - base_start r" and "j \<le> target_end r - target_start r"
  shows "0 \<le> score_at m i j"
proof (cases "i = 0 \<or> j = 0")
  case False
  then obtain i' j' where "i = Suc i'" "j = Suc j'"
    by (metis not0_implies_Suc)
  with assms show ?thesis
    by (simp add: score_at_Suc fill_matrices_nth mk_cell_bounds)
qed (auto simp: score_at_def)

lemma score_at_step:
  assumes m: "m = fill_matrices cfg sim r"
    and i: "i < base_end r - base_start r" and j: "j < target_end r - target_start r"
  shows "score_at m i (Suc j) - gap_open_penalty cfg \<le> score_at m (Suc i) (Suc j)"
    and "score_at m (Suc i) j - gap_open_penalty cfg \<le> score_at m (Suc i) (Suc j)"
    and "sim (base_start r + i) (target_start r + j) = Some s \<Longrightarrow>
      score_at m i j + s \<le> score_at m (Suc i) (Suc j)"
  unfolding score_at_Suc [of m i j] fill_matrices_nth [OF m i j]
  by (simp_all only: mk_cell_bounds mk_cell_bound_match)

lemma walks_le_score:
  assumes m: "m = fill_matrices cfg sim r" and g: "0 \<le> gap_open_penalty cfg"
  shows "walks sim (gap_open_penalty cfg) i0 j0 es i j v \<Longrightarrow> base_start r \<le> i0 \<Longrightarrow> target_start r \<le> j0 \<Longrightarrow>
     i \<le> base_end r \<Longrightarrow> j \<le> target_end r \<Longrightarrow> v \<le> score_at m (i - base_start r) (j - target_start r)"
proof (induction rule: walks.induct)
  case walk_start
  then show ?case by (simp add: score_at_nonneg [OF m])
next
  case (walk_merge es i' j' v s)
  have le: "base_start r \<le> i'" "target_start r \<le> j'"
    using walks_mono [OF walk_merge.hyps(1)] walk_merge.prems by simp_all
  with walk_merge have "v + s \<le> score_at m (i' - base_start r) (j' - target_start r) + s" by simp
  also have "\<dots> \<le> score_at m (Suc (i' - base_start r)) (Suc (j' - target_start r))"
    by (rule score_at_step(3) [OF m]) (use walk_merge le in simp_all)
  finally show ?case using le by (simp add: Suc_diff_le)
next
  case (walk_insert es i' j' v)
  have le: "base_start r \<le> i'" "target_start r \<le> j'"
    using walks_mono [OF walk_insert.hyps(1)] walk_insert.prems by simp_all
  with walk_insert have v: "v \<le> score_at m (i' - base_start r) (j' - target_start r)" by simp
  show ?case
  proof (cases "i' = base_start r")
    case True
    with v g show ?thesis by simp
  next
    case False
    with le obtain k where k: "i' - base_start r = Suc k" by (metis Suc_diff_Suc le_neq_implies_less)
    have "score_at m (Suc k) (j' - target_start r) - gap_open_penalty cfg
        \<le> score_at m (Suc k) (Suc (j' - target_start r))"
      by (rule score_at_step(2) [OF m]) (use walk_insert le k in simp_all)
    with v k le show ?thesis by (simp add: Suc_diff_le)
  qed
next
  case (walk_keep es i' j' v)
  have le: "base_start r \<le> i'" "target_start r \<le> j'"
    using walks_mono [OF walk_keep.hyps(1)] walk_keep.prems by simp_all
  with walk_keep have v: "v \<le> score_at m (i' - base_start r) (j' - target_start r)" by simp
  show ?case
  proof (cases "j' = target_start r")
    case True
    with v g show ?thesis by simp
  next
    case False
    with le obtain k where k: "j' - target_start r = Suc k" by (metis Suc_diff_Suc le_neq_implies_less)
    have "score_at m (i' - base_start r) (Suc k) - gap_open_penalty cfg
        \<le> score_at m (Suc (i' - base_start r)) (Suc k)"
      by (rule score_at_step(1) [OF m]) (use walk_keep le k in simp_all)
    with v k le show ?thesis by (simp add: Suc_diff_le)
  qed
qed

text \<open>The trace is a path to the cell it starts from, and collects exactly that cell's score.\<close>

lemma fill_matrices_cases:
  assumes m: "m = fill_matrices cfg sim r"
    and i: "i < base_end r - base_start r" and j: "j < target_end r - target_start r"
  obtains (MATCH) s where "c_dir (m ! i ! j) = MATCH" "c_sim (m ! i ! j) = Some s"
      "sim (base_start r + i) (target_start r + j) = Some s"
      "score_at m (Suc i) (Suc j) = score_at m i j + s"
  | (GAP_TARGET) "c_dir (m ! i ! j) = GAP_TARGET"
      "score_at m (Suc i) (Suc j) = score_at m i (Suc j) - gap_open_penalty cfg"
  | (GAP_BASE) "c_dir (m ! i ! j) = GAP_BASE"
      "score_at m (Suc i) (Suc j) = score_at m (Suc i) j - gap_open_penalty cfg"
  | (NONE) "c_dir (m ! i ! j) = NONE" "score_at m (Suc i) (Suc j) = 0"
  using mk_cell_cases [of cfg "sim (base_start r + i) (target_start r + j)"
      "score_at m i j" "score_at m i (Suc j)" "score_at m (Suc i) j"]
  unfolding score_at_Suc [of m i j] fill_matrices_nth [OF m i j]
  by fastforce

lemma backtrack_walks:
  assumes m: "m = fill_matrices cfg sim r"
    and "i \<le> base_end r - base_start r" and "j \<le> target_end r - target_start r"
  shows "\<exists>es i0 j0. backtrack m r i j acc = es @ acc \<and> base_start r \<le> i0 \<and> target_start r \<le> j0 \<and>
       walks sim (gap_open_penalty cfg) i0 j0 es (base_start r + i) (target_start r + j) (score_at m i j)"
  using assms
proof (induction m r i j acc rule: backtrack.induct)
  case (1 m r i j acc)
  have ij: "i < base_end r - base_start r" "j < target_end r - target_start r"
    using "1.prems" by simp_all
  note cell = fill_matrices_cases [OF "1.prems"(1) ij]
  show ?case
  proof (cases rule: cell)
    case (1 s)
    from "1.IH"(1) [OF 1(1) "1.prems"(1)] ij obtain es i0 j0 where
      "backtrack m r i j (MERGE (base_start r + i) (target_start r + j) s # acc)
         = es @ MERGE (base_start r + i) (target_start r + j) s # acc"
      "base_start r \<le> i0" "target_start r \<le> j0"
      "walks sim (gap_open_penalty cfg) i0 j0 es (base_start r + i) (target_start r + j) (score_at m i j)"
      using 1(2) by (auto simp: add.commute)
    with walk_merge [OF this(4) 1(3)] 1 show ?thesis
      by (intro exI [of _ "es @ [MERGE (base_start r + i) (target_start r + j) s]"] exI [of _ i0] exI [of _ j0])
         (simp add: add.commute)
  next
    case 2
    from "1.IH"(2) [OF 2(1) "1.prems"(1)] ij obtain es i0 j0 where
      "backtrack m r i (Suc j) (KEEP (base_start r + i) # acc) = es @ KEEP (base_start r + i) # acc"
      "base_start r \<le> i0" "target_start r \<le> j0"
      "walks sim (gap_open_penalty cfg) i0 j0 es (base_start r + i) (target_start r + Suc j) (score_at m i (Suc j))"
      by (auto simp: add.commute)
    with walk_keep [OF this(4)] 2 show ?thesis
      by (intro exI [of _ "es @ [KEEP (base_start r + i)]"] exI [of _ i0] exI [of _ j0])
         (simp add: add.commute)
  next
    case 3
    from "1.IH"(3) [OF 3(1) "1.prems"(1)] ij obtain es i0 j0 where
      "backtrack m r (Suc i) j (INSERT (target_start r + j) # acc) = es @ INSERT (target_start r + j) # acc"
      "base_start r \<le> i0" "target_start r \<le> j0"
      "walks sim (gap_open_penalty cfg) i0 j0 es (base_start r + Suc i) (target_start r + j) (score_at m (Suc i) j)"
      by (auto simp: add.commute)
    with walk_insert [OF this(4)] 3 show ?thesis
      by (intro exI [of _ "es @ [INSERT (target_start r + j)]"] exI [of _ i0] exI [of _ j0])
         (simp add: add.commute)
  next
    case 4
    with walk_start [of sim "gap_open_penalty cfg" "base_start r + Suc i" "target_start r + Suc j"]
    show ?thesis
      by (intro exI [of _ "[]"] exI [of _ "base_start r + Suc i"] exI [of _ "target_start r + Suc j"]) simp
  qed
next
  case "2_1"
  show ?case
    by simp (meson walk_start le_add1 order_refl)
next
  case "2_2"
  show ?case
    by simp (meson walk_start le_add1 order_refl)
qed

text \<open>Where the trace starts and where it ends.\<close>

lemma foldl_better:
  "foldl better (s, i, j) xs = (s', i', j') \<Longrightarrow>
     s \<le> s' \<and> (\<forall>(a, b, c) \<in> set xs. c_score c \<le> s') \<and>
     ((s', i', j') = (s, i, j) \<or> (s < s' \<and> (\<exists>c. (i', j', c) \<in> set xs \<and> c_score c = s')))"
proof (induction xs arbitrary: s i j)
  case (Cons x xs)
  obtain a b c where x: "x = (a, b, c)" by (cases x)
  show ?case
  proof (cases "c_score c > s")
    case True
    with Cons.prems have "foldl better (c_score c, a, b) xs = (s', i', j')" by (simp add: x)
    from Cons.IH [OF this] True show ?thesis by (auto simp: x)
  next
    case False
    with Cons.prems have "foldl better (s, i, j) xs = (s', i', j')" by (simp add: x)
    from Cons.IH [OF this] False show ?thesis by (auto simp: x)
  qed
qed auto

lemma best_cell:
  assumes "best_cell m = (s, i, j)"
  shows "0 \<le> s"
    and "\<And>a b. a < length m \<Longrightarrow> b < length (m ! a) \<Longrightarrow> c_score (m ! a ! b) \<le> s"
    and "0 < s \<Longrightarrow> i < length m \<and> j < length (m ! i) \<and> c_score (m ! i ! j) = s"
  using foldl_better [OF assms [unfolded best_cell_def]] by (auto simp: cells_of_def)

lemma backtrack_hd:
  assumes m: "m = fill_matrices cfg sim r" and g: "0 < gap_open_penalty cfg"
    and "i \<le> base_end r - base_start r" and "j \<le> target_end r - target_start r"
  shows "(backtrack m r i j acc = acc \<and> score_at m i j = 0) \<or> is_MERGE (hd (backtrack m r i j acc))"
  using assms
proof (induction m r i j acc rule: backtrack.induct)
  case (1 m r i j acc)
  have ij: "i < base_end r - base_start r" "j < target_end r - target_start r"
    using "1.prems" by simp_all
  have pos: "0 \<le> score_at m (Suc i) (Suc j)"
    using "1.prems" by (intro score_at_nonneg) auto
  show ?case
  proof (cases rule: fill_matrices_cases [OF "1.prems"(1) ij])
    case (1 s)
    with "1.IH"(1) [OF 1(1) "1.prems"(1,2)] ij show ?thesis by auto
  next
    case 2
    with "1.IH"(2) [OF 2(1) "1.prems"(1,2)] ij pos g "1.prems"(2) show ?thesis by auto
  next
    case 3
    with "1.IH"(3) [OF 3(1) "1.prems"(1,2)] ij pos g "1.prems"(2) show ?thesis by auto
  qed simp
qed simp_all

text \<open>The best cell of a positive score was reached by a match.\<close>

lemma best_cell_match:
  assumes m: "m = fill_matrices cfg sim r" and g: "0 < gap_open_penalty cfg"
    and best: "best_cell m = (s, i, j)" and pos: "0 < s"
  shows "c_dir (m ! i ! j) = MATCH"
proof -
  from best_cell(3) [OF best pos] have len: "i < length m" "j < length (m ! i)"
    and s: "score_at m (Suc i) (Suc j) = s" by (simp_all add: score_at_Suc)
  from len m have ij: "i < base_end r - base_start r" "j < target_end r - target_start r" by simp_all
  have le: "score_at m a b \<le> s" if "a \<le> Suc i" "b \<le> Suc j" for a b
  proof (cases "a = 0 \<or> b = 0")
    case True
    with pos show ?thesis by (auto simp: score_at_def)
  next
    case False
    then obtain a' b' where ab: "a = Suc a'" "b = Suc b'" by (metis not0_implies_Suc)
    with that ij m have "a' < length m" "b' < length (m ! a')" by auto
    with ab best_cell(2) [OF best] show ?thesis by (simp add: score_at_Suc)
  qed
  show ?thesis
  proof (cases rule: fill_matrices_cases [OF m ij])
    case 2
    with le [of i "Suc j"] s g show ?thesis by simp
  next
    case 3
    with le [of "Suc i" j] s g show ?thesis by simp
  next
    case 4
    with s pos show ?thesis by simp
  qed simp
qed

subsection \<open>What a local alignment promises\<close>

fun base_of :: "align_entry \<Rightarrow> nat option" where
  "base_of (MERGE b t s) = Some b"
| "base_of (KEEP b) = Some b"
| "base_of (INSERT t) = None"

fun target_of :: "align_entry \<Rightarrow> nat option" where
  "target_of (MERGE b t s) = Some t"
| "target_of (KEEP b) = None"
| "target_of (INSERT t) = Some t"

definition bases :: "alignment \<Rightarrow> nat list" where
  "bases es = List.map_filter base_of es"

definition targets :: "alignment \<Rightarrow> nat list" where
  "targets es = List.map_filter target_of es"

lemma bases_append [simp]: "bases (xs @ ys) = bases xs @ bases ys"
  by (simp add: bases_def List.map_filter_def)

lemma targets_append [simp]: "targets (xs @ ys) = targets xs @ targets ys"
  by (simp add: targets_def List.map_filter_def)

lemma bases_simps [simp]:
  "bases [] = []" "bases (MERGE b t s # es) = b # bases es" "bases (KEEP b # es) = b # bases es"
  "bases (INSERT t # es) = bases es"
  by (simp_all add: bases_def List.map_filter_def)

lemma targets_simps [simp]:
  "targets [] = []" "targets (MERGE b t s # es) = t # targets es" "targets (KEEP b # es) = targets es"
  "targets (INSERT t # es) = t # targets es"
  by (simp_all add: targets_def List.map_filter_def)

lemma walks_contiguous:
  "walks sim g i j es i' j' v \<Longrightarrow> bases es = [i..<i'] \<and> targets es = [j..<j']"
proof (induction rule: walks.induct)
  case (walk_merge es i' j' v s)
  with walks_mono [OF walk_merge(1)] show ?case by simp
next
  case (walk_insert es i' j' v)
  with walks_mono [OF walk_insert(1)] show ?case by simp
next
  case (walk_keep es i' j' v)
  with walks_mono [OF walk_keep(1)] show ?case by simp
qed simp

text \<open>
  A local alignment of a range: it begins and ends with a merge, is a contiguous path inside the
  range, is long and good enough, and no path inside the range has a higher score.
\<close>

definition best_path ::
    "align_config \<Rightarrow> (nat \<Rightarrow> nat \<Rightarrow> rat option) \<Rightarrow> align_range \<Rightarrow> alignment \<Rightarrow> bool" where
  "best_path cfg sim r es \<longleftrightarrow>
     es \<noteq> [] \<and> is_MERGE (hd es) \<and> is_MERGE (last es) \<and> min_length cfg \<le> length es \<and>
     (\<exists>i j i' j' v. walks sim (gap_open_penalty cfg) i j es i' j' v \<and>
        base_start r \<le> i \<and> target_start r \<le> j \<and> i' \<le> base_end r \<and> j' \<le> target_end r \<and>
        min_score cfg \<le> v \<and>
        (\<forall>a b ps a' b' w. walks sim (gap_open_penalty cfg) a b ps a' b' w \<longrightarrow>
           base_start r \<le> a \<longrightarrow> target_start r \<le> b \<longrightarrow> a' \<le> base_end r \<longrightarrow> b' \<le> target_end r \<longrightarrow> w \<le> v))"

lemma walks_le_best:
  assumes m: "m = fill_matrices cfg sim r" and g: "0 \<le> gap_open_penalty cfg"
    and best: "best_cell m = (s, i, j)"
    and w: "walks sim (gap_open_penalty cfg) a b ps a' b' w"
    and bd: "base_start r \<le> a" "target_start r \<le> b" "a' \<le> base_end r" "b' \<le> target_end r"
  shows "w \<le> s"
proof -
  let ?x = "a' - base_start r" and ?y = "b' - target_start r"
  have "w \<le> score_at m ?x ?y"
    by (rule walks_le_score [OF m g w bd])
  also have "\<dots> \<le> s"
  proof (cases "?x = 0 \<or> ?y = 0")
    case True
    with best_cell(1) [OF best] show ?thesis by (auto simp: score_at_def)
  next
    case False
    then obtain x y where xy: "?x = Suc x" "?y = Suc y" by (metis not0_implies_Suc)
    with bd m have "x < length m" "y < length (m ! x)" by auto
    with xy best_cell(2) [OF best] show ?thesis by (simp add: score_at_Suc)
  qed
  finally show ?thesis .
qed

lemma backtrack_best_correct:
  assumes m: "m = fill_matrices cfg sim r"
    and g: "0 < gap_open_penalty cfg" and ms: "0 < min_score cfg"
  shows "(\<exists>s i j. best_cell m = (s, i, j) \<and> s < min_score cfg \<and> backtrack_best cfg r m = Some None) \<or>
    (\<exists>es. backtrack_best cfg r m = Some (Some es) \<and>
       (min_length cfg \<le> length es \<longrightarrow> best_path cfg sim r es))"
proof -
  obtain s i j where best: "best_cell m = (s, i, j)" by (cases "best_cell m")
  show ?thesis
  proof (cases "s < min_score cfg")
    case True
    with best show ?thesis by (simp add: backtrack_best_def)
  next
    case False
    with ms have pos: "0 < s" by simp
    from best_cell(3) [OF best pos] have len: "i < length m" "j < length (m ! i)"
      and s: "score_at m (Suc i) (Suc j) = s" by (simp_all add: score_at_Suc)
    from len m have ij: "i < base_end r - base_start r" "j < target_end r - target_start r" by simp_all
    let ?es = "backtrack m r (Suc i) (Suc j) []"
    obtain q where "?es = backtrack m r i j [MERGE (i + base_start r) (j + target_start r) q]"
      using best_cell_match [OF m g best pos] by simp
    with backtrack_walks [OF m, of i j] ij obtain es0 where
      es0: "?es = es0 @ [MERGE (i + base_start r) (j + target_start r) q]" by fastforce
    obtain i0 j0 where "base_start r \<le> i0" "target_start r \<le> j0"
      and w: "walks sim (gap_open_penalty cfg) i0 j0 ?es (base_start r + Suc i) (target_start r + Suc j) s"
      using backtrack_walks [OF m, of "Suc i" "Suc j" "[]"] ij s by auto
    moreover have "is_MERGE (hd ?es)"
      using backtrack_hd [OF m g, of "Suc i" "Suc j" "[]"] ij s pos by auto
    moreover have "\<forall>a b ps a' b' w. walks sim (gap_open_penalty cfg) a b ps a' b' w \<longrightarrow>
        base_start r \<le> a \<longrightarrow> target_start r \<le> b \<longrightarrow> a' \<le> base_end r \<longrightarrow> b' \<le> target_end r \<longrightarrow> w \<le> s"
      using walks_le_best [OF m less_imp_le [OF g] best] by blast
    moreover have "base_start r + Suc i \<le> base_end r" "target_start r + Suc j \<le> target_end r"
      using ij by simp_all
    ultimately have "min_length cfg \<le> length ?es \<longrightarrow> best_path cfg sim r ?es"
      unfolding best_path_def using es0 False by (metis append_is_Nil_conv is_MERGE_def last_snoc
        list.distinct(1) not_less)
    moreover have "backtrack_best cfg r m = Some (Some ?es)"
      using False best len by (simp add: backtrack_best_def)
    ultimately show ?thesis by blast
  qed
qed

text \<open>Every local alignment is a best path of its range, and the aligner never fails.\<close>

lemma align_local_total:
  assumes "0 < gap_open_penalty cfg" and "0 < min_score cfg"
  shows "align_local cfg f base target r \<noteq> None"
  using backtrack_best_correct [OF refl assms, of "score_similarity f base target" r]
  by (auto simp: align_local_def Let_def split: if_splits)

lemma align_local_best:
  assumes "0 < gap_open_penalty cfg" and "0 < min_score cfg"
    and "align_local cfg f base target r = Some (Some la)"
  shows "best_path cfg (score_similarity f base target) r (la_entries la) \<and> la_range la = r"
  using backtrack_best_correct [OF refl assms(1,2), of "score_similarity f base target" r] assms(3)
  by (auto simp: align_local_def Let_def split: if_splits)

lemma best_path_span:
  assumes "best_path cfg sim r es"
  obtains b1 t1 s1 b2 t2 s2 where "hd es = MERGE b1 t1 s1" "last es = MERGE b2 t2 s2"
    "bases es = [b1..<Suc b2]" "targets es = [t1..<Suc t2]" "b1 \<le> b2" "t1 \<le> t2"
    "base_start r \<le> b1" "target_start r \<le> t1" "b2 < base_end r" "t2 < target_end r" "es \<noteq> []"
proof -
  from assms obtain i j i' j' v where
    w: "walks sim (gap_open_penalty cfg) i j es i' j' v"
    and bd: "base_start r \<le> i" "target_start r \<le> j" "i' \<le> base_end r" "j' \<le> target_end r"
    and ne: "es \<noteq> []" and hl: "is_MERGE (hd es)" "is_MERGE (last es)"
    by (auto simp: best_path_def)
  from hl obtain b1 t1 s1 b2 t2 s2 where
    hd: "hd es = MERGE b1 t1 s1" and last: "last es = MERGE b2 t2 s2"
    by (auto simp: is_MERGE_def)
  from walks_contiguous [OF w] have b: "bases es = [i..<i']" and t: "targets es = [j..<j']" by simp_all
  from ne hd obtain ys where ys: "es = MERGE b1 t1 s1 # ys" by (cases es) auto
  from ne last obtain zs where zs: "es = zs @ [MERGE b2 t2 s2]" by (metis append_butlast_last_id)
  have "b1 = i \<and> t1 = j \<and> i < i' \<and> j < j'"
    using b t unfolding ys by (auto simp: upt_eq_Cons_conv dest!: sym [of "_ # _"])
  moreover have "i' = Suc b2 \<and> j' = Suc t2"
    using b t calculation unfolding zs by (auto simp: upt_eq_Cons_conv dest!: arg_cong [where f = last])
  ultimately show thesis
    using that [OF hd last] b t bd ne by simp
qed

subsection \<open>What an alignment of two timelines promises\<close>

definition increasing_within :: "nat \<Rightarrow> nat \<Rightarrow> nat list \<Rightarrow> bool" where
  "increasing_within lo hi xs \<longleftrightarrow> sorted_wrt (<) xs \<and> (\<forall>x \<in> set xs. lo \<le> x \<and> x < hi)"

lemma increasing_within_Nil [simp]: "increasing_within lo hi []"
  by (simp add: increasing_within_def)

lemma increasing_within_upt: "increasing_within a b [a..<b]"
  by (simp add: increasing_within_def)

lemma increasing_within_append:
  "increasing_within lo mid xs \<Longrightarrow> increasing_within mid' hi ys \<Longrightarrow> mid \<le> mid' \<Longrightarrow> lo \<le> mid' \<Longrightarrow> mid \<le> hi \<Longrightarrow>
     increasing_within lo hi (xs @ ys)"
  by (fastforce simp: increasing_within_def sorted_wrt_append)

lemma increasing_within_length:
  assumes "increasing_within lo hi xs"
  shows "length xs \<le> hi - lo"
proof -
  from assms have "distinct xs" and "set xs \<subseteq> {lo..<hi}"
    by (auto simp: increasing_within_def strict_sorted_iff)
  from distinct_card [OF this(1)] card_mono [OF _ this(2)] show ?thesis by simp
qed

definition all_entries :: "local_alignment list \<Rightarrow> alignment" where
  "all_entries las = concat (map la_entries las)"

lemma all_entries_append [simp]: "all_entries (xs @ ys) = all_entries xs @ all_entries ys"
  by (simp add: all_entries_def)

lemma all_entries_Cons [simp]: "all_entries (x # ys) = la_entries x @ all_entries ys"
  by (simp add: all_entries_def)

definition range_within :: "align_range \<Rightarrow> align_range \<Rightarrow> bool" where
  "range_within q r \<longleftrightarrow> base_start r \<le> base_start q \<and> base_end q \<le> base_end r \<and>
     target_start r \<le> target_start q \<and> target_end q \<le> target_end r"

definition valid_within ::
    "align_config \<Rightarrow> (nat \<Rightarrow> nat \<Rightarrow> rat option) \<Rightarrow> align_range \<Rightarrow> local_alignment list \<Rightarrow> bool" where
  "valid_within cfg sim r las \<longleftrightarrow>
     increasing_within (base_start r) (base_end r) (bases (all_entries las)) \<and>
     increasing_within (target_start r) (target_end r) (targets (all_entries las)) \<and>
     (\<forall>la \<in> set las. best_path cfg sim (la_range la) (la_entries la) \<and> range_within (la_range la) r)"

lemma valid_within_Nil [simp]: "valid_within cfg sim r []"
  by (simp add: valid_within_def all_entries_def)

text \<open>Splitting a range around a best path and keeping the two sides' alignments around it.\<close>

lemma valid_within_split:
  assumes la: "best_path cfg sim r (la_entries la)" "la_range la = r"
    and hd: "hd (la_entries la) = MERGE b1 t1 s1" and last: "last (la_entries la) = MERGE b2 t2 s2"
    and l: "valid_within cfg sim (r\<lparr>base_end := b1, target_end := t1\<rparr>) las1"
    and u: "valid_within cfg sim (r\<lparr>base_start := b2 + 1, target_start := t2 + 1\<rparr>) las2"
  shows "valid_within cfg sim r (las1 @ la # las2)"
proof -
  from best_path_span [OF la(1)] hd last have
    b: "bases (la_entries la) = [b1..<Suc b2]" and t: "targets (la_entries la) = [t1..<Suc t2]" and
    bd: "b1 \<le> b2" "t1 \<le> t2" "base_start r \<le> b1" "target_start r \<le> t1" "b2 < base_end r" "t2 < target_end r"
    by (metis align_entry.inject(1))+
  have mid: "increasing_within b1 (base_end r) ([b1..<Suc b2] @ bases (all_entries las2))"
    "increasing_within t1 (target_end r) ([t1..<Suc t2] @ targets (all_entries las2))"
    using u bd by (auto intro!: increasing_within_append [OF increasing_within_upt] simp: valid_within_def
      simp del: upt_Suc)
  have "increasing_within (base_start r) b1 (bases (all_entries las1))"
    "increasing_within (target_start r) t1 (targets (all_entries las1))"
    using l by (simp_all add: valid_within_def)
  note sides = increasing_within_append [OF this(1) mid(1)] increasing_within_append [OF this(2) mid(2)]
  have "increasing_within (base_start r) (base_end r) (bases (all_entries (las1 @ la # las2)))"
    using sides(1) bd by (simp add: b del: upt_Suc)
  moreover have "increasing_within (target_start r) (target_end r) (targets (all_entries (las1 @ la # las2)))"
    using sides(2) bd by (simp add: t del: upt_Suc)
  ultimately show ?thesis
    using l u la bd by (auto simp: valid_within_def range_within_def)
qed

lemma align_over_valid:
  assumes "0 < gap_open_penalty cfg" and "0 < min_score cfg"
  shows "\<exists>las. align_over cfg f base target r acc = Some (acc @ las) \<and>
    valid_within cfg (score_similarity f base target) r las"
  using assms
proof (induction cfg f base target r acc rule: align_over.induct)
  case (1 cfg f base target r acc)
  let ?sim = "score_similarity f base target"
  show ?case
  proof (cases "base_end r - base_start r < min_context cfg \<or> target_end r - target_start r < min_context cfg")
    case True
    then show ?thesis by (subst align_over.simps) simp
  next
    case ctx: False
    obtain o1 where o1: "align_local cfg f base target r = Some o1"
      using align_local_total [OF "1.prems"] by blast
    show ?thesis
    proof (cases o1)
      case None
      with ctx o1 show ?thesis by (subst align_over.simps) simp
    next
      case (Some la)
      with o1 align_local_best [OF "1.prems"] have
        best: "best_path cfg ?sim r (la_entries la)" and rng: "la_range la = r" by blast+
      obtain b1 t1 s1 b2 t2 s2 where
        hd: "hd (la_entries la) = MERGE b1 t1 s1" and last: "last (la_entries la) = MERGE b2 t2 s2"
        and ne: "la_entries la \<noteq> []"
        by (rule best_path_span [OF best], rule that)
      note IH = "1.IH" [OF ctx o1 Some ne refl hd last]
      from IH(1) [OF "1.prems"] obtain las1 where
        l: "align_over cfg f base target (r\<lparr>base_end := b1, target_end := t1\<rparr>) acc = Some (acc @ las1)"
        and v1: "valid_within cfg ?sim (r\<lparr>base_end := b1, target_end := t1\<rparr>) las1" by blast
      from IH(2) [OF l "1.prems"] obtain las2 where
        u: "align_over cfg f base target (r\<lparr>base_start := b2 + 1, target_start := t2 + 1\<rparr>)
              ((acc @ las1) @ [la]) = Some (((acc @ las1) @ [la]) @ las2)"
        and v2: "valid_within cfg ?sim (r\<lparr>base_start := b2 + 1, target_start := t2 + 1\<rparr>) las2" by blast
      have "align_over cfg f base target r acc = Some (acc @ (las1 @ la # las2))"
        using ctx o1 Some ne hd last l u by (subst align_over.simps) simp
      with valid_within_split [OF best rng hd last v1 v2] show ?thesis by blast
    qed
  qed
qed

lemma length_bases: "length (bases es) = length (filter is_MERGE es) + length (filter is_keep es)"
proof (induction es)
  case (Cons e es)
  then show ?case by (cases e) simp_all
qed simp

lemma length_targets: "length (targets es) = length (filter is_MERGE es) + length (filter is_insert es)"
proof (induction es)
  case (Cons e es)
  then show ?case by (cases e) simp_all
qed simp

abbreviation full_range :: "'b list \<Rightarrow> 't list \<Rightarrow> align_range" where
  "full_range base target \<equiv>
     \<lparr>base_start = 0, base_end = length base, target_start = 0, target_end = length target\<rparr>"

lemma coverage_le_1: "(a :: nat) \<le> n \<Longrightarrow> (if n > 0 then of_nat a / of_nat n else 0 :: rat) \<le> 1"
  by (simp add: divide_le_eq)

subsection \<open>Properties\<close>

text \<open>C25: with a positive gap penalty and a positive threshold, aligning two timelines never reads
  outside its matrices nor casts a gap to a merge entry; the local alignments it returns, read in
  order, use every base tick and every target tick at most once and in increasing order, and each
  is a highest-scoring contiguous path of the range it was searched in, begins and ends with a
  merge, is at least \<^verbatim>\<open>minLength\<close> long and scores at least \<^verbatim>\<open>minScore\<close>.\<close>

theorem align_valid:
  assumes "0 < gap_open_penalty cfg" and "0 < min_score cfg"
  shows "\<exists>res. align cfg f base target = Some res \<and>
    increasing_within 0 (length base) (bases (all_entries (ar_alignments res))) \<and>
    increasing_within 0 (length target) (targets (all_entries (ar_alignments res))) \<and>
    (\<forall>la \<in> set (ar_alignments res). range_within (la_range la) (full_range base target) \<and>
       best_path cfg (score_similarity f base target) (la_range la) (la_entries la))"
  using align_over_valid [OF assms, of f base target "full_range base target" "[]"]
  by (auto simp: align_def valid_within_def Let_def)

text \<open>C34: the search of one range is a Smith-Waterman search: what it returns is a path of maximal
  score inside the range, and when it returns nothing then either no path inside the range reaches
  the threshold, or the trace it found is shorter than \<^verbatim>\<open>minLength\<close>.\<close>

theorem align_local_optimal:
  assumes "0 < gap_open_penalty cfg" and "0 < min_score cfg"
  shows "case align_local cfg f base target r of
      None \<Rightarrow> False
    | Some (Some la) \<Rightarrow> best_path cfg (score_similarity f base target) r (la_entries la)
    | Some None \<Rightarrow>
        (\<forall>a b ps a' b' w. walks (score_similarity f base target) (gap_open_penalty cfg) a b ps a' b' w \<longrightarrow>
           base_start r \<le> a \<longrightarrow> target_start r \<le> b \<longrightarrow> a' \<le> base_end r \<longrightarrow> b' \<le> target_end r \<longrightarrow>
           w < min_score cfg) \<or>
        (\<exists>es. backtrack_best cfg r (fill_matrices cfg (score_similarity f base target) r) = Some (Some es) \<and>
           length es < min_length cfg)"
proof -
  let ?sim = "score_similarity f base target"
  let ?m = "fill_matrices cfg ?sim r"
  consider s i j where "best_cell ?m = (s, i, j)" "s < min_score cfg" "backtrack_best cfg r ?m = Some None"
    | es where "backtrack_best cfg r ?m = Some (Some es)" "min_length cfg \<le> length es \<longrightarrow> best_path cfg ?sim r es"
    using backtrack_best_correct [OF refl assms, of ?sim r] by blast
  then show ?thesis
  proof cases
    case (1 s i j)
    have "w < min_score cfg" if "walks ?sim (gap_open_penalty cfg) a b ps a' b' w"
      "base_start r \<le> a" "target_start r \<le> b" "a' \<le> base_end r" "b' \<le> target_end r" for a b ps a' b' w
      using walks_le_best [OF refl less_imp_le [OF assms(1)] 1(1) that] 1(2) by simp
    with 1(3) show ?thesis by (simp add: align_local_def Let_def)
  next
    case (2 es)
    then show ?thesis by (simp add: align_local_def Let_def)
  qed
qed

text \<open>The coverage figures are shares: at most the whole of each timeline is placed, the counts
  of kept, inserted and merged ticks being what the alignments use of the two timelines.\<close>

theorem align_coverage:
  assumes "0 < gap_open_penalty cfg" and "0 < min_score cfg" and "align cfg f base target = Some res"
  shows "0 \<le> ar_base_coverage res \<and> ar_base_coverage res \<le> 1 \<and>
    0 \<le> ar_target_coverage res \<and> ar_target_coverage res \<le> 1 \<and>
    ar_base_coverage res * of_nat (length base) = of_nat (length (bases (all_entries (ar_alignments res)))) \<and>
    ar_target_coverage res * of_nat (length target) = of_nat (length (targets (all_entries (ar_alignments res))))"
proof -
  let ?es = "all_entries (ar_alignments res)"
  from align_valid [OF assms(1,2), of f base target] assms(3)
  have le: "length (bases ?es) \<le> length base" "length (targets ?es) \<le> length target"
    by (auto dest!: increasing_within_length)
  have cov: "ar_base_coverage res = (if length base > 0 then of_nat (length (bases ?es)) / of_nat (length base) else 0)"
    "ar_target_coverage res = (if length target > 0 then of_nat (length (targets ?es)) / of_nat (length target) else 0)"
    using assms(3)
    by (auto simp: align_def Let_def count_action_def all_entries_def length_bases length_targets split: option.splits)
  show ?thesis
    using le coverage_le_1 [OF le(1)] coverage_le_1 [OF le(2)] unfolding cov
    by (cases "base = []"; cases "target = []") simp_all
qed

subsection \<open>Concrete runs\<close>

text \<open>Four recorded ticks against three, the target having missed the third.\<close>

definition sample_base :: "nat option list" where
  "sample_base = [Some 1, Some 2, Some 3, Some 4]"

definition sample_target :: "nat option list" where
  "sample_target = [Some 1, Some 2, Some 4]"

definition sample_similarity :: "nat \<Rightarrow> nat \<Rightarrow> rat option" where
  "sample_similarity b t = (if b = t then Some 4 else None)"

definition sample_config :: align_config where
  "sample_config = \<lparr>min_score = 5, min_length = 3, min_context = 3, gap_open_penalty = 3\<rparr>"

lemma sample_align:
  "map_option (\<lambda>res. map la_entries (ar_alignments res))
     (align sample_config sample_similarity sample_base sample_target) =
   Some [[MERGE 0 0 4, MERGE 1 1 4, KEEP 2, MERGE 3 2 4]]"
  by code_simp

lemma sample_config_ok: "0 < gap_open_penalty sample_config" "0 < min_score sample_config"
  by (simp_all add: sample_config_def)

lemma sample_local:
  "map_option (map_option la_entries)
     (align_local sample_config sample_similarity sample_base sample_target
        \<lparr>base_start = 0, base_end = 4, target_start = 0, target_end = 3\<rparr>) =
   Some (Some [MERGE 0 0 4, MERGE 1 1 4, KEEP 2, MERGE 3 2 4])"
  by code_simp

theorem align_valid_witness:
  "\<exists>res. align sample_config sample_similarity sample_base sample_target = Some res \<and>
     increasing_within 0 (length sample_base) (bases (all_entries (ar_alignments res)))"
  using align_valid [OF sample_config_ok, of sample_similarity sample_base sample_target]
  by blast

theorem align_local_optimal_witness:
  "best_path sample_config (score_similarity sample_similarity sample_base sample_target)
     \<lparr>base_start = 0, base_end = 4, target_start = 0, target_end = 3\<rparr>
     [MERGE 0 0 4, MERGE 1 1 4, KEEP 2, MERGE 3 2 4]"
  using align_local_optimal [OF sample_config_ok, of sample_similarity sample_base sample_target
      "\<lparr>base_start = 0, base_end = 4, target_start = 0, target_end = 3\<rparr>"] sample_local
  by (auto split: option.splits)

theorem align_coverage_witness:
  "\<exists>res. align sample_config sample_similarity sample_base sample_target = Some res \<and>
     ar_base_coverage res * 4 = of_nat (length (bases (all_entries (ar_alignments res))))"
proof -
  from sample_align obtain res where
    res: "align sample_config sample_similarity sample_base sample_target = Some res" by auto
  from align_coverage [OF sample_config_ok res] res show ?thesis
    by (auto simp: sample_base_def)
qed

end
