(* ===== verification/Tick_Mapping.thy ===== *)
theory Tick_Mapping
  imports Alignment
begin

text \<open>
  Tick index maps between a client's ticks and the merged timeline:
  \<^verbatim>\<open>challenge-server/merging/tick-mapping.ts\<close>. The arrays of \<^verbatim>\<open>TickMapping\<close> are lists with holes; the
  writes go through \<^const>\<open>arr_set\<close>, which extends an array written out of range as JavaScript does.
\<close>

subsection \<open>Tick mappings\<close>

record tick_mapping =
  forward :: "nat option list"
  reverse :: "nat option list"

record mappings =
  m_base :: tick_mapping
  m_target :: tick_mapping
  m_count :: nat

definition identity_mapping :: "nat \<Rightarrow> tick_mapping" where
  "identity_mapping n = \<lparr>forward = map Some [0..<n], reverse = map Some [0..<n]\<rparr>"

definition client_tick_count :: "tick_mapping \<Rightarrow> nat" where
  "client_tick_count m = length (forward m)"

definition to_merged :: "tick_mapping \<Rightarrow> nat \<Rightarrow> nat option" where
  "to_merged m i = arr_get (forward m) i"

definition to_client :: "tick_mapping \<Rightarrow> nat \<Rightarrow> nat option" where
  "to_client m p = arr_get (reverse m) p"

subsection \<open>Building the mappings of an alignment\<close>

record placing =
  pl_base :: "nat option list"
  pl_target :: "nat option list"
  pl_pos :: nat
  pl_base_pos :: nat

fun place_entry :: "align_entry \<Rightarrow> placing \<Rightarrow> placing" where
  "place_entry (MERGE b t s) st =
     st\<lparr>pl_base := arr_set (pl_base st) b (pl_pos st), pl_target := arr_set (pl_target st) t (pl_pos st),
        pl_pos := pl_pos st + 1\<rparr>"
| "place_entry (KEEP b) st = st\<lparr>pl_base := arr_set (pl_base st) b (pl_pos st), pl_pos := pl_pos st + 1\<rparr>"
| "place_entry (INSERT t) st = st\<lparr>pl_target := arr_set (pl_target st) t (pl_pos st), pl_pos := pl_pos st + 1\<rparr>"

text \<open>The loops \<^verbatim>\<open>while (basePos < n)\<close>.\<close>

function place_bases_until :: "nat \<Rightarrow> placing \<Rightarrow> placing" where
  "place_bases_until n st =
     (if pl_base_pos st < n
      then place_bases_until n
        (st\<lparr>pl_base := arr_set (pl_base st) (pl_base_pos st) (pl_pos st), pl_pos := pl_pos st + 1,
            pl_base_pos := pl_base_pos st + 1\<rparr>)
      else st)"
  by pat_completeness auto
termination
  by (relation "measure (\<lambda>(n, st). n - pl_base_pos st)") auto

declare place_bases_until.simps [simp del]

definition place_targets :: "nat list \<Rightarrow> placing \<Rightarrow> placing" where
  "place_targets ts st = fold (\<lambda>t. place_entry (INSERT t)) ts st"

definition place_alignment :: "alignment \<Rightarrow> placing \<Rightarrow> placing" where
  "place_alignment es st =
     (fold place_entry es (place_bases_until (base_index (hd es)) st))
       \<lparr>pl_base_pos := base_index (last es) + 1\<rparr>"

text \<open>Target ticks before the first merge, when that merge is at base tick 0.\<close>

definition prepend_targets :: "alignment list \<Rightarrow> placing \<Rightarrow> placing" where
  "prepend_targets als st =
     (case als of
        [] \<Rightarrow> st
      | es # _ \<Rightarrow>
          if base_index (hd es) = 0 \<and> target_index (hd es) > 0
          then place_targets [0..<target_index (hd es)] st else st)"

text \<open>Target ticks after the last merge, when that merge is at the base's final tick.\<close>

definition append_targets :: "nat \<Rightarrow> nat \<Rightarrow> alignment list \<Rightarrow> placing \<Rightarrow> placing" where
  "append_targets bn tn als st =
     (if als = [] then st
      else (let e = last (last als)
            in if Suc (base_index e) = bn \<and> Suc (target_index e) < tn
               then place_targets [target_index e + 1..<tn] st else st))"

definition invert_ticks :: "nat \<Rightarrow> nat \<Rightarrow> nat option list \<Rightarrow> nat option list" where
  "invert_ticks n merged fwd =
     fold (\<lambda>i rev. case arr_get fwd i of None \<Rightarrow> rev | Some p \<Rightarrow> arr_set rev p i) [0..<n]
       (replicate merged None)"

text \<open>
  \<^verbatim>\<open>fromAlignment\<close>; \<^const>\<open>None\<close> when a local alignment is empty or does not begin and end with a
  merge, where the code's casts would read \<open>undefined\<close> indices.
\<close>

definition from_alignment :: "nat \<Rightarrow> nat \<Rightarrow> alignment list \<Rightarrow> mappings option" where
  "from_alignment bn tn als =
     (if list_ex (\<lambda>es. es = [] \<or> \<not> is_MERGE (hd es) \<or> \<not> is_MERGE (last es)) als then None
      else
        let st0 = \<lparr>pl_base = replicate bn None, pl_target = replicate tn None, pl_pos = 0, pl_base_pos = 0\<rparr>;
            st = append_targets bn tn als
                   (place_bases_until bn (fold place_alignment als (prepend_targets als st0)))
        in Some \<lparr>m_base = \<lparr>forward = pl_base st, reverse = invert_ticks bn (pl_pos st) (pl_base st)\<rparr>,
                 m_target = \<lparr>forward = pl_target st, reverse = invert_ticks tn (pl_pos st) (pl_target st)\<rparr>,
                 m_count = pl_pos st\<rparr>)"

subsection \<open>The merge mapping\<close>

record merge_mapping =
  mm_base_client :: int
  mm_chain :: "(int \<times> mappings) list"
  mm_in_flight :: "(int \<times> mappings) option"

definition new_merge_mapping :: "int \<Rightarrow> merge_mapping" where
  "new_merge_mapping c = \<lparr>mm_base_client = c, mm_chain = [], mm_in_flight = None\<rparr>"

definition begin_step :: "int \<Rightarrow> mappings \<Rightarrow> merge_mapping \<Rightarrow> merge_mapping" where
  "begin_step c m mm = mm\<lparr>mm_in_flight := Some (c, m)\<rparr>"

definition commit_step :: "merge_mapping \<Rightarrow> merge_mapping" where
  "commit_step mm =
     (case mm_in_flight mm of
        None \<Rightarrow> mm
      | Some e \<Rightarrow> mm\<lparr>mm_chain := mm_chain mm @ [e], mm_in_flight := None\<rparr>)"

definition discard_step :: "merge_mapping \<Rightarrow> merge_mapping" where
  "discard_step mm = mm\<lparr>mm_in_flight := None\<rparr>"

definition target_client_id :: "merge_mapping \<Rightarrow> int option" where
  "target_client_id mm = map_option fst (mm_in_flight mm)"

definition base_mapping :: "merge_mapping \<Rightarrow> tick_mapping option" where
  "base_mapping mm = map_option (\<lambda>(c, m). m_base m) (mm_in_flight mm)"

definition target_mapping :: "merge_mapping \<Rightarrow> tick_mapping option" where
  "target_mapping mm = map_option (\<lambda>(c, m). m_target m) (mm_in_flight mm)"

definition merged_tick_count :: "merge_mapping \<Rightarrow> nat option" where
  "merged_tick_count mm = map_option (\<lambda>(c, m). m_count m) (mm_in_flight mm)"

text \<open>The loop down the chain, the list given last step first.\<close>

fun resolve_down :: "int \<Rightarrow> int \<Rightarrow> (int \<times> mappings) list \<Rightarrow> nat \<Rightarrow> nat option" where
  "resolve_down base_client c [] p = (if c = base_client then Some p else None)"
| "resolve_down base_client c ((d, m) # es) p =
     (if d = c then to_client (m_target m) p
      else case to_client (m_base m) p of
             None \<Rightarrow> None
           | Some q \<Rightarrow> resolve_down base_client c es q)"

definition resolve_client_tick :: "merge_mapping \<Rightarrow> nat \<Rightarrow> int \<Rightarrow> nat option" where
  "resolve_client_tick mm p c =
     (case mm_in_flight mm of
        None \<Rightarrow> resolve_down (mm_base_client mm) c (rev (mm_chain mm)) p
      | Some (d, m) \<Rightarrow>
          if d = c then to_client (m_target m) p
          else (case to_client (m_base m) p of
                  None \<Rightarrow> None
                | Some q \<Rightarrow> resolve_down (mm_base_client mm) c (rev (mm_chain mm)) q))"

subsection \<open>The order in which ticks are placed\<close>

text \<open>
  The loops place one tick at a time. Their effect is that of placing a single list of entries,
  the plan: the target ticks before the first merge, the base ticks around and the entries inside
  the alignments, the base ticks after them, and the target ticks after the last merge.
\<close>

definition keeps :: "nat \<Rightarrow> nat \<Rightarrow> alignment" where
  "keeps a b = map KEEP [a..<b]"

definition inserts :: "nat list \<Rightarrow> alignment" where
  "inserts ts = map INSERT ts"

lemma bases_keeps [simp]: "bases (keeps a b) = [a..<b]"
  by (simp add: bases_def keeps_def List.map_filter_def comp_def)

lemma targets_keeps [simp]: "targets (keeps a b) = []"
  by (simp add: targets_def keeps_def List.map_filter_def comp_def)

lemma bases_inserts [simp]: "bases (inserts ts) = []"
  by (simp add: bases_def inserts_def List.map_filter_def comp_def)

lemma targets_inserts [simp]: "targets (inserts ts) = ts"
  by (simp add: targets_def inserts_def List.map_filter_def comp_def)

fun middle :: "nat \<Rightarrow> alignment list \<Rightarrow> alignment" where
  "middle x [] = []"
| "middle x (es # als) =
     keeps x (base_index (hd es)) @ es @ middle (base_index (last es) + 1) als"

fun middle_end :: "nat \<Rightarrow> alignment list \<Rightarrow> nat" where
  "middle_end x [] = x"
| "middle_end x (es # als) = middle_end (base_index (last es) + 1) als"

definition prefix_plan :: "alignment list \<Rightarrow> alignment" where
  "prefix_plan als =
     (case als of
        [] \<Rightarrow> []
      | es # _ \<Rightarrow> if base_index (hd es) = 0 then inserts [0..<target_index (hd es)] else [])"

definition suffix_plan :: "nat \<Rightarrow> nat \<Rightarrow> alignment list \<Rightarrow> alignment" where
  "suffix_plan bn tn als =
     (if als \<noteq> [] \<and> Suc (base_index (last (last als))) = bn
      then inserts [target_index (last (last als)) + 1..<tn] else [])"

definition plan :: "nat \<Rightarrow> nat \<Rightarrow> alignment list \<Rightarrow> alignment" where
  "plan bn tn als =
     prefix_plan als @ middle 0 als @ keeps (middle_end 0 als) bn @ suffix_plan bn tn als"

lemma place_entry_bpos: "place_entry e (st\<lparr>pl_base_pos := x\<rparr>) = (place_entry e st)\<lparr>pl_base_pos := x\<rparr>"
  by (cases e) simp_all

lemma fold_place_bpos:
  "fold place_entry es (st\<lparr>pl_base_pos := x\<rparr>) = (fold place_entry es st)\<lparr>pl_base_pos := x\<rparr>"
  by (induction es arbitrary: st) (simp_all add: place_entry_bpos)

lemma place_entry_keeps_bpos [simp]: "pl_base_pos (place_entry e st) = pl_base_pos st"
  by (cases e) simp_all

lemma fold_place_keeps_bpos [simp]: "pl_base_pos (fold place_entry es st) = pl_base_pos st"
  by (induction es arbitrary: st) simp_all

lemma place_bases_until_plan:
  "place_bases_until n (st\<lparr>pl_base_pos := x\<rparr>) =
     (fold place_entry (keeps x n) st)\<lparr>pl_base_pos := max n x\<rparr>"
proof (induction "n - x" arbitrary: x st)
  case 0
  then show ?case by (subst place_bases_until.simps) (simp add: keeps_def max_def)
next
  case (Suc k)
  then have lt: "x < n" and k: "k = n - Suc x" by simp_all
  have "place_bases_until n (st\<lparr>pl_base_pos := x\<rparr>) =
      place_bases_until n ((place_entry (KEEP x) st)\<lparr>pl_base_pos := Suc x\<rparr>)"
    using lt by (subst place_bases_until.simps) simp
  also have "\<dots> = (fold place_entry (keeps (Suc x) n) (place_entry (KEEP x) st))\<lparr>pl_base_pos := max n (Suc x)\<rparr>"
    by (rule Suc.hyps(1) [OF k])
  also have "\<dots> = (fold place_entry (keeps x n) st)\<lparr>pl_base_pos := max n x\<rparr>"
    using lt by (simp add: keeps_def upt_conv_Cons max_def)
  finally show ?case .
qed

lemma place_alignments_plan:
  "fold place_alignment als (st\<lparr>pl_base_pos := x\<rparr>) =
     (fold place_entry (middle x als) st)\<lparr>pl_base_pos := middle_end x als\<rparr>"
proof (induction als arbitrary: x st)
  case (Cons es als)
  have "place_alignment es (st\<lparr>pl_base_pos := x\<rparr>) =
     (fold place_entry (keeps x (base_index (hd es)) @ es) st)\<lparr>pl_base_pos := base_index (last es) + 1\<rparr>"
    by (simp add: place_alignment_def place_bases_until_plan fold_place_bpos)
  with Cons show ?case by simp
qed simp

lemma place_targets_plan: "place_targets ts st = fold place_entry (inserts ts) st"
  by (simp add: place_targets_def inserts_def fold_map comp_def)

lemma prepend_targets_plan: "prepend_targets als st = fold place_entry (prefix_plan als) st"
  by (auto simp: prepend_targets_def prefix_plan_def place_targets_plan inserts_def split: list.splits)

lemma append_targets_plan: "append_targets bn tn als st = fold place_entry (suffix_plan bn tn als) st"
  by (auto simp: append_targets_def suffix_plan_def place_targets_plan inserts_def Let_def)

lemma from_alignment_plan:
  assumes "st0 = \<lparr>pl_base = b, pl_target = t, pl_pos = p, pl_base_pos = 0\<rparr>"
  shows "append_targets bn tn als
       (place_bases_until bn (fold place_alignment als (prepend_targets als st0))) =
     (fold place_entry (plan bn tn als) st0)\<lparr>pl_base_pos := max bn (middle_end 0 als)\<rparr>"
proof -
  have "prepend_targets als st0 = (fold place_entry (prefix_plan als) st0)\<lparr>pl_base_pos := 0\<rparr>"
    using assms by (simp add: prepend_targets_plan)
  then show ?thesis
    by (simp add: place_alignments_plan place_bases_until_plan append_targets_plan fold_place_bpos plan_def)
qed

text \<open>What placing a list of entries writes into one of the two arrays, selected by \<open>f\<close>.\<close>

fun index_into :: "(align_entry \<Rightarrow> nat option) \<Rightarrow> alignment \<Rightarrow> nat \<Rightarrow> nat option list \<Rightarrow> nat option list" where
  "index_into f [] p xs = xs"
| "index_into f (e # es) p xs =
     index_into f es (Suc p) (case f e of None \<Rightarrow> xs | Some i \<Rightarrow> arr_set xs i p)"

lemma fold_place_entry:
  "pl_pos (fold place_entry es st) = pl_pos st + length es"
  "pl_base (fold place_entry es st) = index_into base_of es (pl_pos st) (pl_base st)"
  "pl_target (fold place_entry es st) = index_into target_of es (pl_pos st) (pl_target st)"
proof (induction es arbitrary: st)
  case (Cons e es)
  { case 1 then show ?case using Cons by (cases e) simp_all }
  { case 2 then show ?case using Cons by (cases e) simp_all }
  { case 3 then show ?case using Cons by (cases e) simp_all }
qed simp_all

lemma index_into_get:
  "distinct (List.map_filter f es) \<Longrightarrow>
     arr_get (index_into f es p xs) i = Some q \<longleftrightarrow>
       (\<exists>k < length es. f (es ! k) = Some i \<and> q = p + k) \<or>
       (i \<notin> set (List.map_filter f es) \<and> arr_get xs i = Some q)"
proof (induction es arbitrary: p xs)
  case (Cons e es)
  have ex: "(\<exists>k < length (e # es). f ((e # es) ! k) = Some i \<and> q = p + k) \<longleftrightarrow>
      (f e = Some i \<and> q = p) \<or> (\<exists>k < length es. f (es ! k) = Some i \<and> q = Suc p + k)"
    by (auto simp: less_Suc_eq_0_disj)
  have mem: "i \<in> set (List.map_filter f es) \<longleftrightarrow> (\<exists>k < length es. f (es ! k) = Some i)" for i
    by (simp add: set_map_filter_conv) (metis in_set_conv_nth)
  from Cons.prems have "distinct (List.map_filter f es)"
    by (auto simp: List.map_filter_def split: option.splits if_splits)
  from Cons.IH [OF this, of "Suc p"] ex mem [of i] Cons.prems show ?case
    by (cases "f e") (auto simp: arr_get_set List.map_filter_def)
qed (simp add: List.map_filter_def)

lemma index_into_length:
  "\<forall>i \<in> set (List.map_filter f es). i < length xs \<Longrightarrow> length (index_into f es p xs) = length xs"
  by (induction es arbitrary: p xs) (auto simp: List.map_filter_def split: option.splits)

text \<open>The inversion loop.\<close>

lemma invert_ticks_upto:
  assumes "\<And>i j p. arr_get fwd i = Some p \<Longrightarrow> arr_get fwd j = Some p \<Longrightarrow> i = j"
  shows "arr_get (invert_ticks n merged fwd) p = Some i \<longleftrightarrow> i < n \<and> arr_get fwd i = Some p"
  unfolding invert_ticks_def
proof (induction n arbitrary: i)
  case (Suc n)
  then show ?case
    using assms [of n p] by (auto simp: arr_get_set less_Suc_eq split: option.splits)
qed simp

lemma invert_ticks_length:
  assumes "\<And>i p. arr_get fwd i = Some p \<Longrightarrow> p < merged"
  shows "length (invert_ticks n merged fwd) = merged"
  unfolding invert_ticks_def
proof (induction n)
  case (Suc n)
  with assms [of n] show ?case by (auto split: option.splits)
qed simp

subsection \<open>Well-formed mappings\<close>

text \<open>The two arrays of a mapping invert each other. This is the mapping's contract.\<close>

definition mapping_ok :: "tick_mapping \<Rightarrow> bool" where
  "mapping_ok m \<longleftrightarrow>
     list_all (\<lambda>i. case to_merged m i of None \<Rightarrow> True | Some p \<Rightarrow> to_client m p = Some i)
       [0..<length (forward m)] \<and>
     list_all (\<lambda>p. case to_client m p of None \<Rightarrow> True | Some i \<Rightarrow> to_merged m i = Some p)
       [0..<length (reverse m)]"

definition mappings_ok :: "mappings \<Rightarrow> bool" where
  "mappings_ok m \<longleftrightarrow> mapping_ok (m_base m) \<and> mapping_ok (m_target m)"

lemma mapping_okI:
  assumes "\<And>i p. to_client m p = Some i \<longleftrightarrow> to_merged m i = Some p"
  shows "mapping_ok m"
  using assms by (auto simp: mapping_ok_def list_all_iff split: option.splits)

lemma mapping_ok_inverse:
  assumes "mapping_ok m"
  shows "to_client m p = Some i \<longleftrightarrow> to_merged m i = Some p"
proof
  assume *: "to_client m p = Some i"
  then have "p \<in> set [0..<length (reverse m)]"
    by (simp add: to_client_def arr_get_Some_less)
  from assms [unfolded mapping_ok_def list_all_iff, THEN conjunct2, THEN bspec, OF this] *
  show "to_merged m i = Some p" by simp
next
  assume *: "to_merged m i = Some p"
  then have "i \<in> set [0..<length (forward m)]"
    by (simp add: to_merged_def arr_get_Some_less)
  from assms [unfolded mapping_ok_def list_all_iff, THEN conjunct1, THEN bspec, OF this] *
  show "to_client m p = Some i" by simp
qed

locale tick_bijection =
  fixes ok :: "'m \<Rightarrow> bool"
    and merged :: "'m \<Rightarrow> nat \<Rightarrow> nat option"
    and client :: "'m \<Rightarrow> nat \<Rightarrow> nat option"
  assumes inverse: "ok m \<Longrightarrow> client m p = Some i \<longleftrightarrow> merged m i = Some p"
begin

lemma merged_inj: "ok m \<Longrightarrow> merged m i = Some p \<Longrightarrow> merged m j = Some p \<Longrightarrow> i = j"
  by (metis inverse option.inject)

lemma client_inj: "ok m \<Longrightarrow> client m p = Some i \<Longrightarrow> client m q = Some i \<Longrightarrow> p = q"
  by (metis inverse option.inject)

text \<open>A tick pushed through a sequence of merge steps, and pulled back through it.\<close>

fun push :: "'m list \<Rightarrow> nat \<Rightarrow> nat option" where
  "push [] i = Some i"
| "push (m # ms) i = (case merged m i of None \<Rightarrow> None | Some p \<Rightarrow> push ms p)"

fun pull :: "'m list \<Rightarrow> nat \<Rightarrow> nat option" where
  "pull [] p = Some p"
| "pull (m # ms) p = (case client m p of None \<Rightarrow> None | Some q \<Rightarrow> pull ms q)"

lemma push_snoc: "push (ms @ [m]) i = (case push ms i of None \<Rightarrow> None | Some p \<Rightarrow> merged m p)"
  by (induction ms arbitrary: i) (auto split: option.splits)

lemma pull_push:
  "(\<forall>m \<in> set ms. ok m) \<Longrightarrow> pull (rev ms) p = Some i \<longleftrightarrow> push ms i = Some p"
proof (induction ms arbitrary: p rule: rev_induct)
  case (snoc m ms)
  then have "client m p = Some q \<longleftrightarrow> merged m q = Some p" for q by (simp add: inverse)
  with snoc show ?case by (auto simp: push_snoc split: option.splits dest: merged_inj)
qed auto

end

interpretation ticks: tick_bijection mapping_ok to_merged to_client
  by unfold_locales (rule mapping_ok_inverse)

lemma identity_mapping_ok: "mapping_ok (identity_mapping n)"
  by (rule mapping_okI) (auto simp: to_client_def to_merged_def identity_mapping_def arr_get_def split: if_splits)

subsection \<open>The mappings of an alignment\<close>

text \<open>What \<^verbatim>\<open>fromAlignment\<close> relies on: the shape of the aligner's results.\<close>

definition mappable_entries :: "alignment \<Rightarrow> bool" where
  "mappable_entries es \<longleftrightarrow>
     es \<noteq> [] \<and> is_MERGE (hd es) \<and> is_MERGE (last es) \<and>
     bases es = [base_index (hd es)..<Suc (base_index (last es))]"

definition mappable :: "nat \<Rightarrow> nat \<Rightarrow> alignment list \<Rightarrow> bool" where
  "mappable bn tn als \<longleftrightarrow>
     increasing_within 0 bn (bases (concat als)) \<and> increasing_within 0 tn (targets (concat als)) \<and>
     list_all mappable_entries als"

lemma mappable_entriesE:
  assumes "mappable_entries es"
  obtains b1 t1 s1 b2 t2 s2 ys zs where "es = MERGE b1 t1 s1 # ys" "es = zs @ [MERGE b2 t2 s2]"
    "hd es = MERGE b1 t1 s1" "last es = MERGE b2 t2 s2" "bases es = [b1..<Suc b2]" "b1 \<le> b2"
proof -
  from assms obtain b1 t1 s1 b2 t2 s2 where
    hl: "hd es = MERGE b1 t1 s1" "last es = MERGE b2 t2 s2" and ne: "es \<noteq> []"
    and b: "bases es = [b1..<Suc b2]"
    by (auto simp: mappable_entries_def is_MERGE_def simp del: upt_Suc)
  from ne hl(1) obtain ys where ys: "es = MERGE b1 t1 s1 # ys" by (cases es) auto
  from ne hl(2) obtain zs where zs: "es = zs @ [MERGE b2 t2 s2]" by (metis append_butlast_last_id)
  from b ys have "b1 \<le> b2" by (cases "b1 < Suc b2") auto
  with that [OF ys zs hl b] show thesis by simp
qed

lemma increasing_within_upt_append:
  assumes "increasing_within lo hi ([a..<Suc b] @ xs)" and "a \<le> b"
  shows "lo \<le> a" and "b < hi" and "increasing_within (Suc b) hi xs"
proof -
  from assms(1) have sorted: "sorted_wrt (<) xs" "\<forall>x \<in> set [a..<Suc b]. \<forall>y \<in> set xs. x < y"
    and bd: "\<forall>x \<in> set ([a..<Suc b] @ xs). lo \<le> x \<and> x < hi"
    unfolding increasing_within_def sorted_wrt_append by blast+
  have mem: "a \<in> set [a..<Suc b]" "b \<in> set [a..<Suc b]" using assms(2) by auto
  with bd show "lo \<le> a" "b < hi" by (simp_all only: set_append Un_iff) blast+
  from sorted(2) mem(2) have "\<forall>y \<in> set xs. Suc b \<le> y" by (simp add: Suc_le_eq del: upt_Suc)
  with sorted(1) bd show "increasing_within (Suc b) hi xs"
    by (simp add: increasing_within_def del: upt_Suc)
qed

lemma upt_split: "a \<le> b \<Longrightarrow> b \<le> c \<Longrightarrow> [a..<c] = [a..<b] @ [b..<c]"
  by (metis le_add_diff_inverse upt_add_eq_append)

lemma bases_middle:
  "list_all mappable_entries als \<Longrightarrow> increasing_within x bn (bases (concat als)) \<Longrightarrow> x \<le> bn \<Longrightarrow>
     bases (middle x als) @ [middle_end x als..<bn] = [x..<bn]"
proof (induction als arbitrary: x)
  case (Cons es als)
  from Cons.prems(1) have "mappable_entries es" by simp
  then show ?case
  proof (rule mappable_entriesE)
    fix b1 t1 s1 b2 t2 s2 ys zs
    assume hl: "hd es = MERGE b1 t1 s1" "last es = MERGE b2 t2 s2"
      and b: "bases es = [b1..<Suc b2]" and le: "b1 \<le> b2"
    from Cons.prems(2) have "increasing_within x bn ([b1..<Suc b2] @ bases (concat als))"
      by (simp add: b)
    note inc = increasing_within_upt_append [OF this le]
    from Cons.IH [of "Suc b2"] Cons.prems inc
    have "bases (middle (Suc b2) als) @ [middle_end (Suc b2) als..<bn] = [Suc b2..<bn]" by simp
    moreover have "[x..<bn] = [x..<b1] @ [b1..<Suc b2] @ [Suc b2..<bn]"
      using inc le upt_split [of x b1 bn] upt_split [of b1 "Suc b2" bn] by (simp del: upt_Suc)
    ultimately show ?thesis
      by (simp add: hl b del: upt_Suc)
  qed
qed simp

lemma targets_middle [simp]: "targets (middle x als) = targets (concat als)"
  by (induction als arbitrary: x) simp_all

lemma bases_plan:
  assumes "mappable bn tn als"
  shows "bases (plan bn tn als) = [0..<bn]"
  using assms bases_middle [of als 0 bn]
  by (auto simp: plan_def mappable_def prefix_plan_def suffix_plan_def split: list.splits)

lemma increasing_within_hd_last:
  assumes "increasing_within lo hi xs" and "xs \<noteq> []"
  shows "increasing_within (hd xs) (Suc (last xs)) xs"
proof -
  from assms(1) have sorted: "sorted_wrt (<) xs" by (simp add: increasing_within_def)
  have "hd xs \<le> x" if "x \<in> set xs" for x
    using sorted that by (cases xs) auto
  moreover have "x \<le> last xs" if "x \<in> set xs" for x
    using sorted that by (cases xs rule: rev_cases) (auto simp: sorted_wrt_append)
  ultimately show ?thesis
    using sorted by (simp add: increasing_within_def less_Suc_eq_le)
qed

lemma targets_plan:
  assumes "mappable bn tn als"
  shows "increasing_within 0 tn (targets (plan bn tn als))"
proof (cases als)
  case Nil
  then show ?thesis by (simp add: plan_def prefix_plan_def suffix_plan_def)
next
  case (Cons es als')
  let ?xs = "targets (concat als)"
  from assms Cons have es: "mappable_entries es" and last: "mappable_entries (last als)"
    and inc: "increasing_within 0 tn ?xs"
    by (auto simp: mappable_def list_all_iff)
  obtain ys b1 t1 s1 where hd: "es = MERGE b1 t1 s1 # ys" using es by (rule mappable_entriesE)
  obtain zs b2 t2 s2 where lst: "last als = zs @ [MERGE b2 t2 s2]" using last by (rule mappable_entriesE)
  have hdx: "hd ?xs = t1" and ne: "?xs \<noteq> []" using Cons hd by simp_all
  have "concat als = concat (butlast als) @ last als"
    using Cons by (metis append_butlast_last_id concat.simps(1,2) concat_append append_Nil2 list.distinct(1))
  then have lastx: "last ?xs = t2" by (simp add: lst)
  from ne inc have t: "t1 < tn" "t2 < tn"
    using hdx lastx by (auto simp: increasing_within_def dest: hd_in_set last_in_set)
  have mid: "increasing_within t1 (Suc t2) ?xs"
    using increasing_within_hd_last [OF inc ne] by (simp add: hdx lastx)
  have t12: "t1 \<le> t2" using mid ne hdx by (auto simp: increasing_within_def dest!: hd_in_set)
  have pre: "targets (prefix_plan als) = [] \<or> targets (prefix_plan als) = [0..<t1]"
    by (simp add: prefix_plan_def Cons hd)
  have suf: "targets (suffix_plan bn tn als) = [] \<or> targets (suffix_plan bn tn als) = [Suc t2..<tn]"
    by (simp add: suffix_plan_def lst)
  have "increasing_within 0 t1 (targets (prefix_plan als))"
    using pre by (auto simp: increasing_within_def)
  moreover have "increasing_within t1 tn (?xs @ targets (suffix_plan bn tn als))"
    using suf mid t t12 by (auto intro!: increasing_within_append [OF mid, of "Suc t2"] increasing_within_upt)
  ultimately show ?thesis
    using t increasing_within_append [of 0 t1 "targets (prefix_plan als)" t1 tn
        "?xs @ targets (suffix_plan bn tn als)"] by (simp add: plan_def)
qed

lemma sorted_selection_order:
  assumes "sorted_wrt (<) (List.map_filter f es)" and "p < q" and "q < length es"
    and "f (es ! p) = Some i" and "f (es ! q) = Some j"
  shows "i < (j :: nat)"
proof -
  from assms(2,3) have "es = take q es @ es ! q # drop (Suc q) es"
    by (simp add: id_take_nth_drop)
  moreover have "es ! p \<in> set (take q es)"
    using assms(2,3) by (metis length_take min.absorb4 nth_mem nth_take)
  then have "i \<in> set (List.map_filter f (take q es))"
    using assms(4) by (auto simp: set_map_filter_conv)
  moreover have "List.map_filter f (take q es @ es ! q # drop (Suc q) es) =
      List.map_filter f (take q es) @ j # List.map_filter f (drop (Suc q) es)"
    using assms(5) by (simp add: List.map_filter_def)
  ultimately show ?thesis
    using assms(1) by (metis list.set_intros(1) sorted_wrt_append)
qed

text \<open>
  The characterisation every property of \<^verbatim>\<open>fromAlignment\<close> rests on: a client's tick is mapped to the
  position of the plan's entry that uses it.
\<close>

lemma from_alignment_spec:
  assumes "mappable bn tn als"
  obtains m where "from_alignment bn tn als = Some m" "m_count m = length (plan bn tn als)"
    "length (forward (m_base m)) = bn" "length (forward (m_target m)) = tn"
    "length (reverse (m_base m)) = m_count m" "length (reverse (m_target m)) = m_count m"
    "\<And>i p. to_merged (m_base m) i = Some p \<longleftrightarrow> p < m_count m \<and> base_of (plan bn tn als ! p) = Some i"
    "\<And>i p. to_merged (m_target m) i = Some p \<longleftrightarrow> p < m_count m \<and> target_of (plan bn tn als ! p) = Some i"
    "mappings_ok m"
proof -
  let ?es = "plan bn tn als"
  let ?st0 = "\<lparr>pl_base = replicate bn None, pl_target = replicate tn None, pl_pos = 0, pl_base_pos = 0\<rparr>"
  define fb where "fb = index_into base_of ?es 0 (replicate bn None)"
  define ft where "ft = index_into target_of ?es 0 (replicate tn None)"
  let ?n = "length ?es"
  let ?m = "\<lparr>m_base = \<lparr>forward = fb, reverse = invert_ticks bn ?n fb\<rparr>,
             m_target = \<lparr>forward = ft, reverse = invert_ticks tn ?n ft\<rparr>, m_count = ?n\<rparr>"
  have sb: "List.map_filter base_of ?es = [0..<bn]"
    using bases_plan [OF assms] by (simp add: bases_def)
  have st: "increasing_within 0 tn (List.map_filter target_of ?es)"
    using targets_plan [OF assms] by (simp add: targets_def)
  then have dt: "distinct (List.map_filter target_of ?es)"
    by (simp add: increasing_within_def strict_sorted_iff)
  have fb: "arr_get fb i = Some p \<longleftrightarrow> p < ?n \<and> base_of (?es ! p) = Some i" for i p
    by (auto simp: fb_def index_into_get sb)
  have ft: "arr_get ft i = Some p \<longleftrightarrow> p < ?n \<and> target_of (?es ! p) = Some i" for i p
    by (auto simp: ft_def index_into_get [OF dt])
  have lb: "length fb = bn" and lt: "length ft = tn"
    using st by (auto simp: fb_def ft_def sb increasing_within_def intro!: index_into_length [THEN trans])
  have inv_b: "arr_get (invert_ticks bn ?n fb) p = Some i \<longleftrightarrow> arr_get fb i = Some p" for i p
    using invert_ticks_upto [of fb bn ?n p i] arr_get_Some_less [of fb i p] by (auto simp: fb lb)
  have inv_t: "arr_get (invert_ticks tn ?n ft) p = Some i \<longleftrightarrow> arr_get ft i = Some p" for i p
    using invert_ticks_upto [of ft tn ?n p i] arr_get_Some_less [of ft i p] by (auto simp: ft lt)
  have "from_alignment bn tn als = Some ?m"
    using assms by (auto simp: from_alignment_def mappable_def mappable_entries_def list_ex_iff list_all_iff
      from_alignment_plan [OF refl] Let_def fold_place_entry fb_def ft_def)
  moreover have "mappings_ok ?m"
    unfolding mappings_ok_def
    by (intro conjI mapping_okI) (simp_all add: to_client_def to_merged_def inv_b inv_t)
  moreover have "length (invert_ticks bn ?n fb) = ?n" "length (invert_ticks tn ?n ft) = ?n"
    by (rule invert_ticks_length; simp add: fb ft)+
  ultimately show thesis
    using that [of ?m] by (simp add: fb ft lb lt to_merged_def)
qed

lemma best_path_mappable:
  assumes "best_path cfg sim r es"
  shows "mappable_entries es"
  by (rule best_path_span [OF assms]) (simp add: mappable_entries_def)

lemma align_mappable:
  assumes "0 < gap_open_penalty cfg" and "0 < min_score cfg"
  obtains res where "align cfg f base target = Some res"
    "mappable (length base) (length target) (map la_entries (ar_alignments res))"
proof -
  from align_over_valid [OF assms, of f base target "full_range base target" "[]"] obtain las where
    over: "align_over cfg f base target (full_range base target) [] = Some las"
    and valid: "valid_within cfg (score_similarity f base target) (full_range base target) las" by auto
  from over obtain res where res: "align cfg f base target = Some res" "ar_alignments res = las"
    by (simp add: align_def Let_def)
  moreover have "mappable (length base) (length target) (map la_entries las)"
    using valid by (auto simp: mappable_def valid_within_def all_entries_def list_all_iff
      intro: best_path_mappable)
  ultimately show thesis using that by simp
qed

subsection \<open>Resolving through the chain\<close>

text \<open>
  The other direction of \<^verbatim>\<open>resolveClientTick\<close>: the client's tick enters the merged space at the step
  that merged the client (the base client at the beginning), and every later step's base mapping
  carries it on.
\<close>

definition steps_of :: "merge_mapping \<Rightarrow> (int \<times> mappings) list" where
  "steps_of mm = mm_chain mm @ (case mm_in_flight mm of None \<Rightarrow> [] | Some e \<Rightarrow> [e])"

fun place_tick :: "int \<Rightarrow> int \<Rightarrow> (int \<times> mappings) list \<Rightarrow> nat \<Rightarrow> nat option" where
  "place_tick base_client c [] i = (if c = base_client then Some i else None)"
| "place_tick base_client c ((d, m) # es) i =
     (if d = c then to_merged (m_target m) i
      else case place_tick base_client c es i of
             None \<Rightarrow> None
           | Some p \<Rightarrow> to_merged (m_base m) p)"

definition client_to_merged :: "merge_mapping \<Rightarrow> int \<Rightarrow> nat \<Rightarrow> nat option" where
  "client_to_merged mm c i = place_tick (mm_base_client mm) c (rev (steps_of mm)) i"

definition merge_mapping_ok :: "merge_mapping \<Rightarrow> bool" where
  "merge_mapping_ok mm \<longleftrightarrow> list_all (\<lambda>(c, m). mappings_ok m) (steps_of mm)"

lemma resolve_client_tick_steps:
  "resolve_client_tick mm p c = resolve_down (mm_base_client mm) c (rev (steps_of mm)) p"
  by (auto simp: resolve_client_tick_def steps_of_def split: option.splits)

lemma resolve_down_place_tick:
  "list_all (\<lambda>(c, m). mappings_ok m) es \<Longrightarrow>
     resolve_down b c es p = Some i \<longleftrightarrow> place_tick b c es i = Some p"
proof (induction es arbitrary: p)
  case (Cons e es)
  obtain d m where e: "e = (d, m)" by (cases e)
  from Cons.prems e have "mapping_ok (m_base m)" "mapping_ok (m_target m)"
    by (simp_all add: mappings_ok_def)
  note inv = ticks.inverse [OF this(1)] ticks.inverse [OF this(2)]
  show ?case
  proof (cases "d = c")
    case True
    then show ?thesis by (simp add: e inv)
  next
    case False
    have "resolve_down b c (e # es) p = Some i \<longleftrightarrow>
        (\<exists>q. to_merged (m_base m) q = Some p \<and> resolve_down b c es q = Some i)"
      using False unfolding inv(1) [symmetric] by (simp add: e split: option.splits)
    moreover have "place_tick b c (e # es) i = Some p \<longleftrightarrow>
        (\<exists>q. place_tick b c es i = Some q \<and> to_merged (m_base m) q = Some p)"
      using False by (auto simp: e split: option.splits)
    ultimately show ?thesis
      using Cons by auto
  qed
qed auto

lemma forward_order:
  assumes "increasing_within lo hi (List.map_filter f es)" and "i < j"
    and "p < length es" "f (es ! p) = Some i" and "q < length es" "f (es ! q) = Some j"
  shows "p < q"
proof (rule ccontr)
  assume "\<not> p < q"
  then consider "p = q" | "q < p" by linarith
  then show False
  proof cases
    case 2
    with sorted_selection_order [of f es q p j i] assms show False
      by (auto simp: increasing_within_def)
  qed (use assms in simp)
qed

lemma entry_used: "base_of e \<noteq> None \<or> target_of e \<noteq> None"
  by (cases e) simp_all

subsection \<open>Properties\<close>

text \<open>C26: the mappings built from an alignment are inverse to each other on both sides: they always
  exist, have the clients' tick counts, and \<^verbatim>\<open>toClient\<close> undoes \<^verbatim>\<open>toMerged\<close> wherever either is defined.\<close>

theorem from_alignment_inverse:
  assumes "mappable bn tn als"
  shows "\<exists>m. from_alignment bn tn als = Some m \<and>
    client_tick_count (m_base m) = bn \<and> client_tick_count (m_target m) = tn \<and>
    (\<forall>i p. to_client (m_base m) p = Some i \<longleftrightarrow> to_merged (m_base m) i = Some p) \<and>
    (\<forall>i p. to_client (m_target m) p = Some i \<longleftrightarrow> to_merged (m_target m) i = Some p)"
proof (rule from_alignment_spec [OF assms])
  fix m
  assume "from_alignment bn tn als = Some m" and ok: "mappings_ok m"
    and "length (forward (m_base m)) = bn" "length (forward (m_target m)) = tn"
  then show ?thesis
    by (auto simp: client_tick_count_def mappings_ok_def ticks.inverse)
qed

text \<open>Every base tick is kept, in order; every merged tick comes from a base tick or a target tick;
  the target ticks that are placed keep their order.\<close>

theorem from_alignment_keeps_order:
  assumes "mappable bn tn als" and "from_alignment bn tn als = Some m"
  shows "(\<forall>i < bn. \<exists>p < m_count m. to_merged (m_base m) i = Some p) \<and>
    (\<forall>i j p q. i < j \<longrightarrow> to_merged (m_base m) i = Some p \<longrightarrow> to_merged (m_base m) j = Some q \<longrightarrow> p < q) \<and>
    (\<forall>i j p q. i < j \<longrightarrow> to_merged (m_target m) i = Some p \<longrightarrow> to_merged (m_target m) j = Some q \<longrightarrow> p < q) \<and>
    (\<forall>p < m_count m. to_client (m_base m) p \<noteq> None \<or> to_client (m_target m) p \<noteq> None)"
proof (rule from_alignment_spec [OF assms(1)])
  fix m'
  let ?es = "plan bn tn als"
  assume m': "from_alignment bn tn als = Some m'"
    and count: "m_count m' = length ?es"
    and fb: "\<And>i p. to_merged (m_base m') i = Some p \<longleftrightarrow> p < m_count m' \<and> base_of (?es ! p) = Some i"
    and ft: "\<And>i p. to_merged (m_target m') i = Some p \<longleftrightarrow> p < m_count m' \<and> target_of (?es ! p) = Some i"
    and ok: "mappings_ok m'"
  have eq: "m' = m" using m' assms(2) by simp
  have sb: "increasing_within 0 bn (List.map_filter base_of ?es)"
    using bases_plan [OF assms(1)] by (simp add: bases_def increasing_within_upt)
  have st: "increasing_within 0 tn (List.map_filter target_of ?es)"
    using targets_plan [OF assms(1)] by (simp add: targets_def)
  have "\<exists>p < m_count m. to_merged (m_base m) i = Some p" if "i < bn" for i
  proof -
    have "i \<in> set (List.map_filter base_of ?es)"
      using that bases_plan [OF assms(1)] by (simp add: bases_def)
    then obtain e where "e \<in> set ?es" "base_of e = Some i" by (auto simp: set_map_filter_conv)
    then show ?thesis using fb count eq by (metis in_set_conv_nth)
  qed
  moreover have "to_client (m_base m) p \<noteq> None \<or> to_client (m_target m) p \<noteq> None" if p: "p < m_count m" for p
  proof -
    from ok eq have okm: "mapping_ok (m_base m)" "mapping_ok (m_target m)" by (simp_all add: mappings_ok_def)
    from entry_used [of "?es ! p"] consider i where "base_of (?es ! p) = Some i" | i where "target_of (?es ! p) = Some i"
      by blast
    then show ?thesis
    proof cases
      case (1 i)
      with fb [of i p] p eq ticks.inverse [OF okm(1), of p i] show ?thesis by simp
    next
      case (2 i)
      with ft [of i p] p eq ticks.inverse [OF okm(2), of p i] show ?thesis by simp
    qed
  qed
  moreover have "p < q" if "i < j" "to_merged (m_base m) i = Some p" "to_merged (m_base m) j = Some q" for i j p q
    by (rule forward_order [OF sb that(1)]) (use that fb count eq in simp_all)
  moreover have "p < q" if "i < j" "to_merged (m_target m) i = Some p" "to_merged (m_target m) j = Some q" for i j p q
    by (rule forward_order [OF st that(1)]) (use that ft count eq in simp_all)
  ultimately show ?thesis by blast
qed

text \<open>A base tick and a target tick that the alignment merges get the same merged tick.\<close>

theorem from_alignment_merges:
  assumes "mappable bn tn als" and "from_alignment bn tn als = Some m" and "MERGE b t s \<in> set (concat als)"
  shows "to_merged (m_base m) b = to_merged (m_target m) t \<and> to_merged (m_base m) b \<noteq> None"
proof (rule from_alignment_spec [OF assms(1)])
  fix m'
  let ?es = "plan bn tn als"
  assume m': "from_alignment bn tn als = Some m'"
    and count: "m_count m' = length ?es"
    and fb: "\<And>i p. to_merged (m_base m') i = Some p \<longleftrightarrow> p < m_count m' \<and> base_of (?es ! p) = Some i"
    and ft: "\<And>i p. to_merged (m_target m') i = Some p \<longleftrightarrow> p < m_count m' \<and> target_of (?es ! p) = Some i"
  have "set (concat als) \<subseteq> set (middle x als)" for x
    by (induction als arbitrary: x) auto
  with assms(3) have "MERGE b t s \<in> set ?es" by (auto simp: plan_def)
  then obtain p where "p < length ?es" "?es ! p = MERGE b t s" by (auto simp: in_set_conv_nth)
  with fb [of b p] ft [of t p] count m' assms(2) show ?thesis by simp
qed

text \<open>C29: the aligner's results are what \<^verbatim>\<open>fromAlignment\<close> needs: with a positive gap penalty and threshold
  aligning two timelines and building their mappings always succeeds.\<close>

theorem align_then_map:
  assumes "0 < gap_open_penalty cfg" and "0 < min_score cfg"
  shows "\<exists>res m. align cfg f base target = Some res \<and>
    from_alignment (length base) (length target) (map la_entries (ar_alignments res)) = Some m \<and>
    length base \<le> m_count m"
proof (rule align_mappable [OF assms, of f base target])
  fix res
  assume res: "align cfg f base target = Some res"
    and map: "mappable (length base) (length target) (map la_entries (ar_alignments res))"
  show ?thesis
  proof (rule from_alignment_spec [OF map])
    fix m
    let ?es = "plan (length base) (length target) (map la_entries (ar_alignments res))"
    assume m: "from_alignment (length base) (length target) (map la_entries (ar_alignments res)) = Some m"
      and count: "m_count m = length ?es"
    have "length (bases ?es) \<le> length ?es"
      by (simp add: bases_def List.map_filter_def)
    with res m count bases_plan [OF map] show ?thesis by auto
  qed
qed

text \<open>Resolving a merged tick for a client finds exactly the client's tick that the steps placed
  there, in flight or committed; a client that took no part in the merge resolves to nothing.\<close>

theorem resolve_client_tick_inverse:
  assumes "merge_mapping_ok mm"
  shows "(resolve_client_tick mm p c = Some i \<longleftrightarrow> client_to_merged mm c i = Some p) \<and>
    (c \<noteq> mm_base_client mm \<longrightarrow> c \<notin> fst ` set (steps_of mm) \<longrightarrow> resolve_client_tick mm p c = None)"
proof -
  have "resolve_down b c es q = None" if "c \<noteq> b" "c \<notin> fst ` set es" for b es q
    using that by (induction es arbitrary: q) (auto split: option.splits)
  moreover have "list_all (\<lambda>(c, m). mappings_ok m) (rev (steps_of mm))"
    using assms by (simp add: merge_mapping_ok_def list_all_rev)
  ultimately show ?thesis
    by (simp add: resolve_client_tick_steps client_to_merged_def resolve_down_place_tick)
qed

subsection \<open>Concrete runs\<close>

text \<open>Four base ticks, four target ticks; the target's first tick precedes the base.\<close>

definition sample_alignments :: "alignment list" where
  "sample_alignments = [[MERGE 0 1 4, KEEP 1, MERGE 2 2 4]]"

definition sample_mappings :: mappings where
  "sample_mappings =
     \<lparr>m_base = \<lparr>forward = [Some 1, Some 2, Some 3, Some 4], reverse = [None, Some 0, Some 1, Some 2, Some 3]\<rparr>,
      m_target = \<lparr>forward = [Some 0, Some 1, Some 3, None], reverse = [Some 0, Some 1, None, Some 2, None]\<rparr>,
      m_count = 5\<rparr>"

lemma sample_mappable: "mappable 4 4 sample_alignments"
  by code_simp

lemma sample_from_alignment: "from_alignment 4 4 sample_alignments = Some sample_mappings"
  by code_simp

theorem from_alignment_inverse_witness:
  "\<exists>m. from_alignment 4 4 sample_alignments = Some m \<and> client_tick_count (m_base m) = 4 \<and>
     client_tick_count (m_target m) = 4"
  using from_alignment_inverse [OF sample_mappable] by blast

theorem from_alignment_keeps_order_witness:
  "\<exists>p < m_count sample_mappings. to_merged (m_base sample_mappings) 3 = Some p"
  by (rule from_alignment_keeps_order [OF sample_mappable sample_from_alignment, THEN conjunct1, rule_format]) simp

theorem from_alignment_merges_witness:
  "to_merged (m_base sample_mappings) 0 = to_merged (m_target sample_mappings) 1"
  using from_alignment_merges [OF sample_mappable sample_from_alignment, of 0 1 4]
  by (simp add: sample_alignments_def)

theorem align_then_map_witness:
  "\<exists>res m. align sample_config sample_similarity sample_base sample_target = Some res \<and>
     from_alignment (length sample_base) (length sample_target) (map la_entries (ar_alignments res)) = Some m"
  using align_then_map [OF sample_config_ok, of sample_similarity sample_base sample_target] by blast

definition sample_merge_mapping :: merge_mapping where
  "sample_merge_mapping = begin_step 9 sample_mappings (commit_step (begin_step 8 sample_mappings (new_merge_mapping 7)))"

lemma sample_merge_mapping_ok: "merge_mapping_ok sample_merge_mapping"
  by code_simp

theorem resolve_client_tick_inverse_witness:
  "resolve_client_tick sample_merge_mapping 2 8 = Some 1 \<and> resolve_client_tick sample_merge_mapping 2 5 = None"
proof -
  have "client_to_merged sample_merge_mapping 8 1 = Some 2" by code_simp
  moreover have "5 \<notin> fst ` set (steps_of sample_merge_mapping) \<and> 5 \<noteq> mm_base_client sample_merge_mapping"
    by (simp add: sample_merge_mapping_def steps_of_def begin_step_def commit_step_def new_merge_mapping_def)
  ultimately show ?thesis
    using resolve_client_tick_inverse [OF sample_merge_mapping_ok, of 2 8 1]
      resolve_client_tick_inverse [OF sample_merge_mapping_ok, of 2 5 1] by simp
qed

end
