(* ===== verification/Items.thy ===== *)
theory Items
  imports Complex_Main Blert_Prelude
begin

text \<open>
  The packed values of the event stream: item deltas (\<^verbatim>\<open>common/item-delta.ts\<close>), prayer sets
  (\<^verbatim>\<open>common/prayer-set.ts\<close>) and skill levels (\<^verbatim>\<open>common/challenge.ts\<close>). The first two compute on
  \<^verbatim>\<open>BigInt\<close>, here \<^typ>\<open>int\<close>; the third uses JavaScript's 32-bit operators, whose operands and
  results are read modulo \<open>2 ^ 32\<close> as signed values.
\<close>

unbundle bit_operations_syntax

subsection \<open>Item deltas\<close>

record item_delta =
  dl_item_id :: int
  dl_quantity :: int
  dl_slot :: int
  dl_added :: bool

definition quantity_mask :: int where
  "quantity_mask = 0x7fffffff"

definition added_mask :: int where
  "added_mask = push_bit 31 1"

definition item_id_mask :: int where
  "item_id_mask = 0xffff"

definition slot_mask :: int where
  "slot_mask = 0x1f"

definition delta_from_raw :: "int \<Rightarrow> item_delta" where
  "delta_from_raw raw =
     \<lparr>dl_item_id = drop_bit 32 raw AND item_id_mask, dl_quantity = raw AND quantity_mask,
      dl_slot = drop_bit 48 raw AND slot_mask, dl_added = (raw AND added_mask \<noteq> 0)\<rparr>"

definition delta_to_raw :: "item_delta \<Rightarrow> int" where
  "delta_to_raw d =
     (((dl_quantity d AND quantity_mask) OR (if dl_added d then added_mask else 0)) OR
       push_bit 32 (dl_item_id d AND item_id_mask)) OR
       push_bit 48 (dl_slot d AND slot_mask)"

text \<open>The values each field of the layout can hold.\<close>

definition delta_fits :: "item_delta \<Rightarrow> bool" where
  "delta_fits d \<longleftrightarrow>
     0 \<le> dl_item_id d \<and> dl_item_id d < 2 ^ 16 \<and> 0 \<le> dl_quantity d \<and> dl_quantity d < 2 ^ 31 \<and>
     0 \<le> dl_slot d \<and> dl_slot d < 2 ^ 5"

lemma mask_literals:
  "x AND quantity_mask = take_bit 31 x" "x AND item_id_mask = take_bit 16 x" "x AND slot_mask = take_bit 5 x"
  by (simp_all add: take_bit_eq_mask mask_eq_exp_minus_1 quantity_mask_def item_id_mask_def slot_mask_def)

lemma bit_added_mask: "bit added_mask n \<longleftrightarrow> n = 31"
  unfolding added_mask_def by (simp only: bit_push_bit_iff bit_1_iff possible_bit_int) auto

lemma added_mask_bit: "raw AND added_mask \<noteq> 0 \<longleftrightarrow> bit raw 31"
proof -
  have "raw AND added_mask = (if bit raw 31 then added_mask else 0)"
    by (rule bit_eqI) (auto simp: bit_added_mask bit_and_iff)
  then show ?thesis by (simp add: added_mask_def)
qed

text \<open>A delta read field by field from bits, and the bits of a written delta.\<close>

lemma delta_from_raw_bits:
  "delta_from_raw raw =
     \<lparr>dl_item_id = take_bit 16 (drop_bit 32 raw), dl_quantity = take_bit 31 raw,
      dl_slot = take_bit 5 (drop_bit 48 raw), dl_added = bit raw 31\<rparr>"
  by (simp add: delta_from_raw_def mask_literals added_mask_bit)

lemma bit_delta_to_raw:
  "bit (delta_to_raw d) n \<longleftrightarrow>
     (n < 31 \<and> bit (dl_quantity d) n) \<or> (n = 31 \<and> dl_added d) \<or>
     (32 \<le> n \<and> n < 48 \<and> bit (dl_item_id d) (n - 32)) \<or>
     (48 \<le> n \<and> n < 53 \<and> bit (dl_slot d) (n - 48))"
  by (auto simp: delta_to_raw_def mask_literals bit_simps bit_added_mask)

lemma delta_to_from: "delta_fits d \<Longrightarrow> delta_from_raw (delta_to_raw d) = d"
proof -
  assume fits: "delta_fits d"
  have "take_bit 31 (delta_to_raw d) = take_bit 31 (dl_quantity d)"
    "take_bit 16 (drop_bit 32 (delta_to_raw d)) = take_bit 16 (dl_item_id d)"
    "take_bit 5 (drop_bit 48 (delta_to_raw d)) = take_bit 5 (dl_slot d)"
    by (rule bit_eqI; auto simp: bit_simps bit_delta_to_raw)+
  moreover have "bit (delta_to_raw d) 31 \<longleftrightarrow> dl_added d"
    by (simp add: bit_delta_to_raw)
  ultimately show ?thesis
    using fits by (simp add: delta_from_raw_bits delta_fits_def take_bit_int_eq_self)
qed

lemma delta_from_to: "delta_to_raw (delta_from_raw raw) = take_bit 53 raw"
proof (rule bit_eqI)
  fix n
  show "bit (delta_to_raw (delta_from_raw raw)) n = bit (take_bit 53 raw) n"
    by (cases "n < 31"; cases "n = 31"; cases "n < 48")
      (auto simp: bit_delta_to_raw delta_from_raw_bits bit_simps)
qed

subsection \<open>Containers\<close>

record item_stack =
  it_id :: int
  it_quantity :: int

type_synonym container = "int \<Rightarrow> item_stack option"

definition previous_items :: "(int \<Rightarrow> item_stack option option) option \<Rightarrow> container" where
  "previous_items prev =
     (case prev of
        None \<Rightarrow> Map.empty
      | Some m \<Rightarrow> (\<lambda>slot. case m slot of Some (Some it) \<Rightarrow> Some it | _ \<Rightarrow> None))"

definition apply_delta :: "item_delta \<Rightarrow> container \<Rightarrow> container" where
  "apply_delta d c =
     (let slot = dl_slot d; current = c slot in
      if dl_added d then
        (if map_option it_id current \<noteq> Some (dl_item_id d)
         then c(slot \<mapsto> \<lparr>it_id = dl_item_id d, it_quantity = dl_quantity d\<rparr>)
         else c(slot \<mapsto> \<lparr>it_id = dl_item_id d, it_quantity = it_quantity (the current) + dl_quantity d\<rparr>))
      else
        (case current of
           None \<Rightarrow> c(slot := None)
         | Some it \<Rightarrow>
             (if it_id it = dl_item_id d \<and> dl_quantity d < it_quantity it
              then c(slot \<mapsto> \<lparr>it_id = dl_item_id d, it_quantity = it_quantity it - dl_quantity d\<rparr>)
              else c(slot := None))))"

definition apply_item_deltas ::
    "int list \<Rightarrow> (int \<Rightarrow> item_stack option option) option \<Rightarrow> container" where
  "apply_item_deltas raws prev = fold (\<lambda>raw. apply_delta (delta_from_raw raw)) raws (previous_items prev)"

definition items_positive :: "container \<Rightarrow> bool" where
  "items_positive c \<longleftrightarrow> (\<forall>slot it. c slot = Some it \<longrightarrow> 0 < it_quantity it)"

lemma apply_delta_other: "slot \<noteq> dl_slot d \<Longrightarrow> apply_delta d c slot = c slot"
  by (auto simp: apply_delta_def Let_def split: option.splits)

lemma apply_delta_positive:
  "items_positive c \<Longrightarrow> (dl_added d \<longrightarrow> 0 < dl_quantity d) \<Longrightarrow> items_positive (apply_delta d c)"
  unfolding items_positive_def apply_delta_def Let_def
  by (auto split: option.splits if_splits) (metis add_pos_pos option.sel)+

lemma apply_deltas_positive:
  "items_positive c \<Longrightarrow> (\<forall>d \<in> set ds. dl_added d \<longrightarrow> 0 < dl_quantity d) \<Longrightarrow>
     items_positive (fold apply_delta ds c)"
  by (induction ds arbitrary: c) (auto intro: apply_delta_positive)


subsection \<open>Prayer sets\<close>

text \<open>The prayers of the normal book by their index; only the overheads are named by the code below.\<close>

abbreviation (input) NORMAL_BOOK :: int where "NORMAL_BOOK \<equiv> 0"

definition prayer_book_mask :: int where
  "prayer_book_mask = 7"

definition max_allowed_prayer :: nat where
  "max_allowed_prayer = 49"

definition prayers_from :: "int \<Rightarrow> nat list \<Rightarrow> int" where
  "prayers_from book ps =
     push_bit 50 (book AND prayer_book_mask) OR fold (\<lambda>p acc. acc OR push_bit p 1) ps 0"

definition prayers_empty :: "int \<Rightarrow> int" where
  "prayers_empty book = push_bit 50 (book AND prayer_book_mask)"

definition normal_overheads_mask :: int where
  "normal_overheads_mask = prayers_from NORMAL_BOOK [17, 16, 18, 21, 22, 23]"

definition get_book :: "int \<Rightarrow> int" where
  "get_book v = drop_bit 50 v AND prayer_book_mask"

definition has_prayer :: "int \<Rightarrow> nat \<Rightarrow> bool" where
  "has_prayer v p \<longleftrightarrow> v AND push_bit p 1 \<noteq> 0"

definition prayers_is_empty :: "int \<Rightarrow> bool" where
  "prayers_is_empty v \<longleftrightarrow> v AND NOT (push_bit 50 prayer_book_mask) = 0"

definition add_prayer :: "nat \<Rightarrow> int \<Rightarrow> bool \<times> int" where
  "add_prayer p v = (if p > max_allowed_prayer then (False, v) else (True, v OR push_bit p 1))"

definition active_prayers :: "int \<Rightarrow> nat list" where
  "active_prayers v = filter (\<lambda>i. v AND push_bit i 1 \<noteq> 0) [0..<50]"

definition overheads :: "int \<Rightarrow> int" where
  "overheads v = (if get_book v = NORMAL_BOOK then v AND normal_overheads_mask else prayers_empty (get_book v))"

lemma bit_singleton: "bit (2 ^ p :: int) n \<longleftrightarrow> n = p"
  by (simp add: bit_exp_iff possible_bit_int)

lemma and_singleton: "(v :: int) AND 2 ^ p \<noteq> 0 \<longleftrightarrow> bit v p"
proof -
  have "v AND 2 ^ p = (if bit v p then 2 ^ p else 0)"
    by (rule bit_eqI) (auto simp: bit_and_iff bit_singleton)
  then show ?thesis by simp
qed

lemma has_prayer_bit: "has_prayer v p \<longleftrightarrow> bit v p"
  by (simp add: has_prayer_def and_singleton)

lemma active_prayers_bits: "active_prayers v = filter (bit v) [0..<50]"
  by (simp add: active_prayers_def and_singleton)

lemma bit_prayer_fold: "bit (fold (\<lambda>p acc. acc OR 2 ^ p) ps (acc :: int)) n \<longleftrightarrow> bit acc n \<or> n \<in> set ps"
  by (induction ps arbitrary: acc) (auto simp: bit_or_iff bit_singleton)

lemma book_take_bit: "b AND prayer_book_mask = take_bit 3 b"
  by (simp add: take_bit_eq_mask mask_eq_exp_minus_1 prayer_book_mask_def)

lemma bit_prayers_from:
  "bit (prayers_from b ps) n \<longleftrightarrow> (50 \<le> n \<and> n < 53 \<and> bit b (n - 50)) \<or> n \<in> set ps"
  by (auto simp: prayers_from_def book_take_bit bit_or_iff bit_push_bit_iff bit_take_bit_iff bit_prayer_fold)

lemma get_book_from: "0 \<le> b \<Longrightarrow> b < 8 \<Longrightarrow> \<forall>p \<in> set ps. p < 50 \<Longrightarrow> get_book (prayers_from b ps) = b"
proof -
  assume b: "0 \<le> b" "b < 8" and ps: "\<forall>p \<in> set ps. p < 50"
  have "get_book (prayers_from b ps) = take_bit 3 b"
    using ps by (intro bit_eqI)
      (auto simp: get_book_def book_take_bit bit_take_bit_iff bit_drop_bit_eq bit_prayers_from)
  then show ?thesis using b by (simp add: take_bit_int_eq_self)
qed

subsection \<open>Skill levels\<close>

record skill_level =
  sk_current :: int
  sk_base :: int

definition new_skill_level :: "int \<Rightarrow> int \<Rightarrow> skill_level" where
  "new_skill_level current base = \<lparr>sk_current = max current 0, sk_base = max base 0\<rparr>"

text \<open>\<^verbatim>\<open>raw >> 16\<close> shifts the signed 32-bit reading of \<^verbatim>\<open>raw\<close>.\<close>

definition skill_from_raw :: "int \<Rightarrow> skill_level" where
  "skill_from_raw raw = new_skill_level (drop_bit 16 (signed_take_bit 31 raw)) (signed_take_bit 31 raw AND 0xffff)"

definition skill_to_raw :: "skill_level \<Rightarrow> int" where
  "skill_to_raw s = signed_take_bit 31 (push_bit 16 (sk_current s)) OR (sk_base s AND 0xffff)"

definition with_current :: "int \<Rightarrow> skill_level \<Rightarrow> skill_level" where
  "with_current c s = new_skill_level c (sk_base s)"

definition skill_percentage :: "skill_level \<Rightarrow> rat" where
  "skill_percentage s = (if sk_base s = 0 then 0 else of_int (sk_current s) / of_int (sk_base s) * 100)"

lemma low_half: "(x :: int) AND 0xffff = take_bit 16 x"
  by (simp add: take_bit_eq_mask mask_eq_exp_minus_1)

lemma skill_to_raw_value:
  assumes "0 \<le> sk_current s" "sk_current s < 2 ^ 15" "0 \<le> sk_base s" "sk_base s < 2 ^ 16"
  shows "skill_to_raw s = sk_current s * 2 ^ 16 + sk_base s"
proof -
  have "signed_take_bit 31 (push_bit 16 (sk_current s)) = push_bit 16 (sk_current s)"
    using assms by (intro signed_take_bit_int_eq_self) (simp_all add: push_bit_eq_mult)
  moreover have "push_bit 16 (sk_current s) OR take_bit 16 (sk_base s) =
      push_bit 16 (sk_current s) + take_bit 16 (sk_base s)"
    by (rule disjunctive_add [symmetric]) (auto simp: bit_simps)
  ultimately show ?thesis
    using assms by (simp add: skill_to_raw_def low_half push_bit_eq_mult take_bit_int_eq_self)
qed

lemma delta_to_raw_range: "0 \<le> delta_to_raw d \<and> delta_to_raw d < 2 ^ 53"
proof -
  have "take_bit 53 (delta_to_raw d) = delta_to_raw d"
    by (rule bit_eqI) (auto simp: bit_take_bit_iff bit_delta_to_raw)
  then show ?thesis by (metis take_bit_nonnegative take_bit_int_less_exp)
qed

lemma previous_items_container [simp]: "previous_items (Some (\<lambda>slot. map_option Some (c slot))) = c"
  by (auto simp: previous_items_def split: option.splits)

lemma skill_from_value:
  assumes "0 \<le> c" "c < 2 ^ 15" "0 \<le> b" "b < 2 ^ 16"
  shows "skill_from_raw (c * 2 ^ 16 + b) = \<lparr>sk_current = c, sk_base = b\<rparr>"
proof -
  have "signed_take_bit 31 (c * 2 ^ 16 + b) = c * 2 ^ 16 + b"
    using assms by (intro signed_take_bit_int_eq_self) simp_all
  moreover have "drop_bit 16 (c * 2 ^ 16 + b) = c" and "take_bit 16 (c * 2 ^ 16 + b) = b"
    using assms by (simp_all add: drop_bit_eq_div take_bit_eq_mod)
  ultimately show ?thesis
    using assms by (simp add: skill_from_raw_def new_skill_level_def low_half)
qed

lemma active_prayers_from:
  assumes "\<forall>p \<in> set ps. p < 50"
  shows "active_prayers (prayers_from b ps) = filter (\<lambda>p. p \<in> set ps) [0..<50]"
  unfolding active_prayers_bits using assms
  by (intro filter_cong) (auto simp: bit_prayers_from)

subsection \<open>Properties\<close>

text \<open>The bit layout of an item delta is lossless: a delta whose fields fit is read back from its raw
  form, the raw form is a 53-bit number, which a JavaScript number holds exactly, and every 53-bit
  number is the raw form of the delta read from it.\<close>

theorem item_delta_roundtrip:
  "(delta_fits d \<longrightarrow> delta_from_raw (delta_to_raw d) = d) \<and> 0 \<le> delta_to_raw d \<and> delta_to_raw d < 2 ^ 53 \<and>
   (0 \<le> raw \<and> raw < 2 ^ 53 \<longrightarrow> delta_to_raw (delta_from_raw raw) = raw)"
  using delta_to_from [of d] delta_from_to [of raw] delta_to_raw_range [of d]
  by (auto simp: take_bit_int_eq_self)

theorem item_delta_roundtrip_witness:
  "delta_from_raw (delta_to_raw \<lparr>dl_item_id = 22325, dl_quantity = 1, dl_slot = 3, dl_added = True\<rparr>) =
     \<lparr>dl_item_id = 22325, dl_quantity = 1, dl_slot = 3, dl_added = True\<rparr>"
  using item_delta_roundtrip [of "\<lparr>dl_item_id = 22325, dl_quantity = 1, dl_slot = 3, dl_added = True\<rparr>" 0]
  by (simp add: delta_fits_def)

text \<open>Deltas apply one after the other: a list of deltas may be cut anywhere and the second part
  applied to the first part's container, and containers whose stacks are positive stay so when every
  added quantity is.\<close>

theorem apply_item_deltas_incremental:
  "apply_item_deltas (xs @ ys) prev =
     apply_item_deltas ys (Some (\<lambda>slot. map_option Some (apply_item_deltas xs prev slot))) \<and>
   (items_positive (previous_items prev) \<longrightarrow>
     (\<forall>raw \<in> set xs. dl_added (delta_from_raw raw) \<longrightarrow> 0 < dl_quantity (delta_from_raw raw)) \<longrightarrow>
     items_positive (apply_item_deltas xs prev))"
  using apply_deltas_positive [of "previous_items prev" "map delta_from_raw xs"]
  by (simp add: apply_item_deltas_def fold_map comp_def)

theorem apply_item_deltas_incremental_witness:
  "items_positive (apply_item_deltas [delta_to_raw \<lparr>dl_item_id = 4, dl_quantity = 2, dl_slot = 1, dl_added = True\<rparr>] None)"
proof -
  have "delta_from_raw (delta_to_raw \<lparr>dl_item_id = 4, dl_quantity = 2, dl_slot = 1, dl_added = True\<rparr>) =
      \<lparr>dl_item_id = 4, dl_quantity = 2, dl_slot = 1, dl_added = True\<rparr>"
    by (rule delta_to_from) (simp add: delta_fits_def)
  with apply_item_deltas_incremental [of "[delta_to_raw \<lparr>dl_item_id = 4, dl_quantity = 2, dl_slot = 1, dl_added = True\<rparr>]" "[]" None]
  show ?thesis by (simp add: previous_items_def items_positive_def)
qed

text \<open>Removing what was just added restores the container, for a slot that was empty or already
  held a positive stack of that item.\<close>

theorem apply_item_deltas_undo:
  assumes "delta_fits d" and "0 < dl_quantity d"
    and "case c (dl_slot d) of None \<Rightarrow> True | Some it \<Rightarrow> it_id it = dl_item_id d \<and> 0 < it_quantity it"
  shows "apply_item_deltas [delta_to_raw (d\<lparr>dl_added := True\<rparr>), delta_to_raw (d\<lparr>dl_added := False\<rparr>)]
    (Some (\<lambda>slot. map_option Some (c slot))) = c"
proof -
  have "delta_fits (d\<lparr>dl_added := b\<rparr>)" for b
    using assms(1) by (simp add: delta_fits_def)
  then have "delta_from_raw (delta_to_raw (d\<lparr>dl_added := b\<rparr>)) = d\<lparr>dl_added := b\<rparr>" for b
    by (rule delta_to_from)
  moreover have "apply_delta (d\<lparr>dl_added := False\<rparr>) (apply_delta (d\<lparr>dl_added := True\<rparr>) c) = c"
    using assms(2,3) by (auto simp: apply_delta_def Let_def fun_eq_iff split: option.splits)
  ultimately show ?thesis
    by (simp add: apply_item_deltas_def)
qed

theorem apply_item_deltas_undo_witness:
  "apply_item_deltas [delta_to_raw \<lparr>dl_item_id = 4, dl_quantity = 2, dl_slot = 1, dl_added = True\<rparr>,
       delta_to_raw \<lparr>dl_item_id = 4, dl_quantity = 2, dl_slot = 1, dl_added = False\<rparr>]
     (Some (\<lambda>slot. map_option Some ([1 \<mapsto> \<lparr>it_id = 4, it_quantity = 7\<rparr>] slot))) 1 =
   Some \<lparr>it_id = 4, it_quantity = 7\<rparr>"
  using apply_item_deltas_undo [of "\<lparr>dl_item_id = 4, dl_quantity = 2, dl_slot = 1, dl_added = True\<rparr>"
      "[1 \<mapsto> \<lparr>it_id = 4, it_quantity = 7\<rparr>]"]
  by (simp add: delta_fits_def)

text \<open>A prayer set built from prayers of index below 50 keeps its book, has exactly those prayers and
  lists them in order.\<close>

theorem prayer_set_members:
  assumes "0 \<le> book" and "book < 8" and "\<forall>p \<in> set ps. p < 50"
  shows "get_book (prayers_from book ps) = book \<and>
    (\<forall>p < 50. has_prayer (prayers_from book ps) p \<longleftrightarrow> p \<in> set ps) \<and>
    set (active_prayers (prayers_from book ps)) = set ps \<and> sorted (active_prayers (prayers_from book ps)) \<and>
    distinct (active_prayers (prayers_from book ps)) \<and>
    (prayers_is_empty (prayers_from book ps) \<longleftrightarrow> ps = [])"
proof -
  have e: "push_bit 50 prayer_book_mask = push_bit 50 (mask 3 :: int)"
    by (simp add: prayer_book_mask_def mask_eq_exp_minus_1)
  have "bit (prayers_from book ps AND NOT (push_bit 50 (mask 3))) n \<longleftrightarrow> n \<in> set ps" for n
    using assms(3) by (auto simp: bit_simps bit_prayers_from)
  then have "prayers_from book ps AND NOT (push_bit 50 (mask 3)) = 0 \<longleftrightarrow> set ps = {}"
    by (metis all_not_in_conv bit_0_eq bot_apply bot_bool_def bit_eq_iff)
  then show ?thesis
    using get_book_from [OF assms] active_prayers_from [OF assms(3)] assms(3)
    by (auto simp: has_prayer_bit bit_prayers_from prayers_is_empty_def e sorted_wrt_filter)
qed

theorem prayer_set_members_witness: "active_prayers (prayers_from 0 [26, 18, 26]) = [18, 26]"
proof -
  have "set (active_prayers (prayers_from 0 [26, 18, 26])) = {18, 26} \<and>
      sorted (active_prayers (prayers_from 0 [26, 18, 26])) \<and> distinct (active_prayers (prayers_from 0 [26, 18, 26]))"
    using prayer_set_members [of 0 "[26, 18, 26]"] by auto
  then show ?thesis
    by (intro sorted_distinct_set_unique) auto
qed

text \<open>A skill level with a 15-bit current and a 16-bit base level survives packing, and its raw form is
  the two halves of a 32-bit number.\<close>

theorem skill_level_roundtrip:
  assumes "0 \<le> sk_current s" and "sk_current s < 2 ^ 15" and "0 \<le> sk_base s" and "sk_base s < 2 ^ 16"
  shows "skill_from_raw (skill_to_raw s) = s \<and> skill_to_raw s = sk_current s * 2 ^ 16 + sk_base s"
  using skill_to_raw_value [OF assms] skill_from_value [OF assms] by simp

theorem skill_level_roundtrip_witness:
  "skill_from_raw (skill_to_raw \<lparr>sk_current = 118, sk_base = 99\<rparr>) = \<lparr>sk_current = 118, sk_base = 99\<rparr>"
  by (rule skill_level_roundtrip [THEN conjunct1]) simp_all

end
