(* ===== verification/World.thy ===== *)
theory World
  imports Complex_Main Blert_Prelude
begin

text \<open>
  Stages and geometry (\<^verbatim>\<open>common/challenge.ts\<close>, \<^verbatim>\<open>common/npcs/npc-id.ts\<close>,
  \<^verbatim>\<open>challenge-server/merging/world.ts\<close>): the stages with the guards of their challenges, coordinates
  and their keys, the areas of the rooms, the NPC IDs of Verzik's phases, and the natural stalls of the
  Nylocas waves. A stage of a numbered series carries its number; the ranges the guards compare are
  the series.
\<close>

subsection \<open>Stages\<close>

datatype stage =
    UNKNOWN_STAGE
  | TOB_MAIDEN | TOB_BLOAT | TOB_NYLOCAS | TOB_SOTETSEG | TOB_XARPUS | TOB_VERZIK
  | COX_TEKTON | COX_CRABS | COX_ICE_DEMON | COX_SHAMANS | COX_VANGUARDS | COX_THIEVING | COX_VESPULA
  | COX_TIGHTROPE | COX_GUARDIANS | COX_VASA | COX_MYSTICS | COX_MUTTADILE | COX_OLM
  | TOA_APMEKEN | TOA_BABA | TOA_SCABARAS | TOA_KEPHRI | TOA_HET | TOA_AKKHA | TOA_CRONDIS | TOA_ZEBAK
  | TOA_WARDENS
  | MOKHAIOTL_DELVE nat | COLOSSEUM_WAVE nat | INFERNO_WAVE nat

datatype challenge_mode = NO_MODE | TOB_ENTRY | TOB_REGULAR | TOB_HARD

definition is_cox_stage :: "stage \<Rightarrow> bool" where
  "is_cox_stage s \<longleftrightarrow> s \<in> {COX_TEKTON, COX_CRABS, COX_ICE_DEMON, COX_SHAMANS, COX_VANGUARDS, COX_THIEVING,
     COX_VESPULA, COX_TIGHTROPE, COX_GUARDIANS, COX_VASA, COX_MYSTICS, COX_MUTTADILE, COX_OLM}"

definition is_toa_stage :: "stage \<Rightarrow> bool" where
  "is_toa_stage s \<longleftrightarrow> s \<in> {TOA_APMEKEN, TOA_BABA, TOA_SCABARAS, TOA_KEPHRI, TOA_HET, TOA_AKKHA, TOA_CRONDIS,
     TOA_ZEBAK, TOA_WARDENS}"

fun is_colosseum_stage :: "stage \<Rightarrow> bool" where
  "is_colosseum_stage (COLOSSEUM_WAVE _) = True"
| "is_colosseum_stage _ = False"

fun is_inferno_stage :: "stage \<Rightarrow> bool" where
  "is_inferno_stage (INFERNO_WAVE _) = True"
| "is_inferno_stage _ = False"

fun is_mokhaiotl_stage :: "stage \<Rightarrow> bool" where
  "is_mokhaiotl_stage (MOKHAIOTL_DELVE _) = True"
| "is_mokhaiotl_stage _ = False"

definition stage_has_respawns :: "stage \<Rightarrow> bool" where
  "stage_has_respawns s = is_cox_stage s"

subsection \<open>Coordinates\<close>

type_synonym coords = "int \<times> int"

definition show_int :: "int \<Rightarrow> string" where
  "show_int n = (if n < 0 then CHR ''-'' # show_nat (nat (- n)) else show_nat (nat n))"

definition coord_key :: "coords \<Rightarrow> string" where
  "coord_key c = show_int (fst c) @ CHR '','' # show_int (snd c)"

definition read_int :: "string \<Rightarrow> int" where
  "read_int s =
     (case s of c # cs \<Rightarrow> if c = CHR ''-'' then - int (read_nat cs) else int (read_nat s) | [] \<Rightarrow> 0)"

text \<open>\<^verbatim>\<open>key.split(',').map(Number)\<close> on a key of the form \<open>x,y\<close>.\<close>

definition from_coord_key :: "string \<Rightarrow> coords" where
  "from_coord_key s =
     (read_int (takeWhile (\<lambda>c. c \<noteq> CHR '','') s), read_int (tl (dropWhile (\<lambda>c. c \<noteq> CHR '','') s)))"

definition chebyshev :: "coords \<Rightarrow> coords \<Rightarrow> int" where
  "chebyshev a b = max \<bar>fst a - fst b\<bar> \<bar>snd a - snd b\<bar>"

lemma show_nat_no_sep: "CHR '','' \<notin> set (show_nat n)" "CHR ''-'' \<notin> set (show_nat n)"
  by (auto dest!: show_nat_digits simp: is_digit_def)

lemma show_int_no_comma: "CHR '','' \<notin> set (show_int n)"
  by (simp add: show_int_def show_nat_no_sep)

lemma read_show_int [simp]: "read_int (show_int n) = n"
proof (cases "n < 0")
  case False
  obtain c cs where cs: "show_nat (nat n) = c # cs" by (metis show_nat_nonempty neq_Nil_conv)
  then have "c \<noteq> CHR ''-''" using show_nat_no_sep(2) [of "nat n"] by auto
  moreover have "read_nat (c # cs) = nat n" using cs read_show_nat [of "nat n"] by simp
  ultimately show ?thesis using False cs by (simp add: read_int_def show_int_def)
qed (simp add: read_int_def show_int_def)

lemma from_coord_key_key [simp]: "from_coord_key (coord_key c) = c"
proof -
  have "takeWhile (\<lambda>ch. ch \<noteq> CHR '','') (show_int x @ CHR '','' # ys) = show_int x" for x ys
    using show_int_no_comma [of x] by (subst takeWhile_append2) auto
  moreover have "dropWhile (\<lambda>ch. ch \<noteq> CHR '','') (show_int x @ CHR '','' # ys) = CHR '','' # ys" for x ys
    using show_int_no_comma [of x] by (subst dropWhile_append2) auto
  ultimately show ?thesis
    by (simp add: from_coord_key_def coord_key_def)
qed

lemma coord_key_inj: "coord_key a = coord_key b \<longleftrightarrow> a = b"
  by (metis from_coord_key_key)

subsection \<open>Areas\<close>

record area =
  ar_x :: int
  ar_y :: int
  ar_width :: int
  ar_height :: int

definition coords_equal :: "coords \<Rightarrow> coords \<Rightarrow> bool" where
  "coords_equal a b \<longleftrightarrow> fst a = fst b \<and> snd a = snd b"

definition in_area :: "coords \<Rightarrow> area \<Rightarrow> bool" where
  "in_area c a \<longleftrightarrow> fst c \<ge> ar_x a \<and> fst c < ar_x a + ar_width a \<and> snd c \<ge> ar_y a \<and> snd c < ar_y a + ar_height a"

definition mk_area :: "int \<Rightarrow> int \<Rightarrow> int \<Rightarrow> int \<Rightarrow> area" where
  "mk_area x y w h = \<lparr>ar_x = x, ar_y = y, ar_width = w, ar_height = h\<rparr>"

definition sotetseg_maze_start :: coords where
  "sotetseg_maze_start = (3274, 4307)"

definition sotetseg_room_area :: area where
  "sotetseg_room_area = mk_area 3271 4304 17 30"

definition sotetseg_underworld_area :: area where
  "sotetseg_underworld_area = mk_area 3354 4309 14 22"

definition verzik_p2_bounceable_area :: area where
  "verzik_p2_bounceable_area = mk_area 3166 4312 5 5"

definition verzik_p2_center :: coords where
  "verzik_p2_center = (3168, 4314)"

definition verzik_p3_webs_area :: area where
  "verzik_p3_webs_area = mk_area 3165 4309 7 7"

definition verzik_p3_webs_center :: coords where
  "verzik_p3_webs_center = (3168, 4312)"

definition colosseum_boss_start :: coords where
  "colosseum_boss_start = (1825, 3103)"

definition is_valid_p2_bounce_destination :: "coords \<Rightarrow> bool" where
  "is_valid_p2_bounce_destination c \<longleftrightarrow> (let d = chebyshev c verzik_p2_center in d = 5 \<or> d = 6)"

definition is_valid_p3_webs_push_destination :: "coords \<Rightarrow> bool" where
  "is_valid_p3_webs_push_destination c \<longleftrightarrow> chebyshev c verzik_p3_webs_center = 4"

fun death_areas :: "stage \<Rightarrow> area list option" where
  "death_areas TOB_MAIDEN = Some [mk_area 3166 4433 2 1, mk_area 3166 4460 2 1]"
| "death_areas TOB_BLOAT = Some [mk_area 3295 4436 2 1, mk_area 3295 4459 2 1]"
| "death_areas TOB_NYLOCAS = Some [mk_area 3290 4240 1 1, mk_area 3301 4240 1 1, mk_area 3287 4243 1 1,
     mk_area 3304 4243 1 1, mk_area 3287 4254 1 1, mk_area 3304 4254 1 1, mk_area 3290 4257 1 1,
     mk_area 3301 4257 1 1]"
| "death_areas TOB_SOTETSEG = Some [mk_area 3270 4313 1 2, mk_area 3289 4313 1 2]"
| "death_areas TOB_XARPUS = Some [mk_area 3156 4381 2 13]"
| "death_areas TOB_VERZIK = Some [mk_area 3157 4325 5 1, mk_area 3175 4325 5 1]"
| "death_areas _ = None"

definition is_in_death_area :: "stage \<Rightarrow> coords \<Rightarrow> bool" where
  "is_in_death_area s c \<longleftrightarrow> (case death_areas s of Some as \<Rightarrow> list_ex (in_area c) as | None \<Rightarrow> False)"

lemma chebyshev_sym: "chebyshev a b = chebyshev b a"
  by (simp add: chebyshev_def abs_minus_commute)

lemma chebyshev_nonneg [simp]: "0 \<le> chebyshev a b"
  by (simp add: chebyshev_def le_max_iff_disj)

lemma chebyshev_triangle: "chebyshev a c \<le> chebyshev a b + chebyshev b c"
  unfolding chebyshev_def by linarith

lemma chebyshev_zero_iff: "chebyshev a b = 0 \<longleftrightarrow> a = b"
  by (cases a; cases b) (auto simp: chebyshev_def max_def)

subsection \<open>Verzik\<close>

definition is_verzik_p1 :: "int \<Rightarrow> bool" where
  "is_verzik_p1 i \<longleftrightarrow> i \<in> set [10831, 10832, 8370, 8371, 10848, 10849]"

definition is_verzik_p2 :: "int \<Rightarrow> bool" where
  "is_verzik_p2 i \<longleftrightarrow> i \<in> set [10833, 8372, 10850]"

definition is_verzik_p3_transition :: "int \<Rightarrow> bool" where
  "is_verzik_p3_transition i \<longleftrightarrow> i \<in> set [10834, 8373, 10851]"

definition is_verzik_p3 :: "int \<Rightarrow> bool" where
  "is_verzik_p3 i \<longleftrightarrow> i \<in> set [10835, 10836, 8374, 8375, 10852, 10853]"

definition is_verzik :: "int \<Rightarrow> bool" where
  "is_verzik i \<longleftrightarrow> is_verzik_p1 i \<or> is_verzik_p2 i \<or> is_verzik_p3_transition i \<or> is_verzik_p3 i"

subsection \<open>Nylocas waves\<close>

text \<open>The natural stalls of the 31 waves (\<^verbatim>\<open>common/data/nylocas-waves.json\<close>).\<close>

definition nylocas_natural_stalls :: "int list" where
  "nylocas_natural_stalls = [4, 4, 4, 4, 16, 4, 12, 4, 12, 8, 8, 8, 8, 8, 8, 4, 12, 8, 12, 16, 8, 12, 8, 8, 8, 4,
     8, 4, 4, 4, 0]"

definition is_prince_wave :: "int \<Rightarrow> bool" where
  "is_prince_wave w \<longleftrightarrow> w = 10 \<or> w = 20 \<or> w = 30"

text \<open>A wave out of range reads past the table and throws.\<close>

definition natural_stall_for_wave :: "challenge_mode \<Rightarrow> int \<Rightarrow> int option" where
  "natural_stall_for_wave mode w =
     (if mode = TOB_HARD \<and> is_prince_wave w then Some 16
      else if 1 \<le> w \<and> w \<le> int (length nylocas_natural_stalls) then Some (nylocas_natural_stalls ! nat (w - 1))
      else None)"

function sum_natural_stalls :: "challenge_mode \<Rightarrow> int \<Rightarrow> int \<Rightarrow> int option" where
  "sum_natural_stalls mode w wave =
     (if w < wave
      then (case natural_stall_for_wave mode w of
          None \<Rightarrow> None
        | Some s \<Rightarrow> map_option ((+) s) (sum_natural_stalls mode (w + 1) wave))
      else Some 0)"
  by pat_completeness auto
termination by (relation "measure (\<lambda>(_, w, wave). nat (wave - w))") auto

declare sum_natural_stalls.simps [simp del]

lemma natural_stall_in_range: "1 \<le> w \<Longrightarrow> w \<le> 31 \<Longrightarrow> \<exists>s. natural_stall_for_wave mode w = Some s \<and> 0 \<le> s"
proof -
  assume w: "1 \<le> w" "w \<le> 31"
  have "list_all (\<lambda>s. 0 \<le> s) nylocas_natural_stalls" and len: "length nylocas_natural_stalls = 31"
    by (simp_all add: nylocas_natural_stalls_def)
  then have "0 \<le> nylocas_natural_stalls ! nat (w - 1)"
    using w by (simp add: list_all_length)
  with w len show ?thesis by (simp add: natural_stall_for_wave_def)
qed

lemma sum_natural_stalls_in_range:
  "1 \<le> w \<Longrightarrow> wave \<le> 32 \<Longrightarrow> \<exists>s. sum_natural_stalls mode w wave = Some s \<and> 0 \<le> s"
proof (induction mode w wave rule: sum_natural_stalls.induct)
  case (1 mode w wave)
  show ?case
  proof (cases "w < wave")
    case True
    obtain s where "natural_stall_for_wave mode w = Some s" "0 \<le> s"
      using natural_stall_in_range [of w mode] 1 True by auto
    with 1 True show ?thesis by (subst sum_natural_stalls.simps) force
  qed (simp add: sum_natural_stalls.simps)
qed

subsection \<open>Properties\<close>

text \<open>A coordinate key determines its coordinates, negative ones included, and is read back to them.\<close>

theorem coord_key_roundtrip:
  "from_coord_key (coord_key c) = c \<and> (coord_key c = coord_key d \<longleftrightarrow> c = d)"
  by (simp add: coord_key_inj)

end
