(* ===== verification/Events.thy ===== *)
theory Events
  imports Items World
begin

text \<open>
  The recorded events (\<^verbatim>\<open>challenge-server/merging/event.ts\<close>): the messages as records whose
  sub-messages may be absent, the classes of event types, the identity keys of stream events, and the
  remapping of an event's tick references. A non-null assertion on an absent sub-message makes the
  code throw; the function's result is then \<^const>\<open>None\<close>.
\<close>

subsection \<open>Messages\<close>

text \<open>
  The enumeration \<^verbatim>\<open>Event.Type\<close> is generated from a definition of messages that is not part of the repository. The type
  has the names the code uses: those the classes of \<^verbatim>\<open>event.ts\<close> list, which the compiler checks to be all there are.
\<close>

datatype event_type =
    DEPRECATED_CHALLENGE_START | DEPRECATED_CHALLENGE_END | DEPRECATED_CHALLENGE_UPDATE
  | DEPRECATED_STAGE_UPDATE
  | COLOSSEUM_HANDICAP_CHOICE | COLOSSEUM_DOOM_APPLIED | COLOSSEUM_TOTEM_HEAL
  | COLOSSEUM_REENTRY_POOLS | COLOSSEUM_SOL_DUST | COLOSSEUM_SOL_GRAPPLE | COLOSSEUM_SOL_POOLS
  | COLOSSEUM_SOL_LASERS | MOKHAIOTL_ATTACK_STYLE | MOKHAIOTL_ORB | MOKHAIOTL_OBJECTS
  | MOKHAIOTL_LARVA_LEAK | MOKHAIOTL_SHOCKWAVE | INFERNO_WAVE_START
  | TOB_NYLO_WAVE_STALL | TOB_NYLO_CLEANUP_END | TOB_NYLO_BOSS_SPAWN | TOB_VERZIK_REDS_SPAWN
  | PLAYER_UPDATE | PLAYER_ATTACK | PLAYER_SPELL | NPC_UPDATE | NPC_ATTACK
  | TOB_MAIDEN_BLOOD_SPLATS | TOB_VERZIK_YELLOWS | TOB_SOTE_MAZE_PATH
  | PLAYER_DEATH | NPC_SPAWN | NPC_DEATH | TOB_MAIDEN_CRAB_LEAK | TOB_BLOAT_DOWN | TOB_BLOAT_UP
  | TOB_BLOAT_HANDS_DROP | TOB_BLOAT_HANDS_SPLAT | TOB_NYLO_WAVE_SPAWN | TOB_SOTE_MAZE_PROC
  | TOB_SOTE_MAZE_END | TOB_XARPUS_PHASE | TOB_XARPUS_EXHUMED | TOB_XARPUS_SPLAT
  | TOB_VERZIK_PHASE | TOB_VERZIK_DAWN_DROP | TOB_VERZIK_HEAL
  | TOB_VERZIK_ATTACK_STYLE | TOB_VERZIK_BOUNCE | TOB_VERZIK_DAWN

datatype data_source = PRIMARY | SECONDARY

record maiden_crab =
  mc_spawn :: int
  mc_position :: int
  mc_scuffed :: bool

record nylo =
  ny_wave :: int
  ny_parent_room_id :: int
  ny_big :: bool
  ny_style :: int
  ny_spawn_type :: int

record verzik_crab =
  vc_phase :: int
  vc_spawn :: int

record npc_msg =
  nm_id :: int
  nm_room_id :: int
  nm_hitpoints :: int
  nm_prayers :: int
  nm_maiden_crab :: "maiden_crab option"
  nm_nylo :: "nylo option"
  nm_verzik_crab :: "verzik_crab option"

record raw_stats =
  rs_hitpoints :: "int option"
  rs_prayer :: "int option"
  rs_attack :: "int option"
  rs_strength :: "int option"
  rs_defence :: "int option"
  rs_ranged :: "int option"
  rs_magic :: "int option"

record player_msg =
  pm_name :: string
  pm_source :: data_source
  pm_prayers :: int
  pm_snapshot :: bool
  pm_deltas :: "int list"
  pm_off_cooldown :: int
  pm_stats :: raw_stats

record attack_msg =
  am_type :: int
  am_weapon_id :: "int option"
  am_distance :: int
  am_target :: "(int \<times> int) option"

record spell_msg =
  sm_type :: int
  sm_target_player :: "string option"
  sm_target_npc :: "(int \<times> int) option"

record npc_attack_msg =
  na_attack :: int
  na_target :: "string option"

record sote_msg =
  so_maze :: int
  so_overworld_tiles :: "coords list"
  so_overworld_pivots :: "coords list"
  so_underworld_pivots :: "coords list"
  so_chosen :: "string option"

record event =
  ev_type :: event_type
  ev_stage :: stage
  ev_tick :: int
  ev_x :: int
  ev_y :: int
  ev_npc :: "npc_msg option"
  ev_player :: "player_msg option"
  ev_player_attack :: "attack_msg option"
  ev_player_spell :: "spell_msg option"
  ev_npc_attack :: "npc_attack_msg option"
  ev_sote :: "sote_msg option"
  ev_coords :: "coords list"
  ev_nylo_wave :: "int option"
  ev_phase :: int
  ev_dawn_dropped :: "bool option"
  ev_heal_player :: "string option"
  ev_exhumed :: "(int \<times> int list) option"
  ev_attack_tick :: "int option"
  ev_bounced_player :: string
  ev_room_cap :: int
  ev_nylos_alive :: int
  ev_attack_style :: int
  ev_dawn_player :: string
  ev_dawn_damage :: int
  ev_bloat_down :: "int \<times> int"
  ev_bounce_counts :: "int \<times> int"
  ev_heal_amount :: int
  ev_handicap :: int
  ev_handicap_options :: "int list"
  ev_overall_ticks :: int
  ev_grapple :: "int \<times> int"

text \<open>
  \<^const>\<open>ev_coords\<close> is the coordinate list of the splats, yellows and bloat hands events, \<^const>\<open>ev_phase\<close>
  the phase of the Xarpus and Verzik phase events, \<^const>\<open>ev_exhumed\<close> the spawn and heal ticks of an
  exhumed, and \<^const>\<open>ev_attack_tick\<close> the attack tick an attack-mapped event refers to, absent when its
  sub-message is: each event type uses its own field of the message. The wave, the room cap and the
  number of Nylocas alive of the wave events are \<^const>\<open>ev_nylo_wave\<close> (absent with the sub-message),
  \<^const>\<open>ev_room_cap\<close> and \<^const>\<open>ev_nylos_alive\<close>. \<^const>\<open>ev_bloat_down\<close> is the number of a down and its
  up ticks, \<^const>\<open>ev_bounce_counts\<close> the players in and out of range of a bounce, \<^const>\<open>ev_overall_ticks\<close> the
  start of an Inferno wave, \<^const>\<open>ev_heal_amount\<close> the amount of a heal or of each heal of an exhumed, and
  \<^const>\<open>ev_grapple\<close> the target and outcome of a grapple.
\<close>

type_synonym tagged = "event \<times> int"

definition synthetic_source :: int where
  "synthetic_source = 0"

definition tag_synthetic :: "event list \<Rightarrow> tagged list" where
  "tag_synthetic = map (\<lambda>e. (e, synthetic_source))"

subsection \<open>Classes of event types\<close>

definition derived_types :: "event_type set" where
  "derived_types = {TOB_NYLO_WAVE_STALL, TOB_NYLO_CLEANUP_END, TOB_NYLO_BOSS_SPAWN, TOB_VERZIK_REDS_SPAWN}"

definition player_tick_state_types :: "event_type set" where
  "player_tick_state_types = {PLAYER_UPDATE, PLAYER_ATTACK, PLAYER_SPELL}"

definition graphics_types :: "event_type set" where
  "graphics_types = {TOB_MAIDEN_BLOOD_SPLATS, TOB_VERZIK_YELLOWS, TOB_SOTE_MAZE_PATH}"

definition npc_tick_state_types :: "event_type set" where
  "npc_tick_state_types = {NPC_UPDATE, NPC_ATTACK}"

definition tick_state_types :: "event_type set" where
  "tick_state_types = player_tick_state_types \<union> npc_tick_state_types \<union> graphics_types"

definition attack_mapped_types :: "event_type set" where
  "attack_mapped_types = {TOB_VERZIK_ATTACK_STYLE, TOB_VERZIK_BOUNCE, TOB_VERZIK_DAWN}"

definition deprecated_types :: "event_type set" where
  "deprecated_types = {DEPRECATED_CHALLENGE_START, DEPRECATED_CHALLENGE_END, DEPRECATED_CHALLENGE_UPDATE,
     DEPRECATED_STAGE_UPDATE}"

definition solo_types :: "event_type set" where
  "solo_types = {COLOSSEUM_HANDICAP_CHOICE, COLOSSEUM_DOOM_APPLIED, COLOSSEUM_TOTEM_HEAL,
     COLOSSEUM_REENTRY_POOLS, COLOSSEUM_SOL_DUST, COLOSSEUM_SOL_GRAPPLE, COLOSSEUM_SOL_POOLS,
     COLOSSEUM_SOL_LASERS, MOKHAIOTL_ATTACK_STYLE, MOKHAIOTL_ORB, MOKHAIOTL_OBJECTS,
     MOKHAIOTL_LARVA_LEAK, MOKHAIOTL_SHOCKWAVE, INFERNO_WAVE_START}"

subsection \<open>Stream events\<close>

datatype key_fn = Actor_Key | Singleton_Key | Hands_Key | Wave_Key | Maze_Key | Xarpus_Phase_Key
  | Position_Key | Verzik_Phase_Key | Dropped_Key | Heal_Key

record stream_config =
  sc_key :: key_fn
  sc_window :: "int option"
  sc_large_gap :: "int option"

abbreviation stream_cfg :: "key_fn \<Rightarrow> int option \<Rightarrow> int option \<Rightarrow> stream_config option" where
  "stream_cfg k w g \<equiv> Some \<lparr>sc_key = k, sc_window = w, sc_large_gap = g\<rparr>"

fun default_stream_config :: "event_type \<Rightarrow> stream_config option" where
  "default_stream_config PLAYER_DEATH = stream_cfg Actor_Key None (Some 20)"
| "default_stream_config NPC_DEATH = stream_cfg Actor_Key (Some 8) (Some 5)"
| "default_stream_config NPC_SPAWN = stream_cfg Actor_Key None None"
| "default_stream_config TOB_MAIDEN_CRAB_LEAK = stream_cfg Actor_Key None (Some 10)"
| "default_stream_config TOB_BLOAT_DOWN = stream_cfg Singleton_Key (Some 32) (Some 16)"
| "default_stream_config TOB_BLOAT_UP = stream_cfg Singleton_Key (Some 32) (Some 16)"
| "default_stream_config TOB_BLOAT_HANDS_DROP = stream_cfg Hands_Key (Some 5) None"
| "default_stream_config TOB_BLOAT_HANDS_SPLAT = stream_cfg Hands_Key (Some 5) None"
| "default_stream_config TOB_NYLO_WAVE_SPAWN = stream_cfg Wave_Key None (Some 10)"
| "default_stream_config TOB_SOTE_MAZE_PROC = stream_cfg Maze_Key None (Some 20)"
| "default_stream_config TOB_SOTE_MAZE_END = stream_cfg Maze_Key None (Some 10)"
| "default_stream_config TOB_XARPUS_PHASE = stream_cfg Xarpus_Phase_Key None (Some 10)"
| "default_stream_config TOB_XARPUS_EXHUMED = stream_cfg Position_Key (Some 16) (Some 10)"
| "default_stream_config TOB_XARPUS_SPLAT = stream_cfg Position_Key None None"
| "default_stream_config TOB_VERZIK_PHASE = stream_cfg Verzik_Phase_Key None None"
| "default_stream_config TOB_VERZIK_DAWN_DROP = stream_cfg Dropped_Key (Some 3) None"
| "default_stream_config TOB_VERZIK_HEAL = stream_cfg Heal_Key (Some 30) (Some 10)"
| "default_stream_config _ = None"

definition is_stream_event_type :: "event_type \<Rightarrow> bool" where
  "is_stream_event_type t \<longleftrightarrow> default_stream_config t \<noteq> None"

definition respawn_window :: int where
  "respawn_window = 15"

definition stream_configs_for_stage :: "stage \<Rightarrow> event_type \<Rightarrow> stream_config option" where
  "stream_configs_for_stage stage t =
     (if \<not> stage_has_respawns stage then default_stream_config t
      else if t = PLAYER_DEATH
        then map_option (\<lambda>c. c\<lparr>sc_window := Some respawn_window\<rparr>) (default_stream_config PLAYER_DEATH)
      else default_stream_config t)"

text \<open>\<^verbatim>\<open>Array.prototype.sort\<close> on strings: the order of their code units.\<close>

fun str_le :: "string \<Rightarrow> string \<Rightarrow> bool" where
  "str_le [] ys = True"
| "str_le (x # xs) [] = False"
| "str_le (x # xs) (y # ys) =
     (if (of_char x :: nat) = of_char y then str_le xs ys else (of_char x :: nat) < of_char y)"

fun insert_str :: "string \<Rightarrow> string list \<Rightarrow> string list" where
  "insert_str s [] = [s]"
| "insert_str s (t # ts) = (if str_le s t then s # t # ts else t # insert_str s ts)"

definition sort_strings :: "string list \<Rightarrow> string list" where
  "sort_strings ss = foldr insert_str ss []"

fun join_bar :: "string list \<Rightarrow> string" where
  "join_bar [] = []"
| "join_bar [s] = s"
| "join_bar (s # t # ts) = s @ CHR ''|'' # join_bar (t # ts)"

definition bloat_hands_key :: "event \<Rightarrow> string" where
  "bloat_hands_key e = join_bar (sort_strings (map coord_key (ev_coords e)))"

definition actor_id_key :: "event \<Rightarrow> string" where
  "actor_id_key e =
     (case ev_player e of
        Some p \<Rightarrow> pm_name p
      | None \<Rightarrow> (case ev_npc e of Some n \<Rightarrow> show_int (nm_room_id n) | None \<Rightarrow> []))"

definition show_bool :: "bool \<Rightarrow> string" where
  "show_bool b = (if b then ''true'' else ''false'')"

fun identity_key :: "key_fn \<Rightarrow> event \<Rightarrow> string option" where
  "identity_key Actor_Key e = Some (actor_id_key e)"
| "identity_key Singleton_Key e = Some []"
| "identity_key Hands_Key e = Some (bloat_hands_key e)"
| "identity_key Wave_Key e = map_option show_int (ev_nylo_wave e)"
| "identity_key Maze_Key e = map_option (\<lambda>s. show_int (so_maze s)) (ev_sote e)"
| "identity_key Xarpus_Phase_Key e = Some (show_int (ev_phase e))"
| "identity_key Position_Key e = Some (coord_key (ev_x e, ev_y e))"
| "identity_key Verzik_Phase_Key e = Some (show_int (ev_phase e))"
| "identity_key Dropped_Key e = map_option show_bool (ev_dawn_dropped e)"
| "identity_key Heal_Key e = ev_heal_player e"

definition buffered_types :: "event_type set" where
  "buffered_types = {t. is_stream_event_type t} \<union> attack_mapped_types"

subsection \<open>Remapping ticks\<close>

text \<open>
  \<^verbatim>\<open>remapEventTick\<close>: a copy of the event with its own tick and the ticks it refers to remapped.
  A bounce recorded without a reference (\<open>-1\<close>) refers to its own tick, which at that point has been
  remapped already.
\<close>

definition remap_reference :: "(int \<Rightarrow> int) \<Rightarrow> int \<Rightarrow> event \<Rightarrow> event option" where
  "remap_reference remap tick e =
     (case ev_type e of
        TOB_XARPUS_EXHUMED \<Rightarrow>
          map_option (\<lambda>(s, hs). e\<lparr>ev_exhumed := Some (remap s, map remap hs)\<rparr>) (ev_exhumed e)
      | TOB_VERZIK_ATTACK_STYLE \<Rightarrow> map_option (\<lambda>t. e\<lparr>ev_attack_tick := Some (remap t)\<rparr>) (ev_attack_tick e)
      | TOB_VERZIK_BOUNCE \<Rightarrow>
          map_option (\<lambda>t. e\<lparr>ev_attack_tick := Some (remap (if t = -1 then tick else t))\<rparr>) (ev_attack_tick e)
      | TOB_VERZIK_DAWN \<Rightarrow> map_option (\<lambda>t. e\<lparr>ev_attack_tick := Some (remap t)\<rparr>) (ev_attack_tick e)
      | MOKHAIOTL_ATTACK_STYLE \<Rightarrow> map_option (\<lambda>t. e\<lparr>ev_attack_tick := Some (remap t)\<rparr>) (ev_attack_tick e)
      | _ \<Rightarrow> Some e)"

definition remap_event_tick :: "(int \<Rightarrow> int) \<Rightarrow> tagged \<Rightarrow> tagged option" where
  "remap_event_tick remap t =
     (if ev_type (fst t) \<in> tick_state_types then None
      else let tick = remap (ev_tick (fst t)) in
        map_option (\<lambda>e. (e, snd t)) (remap_reference remap tick ((fst t)\<lparr>ev_tick := tick\<rparr>)))"

subsection \<open>Properties\<close>

lemmas type_classes = deprecated_types_def solo_types_def derived_types_def tick_state_types_def
  player_tick_state_types_def npc_tick_state_types_def graphics_types_def attack_mapped_types_def

text \<open>Remapping an event changes nothing but its tick and the ticks it refers to, and remapping twice
  is remapping along the composition, unless the event is a bounce without a recorded reference.\<close>

theorem remap_event_tick_compose:
  assumes "remap_event_tick g t = Some t1"
    and "ev_type (fst t) = TOB_VERZIK_BOUNCE \<longrightarrow>
      ev_attack_tick (fst t) \<noteq> Some (-1) \<and> ev_attack_tick (fst t1) \<noteq> Some (-1)"
  shows "remap_event_tick f t1 = remap_event_tick (\<lambda>tick. f (g tick)) t \<and> snd t1 = snd t \<and>
    ev_tick (fst t1) = g (ev_tick (fst t)) \<and>
    (fst t1)\<lparr>ev_tick := 0, ev_exhumed := None, ev_attack_tick := None\<rparr> =
      (fst t)\<lparr>ev_tick := 0, ev_exhumed := None, ev_attack_tick := None\<rparr>"
proof (cases t)
  case (Pair e src)
  show ?thesis
    using assms unfolding Pair
    by (cases "ev_type e")
      (auto simp: remap_event_tick_def remap_reference_def Let_def split: if_splits)
qed

text \<open>C39: A bounce recorded without a reference ends up referring to its tick remapped twice, since the
  fallback reads the event's tick after it has been replaced.\<close>

theorem legacy_bounce_remapped_twice:
  assumes "ev_type e = TOB_VERZIK_BOUNCE" and "ev_attack_tick e = Some (-1)"
  shows "remap_event_tick f (e, src) =
    Some (e\<lparr>ev_tick := f (ev_tick e), ev_attack_tick := Some (f (f (ev_tick e)))\<rparr>, src)"
  using assms by (simp add: remap_event_tick_def remap_reference_def Let_def type_classes)

definition sample_bounce :: event where
  "sample_bounce =
     \<lparr>ev_type = TOB_VERZIK_BOUNCE, ev_stage = TOB_VERZIK, ev_tick = 10, ev_x = 0, ev_y = 0, ev_npc = None, ev_player = None,
      ev_player_attack = None, ev_player_spell = None, ev_npc_attack = None, ev_sote = None, ev_coords = [],
      ev_nylo_wave = None, ev_phase = 0, ev_dawn_dropped = None, ev_heal_player = None, ev_exhumed = None,
      ev_attack_tick = Some (-1), ev_bounced_player = [], ev_room_cap = 0, ev_nylos_alive = 0,
      ev_attack_style = 0, ev_dawn_player = [], ev_dawn_damage = 0, ev_bloat_down = (0, 0),
      ev_bounce_counts = (0, 0), ev_heal_amount = 0, ev_handicap = 0, ev_handicap_options = [], ev_overall_ticks = 0,
      ev_grapple = (0, 0)\<rparr>"

theorem legacy_bounce_remapped_twice_witness:
  "map_option (\<lambda>t. (ev_tick (fst t), ev_attack_tick (fst t))) (remap_event_tick (\<lambda>t. t + 5) (sample_bounce, 7)) =
     Some (15, Some 20)"
  using legacy_bounce_remapped_twice [of sample_bounce "\<lambda>t. t + 5" 7]
  by (simp add: sample_bounce_def)

theorem remap_event_tick_compose_witness:
  "remap_event_tick (\<lambda>t. t + 1) (sample_bounce\<lparr>ev_tick := 12, ev_attack_tick := Some 9\<rparr>, 7) =
   remap_event_tick (\<lambda>t. t + 2 + 1) (sample_bounce\<lparr>ev_attack_tick := Some 7\<rparr>, 7)"
proof -
  let ?t = "(sample_bounce\<lparr>ev_attack_tick := Some 7\<rparr>, 7)"
  have "remap_event_tick (\<lambda>t. t + 2) ?t = Some (sample_bounce\<lparr>ev_tick := 12, ev_attack_tick := Some 9\<rparr>, 7)"
    by (simp add: remap_event_tick_def remap_reference_def sample_bounce_def type_classes)
  from remap_event_tick_compose [OF this, of "\<lambda>t. t + 1"] show ?thesis
    by (simp add: sample_bounce_def)
qed

end
