(* ===== verification/Graphics.thy ===== *)
theory Graphics
  imports Events
begin

text \<open>
  Per-tick graphics state (\<^verbatim>\<open>challenge-server/merging/graphics.ts\<close>): insertion-ordered maps from
  coordinate keys to the client that observed them, built from a tick's events and rendered back to
  events. Both configuration styles of the source are modelled; its table uses snapshots only.
\<close>

datatype graphics_type = G_MAIDEN_BLOOD_SPLATS | G_VERZIK_YELLOWS | G_SOTE_OVERWORLD_TILES

datatype graphics_config =
    Snapshot event_type "event \<Rightarrow> coords list" "coords list \<Rightarrow> event \<Rightarrow> event"
  | Delta event_type "event \<Rightarrow> coords list \<times> coords list" "coords list \<Rightarrow> coords list \<Rightarrow> event \<Rightarrow> event"

fun config_type :: "graphics_config \<Rightarrow> event_type" where
  "config_type (Snapshot t _ _) = t"
| "config_type (Delta t _ _) = t"

type_synonym coord_map = "(string, int) omap"
type_synonym graphics_state = "(graphics_type, coord_map) omap"

definition new_sote :: sote_msg where
  "new_sote = \<lparr>so_maze = 0, so_overworld_tiles = [], so_overworld_pivots = [], so_underworld_pivots = [],
     so_chosen = None\<rparr>"

definition write_coords :: "coords list \<Rightarrow> event \<Rightarrow> event" where
  "write_coords cs e = e\<lparr>ev_coords := cs\<rparr>"

definition extract_tiles :: "event \<Rightarrow> coords list" where
  "extract_tiles e = (case ev_sote e of None \<Rightarrow> [] | Some s \<Rightarrow> so_overworld_tiles s)"

definition write_tiles :: "coords list \<Rightarrow> event \<Rightarrow> event" where
  "write_tiles cs e =
     e\<lparr>ev_sote := Some ((case ev_sote e of None \<Rightarrow> new_sote | Some s \<Rightarrow> s)\<lparr>so_overworld_tiles := cs\<rparr>)\<rparr>"

definition graphics_configs :: "(graphics_type \<times> graphics_config) list" where
  "graphics_configs =
     [(G_MAIDEN_BLOOD_SPLATS, Snapshot TOB_MAIDEN_BLOOD_SPLATS ev_coords write_coords),
      (G_VERZIK_YELLOWS, Snapshot TOB_VERZIK_YELLOWS ev_coords write_coords),
      (G_SOTE_OVERWORLD_TILES, Snapshot TOB_SOTE_MAZE_PATH extract_tiles write_tiles)]"

subsection \<open>Building\<close>

definition add_coord :: "int \<Rightarrow> coords \<Rightarrow> coord_map \<Rightarrow> coord_map" where
  "add_coord src c m = (if map_of m (coord_key c) = None then m @ [(coord_key c, src)] else m)"

definition delete_coord :: "coords \<Rightarrow> coord_map \<Rightarrow> coord_map" where
  "delete_coord c m = filter (\<lambda>(k, _). k \<noteq> coord_key c) m"

definition graphics_of_type ::
    "tagged list \<Rightarrow> graphics_state option \<Rightarrow> graphics_type \<times> graphics_config \<Rightarrow> (graphics_type \<times> coord_map) option" where
  "graphics_of_type events prev gc =
     (let matching = filter (\<lambda>t. ev_type (fst t) = config_type (snd gc)) events
      in case snd gc of
           Snapshot _ extract _ \<Rightarrow>
             if matching = [] then None
             else Some (fst gc, fold (\<lambda>(e, src). fold (add_coord src) (extract e)) matching [])
         | Delta _ extract _ \<Rightarrow>
             (let p = Option.bind prev (\<lambda>g. map_of g (fst gc))
              in if matching = [] \<and> p = None then None
                 else Some (fst gc,
                   fold (\<lambda>(e, src) m. fold (add_coord src) (fst (extract e)) (fold delete_coord (snd (extract e)) m))
                     matching (case p of None \<Rightarrow> [] | Some m \<Rightarrow> m))))"

definition build_graphics_for_tick :: "tagged list \<Rightarrow> graphics_state option \<Rightarrow> graphics_state" where
  "build_graphics_for_tick events prev = List.map_filter (graphics_of_type events prev) graphics_configs"

text \<open>One state per tick, each seeing the previous one.\<close>

fun build_graphics_states :: "graphics_state option \<Rightarrow> tagged list list \<Rightarrow> graphics_state list" where
  "build_graphics_states prev [] = []"
| "build_graphics_states prev (events # rest) =
     (let g = build_graphics_for_tick events prev in g # build_graphics_states (Some g) rest)"

subsection \<open>Rendering\<close>

definition blank_event :: "event_type \<Rightarrow> stage \<Rightarrow> int \<Rightarrow> int \<Rightarrow> int \<Rightarrow> event" where
  "blank_event t stage tick x y =
     \<lparr>ev_type = t, ev_stage = stage, ev_tick = tick, ev_x = x, ev_y = y, ev_npc = None, ev_player = None,
      ev_player_attack = None, ev_player_spell = None, ev_npc_attack = None, ev_sote = None, ev_coords = [],
      ev_nylo_wave = None, ev_phase = 0, ev_dawn_dropped = None, ev_heal_player = None, ev_exhumed = None,
      ev_attack_tick = None, ev_bounced_player = [], ev_room_cap = 0, ev_nylos_alive = 0,
      ev_attack_style = 0, ev_dawn_player = [], ev_dawn_damage = 0, ev_bloat_down = (0, 0),
      ev_bounce_counts = (0, 0), ev_heal_amount = 0, ev_handicap = 0, ev_handicap_options = [], ev_overall_ticks = 0,
      ev_grapple = (0, 0)\<rparr>"

definition group_graphics :: "(graphics_type \<times> graphics_config) list \<Rightarrow> (event_type, (graphics_type \<times> graphics_config) list) omap" where
  "group_graphics cfgs =
     fold (\<lambda>gc m. AList.update (config_type (snd gc))
             ((case map_of m (config_type (snd gc)) of None \<Rightarrow> [] | Some gs \<Rightarrow> gs) @ [gc]) m) cfgs []"

definition write_graphics ::
    "graphics_state \<Rightarrow> graphics_state option \<Rightarrow> event \<Rightarrow> graphics_type \<times> graphics_config \<Rightarrow> event option \<Rightarrow> event option" where
  "write_graphics cur prev blank gc ev =
     (let e = (case ev of None \<Rightarrow> blank | Some e \<Rightarrow> e) in
      case snd gc of
        Snapshot _ _ wr \<Rightarrow>
          (case map_of cur (fst gc) of
             None \<Rightarrow> ev
           | Some m \<Rightarrow> Some (wr (map (\<lambda>(k, _). from_coord_key k) m) e))
      | Delta _ _ wr \<Rightarrow>
          (let keys = (\<lambda>g. case g of None \<Rightarrow> [] | Some m \<Rightarrow> map fst (m :: coord_map));
               c = keys (map_of cur (fst gc)); p = keys (Option.bind prev (\<lambda>g. map_of g (fst gc)));
               added = filter (\<lambda>k. k \<notin> set p) c; removed = filter (\<lambda>k. k \<notin> set c) p
           in if added = [] \<and> removed = [] then ev
              else Some (wr (map from_coord_key added) (map from_coord_key removed) e)))"

definition create_graphics_events :: "graphics_state \<Rightarrow> graphics_state option \<Rightarrow> stage \<Rightarrow> int \<Rightarrow> event list" where
  "create_graphics_events cur prev stage tick =
     List.map_filter
       (\<lambda>(t, gcs). fold (write_graphics cur prev (blank_event t stage tick 0 0)) gcs None)
       (group_graphics graphics_configs)"

text \<open>\<^verbatim>\<open>mergeGraphics\<close> of a tick state: what is seen only by the other side is added.\<close>

definition merge_coord_maps :: "coord_map \<Rightarrow> coord_map \<Rightarrow> coord_map" where
  "merge_coord_maps m other = fold (\<lambda>(k, src) m. if map_of m k = None then m @ [(k, src)] else m) other m"

definition merge_graphics :: "graphics_state \<Rightarrow> graphics_state \<Rightarrow> graphics_state" where
  "merge_graphics g other =
     fold (\<lambda>(t, cs) g. AList.update t (merge_coord_maps (case map_of g t of None \<Rightarrow> [] | Some m \<Rightarrow> m) cs) g) other g"

subsection \<open>Well-formed states\<close>

definition coord_map_ok :: "coord_map \<Rightarrow> bool" where
  "coord_map_ok m \<longleftrightarrow> distinct (map fst m) \<and> list_all (\<lambda>k. k = coord_key (from_coord_key k)) (map fst m)"

definition graphics_ok :: "graphics_state \<Rightarrow> bool" where
  "graphics_ok g \<longleftrightarrow> distinct (map fst g) \<and> list_all (\<lambda>(t, m). coord_map_ok m) g"

lemma coord_map_ok_add: "coord_map_ok m \<Longrightarrow> coord_map_ok (add_coord src c m)"
  by (auto simp: coord_map_ok_def add_coord_def list_all_iff map_of_eq_None_iff)

lemma fold_add_coord_ok: "coord_map_ok m \<Longrightarrow> coord_map_ok (fold (add_coord src) cs m)"
  by (induction cs arbitrary: m) (auto intro: coord_map_ok_add)

lemma coord_map_ok_delete: "coord_map_ok m \<Longrightarrow> coord_map_ok (delete_coord c m)"
  by (auto simp: coord_map_ok_def delete_coord_def list_all_iff distinct_map intro: inj_on_subset)

lemma fold_delete_coord_ok: "coord_map_ok m \<Longrightarrow> coord_map_ok (fold delete_coord cs m)"
  by (induction cs arbitrary: m) (auto intro: coord_map_ok_delete)

text \<open>Reading a rendered snapshot back gives its keys, in order.\<close>

lemma fold_add_coord_keys:
  "distinct (map coord_key cs) \<Longrightarrow> fst ` set m \<inter> coord_key ` set cs = {} \<Longrightarrow>
     fold (add_coord src) cs m = m @ map (\<lambda>c. (coord_key c, src)) cs"
  by (induction cs arbitrary: m) (auto simp: add_coord_def map_of_eq_None_iff)

lemma snapshot_roundtrip:
  assumes "coord_map_ok m"
  shows "fold (add_coord src) (map (\<lambda>(k, _). from_coord_key k) m) [] = map (\<lambda>(k, _). (k, src)) m"
proof -
  have "coord_key (from_coord_key k) = k" if "(k, s) \<in> set m" for k s
    using assms that by (force simp: coord_map_ok_def list_all_iff)
  then have keys: "map coord_key (map (\<lambda>(k, _). from_coord_key k) m) = map fst m"
    by (auto simp: comp_def)
  have "distinct (map coord_key (map (\<lambda>(k, _). from_coord_key k) m))"
    using assms by (simp only: keys coord_map_ok_def)
  then have "fold (add_coord src) (map (\<lambda>(k, _). from_coord_key k) m) [] =
      map (\<lambda>c. (coord_key c, src)) (map (\<lambda>(k, _). from_coord_key k) m)"
    by (subst fold_add_coord_keys) auto
  also have "\<dots> = map (\<lambda>k. (k, src)) (map coord_key (map (\<lambda>(k, _). from_coord_key k) m))"
    by simp
  also have "\<dots> = map (\<lambda>k. (k, src)) (map fst m)"
    by (simp only: keys)
  finally show ?thesis by (simp add: comp_def case_prod_unfold)
qed

lemma build_ok: "graphics_ok (build_graphics_for_tick events prev)"
proof -
  have "coord_map_ok (fold (\<lambda>(e, src). fold (add_coord src) (f e)) ts m)" if "coord_map_ok m"
    for f :: "event \<Rightarrow> coords list" and ts m
    using that by (induction ts arbitrary: m) (auto intro: fold_add_coord_ok)
  then have "coord_map_ok (fold (\<lambda>(e, src). fold (add_coord src) (f e)) ts [])" for f :: "event \<Rightarrow> coords list" and ts
    by (simp add: coord_map_ok_def)
  then show ?thesis
    by (auto simp: graphics_ok_def build_graphics_for_tick_def graphics_configs_def List.map_filter_def
      graphics_of_type_def Let_def)
qed

lemma group_graphics_configs: "group_graphics graphics_configs = map (\<lambda>gc. (config_type (snd gc), [gc])) graphics_configs"
  by (simp add: group_graphics_def graphics_configs_def)

definition seen_at :: "graphics_state \<Rightarrow> graphics_type \<Rightarrow> string \<Rightarrow> int option" where
  "seen_at g t k = Option.bind (map_of g t) (\<lambda>m. map_of m k)"

lemma map_of_snoc_new: "map_of m k = None \<Longrightarrow> map_of (m @ [(k, v)]) k' = (if k' = k then Some v else map_of m k')"
  by (auto simp: map_add_def split: option.splits)

lemma merge_coord_maps_get:
  "map_of (merge_coord_maps m other) k = (case map_of m k of Some s \<Rightarrow> Some s | None \<Rightarrow> map_of other k)"
  unfolding merge_coord_maps_def
proof (induction other arbitrary: m)
  case (Cons kv other)
  obtain k0 s0 where kv: "kv = (k0, s0)" by (cases kv)
  show ?case
    by (cases "map_of m k0") (auto simp: kv Cons map_of_snoc_new split: option.splits)
qed (auto split: option.splits)

lemma seen_at_update:
  "seen_at (AList.update t m g) t' k = (if t' = t then map_of m k else seen_at g t' k)"
  by (simp add: seen_at_def omap.get_put)

lemma merge_graphics_seen:
  assumes "distinct (map fst other)"
  shows "seen_at (merge_graphics g other) t k =
    (case seen_at g t k of Some s \<Rightarrow> Some s | None \<Rightarrow> seen_at other t k)"
  using assms unfolding merge_graphics_def
proof (induction other arbitrary: g)
  case (Cons tc other)
  obtain t0 cs where tc: "tc = (t0, cs)" by (cases tc)
  let ?m = "merge_coord_maps (case map_of g t0 of None \<Rightarrow> [] | Some m \<Rightarrow> m) cs"
  have IH: "seen_at (fold (\<lambda>(t, cs) g. AList.update t (merge_coord_maps (case map_of g t of None \<Rightarrow> [] | Some m \<Rightarrow> m) cs) g)
      other (AList.update t0 ?m g)) t k =
    (case seen_at (AList.update t0 ?m g) t k of Some s \<Rightarrow> Some s | None \<Rightarrow> seen_at other t k)"
    using Cons by simp
  have absent: "t0 = t \<Longrightarrow> seen_at other t k = None"
    using Cons.prems by (auto simp: tc seen_at_def map_of_eq_None_iff bind_eq_None_conv)
  show ?case
    using absent unfolding tc
    by (simp add: IH seen_at_update merge_coord_maps_get)
      (auto simp: seen_at_def split: option.splits)
qed (simp add: seen_at_def split: option.splits)

lemma graphics_of_type_fst: "graphics_of_type events prev gc = Some x \<Longrightarrow> fst x = fst gc"
  by (auto simp: graphics_of_type_def Let_def split: graphics_config.splits if_splits)

lemma map_of_map_filter_keyed:
  assumes key: "\<And>x y. f x = Some y \<Longrightarrow> fst y = fst x"
  shows "distinct (map fst xs) \<Longrightarrow> (a, b) \<in> set xs \<Longrightarrow>
    map_of (List.map_filter f xs) a = map_option snd (f (a, b))"
proof (induction xs)
  case (Cons x xs)
  have absent: "map_of (List.map_filter f ys) a = None" if "a \<notin> fst ` set ys" for ys
    using that by (induction ys) (auto simp: List.map_filter_simps split: option.splits dest: key)
  show ?case
  proof (cases "x = (a, b)")
    case True
    with Cons.prems(1) absent [of xs] show ?thesis
      by (cases "f x") (auto simp: List.map_filter_simps dest: key)
  next
    case False
    with Cons.prems have "(a, b) \<in> set xs" by simp
    with Cons.prems have "fst x \<noteq> a" by (metis distinct.simps(2) fst_conv image_eqI image_set list.simps(9))
    with Cons False show ?thesis
      by (cases "f x") (auto simp: List.map_filter_simps dest: key)
  qed
qed simp

lemma build_lookup:
  "(t, cfg) \<in> set graphics_configs \<Longrightarrow>
     map_of (build_graphics_for_tick events prev) t = map_option snd (graphics_of_type events prev (t, cfg))"
  unfolding build_graphics_for_tick_def
  by (rule map_of_map_filter_keyed) (auto simp: graphics_of_type_fst graphics_configs_def)

text \<open>The event rendered for one graphics type.\<close>

definition rendered :: "graphics_state \<Rightarrow> stage \<Rightarrow> int \<Rightarrow> graphics_type \<Rightarrow> event_type \<Rightarrow> (coords list \<Rightarrow> event \<Rightarrow> event) \<Rightarrow> event option" where
  "rendered g stage tick t et wr =
     map_option (\<lambda>m. wr (map (\<lambda>(k, _). from_coord_key k) m) (blank_event et stage tick 0 0)) (map_of g t)"

lemma create_graphics_events_eq:
  "create_graphics_events g prev stage tick =
     List.map_filter id
       [rendered g stage tick G_MAIDEN_BLOOD_SPLATS TOB_MAIDEN_BLOOD_SPLATS write_coords,
        rendered g stage tick G_VERZIK_YELLOWS TOB_VERZIK_YELLOWS write_coords,
        rendered g stage tick G_SOTE_OVERWORLD_TILES TOB_SOTE_MAZE_PATH write_tiles]"
  unfolding create_graphics_events_def group_graphics_configs
  unfolding graphics_configs_def rendered_def
  by (simp add: List.map_filter_simps write_graphics_def Let_def split: option.splits)

lemma rendered_type:
  "rendered g stage tick t et write_coords = None \<or> ev_type (the (rendered g stage tick t et write_coords)) = et"
  "rendered g stage tick t et write_tiles = None \<or> ev_type (the (rendered g stage tick t et write_tiles)) = et"
  by (cases "map_of g t"; simp add: rendered_def write_coords_def write_tiles_def blank_event_def)+

lemma filter_rendered:
  assumes "a = None \<or> ev_type (the a) = ta" "b = None \<or> ev_type (the b) = tb" "c = None \<or> ev_type (the c) = tc"
    and "distinct [ta, tb, tc]"
  shows "filter (\<lambda>t. ev_type (fst t) = ta) (tag_synthetic (List.map_filter id [a, b, c])) =
      (case a of None \<Rightarrow> [] | Some e \<Rightarrow> [(e, synthetic_source)])"
    "filter (\<lambda>t. ev_type (fst t) = tb) (tag_synthetic (List.map_filter id [a, b, c])) =
      (case b of None \<Rightarrow> [] | Some e \<Rightarrow> [(e, synthetic_source)])"
    "filter (\<lambda>t. ev_type (fst t) = tc) (tag_synthetic (List.map_filter id [a, b, c])) =
      (case c of None \<Rightarrow> [] | Some e \<Rightarrow> [(e, synthetic_source)])"
  using assms by (cases a; cases b; cases c; auto simp: tag_synthetic_def List.map_filter_def)+

subsection \<open>Properties\<close>

text \<open>Rendering a tick's graphics to events and building them again from those events gives the same
  graphics types with the same coordinates in the same order, now without an observer.\<close>

theorem graphics_roundtrip:
  assumes "graphics_ok g"
  shows "map_of (build_graphics_for_tick (tag_synthetic (create_graphics_events g prev stage tick)) prev') t =
    map_option (map (\<lambda>(k, _). (k, synthetic_source))) (map_of g t)"
proof -
  have ok: "coord_map_ok m" if "map_of g t' = Some m" for t' m
    using assms map_of_SomeD [OF that] by (auto simp: graphics_ok_def list_all_iff)
  let ?a = "rendered g stage tick G_MAIDEN_BLOOD_SPLATS TOB_MAIDEN_BLOOD_SPLATS write_coords"
  let ?b = "rendered g stage tick G_VERZIK_YELLOWS TOB_VERZIK_YELLOWS write_coords"
  let ?c = "rendered g stage tick G_SOTE_OVERWORLD_TILES TOB_SOTE_MAZE_PATH write_tiles"
  have types: "?a = None \<or> ev_type (the ?a) = TOB_MAIDEN_BLOOD_SPLATS" "?b = None \<or> ev_type (the ?b) = TOB_VERZIK_YELLOWS"
    "?c = None \<or> ev_type (the ?c) = TOB_SOTE_MAZE_PATH"
    by (rule rendered_type)+
  let ?evs = "tag_synthetic (List.map_filter id [?a, ?b, ?c])"
  have one: "map_of (build_graphics_for_tick ?evs prev') t' =
      map_option (\<lambda>e. fold (add_coord synthetic_source) (ex e) []) x"
    if "(t', Snapshot et ex wr) \<in> set graphics_configs"
      "filter (\<lambda>t. ev_type (fst t) = et) ?evs = (case x of None \<Rightarrow> [] | Some e \<Rightarrow> [(e, synthetic_source)])"
    for t' et ex wr x
    unfolding build_lookup [OF that(1)] using that(2) by (cases x) (simp_all add: graphics_of_type_def)
  have "map_of (build_graphics_for_tick ?evs prev') G_MAIDEN_BLOOD_SPLATS =
      map_option (\<lambda>e. fold (add_coord synthetic_source) (ev_coords e) []) ?a"
    by (rule one [OF _ filter_rendered(1) [OF types]]) (simp_all add: graphics_configs_def)
  moreover have "map_of (build_graphics_for_tick ?evs prev') G_VERZIK_YELLOWS =
      map_option (\<lambda>e. fold (add_coord synthetic_source) (ev_coords e) []) ?b"
    by (rule one [OF _ filter_rendered(2) [OF types]]) (simp_all add: graphics_configs_def)
  moreover have "map_of (build_graphics_for_tick ?evs prev') G_SOTE_OVERWORLD_TILES =
      map_option (\<lambda>e. fold (add_coord synthetic_source) (extract_tiles e) []) ?c"
    by (rule one [OF _ filter_rendered(3) [OF types]]) (simp_all add: graphics_configs_def)
  moreover have "map_option (\<lambda>e. fold (add_coord synthetic_source) (ev_coords e) [])
      (rendered g stage tick t' et write_coords) = map_option (map (\<lambda>(k, _). (k, synthetic_source))) (map_of g t')" for t' et
    by (cases "map_of g t'") (simp_all add: rendered_def write_coords_def snapshot_roundtrip [OF ok])
  moreover have "map_option (\<lambda>e. fold (add_coord synthetic_source) (extract_tiles e) [])
      (rendered g stage tick t' et write_tiles) = map_option (map (\<lambda>(k, _). (k, synthetic_source))) (map_of g t')" for t' et
    by (cases "map_of g t'") (simp_all add: rendered_def write_tiles_def extract_tiles_def snapshot_roundtrip [OF ok])
  ultimately show ?thesis
    unfolding create_graphics_events_eq by (cases t) (simp_all only:)
qed

text \<open>Merging graphics is a union in which what was already seen keeps its observer: nothing seen by
  either side is lost and nothing else appears.\<close>

theorem merge_graphics_union:
  assumes "distinct (map fst other)"
  shows "seen_at (merge_graphics g other) t k =
    (case seen_at g t k of Some s \<Rightarrow> Some s | None \<Rightarrow> seen_at other t k)"
  by (rule merge_graphics_seen [OF assms])

definition sample_graphics :: graphics_state where
  "sample_graphics = [(G_VERZIK_YELLOWS, [(coord_key (3, -4), 2), (coord_key (5, 6), 1)])]"

theorem graphics_roundtrip_witness:
  "map_of (build_graphics_for_tick (tag_synthetic (create_graphics_events sample_graphics None TOB_VERZIK 9)) None) G_VERZIK_YELLOWS =
     Some [(coord_key (3, -4), 0), (coord_key (5, 6), 0)]"
proof -
  have "graphics_ok sample_graphics"
    by (simp add: graphics_ok_def coord_map_ok_def sample_graphics_def coord_key_inj)
  from graphics_roundtrip [OF this, of None TOB_VERZIK 9 None G_VERZIK_YELLOWS] show ?thesis
    by (simp add: sample_graphics_def synthetic_source_def)
qed

theorem merge_graphics_union_witness:
  "seen_at (merge_graphics [(G_VERZIK_YELLOWS, [(coord_key (5, 6), 7)])] sample_graphics) G_VERZIK_YELLOWS (coord_key (5, 6)) = Some 7 \<and>
   seen_at (merge_graphics [(G_VERZIK_YELLOWS, [(coord_key (5, 6), 7)])] sample_graphics) G_VERZIK_YELLOWS (coord_key (3, -4)) = Some 2"
proof -
  have "distinct (map fst sample_graphics)" by (simp add: sample_graphics_def)
  note merged = merge_graphics_union [OF this]
  show ?thesis
    unfolding merged by (simp add: sample_graphics_def seen_at_def coord_key_inj)
qed

end
