(* ===== verification/Tick_State.thy ===== *)
theory Tick_State
  imports Graphics
begin

text \<open>
  The state of one tick (\<^verbatim>\<open>challenge-server/merging/tick-state.ts\<close>): players, NPCs, graphics and the
  remaining events grouped by type; merging two views of a tick; and rebuilding the canonical events of
  a timeline. Equipment is a container in which an empty slot and a \<^verbatim>\<open>null\<close> entry are the same, which
  no operation of the source tells apart. The slot numbers of the first and last equipment slot and the
  table of attack cooldowns come from generated and static data and are parameters.
\<close>

subsection \<open>State\<close>

record npc_attacked =
  nt_type :: int
  nt_target :: "string option"
  nt_source :: int

datatype npc_subtype = Maiden_Crab maiden_crab | Nylo nylo | Verzik_Crab verzik_crab

record npc_state =
  ns_id :: int
  ns_x :: int
  ns_y :: int
  ns_hitpoints :: skill_level
  ns_prayers :: int
  ns_attack :: "npc_attacked option"
  ns_subtype :: "npc_subtype option"
  ns_source :: int

record player_attacked =
  at_type :: int
  at_weapon_id :: int
  at_distance :: int
  at_target :: "(int \<times> int \<times> int) option"
  at_source :: int

datatype spell_target = Spell_Player string | Spell_Npc int int

record spell_cast =
  sl_type :: int
  sl_target :: "(spell_target \<times> int) option"
  sl_source :: int

record player_stats =
  st_hitpoints :: "skill_level option"
  st_prayer :: "skill_level option"
  st_attack :: "skill_level option"
  st_strength :: "skill_level option"
  st_defence :: "skill_level option"
  st_ranged :: "skill_level option"
  st_magic :: "skill_level option"

record player_state =
  ps_source :: data_source
  ps_username :: string
  ps_x :: int
  ps_y :: int
  ps_dead :: bool
  ps_equipment :: container
  ps_prayers :: int
  ps_attack :: "player_attacked option"
  ps_spell :: "spell_cast option"
  ps_stats :: "player_stats option"
  ps_off_cooldown :: "int option"
  ps_client :: int

record tick_state =
  ts_tick :: int
  ts_events :: "(event_type, tagged list) omap"
  ts_players :: "(string, player_state option) omap"
  ts_npcs :: "(int, npc_state) omap"
  ts_graphics :: graphics_state

subsection \<open>NPC states\<close>

definition extract_npc_subtype :: "npc_msg \<Rightarrow> npc_subtype option" where
  "extract_npc_subtype n =
     (case nm_maiden_crab n of
        Some c \<Rightarrow> Some (Maiden_Crab c)
      | None \<Rightarrow> (case nm_nylo n of
          Some y \<Rightarrow> Some (Nylo y)
        | None \<Rightarrow> map_option Verzik_Crab (nm_verzik_crab n)))"

definition npc_from_event :: "(int, npc_state) omap option \<Rightarrow> tagged \<Rightarrow> npc_msg \<Rightarrow> npc_state" where
  "npc_from_event prev t n =
     (let before = Option.bind prev (\<lambda>m. map_of m (nm_room_id n)) in
      \<lparr>ns_id = (if nm_id n = 0 then (case before of None \<Rightarrow> 0 | Some s \<Rightarrow> ns_id s) else nm_id n),
       ns_x = ev_x (fst t), ns_y = ev_y (fst t), ns_hitpoints = skill_from_raw (nm_hitpoints n),
       ns_prayers = nm_prayers n, ns_attack = None,
       ns_subtype = (case extract_npc_subtype n of
           Some s \<Rightarrow> Some s | None \<Rightarrow> Option.bind before ns_subtype),
       ns_source = snd t\<rparr>)"

definition place_npc :: "(int, npc_state) omap option \<Rightarrow> tagged \<Rightarrow> (int, npc_state) omap option \<Rightarrow> (int, npc_state) omap option" where
  "place_npc prev t acc =
     (case acc of
        None \<Rightarrow> None
      | Some npcs \<Rightarrow>
          (if ev_type (fst t) \<notin> {NPC_SPAWN, NPC_UPDATE} then Some npcs
           else map_option (\<lambda>n. AList.update (nm_room_id n) (npc_from_event prev t n) npcs) (ev_npc (fst t))))"

definition place_npc_attack :: "tagged \<Rightarrow> (int, npc_state) omap \<Rightarrow> (int, npc_state) omap" where
  "place_npc_attack t npcs =
     (if ev_type (fst t) \<noteq> NPC_ATTACK then npcs
      else case ev_npc (fst t) of
        None \<Rightarrow> npcs
      | Some n \<Rightarrow> (case (map_of npcs (nm_room_id n), ev_npc_attack (fst t)) of
          (Some s, Some a) \<Rightarrow>
            AList.update (nm_room_id n)
              (s\<lparr>ns_attack := Some \<lparr>nt_type = na_attack a, nt_target = na_target a, nt_source = snd t\<rparr>\<rparr>) npcs
        | _ \<Rightarrow> npcs))"

definition build_npcs_for_tick :: "tagged list \<Rightarrow> (int, npc_state) omap option \<Rightarrow> (int, npc_state) omap option" where
  "build_npcs_for_tick events prev =
     map_option (fold place_npc_attack events) (fold (place_npc prev) events (Some []))"

fun build_npc_states :: "(int, npc_state) omap option \<Rightarrow> tagged list list \<Rightarrow> (int, npc_state) omap list option" where
  "build_npc_states prev [] = Some []"
| "build_npc_states prev (events # rest) =
     (case build_npcs_for_tick events prev of
        None \<Rightarrow> None
      | Some npcs \<Rightarrow> map_option (\<lambda>xs. npcs # xs) (build_npc_states (Some npcs) rest))"

subsection \<open>Tick states\<close>

definition push_event :: "tagged \<Rightarrow> (event_type, tagged list) omap \<Rightarrow> (event_type, tagged list) omap" where
  "push_event t m =
     AList.update (ev_type (fst t)) ((case map_of m (ev_type (fst t)) of None \<Rightarrow> [] | Some ts \<Rightarrow> ts) @ [t]) m"

definition new_tick_state ::
    "int \<Rightarrow> tagged list \<Rightarrow> (string, player_state option) omap \<Rightarrow> (int, npc_state) omap \<Rightarrow> graphics_state \<Rightarrow> tick_state" where
  "new_tick_state tick events players npcs graphics =
     \<lparr>ts_tick = tick,
      ts_events = fold push_event (filter (\<lambda>t. ev_type (fst t) \<notin> tick_state_types) events) [],
      ts_players = players, ts_npcs = npcs, ts_graphics = graphics\<rparr>"

definition get_tagged_events :: "tick_state \<Rightarrow> tagged list" where
  "get_tagged_events ts = concat (map snd (ts_events ts))"

definition get_events :: "tick_state \<Rightarrow> event list" where
  "get_events ts = map fst (get_tagged_events ts)"

definition get_tagged_by_type :: "event_type \<Rightarrow> tick_state \<Rightarrow> tagged list" where
  "get_tagged_by_type t ts = (case map_of (ts_events ts) t of None \<Rightarrow> [] | Some es \<Rightarrow> es)"

definition get_events_by_type :: "event_type \<Rightarrow> tick_state \<Rightarrow> event list" where
  "get_events_by_type t ts = map fst (get_tagged_by_type t ts)"

definition get_player_state :: "string \<Rightarrow> tick_state \<Rightarrow> player_state option" where
  "get_player_state p ts = (case map_of (ts_players ts) p of Some (Some s) \<Rightarrow> Some s | _ \<Rightarrow> None)"

definition get_npc_state :: "int \<Rightarrow> tick_state \<Rightarrow> npc_state option" where
  "get_npc_state r ts = map_of (ts_npcs ts) r"

text \<open>A deep copy: its events are stored again, so events of tick-state types are left behind.\<close>

definition clone_tick :: "tick_state \<Rightarrow> tick_state" where
  "clone_tick ts = new_tick_state (ts_tick ts) (get_tagged_events ts) (ts_players ts) (ts_npcs ts) (ts_graphics ts)"

definition merge_player :: "string \<times> player_state option \<Rightarrow> tick_state \<Rightarrow> tick_state" where
  "merge_player po ts =
     (case snd po of
        None \<Rightarrow> ts
      | Some other \<Rightarrow>
          (case get_player_state (fst po) ts of
             None \<Rightarrow> ts\<lparr>ts_players := AList.update (fst po) (Some other) (ts_players ts)\<rparr>
           | Some cur \<Rightarrow>
               (if ps_source cur = SECONDARY \<and> ps_source other = PRIMARY
                then ts\<lparr>ts_players := AList.update (fst po)
                       (Some (other\<lparr>ps_attack := ps_attack cur, ps_spell := ps_spell cur\<rparr>)) (ts_players ts)\<rparr>
                else ts)))"

definition merge_npc :: "int \<times> npc_state \<Rightarrow> (int, npc_state) omap \<Rightarrow> (int, npc_state) omap" where
  "merge_npc rs npcs = (if map_of npcs (fst rs) = None then npcs @ [rs] else npcs)"

definition merge_ticks :: "tick_state \<Rightarrow> tick_state \<Rightarrow> tick_state" where
  "merge_ticks ts other =
     (let ts1 = fold merge_player (ts_players other) ts
      in ts1\<lparr>ts_npcs := fold merge_npc (ts_npcs other) (ts_npcs ts1),
             ts_graphics := merge_graphics (ts_graphics ts1) (ts_graphics other)\<rparr>)"

definition set_player_attack :: "string \<Rightarrow> player_attacked option \<Rightarrow> tick_state \<Rightarrow> tick_state" where
  "set_player_attack p a ts =
     (case get_player_state p ts of
        None \<Rightarrow> ts
      | Some s \<Rightarrow> ts\<lparr>ts_players := AList.update p (Some (s\<lparr>ps_attack := a\<rparr>)) (ts_players ts)\<rparr>)"

definition set_player_spell :: "string \<Rightarrow> spell_cast option \<Rightarrow> tick_state \<Rightarrow> tick_state" where
  "set_player_spell p sp ts =
     (case get_player_state p ts of
        None \<Rightarrow> ts
      | Some s \<Rightarrow> ts\<lparr>ts_players := AList.update p (Some (s\<lparr>ps_spell := sp\<rparr>)) (ts_players ts)\<rparr>)"

definition set_npc_attack :: "int \<Rightarrow> npc_attacked option \<Rightarrow> tick_state \<Rightarrow> tick_state" where
  "set_npc_attack r a ts =
     (case get_npc_state r ts of
        None \<Rightarrow> ts
      | Some s \<Rightarrow> ts\<lparr>ts_npcs := AList.update r (s\<lparr>ns_attack := a\<rparr>) (ts_npcs ts)\<rparr>)"

definition extract_events :: "event_type list \<Rightarrow> tick_state \<Rightarrow> tagged list \<times> tick_state" where
  "extract_events types ts =
     (concat (map (\<lambda>t. get_tagged_by_type t ts) types),
      ts\<lparr>ts_events := filter (\<lambda>(t, _). t \<notin> set types) (ts_events ts)\<rparr>)"

text \<open>\<^verbatim>\<open>removeEvent\<close> looks an event object up by identity; here the object is given by its type and its position
  among the events of that type.\<close>

definition remove_event :: "event_type \<Rightarrow> nat \<Rightarrow> tick_state \<Rightarrow> bool \<times> tick_state" where
  "remove_event ty i ts =
     (case map_of (ts_events ts) ty of
        None \<Rightarrow> (False, ts)
      | Some es \<Rightarrow>
          (if i \<ge> length es then (False, ts)
           else let es' = take i es @ drop (Suc i) es
             in (True, ts\<lparr>ts_events := (if es' = [] then AList.delete ty (ts_events ts)
                                       else AList.update ty es' (ts_events ts))\<rparr>)))"

definition add_tagged_events :: "tagged list \<Rightarrow> tick_state \<Rightarrow> tick_state" where
  "add_tagged_events es ts = ts\<lparr>ts_events := fold push_event es (ts_events ts)\<rparr>"

definition add_synthetic_events :: "event list \<Rightarrow> tick_state \<Rightarrow> tick_state" where
  "add_synthetic_events es ts = add_tagged_events (tag_synthetic es) ts"

subsection \<open>Canonical events\<close>

definition item_delta_of :: "int \<Rightarrow> item_stack \<Rightarrow> int \<Rightarrow> bool \<Rightarrow> item_delta" where
  "item_delta_of slot it q added =
     \<lparr>dl_item_id = it_id it, dl_quantity = q, dl_slot = slot, dl_added = added\<rparr>"

definition slot_deltas :: "int \<Rightarrow> item_stack option \<Rightarrow> item_stack option \<Rightarrow> item_delta list" where
  "slot_deltas slot prev cur =
     (case cur of
        Some c \<Rightarrow>
          (if map_option it_id prev \<noteq> Some (it_id c) then [item_delta_of slot c (it_quantity c) True]
           else let delta = it_quantity c - it_quantity (the prev)
             in if delta \<noteq> 0 then [item_delta_of slot c \<bar>delta\<bar> (delta > 0)] else [])
      | None \<Rightarrow> (case prev of None \<Rightarrow> [] | Some p \<Rightarrow> [item_delta_of slot p (it_quantity p) False]))"

definition create_equipment_deltas :: "int \<times> int \<Rightarrow> container \<Rightarrow> container option \<Rightarrow> int list" where
  "create_equipment_deltas slots cur prev =
     concat (map (\<lambda>slot. map delta_to_raw (slot_deltas slot (Option.bind prev (\<lambda>c. c slot)) (cur slot)))
       [fst slots..snd slots])"

definition blank_player :: "string \<Rightarrow> player_msg" where
  "blank_player name =
     \<lparr>pm_name = name, pm_source = PRIMARY, pm_prayers = 0, pm_snapshot = False, pm_deltas = [],
      pm_off_cooldown = 0,
      pm_stats = \<lparr>rs_hitpoints = None, rs_prayer = None, rs_attack = None, rs_strength = None,
                  rs_defence = None, rs_ranged = None, rs_magic = None\<rparr>\<rparr>"

definition base_player_event :: "stage \<Rightarrow> int \<Rightarrow> string \<Rightarrow> player_state \<Rightarrow> event_type \<Rightarrow> event" where
  "base_player_event stage tick p s t =
     (blank_event t stage tick (ps_x s) (ps_y s))\<lparr>ev_player := Some (blank_player p)\<rparr>"

definition stats_to_raw :: "player_stats option \<Rightarrow> raw_stats" where
  "stats_to_raw s =
     (let f = (\<lambda>get. Option.bind s (\<lambda>st. map_option skill_to_raw (get st)))
      in \<lparr>rs_hitpoints = f st_hitpoints, rs_prayer = f st_prayer, rs_attack = f st_attack,
          rs_strength = f st_strength, rs_defence = f st_defence, rs_ranged = f st_ranged,
          rs_magic = f st_magic\<rparr>)"

definition create_update_event :: "int \<times> int \<Rightarrow> stage \<Rightarrow> int \<Rightarrow> string \<Rightarrow> player_state \<Rightarrow> player_state option \<Rightarrow> event" where
  "create_update_event slots stage tick p s prev =
     (base_player_event stage tick p s PLAYER_UPDATE)
       \<lparr>ev_player := Some \<lparr>pm_name = p, pm_source = ps_source s, pm_prayers = ps_prayers s, pm_snapshot = False,
          pm_deltas = create_equipment_deltas slots (ps_equipment s) (map_option ps_equipment prev),
          pm_off_cooldown = (case ps_off_cooldown s of None \<Rightarrow> 0 | Some t \<Rightarrow> t),
          pm_stats = stats_to_raw (ps_stats s)\<rparr>\<rparr>"

definition create_attack_event :: "stage \<Rightarrow> int \<Rightarrow> string \<Rightarrow> player_state \<Rightarrow> player_attacked \<Rightarrow> event" where
  "create_attack_event stage tick p s a =
     (base_player_event stage tick p s PLAYER_ATTACK)
       \<lparr>ev_player_attack := Some \<lparr>am_type = at_type a,
          am_weapon_id = (if at_weapon_id a > 0 then Some (at_weapon_id a) else None),
          am_distance = at_distance a,
          am_target = map_option (\<lambda>(i, r, _). (i, r)) (at_target a)\<rparr>\<rparr>"

definition create_spell_event :: "stage \<Rightarrow> int \<Rightarrow> string \<Rightarrow> player_state \<Rightarrow> spell_cast \<Rightarrow> event" where
  "create_spell_event stage tick p s sp =
     (base_player_event stage tick p s PLAYER_SPELL)
       \<lparr>ev_player_spell := Some \<lparr>sm_type = sl_type sp,
          sm_target_player = (case sl_target sp of Some (Spell_Player n, _) \<Rightarrow> Some n | _ \<Rightarrow> None),
          sm_target_npc = (case sl_target sp of Some (Spell_Npc i r, _) \<Rightarrow> Some (i, r) | _ \<Rightarrow> None)\<rparr>\<rparr>"

definition create_player_state_events ::
    "int \<times> int \<Rightarrow> stage \<Rightarrow> int \<Rightarrow> string \<Rightarrow> player_state \<Rightarrow> player_state option \<Rightarrow> event list" where
  "create_player_state_events slots stage tick p s prev =
     create_update_event slots stage tick p s prev #
     (case ps_attack s of None \<Rightarrow> [] | Some a \<Rightarrow> [create_attack_event stage tick p s a]) @
     (case ps_spell s of None \<Rightarrow> [] | Some sp \<Rightarrow> [create_spell_event stage tick p s sp])"

text \<open>\<^verbatim>\<open>state.offCooldownTick ??= previous?.offCooldownTick ?? 0\<close> after an attack of known cooldown set it.\<close>

definition resynchronize_player :: "(int \<Rightarrow> int option) \<Rightarrow> int \<Rightarrow> player_state \<Rightarrow> player_state option \<Rightarrow> player_state" where
  "resynchronize_player cooldown tick s prev =
     (let off = (case Option.bind (ps_attack s) (\<lambda>a. cooldown (at_type a)) of
                   Some c \<Rightarrow> Some (tick + c) | None \<Rightarrow> ps_off_cooldown s)
      in s\<lparr>ps_off_cooldown := Some (case off of
             Some t \<Rightarrow> t
           | None \<Rightarrow> (case Option.bind prev ps_off_cooldown of Some t \<Rightarrow> t | None \<Rightarrow> 0))\<rparr>)"

definition blank_npc :: "int \<Rightarrow> int \<Rightarrow> npc_msg" where
  "blank_npc i r =
     \<lparr>nm_id = i, nm_room_id = r, nm_hitpoints = 0, nm_prayers = 0, nm_maiden_crab = None, nm_nylo = None,
      nm_verzik_crab = None\<rparr>"

fun apply_npc_subtype :: "npc_subtype \<Rightarrow> npc_msg \<Rightarrow> npc_msg" where
  "apply_npc_subtype (Maiden_Crab c) n = n\<lparr>nm_maiden_crab := Some c\<rparr>"
| "apply_npc_subtype (Nylo y) n = n\<lparr>nm_nylo := Some y\<rparr>"
| "apply_npc_subtype (Verzik_Crab c) n = n\<lparr>nm_verzik_crab := Some c\<rparr>"

fun npc_subtypes_equal :: "npc_subtype option \<Rightarrow> npc_subtype option \<Rightarrow> bool" where
  "npc_subtypes_equal None b = (b = None)"
| "npc_subtypes_equal (Some a) None = False"
| "npc_subtypes_equal (Some (Maiden_Crab a)) (Some (Maiden_Crab b)) =
     (mc_spawn a = mc_spawn b \<and> mc_position a = mc_position b \<and> mc_scuffed a = mc_scuffed b)"
| "npc_subtypes_equal (Some (Nylo a)) (Some (Nylo b)) =
     (ny_wave a = ny_wave b \<and> ny_parent_room_id a = ny_parent_room_id b \<and> ny_big a = ny_big b \<and>
      ny_style a = ny_style b \<and> ny_spawn_type a = ny_spawn_type b)"
| "npc_subtypes_equal (Some (Verzik_Crab a)) (Some (Verzik_Crab b)) =
     (vc_phase a = vc_phase b \<and> vc_spawn a = vc_spawn b)"
| "npc_subtypes_equal (Some _) (Some _) = False"

definition create_npc_update :: "stage \<Rightarrow> int \<Rightarrow> int \<Rightarrow> npc_state \<Rightarrow> npc_subtype option \<Rightarrow> event" where
  "create_npc_update stage tick r s prev_subtype =
     (let n = (blank_npc (ns_id s) r)\<lparr>nm_hitpoints := skill_to_raw (ns_hitpoints s), nm_prayers := ns_prayers s\<rparr>
      in (blank_event NPC_UPDATE stage tick (ns_x s) (ns_y s))
           \<lparr>ev_npc := Some (case ns_subtype s of
              Some st \<Rightarrow> if \<not> npc_subtypes_equal (Some st) prev_subtype then apply_npc_subtype st n else n
            | None \<Rightarrow> n)\<rparr>)"

definition create_npc_attack :: "stage \<Rightarrow> int \<Rightarrow> int \<Rightarrow> npc_state \<Rightarrow> npc_attacked \<Rightarrow> event" where
  "create_npc_attack stage tick r s a =
     (blank_event NPC_ATTACK stage tick (ns_x s) (ns_y s))
       \<lparr>ev_npc := Some (blank_npc (ns_id s) r),
        ev_npc_attack := Some \<lparr>na_attack = nt_type a, na_target = nt_target a\<rparr>\<rparr>"

definition create_npc_state_events ::
    "stage \<Rightarrow> (int, npc_state) omap \<Rightarrow> int list \<Rightarrow> tick_state \<Rightarrow> event list" where
  "create_npc_state_events stage prev_npcs dead ts =
     (let spawned = List.map_filter (\<lambda>e. map_option nm_room_id (ev_npc e)) (get_events_by_type NPC_SPAWN ts)
      in concat (map (\<lambda>(r, s).
           if r \<in> set dead then []
           else (if r \<in> set spawned then []
                 else [create_npc_update stage (ts_tick ts) r s (Option.bind (map_of prev_npcs r) ns_subtype)]) @
                (case ns_attack s of None \<Rightarrow> [] | Some a \<Rightarrow> [create_npc_attack stage (ts_tick ts) r s a]))
         (ts_npcs ts)))"

record resync_context =
  rc_players :: "(string, player_state) omap"
  rc_npcs :: "(int, npc_state) omap"
  rc_graphics :: "graphics_state option"
  rc_dead_players :: "string list"
  rc_dead_npcs :: "int list"

record resync_params =
  rp_slots :: "int \<times> int"
  rp_cooldown :: "int \<Rightarrow> int option"

text \<open>One player of a tick: its state is completed in place and its events are added.\<close>

definition resync_player :: "resync_params \<Rightarrow> stage \<Rightarrow> resync_context \<Rightarrow> string \<Rightarrow> tick_state \<Rightarrow> tick_state" where
  "resync_player pr stage ctx p ts =
     (if p \<in> set (rc_dead_players ctx) then ts
      else case get_player_state p ts of
        None \<Rightarrow> ts
      | Some s \<Rightarrow>
          (let prev = map_of (rc_players ctx) p; s' = resynchronize_player (rp_cooldown pr) (ts_tick ts) s prev
           in add_synthetic_events (create_player_state_events (rp_slots pr) stage (ts_tick ts) p s' prev)
                (ts\<lparr>ts_players := AList.update p (Some s') (ts_players ts)\<rparr>)))"

definition resynchronize :: "resync_params \<Rightarrow> stage \<Rightarrow> resync_context \<Rightarrow> tick_state \<Rightarrow> tick_state" where
  "resynchronize pr stage ctx ts =
     (let ts0 = ts\<lparr>ts_events := filter (\<lambda>(t, _). t \<notin> tick_state_types) (ts_events ts)\<rparr>;
          ts1 = fold (resync_player pr stage ctx) (omap_keys (ts_players ts0)) ts0;
          ts2 = add_synthetic_events (create_npc_state_events stage (rc_npcs ctx) (rc_dead_npcs ctx) ts1) ts1
      in add_synthetic_events (create_graphics_events (ts_graphics ts2) (rc_graphics ctx) stage (ts_tick ts2)) ts2)"

text \<open>An NPC death recorded with ID 0 takes the ID last seen in its room.\<close>

definition fix_death_id :: "(int, npc_state) omap \<Rightarrow> tagged \<Rightarrow> tagged" where
  "fix_death_id prev t =
     (case ev_npc (fst t) of
        None \<Rightarrow> t
      | Some n \<Rightarrow>
          (if nm_id n = 0
           then ((fst t)\<lparr>ev_npc := Some (n\<lparr>nm_id := (case map_of prev (nm_room_id n) of None \<Rightarrow> 0 | Some s \<Rightarrow> ns_id s)\<rparr>)\<rparr>, snd t)
           else t))"

definition fix_death_ids :: "(int, npc_state) omap \<Rightarrow> tick_state \<Rightarrow> tick_state" where
  "fix_death_ids prev ts =
     ts\<lparr>ts_events := map (\<lambda>(t, es). (t, if t = NPC_DEATH then map (fix_death_id prev) es else es)) (ts_events ts)\<rparr>"

definition after_tick :: "tick_state \<Rightarrow> resync_context \<Rightarrow> resync_context" where
  "after_tick ts ctx =
     ctx\<lparr>rc_dead_players :=
          fold (\<lambda>e d. case ev_player e of
                  Some p \<Rightarrow> if pm_name p \<noteq> [] then oset_add (pm_name p) d else d | None \<Rightarrow> d)
            (get_events_by_type PLAYER_DEATH ts) (rc_dead_players ctx),
        rc_dead_npcs :=
          fold (\<lambda>e d. case ev_npc e of Some n \<Rightarrow> oset_add (nm_room_id n) d | None \<Rightarrow> d)
            (get_events_by_type NPC_DEATH ts) (rc_dead_npcs ctx),
        rc_players :=
          fold (\<lambda>(p, s) m. case s of Some s \<Rightarrow> AList.update p s m | None \<Rightarrow> m) (ts_players ts) (rc_players ctx),
        rc_npcs := fold (\<lambda>(r, s). AList.update r s) (ts_npcs ts) (rc_npcs ctx),
        rc_graphics := Some (ts_graphics ts)\<rparr>"

fun resync_from :: "resync_params \<Rightarrow> stage \<Rightarrow> resync_context \<Rightarrow> tick_state option list \<Rightarrow> tick_state option list option" where
  "resync_from pr stage ctx [] = Some []"
| "resync_from pr stage ctx (None # ticks) = map_option (\<lambda>ts. None # ts) (resync_from pr stage ctx ticks)"
| "resync_from pr stage ctx (Some t # ticks) =
     (let t1 = resynchronize pr stage ctx t
      in if list_ex (\<lambda>e. ev_npc e = None) (get_events_by_type NPC_DEATH t1) then None
         else let t2 = fix_death_ids (rc_npcs ctx) t1
           in map_option (\<lambda>ts. Some t2 # ts) (resync_from pr stage (after_tick t2 ctx) ticks))"

definition resynchronize_ticks :: "resync_params \<Rightarrow> stage \<Rightarrow> tick_state option list \<Rightarrow> tick_state option list option" where
  "resynchronize_ticks pr stage ticks =
     resync_from pr stage
       \<lparr>rc_players = [], rc_npcs = [], rc_graphics = None, rc_dead_players = [], rc_dead_npcs = []\<rparr> ticks"

subsection \<open>Events of a tick\<close>

lemma push_event_get:
  "map_of (push_event t m) ty =
     (if ty = ev_type (fst t) then Some ((case map_of m ty of None \<Rightarrow> [] | Some ts \<Rightarrow> ts) @ [t]) else map_of m ty)"
  by (simp add: push_event_def omap.get_put)

lemma get_tagged_by_type_add [simp]:
  "get_tagged_by_type ty (add_tagged_events es ts) =
     get_tagged_by_type ty ts @ filter (\<lambda>t. ev_type (fst t) = ty) es"
proof (induction es arbitrary: ts)
  case (Cons t es)
  have "get_tagged_by_type ty (add_tagged_events [t] ts) = get_tagged_by_type ty ts @ (if ev_type (fst t) = ty then [t] else [])"
    by (auto simp: add_tagged_events_def get_tagged_by_type_def push_event_get)
  with Cons [of "add_tagged_events [t] ts"] show ?case
    by (simp add: add_tagged_events_def)
qed (simp add: add_tagged_events_def)

lemma get_events_by_type_synthetic [simp]:
  "get_events_by_type ty (add_synthetic_events es ts) =
     get_events_by_type ty ts @ filter (\<lambda>e. ev_type e = ty) es"
  by (simp add: get_events_by_type_def add_synthetic_events_def tag_synthetic_def filter_map comp_def)

lemma npc_subtypes_equal_iff: "npc_subtypes_equal a b \<longleftrightarrow> a = b"
  by (induction a b rule: npc_subtypes_equal.induct) auto

lemma get_tagged_by_type_remove_event:
  "i < length (get_tagged_by_type ty ts) \<Longrightarrow>
     get_tagged_by_type ty' (snd (remove_event ty i ts)) =
       (if ty' = ty then take i (get_tagged_by_type ty ts) @ drop (Suc i) (get_tagged_by_type ty ts)
        else get_tagged_by_type ty' ts)"
  by (auto simp: remove_event_def get_tagged_by_type_def omap.get_put delete_conv' Let_def split: option.splits)

lemma add_synthetic_fields [simp]:
  "ts_players (add_synthetic_events es ts) = ts_players ts" "ts_npcs (add_synthetic_events es ts) = ts_npcs ts"
  "ts_tick (add_synthetic_events es ts) = ts_tick ts" "ts_graphics (add_synthetic_events es ts) = ts_graphics ts"
  by (simp_all add: add_synthetic_events_def add_tagged_events_def)

lemma get_player_state_events [simp]:
  "get_player_state p (add_synthetic_events es ts) = get_player_state p ts"
  by (simp add: get_player_state_def)

lemma get_events_players_update [simp]: "get_events_by_type ty (ts\<lparr>ts_players := x\<rparr>) = get_events_by_type ty ts"
  by (simp add: get_events_by_type_def get_tagged_by_type_def)

lemma get_player_state_update:
  "get_player_state p (ts\<lparr>ts_players := AList.update q (Some s) (ts_players ts)\<rparr>) =
     (if p = q then Some s else get_player_state p ts)"
  by (simp add: get_player_state_def omap.get_put)

subsection \<open>Equipment\<close>

definition equipment_ok :: "container \<Rightarrow> bool" where
  "equipment_ok c \<longleftrightarrow> (\<forall>slot it. c slot = Some it \<longrightarrow>
     0 \<le> it_id it \<and> it_id it < 2 ^ 16 \<and> 0 < it_quantity it \<and> it_quantity it < 2 ^ 31)"

lemma equipment_okD:
  "equipment_ok c \<Longrightarrow> c slot = Some it \<Longrightarrow>
     0 \<le> it_id it \<and> it_id it < 2 ^ 16 \<and> 0 < it_quantity it \<and> it_quantity it < 2 ^ 31"
  by (simp add: equipment_ok_def)

lemma slot_deltas_fit:
  assumes "equipment_ok cur" and "equipment_ok prev" and "0 \<le> slot" and "slot < 32"
    and "d \<in> set (slot_deltas slot (prev slot) (cur slot))"
  shows "delta_fits d"
  using assms equipment_okD [OF assms(1), of slot] equipment_okD [OF assms(2), of slot]
  by (cases "cur slot"; cases "prev slot")
    (auto simp: slot_deltas_def item_delta_of_def delta_fits_def Let_def split: if_splits)

lemma slot_deltas_apply:
  assumes "equipment_ok cur" and "equipment_ok prev" and "c slot = prev slot"
  shows "fold apply_delta (slot_deltas slot (prev slot) (cur slot)) c = c(slot := cur slot)"
  using assms equipment_okD [OF assms(1), of slot] equipment_okD [OF assms(2), of slot]
  by (cases "cur slot"; cases "prev slot")
    (auto simp: slot_deltas_def item_delta_of_def apply_delta_def Let_def fun_eq_iff)

lemma slots_deltas_apply:
  assumes "equipment_ok cur" and "equipment_ok prev"
  shows "distinct xs \<Longrightarrow> \<forall>slot \<in> set xs. 0 \<le> slot \<and> slot < 32 \<and> c slot = prev slot \<Longrightarrow>
    fold (\<lambda>raw. apply_delta (delta_from_raw raw))
      (concat (map (\<lambda>slot. map delta_to_raw (slot_deltas slot (prev slot) (cur slot))) xs)) c =
    (\<lambda>slot. if slot \<in> set xs then cur slot else c slot)"
proof (induction xs arbitrary: c)
  case (Cons slot xs)
  let ?ds = "slot_deltas slot (prev slot) (cur slot)"
  have "delta_from_raw (delta_to_raw d) = d" if "d \<in> set ?ds" for d
    using slot_deltas_fit [OF assms _ _ that] Cons.prems(2) by (simp add: delta_to_from)
  then have "fold (\<lambda>raw. apply_delta (delta_from_raw raw)) (map delta_to_raw ?ds) c = fold apply_delta ?ds c"
    by (auto simp: fold_map intro!: fold_cong)
  also have "\<dots> = c(slot := cur slot)"
    using Cons.prems(2) by (intro slot_deltas_apply assms) simp
  finally have step: "fold (\<lambda>raw. apply_delta (delta_from_raw raw)) (map delta_to_raw ?ds) c = c(slot := cur slot)" .
  have "fold (\<lambda>raw. apply_delta (delta_from_raw raw))
      (concat (map (\<lambda>slot. map delta_to_raw (slot_deltas slot (prev slot) (cur slot))) xs)) (c(slot := cur slot)) =
    (\<lambda>s. if s \<in> set xs then cur s else (c(slot := cur slot)) s)"
    using Cons.prems by (intro Cons.IH) auto
  then show ?case
    by (auto simp: step fun_eq_iff)
qed simp

lemma create_equipment_deltas_apply:
  assumes "equipment_ok cur" and "\<forall>c. prev = Some c \<longrightarrow> equipment_ok c"
    and "0 \<le> fst slots" and "snd slots < 32"
  shows "apply_item_deltas (create_equipment_deltas slots cur prev)
      (map_option (\<lambda>c slot. map_option Some (c slot)) prev) =
    (\<lambda>slot. if fst slots \<le> slot \<and> slot \<le> snd slots then cur slot else Option.bind prev (\<lambda>c. c slot))"
proof -
  define pc where "pc = (\<lambda>slot. Option.bind prev (\<lambda>c. c slot))"
  have "equipment_ok pc"
    using assms(2) by (cases prev) (auto simp: pc_def equipment_ok_def)
  from slots_deltas_apply [OF assms(1) this, of "[fst slots..snd slots]" pc] assms(3,4)
  have "fold (\<lambda>raw. apply_delta (delta_from_raw raw)) (create_equipment_deltas slots cur prev) pc =
      (\<lambda>slot. if fst slots \<le> slot \<and> slot \<le> snd slots then cur slot else pc slot)"
    by (auto simp: create_equipment_deltas_def pc_def)
  moreover have "previous_items (map_option (\<lambda>c slot. map_option Some (c slot)) prev) = pc"
    by (cases prev) (auto simp: pc_def previous_items_def split: option.splits)
  moreover have "pc slot = Option.bind prev (\<lambda>c. c slot)" for slot
    by (simp add: pc_def)
  ultimately show ?thesis
    by (simp only: apply_item_deltas_def)
qed

subsection \<open>Merging two views of a tick\<close>

definition merged_player :: "player_state option \<Rightarrow> player_state option \<Rightarrow> player_state option" where
  "merged_player cur other =
     (case (cur, other) of
        (None, so) \<Rightarrow> so
      | (Some c, None) \<Rightarrow> Some c
      | (Some c, Some so) \<Rightarrow>
          Some (if ps_source c = SECONDARY \<and> ps_source so = PRIMARY
                then so\<lparr>ps_attack := ps_attack c, ps_spell := ps_spell c\<rparr> else c))"

lemma get_player_state_merge_player:
  "get_player_state p (merge_player po ts) =
     (if p = fst po then merged_player (get_player_state p ts) (snd po) else get_player_state p ts)"
  by (cases po) (auto simp: merge_player_def merged_player_def get_player_state_update split: option.splits)

lemma get_player_state_merge:
  "distinct (map fst players) \<Longrightarrow>
     get_player_state p (fold merge_player players ts) =
       merged_player (get_player_state p ts) (case map_of players p of Some so \<Rightarrow> so | None \<Rightarrow> None)"
proof (induction players arbitrary: ts)
  case (Cons po players)
  have unseen: "p = fst po \<Longrightarrow> map_of players p = None"
    using Cons.prems by (auto simp: map_of_eq_None_iff)
  show ?case
    using Cons unseen
    by (cases po) (auto simp: get_player_state_merge_player merged_player_def split: option.splits)
qed (auto simp: merged_player_def split: option.splits)

lemma merge_player_fields [simp]:
  "ts_npcs (merge_player po ts) = ts_npcs ts" "ts_events (merge_player po ts) = ts_events ts"
  "ts_graphics (merge_player po ts) = ts_graphics ts" "ts_tick (merge_player po ts) = ts_tick ts"
  by (simp_all add: merge_player_def split: option.splits)

lemma merge_players_fields [simp]:
  "ts_npcs (fold merge_player players ts) = ts_npcs ts \<and> ts_events (fold merge_player players ts) = ts_events ts \<and>
   ts_graphics (fold merge_player players ts) = ts_graphics ts \<and> ts_tick (fold merge_player players ts) = ts_tick ts"
  by (induction players arbitrary: ts) simp_all

lemma map_of_fold_merge_npc:
  "map_of (fold merge_npc others npcs) r = (case map_of npcs r of Some s \<Rightarrow> Some s | None \<Rightarrow> map_of others r)"
proof (induction others arbitrary: npcs)
  case (Cons rs others)
  have "map_of (merge_npc rs npcs) r = (case map_of npcs r of Some s \<Rightarrow> Some s | None \<Rightarrow> map_of [rs] r)"
    by (cases rs) (auto simp: merge_npc_def map_of_snoc_new map_add_def split: option.splits)
  with Cons show ?case
    by (cases rs) (auto split: option.splits)
qed (auto split: option.splits)

subsection \<open>Canonical events of a tick\<close>

lemma player_events_update_only:
  "filter (\<lambda>e. ev_type e = PLAYER_UPDATE) (create_player_state_events slots stage tick p s prev) =
     [create_update_event slots stage tick p s prev]"
  by (auto simp: create_player_state_events_def create_update_event_def create_attack_event_def
      create_spell_event_def base_player_event_def blank_event_def split: option.splits)

lemma npc_event_types [simp]:
  "ev_type (create_npc_update stage tick r s prev) = NPC_UPDATE"
  "ev_type (create_npc_attack stage tick r s a) = NPC_ATTACK"
  by (simp_all add: create_npc_update_def create_npc_attack_def blank_event_def Let_def)

lemma npc_events_no_update:
  "filter (\<lambda>e. ev_type e = PLAYER_UPDATE) (create_npc_state_events stage prev dead ts) = []"
  by (auto simp: create_npc_state_events_def filter_empty_conv Let_def split: if_splits option.splits)

lemma graphics_event_types: "e \<in> set (create_graphics_events g prev stage tick) \<Longrightarrow> ev_type e \<in> graphics_types"
proof -
  assume "e \<in> set (create_graphics_events g prev stage tick)"
  then consider "rendered g stage tick G_MAIDEN_BLOOD_SPLATS TOB_MAIDEN_BLOOD_SPLATS write_coords = Some e"
    | "rendered g stage tick G_VERZIK_YELLOWS TOB_VERZIK_YELLOWS write_coords = Some e"
    | "rendered g stage tick G_SOTE_OVERWORLD_TILES TOB_SOTE_MAZE_PATH write_tiles = Some e"
    by (auto simp: create_graphics_events_eq split: option.splits)
  then show ?thesis
    by cases (auto simp: rendered_def write_coords_def write_tiles_def blank_event_def graphics_types_def)
qed

lemma graphics_events_no_update:
  "filter (\<lambda>e. ev_type e = PLAYER_UPDATE) (create_graphics_events g prev stage tick) = []"
  using graphics_event_types by (fastforce simp: filter_empty_conv graphics_types_def)

text \<open>The update event a living player of the tick gets, if any.\<close>

definition player_update :: "resync_params \<Rightarrow> stage \<Rightarrow> resync_context \<Rightarrow> int \<Rightarrow> string \<times> player_state option \<Rightarrow> event option" where
  "player_update pr stage ctx tick ps =
     (if fst ps \<in> set (rc_dead_players ctx) then None
      else map_option (\<lambda>s. create_update_event (rp_slots pr) stage tick (fst ps)
             (resynchronize_player (rp_cooldown pr) tick s (map_of (rc_players ctx) (fst ps)))
             (map_of (rc_players ctx) (fst ps))) (snd ps))"

lemma resync_player_tick [simp]: "ts_tick (resync_player pr stage ctx p ts) = ts_tick ts"
  by (simp add: resync_player_def Let_def split: option.splits)

lemma get_player_state_resync_other:
  "p \<noteq> q \<Longrightarrow> get_player_state q (resync_player pr stage ctx p ts) = get_player_state q ts"
  by (auto simp: resync_player_def Let_def get_player_state_update split: option.splits)

lemma resync_player_updates:
  "get_events_by_type PLAYER_UPDATE (resync_player pr stage ctx p ts) =
     get_events_by_type PLAYER_UPDATE ts @
     (case player_update pr stage ctx (ts_tick ts) (p, get_player_state p ts) of None \<Rightarrow> [] | Some e \<Rightarrow> [e])"
  by (auto simp: resync_player_def player_update_def player_events_update_only Let_def split: option.splits)

lemma resync_players_updates:
  "distinct ps \<Longrightarrow>
     get_events_by_type PLAYER_UPDATE (fold (resync_player pr stage ctx) ps ts) =
       get_events_by_type PLAYER_UPDATE ts @
       List.map_filter (\<lambda>p. player_update pr stage ctx (ts_tick ts) (p, get_player_state p ts)) ps"
proof (induction ps arbitrary: ts)
  case (Cons p ps)
  have "List.map_filter (\<lambda>q. player_update pr stage ctx (ts_tick ts) (q, get_player_state q (resync_player pr stage ctx p ts))) ps =
      List.map_filter (\<lambda>q. player_update pr stage ctx (ts_tick ts) (q, get_player_state q ts)) ps"
  proof (rule map_filter_cong)
    fix q
    assume "q \<in> set ps"
    with Cons.prems have "p \<noteq> q" by auto
    then show "player_update pr stage ctx (ts_tick ts) (q, get_player_state q (resync_player pr stage ctx p ts)) =
        player_update pr stage ctx (ts_tick ts) (q, get_player_state q ts)"
      by (simp add: get_player_state_resync_other)
  qed
  with Cons show ?case
    by (auto simp: resync_player_updates split: option.splits)
qed simp

lemma get_events_by_type_cleared:
  "ty \<in> tick_state_types \<Longrightarrow>
     get_events_by_type ty (ts\<lparr>ts_events := filter (\<lambda>(t, _). t \<notin> tick_state_types) (ts_events ts)\<rparr>) = []"
proof -
  assume "ty \<in> tick_state_types"
  then have "map_of (filter (\<lambda>(t, _). t \<notin> tick_state_types) (ts_events ts)) ty = None"
    by (auto simp: map_of_eq_None_iff)
  then show ?thesis by (simp add: get_events_by_type_def get_tagged_by_type_def)
qed

lemma resynchronize_updates:
  assumes "distinct (map fst (ts_players ts))"
  shows "get_events_by_type PLAYER_UPDATE (resynchronize pr stage ctx ts) =
    List.map_filter (player_update pr stage ctx (ts_tick ts)) (ts_players ts)"
proof -
  let ?ts0 = "ts\<lparr>ts_events := filter (\<lambda>(t, _). t \<notin> tick_state_types) (ts_events ts)\<rparr>"
  have gone: "get_events_by_type PLAYER_UPDATE ?ts0 = []"
    by (rule get_events_by_type_cleared) (simp add: type_classes)
  have players: "get_player_state p ?ts0 = so" if "(p, so) \<in> set (ts_players ts)" for p so
    using assms that by (simp add: get_player_state_def split: option.splits)
  have "get_events_by_type PLAYER_UPDATE (resynchronize pr stage ctx ts) =
      List.map_filter (\<lambda>p. player_update pr stage ctx (ts_tick ts) (p, get_player_state p ?ts0)) (map fst (ts_players ts))"
    using assms by (simp add: resynchronize_def Let_def omap_keys_def npc_events_no_update graphics_events_no_update
      resync_players_updates gone)
  also have "\<dots> = List.map_filter (\<lambda>ps. player_update pr stage ctx (ts_tick ts) (fst ps, get_player_state (fst ps) ?ts0)) (ts_players ts)"
    by (simp add: List.map_filter_def filter_map comp_def)
  also have "\<dots> = List.map_filter (player_update pr stage ctx (ts_tick ts)) (ts_players ts)"
    by (rule map_filter_cong) (auto simp: players)
  finally show ?thesis .
qed

text \<open>Canonical events are of tick-state types, so the other events of the tick stay as they were.\<close>

lemma player_event_types: "e \<in> set (create_player_state_events slots stage tick p s prev) \<Longrightarrow> ev_type e \<in> tick_state_types"
  by (auto simp: create_player_state_events_def create_update_event_def create_attack_event_def
      create_spell_event_def base_player_event_def blank_event_def type_classes split: option.splits)

lemma npc_state_event_types: "e \<in> set (create_npc_state_events stage prev dead ts) \<Longrightarrow> ev_type e \<in> tick_state_types"
  by (auto simp: create_npc_state_events_def type_classes Let_def split: if_splits option.splits)

lemma map_of_cleared: "ty \<notin> S \<Longrightarrow> map_of (filter (\<lambda>(t, _). t \<notin> S) m) ty = map_of m ty"
  by (induction m) auto

lemma get_other_resync_player:
  assumes "ty \<notin> tick_state_types"
  shows "get_events_by_type ty (resync_player pr stage ctx p ts) = get_events_by_type ty ts"
proof -
  have "filter (\<lambda>e. ev_type e = ty) (create_player_state_events slots stage tick p s prev) = []" for slots tick s prev
    unfolding filter_empty_conv using player_event_types assms by blast
  then show ?thesis
    by (auto simp: resync_player_def Let_def split: option.splits)
qed

lemma resynchronize_other_events:
  assumes "ty \<notin> tick_state_types"
  shows "get_events_by_type ty (resynchronize pr stage ctx ts) = get_events_by_type ty ts"
proof -
  have "get_events_by_type ty (fold (resync_player pr stage ctx) ps t) = get_events_by_type ty t" for ps t
    by (induction ps arbitrary: t) (simp_all add: get_other_resync_player [OF assms])
  moreover have "filter (\<lambda>e. ev_type e = ty) (create_npc_state_events stage prev dead t) = []" for prev dead t
    using npc_state_event_types assms by (auto simp: filter_empty_conv)
  moreover have "filter (\<lambda>e. ev_type e = ty) (create_graphics_events g prev stage tick) = []" for g prev tick
    using graphics_event_types assms by (fastforce simp: filter_empty_conv tick_state_types_def)
  moreover have "get_events_by_type ty (ts\<lparr>ts_events := filter (\<lambda>(t, _). t \<notin> tick_state_types) (ts_events ts)\<rparr>) =
      get_events_by_type ty ts"
    using assms by (simp add: get_events_by_type_def get_tagged_by_type_def map_of_cleared)
  ultimately show ?thesis
    by (simp add: resynchronize_def Let_def)
qed

text \<open>The states after resynchronizing.\<close>

lemma get_player_state_resync_player:
  "get_player_state q (resync_player pr stage ctx p ts) =
     (if q = p \<and> p \<notin> set (rc_dead_players ctx)
      then map_option (\<lambda>s. resynchronize_player (rp_cooldown pr) (ts_tick ts) s (map_of (rc_players ctx) p)) (get_player_state p ts)
      else get_player_state q ts)"
  by (auto simp: resync_player_def Let_def get_player_state_update split: option.splits)

lemma keys_resync_player: "map fst (ts_players (resync_player pr stage ctx p ts)) = map fst (ts_players ts)"
proof -
  have "p \<in> set (map fst (ts_players ts))" if "get_player_state p ts = Some s" for s
    using that by (auto simp: get_player_state_def image_iff dest!: map_of_SomeD split: option.splits) force
  then show ?thesis
    by (auto simp: resync_player_def Let_def update_keys split: option.splits)
qed

lemma get_player_state_resync_players:
  "distinct ps \<Longrightarrow>
     get_player_state q (fold (resync_player pr stage ctx) ps ts) =
       (if q \<in> set ps \<and> q \<notin> set (rc_dead_players ctx)
        then map_option (\<lambda>s. resynchronize_player (rp_cooldown pr) (ts_tick ts) s (map_of (rc_players ctx) q)) (get_player_state q ts)
        else get_player_state q ts)"
proof (induction ps arbitrary: ts)
  case (Cons p ps)
  then show ?case
    by (auto simp: get_player_state_resync_player)
qed simp

lemma get_player_state_resynchronize:
  assumes "distinct (map fst (ts_players ts))"
  shows "get_player_state q (resynchronize pr stage ctx ts) =
    (if q \<notin> set (rc_dead_players ctx)
     then map_option (\<lambda>s. resynchronize_player (rp_cooldown pr) (ts_tick ts) s (map_of (rc_players ctx) q)) (get_player_state q ts)
     else get_player_state q ts)"
proof -
  have "get_player_state q ts = None" if "q \<notin> set (map fst (ts_players ts))"
    using that by (auto simp: get_player_state_def split: option.splits dest!: map_of_SomeD key_mem)
  then show ?thesis
    using assms
    by (auto simp: resynchronize_def Let_def get_player_state_resync_players omap_keys_def)
      (auto simp: get_player_state_def)
qed

lemma keys_resynchronize: "map fst (ts_players (resynchronize pr stage ctx ts)) = map fst (ts_players ts)"
proof -
  have "map fst (ts_players (fold (resync_player pr stage ctx) ps t)) = map fst (ts_players t)" for ps t
    by (induction ps arbitrary: t) (simp_all add: keys_resync_player)
  then show ?thesis by (simp add: resynchronize_def Let_def)
qed

lemma resynchronize_equipment [simp]: "ps_equipment (resynchronize_player cd tick s prev) = ps_equipment s"
  by (simp add: resynchronize_player_def Let_def)

lemma fix_death_ids_players [simp]: "ts_players (fix_death_ids prev ts) = ts_players ts"
  by (simp add: fix_death_ids_def)

lemma fix_death_ids_other: "ty \<noteq> NPC_DEATH \<Longrightarrow> get_events_by_type ty (fix_death_ids prev ts) = get_events_by_type ty ts"
proof -
  assume "ty \<noteq> NPC_DEATH"
  then have "map_of (map (\<lambda>(t, es). (t, if t = NPC_DEATH then map (fix_death_id prev) es else es)) m) ty = map_of m ty" for m
    by (induction m) auto
  then show ?thesis by (simp add: fix_death_ids_def get_events_by_type_def get_tagged_by_type_def)
qed

subsection \<open>The canonical timeline\<close>

text \<open>What a reader of the canonical events makes of one player's equipment.\<close>

definition replay_update :: "string \<Rightarrow> event \<Rightarrow> container \<Rightarrow> container" where
  "replay_update p e c =
     (case ev_player e of
        None \<Rightarrow> c
      | Some m \<Rightarrow> if pm_name m = p then apply_item_deltas (pm_deltas m) (Some (\<lambda>slot. map_option Some (c slot))) else c)"

definition replay_ticks :: "string \<Rightarrow> tick_state option list \<Rightarrow> container \<Rightarrow> container" where
  "replay_ticks p ticks =
     fold (\<lambda>t. case t of None \<Rightarrow> id | Some ts \<Rightarrow> fold (replay_update p) (get_events_by_type PLAYER_UPDATE ts)) ticks"

definition updates_player :: "string \<Rightarrow> event \<Rightarrow> bool" where
  "updates_player p e \<longleftrightarrow> (case ev_player e of None \<Rightarrow> False | Some m \<Rightarrow> pm_name m = p)"

definition tick_ok :: "int \<times> int \<Rightarrow> tick_state \<Rightarrow> bool" where
  "tick_ok slots ts \<longleftrightarrow> distinct (map fst (ts_players ts)) \<and>
     (\<forall>p s. get_player_state p ts = Some s \<longrightarrow> equipment_ok (ps_equipment s) \<and>
        (\<forall>slot. ps_equipment s slot \<noteq> None \<longrightarrow> fst slots \<le> slot \<and> slot \<le> snd slots))"

lemma updates_of_player:
  assumes "distinct (map fst (ts_players ts))"
  shows "filter (updates_player p) (get_events_by_type PLAYER_UPDATE (resynchronize pr stage ctx ts)) =
    (case player_update pr stage ctx (ts_tick ts) (p, get_player_state p ts) of None \<Rightarrow> [] | Some e \<Rightarrow> [e])"
proof -
  have name: "updates_player p e \<longleftrightarrow> q = p" if "player_update pr stage ctx tick (q, so) = Some e" for q so e tick
    using that by (auto simp: player_update_def create_update_event_def updates_player_def split: if_splits)
  have "filter (updates_player p) (List.map_filter (player_update pr stage ctx tick) players) =
      (case map_of players p of
         None \<Rightarrow> []
       | Some so \<Rightarrow> (case player_update pr stage ctx tick (p, so) of None \<Rightarrow> [] | Some e \<Rightarrow> [e]))"
    if "distinct (map fst players)" for players tick
    using that
  proof (induction players)
    case (Cons qs players)
    obtain q so where qs: "qs = (q, so)" by (cases qs)
    have "p \<notin> set (map fst players) \<Longrightarrow> map_of players p = None" by (simp add: map_of_eq_None_iff)
    with Cons name [of tick q so] show ?case
      by (auto simp: qs split: option.splits)
  qed simp
  moreover have "player_update pr stage ctx tick (p, None) = None" for tick
    by (simp add: player_update_def)
  ultimately show ?thesis
    unfolding resynchronize_updates [OF assms] using assms
    by (simp add: get_player_state_def split: option.splits)
qed

lemma replay_filter: "fold (replay_update p) es c = fold (replay_update p) (filter (updates_player p) es) c"
  by (induction es arbitrary: c) (auto simp: replay_update_def updates_player_def split: option.splits)

lemma create_update_deltas:
  "ev_player (create_update_event slots stage tick p s prev) =
     Some \<lparr>pm_name = p, pm_source = ps_source s, pm_prayers = ps_prayers s, pm_snapshot = False,
        pm_deltas = create_equipment_deltas slots (ps_equipment s) (map_option ps_equipment prev),
        pm_off_cooldown = (case ps_off_cooldown s of None \<Rightarrow> 0 | Some t \<Rightarrow> t),
        pm_stats = stats_to_raw (ps_stats s)\<rparr>"
  by (simp add: create_update_event_def)

text \<open>The reader's container before a tick, when it has followed the player so far.\<close>

definition follows :: "int \<times> int \<Rightarrow> string \<Rightarrow> resync_context \<Rightarrow> container \<Rightarrow> bool" where
  "follows slots p ctx c \<longleftrightarrow>
     c = (case map_of (rc_players ctx) p of None \<Rightarrow> Map.empty | Some s \<Rightarrow> ps_equipment s) \<and> equipment_ok c \<and>
     (\<forall>slot. c slot \<noteq> None \<longrightarrow> fst slots \<le> slot \<and> slot \<le> snd slots)"

lemma replay_tick:
  assumes "tick_ok (rp_slots pr) ts" and "follows (rp_slots pr) p ctx c" and "p \<notin> set (rc_dead_players ctx)"
    and "0 \<le> fst (rp_slots pr)" and "snd (rp_slots pr) < 32"
  shows "fold (replay_update p) (get_events_by_type PLAYER_UPDATE (resynchronize pr stage ctx ts)) c =
    (case get_player_state p ts of None \<Rightarrow> c | Some s \<Rightarrow> ps_equipment s)"
proof (cases "get_player_state p ts")
  case None
  with assms(1) show ?thesis
    by (subst replay_filter) (simp add: updates_of_player tick_ok_def player_update_def)
next
  case (Some s)
  let ?prev = "map_option ps_equipment (map_of (rc_players ctx) p)"
  from assms(1) Some have eq: "equipment_ok (ps_equipment s)"
    and rng: "\<And>slot. ps_equipment s slot \<noteq> None \<Longrightarrow> fst (rp_slots pr) \<le> slot \<and> slot \<le> snd (rp_slots pr)"
    by (simp_all add: tick_ok_def)
  have c: "c = (case ?prev of None \<Rightarrow> Map.empty | Some e \<Rightarrow> e)" "equipment_ok c"
    "\<And>slot. c slot \<noteq> None \<Longrightarrow> fst (rp_slots pr) \<le> slot \<and> slot \<le> snd (rp_slots pr)"
    using assms(2) by (auto simp: follows_def split: option.splits)
  have prev: "\<forall>e. ?prev = Some e \<longrightarrow> equipment_ok e" using c(1,2) by auto
  have "previous_items (map_option (\<lambda>c slot. map_option Some (c slot)) ?prev) = c"
    using c(1) by (cases ?prev) (auto simp: previous_items_def split: option.splits)
  then have "apply_item_deltas ds (Some (\<lambda>slot. map_option Some (c slot))) =
      apply_item_deltas ds (map_option (\<lambda>c slot. map_option Some (c slot)) ?prev)" for ds
    by (simp add: apply_item_deltas_def)
  then have "apply_item_deltas (create_equipment_deltas (rp_slots pr) (ps_equipment s) ?prev)
      (Some (\<lambda>slot. map_option Some (c slot))) =
      (\<lambda>slot. if fst (rp_slots pr) \<le> slot \<and> slot \<le> snd (rp_slots pr) then ps_equipment s slot
         else Option.bind ?prev (\<lambda>c. c slot))"
    using create_equipment_deltas_apply [OF eq prev assms(4,5)] by simp
  also have "\<dots> = ps_equipment s"
  proof
    fix slot
    have "Option.bind ?prev (\<lambda>c. c slot) = c slot" using c(1) by (cases ?prev) auto
    with rng [of slot] c(3) [of slot]
    show "(if fst (rp_slots pr) \<le> slot \<and> slot \<le> snd (rp_slots pr) then ps_equipment s slot
         else Option.bind ?prev (\<lambda>c. c slot)) = ps_equipment s slot"
      by (cases "ps_equipment s slot"; cases "c slot") auto
  qed
  finally show ?thesis
    using assms(1,3) Some
    by (subst replay_filter)
      (simp add: updates_of_player tick_ok_def player_update_def replay_update_def create_update_deltas)
qed

lemma rc_players_after:
  assumes "distinct (map fst (ts_players ts))"
  shows "map_of (rc_players (after_tick ts ctx)) p =
    (case get_player_state p ts of Some s \<Rightarrow> Some s | None \<Rightarrow> map_of (rc_players ctx) p)"
proof -
  have "map_of (fold (\<lambda>(p, s) m. case s of Some s \<Rightarrow> AList.update p s m | None \<Rightarrow> m) players m) p =
      (case map_of players p of Some (Some s) \<Rightarrow> Some s | _ \<Rightarrow> map_of m p)"
    if "distinct (map fst players)" for players :: "(string \<times> player_state option) list" and m
    using that
  proof (induction players arbitrary: m)
    case (Cons qs players)
    obtain q so where qs: "qs = (q, so)" by (cases qs)
    have "p \<notin> set (map fst players) \<Longrightarrow> map_of players p = None" by (simp add: map_of_eq_None_iff)
    with Cons show ?case
      by (auto simp: qs omap.get_put split: option.splits)
  qed simp
  from this [OF assms, of "rc_players ctx"] show ?thesis
    by (auto simp: after_tick_def get_player_state_def split: option.splits)
qed

definition dies_in :: "string \<Rightarrow> tick_state \<Rightarrow> bool" where
  "dies_in p ts \<longleftrightarrow> p \<noteq> [] \<and>
     list_ex (\<lambda>e. map_option pm_name (ev_player e) = Some p) (get_events_by_type PLAYER_DEATH ts)"

lemma rc_dead_after:
  "p \<in> set (rc_dead_players (after_tick ts ctx)) \<longleftrightarrow> p \<in> set (rc_dead_players ctx) \<or> dies_in p ts"
proof -
  have "p \<in> set (fold (\<lambda>e d. case ev_player e of
            Some m \<Rightarrow> if pm_name m \<noteq> [] then oset_add (pm_name m) d else d | None \<Rightarrow> d) es d) \<longleftrightarrow>
      p \<in> set d \<or> (p \<noteq> [] \<and> list_ex (\<lambda>e. map_option pm_name (ev_player e) = Some p) es)" for es d
    by (induction es arbitrary: d) (auto split: option.splits)
  then show ?thesis by (simp add: after_tick_def dies_in_def)
qed

lemma dies_in_resynchronized: "dies_in p (fix_death_ids prev (resynchronize pr stage ctx ts)) = dies_in p ts"
  by (simp add: dies_in_def fix_death_ids_other resynchronize_other_events type_classes)

text \<open>
  One tick and the rest: what a reader of the canonical events holds for a player at a tick, as long
  as the player has not died before.
\<close>

lemma resync_from_replay:
  assumes "resync_from pr stage ctx ticks = Some out"
    and "\<forall>ts \<in> set ticks. \<forall>t. ts = Some t \<longrightarrow> tick_ok (rp_slots pr) t"
    and "0 \<le> fst (rp_slots pr)" and "snd (rp_slots pr) < 32"
    and "follows (rp_slots pr) p ctx c" and "p \<notin> set (rc_dead_players ctx)"
    and "i < length ticks" and "ticks ! i = Some t" and "get_player_state p t = Some s"
    and "\<forall>j < i. \<forall>u. ticks ! j = Some u \<longrightarrow> \<not> dies_in p u"
  shows "replay_ticks p (take (Suc i) out) c = ps_equipment s"
  using assms
proof (induction pr stage ctx ticks arbitrary: c i out rule: resync_from.induct)
  case (2 pr stage ctx ticks)
  from "2.prems"(8) obtain k where i: "i = Suc k" by (cases i) auto
  from "2.prems"(1) obtain out' where out': "resync_from pr stage ctx ticks = Some out'" "out = None # out'" by auto
  have "\<forall>j < k. \<forall>u. ticks ! j = Some u \<longrightarrow> \<not> dies_in p u"
    using "2.prems"(10) unfolding i by (metis Suc_less_eq nth_Cons_Suc)
  with "2.prems" i out' have "replay_ticks p (take (Suc k) out') c = ps_equipment s"
    by (intro "2.IH") auto
  with i out' show ?case by (simp add: replay_ticks_def)
next
  case (3 pr stage ctx t0 ticks)
  let ?t1 = "resynchronize pr stage ctx t0"
  let ?t2 = "fix_death_ids (rc_npcs ctx) ?t1"
  from "3.prems"(1) obtain out' where
    fine: "\<not> list_ex (\<lambda>e. ev_npc e = None) (get_events_by_type NPC_DEATH ?t1)"
    and out': "resync_from pr stage (after_tick ?t2 ctx) ticks = Some out'" "out = Some ?t2 # out'"
    by (auto simp: Let_def split: if_splits)
  have ok: "tick_ok (rp_slots pr) t0" using "3.prems"(2) by auto
  then have dk: "distinct (map fst (ts_players t0))" by (simp add: tick_ok_def)
  let ?c' = "case get_player_state p t0 of None \<Rightarrow> c | Some s \<Rightarrow> ps_equipment s"
  have step: "fold (replay_update p) (get_events_by_type PLAYER_UPDATE ?t2) c = ?c'"
    using replay_tick [OF ok "3.prems"(5,6,3,4)] by (simp add: fix_death_ids_other)
  show ?case
  proof (cases i)
    case 0
    with "3.prems"(8,9) out' step show ?thesis by (simp add: replay_ticks_def)
  next
    case (Suc k)
    have alive: "\<not> dies_in p t0" using "3.prems"(10) Suc by fastforce
    have "get_player_state p ?t2 =
        map_option (\<lambda>s. resynchronize_player (rp_cooldown pr) (ts_tick t0) s (map_of (rc_players ctx) p)) (get_player_state p t0)"
      using get_player_state_resynchronize [OF dk, of p pr stage ctx] "3.prems"(6)
      by (simp add: get_player_state_def)
    moreover have "distinct (map fst (ts_players ?t2))"
      using dk by (simp add: keys_resynchronize)
    ultimately have "follows (rp_slots pr) p (after_tick ?t2 ctx) ?c'"
      using "3.prems"(5) ok
      by (auto simp: follows_def rc_players_after tick_ok_def split: option.splits)
    moreover have "p \<notin> set (rc_dead_players (after_tick ?t2 ctx))"
      using "3.prems"(6) alive by (simp add: rc_dead_after dies_in_resynchronized)
    moreover have "\<forall>j < k. \<forall>u. ticks ! j = Some u \<longrightarrow> \<not> dies_in p u"
      using "3.prems"(10) unfolding Suc by (metis Suc_less_eq nth_Cons_Suc)
    ultimately have "replay_ticks p (take (Suc k) out') ?c' = ps_equipment s"
      using "3.prems" Suc out'(1) fine by (intro "3.IH" [OF refl _ refl]) auto
    with Suc out' step show ?thesis by (simp add: replay_ticks_def)
  qed
qed simp

lemma resync_from_length: "resync_from pr stage ctx ticks = Some out \<Longrightarrow> length out = length ticks"
  by (induction pr stage ctx ticks arbitrary: out rule: resync_from.induct) (auto simp: Let_def split: if_splits)

text \<open>Once a player has died, the timeline has no further update of it.\<close>

definition silent :: "string \<Rightarrow> tick_state option \<Rightarrow> bool" where
  "silent p t \<longleftrightarrow> (case t of None \<Rightarrow> True
     | Some ts \<Rightarrow> filter (updates_player p) (get_events_by_type PLAYER_UPDATE ts) = [])"

lemma silent_tick:
  assumes "distinct (map fst (ts_players ts))" and "p \<in> set (rc_dead_players ctx)"
  shows "silent p (Some (fix_death_ids prev (resynchronize pr stage ctx ts)))"
  using assms by (simp add: silent_def fix_death_ids_other updates_of_player player_update_def)

lemma resync_from_silent:
  assumes "resync_from pr stage ctx ticks = Some out"
    and "\<forall>ts \<in> set ticks. \<forall>t. ts = Some t \<longrightarrow> distinct (map fst (ts_players t))"
    and "j < length ticks"
    and "p \<in> set (rc_dead_players ctx) \<or> (\<exists>i < j. \<exists>t. ticks ! i = Some t \<and> dies_in p t)"
  shows "silent p (out ! j)"
  using assms
proof (induction pr stage ctx ticks arbitrary: j out rule: resync_from.induct)
  case (2 pr stage ctx ticks)
  from "2.prems"(1) obtain out' where out': "resync_from pr stage ctx ticks = Some out'" "out = None # out'" by auto
  show ?case
  proof (cases j)
    case (Suc k)
    have "p \<in> set (rc_dead_players ctx) \<or> (\<exists>i < k. \<exists>t. ticks ! i = Some t \<and> dies_in p t)"
      using "2.prems"(4) unfolding Suc by (auto simp: less_Suc_eq_0_disj)
    with "2.prems" Suc out'(1) have "silent p (out' ! k)" by (intro "2.IH") auto
    with Suc out' show ?thesis by simp
  qed (simp add: out' silent_def)
next
  case (3 pr stage ctx t0 ticks)
  let ?t1 = "resynchronize pr stage ctx t0"
  let ?t2 = "fix_death_ids (rc_npcs ctx) ?t1"
  from "3.prems"(1) obtain out' where
    fine: "\<not> list_ex (\<lambda>e. ev_npc e = None) (get_events_by_type NPC_DEATH ?t1)"
    and out': "resync_from pr stage (after_tick ?t2 ctx) ticks = Some out'" "out = Some ?t2 # out'"
    by (auto simp: Let_def split: if_splits)
  have dk: "distinct (map fst (ts_players t0))" using "3.prems"(2) by simp
  show ?case
  proof (cases j)
    case 0
    with "3.prems"(4) have "p \<in> set (rc_dead_players ctx)" by simp
    with silent_tick [OF dk] out'(2) 0 show ?thesis by simp
  next
    case (Suc k)
    have "p \<in> set (rc_dead_players (after_tick ?t2 ctx)) \<or> (\<exists>i < k. \<exists>t. ticks ! i = Some t \<and> dies_in p t)"
      using "3.prems"(4) unfolding Suc rc_dead_after dies_in_resynchronized by (auto simp: less_Suc_eq_0_disj)
    with "3.prems" Suc out'(1) fine have "silent p (out' ! k)"
      by (intro "3.IH" [OF refl _ refl]) auto
    with Suc out' show ?thesis by simp
  qed
qed simp

subsection \<open>Properties\<close>

text \<open>The equipment deltas written for a state against the previous one turn the previous equipment
  into the state's, slot by slot, and touch nothing outside the equipment slots; against no previous
  state they build the equipment from nothing.\<close>

theorem equipment_deltas_reproduce:
  assumes "equipment_ok cur" and "\<forall>c. prev = Some c \<longrightarrow> equipment_ok c"
    and "0 \<le> fst slots" and "snd slots < 32"
  shows "apply_item_deltas (create_equipment_deltas slots cur prev)
      (map_option (\<lambda>c slot. map_option Some (c slot)) prev) =
    (\<lambda>slot. if fst slots \<le> slot \<and> slot \<le> snd slots then cur slot else Option.bind prev (\<lambda>c. c slot))"
  by (rule create_equipment_deltas_apply [OF assms])

text \<open>C24: a reader that applies the equipment deltas of the canonical timeline from its beginning holds,
  at every tick on which a player is present, exactly that player's equipment, up to and including the
  tick on which the player dies.\<close>

theorem canonical_equipment_replay:
  assumes "resynchronize_ticks pr stage ticks = Some out"
    and "\<forall>ts \<in> set ticks. \<forall>t. ts = Some t \<longrightarrow> tick_ok (rp_slots pr) t"
    and "0 \<le> fst (rp_slots pr)" and "snd (rp_slots pr) < 32"
    and "i < length ticks" and "ticks ! i = Some t" and "get_player_state p t = Some s"
    and "\<forall>j < i. \<forall>u. ticks ! j = Some u \<longrightarrow> \<not> dies_in p u"
  shows "replay_ticks p (take (Suc i) out) Map.empty = ps_equipment s"
  by (rule resync_from_replay [OF assms(1) [unfolded resynchronize_ticks_def] assms(2-4) _ _ assms(5-8)])
    (simp_all add: follows_def equipment_ok_def)

text \<open>After its death a player has no update event on any later tick of the canonical timeline, whose
  length is that of the timeline it was made from.\<close>

theorem canonical_dead_silent:
  assumes "resynchronize_ticks pr stage ticks = Some out"
    and "\<forall>ts \<in> set ticks. \<forall>t. ts = Some t \<longrightarrow> distinct (map fst (ts_players t))"
    and "i < j" and "j < length ticks" and "ticks ! i = Some t" and "dies_in p t"
  shows "silent p (out ! j) \<and> length out = length ticks"
  using resync_from_silent [OF assms(1) [unfolded resynchronize_ticks_def] assms(2,4)] assms(3,5,6)
    resync_from_length [OF assms(1) [unfolded resynchronize_ticks_def]] by blast

text \<open>C35: merging another view of a tick keeps every player and NPC that either view has: a player seen
  by both keeps the base view unless only the other view is first-hand, and even then keeps the base's
  attack and spell; an NPC seen by both keeps the base view; graphics are united. The events of
  the tick stay as they are: the comment of \<^verbatim>\<open>TickState.merge\<close> says that it adds those of the other view, which the
  consolidator does instead.\<close>

theorem merge_ticks_combines:
  assumes "distinct (map fst (ts_players other))" and "distinct (map fst (ts_graphics other))"
  shows "get_player_state p (merge_ticks ts other) = merged_player (get_player_state p ts) (get_player_state p other) \<and>
    get_npc_state r (merge_ticks ts other) =
      (case get_npc_state r ts of Some s \<Rightarrow> Some s | None \<Rightarrow> get_npc_state r other) \<and>
    seen_at (ts_graphics (merge_ticks ts other)) g k =
      (case seen_at (ts_graphics ts) g k of Some c \<Rightarrow> Some c | None \<Rightarrow> seen_at (ts_graphics other) g k) \<and>
    ts_events (merge_ticks ts other) = ts_events ts"
proof -
  have "get_player_state p (merge_ticks ts other) = get_player_state p (fold merge_player (ts_players other) ts)"
    by (simp add: merge_ticks_def Let_def get_player_state_def)
  also have "\<dots> = merged_player (get_player_state p ts) (get_player_state p other)"
    unfolding get_player_state_merge [OF assms(1)]
    by (simp add: get_player_state_def split: option.splits)
  finally have player: "get_player_state p (merge_ticks ts other) =
      merged_player (get_player_state p ts) (get_player_state p other)" .
  have npc: "get_npc_state r (merge_ticks ts other) =
      (case get_npc_state r ts of Some s \<Rightarrow> Some s | None \<Rightarrow> get_npc_state r other)"
    unfolding get_npc_state_def merge_ticks_def Let_def by (simp add: map_of_fold_merge_npc)
  show ?thesis
    using player npc by (simp add: merge_ticks_def Let_def merge_graphics_seen [OF assms(2)])
qed

text \<open>Resynchronizing a tick replaces its tick-state events by canonical ones: the player updates are
  exactly one for each living player present, in the order of the players, and all events that are not
  tick state are as before.\<close>

theorem resynchronize_canonical:
  assumes "distinct (map fst (ts_players ts))"
  shows "get_events_by_type PLAYER_UPDATE (resynchronize pr stage ctx ts) =
      List.map_filter (player_update pr stage ctx (ts_tick ts)) (ts_players ts) \<and>
    (ty \<notin> tick_state_types \<longrightarrow>
      get_events_by_type ty (resynchronize pr stage ctx ts) = get_events_by_type ty ts)"
  using resynchronize_updates [OF assms] resynchronize_other_events by blast

subsection \<open>A sample timeline\<close>

definition sample_item :: item_stack where
  "sample_item = \<lparr>it_id = 4151, it_quantity = 1\<rparr>"

definition sample_state :: "data_source \<Rightarrow> player_state" where
  "sample_state src =
     \<lparr>ps_source = src, ps_username = ''p'', ps_x = 1, ps_y = 2, ps_dead = False,
      ps_equipment = [3 \<mapsto> sample_item], ps_prayers = 0, ps_attack = None, ps_spell = None,
      ps_stats = None, ps_off_cooldown = None, ps_client = 7\<rparr>"

definition sample_death :: event where
  "sample_death = (blank_event PLAYER_DEATH TOB_BLOAT 1 1 2)\<lparr>ev_player := Some (blank_player ''p'')\<rparr>"

definition sample_tick :: "int \<Rightarrow> event list \<Rightarrow> data_source \<Rightarrow> tick_state" where
  "sample_tick n es src =
     new_tick_state n (map (\<lambda>e. (e, 7)) es) [(''p'', Some (sample_state src))] [] []"

definition sample_params :: resync_params where
  "sample_params = \<lparr>rp_slots = (0, 10), rp_cooldown = (\<lambda>_. None)\<rparr>"

definition sample_timeline :: "tick_state option list" where
  "sample_timeline = [Some (sample_tick 0 [] PRIMARY), Some (sample_tick 1 [sample_death] PRIMARY), None,
     Some (sample_tick 3 [] PRIMARY)]"

lemma sample_equipment_ok: "equipment_ok [3 \<mapsto> sample_item]"
  by (auto simp: equipment_ok_def sample_item_def split: if_splits)

lemma sample_tick_ok: "tick_ok (0, 10) (sample_tick n es src)"
  using sample_equipment_ok
  by (auto simp: tick_ok_def sample_tick_def new_tick_state_def sample_state_def get_player_state_def split: if_splits)

lemma sample_timeline_ok:
  "ts \<in> set sample_timeline \<Longrightarrow> ts = Some t \<Longrightarrow> tick_ok (rp_slots sample_params) t"
  by (auto simp: sample_timeline_def sample_params_def sample_tick_ok)

lemma sample_timeline_resynchronized: "\<exists>out. resynchronize_ticks sample_params TOB_BLOAT sample_timeline = Some out"
proof -
  have "get_events_by_type NPC_DEATH (resynchronize pr stage ctx ts) = get_events_by_type NPC_DEATH ts" for pr stage ctx ts
    by (rule resynchronize_other_events) (simp add: type_classes)
  moreover have "get_events_by_type NPC_DEATH (sample_tick n es src) = []" if "es = [] \<or> es = [sample_death]" for n es src
    using that
    by (auto simp: sample_tick_def new_tick_state_def get_events_by_type_def get_tagged_by_type_def push_event_def
        sample_death_def blank_event_def type_classes)
  ultimately show ?thesis
    by (simp add: resynchronize_ticks_def sample_timeline_def Let_def)
qed

lemma sample_dies: "dies_in ''p'' (sample_tick 1 [sample_death] PRIMARY)"
  by (simp add: dies_in_def sample_tick_def new_tick_state_def get_events_by_type_def get_tagged_by_type_def
      push_event_def sample_death_def blank_event_def blank_player_def type_classes)

lemma sample_alive: "\<not> dies_in ''p'' (sample_tick 0 [] PRIMARY)"
  by (simp add: dies_in_def sample_tick_def new_tick_state_def get_events_by_type_def get_tagged_by_type_def)

theorem equipment_deltas_reproduce_witness:
  "apply_item_deltas (create_equipment_deltas (0, 10) [3 \<mapsto> sample_item] (Some Map.empty))
     (Some (\<lambda>slot. map_option Some None)) 3 = Some sample_item"
  using equipment_deltas_reproduce [OF sample_equipment_ok, of "Some Map.empty" "(0, 10)"]
  by (simp add: equipment_ok_def)

theorem canonical_equipment_replay_witness:
  "\<exists>out. resynchronize_ticks sample_params TOB_BLOAT sample_timeline = Some out \<and>
     replay_ticks ''p'' (take 2 out) Map.empty = [3 \<mapsto> sample_item]"
proof -
  obtain out where out: "resynchronize_ticks sample_params TOB_BLOAT sample_timeline = Some out"
    using sample_timeline_resynchronized ..
  have "replay_ticks ''p'' (take (Suc 1) out) Map.empty = ps_equipment (sample_state PRIMARY)"
    by (rule canonical_equipment_replay [OF out, where t = "sample_tick 1 [sample_death] PRIMARY"])
      (simp_all add: sample_timeline_ok sample_params_def sample_timeline_def sample_alive sample_tick_ok,
       simp add: sample_tick_def new_tick_state_def get_player_state_def)
  with out show ?thesis by (auto simp: sample_state_def numeral_2_eq_2)
qed

theorem canonical_dead_silent_witness:
  "\<exists>out. resynchronize_ticks sample_params TOB_BLOAT sample_timeline = Some out \<and> silent ''p'' (out ! 3) \<and> length out = 4"
proof -
  obtain out where out: "resynchronize_ticks sample_params TOB_BLOAT sample_timeline = Some out"
    using sample_timeline_resynchronized ..
  have "silent ''p'' (out ! 3) \<and> length out = length sample_timeline"
    by (rule canonical_dead_silent [OF out, where i = 1 and t = "sample_tick 1 [sample_death] PRIMARY"])
      (use sample_timeline_ok in \<open>auto simp: tick_ok_def sample_timeline_def sample_dies\<close>)
  with out show ?thesis by (auto simp: sample_timeline_def)
qed

theorem merge_ticks_combines_witness:
  "get_player_state ''p'' (merge_ticks (sample_tick 0 [] SECONDARY) (sample_tick 0 [] PRIMARY)) =
     Some (sample_state PRIMARY)"
  using merge_ticks_combines [of "sample_tick 0 [] PRIMARY" "''p''" "sample_tick 0 [] SECONDARY", THEN conjunct1]
  by (simp add: sample_tick_def new_tick_state_def get_player_state_def merged_player_def sample_state_def)

theorem resynchronize_canonical_witness:
  "map ev_type (get_events_by_type PLAYER_DEATH (resynchronize sample_params TOB_BLOAT
     \<lparr>rc_players = [], rc_npcs = [], rc_graphics = None, rc_dead_players = [], rc_dead_npcs = []\<rparr>
     (sample_tick 1 [sample_death] PRIMARY))) = [PLAYER_DEATH]"
proof -
  have "distinct (map fst (ts_players (sample_tick 1 [sample_death] PRIMARY)))"
    by (simp add: sample_tick_def new_tick_state_def)
  from resynchronize_canonical [OF this, THEN conjunct2, of PLAYER_DEATH] show ?thesis
    by (simp add: type_classes)
      (simp add: sample_tick_def new_tick_state_def get_events_by_type_def get_tagged_by_type_def
        push_event_def sample_death_def blank_event_def type_classes)
qed

end
