(* ===== verification/Client_Consistency.thy ===== *)
theory Client_Consistency
  imports Tick_State
begin

text \<open>
  The consistency checks of a client's timeline (\<^verbatim>\<open>challenge-server/merging/client-consistency.ts\<close>):
  movement faster than two tiles a tick that no teleport of the stage explains, Bloat's downs and ups
  out of turn, and Nylocas waves closer together than their natural stalls. A timeline is indexed by
  tick; reading it outside its range gives nothing, as an array access does. \<^const>\<open>None\<close> is a thrown
  error. The numbers of Verzik's two attacks are generated constants and a parameter.
\<close>

subsection \<open>Issues\<close>

datatype issue =
    Invalid_Movement string coords int int int coords coords
  | Invalid_Event_Sequence event_type int
  | Invalid_Tick_Gap event_type int int int
  | Bad_Data int string

fun issue_tick :: "issue \<Rightarrow> int" where
  "issue_tick (Invalid_Movement _ _ _ _ t _ _) = t"
| "issue_tick (Invalid_Event_Sequence _ t) = t"
| "issue_tick (Invalid_Tick_Gap _ t _ _) = t"
| "issue_tick (Bad_Data t _) = t"

record attack_codes =
  ac_p2_bounce :: int
  ac_p3_webs :: int

definition tick_at :: "tick_state option list \<Rightarrow> int \<Rightarrow> tick_state option" where
  "tick_at ticks t = (if 0 \<le> t \<and> t < int (length ticks) then ticks ! nat t else None)"

abbreviation player_at :: "player_state \<Rightarrow> coords" where
  "player_at s \<equiv> (ps_x s, ps_y s)"

subsection \<open>Movement\<close>

definition has_npc_attack :: "(int \<Rightarrow> bool) \<Rightarrow> int \<Rightarrow> tick_state option \<Rightarrow> bool" where
  "has_npc_attack id_matches code t =
     (case t of
        None \<Rightarrow> False
      | Some ts \<Rightarrow> list_ex (\<lambda>(_, n). id_matches (ns_id n) \<and> map_option nt_type (ns_attack n) = Some code) (ts_npcs ts))"

definition check_for_p3_webs_push ::
    "attack_codes \<Rightarrow> tick_state option list \<Rightarrow> int \<Rightarrow> player_state \<Rightarrow> player_state \<Rightarrow> bool" where
  "check_for_p3_webs_push codes ticks tick last_state cur =
     (list_ex (\<lambda>t. has_npc_attack is_verzik_p3 (ac_p3_webs codes) (tick_at ticks t)) (rev [max (tick - 3) 0..tick]) \<and>
      in_area (player_at last_state) verzik_p3_webs_area \<and> is_valid_p3_webs_push_destination (player_at cur))"

text \<open>Whether a bounce event of one of the ticks, which refers to the attack tick or the next, names the player.\<close>

fun find_bounce :: "tick_state option list \<Rightarrow> int \<Rightarrow> string \<Rightarrow> int list \<Rightarrow> bool option" where
  "find_bounce ticks tick name [] = Some False"
| "find_bounce ticks tick name (t # ts) =
     (case tick_at ticks t of
        None \<Rightarrow> find_bounce ticks tick name ts
      | Some st \<Rightarrow>
          (case get_events_by_type TOB_VERZIK_BOUNCE st of
             [] \<Rightarrow> find_bounce ticks tick name ts
           | e # _ \<Rightarrow>
               (case ev_attack_tick e of
                  None \<Rightarrow> None
                | Some a \<Rightarrow> if (a = tick - 1 \<or> a = tick) \<and> ev_bounced_player e = name then Some True
                           else find_bounce ticks tick name ts)))"

definition bounce_like :: "tick_state option list \<Rightarrow> int \<Rightarrow> string \<Rightarrow> bool" where
  "bounce_like ticks tick p =
     (case (Option.bind (tick_at ticks tick) (get_player_state p), Option.bind (tick_at ticks (tick - 1)) (get_player_state p)) of
        (Some c, Some q) \<Rightarrow>
          in_area (player_at q) verzik_p2_bounceable_area \<and> is_valid_p2_bounce_destination (player_at c)
      | _ \<Rightarrow> False)"

definition check_for_p2_bounce ::
    "attack_codes \<Rightarrow> string list \<Rightarrow> int \<Rightarrow> tick_state option list \<Rightarrow> int \<Rightarrow> player_state \<Rightarrow> player_state \<Rightarrow> bool option" where
  "check_for_p2_bounce codes party verzik ticks tick last_state cur =
     (if \<not> in_area (player_at last_state) verzik_p2_bounceable_area \<or> \<not> is_valid_p2_bounce_destination (player_at cur)
      then Some False
      else case find_bounce ticks tick (ps_username cur) [tick - 1..tick + 5] of
        None \<Rightarrow> None
      | Some True \<Rightarrow> Some True
      | Some False \<Rightarrow>
          (let has_bounce = has_npc_attack is_verzik_p2 (ac_p2_bounce codes);
               at_p3_transition = (case Option.bind (tick_at ticks (tick + 1)) (\<lambda>ts. map_of (ts_npcs ts) verzik) of
                   Some n \<Rightarrow> is_verzik_p3_transition (ns_id n) | None \<Rightarrow> False)
           in if \<not> at_p3_transition \<and> \<not> has_bounce (tick_at ticks (tick - 1)) \<and> \<not> has_bounce (tick_at ticks tick)
              then Some False
              else (let bounced = filter (bounce_like ticks tick) party
                in Some (ps_username cur \<in> set bounced \<and> length bounced = 1))))"

definition is_special_teleport ::
    "attack_codes \<Rightarrow> stage \<Rightarrow> string list \<Rightarrow> tick_state option list \<Rightarrow> int \<Rightarrow> player_state \<Rightarrow> player_state \<Rightarrow> int \<Rightarrow> bool option" where
  "is_special_teleport codes stage party ticks tick last_state cur delta =
     (if is_in_death_area stage (player_at cur) then Some True
      else if is_inferno_stage stage then Some False
      else if is_mokhaiotl_stage stage then Some False
      else if is_colosseum_stage stage
        then Some (stage = COLOSSEUM_WAVE 12 \<and> tick < 5 \<and> coords_equal (player_at cur) colosseum_boss_start)
      else case stage of
        TOB_SOTETSEG \<Rightarrow>
          Some (if in_area (player_at cur) sotetseg_underworld_area \<and> in_area (player_at last_state) sotetseg_room_area
                then True
                else if in_area (player_at cur) sotetseg_room_area \<and> in_area (player_at last_state) sotetseg_underworld_area
                then True
                else delta = 1 \<and> in_area (player_at last_state) sotetseg_room_area \<and>
                  coords_equal (player_at cur) sotetseg_maze_start)
      | TOB_VERZIK \<Rightarrow>
          (if delta \<noteq> 1 then Some False
           else case Option.bind (tick_at ticks (tick - 1)) (\<lambda>ts. List.find (\<lambda>(_, n). is_verzik (ns_id n)) (ts_npcs ts)) of
             None \<Rightarrow> Some False
           | Some (room, n) \<Rightarrow>
               (if is_verzik_p2 (ns_id n) then check_for_p2_bounce codes party room ticks tick last_state cur
                else if is_verzik_p3 (ns_id n) then Some (check_for_p3_webs_push codes ticks tick last_state cur)
                else Some False))
      | _ \<Rightarrow> Some False)"

type_synonym last_states = "string \<Rightarrow> (player_state \<times> int) option"

text \<open>The check of one move: an issue, none, or an error.\<close>

definition check_move ::
    "attack_codes \<Rightarrow> stage \<Rightarrow> string list \<Rightarrow> tick_state option list \<Rightarrow> int \<Rightarrow> string \<Rightarrow> player_state \<times> int \<Rightarrow> player_state \<Rightarrow> issue list option" where
  "check_move codes stage party ticks tick p prev cur =
     (let ticks_since_last = tick - snd prev
      in if ps_dead cur \<or> chebyshev (player_at cur) (player_at (fst prev)) \<le> 2 * ticks_since_last then Some []
         else map_option
           (\<lambda>special. if special then []
              else [Invalid_Movement p (ps_x cur - ps_x (fst prev), ps_y cur - ps_y (fst prev)) ticks_since_last
                      (snd prev) tick (player_at (fst prev)) (player_at cur)])
           (is_special_teleport codes stage party ticks tick (fst prev) cur ticks_since_last))"

definition check_player ::
    "attack_codes \<Rightarrow> stage \<Rightarrow> string list \<Rightarrow> tick_state option list \<Rightarrow> tick_state \<Rightarrow> string \<Rightarrow>
     (issue list \<times> last_states) option \<Rightarrow> (issue list \<times> last_states) option" where
  "check_player codes stage party ticks ts p acc =
     (case (acc, get_player_state p ts) of
        (None, _) \<Rightarrow> None
      | (Some a, None) \<Rightarrow> Some a
      | (Some (issues, lasts), Some cur) \<Rightarrow>
          map_option (\<lambda>new. (issues @ new, lasts(p \<mapsto> (cur, ts_tick ts))))
            (case lasts p of
               None \<Rightarrow> Some []
             | Some prev \<Rightarrow> check_move codes stage party ticks (ts_tick ts) p prev cur))"

definition check_tick ::
    "attack_codes \<Rightarrow> stage \<Rightarrow> string list \<Rightarrow> tick_state option list \<Rightarrow> tick_state option \<Rightarrow>
     (issue list \<times> last_states) option \<Rightarrow> (issue list \<times> last_states) option" where
  "check_tick codes stage party ticks t acc =
     (case t of None \<Rightarrow> acc | Some ts \<Rightarrow> fold (check_player codes stage party ticks ts) party acc)"

definition check_movement :: "attack_codes \<Rightarrow> stage \<Rightarrow> string list \<Rightarrow> tick_state option list \<Rightarrow> issue list option" where
  "check_movement codes stage party ticks =
     map_option fst (fold (check_tick codes stage party ticks) ticks (Some ([], Map.empty)))"

subsection \<open>Bloat and Nylocas\<close>

fun check_bloat_from :: "bool \<Rightarrow> tick_state option list \<Rightarrow> issue list" where
  "check_bloat_from was_down [] = []"
| "check_bloat_from was_down (None # ticks) = check_bloat_from was_down ticks"
| "check_bloat_from was_down (Some ts # ticks) =
     (let down = get_events_by_type TOB_BLOAT_DOWN ts \<noteq> []; up = get_events_by_type TOB_BLOAT_UP ts \<noteq> []
      in if down \<and> up then [Bad_Data (ts_tick ts) ''Bloat down and up events on the same tick'']
         else if down then
           (if was_down then [Invalid_Event_Sequence TOB_BLOAT_DOWN (ts_tick ts)] else []) @ check_bloat_from True ticks
         else if up then
           (if \<not> was_down then [Invalid_Event_Sequence TOB_BLOAT_UP (ts_tick ts)] else []) @ check_bloat_from False ticks
         else check_bloat_from was_down ticks)"

definition check_bloat :: "tick_state option list \<Rightarrow> issue list" where
  "check_bloat ticks = check_bloat_from False ticks"

text \<open>The tick of each wave's spawn by its number, and the last wave, 0 before the first.\<close>

fun check_nylocas_from :: "challenge_mode \<Rightarrow> int list \<Rightarrow> int \<Rightarrow> tick_state option list \<Rightarrow> issue list option" where
  "check_nylocas_from mode spawns last_wave [] = Some []"
| "check_nylocas_from mode spawns last_wave (None # ticks) = check_nylocas_from mode spawns last_wave ticks"
| "check_nylocas_from mode spawns last_wave (Some ts # ticks) =
     (case get_events_by_type TOB_NYLO_WAVE_SPAWN ts of
        [] \<Rightarrow> check_nylocas_from mode spawns last_wave ticks
      | e # _ \<Rightarrow>
          (case ev_nylo_wave e of
             None \<Rightarrow> None
           | Some wave \<Rightarrow>
               (if wave < 1 \<or> wave > 31
                then Some [Bad_Data (ts_tick ts) (''Nylocas wave '' @ show_int wave @ '' out of range'')]
                else if last_wave > 0 \<and> wave \<le> last_wave
                then Some [Bad_Data (ts_tick ts) (''Nylocas wave '' @ show_int wave @ '' after wave '' @ show_int last_wave)]
                else
                  (let rest = check_nylocas_from mode (spawns[nat (wave - 1) := ts_tick ts]) wave ticks
                   in if last_wave > 0
                      then (let delta = ts_tick ts - spawns ! nat (last_wave - 1)
                        in case sum_natural_stalls mode last_wave wave of
                          None \<Rightarrow> None
                        | Some min_delta \<Rightarrow>
                            (if delta < min_delta
                             then map_option (\<lambda>is. Invalid_Tick_Gap TOB_NYLO_WAVE_SPAWN (ts_tick ts) delta min_delta # is) rest
                             else rest))
                      else rest))))"

definition check_nylocas :: "challenge_mode \<Rightarrow> tick_state option list \<Rightarrow> issue list option" where
  "check_nylocas mode ticks = check_nylocas_from mode (replicate 31 0) 0 ticks"

definition consistency_checker_for_stage ::
    "stage \<Rightarrow> challenge_mode \<Rightarrow> (tick_state option list \<Rightarrow> issue list option) option" where
  "consistency_checker_for_stage stage mode =
     (case stage of
        TOB_BLOAT \<Rightarrow> Some (\<lambda>ticks. Some (check_bloat ticks))
      | TOB_NYLOCAS \<Rightarrow> Some (check_nylocas mode)
      | _ \<Rightarrow> None)"

subsection \<open>Which moves are checked\<close>

definition latest :: "string \<Rightarrow> tick_state option list \<Rightarrow> (player_state \<times> int) option" where
  "latest p ticks =
     fold (\<lambda>t l. case Option.bind t (\<lambda>ts. map_option (\<lambda>s. (s, ts_tick ts)) (get_player_state p ts)) of
       Some x \<Rightarrow> Some x | None \<Rightarrow> l) ticks None"

lemma latest_Nil [simp]: "latest p [] = None"
  by (simp add: latest_def)

lemma latest_snoc:
  "latest p (ticks @ [t]) =
     (case Option.bind t (\<lambda>ts. map_option (\<lambda>s. (s, ts_tick ts)) (get_player_state p ts)) of
       Some x \<Rightarrow> Some x | None \<Rightarrow> latest p ticks)"
  unfolding latest_def by simp

definition absent :: "string \<Rightarrow> tick_state option \<Rightarrow> bool" where
  "absent p t \<longleftrightarrow> Option.bind t (get_player_state p) = None"

lemma latest_iff:
  "latest p ticks = Some (s, n) \<longleftrightarrow>
     (\<exists>i a. i < length ticks \<and> ticks ! i = Some a \<and> get_player_state p a = Some s \<and> n = ts_tick a \<and>
       (\<forall>k. i < k \<and> k < length ticks \<longrightarrow> absent p (ticks ! k)))"
proof (induction ticks rule: rev_induct)
  case (snoc t ticks)
  let ?R = "\<lambda>ts. \<exists>i a. i < length ts \<and> ts ! i = Some a \<and> get_player_state p a = Some s \<and> n = ts_tick a \<and>
       (\<forall>k. i < k \<and> k < length ts \<longrightarrow> absent p (ts ! k))"
  show ?case
  proof (cases "absent p t")
    case True
    then have "latest p (ticks @ [t]) = latest p ticks"
      by (cases t) (simp_all add: latest_snoc absent_def)
    moreover have "?R (ticks @ [t]) \<longleftrightarrow> ?R ticks"
    proof
      assume "?R (ticks @ [t])"
      then obtain i a where *: "i < Suc (length ticks)" "(ticks @ [t]) ! i = Some a" "get_player_state p a = Some s"
        "n = ts_tick a" "\<forall>k. i < k \<and> k < Suc (length ticks) \<longrightarrow> absent p ((ticks @ [t]) ! k)" by auto
      have "i \<noteq> length ticks" using * True by (auto simp: absent_def)
      with *(1) have "i < length ticks" by simp
      moreover have "\<forall>k. i < k \<and> k < length ticks \<longrightarrow> absent p (ticks ! k)"
        using *(5) by (metis less_SucI nth_append)
      ultimately show "?R ticks" using * by (auto simp: nth_append)
    next
      assume "?R ticks"
      then obtain i a where *: "i < length ticks" "ticks ! i = Some a" "get_player_state p a = Some s"
        "n = ts_tick a" "\<forall>k. i < k \<and> k < length ticks \<longrightarrow> absent p (ticks ! k)" by auto
      then show "?R (ticks @ [t])"
        using True by (intro exI [of _ i] exI [of _ a]) (auto simp: nth_append less_Suc_eq)
    qed
    ultimately show ?thesis using snoc by simp
  next
    case False
    then obtain b u where t: "t = Some b" "get_player_state p b = Some u"
      by (cases t) (auto simp: absent_def)
    then have "latest p (ticks @ [t]) = Some (u, ts_tick b)" by (simp add: latest_snoc)
    moreover have "?R (ticks @ [t]) \<longleftrightarrow> u = s \<and> n = ts_tick b"
    proof
      assume "?R (ticks @ [t])"
      then obtain i a where *: "i < Suc (length ticks)" "(ticks @ [t]) ! i = Some a" "get_player_state p a = Some s"
        "n = ts_tick a" "\<forall>k. i < k \<and> k < Suc (length ticks) \<longrightarrow> absent p ((ticks @ [t]) ! k)" by auto
      have "i = length ticks"
        using *(1) *(5) [rule_format, of "length ticks"] False by (auto simp: less_Suc_eq)
      with * t show "u = s \<and> n = ts_tick b" by simp
    next
      assume "u = s \<and> n = ts_tick b"
      with t show "?R (ticks @ [t])" by (intro exI [of _ "length ticks"] exI [of _ b]) auto
    qed
    ultimately show ?thesis by auto
  qed
qed simp

text \<open>The issues of one player's move on a tick, given where each player was last seen.\<close>

definition move_issues ::
    "attack_codes \<Rightarrow> stage \<Rightarrow> string list \<Rightarrow> tick_state option list \<Rightarrow> last_states \<Rightarrow> tick_state \<Rightarrow> string \<Rightarrow> issue list option" where
  "move_issues codes stage party ticks lasts ts p =
     (case (get_player_state p ts, lasts p) of
        (Some cur, Some prev) \<Rightarrow> check_move codes stage party ticks (ts_tick ts) p prev cur
      | _ \<Rightarrow> Some [])"

definition seen_on :: "tick_state \<Rightarrow> string list \<Rightarrow> last_states \<Rightarrow> last_states" where
  "seen_on ts ps lasts =
     (\<lambda>p. if p \<in> set ps then (case get_player_state p ts of Some s \<Rightarrow> Some (s, ts_tick ts) | None \<Rightarrow> lasts p) else lasts p)"

lemma check_players_None [simp]: "fold (check_player codes stage party ticks ts) ps None = None"
  by (induction ps) (simp_all add: check_player_def)

lemma check_players:
  "distinct ps \<Longrightarrow>
     fold (check_player codes stage party ticks ts) ps (Some (issues, lasts)) =
       map_option (\<lambda>news. (issues @ concat news, seen_on ts ps lasts))
         (those (map (move_issues codes stage party ticks lasts ts) ps))"
proof (induction ps arbitrary: issues lasts)
  case Nil
  show ?case by (simp add: seen_on_def)
next
  case (Cons p ps)
  have step: "check_player codes stage party ticks ts p (Some (issues, lasts)) =
      map_option (\<lambda>new. (issues @ new, seen_on ts [p] lasts)) (move_issues codes stage party ticks lasts ts p)"
  proof (cases "get_player_state p ts")
    case None
    then have "seen_on ts [p] lasts = lasts" by (auto simp: seen_on_def)
    with None show ?thesis by (simp add: check_player_def move_issues_def)
  next
    case (Some cur)
    then have "seen_on ts [p] lasts = lasts(p \<mapsto> (cur, ts_tick ts))"
      by (simp add: seen_on_def fun_eq_iff)
    with Some show ?thesis
      by (cases "lasts p") (simp_all add: check_player_def move_issues_def)
  qed
  have same: "map (move_issues codes stage party ticks (seen_on ts [p] lasts) ts) ps = map (move_issues codes stage party ticks lasts ts) ps"
    using Cons.prems by (auto simp: move_issues_def seen_on_def)
  have seen: "seen_on ts ps (seen_on ts [p] lasts) = seen_on ts (p # ps) lasts"
    by (auto simp: seen_on_def fun_eq_iff split: option.splits)
  have rest: "fold (check_player codes stage party ticks ts) ps (Some (is, seen_on ts [p] lasts)) =
      map_option (\<lambda>news. (is @ concat news, seen_on ts (p # ps) lasts))
        (those (map (move_issues codes stage party ticks lasts ts) ps))" for "is"
    using Cons.IH [of "is" "seen_on ts [p] lasts"] Cons.prems unfolding same seen by simp
  show ?case
    by (cases "move_issues codes stage party ticks lasts ts p")
      (simp_all add: step rest option.map_comp comp_def)
qed

lemma check_tick_simps [simp]:
  "check_tick codes stage party ticks None acc = acc"
  "check_tick codes stage party ticks (Some ts) acc = fold (check_player codes stage party ticks ts) party acc"
  by (simp_all add: check_tick_def)

lemma check_ticks_None [simp]: "fold (check_tick codes stage party ticks) ts None = None"
proof (induction ts)
  case (Cons t ts)
  then show ?case by (cases t) simp_all
qed simp

lemma those_Some_iff: "those xs = Some ys \<longleftrightarrow> xs = map Some ys"
  by (induction xs arbitrary: ys) (auto split: option.splits simp: Cons_eq_map_conv)

definition party_latest :: "string list \<Rightarrow> tick_state option list \<Rightarrow> last_states" where
  "party_latest party ticks = (\<lambda>p. if p \<in> set party then latest p ticks else None)"

lemma party_latest_Nil [simp]: "party_latest party [] = Map.empty"
  by (auto simp: party_latest_def)

lemma party_latest_snoc:
  "party_latest party (ticks @ [t]) =
     (case t of None \<Rightarrow> party_latest party ticks | Some ts \<Rightarrow> seen_on ts party (party_latest party ticks))"
  by (auto simp: party_latest_def seen_on_def latest_snoc fun_eq_iff split: option.splits)

lemma ex_Some_image: "(\<exists>y. Some y \<in> f ` S \<and> P y) \<longleftrightarrow> (\<exists>x \<in> S. \<exists>y. f x = Some y \<and> P y)"
  by (metis image_iff)

lemma ex_prefix_snoc:
  "(\<exists>n < length (ts @ [t]). P (take n (ts @ [t])) ((ts @ [t]) ! n)) \<longleftrightarrow>
     (\<exists>n < length ts. P (take n ts) (ts ! n)) \<or> P ts t"
proof -
  have "(\<exists>n < Suc m. Q n) \<longleftrightarrow> (\<exists>n < m. Q n) \<or> Q m" for Q and m :: nat
    by (auto simp: less_Suc_eq)
  then show ?thesis by (simp add: nth_append cong: conj_cong)
qed

lemma check_ticks_issues:
  assumes "distinct party"
  shows "fold (check_tick codes stage party ticks) ts (Some ([], Map.empty)) = Some (issues, lasts) \<Longrightarrow>
    lasts = party_latest party ts \<and>
    (\<forall>x. x \<in> set issues \<longleftrightarrow> (\<exists>n < length ts. \<exists>b. ts ! n = Some b \<and> (\<exists>p \<in> set party. \<exists>new.
       move_issues codes stage party ticks (party_latest party (take n ts)) b p = Some new \<and> x \<in> set new)))"
proof (induction ts arbitrary: issues lasts rule: rev_induct)
  case Nil
  then show ?case by simp
next
  case (snoc t ts)
  have "fold (check_tick codes stage party ticks) ts (Some ([], Map.empty)) \<noteq> None"
  proof
    assume "fold (check_tick codes stage party ticks) ts (Some ([], Map.empty)) = None"
    with snoc.prems show False by (cases t) simp_all
  qed
  then obtain iss l where before: "fold (check_tick codes stage party ticks) ts (Some ([], Map.empty)) = Some (iss, l)"
    by auto
  note IH = snoc.IH [OF before]
  let ?on = "\<lambda>n b x. \<exists>p \<in> set party. \<exists>new. move_issues codes stage party ticks (party_latest party (take n ts)) b p = Some new \<and> x \<in> set new"
  have split: "(\<exists>n < length (ts @ [t]). \<exists>b. (ts @ [t]) ! n = Some b \<and> (\<exists>p \<in> set party. \<exists>new.
       move_issues codes stage party ticks (party_latest party (take n (ts @ [t]))) b p = Some new \<and> x \<in> set new)) \<longleftrightarrow>
     (\<exists>n < length ts. \<exists>b. ts ! n = Some b \<and> ?on n b x) \<or> (\<exists>b. t = Some b \<and> ?on (length ts) b x)" for x
    by (subst ex_prefix_snoc) simp
  show ?case
  proof (cases t)
    case None
    with snoc.prems before have "issues = iss" "lasts = l" by auto
    with IH None show ?thesis unfolding split by (simp add: party_latest_snoc)
  next
    case (Some b)
    with snoc.prems before obtain news where news:
      "those (map (move_issues codes stage party ticks l b) party) = Some news"
      "issues = iss @ concat news" "lasts = seen_on b party l"
      by (auto simp: check_players [OF assms])
    have "x \<in> set (concat news) \<longleftrightarrow> ?on (length ts) b x" for x
    proof -
      have "map (move_issues codes stage party ticks l b) party = map Some news"
        using news(1) by (simp add: those_Some_iff)
      then have eq: "Some ` set news = move_issues codes stage party ticks l b ` set party"
        by (metis list.set_map)
      have "?on (length ts) b x \<longleftrightarrow> (\<exists>new. Some new \<in> move_issues codes stage party ticks l b ` set party \<and> x \<in> set new)"
        using IH by (simp add: ex_Some_image)
      also have "\<dots> \<longleftrightarrow> x \<in> set (concat news)"
        unfolding eq [symmetric] by auto
      finally show ?thesis by simp
    qed
    with IH news Some show ?thesis unfolding split by (auto simp: party_latest_snoc)
  qed
qed

lemma check_ticks_quiet:
  assumes "distinct party"
  shows "\<forall>n < length ts. \<forall>b. ts ! n = Some b \<longrightarrow> (\<forall>p \<in> set party.
       move_issues codes stage party ticks (party_latest party (take n ts)) b p = Some []) \<Longrightarrow>
    fold (check_tick codes stage party ticks) ts (Some ([], Map.empty)) = Some ([], party_latest party ts)"
proof (induction ts rule: rev_induct)
  case (snoc t ts)
  have "\<forall>n < length ts. \<forall>b. ts ! n = Some b \<longrightarrow> (\<forall>p \<in> set party.
       move_issues codes stage party ticks (party_latest party (take n ts)) b p = Some [])"
    using snoc.prems by (auto simp: nth_append less_Suc_eq)
  then have before: "fold (check_tick codes stage party ticks) ts (Some ([], Map.empty)) = Some ([], party_latest party ts)"
    by (rule snoc.IH)
  show ?case
  proof (cases t)
    case (Some b)
    have quiet: "move_issues codes stage party ticks (party_latest party ts) b p = Some []" if "p \<in> set party" for p
      using snoc.prems [rule_format, of "length ts" b p] Some that by simp
    have "those (map (move_issues codes stage party ticks (party_latest party ts) b) party) = Some (map (\<lambda>_. []) party)"
      by (simp add: those_Some_iff quiet)
    then show ?thesis
      by (simp add: before Some check_players [OF assms] party_latest_snoc)
  qed (simp add: before party_latest_snoc)
qed simp

subsection \<open>Waves\<close>

text \<open>Two spawns are apart if the later wave is the higher one and the natural stalls between them have passed.\<close>

definition stalls_apart :: "challenge_mode \<Rightarrow> int \<times> int \<Rightarrow> int \<times> int \<Rightarrow> bool" where
  "stalls_apart mode a b \<longleftrightarrow> fst a < fst b \<and>
     (case sum_natural_stalls mode (fst a) (fst b) of None \<Rightarrow> False | Some s \<Rightarrow> s \<le> snd b - snd a)"

definition wave_spawn :: "tick_state option \<Rightarrow> (int \<times> int) option" where
  "wave_spawn t =
     (case t of
        None \<Rightarrow> None
      | Some ts \<Rightarrow> (case get_events_by_type TOB_NYLO_WAVE_SPAWN ts of
          [] \<Rightarrow> None
        | e # _ \<Rightarrow> map_option (\<lambda>w. (w, ts_tick ts)) (ev_nylo_wave e)))"

definition wave_spawns :: "tick_state option list \<Rightarrow> (int \<times> int) list" where
  "wave_spawns ticks = List.map_filter wave_spawn ticks"

definition waves_recorded :: "tick_state option list \<Rightarrow> bool" where
  "waves_recorded ticks \<longleftrightarrow> (\<forall>t ts e es. t \<in> set ticks \<longrightarrow> t = Some ts \<longrightarrow>
     get_events_by_type TOB_NYLO_WAVE_SPAWN ts = e # es \<longrightarrow> ev_nylo_wave e \<noteq> None)"

lemma sum_natural_stalls_split:
  "w \<le> v \<Longrightarrow> v \<le> wave \<Longrightarrow>
     sum_natural_stalls mode w wave =
       (case sum_natural_stalls mode w v of
          None \<Rightarrow> None | Some a \<Rightarrow> map_option ((+) a) (sum_natural_stalls mode v wave))"
proof (induction mode w v rule: sum_natural_stalls.induct)
  case (1 mode w v)
  show ?case
  proof (cases "w < v")
    case True
    then have "sum_natural_stalls mode w wave = (case natural_stall_for_wave mode w of
          None \<Rightarrow> None | Some s \<Rightarrow> map_option ((+) s) (sum_natural_stalls mode (w + 1) wave))"
      using 1 by (subst sum_natural_stalls.simps) simp
    moreover have "sum_natural_stalls mode w v = (case natural_stall_for_wave mode w of
          None \<Rightarrow> None | Some s \<Rightarrow> map_option ((+) s) (sum_natural_stalls mode (w + 1) v))"
      using True by (subst sum_natural_stalls.simps) simp
    ultimately show ?thesis
      using 1 True by (cases "sum_natural_stalls mode v wave") (auto split: option.splits)
  next
    case False
    with 1 have "w = v" by simp
    moreover have "sum_natural_stalls mode v v = Some 0"
      by (subst sum_natural_stalls.simps) simp
    ultimately show ?thesis by (cases "sum_natural_stalls mode v wave") simp_all
  qed
qed

lemma stalls_apart_trans: "transp (stalls_apart mode)"
proof (rule transpI)
  fix a b c
  assume ab: "stalls_apart mode a b" and bc: "stalls_apart mode b c"
  then have "sum_natural_stalls mode (fst a) (fst c) = (case sum_natural_stalls mode (fst a) (fst b) of
      None \<Rightarrow> None | Some s \<Rightarrow> map_option ((+) s) (sum_natural_stalls mode (fst b) (fst c)))"
    by (intro sum_natural_stalls_split) (auto simp: stalls_apart_def)
  with ab bc show "stalls_apart mode a c"
    by (auto simp: stalls_apart_def split: option.splits)
qed

lemma stalls_apart_in_range:
  assumes "1 \<le> w" and "w < v" and "v \<le> 31"
  shows "\<exists>s. sum_natural_stalls mode w v = Some s \<and> (stalls_apart mode (w, t) (v, u) \<longleftrightarrow> s \<le> u - t)"
  using sum_natural_stalls_in_range [of w v mode] assms by (auto simp: stalls_apart_def)

lemma check_nylocas_from_clean:
  assumes "waves_recorded ticks" and "length spawns = 31" and "0 \<le> last_wave" and "last_wave \<le> 31"
  shows "check_nylocas_from mode spawns last_wave ticks = Some [] \<longleftrightarrow>
    (\<forall>(w, t) \<in> set (wave_spawns ticks). 1 \<le> w \<and> w \<le> 31) \<and>
    sorted_wrt (stalls_apart mode)
      ((if last_wave = 0 then [] else [(last_wave, spawns ! nat (last_wave - 1))]) @ wave_spawns ticks)"
  using assms
proof (induction mode spawns last_wave ticks rule: check_nylocas_from.induct)
  case (1 mode spawns last_wave)
  then show ?case by (simp add: wave_spawns_def)
next
  case (2 mode spawns last_wave ticks)
  then show ?case by (simp add: wave_spawns_def wave_spawn_def waves_recorded_def)
next
  case (3 mode spawns last_wave ts ticks)
  have rec: "waves_recorded ticks" using "3.prems"(1) by (simp add: waves_recorded_def)
  show ?case
  proof (cases "get_events_by_type TOB_NYLO_WAVE_SPAWN ts")
    case Nil
    with 3 rec show ?thesis by (simp add: wave_spawns_def wave_spawn_def)
  next
    case (Cons e es)
    then obtain wave where wave: "ev_nylo_wave e = Some wave"
      using "3.prems"(1) [unfolded waves_recorded_def, rule_format, of "Some ts" ts e es] by auto
    have spawns: "wave_spawns (Some ts # ticks) = (wave, ts_tick ts) # wave_spawns ticks"
      by (simp add: wave_spawns_def wave_spawn_def Cons wave)
    show ?thesis
    proof (cases "wave < 1 \<or> wave > 31 \<or> (last_wave > 0 \<and> wave \<le> last_wave)")
      case True
      with Cons wave spawns "3.prems" show ?thesis by (auto simp: stalls_apart_def)
    next
      case False
      let ?sp = "spawns[nat (wave - 1) := ts_tick ts]"
      have IH: "check_nylocas_from mode ?sp wave ticks = Some [] \<longleftrightarrow>
          (\<forall>(w, t) \<in> set (wave_spawns ticks). 1 \<le> w \<and> w \<le> 31) \<and>
          sorted_wrt (stalls_apart mode) ((wave, ts_tick ts) # wave_spawns ticks)"
        using "3.IH"(2) [OF Cons wave] False rec "3.prems" by auto
      show ?thesis
      proof (cases "last_wave = 0")
        case True
        with False Cons wave IH show ?thesis unfolding spawns by (auto simp: Let_def)
      next
        case nz: False
        obtain s where s: "sum_natural_stalls mode last_wave wave = Some s"
          "stalls_apart mode (last_wave, spawns ! nat (last_wave - 1)) (wave, ts_tick ts) \<longleftrightarrow>
             s \<le> ts_tick ts - spawns ! nat (last_wave - 1)"
          using stalls_apart_in_range [of last_wave wave mode] False nz "3.prems" by force
        have "sorted_wrt (stalls_apart mode) ((last_wave, spawns ! nat (last_wave - 1)) # (wave, ts_tick ts) # wave_spawns ticks) \<longleftrightarrow>
            s \<le> ts_tick ts - spawns ! nat (last_wave - 1) \<and>
            sorted_wrt (stalls_apart mode) ((wave, ts_tick ts) # wave_spawns ticks)"
          unfolding sorted_wrt2 [OF stalls_apart_trans] s(2) ..
        with nz False Cons wave IH s(1) "3.prems" show ?thesis unfolding spawns by (auto simp: Let_def)
      qed
    qed
  qed
qed

subsection \<open>Bloat's walk\<close>

definition bloat_signal :: "tick_state option \<Rightarrow> bool option" where
  "bloat_signal t =
     (case t of
        None \<Rightarrow> None
      | Some ts \<Rightarrow> if get_events_by_type TOB_BLOAT_DOWN ts \<noteq> [] then Some True
                  else if get_events_by_type TOB_BLOAT_UP ts \<noteq> [] then Some False else None)"

definition bloat_contradicts :: "tick_state \<Rightarrow> bool" where
  "bloat_contradicts ts \<longleftrightarrow>
     get_events_by_type TOB_BLOAT_DOWN ts \<noteq> [] \<and> get_events_by_type TOB_BLOAT_UP ts \<noteq> []"

fun alternates :: "bool \<Rightarrow> bool list \<Rightarrow> bool" where
  "alternates d [] = True"
| "alternates d (x # xs) = (x = d \<and> alternates (\<not> d) xs)"

lemma alternates_nth: "alternates d xs \<longleftrightarrow> (\<forall>i < length xs. xs ! i = (even i = d))"
proof (induction d xs rule: alternates.induct)
  case (2 d x xs)
  have "(\<forall>i < Suc n. P i) \<longleftrightarrow> P 0 \<and> (\<forall>i < n. P (Suc i))" for P and n :: nat
    by (auto simp: less_Suc_eq_0_disj)
  with 2 show ?case by auto
qed simp

lemma check_bloat_from_clean:
  "check_bloat_from was_down ticks = [] \<longleftrightarrow>
     (\<forall>ts. Some ts \<in> set ticks \<longrightarrow> \<not> bloat_contradicts ts) \<and>
     alternates (\<not> was_down) (List.map_filter bloat_signal ticks)"
proof (induction was_down ticks rule: check_bloat_from.induct)
  case (3 was_down ts ticks)
  consider (both) "bloat_contradicts ts"
    | (down) "\<not> bloat_contradicts ts" "bloat_signal (Some ts) = Some True"
    | (up) "\<not> bloat_contradicts ts" "bloat_signal (Some ts) = Some False"
    | (none) "\<not> bloat_contradicts ts" "bloat_signal (Some ts) = None"
    by (cases "bloat_signal (Some ts)") auto
  then show ?case
  proof cases
    case both
    then show ?thesis by (auto simp: bloat_contradicts_def)
  next
    case down
    then have "get_events_by_type TOB_BLOAT_DOWN ts \<noteq> []" "get_events_by_type TOB_BLOAT_UP ts = []"
      by (auto simp: bloat_contradicts_def bloat_signal_def split: if_splits)
    with 3 down show ?thesis by (auto simp: Let_def)
  next
    case up
    then have "get_events_by_type TOB_BLOAT_DOWN ts = []" "get_events_by_type TOB_BLOAT_UP ts \<noteq> []"
      by (auto simp: bloat_contradicts_def bloat_signal_def split: if_splits)
    with 3 up show ?thesis by (auto simp: Let_def)
  next
    case none
    then have "get_events_by_type TOB_BLOAT_DOWN ts = []" "get_events_by_type TOB_BLOAT_UP ts = []"
      by (auto simp: bloat_contradicts_def bloat_signal_def split: if_splits)
    with 3 none show ?thesis by (auto simp: Let_def)
  qed
qed (auto simp: bloat_signal_def)

subsection \<open>Properties\<close>

text \<open>The player is seen at positions \<open>i\<close> and \<open>j\<close> of the timeline and not in between.\<close>

definition consecutive ::
    "string \<Rightarrow> tick_state option list \<Rightarrow> nat \<Rightarrow> tick_state \<Rightarrow> player_state \<Rightarrow> nat \<Rightarrow> tick_state \<Rightarrow> player_state \<Rightarrow> bool" where
  "consecutive p ticks i a s j b s' \<longleftrightarrow>
     i < j \<and> j < length ticks \<and> ticks ! i = Some a \<and> get_player_state p a = Some s \<and>
     ticks ! j = Some b \<and> get_player_state p b = Some s' \<and> (\<forall>k. i < k \<and> k < j \<longrightarrow> absent p (ticks ! k))"

lemma party_latest_take:
  assumes "p \<in> set party" and "n < length ticks"
  shows "party_latest party (take n ticks) p = Some (s, m) \<longleftrightarrow>
    (\<exists>i a. i < n \<and> ticks ! i = Some a \<and> get_player_state p a = Some s \<and> m = ts_tick a \<and>
      (\<forall>k. i < k \<and> k < n \<longrightarrow> absent p (ticks ! k)))"
  using assms by (simp add: party_latest_def latest_iff cong: conj_cong)

lemma move_issues_reports:
  "move_issues codes stage party ticks lasts b p = Some new \<and> x \<in> set new \<longleftrightarrow>
     (\<exists>s' s m. get_player_state p b = Some s' \<and> lasts p = Some (s, m) \<and>
       check_move codes stage party ticks (ts_tick b) p (s, m) s' = Some new \<and> x \<in> set new)"
  by (auto simp: move_issues_def split: option.splits)

lemma check_move_reports:
  "(\<exists>new. check_move codes stage party ticks tick p (s, m) s' = Some new \<and> x \<in> set new) \<longleftrightarrow>
     \<not> ps_dead s' \<and> chebyshev (player_at s') (player_at s) > 2 * (tick - m) \<and>
     is_special_teleport codes stage party ticks tick s s' (tick - m) = Some False \<and>
     x = Invalid_Movement p (ps_x s' - ps_x s, ps_y s' - ps_y s) (tick - m) m tick (player_at s) (player_at s')"
  by (auto simp: check_move_def Let_def split: if_splits)

text \<open>C29: the movement check reports exactly the moves between two consecutive sightings of a party member
  that is alive, went further than two tiles for each tick in between, and was not teleported by the
  stage; the report names the player, the ticks and the tiles of the move.\<close>

theorem movement_issues_iff:
  assumes "distinct party" and "check_movement codes stage party ticks = Some issues"
  shows "x \<in> set issues \<longleftrightarrow>
    (\<exists>p \<in> set party. \<exists>i a s j b s'. consecutive p ticks i a s j b s' \<and>
       \<not> ps_dead s' \<and> chebyshev (player_at s') (player_at s) > 2 * (ts_tick b - ts_tick a) \<and>
       is_special_teleport codes stage party ticks (ts_tick b) s s' (ts_tick b - ts_tick a) = Some False \<and>
       x = Invalid_Movement p (ps_x s' - ps_x s, ps_y s' - ps_y s) (ts_tick b - ts_tick a) (ts_tick a) (ts_tick b)
             (player_at s) (player_at s'))" (is "_ \<longleftrightarrow> ?R")
proof -
  obtain lasts where "fold (check_tick codes stage party ticks) ticks (Some ([], Map.empty)) = Some (issues, lasts)"
    using assms(2) by (auto simp: check_movement_def)
  from check_ticks_issues [OF assms(1) this] have
    "x \<in> set issues \<longleftrightarrow> (\<exists>n < length ticks. \<exists>b. ticks ! n = Some b \<and> (\<exists>p \<in> set party. \<exists>new.
       move_issues codes stage party ticks (party_latest party (take n ticks)) b p = Some new \<and> x \<in> set new))"
    by blast
  also have "\<dots> \<longleftrightarrow> (\<exists>p \<in> set party. \<exists>n < length ticks. \<exists>b s' s m. ticks ! n = Some b \<and>
       get_player_state p b = Some s' \<and> party_latest party (take n ticks) p = Some (s, m) \<and>
       (\<exists>new. check_move codes stage party ticks (ts_tick b) p (s, m) s' = Some new \<and> x \<in> set new))"
    unfolding move_issues_reports by blast
  also have "\<dots> \<longleftrightarrow> (\<exists>p \<in> set party. \<exists>i a s j b s'. consecutive p ticks i a s j b s' \<and>
       (\<exists>new. check_move codes stage party ticks (ts_tick b) p (s, ts_tick a) s' = Some new \<and> x \<in> set new))"
  proof (rule bex_cong [OF refl])
    fix p
    assume "p \<in> set party"
    note before = party_latest_take [OF this]
    show "(\<exists>n < length ticks. \<exists>b s' s m. ticks ! n = Some b \<and> get_player_state p b = Some s' \<and>
        party_latest party (take n ticks) p = Some (s, m) \<and>
        (\<exists>new. check_move codes stage party ticks (ts_tick b) p (s, m) s' = Some new \<and> x \<in> set new)) \<longleftrightarrow>
      (\<exists>i a s j b s'. consecutive p ticks i a s j b s' \<and>
        (\<exists>new. check_move codes stage party ticks (ts_tick b) p (s, ts_tick a) s' = Some new \<and> x \<in> set new))"
      (is "?L \<longleftrightarrow> ?R")
    proof
      assume ?L
      then obtain n b s' s m new where *: "n < length ticks" "ticks ! n = Some b" "get_player_state p b = Some s'"
        "party_latest party (take n ticks) p = Some (s, m)"
        "check_move codes stage party ticks (ts_tick b) p (s, m) s' = Some new" "x \<in> set new" by blast
      from before [OF *(1)] *(4) obtain i a where i: "i < n" "ticks ! i = Some a" "get_player_state p a = Some s"
        "m = ts_tick a" "\<forall>k. i < k \<and> k < n \<longrightarrow> absent p (ticks ! k)" by blast
      have "consecutive p ticks i a s n b s'" using * i by (simp add: consecutive_def)
      with *(5,6) i(4) show ?R by blast
    next
      assume ?R
      then obtain i a s j b s' new where *: "consecutive p ticks i a s j b s'"
        "check_move codes stage party ticks (ts_tick b) p (s, ts_tick a) s' = Some new" "x \<in> set new" by blast
      then have "party_latest party (take j ticks) p = Some (s, ts_tick a)"
        by (subst before) (auto simp: consecutive_def)
      with * show ?L unfolding consecutive_def by blast
    qed
  qed
  also have "\<dots> \<longleftrightarrow> ?R"
    unfolding check_move_reports ..
  finally show ?thesis .
qed

text \<open>A timeline in which no living party member outruns two tiles a tick passes the movement check, which
  then needs no event of the stage and cannot throw.\<close>

theorem movement_quiet:
  assumes "distinct party"
    and "\<And>p i a s j b s'. p \<in> set party \<Longrightarrow> consecutive p ticks i a s j b s' \<Longrightarrow>
      ps_dead s' \<or> chebyshev (player_at s') (player_at s) \<le> 2 * (ts_tick b - ts_tick a)"
  shows "check_movement codes stage party ticks = Some []"
proof -
  have "move_issues codes stage party ticks (party_latest party (take n ticks)) b p = Some []"
    if n: "n < length ticks" "ticks ! n = Some b" and p: "p \<in> set party" for n b p
  proof (cases "get_player_state p b")
    case (Some s')
    show ?thesis
    proof (cases "party_latest party (take n ticks) p")
      case before: (Some sm)
      obtain s m where sm: "sm = (s, m)" by (cases sm)
      from before [unfolded sm party_latest_take [OF p n(1)]] obtain i a where
        i: "i < n" "ticks ! i = Some a" "get_player_state p a = Some s" "m = ts_tick a"
          "\<forall>k. i < k \<and> k < n \<longrightarrow> absent p (ticks ! k)" by blast
      have "consecutive p ticks i a s n b s'" using i n Some by (simp add: consecutive_def)
      from assms(2) [OF p this] show ?thesis
        using Some before sm i(4) by (auto simp: move_issues_def check_move_def)
    qed (simp add: move_issues_def split: option.splits)
  qed (simp add: move_issues_def)
  then have "fold (check_tick codes stage party ticks) ticks (Some ([], Map.empty)) = Some ([], party_latest party ticks)"
    by (intro check_ticks_quiet assms(1)) blast
  then show ?thesis by (simp add: check_movement_def)
qed

text \<open>A Nylocas timeline is clean exactly if its waves are in range and every later wave, not only the
  next, is a higher one whose spawn leaves time for all natural stalls since the earlier wave.\<close>

theorem nylocas_clean_iff:
  assumes "waves_recorded ticks"
  shows "check_nylocas mode ticks = Some [] \<longleftrightarrow>
    (\<forall>(w, t) \<in> set (wave_spawns ticks). 1 \<le> w \<and> w \<le> 31) \<and> sorted_wrt (stalls_apart mode) (wave_spawns ticks)"
  using check_nylocas_from_clean [OF assms, of "replicate 31 0" 0 mode] by (simp add: check_nylocas_def)

text \<open>A Bloat timeline is clean exactly if no tick has both a down and an up and the downs and ups
  alternate, beginning with a down.\<close>

theorem bloat_clean_iff:
  "check_bloat ticks = [] \<longleftrightarrow>
     (\<forall>ts. Some ts \<in> set ticks \<longrightarrow> \<not> bloat_contradicts ts) \<and>
     (let signals = List.map_filter bloat_signal ticks in \<forall>i < length signals. signals ! i = even i)"
  by (simp add: check_bloat_def check_bloat_from_clean alternates_nth Let_def)

subsection \<open>Sample timelines\<close>

definition sample_move :: "int \<Rightarrow> int \<Rightarrow> tick_state" where
  "sample_move n x = (sample_tick n [] PRIMARY)\<lparr>ts_players := [(''p'', Some ((sample_state PRIMARY)\<lparr>ps_x := x\<rparr>))]\<rparr>"

definition sample_codes :: attack_codes where
  "sample_codes = \<lparr>ac_p2_bounce = 1, ac_p3_webs = 2\<rparr>"

definition sample_wave :: "int \<Rightarrow> int \<Rightarrow> tick_state" where
  "sample_wave n w = sample_tick n [(blank_event TOB_NYLO_WAVE_SPAWN TOB_NYLOCAS n 0 0)\<lparr>ev_nylo_wave := Some w\<rparr>] PRIMARY"

lemma sample_move_state:
  "get_player_state ''p'' (sample_move n x) = Some ((sample_state PRIMARY)\<lparr>ps_x := x\<rparr>)" "ts_tick (sample_move n x) = n"
  by (simp_all add: sample_move_def get_player_state_def sample_tick_def new_tick_state_def)

lemma sample_wave_events:
  "get_events_by_type TOB_NYLO_WAVE_SPAWN (sample_wave n w) =
     [(blank_event TOB_NYLO_WAVE_SPAWN TOB_NYLOCAS n 0 0)\<lparr>ev_nylo_wave := Some w\<rparr>]" "ts_tick (sample_wave n w) = n"
  by (simp_all add: sample_wave_def sample_tick_def new_tick_state_def get_events_by_type_def get_tagged_by_type_def
      push_event_def blank_event_def type_classes)

theorem movement_issues_iff_witness:
  "\<exists>i a s j b s'. consecutive ''p'' [Some (sample_move 0 1), None, Some (sample_move 2 9)] i a s j b s' \<and>
     chebyshev (player_at s') (player_at s) > 2 * (ts_tick b - ts_tick a)"
proof -
  let ?ticks = "[Some (sample_move 0 1), None, Some (sample_move 2 9)]"
  let ?x = "Invalid_Movement ''p'' (8, 0) 2 0 2 (1, 2) (9, 2)"
  have run: "check_movement sample_codes TOB_XARPUS [''p''] ?ticks = Some [?x]"
    by (simp add: check_movement_def check_player_def sample_move_state check_move_def sample_state_def chebyshev_def
        is_special_teleport_def is_in_death_area_def in_area_def mk_area_def)
  have "distinct [''p'']" by simp
  note iff = movement_issues_iff [OF this run, of ?x]
  have single: "(\<exists>p \<in> set [''p'']. P p) \<longleftrightarrow> P ''p''" for P by simp
  have "?x \<in> set [?x]" by simp
  from this [unfolded iff single] show ?thesis by blast
qed

theorem movement_quiet_witness:
  "check_movement sample_codes TOB_VERZIK [''p''] [Some (sample_move 0 1), None, Some (sample_move 2 5)] = Some []"
proof (rule movement_quiet)
  fix p i a s j b s'
  assume "p \<in> set [''p'']" "consecutive p [Some (sample_move 0 1), None, Some (sample_move 2 5)] i a s j b s'"
  then show "ps_dead s' \<or> chebyshev (player_at s') (player_at s) \<le> 2 * (ts_tick b - ts_tick a)"
    by (auto simp: consecutive_def less_Suc_eq sample_move_state sample_state_def chebyshev_def)
qed simp

definition sample_walk :: "int \<Rightarrow> event_type \<Rightarrow> tick_state" where
  "sample_walk n t = sample_tick n [blank_event t TOB_BLOAT n 0 0] PRIMARY"

lemma sample_walk_events:
  "t \<notin> tick_state_types \<Longrightarrow> get_events_by_type u (sample_walk n t) = (if u = t then [blank_event t TOB_BLOAT n 0 0] else [])"
  by (simp add: sample_walk_def sample_tick_def new_tick_state_def get_events_by_type_def get_tagged_by_type_def
      push_event_def blank_event_def)

theorem bloat_clean_iff_witness:
  "check_bloat [Some (sample_walk 30 TOB_BLOAT_DOWN), None, Some (sample_walk 62 TOB_BLOAT_UP)] = []"
proof -
  note events = sample_walk_events [of TOB_BLOAT_DOWN] sample_walk_events [of TOB_BLOAT_UP]
  show ?thesis
    by (subst bloat_clean_iff)
      (auto simp: bloat_signal_def bloat_contradicts_def events type_classes less_Suc_eq)
qed

theorem nylocas_clean_iff_witness:
  "check_nylocas TOB_REGULAR [Some (sample_wave 4 1), None, Some (sample_wave 12 3)] = Some []"
proof -
  have stalls: "sum_natural_stalls TOB_REGULAR 1 3 = Some 8"
    by (simp add: sum_natural_stalls.simps natural_stall_for_wave_def nylocas_natural_stalls_def)
  have "waves_recorded [Some (sample_wave 4 1), None, Some (sample_wave 12 3)]"
    by (auto simp: waves_recorded_def sample_wave_events)
  from nylocas_clean_iff [OF this, of TOB_REGULAR] show ?thesis
    by (simp add: wave_spawns_def wave_spawn_def sample_wave_events stalls_apart_def stalls)
qed

end
