(* ===== verification/Nylocas_Correction.thy ===== *)
theory Nylocas_Correction
  imports Client_Consistency
begin

text \<open>
  The correction of spurious deaths and spawns in the Nylocas room (\<^verbatim>\<open>tryApplyOsrs238NylocasCorrection\<close>
  of \<^verbatim>\<open>challenge-server/merging/client-events.ts\<close>). The code collects and mutates event objects; here an
  event is named by its position in the sorted list, so its sets of objects are lists of positions in
  insertion order.
\<close>

subsection \<open>Finding the corrections\<close>

record lifecycles =
  lc_by_room :: "(int, (nat \<times> event) list) omap"
  lc_lagged :: "int list"
  lc_last :: "(string, int \<times> coords) omap"

datatype correction_action = Rewrite_Spawn | Rewrite_Death | Drop_Death

record game_correction =
  gc_applied :: "(correction_action \<times> int \<times> int) list"

definition room_of :: "event \<Rightarrow> int" where
  "room_of e = nm_room_id (the (ev_npc e))"

definition is_lifecycle :: "event \<Rightarrow> bool" where
  "is_lifecycle e \<longleftrightarrow> ev_type e = NPC_SPAWN \<or> ev_type e = NPC_DEATH"

text \<open>The non-null assertions of the first loop: they fail before anything is changed.\<close>

definition has_actor :: "event \<Rightarrow> bool" where
  "has_actor e \<longleftrightarrow> (is_lifecycle e \<longrightarrow> ev_npc e \<noteq> None) \<and> (ev_type e = PLAYER_UPDATE \<longrightarrow> ev_player e \<noteq> None)"

definition collect_event :: "nat \<times> event \<Rightarrow> lifecycles \<Rightarrow> lifecycles" where
  "collect_event ie lc =
     (let e = snd ie in
      if is_lifecycle e then
        lc\<lparr>lc_by_room := AList.update (room_of e)
             ((case map_of (lc_by_room lc) (room_of e) of None \<Rightarrow> [] | Some es \<Rightarrow> es) @ [ie]) (lc_by_room lc)\<rparr>
      else if ev_type e = PLAYER_UPDATE then
        (let name = pm_name (the (ev_player e)); pos = (ev_x e, ev_y e);
             lagged = (case map_of (lc_last lc) name of
                 Some (t, l) \<Rightarrow> chebyshev pos l > 2 * (ev_tick e - t) | None \<Rightarrow> False)
         in lc\<lparr>lc_lagged := (if lagged then oset_add (ev_tick e) (lc_lagged lc) else lc_lagged lc),
               lc_last := AList.update name (ev_tick e, pos) (lc_last lc)\<rparr>)
      else lc)"

record correction_plan =
  cp_respawns :: "nat list"
  cp_interpolated :: "(nat \<times> int \<times> int) list"
  cp_dropped :: "nat list"

definition unambiguous :: "int \<Rightarrow> int \<Rightarrow> bool" where
  "unambiguous dx dy \<longleftrightarrow> even dx \<and> even dy \<and> \<bar>dx\<bar> \<le> 2 \<and> \<bar>dy\<bar> \<le> 2 \<and> (dx \<noteq> 0 \<or> dy \<noteq> 0)"

definition plan_death :: "int list \<Rightarrow> nat \<times> event \<Rightarrow> nat \<times> event \<Rightarrow> correction_plan \<Rightarrow> correction_plan" where
  "plan_death lagged death respawn plan =
     (let d = snd death; r = snd respawn; dx = ev_x r - ev_x d; dy = ev_y r - ev_y d;
          lag_free = (ev_tick d \<notin> set lagged \<and> ev_tick r \<notin> set lagged);
          plan = plan\<lparr>cp_respawns := oset_add (fst respawn) (cp_respawns plan)\<rparr>
      in if ev_tick r = ev_tick d + 1 \<and> unambiguous dx dy \<and> lag_free
         then plan\<lparr>cp_interpolated := cp_interpolated plan @ [(fst death, ev_x d + dx div 2, ev_y d + dy div 2)]\<rparr>
         else plan\<lparr>cp_dropped := oset_add (fst death) (cp_dropped plan)\<rparr>)"

fun plan_lifecycle :: "int list \<Rightarrow> (nat \<times> event) list \<Rightarrow> correction_plan \<Rightarrow> correction_plan" where
  "plan_lifecycle lagged [] plan = plan"
| "plan_lifecycle lagged (ie # rest) plan =
     plan_lifecycle lagged rest
       (if ev_type (snd ie) \<noteq> NPC_DEATH then plan
        else case List.find (\<lambda>je. ev_type (snd je) = NPC_SPAWN) rest of
          None \<Rightarrow> plan
        | Some je \<Rightarrow> plan_death lagged ie je plan)"

definition find_corrections :: "event list \<Rightarrow> correction_plan" where
  "find_corrections es =
     (let lc = fold collect_event (enumerate 0 es) \<lparr>lc_by_room = [], lc_lagged = [], lc_last = []\<rparr>
      in fold (\<lambda>(_, l). plan_lifecycle (lc_lagged lc) l) (lc_by_room lc)
           \<lparr>cp_respawns = [], cp_interpolated = [], cp_dropped = []\<rparr>)"

subsection \<open>Applying them\<close>

definition corrected_event :: "correction_plan \<Rightarrow> nat \<times> event \<Rightarrow> event" where
  "corrected_event plan ie =
     (let e = (if fst ie \<in> set (cp_respawns plan) then (snd ie)\<lparr>ev_type := NPC_UPDATE\<rparr> else snd ie)
      in case map_of (cp_interpolated plan) (fst ie) of
           None \<Rightarrow> e
         | Some (x, y) \<Rightarrow> e\<lparr>ev_type := NPC_UPDATE, ev_x := x, ev_y := y\<rparr>)"

definition apply_corrections :: "correction_plan \<Rightarrow> event list \<Rightarrow> event list" where
  "apply_corrections plan es =
     map (corrected_event plan) (filter (\<lambda>ie. fst ie \<notin> set (cp_dropped plan)) (enumerate 0 es))"

definition applied_entry :: "event list \<Rightarrow> correction_action \<Rightarrow> nat \<Rightarrow> correction_action \<times> int \<times> int" where
  "applied_entry es a i = (a, ev_tick (es ! i), room_of (es ! i))"

definition correct_nylocas :: "event list \<Rightarrow> (event list \<times> game_correction option) option" where
  "correct_nylocas es =
     (if \<not> list_all has_actor es then None
      else (let plan = find_corrections es
        in Some (if cp_respawns plan = [] then (es, None)
             else (apply_corrections plan es,
               Some \<lparr>gc_applied = map (applied_entry es Rewrite_Spawn) (cp_respawns plan) @
                 map (\<lambda>(i, _). applied_entry es Rewrite_Death i) (cp_interpolated plan) @
                 map (applied_entry es Drop_Death) (cp_dropped plan)\<rparr>))))"

subsection \<open>What is planned\<close>

text \<open>The lifecycle of a room is the sequence of its deaths and spawns.\<close>

definition lifecycle_of :: "int \<Rightarrow> (nat \<times> event) list \<Rightarrow> (nat \<times> event) list" where
  "lifecycle_of r ies = filter (\<lambda>ie. is_lifecycle (snd ie) \<and> room_of (snd ie) = r) ies"

lemma collect_by_room:
  "map_of (lc_by_room (fold collect_event ies lc)) r =
     (if lifecycle_of r ies = [] then map_of (lc_by_room lc) r
      else Some ((case map_of (lc_by_room lc) r of None \<Rightarrow> [] | Some es \<Rightarrow> es) @ lifecycle_of r ies))"
proof (induction ies arbitrary: lc)
  case (Cons ie ies)
  have step: "map_of (lc_by_room (collect_event ie lc)) r =
      (if is_lifecycle (snd ie) \<and> room_of (snd ie) = r
       then Some ((case map_of (lc_by_room lc) r of None \<Rightarrow> [] | Some es \<Rightarrow> es) @ [ie]) else map_of (lc_by_room lc) r)"
    by (auto simp: collect_event_def Let_def omap.get_put)
  show ?case
    by (simp add: Cons.IH step) (auto simp: lifecycle_of_def)
qed (simp add: lifecycle_of_def)

lemma collect_distinct: "distinct (map fst (lc_by_room lc)) \<Longrightarrow> distinct (map fst (lc_by_room (fold collect_event ies lc)))"
proof (induction ies arbitrary: lc)
  case (Cons ie ies)
  have "distinct (map fst (lc_by_room (collect_event ie lc)))"
    using Cons.prems by (simp add: collect_event_def Let_def distinct_update)
  with Cons.IH show ?case by simp
qed simp

text \<open>A death followed by a spawn of its room is planned, whichever way; its first such spawn becomes an update.\<close>

definition planned :: "correction_plan \<Rightarrow> nat set" where
  "planned plan = fst ` set (cp_interpolated plan) \<union> set (cp_dropped plan)"

lemma plan_death_sets:
  "set (cp_respawns (plan_death lagged d r plan)) = insert (fst r) (set (cp_respawns plan))"
  "planned (plan_death lagged d r plan) = insert (fst d) (planned plan)"
  by (auto simp: plan_death_def planned_def Let_def)

fun lifecycle_deaths :: "(nat \<times> event) list \<Rightarrow> nat set" where
  "lifecycle_deaths [] = {}"
| "lifecycle_deaths (ie # rest) =
     (if ev_type (snd ie) = NPC_DEATH \<and> list_ex (\<lambda>je. ev_type (snd je) = NPC_SPAWN) rest then {fst ie} else {}) \<union>
     lifecycle_deaths rest"

fun lifecycle_respawns :: "(nat \<times> event) list \<Rightarrow> nat set" where
  "lifecycle_respawns [] = {}"
| "lifecycle_respawns (ie # rest) =
     (if ev_type (snd ie) = NPC_DEATH
      then set (map fst (case List.find (\<lambda>je. ev_type (snd je) = NPC_SPAWN) rest of None \<Rightarrow> [] | Some je \<Rightarrow> [je])) else {}) \<union>
     lifecycle_respawns rest"

lemma plan_lifecycle_sets:
  "set (cp_respawns (plan_lifecycle lagged l plan)) = lifecycle_respawns l \<union> set (cp_respawns plan) \<and>
   planned (plan_lifecycle lagged l plan) = lifecycle_deaths l \<union> planned plan"
proof (induction lagged l plan rule: plan_lifecycle.induct)
  case (2 lagged ie rest plan)
  have found: "List.find P xs \<noteq> None \<longleftrightarrow> list_ex P xs" for P and xs :: "(nat \<times> event) list"
    by (auto simp: find_None_iff list_ex_iff)
  show ?case
  proof (cases "ev_type (snd ie) = NPC_DEATH")
    case True
    then show ?thesis
      using 2 found [of "\<lambda>je. ev_type (snd je) = NPC_SPAWN" rest]
      by (cases "List.find (\<lambda>je. ev_type (snd je) = NPC_SPAWN) rest") (auto simp: plan_death_sets)
  qed (use 2 in auto)
qed simp

lemma find_corrections_sets:
  "set (cp_respawns (find_corrections es)) = (\<Union>r. lifecycle_respawns (lifecycle_of r (enumerate 0 es)))"
  "planned (find_corrections es) = (\<Union>r. lifecycle_deaths (lifecycle_of r (enumerate 0 es)))"
proof -
  define lc where "lc = fold collect_event (enumerate 0 es) \<lparr>lc_by_room = [], lc_lagged = [], lc_last = []\<rparr>"
  have get: "map_of (lc_by_room lc) r = (if lifecycle_of r (enumerate 0 es) = [] then None else Some (lifecycle_of r (enumerate 0 es)))" for r
    by (simp add: lc_def collect_by_room)
  have dist: "distinct (map fst (lc_by_room lc))"
    unfolding lc_def by (rule collect_distinct) simp
  have step: "set (cp_respawns (fold (\<lambda>(_, l). plan_lifecycle lagged l) m plan)) =
        (\<Union>(r, l) \<in> set m. lifecycle_respawns l) \<union> set (cp_respawns plan) \<and>
      planned (fold (\<lambda>(_, l). plan_lifecycle lagged l) m plan) = (\<Union>(r, l) \<in> set m. lifecycle_deaths l) \<union> planned plan"
    for m :: "(int \<times> (nat \<times> event) list) list" and lagged plan
  proof (induction m arbitrary: plan)
    case (Cons rl m)
    then show ?case by (cases rl) (auto simp: plan_lifecycle_sets)
  qed simp
  have all: "(\<Union>(r, l) \<in> set (lc_by_room lc). f l) = (\<Union>r. f (lifecycle_of r (enumerate 0 es)))" if "f [] = {}"
    for f :: "(nat \<times> event) list \<Rightarrow> nat set"
  proof (intro set_eqI iffI)
    fix x
    assume "x \<in> (\<Union>(r, l) \<in> set (lc_by_room lc). f l)"
    then obtain r l where "(r, l) \<in> set (lc_by_room lc)" "x \<in> f l" by blast
    with dist get [of r] have "l = lifecycle_of r (enumerate 0 es)" by (auto split: if_splits)
    with \<open>x \<in> f l\<close> show "x \<in> (\<Union>r. f (lifecycle_of r (enumerate 0 es)))" by blast
  next
    fix x
    assume "x \<in> (\<Union>r. f (lifecycle_of r (enumerate 0 es)))"
    then obtain r where r: "x \<in> f (lifecycle_of r (enumerate 0 es))" by blast
    with that have "lifecycle_of r (enumerate 0 es) \<noteq> []" by auto
    with get [of r] have "(r, lifecycle_of r (enumerate 0 es)) \<in> set (lc_by_room lc)" by (auto dest: map_of_SomeD)
    with r show "x \<in> (\<Union>(r, l) \<in> set (lc_by_room lc). f l)" by blast
  qed
  show "set (cp_respawns (find_corrections es)) = (\<Union>r. lifecycle_respawns (lifecycle_of r (enumerate 0 es)))"
    "planned (find_corrections es) = (\<Union>r. lifecycle_deaths (lifecycle_of r (enumerate 0 es)))"
    using step [of "lc_lagged lc" "lc_by_room lc" "\<lparr>cp_respawns = [], cp_interpolated = [], cp_dropped = []\<rparr>"]
      all [of lifecycle_respawns] all [of lifecycle_deaths]
    by (simp_all add: find_corrections_def lc_def [symmetric] Let_def planned_def)
qed

text \<open>In terms of positions: which deaths and spawns are spurious.\<close>

definition spurious_death :: "event list \<Rightarrow> nat \<Rightarrow> bool" where
  "spurious_death es i \<longleftrightarrow> i < length es \<and> ev_type (es ! i) = NPC_DEATH \<and>
     (\<exists>j. i < j \<and> j < length es \<and> ev_type (es ! j) = NPC_SPAWN \<and> room_of (es ! j) = room_of (es ! i))"

definition spurious_spawn :: "event list \<Rightarrow> nat \<Rightarrow> bool" where
  "spurious_spawn es j \<longleftrightarrow> j < length es \<and> ev_type (es ! j) = NPC_SPAWN \<and>
     (\<exists>i < j. ev_type (es ! i) = NPC_DEATH \<and> room_of (es ! i) = room_of (es ! j) \<and>
       (\<forall>k. i < k \<and> k < j \<longrightarrow> \<not> (ev_type (es ! k) = NPC_SPAWN \<and> room_of (es ! k) = room_of (es ! j))))"

definition ordered :: "(nat \<times> event) list \<Rightarrow> bool" where
  "ordered l \<longleftrightarrow> sorted_wrt (\<lambda>a b. fst a < fst b) l"

lemma ordered_lifecycle: "ordered (lifecycle_of r (enumerate 0 es))"
proof -
  have "sorted_wrt (\<lambda>a b. fst a < fst b) (enumerate n es)" for n
    by (induction es arbitrary: n) (force simp: in_set_enumerate_eq)+
  then show ?thesis by (simp add: ordered_def lifecycle_of_def sorted_wrt_filter)
qed

lemma in_lifecycle:
  "ie \<in> set (lifecycle_of r (enumerate 0 es)) \<longleftrightarrow>
     fst ie < length es \<and> snd ie = es ! fst ie \<and> is_lifecycle (snd ie) \<and> room_of (snd ie) = r"
  by (auto simp: lifecycle_of_def in_set_enumerate_eq)

lemma lifecycle_deaths_iff:
  "ordered l \<Longrightarrow> i \<in> lifecycle_deaths l \<longleftrightarrow>
     (\<exists>ie \<in> set l. fst ie = i \<and> ev_type (snd ie) = NPC_DEATH \<and>
       (\<exists>je \<in> set l. i < fst je \<and> ev_type (snd je) = NPC_SPAWN))"
proof (induction l)
  case (Cons ie l)
  have "ordered l" and first: "\<forall>je \<in> set l. fst ie < fst je"
    using Cons.prems by (auto simp: ordered_def)
  with Cons.IH show ?case
    by (auto simp: list_ex_iff)
qed simp

lemma find_first:
  "ordered l \<Longrightarrow> List.find P l = Some je \<longleftrightarrow> je \<in> set l \<and> P je \<and> (\<forall>ke \<in> set l. fst ke < fst je \<longrightarrow> \<not> P ke)"
proof (induction l)
  case (Cons ie l)
  have "ordered l" and first: "\<forall>je \<in> set l. fst ie < fst je"
    using Cons.prems by (auto simp: ordered_def)
  with Cons.IH show ?case
    by (auto split: if_splits dest: order_less_asym)
qed simp

lemma first_after_Cons:
  assumes "\<forall>x \<in> set l. f a < (f x :: nat)"
  shows "(\<exists>x \<in> set (a # l). f x = j \<and> S x \<and>
        (\<exists>y \<in> set (a # l). f y < j \<and> D y \<and> (\<forall>z \<in> set (a # l). f y < f z \<and> f z < j \<longrightarrow> \<not> S z))) \<longleftrightarrow>
    D a \<and> (\<exists>x \<in> set l. f x = j \<and> S x \<and> (\<forall>z \<in> set l. f z < j \<longrightarrow> \<not> S z)) \<or>
    (\<exists>x \<in> set l. f x = j \<and> S x \<and> (\<exists>y \<in> set l. f y < j \<and> D y \<and> (\<forall>z \<in> set l. f y < f z \<and> f z < j \<longrightarrow> \<not> S z)))"
    (is "?L \<longleftrightarrow> ?A \<or> ?B")
proof
  assume ?L
  then obtain x y where x: "x \<in> set (a # l)" "f x = j" "S x" and y: "y \<in> set (a # l)" "f y < j" "D y"
    and none: "\<forall>z \<in> set (a # l). f y < f z \<and> f z < j \<longrightarrow> \<not> S z" by blast
  have "x \<in> set l" using x y assms by auto
  show "?A \<or> ?B"
  proof (cases "y = a")
    case True
    with none assms have "\<forall>z \<in> set l. f z < j \<longrightarrow> \<not> S z" by auto
    with True x y \<open>x \<in> set l\<close> show ?thesis by blast
  next
    case False
    with x y none \<open>x \<in> set l\<close> show ?thesis by auto
  qed
next
  assume "?A \<or> ?B"
  then show ?L
  proof
    assume ?A
    then obtain x where "D a" "x \<in> set l" "f x = j" "S x" "\<forall>z \<in> set l. f z < j \<longrightarrow> \<not> S z" by blast
    then show ?L using assms by (intro bexI [of _ x]) auto
  next
    assume ?B
    then obtain x y where "x \<in> set l" "f x = j" "S x" "y \<in> set l" "f y < j" "D y"
      "\<forall>z \<in> set l. f y < f z \<and> f z < j \<longrightarrow> \<not> S z" by blast
    then show ?L using assms by (intro bexI [of _ x] conjI bexI [of _ y]) auto
  qed
qed

lemma lifecycle_respawns_iff:
  "ordered l \<Longrightarrow> j \<in> lifecycle_respawns l \<longleftrightarrow>
     (\<exists>je \<in> set l. fst je = j \<and> ev_type (snd je) = NPC_SPAWN \<and>
       (\<exists>ie \<in> set l. fst ie < j \<and> ev_type (snd ie) = NPC_DEATH \<and>
         (\<forall>ke \<in> set l. fst ie < fst ke \<and> fst ke < j \<longrightarrow> \<not> ev_type (snd ke) = NPC_SPAWN)))"
proof (induction l)
  case (Cons ie l)
  have ol: "ordered l" and first: "\<forall>je \<in> set l. fst ie < fst je"
    using Cons.prems by (auto simp: ordered_def)
  have found: "(\<exists>je. List.find P l = Some je \<and> fst je = j) \<longleftrightarrow>
      (\<exists>je \<in> set l. fst je = j \<and> P je \<and> (\<forall>ke \<in> set l. fst ke < j \<longrightarrow> \<not> P ke))" for P
    using find_first [OF ol, of P] by blast
  have "j \<in> lifecycle_respawns (ie # l) \<longleftrightarrow> ev_type (snd ie) = NPC_DEATH \<and>
      (\<exists>je. List.find (\<lambda>je. ev_type (snd je) = NPC_SPAWN) l = Some je \<and> fst je = j) \<or> j \<in> lifecycle_respawns l"
    by (cases "List.find (\<lambda>je. ev_type (snd je) = NPC_SPAWN) l") auto
  then show ?case
    unfolding found Cons.IH [OF ol] first_after_Cons [OF first] .
qed simp

lemma ball_lifecycle:
  "(\<forall>ke \<in> set (lifecycle_of r (enumerate 0 es)). P ke) \<longleftrightarrow>
     (\<forall>k < length es. is_lifecycle (es ! k) \<and> room_of (es ! k) = r \<longrightarrow> P (k, es ! k))"
  by (force simp: in_lifecycle)

lemma bex_lifecycle:
  "(\<exists>ke \<in> set (lifecycle_of r (enumerate 0 es)). P ke) \<longleftrightarrow>
     (\<exists>k < length es. is_lifecycle (es ! k) \<and> room_of (es ! k) = r \<and> P (k, es ! k))"
  by (force simp: in_lifecycle)

lemma planned_iff: "i \<in> planned (find_corrections es) \<longleftrightarrow> spurious_death es i"
  by (auto simp: find_corrections_sets lifecycle_deaths_iff [OF ordered_lifecycle] in_lifecycle Bex_def
      spurious_death_def is_lifecycle_def)

lemma respawns_iff: "j \<in> set (cp_respawns (find_corrections es)) \<longleftrightarrow> spurious_spawn es j"
proof -
  have "j \<in> set (cp_respawns (find_corrections es)) \<longleftrightarrow> j < length es \<and> ev_type (es ! j) = NPC_SPAWN \<and>
      (\<exists>i < length es. ev_type (es ! i) = NPC_DEATH \<and> room_of (es ! i) = room_of (es ! j) \<and> i < j \<and>
        (\<forall>k < length es. is_lifecycle (es ! k) \<and> room_of (es ! k) = room_of (es ! j) \<longrightarrow> i < k \<and> k < j \<longrightarrow>
          \<not> ev_type (es ! k) = NPC_SPAWN))"
    unfolding find_corrections_sets UN_iff lifecycle_respawns_iff [OF ordered_lifecycle] ball_lifecycle bex_lifecycle fst_conv snd_conv
    by (auto simp: is_lifecycle_def)
  also have "\<dots> \<longleftrightarrow> spurious_spawn es j"
    unfolding spurious_spawn_def is_lifecycle_def by (meson dual_order.strict_trans)
  finally show ?thesis .
qed

subsection \<open>The corrected events\<close>

text \<open>Interpolated positions are one tile from where the death was recorded.\<close>

definition interpolated_near :: "event list \<Rightarrow> correction_plan \<Rightarrow> bool" where
  "interpolated_near es plan \<longleftrightarrow>
     (\<forall>(i, x, y) \<in> set (cp_interpolated plan). chebyshev (x, y) (ev_x (es ! i), ev_y (es ! i)) = 1)"

lemma half_step: "unambiguous dx dy \<Longrightarrow> chebyshev (x + dx div 2, y + dy div 2) (x, y) = 1"
proof -
  assume u: "unambiguous dx dy"
  have "d = -2 \<or> d = 0 \<or> d = 2" if "even d" "\<bar>d\<bar> \<le> 2" for d :: int
    using that by presburger
  with u have "dx = -2 \<or> dx = 0 \<or> dx = 2" "dy = -2 \<or> dy = 0 \<or> dy = 2" "dx \<noteq> 0 \<or> dy \<noteq> 0"
    by (auto simp: unambiguous_def)
  then show ?thesis by (auto simp: chebyshev_def)
qed

lemma plan_death_near:
  "interpolated_near es plan \<Longrightarrow> snd d = es ! fst d \<Longrightarrow> interpolated_near es (plan_death lagged d r plan)"
  by (auto simp: plan_death_def interpolated_near_def Let_def half_step)

lemma plan_lifecycle_near:
  "interpolated_near es plan \<Longrightarrow> \<forall>ie \<in> set l. snd ie = es ! fst ie \<Longrightarrow>
     interpolated_near es (plan_lifecycle lagged l plan)"
proof (induction lagged l plan rule: plan_lifecycle.induct)
  case (2 lagged ie rest plan)
  then show ?case by (auto simp: plan_death_near split: option.split)
qed simp

lemma find_corrections_near: "interpolated_near es (find_corrections es)"
proof -
  define lc where "lc = fold collect_event (enumerate 0 es) \<lparr>lc_by_room = [], lc_lagged = [], lc_last = []\<rparr>"
  have dist: "distinct (map fst (lc_by_room lc))"
    unfolding lc_def by (rule collect_distinct) simp
  have "snd ie = es ! fst ie" if "(r, l) \<in> set (lc_by_room lc)" "ie \<in> set l" for r l ie
  proof -
    have "map_of (lc_by_room lc) r = Some l" using that(1) dist by simp
    then have "l = lifecycle_of r (enumerate 0 es)"
      by (simp add: lc_def collect_by_room split: if_splits)
    with that(2) show ?thesis by (simp add: in_lifecycle)
  qed
  then have step: "interpolated_near es (plan_lifecycle lagged l plan)"
    if "(r, l) \<in> set (lc_by_room lc)" "interpolated_near es plan" for r l lagged plan
    using that by (intro plan_lifecycle_near) auto
  have "interpolated_near es (fold (\<lambda>(_, l). plan_lifecycle (lc_lagged lc) l) (lc_by_room lc)
      \<lparr>cp_respawns = [], cp_interpolated = [], cp_dropped = []\<rparr>)"
  proof (rule fold_invariant [where Q = "\<lambda>rl. rl \<in> set (lc_by_room lc)"])
    fix rl plan
    assume near: "rl \<in> set (lc_by_room lc)" "interpolated_near es plan"
    obtain r l where rl: "rl = (r, l)" by (rule prod.exhaust)
    from step [OF near [unfolded rl]] show "interpolated_near es ((\<lambda>(_, l). plan_lifecycle (lc_lagged lc) l) rl plan)"
      by (simp add: rl)
  qed (simp_all add: interpolated_near_def)
  then show ?thesis by (simp add: find_corrections_def lc_def Let_def)
qed

lemma spurious_death_spawn: "spurious_death es i \<Longrightarrow> \<exists>j. spurious_spawn es j"
proof -
  assume d: "spurious_death es i"
  define P where "P = (\<lambda>j. i < j \<and> j < length es \<and> ev_type (es ! j) = NPC_SPAWN \<and> room_of (es ! j) = room_of (es ! i))"
  have "\<exists>j. P j" using d by (auto simp: spurious_death_def P_def)
  then obtain j where "P j" and first: "\<And>k. k < j \<Longrightarrow> \<not> P k" using exists_least_iff [of P] by blast
  then have j: "i < j" "j < length es" "ev_type (es ! j) = NPC_SPAWN" "room_of (es ! j) = room_of (es ! i)"
    by (simp_all add: P_def)
  have none: "\<not> (ev_type (es ! k) = NPC_SPAWN \<and> room_of (es ! k) = room_of (es ! j))" if "i < k" "k < j" for k
    using first [OF that(2)] that j by (simp add: P_def)
  have "ev_type (es ! i) = NPC_DEATH" using d by (simp add: spurious_death_def)
  with j none have "spurious_spawn es j"
    unfolding spurious_spawn_def by metis
  then show ?thesis ..
qed

lemma enumerate_conv: "enumerate 0 es = map (\<lambda>i. (i, es ! i)) [0..<length es]"
  by (rule nth_equalityI) (simp_all add: nth_enumerate_eq)

text \<open>What becomes of the event at a position.\<close>

definition fate :: "correction_plan \<Rightarrow> event list \<Rightarrow> nat \<Rightarrow> event option" where
  "fate plan es i = (if i \<in> set (cp_dropped plan) then None else Some (corrected_event plan (i, es ! i)))"

lemma apply_corrections_fate: "apply_corrections plan es = List.map_filter (fate plan es) [0..<length es]"
proof -
  have conv: "map f (filter P (map g xs)) = List.map_filter (\<lambda>i. if P (g i) then Some (f (g i)) else None) xs" for f P g and xs :: "nat list"
    by (induction xs) simp_all
  show ?thesis
    unfolding apply_corrections_def enumerate_conv conv
    by (rule map_filter_cong) (simp add: fate_def)
qed

definition fate_ok :: "event list \<Rightarrow> nat \<Rightarrow> event option \<Rightarrow> bool" where
  "fate_ok es i r \<longleftrightarrow>
     (if spurious_death es i then r = None \<or> (\<exists>x y. r = Some ((es ! i)\<lparr>ev_type := NPC_UPDATE, ev_x := x, ev_y := y\<rparr>) \<and>
        chebyshev (x, y) (ev_x (es ! i), ev_y (es ! i)) = 1)
      else if spurious_spawn es i then r = Some ((es ! i)\<lparr>ev_type := NPC_UPDATE\<rparr>)
      else r = Some (es ! i))"

lemma fate_ok_kept: "fate_ok es i (Some e) \<Longrightarrow> is_lifecycle e \<Longrightarrow> e = es ! i \<and> \<not> spurious_death es i"
  by (auto simp: fate_ok_def is_lifecycle_def split: if_splits)

lemma fate_ok_actor: "fate_ok es i (Some e) \<Longrightarrow> has_actor (es ! i) \<Longrightarrow> has_actor e"
  by (auto simp: fate_ok_def has_actor_def is_lifecycle_def split: if_splits)

lemma fate_of_correction: "fate_ok es i (fate (find_corrections es) es i)"
proof -
  let ?plan = "find_corrections es"
  have interp: "map_of (cp_interpolated ?plan) i = None" if "\<not> spurious_death es i"
    using that planned_iff [of i es] by (auto simp: map_of_eq_None_iff planned_def)
  have kept: "i \<notin> set (cp_dropped ?plan)" if "\<not> spurious_death es i"
    using that planned_iff [of i es] by (auto simp: planned_def)
  show ?thesis
  proof (cases "spurious_death es i")
    case False
    then show ?thesis
      using interp kept by (simp add: fate_ok_def fate_def corrected_event_def respawns_iff)
  next
    case True
    then have no_spawn: "i \<notin> set (cp_respawns ?plan)"
      by (auto simp: respawns_iff spurious_spawn_def spurious_death_def)
    show ?thesis
    proof (cases "i \<in> set (cp_dropped ?plan)")
      case False
      with True have "i \<in> fst ` set (cp_interpolated ?plan)"
        using planned_iff [of i es] by (auto simp: planned_def)
      then obtain x y where xy: "map_of (cp_interpolated ?plan) i = Some (x, y)"
        by (metis map_of_eq_None_iff option.exhaust prod.exhaust)
      then have "chebyshev (x, y) (ev_x (es ! i), ev_y (es ! i)) = 1"
        using find_corrections_near [of es] by (auto simp: interpolated_near_def dest!: map_of_SomeD)
      moreover have "fate ?plan es i = Some ((es ! i)\<lparr>ev_type := NPC_UPDATE, ev_x := x, ev_y := y\<rparr>)"
        using False xy no_spawn by (simp add: fate_def corrected_event_def)
      ultimately show ?thesis
        using True unfolding fate_ok_def by auto
    qed (simp add: True fate_ok_def fate_def)
  qed
qed

lemma correct_nylocas_fate:
  assumes "correct_nylocas es = Some (out, c)"
  shows "\<exists>g. out = List.map_filter g [0..<length es] \<and> (\<forall>i < length es. fate_ok es i (g i)) \<and>
    (c = None \<longleftrightarrow> (\<forall>i. \<not> spurious_spawn es i)) \<and> list_all has_actor es"
proof (cases "cp_respawns (find_corrections es) = []")
  case True
  then have no_spawn: "\<not> spurious_spawn es i" for i using respawns_iff [of i es] by simp
  then have "\<not> spurious_death es i" for i using spurious_death_spawn by blast
  with no_spawn have "fate_ok es i (Some (es ! i))" for i by (simp add: fate_ok_def)
  moreover have "es = List.map_filter (\<lambda>i. Some (es ! i)) [0..<length es]"
    by (simp add: List.map_filter_def comp_def map_nth)
  ultimately show ?thesis
    using assms True no_spawn by (auto simp: correct_nylocas_def Let_def split: if_splits)
next
  case False
  then have "\<exists>i. spurious_spawn es i" by (metis respawns_iff list.set_intros(1) neq_Nil_conv)
  with False show ?thesis
    using assms fate_of_correction [of es]
    by (auto simp: correct_nylocas_def Let_def apply_corrections_fate split: if_splits)
qed

lemma map_filter_upt_order:
  assumes "i < j" and "j < length (List.map_filter g [0..<n])"
  shows "\<exists>a b. a < b \<and> b < n \<and> g a = Some (List.map_filter g [0..<n] ! i) \<and> g b = Some (List.map_filter g [0..<n] ! j)"
proof -
  define ks where "ks = filter (\<lambda>x. g x \<noteq> None) [0..<n]"
  have mf: "List.map_filter g [0..<n] = map (the \<circ> g) ks"
    by (simp add: List.map_filter_def ks_def)
  have len: "j < length ks" using assms(2) by (simp add: mf)
  have "sorted_wrt (<) ks" by (simp add: ks_def sorted_wrt_filter)
  then have "ks ! i < ks ! j" using assms(1) len by (rule sorted_wrt_nth_less)
  moreover have "ks ! i \<in> set ks" "ks ! j \<in> set ks" using assms(1) len by simp_all
  ultimately show ?thesis
    using assms(1) len unfolding mf by (intro exI [of _ "ks ! i"] exI [of _ "ks ! j"]) (auto simp: ks_def)
qed

subsection \<open>Properties\<close>

text \<open>C28: the Nylocas correction changes exactly the spurious events: a death that a spawn of its room follows
  is dropped or becomes an update one tile away, the first spawn after a death becomes an update and
  stays otherwise as it was, and every other event, the terminal deaths and first spawns among them,
  is kept unchanged and in order; a correction is reported iff there was anything to correct.\<close>

theorem nylocas_correction_effect:
  assumes "correct_nylocas es = Some (out, c)"
  shows "(\<exists>g. out = List.map_filter g [0..<length es] \<and> (\<forall>i < length es.
      if spurious_death es i then g i = None \<or> (\<exists>x y. g i = Some ((es ! i)\<lparr>ev_type := NPC_UPDATE, ev_x := x, ev_y := y\<rparr>) \<and>
        chebyshev (x, y) (ev_x (es ! i), ev_y (es ! i)) = 1)
      else if spurious_spawn es i then g i = Some ((es ! i)\<lparr>ev_type := NPC_UPDATE\<rparr>)
      else g i = Some (es ! i))) \<and>
    (c = None \<longleftrightarrow> (\<forall>i. \<not> spurious_spawn es i))"
  using correct_nylocas_fate [OF assms] unfolding fate_ok_def by blast

text \<open>After the correction no room has a spawn after a death, and correcting again changes nothing.\<close>

theorem nylocas_corrected_clean:
  assumes "correct_nylocas es = Some (out, c)"
  shows "(\<forall>i j. i < j \<and> j < length out \<and> ev_type (out ! i) = NPC_DEATH \<and> ev_type (out ! j) = NPC_SPAWN \<longrightarrow>
      room_of (out ! i) \<noteq> room_of (out ! j)) \<and> correct_nylocas out = Some (out, None)"
proof -
  from correct_nylocas_fate [OF assms] obtain g where g: "out = List.map_filter g [0..<length es]"
    "\<forall>i < length es. fate_ok es i (g i)" and actors: "list_all has_actor es" by blast
  have kept: "e = es ! a \<and> \<not> spurious_death es a" if "a < length es" "g a = Some e" "is_lifecycle e" for a e
    using g(2) [rule_format, OF that(1)] that(2,3) by (auto dest: fate_ok_kept)
  have apart: "room_of (out ! i) \<noteq> room_of (out ! j)"
    if ij: "i < j" "j < length out" and types: "ev_type (out ! i) = NPC_DEATH" "ev_type (out ! j) = NPC_SPAWN" for i j
  proof
    assume same: "room_of (out ! i) = room_of (out ! j)"
    from map_filter_upt_order [of i j g "length es"] ij g(1) obtain a b where
      ab: "a < b" "b < length es" "g a = Some (out ! i)" "g b = Some (out ! j)" by auto
    have "out ! i = es ! a" "out ! j = es ! b" "\<not> spurious_death es a"
      using kept [of a "out ! i"] kept [of b "out ! j"] ab types by (simp_all add: is_lifecycle_def)
    with ab types same show False unfolding spurious_death_def by auto
  qed
  have "has_actor e" if "e \<in> set out" for e
  proof -
    from that g(1) obtain a where a: "a < length es" "g a = Some e" by (auto simp: set_map_filter_conv)
    then have "has_actor (es ! a)" using actors by (simp add: list_all_length)
    with a g(2) show ?thesis by (metis fate_ok_actor)
  qed
  then have "list_all has_actor out" by (simp add: list_all_iff)
  moreover have "\<not> spurious_spawn out j" for j
    using apart unfolding spurious_spawn_def by blast
  then have "cp_respawns (find_corrections out) = []"
    by (metis respawns_iff list.set_intros(1) neq_Nil_conv)
  ultimately show ?thesis
    using apart by (auto simp: correct_nylocas_def)
qed

subsection \<open>A sample\<close>

definition sample_npc :: "event_type \<Rightarrow> int \<Rightarrow> int \<Rightarrow> event" where
  "sample_npc t tick x = (blank_event t TOB_NYLOCAS tick x 5)\<lparr>ev_npc := Some (blank_npc 8342 7)\<rparr>"

definition sample_room :: "event list" where
  "sample_room = [sample_npc NPC_SPAWN 1 10, sample_npc NPC_DEATH 4 12, sample_npc NPC_SPAWN 5 14, sample_npc NPC_DEATH 9 18]"

lemma sample_room_corrected:
  "correct_nylocas sample_room =
     Some ([sample_npc NPC_SPAWN 1 10, sample_npc NPC_UPDATE 4 13, sample_npc NPC_UPDATE 5 14, sample_npc NPC_DEATH 9 18],
       Some \<lparr>gc_applied = [(Rewrite_Spawn, 5, 7), (Rewrite_Death, 4, 7)]\<rparr>)"
  by (simp add: correct_nylocas_def sample_room_def has_actor_def is_lifecycle_def sample_npc_def blank_event_def
      find_corrections_def collect_event_def room_of_def blank_npc_def plan_death_def unambiguous_def oset_add_def
      apply_corrections_def corrected_event_def applied_entry_def)

theorem nylocas_correction_effect_witness:
  "\<exists>i. spurious_spawn sample_room i"
  using nylocas_correction_effect [OF sample_room_corrected] by simp

theorem nylocas_corrected_clean_witness:
  "correct_nylocas [sample_npc NPC_SPAWN 1 10, sample_npc NPC_UPDATE 4 13, sample_npc NPC_UPDATE 5 14, sample_npc NPC_DEATH 9 18] =
     Some ([sample_npc NPC_SPAWN 1 10, sample_npc NPC_UPDATE 4 13, sample_npc NPC_UPDATE 5 14, sample_npc NPC_DEATH 9 18], None)"
  using nylocas_corrected_clean [OF sample_room_corrected] by blast

end
