(* ===== verification/Client_Events.thy ===== *)
theory Client_Events
  imports Nylocas_Correction
begin

text \<open>
  The events one client recorded of a stage (\<^verbatim>\<open>challenge-server/merging/client-events.ts\<close>): reading its
  stream, sorting and correcting the events, sorting them into ticks, following its players through the
  ticks, and judging whether its tick count can be relied on. Decoding the protobuf payload of a
  stream record is generated code and a parameter. Ticks are unsigned in the messages; a negative one
  would index outside the buckets and throw. Logging and metrics are left out.
\<close>

subsection \<open>Data\<close>

datatype client_anomaly = MULTIPLE_PRIMARY_PLAYERS | MISSING_STAGE_METADATA | CONSISTENCY_ISSUES
  | EVENTS_BEYOND_RECORDED_TICKS | GAME_CORRECTION_APPLIED | BAD_DATA

datatype stage_status = ENTERED | STARTED | COMPLETED | WIPED

record server_ticks =
  sv_count :: int
  sv_precise :: bool

record client_metadata =
  md_user_id :: int
  md_plugin_version :: string
  md_runelite_version :: string

record sote_pivots =
  sp_maze :: int
  sp_overworld :: "coords list"
  sp_underworld :: "coords list"

record stage_info =
  si_stage :: stage
  si_status :: stage_status
  si_accurate :: bool
  si_recorded :: int
  si_server :: "server_ticks option"

record challenge_info =
  ci_uuid :: string
  ci_mode :: challenge_mode
  ci_party :: "string list"

record client_events =
  ce_id :: int
  ce_challenge :: challenge_info
  ce_info :: stage_info
  ce_ticks :: "tick_state list"
  ce_pivots :: "sote_pivots list"
  ce_metadata :: "client_metadata option"
  ce_primary :: "string option"
  ce_invalid_ticks :: bool
  ce_anomalies :: "client_anomaly list"
  ce_corrections :: "game_correction list"
  ce_accurate :: bool
  ce_issues :: "issue list"

subsection \<open>Players\<close>

definition read_player_stats :: "raw_stats \<Rightarrow> player_stats option" where
  "read_player_stats r =
     (let f = map_option skill_from_raw;
          s = \<lparr>st_hitpoints = f (rs_hitpoints r), st_prayer = f (rs_prayer r), st_attack = f (rs_attack r),
               st_strength = f (rs_strength r), st_defence = f (rs_defence r), st_ranged = f (rs_ranged r),
               st_magic = f (rs_magic r)\<rparr>
      in if list_all (\<lambda>g. g s = None)
              [st_hitpoints, st_prayer, st_attack, st_strength, st_defence, st_ranged, st_magic]
         then None else Some s)"

definition is_player_event :: "string \<Rightarrow> event \<Rightarrow> bool" where
  "is_player_event p e \<longleftrightarrow>
     ev_type e \<in> {PLAYER_UPDATE, PLAYER_ATTACK, PLAYER_SPELL, PLAYER_DEATH} \<and> map_option pm_name (ev_player e) = Some p"

definition fresh_player :: "int \<Rightarrow> string \<Rightarrow> player_state option \<Rightarrow> bool \<Rightarrow> player_state" where
  "fresh_player cid p last_state dead =
     \<lparr>ps_source = SECONDARY, ps_username = p,
      ps_x = (case last_state of None \<Rightarrow> 0 | Some s \<Rightarrow> ps_x s),
      ps_y = (case last_state of None \<Rightarrow> 0 | Some s \<Rightarrow> ps_y s),
      ps_dead = dead,
      ps_equipment = (case last_state of None \<Rightarrow> Map.empty | Some s \<Rightarrow> ps_equipment s),
      ps_prayers = prayers_empty NORMAL_BOOK, ps_attack = None, ps_spell = None, ps_stats = None,
      ps_off_cooldown = None, ps_client = cid\<rparr>"

definition read_attack :: "int \<Rightarrow> attack_msg \<Rightarrow> player_attacked" where
  "read_attack cid a =
     \<lparr>at_type = am_type a, at_weapon_id = (case am_weapon_id a of None \<Rightarrow> 0 | Some w \<Rightarrow> w),
      at_distance = am_distance a,
      at_target = (case am_target a of
          None \<Rightarrow> None
        | Some (i, r) \<Rightarrow> if i > 0 \<and> r > 0 then Some (i, r, cid) else None),
      at_source = cid\<rparr>"

definition read_spell :: "int \<Rightarrow> spell_msg \<Rightarrow> spell_cast" where
  "read_spell cid sp =
     \<lparr>sl_type = sm_type sp,
      sl_target = (case sm_target_player sp of
          Some n \<Rightarrow> Some (Spell_Player n, cid)
        | None \<Rightarrow> map_option (\<lambda>(i, r). (Spell_Npc i r, cid)) (sm_target_npc sp)),
      sl_source = cid\<rparr>"

definition apply_player_event :: "int \<Rightarrow> event \<Rightarrow> (player_state \<times> bool) option \<Rightarrow> (player_state \<times> bool) option" where
  "apply_player_event cid e acc =
     (case acc of
        None \<Rightarrow> None
      | Some (s, dead) \<Rightarrow>
          (if ev_type e = PLAYER_UPDATE then
             map_option (\<lambda>m.
               (s\<lparr>ps_source := pm_source m, ps_x := ev_x e, ps_y := ev_y e, ps_prayers := pm_prayers m,
                  ps_stats := read_player_stats (pm_stats m),
                  ps_equipment := apply_item_deltas (pm_deltas m)
                    (if pm_snapshot m then None else Some (\<lambda>slot. map_option Some (ps_equipment s slot)))\<rparr>, dead))
               (ev_player e)
           else if ev_type e = PLAYER_DEATH then Some (s\<lparr>ps_dead := True\<rparr>, True)
           else if ev_type e = PLAYER_ATTACK then
             map_option (\<lambda>a. (s\<lparr>ps_attack := Some (read_attack cid a)\<rparr>, dead)) (ev_player_attack e)
           else if ev_type e = PLAYER_SPELL then
             map_option (\<lambda>sp. (s\<lparr>ps_spell := Some (read_spell cid sp)\<rparr>, dead)) (ev_player_spell e)
           else Some (s, dead)))"

fun player_states :: "int \<Rightarrow> string \<Rightarrow> player_state option \<Rightarrow> bool \<Rightarrow> event list list \<Rightarrow> player_state option list option" where
  "player_states cid p last_state dead [] = Some []"
| "player_states cid p last_state dead (es # rest) =
     (let mine = filter (is_player_event p) es in
      if mine = [] then map_option (\<lambda>ss. None # ss) (player_states cid p last_state dead rest)
      else case fold (apply_player_event cid) mine (Some (fresh_player cid p last_state dead, dead)) of
        None \<Rightarrow> None
      | Some (s, dead') \<Rightarrow> map_option (\<lambda>ss. Some s # ss) (player_states cid p (Some s) dead' rest))"

fun build_player_states :: "int \<Rightarrow> event list list \<Rightarrow> string list \<Rightarrow> (string, player_state option list) omap option" where
  "build_player_states cid buckets [] = Some []"
| "build_player_states cid buckets (p # party) =
     (case player_states cid p None False buckets of
        None \<Rightarrow> None
      | Some ss \<Rightarrow> map_option (\<lambda>m. (p, ss) # m) (build_player_states cid buckets party))"

subsection \<open>Sorting the events into ticks\<close>

record ingest =
  in_buckets :: "event list list"
  in_dropped :: nat
  in_derived :: nat
  in_primary :: "string list"
  in_pivots :: "sote_pivots list"

text \<open>Whether a maze event carries the pivots of the stage instead of tiles of its tick.\<close>

definition is_pivot_event :: "event \<Rightarrow> bool" where
  "is_pivot_event e \<longleftrightarrow> ev_type e = TOB_SOTE_MAZE_PATH \<and> map_option so_overworld_tiles (ev_sote e) = Some []"

definition pivots_of :: "event \<Rightarrow> sote_pivots list" where
  "pivots_of e =
     (case ev_sote e of
        None \<Rightarrow> []
      | Some m \<Rightarrow>
          (if so_overworld_pivots m \<noteq> [] \<or> so_underworld_pivots m \<noteq> []
           then [\<lparr>sp_maze = so_maze m, sp_overworld = so_overworld_pivots m, sp_underworld = so_underworld_pivots m\<rparr>]
           else []))"

definition ingest_event :: "int \<Rightarrow> event \<Rightarrow> ingest option \<Rightarrow> ingest option" where
  "ingest_event recorded e acc =
     (case acc of
        None \<Rightarrow> None
      | Some s \<Rightarrow>
          (if ev_type e \<in> derived_types then Some (s\<lparr>in_derived := in_derived s + 1\<rparr>)
           else if ev_type e = PLAYER_UPDATE \<and> ev_player e = None then None
           else
             (let s = (case ev_player e of
                  Some m \<Rightarrow> if ev_type e = PLAYER_UPDATE \<and> pm_source m = PRIMARY
                            then s\<lparr>in_primary := oset_add (pm_name m) (in_primary s)\<rparr> else s
                | None \<Rightarrow> s)
              in if is_pivot_event e
                 then Some (s\<lparr>in_pivots := in_pivots s @ pivots_of e, in_derived := in_derived s + 1\<rparr>)
                 else if ev_tick e \<le> recorded
                 then (if ev_tick e < 0 then None
                       else Some (s\<lparr>in_buckets := (in_buckets s)[nat (ev_tick e) := in_buckets s ! nat (ev_tick e) @ [e]]\<rparr>))
                 else Some (s\<lparr>in_dropped := in_dropped s + 1\<rparr>))))"

definition ingest_events :: "int \<Rightarrow> event list \<Rightarrow> ingest option" where
  "ingest_events recorded es =
     fold (ingest_event recorded) es
       (Some \<lparr>in_buckets = replicate (nat (recorded + 1)) [], in_dropped = 0, in_derived = 0, in_primary = [], in_pivots = []\<rparr>)"

definition build_tick_states ::
    "int \<Rightarrow> string list \<Rightarrow> event list list \<Rightarrow> tick_state list option" where
  "build_tick_states cid party buckets =
     (let tagged = map (map (\<lambda>e. (e, cid))) buckets in
      case (build_player_states cid buckets party, build_npc_states None tagged) of
        (Some players, Some npcs) \<Rightarrow>
          (let graphics = build_graphics_states None tagged in
           Some (map (\<lambda>t. new_tick_state (int t) (tagged ! t)
               (fold (\<lambda>p. AList.update p (the (map_of players p) ! t)) party []) (npcs ! t) (graphics ! t))
             [0..<length buckets]))
      | _ \<Rightarrow> None)"

subsection \<open>Clients\<close>

text \<open>The issues the checkers report and whether one of them threw, keeping what was reported before.\<close>

definition consistency_issues ::
    "attack_codes \<Rightarrow> stage \<Rightarrow> challenge_info \<Rightarrow> tick_state list \<Rightarrow> issue list \<times> bool" where
  "consistency_issues codes stage challenge ticks =
     (let timeline = map Some ticks in
      case check_movement codes stage (ci_party challenge) timeline of
        None \<Rightarrow> ([], True)
      | Some moves \<Rightarrow>
          (case consistency_checker_for_stage stage (ci_mode challenge) of
             None \<Rightarrow> (moves, False)
           | Some check \<Rightarrow> (case check timeline of None \<Rightarrow> (moves, True) | Some found \<Rightarrow> (moves @ found, False))))"

fun is_bad_data :: "issue \<Rightarrow> bool" where
  "is_bad_data (Bad_Data _ _) = True"
| "is_bad_data _ = False"

definition check_for_consistency :: "attack_codes \<Rightarrow> client_events \<Rightarrow> client_events" where
  "check_for_consistency codes c =
     (let (issues, threw) = consistency_issues codes (si_stage (ce_info c)) (ce_challenge c) (ce_ticks c);
          anomalies = (if threw then oset_add BAD_DATA (ce_anomalies c) else ce_anomalies c);
          anomalies = (if list_ex is_bad_data issues then oset_add BAD_DATA anomalies else anomalies);
          anomalies = (if issues \<noteq> [] then oset_add CONSISTENCY_ISSUES anomalies else anomalies)
      in c\<lparr>ce_issues := issues, ce_anomalies := anomalies, ce_accurate := ce_accurate c \<and> issues = []\<rparr>)"

definition correct_for_stage :: "stage \<Rightarrow> event list \<Rightarrow> (event list \<times> game_correction option) option" where
  "correct_for_stage stage es = (if stage = TOB_NYLOCAS then correct_nylocas es else Some (es, None))"

definition from_raw_events ::
    "attack_codes \<Rightarrow> int \<Rightarrow> challenge_info \<Rightarrow> stage_info \<Rightarrow> event list \<Rightarrow> client_metadata option \<Rightarrow>
     client_anomaly list \<Rightarrow> client_events option" where
  "from_raw_events codes cid challenge info raw metadata anomalies =
     (case correct_for_stage (si_stage info) (sort_key ev_tick raw) of
        None \<Rightarrow> None
      | Some (es, correction) \<Rightarrow>
          (let anomalies = (if correction \<noteq> None then oset_add GAME_CORRECTION_APPLIED anomalies else anomalies);
               info = (if si_recorded info = 0 \<and> es \<noteq> [] then info\<lparr>si_recorded := ev_tick (last es)\<rparr> else info)
           in case ingest_events (si_recorded info) es of
                None \<Rightarrow> None
              | Some s \<Rightarrow>
                  (let anomalies = (if in_dropped s > 0 then oset_add EVENTS_BEYOND_RECORDED_TICKS anomalies else anomalies);
                       anomalies = (if length (in_primary s) > 1 then oset_add MULTIPLE_PRIMARY_PLAYERS anomalies else anomalies);
                       primary = (case in_primary s of [p] \<Rightarrow> Some p | _ \<Rightarrow> None);
                       invalid = (case si_server info of None \<Rightarrow> False | Some st \<Rightarrow> si_recorded info > sv_count st);
                       derived = (case si_server info of
                           None \<Rightarrow> False | Some st \<Rightarrow> sv_precise st \<and> sv_count st = si_recorded info \<and> \<not> invalid)
                   in map_option (\<lambda>ticks. check_for_consistency codes
                        \<lparr>ce_id = cid, ce_challenge = challenge, ce_info = info, ce_ticks = ticks,
                         ce_pivots = in_pivots s, ce_metadata = metadata, ce_primary = primary,
                         ce_invalid_ticks = invalid, ce_anomalies = anomalies,
                         ce_corrections = (case correction of None \<Rightarrow> [] | Some c \<Rightarrow> [c]),
                         ce_accurate = si_accurate info \<and> derived \<and> \<not> invalid, ce_issues = []\<rparr>)
                      (build_tick_states cid (ci_party challenge) (in_buckets s)))))"

datatype 'b stage_stream =
    Client_Metadata client_metadata
  | Stage_Events 'b
  | Stage_End stage_status bool int "server_ticks option"

record stream_state =
  ss_info :: stage_info
  ss_events :: "event list"
  ss_anomalies :: "client_anomaly list"
  ss_metadata :: "client_metadata option"
  ss_saw_end :: bool

fun read_stream :: "('b \<Rightarrow> event list option) \<Rightarrow> 'b stage_stream \<Rightarrow> stream_state \<Rightarrow> stream_state" where
  "read_stream decode (Client_Metadata m) s = s\<lparr>ss_metadata := Some m\<rparr>"
| "read_stream decode (Stage_End status accurate recorded server) s =
     s\<lparr>ss_info := (ss_info s)\<lparr>si_status := status, si_accurate := accurate, si_recorded := recorded, si_server := server\<rparr>,
       ss_saw_end := True\<rparr>"
| "read_stream decode (Stage_Events b) s =
     (case decode b of
        None \<Rightarrow> s\<lparr>ss_anomalies := oset_add BAD_DATA (ss_anomalies s)\<rparr>
      | Some es \<Rightarrow> s\<lparr>ss_events := ss_events s @ es\<rparr>)"

definition from_client_stream ::
    "('b \<Rightarrow> event list option) \<Rightarrow> attack_codes \<Rightarrow> int \<Rightarrow> challenge_info \<Rightarrow> stage \<Rightarrow> 'b stage_stream list \<Rightarrow> client_events option" where
  "from_client_stream decode codes cid challenge stage streams =
     (let s = fold (read_stream decode) streams
            \<lparr>ss_info = \<lparr>si_stage = stage, si_status = STARTED, si_accurate = False, si_recorded = 0, si_server = None\<rparr>,
             ss_events = [], ss_anomalies = [], ss_metadata = None, ss_saw_end = False\<rparr>;
          anomalies = (if ss_saw_end s then ss_anomalies s else oset_add MISSING_STAGE_METADATA (ss_anomalies s))
      in from_raw_events codes cid challenge (ss_info s) (ss_events s) (ss_metadata s) anomalies)"

definition get_final_tick :: "client_events \<Rightarrow> int" where
  "get_final_tick c = si_recorded (ce_info c)"

definition get_tick_count :: "client_events \<Rightarrow> int" where
  "get_tick_count c = si_recorded (ce_info c) + 1"

definition get_server_ticks :: "client_events \<Rightarrow> server_ticks option" where
  "get_server_ticks c = si_server (ce_info c)"

definition is_spectator :: "client_events \<Rightarrow> bool" where
  "is_spectator c \<longleftrightarrow> ce_primary c = None"

definition set_accurate :: "bool \<Rightarrow> client_events \<Rightarrow> client_events" where
  "set_accurate a c = c\<lparr>ce_accurate := a\<rparr>"

definition get_tick_state :: "int \<Rightarrow> client_events \<Rightarrow> tick_state option" where
  "get_tick_state t c =
     (if t < 0 \<or> t > si_recorded (ce_info c) then None
      else if nat t < length (ce_ticks c) then Some (ce_ticks c ! nat t) else None)"

definition has_anomaly :: "client_anomaly \<Rightarrow> client_events \<Rightarrow> bool" where
  "has_anomaly a c \<longleftrightarrow> a \<in> set (ce_anomalies c)"

definition has_consistency_issues :: "client_events \<Rightarrow> bool" where
  "has_consistency_issues c \<longleftrightarrow> ce_issues c \<noteq> []"

subsection \<open>The buckets\<close>

definition kept_event :: "event \<Rightarrow> bool" where
  "kept_event e \<longleftrightarrow> ev_type e \<notin> derived_types \<and> \<not> is_pivot_event e"

lemma ingest_None [simp]: "fold (ingest_event recorded) es None = None"
  by (induction es) (simp_all add: ingest_event_def)

lemma ingest_buckets:
  "fold (ingest_event recorded) es (Some s) = Some s' \<Longrightarrow> length (in_buckets s) = nat (recorded + 1) \<Longrightarrow>
     length (in_buckets s') = nat (recorded + 1) \<and>
     (\<forall>t < nat (recorded + 1). in_buckets s' ! t =
        in_buckets s ! t @ filter (\<lambda>e. kept_event e \<and> ev_tick e = int t) es)"
proof (induction es arbitrary: s)
  case (Cons e es)
  then obtain s1 where s1: "ingest_event recorded e (Some s) = Some s1"
    by (cases "ingest_event recorded e (Some s)") auto
  have step: "length (in_buckets s1) = nat (recorded + 1) \<and> (\<forall>t < nat (recorded + 1). in_buckets s1 ! t =
      in_buckets s ! t @ (if kept_event e \<and> ev_tick e = int t then [e] else []))"
    using s1 Cons.prems(2)
    by (auto simp: ingest_event_def kept_event_def nth_list_update Let_def split: if_splits option.splits)
  with Cons.IH [of s1] Cons.prems s1 show ?case by simp
qed simp

lemma ingest_events_buckets:
  assumes "ingest_events recorded es = Some s"
  shows "length (in_buckets s) = nat (recorded + 1) \<and>
    (\<forall>t < nat (recorded + 1). in_buckets s ! t = filter (\<lambda>e. kept_event e \<and> ev_tick e = int t) es)"
  using ingest_buckets [OF assms [unfolded ingest_events_def]] by simp

lemma new_tick_state_events:
  assumes "ty \<notin> tick_state_types"
  shows "get_events_by_type ty (new_tick_state t tagged players npcs graphics) =
    map fst (filter (\<lambda>e. ev_type (fst e) = ty) tagged)"
proof -
  have eq: "new_tick_state t tagged players npcs graphics =
      add_tagged_events (filter (\<lambda>e. ev_type (fst e) \<notin> tick_state_types) tagged)
        \<lparr>ts_tick = t, ts_events = [], ts_players = players, ts_npcs = npcs, ts_graphics = graphics\<rparr>"
    by (simp add: new_tick_state_def add_tagged_events_def)
  have "get_tagged_by_type ty \<lparr>ts_tick = t, ts_events = [], ts_players = players, ts_npcs = npcs, ts_graphics = graphics\<rparr> = []"
    by (simp add: get_tagged_by_type_def)
  moreover have "filter (\<lambda>e. ev_type (fst e) = ty) (filter (\<lambda>e. ev_type (fst e) \<notin> tick_state_types) tagged) =
      filter (\<lambda>e. ev_type (fst e) = ty) tagged"
    using assms by (auto simp: intro!: filter_cong)
  ultimately show ?thesis
    unfolding eq get_events_by_type_def get_tagged_by_type_add by simp
qed

subsection \<open>Following a player\<close>

lemma apply_player_None [simp]: "fold (apply_player_event cid) es None = None"
  by (induction es) (simp_all add: apply_player_event_def)

lemma apply_player_event_dead:
  assumes "apply_player_event cid e (Some (s, d)) = Some (s', d')"
  shows "ps_dead s' = (ps_dead s \<or> ev_type e = PLAYER_DEATH) \<and> d' = (d \<or> ev_type e = PLAYER_DEATH) \<and>
    ps_username s' = ps_username s"
proof -
  consider "ev_type e = PLAYER_UPDATE" | "ev_type e = PLAYER_DEATH" | "ev_type e = PLAYER_ATTACK"
    | "ev_type e = PLAYER_SPELL"
    | "ev_type e \<noteq> PLAYER_UPDATE" "ev_type e \<noteq> PLAYER_DEATH" "ev_type e \<noteq> PLAYER_ATTACK" "ev_type e \<noteq> PLAYER_SPELL"
    by blast
  then show ?thesis
    using assms by cases (auto simp: apply_player_event_def)
qed

lemma apply_player_dead:
  "fold (apply_player_event cid) es (Some (s, d)) = Some (s', d') \<Longrightarrow> ps_dead s = d \<Longrightarrow>
     ps_dead s' = d' \<and> d' = (d \<or> (\<exists>e \<in> set es. ev_type e = PLAYER_DEATH)) \<and> ps_username s' = ps_username s"
proof (induction es arbitrary: s d)
  case (Cons e es)
  then obtain s1 d1 where one: "apply_player_event cid e (Some (s, d)) = Some (s1, d1)"
    by (cases "apply_player_event cid e (Some (s, d))") auto
  have step: "ps_dead s1 = d1" "d1 = (d \<or> ev_type e = PLAYER_DEATH)" "ps_username s1 = ps_username s"
    using apply_player_event_dead [OF one] Cons.prems(2) by simp_all
  have "fold (apply_player_event cid) es (Some (s1, d1)) = Some (s', d')"
    using Cons.prems(1) one by simp
  from Cons.IH [OF this step(1)] step(2,3) show ?case by auto
qed simp

definition dies_in_bucket :: "string \<Rightarrow> event list \<Rightarrow> bool" where
  "dies_in_bucket p es \<longleftrightarrow> (\<exists>e \<in> set es. is_player_event p e \<and> ev_type e = PLAYER_DEATH)"

lemma ex_le_Suc_shift: "(\<exists>u \<le> Suc t. P u) \<longleftrightarrow> P 0 \<or> (\<exists>u \<le> t. P (Suc u))"
proof
  assume "\<exists>u \<le> Suc t. P u"
  then obtain u where "u \<le> Suc t" "P u" by blast
  then show "P 0 \<or> (\<exists>u \<le> t. P (Suc u))" by (cases u) auto
qed auto

lemma all_less_Cons: "(\<forall>t < length (x # xs). P t) \<longleftrightarrow> P 0 \<and> (\<forall>t < length xs. P (Suc t))"
  by (auto simp: less_Suc_eq_0_disj)

lemma player_states_follow:
  "player_states cid p last_state dead buckets = Some ss \<Longrightarrow>
     length ss = length buckets \<and>
     (\<forall>t < length buckets. (ss ! t = None \<longleftrightarrow> filter (is_player_event p) (buckets ! t) = []) \<and>
       (\<forall>s. ss ! t = Some s \<longrightarrow> ps_username s = p \<and>
         (ps_dead s \<longleftrightarrow> dead \<or> (\<exists>u \<le> t. dies_in_bucket p (buckets ! u)))))"
proof (induction cid p last_state dead buckets arbitrary: ss rule: player_states.induct)
  case (2 cid p last_state dead es rest)
  let ?mine = "filter (is_player_event p) es"
  show ?case
  proof (cases "?mine = []")
    case True
    then have none: "\<not> dies_in_bucket p es" by (auto simp: dies_in_bucket_def filter_empty_conv)
    from "2.prems" True obtain ss' where ss': "player_states cid p last_state dead rest = Some ss'" "ss = None # ss'"
      by (auto simp: Let_def)
    note IH = "2.IH"(1) [OF refl True ss'(1)]
    show ?thesis
      unfolding ss'(2) all_less_Cons nth_Cons_0 nth_Cons_Suc ex_le_Suc_shift
      using IH True none by simp
  next
    case False
    from "2.prems" False obtain s d where sd:
      "fold (apply_player_event cid) ?mine (Some (fresh_player cid p last_state dead, dead)) = Some (s, d)"
      by (auto simp: Let_def split: option.splits)
    with "2.prems" False obtain ss' where ss': "player_states cid p (Some s) d rest = Some ss'" "ss = Some s # ss'"
      by (auto simp: Let_def)
    have s: "ps_dead s = d" "d = (dead \<or> dies_in_bucket p es)" "ps_username s = p"
      using apply_player_dead [OF sd] by (auto simp: fresh_player_def dies_in_bucket_def)
    note IH = "2.IH"(2) [OF refl False sd refl ss'(1)]
    show ?thesis
      unfolding ss'(2) all_less_Cons nth_Cons_0 nth_Cons_Suc ex_le_Suc_shift
      using IH False s by simp
  qed
qed simp

lemma build_player_states_get:
  "build_player_states cid buckets party = Some m \<Longrightarrow> p \<in> set party \<Longrightarrow>
     player_states cid p None False buckets = Some (the (map_of m p)) \<and> map_of m p \<noteq> None"
proof (induction cid buckets party arbitrary: m rule: build_player_states.induct)
  case (2 cid buckets q party)
  from "2.prems"(1) obtain ss m' where ss: "player_states cid q None False buckets = Some ss"
    "build_player_states cid buckets party = Some m'" "m = (q, ss) # m'"
    by (auto split: option.splits)
  show ?case
  proof (cases "p = q")
    case False
    with "2.prems"(2) have "p \<in> set party" by simp
    from "2.IH" [OF ss(1,2) this] False show ?thesis by (simp add: ss(3))
  qed (simp add: ss)
qed simp

lemma map_of_party: "map_of (fold (\<lambda>p. AList.update p (f p)) party m) q = (if q \<in> set party then Some (f q) else map_of m q)"
  by (induction party arbitrary: m) (simp_all add: omap.get_put)

lemma build_tick_states_nth:
  assumes "build_tick_states cid party buckets = Some ticks"
  shows "length ticks = length buckets \<and> (\<forall>t < length buckets.
    ts_tick (ticks ! t) = int t \<and>
    (\<forall>ty. ty \<notin> tick_state_types \<longrightarrow> get_events_by_type ty (ticks ! t) = filter (\<lambda>e. ev_type e = ty) (buckets ! t)) \<and>
    (\<forall>p \<in> set party. \<exists>ss. player_states cid p None False buckets = Some ss \<and> get_player_state p (ticks ! t) = ss ! t))"
proof -
  let ?tagged = "map (map (\<lambda>e. (e, cid))) buckets"
  from assms obtain players npcs where pn: "build_player_states cid buckets party = Some players"
    "build_npc_states None ?tagged = Some npcs"
    and ticks: "ticks = map (\<lambda>t. new_tick_state (int t) (?tagged ! t)
      (fold (\<lambda>p. AList.update p (the (map_of players p) ! t)) party []) (npcs ! t) (build_graphics_states None ?tagged ! t))
      [0..<length buckets]"
    by (auto simp: build_tick_states_def Let_def split: option.splits)
  have "\<exists>ss. player_states cid p None False buckets = Some ss \<and> get_player_state p (ticks ! t) = ss ! t"
    if "p \<in> set party" "t < length buckets" for p t
  proof -
    from build_player_states_get [OF pn(1) that(1)] obtain ss where
      "player_states cid p None False buckets = Some ss" "map_of players p = Some ss" by auto
    with that show ?thesis
      by (auto simp: ticks get_player_state_def new_tick_state_def map_of_party split: option.split)
  qed
  moreover have "get_events_by_type ty (ticks ! t) = filter (\<lambda>e. ev_type e = ty) (buckets ! t)"
    if "ty \<notin> tick_state_types" "t < length buckets" for ty t
    using that by (simp add: ticks new_tick_state_events filter_map comp_def)
  moreover have "ts_tick (ticks ! t) = int t" if "t < length buckets" for t
    using that by (simp add: ticks new_tick_state_def)
  ultimately show ?thesis by (auto simp: ticks)
qed

subsection \<open>A client as a whole\<close>

lemma ingest_nonneg:
  "fold (ingest_event recorded) es (Some s) = Some s' \<Longrightarrow> e \<in> set es \<Longrightarrow> kept_event e \<Longrightarrow>
     ev_tick e \<le> recorded \<Longrightarrow> 0 \<le> ev_tick e"
proof (induction es arbitrary: s)
  case (Cons d es)
  then obtain s1 where s1: "ingest_event recorded d (Some s) = Some s1"
    by (cases "ingest_event recorded d (Some s)") auto
  show ?case
  proof (cases "e = d")
    case True
    with s1 Cons.prems(3,4) show ?thesis
      by (simp add: ingest_event_def kept_event_def Let_def split: if_splits)
  next
    case False
    with Cons.prems s1 show ?thesis by (intro Cons.IH [of s1]) auto
  qed
qed simp

lemma check_for_consistency_fields [simp]:
  "ce_ticks (check_for_consistency codes c) = ce_ticks c" "ce_info (check_for_consistency codes c) = ce_info c"
  "ce_invalid_ticks (check_for_consistency codes c) = ce_invalid_ticks c"
  "ce_primary (check_for_consistency codes c) = ce_primary c"
  "ce_accurate (check_for_consistency codes c) \<longleftrightarrow> ce_accurate c \<and> ce_issues (check_for_consistency codes c) = []"
  by (simp_all add: check_for_consistency_def Let_def split: prod.split)

text \<open>What a client consists of.\<close>

definition client_parts :: "stage_info \<Rightarrow> int \<Rightarrow> string list \<Rightarrow> event list \<Rightarrow> client_events \<Rightarrow> bool" where
  "client_parts info cid party es c \<longleftrightarrow>
     (\<exists>s. ingest_events (get_final_tick c) es = Some s \<and>
       build_tick_states cid party (in_buckets s) = Some (ce_ticks c)) \<and>
     get_server_ticks c = si_server info \<and>
     (ce_invalid_ticks c \<longleftrightarrow> (case get_server_ticks c of None \<Rightarrow> False | Some st \<Rightarrow> get_final_tick c > sv_count st)) \<and>
     (ce_accurate c \<longleftrightarrow> si_accurate info \<and>
        (case get_server_ticks c of None \<Rightarrow> False | Some st \<Rightarrow> sv_precise st \<and> sv_count st = get_final_tick c) \<and>
        ce_issues c = [])"

lemma from_raw_events_parts:
  assumes "from_raw_events codes cid challenge info raw metadata anomalies = Some c"
    and "correct_for_stage (si_stage info) (sort_key ev_tick raw) = Some (es, correction)"
  shows "client_parts info cid (ci_party challenge) es c"
proof -
  define info' where "info' = (if si_recorded info = 0 \<and> es \<noteq> [] then info\<lparr>si_recorded := ev_tick (last es)\<rparr> else info)"
  have same: "si_server info' = si_server info" "si_accurate info' = si_accurate info"
    by (simp_all add: info'_def)
  from assms(1) [unfolded from_raw_events_def assms(2) option.case prod.case Let_def, folded info'_def]
  obtain s where s: "ingest_events (si_recorded info') es = Some s"
    by (cases "ingest_events (si_recorded info') es") simp_all
  from assms(1) [unfolded from_raw_events_def assms(2) option.case prod.case Let_def, folded info'_def, unfolded s option.case]
  obtain ticks a p where ticks: "build_tick_states cid (ci_party challenge) (in_buckets s) = Some ticks"
    and c: "c = check_for_consistency codes
      \<lparr>ce_id = cid, ce_challenge = challenge, ce_info = info', ce_ticks = ticks,
       ce_pivots = in_pivots s, ce_metadata = metadata, ce_primary = p,
       ce_invalid_ticks = (case si_server info' of None \<Rightarrow> False | Some st \<Rightarrow> si_recorded info' > sv_count st),
       ce_anomalies = a, ce_corrections = (case correction of None \<Rightarrow> [] | Some c \<Rightarrow> [c]),
       ce_accurate = si_accurate info' \<and> (case si_server info' of
           None \<Rightarrow> False | Some st \<Rightarrow> sv_precise st \<and> sv_count st = si_recorded info' \<and>
             \<not> (case si_server info' of None \<Rightarrow> False | Some st \<Rightarrow> si_recorded info' > sv_count st)) \<and>
         \<not> (case si_server info' of None \<Rightarrow> False | Some st \<Rightarrow> si_recorded info' > sv_count st),
       ce_issues = []\<rparr>"
    by (cases "build_tick_states cid (ci_party challenge) (in_buckets s)") auto
  have fields: "ce_info c = info'" "ce_ticks c = ticks" by (simp_all add: c)
  have "ce_accurate c \<longleftrightarrow> si_accurate info' \<and>
      (case si_server info' of None \<Rightarrow> False | Some st \<Rightarrow> sv_precise st \<and> sv_count st = si_recorded info') \<and> ce_issues c = []"
    unfolding c by (auto split: option.splits)
  moreover have "ce_invalid_ticks c \<longleftrightarrow> (case si_server info' of None \<Rightarrow> False | Some st \<Rightarrow> si_recorded info' > sv_count st)"
    unfolding c by simp
  ultimately show ?thesis
    unfolding client_parts_def get_final_tick_def get_server_ticks_def fields same
    using s ticks by blast
qed

lemma client_bucket:
  assumes "ingest_events recorded es = Some s" and "t < length (in_buckets s)"
  shows "in_buckets s ! t = filter (\<lambda>e. kept_event e \<and> ev_tick e = int t) es"
  using ingest_events_buckets [OF assms(1)] assms(2) by simp

lemma player_event_kept: "is_player_event p e \<Longrightarrow> kept_event e"
  by (auto simp: is_player_event_def kept_event_def is_pivot_event_def type_classes)

subsection \<open>Properties\<close>

text \<open>A client's timeline has one state for every tick from zero to the last recorded one, in order, and
  each holds, for every type of event that is not tick state, exactly the sorted and corrected events of
  that type and tick, less those that are derived again or carry the maze's pivots.\<close>

theorem client_timeline:
  assumes "from_raw_events codes cid challenge info raw metadata anomalies = Some c"
    and "correct_for_stage (si_stage info) (sort_key ev_tick raw) = Some (es, correction)"
  shows "length (ce_ticks c) = nat (get_tick_count c) \<and> (\<forall>t < length (ce_ticks c).
    ts_tick (ce_ticks c ! t) = int t \<and>
    (\<forall>ty. ty \<notin> tick_state_types \<longrightarrow>
      get_events_by_type ty (ce_ticks c ! t) = filter (\<lambda>e. kept_event e \<and> ev_tick e = int t \<and> ev_type e = ty) es))"
proof -
  from from_raw_events_parts [OF assms] obtain s where s: "ingest_events (get_final_tick c) es = Some s"
    "build_tick_states cid (ci_party challenge) (in_buckets s) = Some (ce_ticks c)"
    unfolding client_parts_def by blast
  note ticks = build_tick_states_nth [OF s(2)]
  have len: "length (in_buckets s) = nat (get_tick_count c)"
    using ingest_events_buckets [OF s(1)] by (simp add: get_tick_count_def get_final_tick_def)
  have "filter (\<lambda>e. ev_type e = ty) (in_buckets s ! t) = filter (\<lambda>e. kept_event e \<and> ev_tick e = int t \<and> ev_type e = ty) es"
    if "t < length (in_buckets s)" for t ty
    unfolding client_bucket [OF s(1) that] by (simp add: conj_ac)
  with ticks len show ?thesis by simp
qed

text \<open>A party member is present in the state of a tick iff an event of it was recorded on that tick, and
  is dead there iff its death was recorded on that tick or before.\<close>

theorem client_players:
  assumes "from_raw_events codes cid challenge info raw metadata anomalies = Some c"
    and "correct_for_stage (si_stage info) (sort_key ev_tick raw) = Some (es, correction)"
    and "p \<in> set (ci_party challenge)" and "t < length (ce_ticks c)"
  shows "case get_player_state p (ce_ticks c ! t) of
      None \<Rightarrow> \<not> (\<exists>e \<in> set es. is_player_event p e \<and> ev_tick e = int t)
    | Some s \<Rightarrow> (\<exists>e \<in> set es. is_player_event p e \<and> ev_tick e = int t) \<and> ps_username s = p \<and>
        (ps_dead s \<longleftrightarrow> (\<exists>e \<in> set es. is_player_event p e \<and> ev_type e = PLAYER_DEATH \<and> ev_tick e \<le> int t))"
proof -
  from from_raw_events_parts [OF assms(1,2)] obtain s where s: "ingest_events (get_final_tick c) es = Some s"
    "build_tick_states cid (ci_party challenge) (in_buckets s) = Some (ce_ticks c)"
    unfolding client_parts_def by blast
  have len: "length (ce_ticks c) = length (in_buckets s)" "length (in_buckets s) = nat (get_final_tick c + 1)"
    using build_tick_states_nth [OF s(2)] ingest_events_buckets [OF s(1)] by simp_all
  with assms(4) have t: "t < length (in_buckets s)" by simp
  from build_tick_states_nth [OF s(2)] assms(3) t obtain ss where
    ss: "player_states cid p None False (in_buckets s) = Some ss" "get_player_state p (ce_ticks c ! t) = ss ! t" by blast
  note follow = player_states_follow [OF ss(1), THEN conjunct2, rule_format, OF t]
  have here: "filter (is_player_event p) (in_buckets s ! t) = [] \<longleftrightarrow> \<not> (\<exists>e \<in> set es. is_player_event p e \<and> ev_tick e = int t)"
    unfolding client_bucket [OF s(1) t] by (auto simp: filter_empty_conv dest: player_event_kept)
  have died: "(\<exists>u \<le> t. dies_in_bucket p (in_buckets s ! u)) \<longleftrightarrow>
      (\<exists>e \<in> set es. is_player_event p e \<and> ev_type e = PLAYER_DEATH \<and> ev_tick e \<le> int t)" (is "?L \<longleftrightarrow> ?R")
  proof
    assume ?L
    then obtain u e where "u \<le> t" "e \<in> set (in_buckets s ! u)" "is_player_event p e" "ev_type e = PLAYER_DEATH"
      by (auto simp: dies_in_bucket_def)
    with client_bucket [OF s(1), of u] t show ?R by auto
  next
    assume ?R
    then obtain e where e: "e \<in> set es" "is_player_event p e" "ev_type e = PLAYER_DEATH" "ev_tick e \<le> int t" by blast
    have "ev_tick e \<le> get_final_tick c" using e(4) t len(2) by simp
    then have "0 \<le> ev_tick e"
      by (rule ingest_nonneg [OF s(1) [unfolded ingest_events_def] e(1) player_event_kept [OF e(2)]])
    with e(4) have u: "nat (ev_tick e) \<le> t" "int (nat (ev_tick e)) = ev_tick e" by simp_all
    then have "e \<in> set (in_buckets s ! nat (ev_tick e))"
      using client_bucket [OF s(1), of "nat (ev_tick e)"] t e(1) player_event_kept [OF e(2)] by simp
    with e(2,3) u(1) show ?L by (auto simp: dies_in_bucket_def)
  qed
  show ?thesis
    using follow unfolding ss(2) here died by (cases "ss ! t") auto
qed

text \<open>A client counts as accurate iff it reported so, the server's count of ticks is precise and equal to
  the recorded one, and no check found an issue; its tick count is invalid iff it exceeds the server's.\<close>

theorem client_accuracy:
  assumes "from_raw_events codes cid challenge info raw metadata anomalies = Some c"
  shows "(ce_accurate c \<longleftrightarrow> si_accurate info \<and>
      si_server info = Some \<lparr>sv_count = get_final_tick c, sv_precise = True\<rparr> \<and> \<not> has_consistency_issues c) \<and>
    (ce_invalid_ticks c \<longleftrightarrow> (\<exists>st. si_server info = Some st \<and> sv_count st < get_final_tick c))"
proof -
  from assms obtain es correction where "correct_for_stage (si_stage info) (sort_key ev_tick raw) = Some (es, correction)"
    by (cases "correct_for_stage (si_stage info) (sort_key ev_tick raw)") (auto simp: from_raw_events_def)
  from from_raw_events_parts [OF assms this] show ?thesis
    by (auto simp: client_parts_def has_consistency_issues_def split: option.splits)
qed

subsection \<open>A sample client\<close>

definition sample_raw :: "event list" where
  "sample_raw =
     [(blank_event PLAYER_DEATH TOB_XARPUS 2 3 5)\<lparr>ev_player := Some (blank_player ''p'')\<rparr>,
      (blank_event PLAYER_UPDATE TOB_XARPUS 0 3 4)\<lparr>ev_player := Some (blank_player ''p'')\<rparr>,
      (blank_event TOB_XARPUS_PHASE TOB_XARPUS 1 0 0)\<lparr>ev_phase := 2\<rparr>,
      blank_event TOB_NYLO_BOSS_SPAWN TOB_XARPUS 1 0 0]"

definition sample_sorted :: "event list" where
  "sample_sorted = [sample_raw ! 1, sample_raw ! 2, sample_raw ! 3, sample_raw ! 0]"

definition sample_info :: stage_info where
  "sample_info = \<lparr>si_stage = TOB_XARPUS, si_status = COMPLETED, si_accurate = True, si_recorded = 2,
     si_server = Some \<lparr>sv_count = 2, sv_precise = True\<rparr>\<rparr>"

definition sample_challenge :: challenge_info where
  "sample_challenge = \<lparr>ci_uuid = ''c'', ci_mode = TOB_REGULAR, ci_party = [''p'']\<rparr>"

lemma sample_corrected: "correct_for_stage (si_stage sample_info) (sort_key ev_tick sample_raw) = Some (sample_sorted, None)"
  by (simp add: correct_for_stage_def sample_info_def sample_sorted_def sample_raw_def blank_event_def)

lemma sample_client:
  "\<exists>c. from_raw_events sample_codes 7 sample_challenge sample_info sample_raw None [] = Some c \<and> get_final_tick c = 2 \<and>
     \<not> has_consistency_issues c"
proof -
  have "case from_raw_events sample_codes 7 sample_challenge sample_info sample_raw None [] of
      None \<Rightarrow> False | Some c \<Rightarrow> get_final_tick c = 2 \<and> length (ce_issues c) = 0"
    by code_simp
  then show ?thesis by (auto simp: has_consistency_issues_def split: option.splits)
qed

theorem client_timeline_witness:
  "\<exists>c. from_raw_events sample_codes 7 sample_challenge sample_info sample_raw None [] = Some c \<and>
     length (ce_ticks c) = 3 \<and> map ev_phase (get_events_by_type TOB_XARPUS_PHASE (ce_ticks c ! 1)) = [2] \<and>
     get_events_by_type TOB_NYLO_BOSS_SPAWN (ce_ticks c ! 1) = []"
proof -
  obtain c where c: "from_raw_events sample_codes 7 sample_challenge sample_info sample_raw None [] = Some c"
    "get_final_tick c = 2" using sample_client by blast
  note timeline = client_timeline [OF c(1) sample_corrected]
  have len: "length (ce_ticks c) = 3"
    using timeline c(2) by (simp add: get_tick_count_def get_final_tick_def)
  have "TOB_XARPUS_PHASE \<notin> tick_state_types" "TOB_NYLO_BOSS_SPAWN \<notin> tick_state_types"
    by (simp_all add: type_classes)
  with timeline c(1) len show ?thesis
    by (simp add: sample_sorted_def sample_raw_def blank_event_def kept_event_def is_pivot_event_def type_classes)
qed

theorem client_players_witness:
  "\<exists>c s. from_raw_events sample_codes 7 sample_challenge sample_info sample_raw None [] = Some c \<and>
     get_player_state ''p'' (ce_ticks c ! 2) = Some s \<and> ps_dead s"
proof -
  obtain c where c: "from_raw_events sample_codes 7 sample_challenge sample_info sample_raw None [] = Some c"
    "get_final_tick c = 2" using sample_client by blast
  from from_raw_events_parts [OF c(1) sample_corrected] obtain s where
    s: "ingest_events 2 sample_sorted = Some s" "build_tick_states 7 [''p''] (in_buckets s) = Some (ce_ticks c)"
    unfolding client_parts_def c(2) by (auto simp: sample_challenge_def)
  have two: "2 < length (ce_ticks c)"
    using build_tick_states_nth [OF s(2)] ingest_events_buckets [OF s(1)] by simp
  have "''p'' \<in> set (ci_party sample_challenge)" by (simp add: sample_challenge_def)
  from client_players [OF c(1) sample_corrected this two] show ?thesis
    using c(1) by (auto simp: sample_sorted_def sample_raw_def blank_event_def blank_player_def is_player_event_def
        split: option.splits)
qed

theorem client_accuracy_witness:
  "\<exists>c. from_raw_events sample_codes 7 sample_challenge sample_info sample_raw None [] = Some c \<and> ce_accurate c"
proof -
  obtain c where c: "from_raw_events sample_codes 7 sample_challenge sample_info sample_raw None [] = Some c"
    "get_final_tick c = 2" "\<not> has_consistency_issues c" using sample_client by blast
  from client_accuracy [OF c(1)] c show ?thesis by (simp add: sample_info_def)
qed

end
