(* ===== verification/Merged_Events.thy ===== *)
theory Merged_Events
  imports Client_Events
begin

text \<open>
  The result of a merge as its consumers see it (\<^verbatim>\<open>MergedEvents\<close> of \<^verbatim>\<open>challenge-server/merging/merge.ts\<close>): the events in
  the order of their ticks, the outcome of the stage, and how far the timeline is accurate and queryable.
\<close>

record merged_events =
  me_events :: "event list"
  me_status :: stage_status
  me_last_tick :: int
  me_missing :: nat
  me_precise :: bool
  me_accurate_until :: int
  me_queryable_until :: int

definition index_by_tick :: "event list \<Rightarrow> (int, event list) omap" where
  "index_by_tick es =
     fold (\<lambda>e m. AList.update (ev_tick e) ((case map_of m (ev_tick e) of None \<Rightarrow> [] | Some b \<Rightarrow> b) @ [e]) m) es []"

definition events_for_tick :: "merged_events \<Rightarrow> int \<Rightarrow> event list" where
  "events_for_tick me t = (case map_of (index_by_tick (me_events me)) t of None \<Rightarrow> [] | Some es \<Rightarrow> es)"

definition fully_accurate :: "merged_events \<Rightarrow> bool" where
  "fully_accurate me \<longleftrightarrow> me_last_tick me < me_accurate_until me"

definition fully_queryable :: "merged_events \<Rightarrow> bool" where
  "fully_queryable me \<longleftrightarrow> me_last_tick me < me_queryable_until me"

definition restrict_accuracy_to :: "int \<Rightarrow> merged_events \<Rightarrow> merged_events" where
  "restrict_accuracy_to t me =
     me\<lparr>me_accurate_until := min (me_accurate_until me) t, me_queryable_until := min (me_queryable_until me) t\<rparr>"

end
