(* ===== verification/Classification.thy ===== *)
theory Classification
  imports Client_Events Tick_Mapping "HOL-Library.Product_Lexorder"
begin

text \<open>
  Choosing what to merge (\<^verbatim>\<open>challenge-server/merging/classification.ts\<close> and \<^verbatim>\<open>classifyAndUpdateClients\<close> of
  \<^verbatim>\<open>merge.ts\<close>): demoting clients whose accurate tick counts disagree, the reference tick count and the
  base client, and which of the others match. Math.max of no values and reading the first of no
  clients give \<^const>\<open>None\<close>, where the code throws. Setting a client's accuracy through its object is the
  updated list of clients.
\<close>

subsection \<open>Consensus\<close>

definition tick_counts :: "int list \<Rightarrow> (int, nat) omap" where
  "tick_counts ks = fold (\<lambda>k m. AList.update k ((case map_of m k of None \<Rightarrow> 0 | Some n \<Rightarrow> n) + 1) m) ks []"

definition tick_modes :: "int list \<Rightarrow> int list" where
  "tick_modes ks =
     (let counts = tick_counts ks; most = Max (set (map snd counts))
      in filter (\<lambda>k. map_of counts k = Some most) (omap_keys counts))"

definition get_consensus_ticks :: "int list \<Rightarrow> int option" where
  "get_consensus_ticks ks = (if ks = [] then None else Some (Max (set (tick_modes ks))))"

subsection \<open>Selecting the base and the reference\<close>

datatype selection_method = ACCURATE_MODAL | PRECISE_SERVER | IMPRECISE_SERVER | RECORDED_TICKS

datatype selection_details =
    Accurate_Details "(int \<times> nat) list" "int list"
  | Server_Details "int list" "int list"
  | Recorded_Details "int list"

record reference_selection =
  rs_count :: int
  rs_method :: selection_method
  rs_details :: selection_details

record classified_clients =
  cl_base :: client_events
  cl_matching :: "client_events list"
  cl_mismatched :: "client_events list"
  cl_reference :: reference_selection

text \<open>Sorting by a chain of comparators is sorting by the tuple of their keys.\<close>

definition base_key :: "client_events \<Rightarrow> int \<times> int \<times> int" where
  "base_key c = (- get_final_tick c, if is_spectator c then 1 else 0, ce_id c)"

definition select_base_client :: "client_events list \<Rightarrow> client_events option" where
  "select_base_client clients = (case sort_key base_key clients of [] \<Rightarrow> None | c # _ \<Rightarrow> Some c)"

definition server_count :: "client_events \<Rightarrow> int" where
  "server_count c = sv_count (the (get_server_ticks c))"

definition select_reference_count :: "client_events list \<Rightarrow> reference_selection option" where
  "select_reference_count clients =
     (let precise = filter (\<lambda>c. map_option sv_precise (get_server_ticks c) = Some True) clients;
          server = (if precise \<noteq> [] then precise
                    else filter (\<lambda>c. map_option sv_precise (get_server_ticks c) = Some False) clients)
      in if server \<noteq> [] then
           map_option (\<lambda>n. \<lparr>rs_count = n,
               rs_method = (if precise \<noteq> [] then PRECISE_SERVER else IMPRECISE_SERVER),
               rs_details = Server_Details (map ce_id server) (sort (remdups (map server_count server)))\<rparr>)
             (get_consensus_ticks (map server_count server))
         else if clients = [] then None
         else Some \<lparr>rs_count = Max (set (map get_final_tick clients)), rs_method = RECORDED_TICKS,
                    rs_details = Recorded_Details (sort (map ce_id clients))\<rparr>)"

definition accurate_selection :: "client_events list \<Rightarrow> (client_events \<times> reference_selection) option" where
  "accurate_selection accurate =
     (case get_consensus_ticks (map get_final_tick accurate) of
        None \<Rightarrow> None
      | Some n \<Rightarrow>
          (case sort_key ce_id (filter (\<lambda>c. get_final_tick c = n) accurate) of
             [] \<Rightarrow> None
           | c # _ \<Rightarrow> Some (c, \<lparr>rs_count = n, rs_method = ACCURATE_MODAL,
               rs_details = Accurate_Details (sort_key fst (tick_counts (map get_final_tick accurate)))
                 (sort (map ce_id accurate))\<rparr>)))"

definition inexact_selection :: "client_events list \<Rightarrow> (client_events \<times> reference_selection) option" where
  "inexact_selection clients =
     (case (select_base_client clients, select_reference_count clients) of
        (Some c, Some r) \<Rightarrow> Some (c, r) | _ \<Rightarrow> None)"

definition is_matching :: "client_events \<Rightarrow> reference_selection \<Rightarrow> client_events \<Rightarrow> bool" where
  "is_matching base r c \<longleftrightarrow> ce_accurate base \<and> ce_accurate c \<and> get_final_tick c = rs_count r"

definition classify_clients :: "client_events list \<Rightarrow> classified_clients option" where
  "classify_clients clients =
     (let accurate = filter ce_accurate clients in
      map_option (\<lambda>(base, r).
        let others = filter (\<lambda>c. ce_id c \<noteq> ce_id base) clients
        in \<lparr>cl_base = base, cl_matching = filter (is_matching base r) others,
            cl_mismatched = filter (\<lambda>c. \<not> is_matching base r c) others, cl_reference = r\<rparr>)
        (if accurate \<noteq> [] then accurate_selection accurate else inexact_selection clients))"

subsection \<open>Demotion\<close>

datatype merge_alert =
    Multiple_Accurate_Tick_Modes "int list"
  | Multiple_Server_Tick_Counts selection_method "int list"
  | Timeline_Offset_Applied int int
  | Post_Merge_Consistency_Rejections "int list" nat
  | Low_Confidence_Rejections "int list"
  | Low_Structural_Confidence "int list" "rat list"

text \<open>The accurate clients are demoted unless a single tick count is the most frequent and theirs.\<close>

definition demote_clients :: "client_events list \<Rightarrow> client_events list \<times> int list option" where
  "demote_clients clients =
     (let accurate = filter ce_accurate clients; modes = tick_modes (map get_final_tick accurate)
      in if accurate = [] then (clients, None)
         else if length modes > 1
         then (map (\<lambda>c. if ce_accurate c then set_accurate False c else c) clients, Some (sort modes))
         else (map (\<lambda>c. if ce_accurate c \<and> get_final_tick c \<noteq> hd modes then set_accurate False c else c) clients, None))"

definition classify_and_update :: "client_events list \<Rightarrow> (classified_clients \<times> client_events list \<times> merge_alert list) option" where
  "classify_and_update clients =
     (let (demoted, conflict) = demote_clients clients in
      map_option (\<lambda>r. (r, demoted,
        case conflict of
          Some counts \<Rightarrow> [Multiple_Accurate_Tick_Modes counts]
        | None \<Rightarrow> (case rs_details (cl_reference r) of
            Server_Details ids counts \<Rightarrow>
              (if length counts > 1 then [Multiple_Server_Tick_Counts (rs_method (cl_reference r)) counts] else [])
          | _ \<Rightarrow> [])))
        (classify_clients demoted))"

subsection \<open>Counting\<close>

lemma tick_counts_get:
  "map_of (tick_counts ks) k = (if k \<in> set ks then Some (count_list ks k) else None)"
proof -
  have "map_of (fold (\<lambda>k m. AList.update k ((case map_of m k of None \<Rightarrow> 0 | Some n \<Rightarrow> n) + 1) m) ks m) k =
      (if k \<in> set ks then Some ((case map_of m k of None \<Rightarrow> 0 | Some n \<Rightarrow> n) + count_list ks k) else map_of m k)" for m
    by (induction ks arbitrary: m) (auto simp: omap.get_put)
  then show ?thesis by (simp add: tick_counts_def)
qed

lemma tick_counts_distinct: "distinct (map fst (tick_counts ks))"
proof -
  have "distinct (map fst m) \<Longrightarrow>
      distinct (map fst (fold (\<lambda>k m. AList.update k ((case map_of m k of None \<Rightarrow> 0 | Some n \<Rightarrow> n) + 1) m) ks m))" for m :: "(int, nat) omap"
    by (induction ks arbitrary: m) (simp_all add: distinct_update)
  then show ?thesis by (simp add: tick_counts_def)
qed

lemma tick_counts_keys: "set (omap_keys (tick_counts ks)) = set ks"
proof -
  have "k \<in> fst ` set (tick_counts ks) \<longleftrightarrow> k \<in> set ks" for k
    using tick_counts_get [of ks k] map_of_eq_None_iff [of "tick_counts ks" k] by (auto split: if_splits)
  then show ?thesis by (auto simp: omap_keys_def)
qed

lemma tick_counts_values: "set (map snd (tick_counts ks)) = count_list ks ` set ks"
proof -
  have "(k, n) \<in> set (tick_counts ks) \<longleftrightarrow> k \<in> set ks \<and> n = count_list ks k" for k n
    using map_of_eq_Some_iff [OF tick_counts_distinct, of ks k n] tick_counts_get [of ks k]
    by (auto split: if_splits)
  then show ?thesis by force
qed

lemma tick_modes_iff:
  "k \<in> set (tick_modes ks) \<longleftrightarrow> k \<in> set ks \<and> (\<forall>k' \<in> set ks. count_list ks k' \<le> count_list ks k)"
proof (cases "k \<in> set ks")
  case True
  then have "Max (count_list ks ` set ks) = count_list ks k \<longleftrightarrow> (\<forall>k' \<in> set ks. count_list ks k' \<le> count_list ks k)"
    by (subst Max_eq_iff) auto
  with True show ?thesis
    unfolding tick_modes_def Let_def tick_counts_values by (auto simp: tick_counts_keys tick_counts_get)
qed (simp add: tick_modes_def Let_def tick_counts_keys)

lemma tick_modes_distinct: "distinct (tick_modes ks)"
  using tick_counts_distinct [of ks] by (simp add: tick_modes_def Let_def omap_keys_def)

lemma tick_modes_nonempty: "ks \<noteq> [] \<Longrightarrow> tick_modes ks \<noteq> []"
proof -
  assume "ks \<noteq> []"
  then have "Max (count_list ks ` set ks) \<in> count_list ks ` set ks" by (intro Max_in) auto
  then obtain k where k: "k \<in> set ks" "count_list ks k = Max (count_list ks ` set ks)" by force
  then have "\<forall>k' \<in> set ks. count_list ks k' \<le> count_list ks k" by simp
  with k(1) have "k \<in> set (tick_modes ks)" by (simp add: tick_modes_iff)
  then show ?thesis by auto
qed

lemma consensus_mode:
  assumes "get_consensus_ticks ks = Some n"
  shows "n \<in> set (tick_modes ks)" "\<forall>k \<in> set (tick_modes ks). k \<le> n" "n \<in> set ks"
proof -
  have "ks \<noteq> []" and n: "n = Max (set (tick_modes ks))" using assms by (auto simp: get_consensus_ticks_def split: if_splits)
  from tick_modes_nonempty [OF this(1)] n show "n \<in> set (tick_modes ks)" "\<forall>k \<in> set (tick_modes ks). k \<le> n" by auto
  then show "n \<in> set ks" by (simp add: tick_modes_iff)
qed

lemma get_final_tick_set_accurate [simp]: "get_final_tick (set_accurate a c) = get_final_tick c"
  "ce_accurate (set_accurate a c) = a" "ce_id (set_accurate a c) = ce_id c"
  by (simp_all add: set_accurate_def get_final_tick_def)

subsection \<open>Selections\<close>

lemma sort_key_hd:
  assumes "sort_key f xs = x # ys"
  shows "x \<in> set xs" "\<forall>y \<in> set xs. f x \<le> f y"
proof -
  have "set (sort_key f xs) = set xs" "sorted (map f (sort_key f xs))" by simp_all
  with assms show "x \<in> set xs" "\<forall>y \<in> set xs. f x \<le> f y" by auto
qed

lemma accurate_selection_Some:
  assumes "accurate_selection accurate = Some (base, r)"
  shows "base \<in> set accurate" "get_final_tick base = rs_count r" "rs_method r = ACCURATE_MODAL"
    "get_consensus_ticks (map get_final_tick accurate) = Some (rs_count r)"
    "\<forall>c \<in> set accurate. get_final_tick c = rs_count r \<longrightarrow> ce_id base \<le> ce_id c"
proof -
  from assms obtain n ys where n: "get_consensus_ticks (map get_final_tick accurate) = Some n"
    and sorted: "sort_key ce_id (filter (\<lambda>c. get_final_tick c = n) accurate) = base # ys" and r: "rs_count r = n"
    "rs_method r = ACCURATE_MODAL"
    by (auto simp: accurate_selection_def split: option.splits list.splits)
  from sort_key_hd [OF sorted] n r show "base \<in> set accurate" "get_final_tick base = rs_count r" "rs_method r = ACCURATE_MODAL"
    "get_consensus_ticks (map get_final_tick accurate) = Some (rs_count r)"
    "\<forall>c \<in> set accurate. get_final_tick c = rs_count r \<longrightarrow> ce_id base \<le> ce_id c" by auto
qed

lemma accurate_selection_total: "accurate \<noteq> [] \<Longrightarrow> \<exists>br. accurate_selection accurate = Some br"
proof -
  assume "accurate \<noteq> []"
  then obtain n where n: "get_consensus_ticks (map get_final_tick accurate) = Some n"
    by (simp add: get_consensus_ticks_def)
  from consensus_mode(3) [OF n] obtain c where "c \<in> set accurate" "get_final_tick c = n" by auto
  then have "set (sort_key ce_id (filter (\<lambda>c. get_final_tick c = n) accurate)) \<noteq> {}" by auto
  then obtain x ys where "sort_key ce_id (filter (\<lambda>c. get_final_tick c = n) accurate) = x # ys"
    by (cases "sort_key ce_id (filter (\<lambda>c. get_final_tick c = n) accurate)") auto
  with n show ?thesis by (simp add: accurate_selection_def)
qed

lemma inexact_selection_base:
  assumes "inexact_selection clients = Some (base, r)"
  shows "base \<in> set clients" "\<forall>c \<in> set clients. base_key base \<le> base_key c" "select_reference_count clients = Some r"
proof -
  from assms obtain ys where "sort_key base_key clients = base # ys" "select_reference_count clients = Some r"
    by (auto simp: inexact_selection_def select_base_client_def split: option.splits list.splits)
  with sort_key_hd [OF this(1)] show "base \<in> set clients" "\<forall>c \<in> set clients. base_key base \<le> base_key c"
    "select_reference_count clients = Some r" by auto
qed

lemma inexact_selection_total: "clients \<noteq> [] \<Longrightarrow> \<exists>br. inexact_selection clients = Some br"
proof -
  assume ne: "clients \<noteq> []"
  then have "set (sort_key base_key clients) \<noteq> {}" by simp
  then obtain c ys where "sort_key base_key clients = c # ys" by (cases "sort_key base_key clients") auto
  moreover have "select_reference_count clients \<noteq> None"
    using ne by (simp add: select_reference_count_def Let_def get_consensus_ticks_def)
  ultimately show ?thesis by (auto simp: inexact_selection_def select_base_client_def)
qed

lemma classify_clients_Some:
  assumes "classify_clients clients = Some r"
  shows "filter ce_accurate clients \<noteq> [] \<Longrightarrow> accurate_selection (filter ce_accurate clients) = Some (cl_base r, cl_reference r)"
    "filter ce_accurate clients = [] \<Longrightarrow> inexact_selection clients = Some (cl_base r, cl_reference r)"
    "cl_matching r = filter (is_matching (cl_base r) (cl_reference r)) (filter (\<lambda>c. ce_id c \<noteq> ce_id (cl_base r)) clients)"
    "cl_mismatched r = filter (\<lambda>c. \<not> is_matching (cl_base r) (cl_reference r) c) (filter (\<lambda>c. ce_id c \<noteq> ce_id (cl_base r)) clients)"
  using assms by (auto simp: classify_clients_def Let_def split: if_splits)

lemma demoted_agree:
  assumes "c \<in> set (fst (demote_clients clients))" and "ce_accurate c"
    and "d \<in> set (fst (demote_clients clients))" and "ce_accurate d"
  shows "get_final_tick c = get_final_tick d"
  using assms by (auto simp: demote_clients_def Let_def filter_empty_conv split: if_splits)

lemma demoted_clients:
  "map (\<lambda>c. c\<lparr>ce_accurate := False\<rparr>) (fst (demote_clients clients)) = map (\<lambda>c. c\<lparr>ce_accurate := False\<rparr>) clients"
  by (simp add: demote_clients_def Let_def set_accurate_def)

lemma demoted_accurate:
  assumes "c \<in> set clients" and "ce_accurate c"
  shows "c \<in> set (fst (demote_clients clients)) \<longleftrightarrow>
    tick_modes (map get_final_tick (filter ce_accurate clients)) = [get_final_tick c]"
proof -
  let ?modes = "tick_modes (map get_final_tick (filter ce_accurate clients))"
  have ne: "filter ce_accurate clients \<noteq> []" using assms by (auto simp: filter_empty_conv)
  then have modes: "?modes \<noteq> []" by (intro tick_modes_nonempty) simp
  have keep: "c \<in> (\<lambda>c. if ce_accurate c \<and> P c then set_accurate False c else c) ` set clients \<longleftrightarrow> \<not> P c" for P
  proof
    assume "c \<in> (\<lambda>c. if ce_accurate c \<and> P c then set_accurate False c else c) ` set clients"
    then obtain d where "c = (if ce_accurate d \<and> P d then set_accurate False d else d)" by blast
    with assms(2) show "\<not> P c" by (auto split: if_splits)
  next
    assume "\<not> P c"
    with assms(1) show "c \<in> (\<lambda>c. if ce_accurate c \<and> P c then set_accurate False c else c) ` set clients"
      by (auto simp: image_iff)
  qed
  show ?thesis
  proof (cases "length ?modes > 1")
    case True
    then show ?thesis using keep [of "\<lambda>_. True"] ne by (auto simp: demote_clients_def Let_def)
  next
    case False
    with modes obtain m where "?modes = [m]" by (cases ?modes) (auto simp: Suc_le_eq)
    then show ?thesis using keep [of "\<lambda>c. get_final_tick c \<noteq> m"] ne by (auto simp: demote_clients_def Let_def)
  qed
qed

subsection \<open>Properties\<close>

text \<open>The consensus of tick counts is a most frequent one, the largest of them on a tie, and exists
  unless there are no counts.\<close>

theorem consensus_is_largest_mode:
  "get_consensus_ticks ks = Some n \<longleftrightarrow> n \<in> set ks \<and>
     (\<forall>k \<in> set ks. count_list ks k < count_list ks n \<or> count_list ks k = count_list ks n \<and> k \<le> n)"
proof
  assume n: "get_consensus_ticks ks = Some n"
  have "count_list ks k < count_list ks n \<or> count_list ks k = count_list ks n \<and> k \<le> n" if "k \<in> set ks" for k
  proof (cases "count_list ks k < count_list ks n")
    case False
    have most: "\<forall>k' \<in> set ks. count_list ks k' \<le> count_list ks n"
      using consensus_mode(1) [OF n] by (simp add: tick_modes_iff)
    with False that have same: "count_list ks k = count_list ks n" by (meson le_antisym not_less)
    with most that have "k \<in> set (tick_modes ks)" by (simp add: tick_modes_iff)
    with consensus_mode(2) [OF n] same show ?thesis by simp
  qed simp
  with consensus_mode(3) [OF n] show "n \<in> set ks \<and>
     (\<forall>k \<in> set ks. count_list ks k < count_list ks n \<or> count_list ks k = count_list ks n \<and> k \<le> n)" by blast
next
  assume R: "n \<in> set ks \<and>
     (\<forall>k \<in> set ks. count_list ks k < count_list ks n \<or> count_list ks k = count_list ks n \<and> k \<le> n)"
  then have "ks \<noteq> []" by auto
  then obtain m where m: "get_consensus_ticks ks = Some m" by (simp add: get_consensus_ticks_def)
  from R have "n \<in> set (tick_modes ks)" by (auto simp: tick_modes_iff)
  with consensus_mode(2) [OF m] have "n \<le> m" by simp
  moreover from consensus_mode(1) [OF m] R have "count_list ks n \<le> count_list ks m" by (simp add: tick_modes_iff)
  with R consensus_mode(3) [OF m] have "m \<le> n" by force
  ultimately have "m = n" by simp
  with m show "get_consensus_ticks ks = Some n" by simp
qed

text \<open>C34: classifying after the demotion never fails on some clients. The accurate clients that are left all
  have the reference tick count, one of them is the base, and the others are exactly the matching
  clients; with none left, the base is the client that recorded most and nothing matches.\<close>

theorem classify_after_demotion:
  assumes "clients \<noteq> []" and "distinct (map ce_id clients)"
  shows "\<exists>r demoted alerts. classify_and_update clients = Some (r, demoted, alerts) \<and>
    demoted = fst (demote_clients clients) \<and> cl_base r \<in> set demoted \<and>
    set demoted = insert (cl_base r) (set (cl_matching r) \<union> set (cl_mismatched r)) \<and>
    (if list_ex ce_accurate demoted
     then ce_accurate (cl_base r) \<and> rs_method (cl_reference r) = ACCURATE_MODAL \<and>
       (\<forall>c \<in> set demoted. ce_accurate c \<longrightarrow> get_final_tick c = rs_count (cl_reference r)) \<and>
       set (cl_matching r) = {c \<in> set demoted. ce_accurate c} - {cl_base r}
     else cl_matching r = [] \<and> (\<forall>c \<in> set demoted. get_final_tick c \<le> get_final_tick (cl_base r)))"
proof -
  define demoted where "demoted = fst (demote_clients clients)"
  have ids: "map ce_id demoted = map ce_id clients"
    using arg_cong [OF demoted_clients, of "map ce_id" clients] by (simp add: demoted_def comp_def)
  have ne: "demoted \<noteq> []" using assms(1) ids by auto
  have dist: "distinct (map ce_id demoted)" using assms(2) ids by simp
  obtain br where "(if filter ce_accurate demoted \<noteq> [] then accurate_selection (filter ce_accurate demoted)
      else inexact_selection demoted) = Some br"
    using accurate_selection_total inexact_selection_total [OF ne] by (metis (full_types))
  then obtain r where r: "classify_clients demoted = Some r" by (auto simp: classify_clients_def Let_def split: prod.split)
  have base: "cl_base r \<in> set demoted"
  proof (cases "filter ce_accurate demoted = []")
    case True
    from inexact_selection_base(1) [OF classify_clients_Some(2) [OF r True]] show ?thesis .
  next
    case False
    from accurate_selection_Some(1) [OF classify_clients_Some(1) [OF r False]] show ?thesis by simp
  qed
  have same: "c = cl_base r" if "c \<in> set demoted" "ce_id c = ce_id (cl_base r)" for c
    using inj_onD [OF _ that(2) that(1) base] dist by (simp add: distinct_map)
  have split: "set demoted = insert (cl_base r) (set (cl_matching r) \<union> set (cl_mismatched r))"
    unfolding classify_clients_Some(3,4) [OF r] using base same by auto
  have rest: "if list_ex ce_accurate demoted
     then ce_accurate (cl_base r) \<and> rs_method (cl_reference r) = ACCURATE_MODAL \<and>
       (\<forall>c \<in> set demoted. ce_accurate c \<longrightarrow> get_final_tick c = rs_count (cl_reference r)) \<and>
       set (cl_matching r) = {c \<in> set demoted. ce_accurate c} - {cl_base r}
     else cl_matching r = [] \<and> (\<forall>c \<in> set demoted. get_final_tick c \<le> get_final_tick (cl_base r))"
  proof (cases "filter ce_accurate demoted = []")
    case True
    from inexact_selection_base [OF classify_clients_Some(2) [OF r True]] True show ?thesis
      unfolding classify_clients_Some(3) [OF r]
      by (auto simp: list_ex_iff filter_empty_conv is_matching_def base_key_def less_eq_prod_def)
  next
    case False
    note sel = accurate_selection_Some [OF classify_clients_Some(1) [OF r False]]
    have acc: "ce_accurate (cl_base r)" using sel(1) by simp
    have all: "get_final_tick c = rs_count (cl_reference r)" if "c \<in> set demoted" "ce_accurate c" for c
      using demoted_agree [of c clients "cl_base r"] that base acc sel(2) by (simp add: demoted_def)
    have "set (cl_matching r) = {c \<in> set demoted. ce_accurate c} - {cl_base r}"
      unfolding classify_clients_Some(3) [OF r] using acc all same by (auto simp: is_matching_def)
    moreover have "list_ex ce_accurate demoted" using False by (auto simp: list_ex_iff filter_empty_conv)
    ultimately show ?thesis using acc all sel(3) by simp
  qed
  obtain conflict where "demote_clients clients = (demoted, conflict)"
    by (cases "demote_clients clients") (simp add: demoted_def)
  with r have "\<exists>alerts. classify_and_update clients = Some (r, demoted, alerts)"
    by (simp add: classify_and_update_def)
  with base split rest show ?thesis unfolding demoted_def by blast
qed

text \<open>Demotion only takes accuracy away, from all accurate clients when two tick counts are equally
  frequent among them, and otherwise from those without the most frequent one.\<close>

theorem demotion_keeps_single_mode:
  assumes "c \<in> set clients" and "ce_accurate c"
  shows "(c \<in> set (fst (demote_clients clients)) \<longleftrightarrow>
      tick_modes (map get_final_tick (filter ce_accurate clients)) = [get_final_tick c]) \<and>
    map (\<lambda>c. c\<lparr>ce_accurate := False\<rparr>) (fst (demote_clients clients)) = map (\<lambda>c. c\<lparr>ce_accurate := False\<rparr>) clients"
  using demoted_accurate [OF assms] demoted_clients by blast

subsection \<open>Witnesses\<close>

definition sample_recorder :: "int \<Rightarrow> bool \<Rightarrow> nat \<Rightarrow> client_events" where
  "sample_recorder i acc n =
     \<lparr>ce_id = i, ce_challenge = sample_challenge, ce_info = sample_info,
      ce_ticks = replicate (Suc n) \<lparr>ts_tick = 0, ts_events = [], ts_players = [], ts_npcs = [], ts_graphics = []\<rparr>, ce_pivots = [],
      ce_metadata = None, ce_primary = None, ce_invalid_ticks = False, ce_anomalies = [], ce_corrections = [],
      ce_accurate = acc, ce_issues = []\<rparr>"

definition sample_recorders :: "client_events list" where
  "sample_recorders = [sample_recorder 4 True 2, sample_recorder 3 True 2, sample_recorder 5 True 3, sample_recorder 6 False 9]"

lemma consensus_is_largest_mode_witness: "get_consensus_ticks [4, 7, 7, 4, 9] = Some 7"
  unfolding consensus_is_largest_mode by simp

lemma sample_recorder_mode:
  "tick_modes (map get_final_tick (filter ce_accurate sample_recorders)) = [get_final_tick (sample_recorder 4 True 2)]"
  by code_simp

theorem classify_after_demotion_witness:
  "\<exists>r demoted alerts. classify_and_update sample_recorders = Some (r, demoted, alerts) \<and>
     rs_count (cl_reference r) = 2"
proof -
  have some: "sample_recorders \<noteq> []" "distinct (map ce_id sample_recorders)"
    by (simp_all add: sample_recorders_def sample_recorder_def)
  have first: "sample_recorder 4 True 2 \<in> set sample_recorders" by (simp add: sample_recorders_def)
  have two: "get_final_tick (sample_recorder 4 True 2) = 2" and acc: "ce_accurate (sample_recorder 4 True 2)"
    by (simp_all add: sample_recorder_def sample_info_def get_final_tick_def)
  have left: "sample_recorder 4 True 2 \<in> set (fst (demote_clients sample_recorders))"
    using demoted_accurate [OF first acc] sample_recorder_mode by simp
  with acc have "list_ex ce_accurate (fst (demote_clients sample_recorders))" by (auto simp: list_ex_iff)
  with classify_after_demotion [OF some] left acc two show ?thesis by (metis (no_types, lifting))
qed

theorem demotion_keeps_single_mode_witness:
  "sample_recorder 4 True 2 \<in> set (fst (demote_clients sample_recorders)) \<longleftrightarrow> True"
proof -
  have "sample_recorder 4 True 2 \<in> set sample_recorders" "ce_accurate (sample_recorder 4 True 2)"
    by (simp_all add: sample_recorders_def sample_recorder_def)
  note kept = demotion_keeps_single_mode [OF this]
  with sample_recorder_mode show ?thesis by simp
qed

end
