(* ===== verification/Trusted_Prefixes.thy ===== *)
theory Trusted_Prefixes
  imports Classification
begin

text \<open>
  How far a merged timeline can be trusted (\<^verbatim>\<open>challenge-server/merging/trusted-prefixes.ts\<close>, with the quality
  flags of \<^verbatim>\<open>quality.ts\<close> and the merge context of \<^verbatim>\<open>context.ts\<close>). The map of contested ticks holds one
  insertion-ordered set of local ticks per client, the minimum over no ticks (Infinity) is
  \<^const>\<open>None\<close>, and the merge tracer is left out. Ticks of flags are indices into the merged timeline.
\<close>

subsection \<open>Quality flags and the merge context\<close>

datatype quality_flag =
    Large_Temporal_Gap event_type int int int
  | Unexpected_Conflict event_type nat int int
  | Unmapped_Cross_Tick_Reference event_type int int int
  | Attack_Target_Mismatch nat string int int int int
  | Attack_Type_Mismatch nat string int int int int
  | Spell_Target_Mismatch nat string spell_target spell_target int int
  | Spell_Type_Mismatch nat string int int int int
  | Npc_Attack_Type_Mismatch nat int int int int int int
  | Npc_Attack_Target_Mismatch nat int int "string option" "string option" int int
  | Attack_Mapped_Not_Found event_type bool int int

fun contested_flag_tick :: "quality_flag \<Rightarrow> nat option" where
  "contested_flag_tick (Attack_Type_Mismatch t _ _ _ _ _) = Some t"
| "contested_flag_tick (Attack_Target_Mismatch t _ _ _ _ _) = Some t"
| "contested_flag_tick (Spell_Type_Mismatch t _ _ _ _ _) = Some t"
| "contested_flag_tick (Spell_Target_Mismatch t _ _ _ _ _) = Some t"
| "contested_flag_tick (Npc_Attack_Type_Mismatch t _ _ _ _ _ _) = Some t"
| "contested_flag_tick (Npc_Attack_Target_Mismatch t _ _ _ _ _ _) = Some t"
| "contested_flag_tick (Unexpected_Conflict _ t _ _) = Some t"
| "contested_flag_tick (Large_Temporal_Gap _ _ _ _) = None"
| "contested_flag_tick (Unmapped_Cross_Tick_Reference _ _ _ _) = None"
| "contested_flag_tick (Attack_Mapped_Not_Found _ _ _ _) = None"

datatype merge_client_status = MERGED | UNMERGED | SKIPPED

record registered_client =
  rc_client :: client_events
  rc_status :: merge_client_status

record merge_context =
  cx_challenge :: challenge_info
  cx_stage :: stage
  cx_clients :: "(int, registered_client) omap"
  cx_mapping :: merge_mapping
  cx_contested :: "(int, nat list) omap"

subsection \<open>Contested ticks\<close>

definition record_contested_tick :: "int \<Rightarrow> quality_flag \<Rightarrow> merge_context \<Rightarrow> merge_context" where
  "record_contested_tick c flag cx =
     (case contested_flag_tick flag of
        None \<Rightarrow> cx
      | Some t \<Rightarrow>
          (case resolve_client_tick (cx_mapping cx) t c of
             None \<Rightarrow> cx
           | Some l \<Rightarrow>
               let ls = (case map_of (cx_contested cx) c of None \<Rightarrow> [] | Some ls \<Rightarrow> ls)
               in cx\<lparr>cx_contested := AList.update c (if l \<in> set ls then ls else ls @ [l]) (cx_contested cx)\<rparr>))"

definition record_contested_ticks :: "merge_context \<Rightarrow> int \<Rightarrow> quality_flag list \<Rightarrow> merge_context" where
  "record_contested_ticks cx c flags = fold (record_contested_tick c) flags cx"

subsection \<open>Contributors and their support\<close>

record contributor =
  cb_id :: int
  cb_first_issue :: "int option"
  cb_first_correction :: "int option"
  cb_participant :: bool

record tick_support =
  sp_contiguous :: nat
  sp_clean :: nat
  sp_participant :: bool
  sp_contested :: bool

definition no_support :: tick_support where
  "no_support = \<lparr>sp_contiguous = 0, sp_clean = 0, sp_participant = False, sp_contested = False\<rparr>"

definition min_tick :: "int list \<Rightarrow> int option" where
  "min_tick ts = fold (\<lambda>t m. case m of None \<Rightarrow> Some t | Some m \<Rightarrow> Some (if t < m then t else m)) ts None"

definition to_contributor :: "client_events \<Rightarrow> contributor" where
  "to_contributor c =
     \<lparr>cb_id = ce_id c, cb_first_issue = min_tick (map issue_tick (ce_issues c)),
      cb_first_correction = min_tick (concat (map (\<lambda>g. map (\<lambda>(a, t, r). t) (gc_applied g)) (ce_corrections c))),
      cb_participant = (\<not> is_spectator c)\<rparr>"

definition collect_contributors :: "merge_context \<Rightarrow> contributor list" where
  "collect_contributors cx =
     map (\<lambda>(i, rc). to_contributor (rc_client rc)) (filter (\<lambda>(i, rc). rc_status rc = MERGED) (cx_clients cx))"

definition later_than :: "int option \<Rightarrow> nat \<Rightarrow> bool" where
  "later_than first l \<longleftrightarrow> (case first of None \<Rightarrow> True | Some t \<Rightarrow> t > int l)"

definition is_contested :: "(int, nat list) omap \<Rightarrow> int \<Rightarrow> nat \<Rightarrow> bool" where
  "is_contested contested c l \<longleftrightarrow> (case map_of contested c of None \<Rightarrow> False | Some ls \<Rightarrow> l \<in> set ls)"

definition add_support :: "merge_mapping \<Rightarrow> (int, nat list) omap \<Rightarrow> nat \<Rightarrow> contributor \<Rightarrow> tick_support \<Rightarrow> tick_support" where
  "add_support mm contested m c s =
     (case resolve_client_tick mm m (cb_id c) of
        None \<Rightarrow> s
      | Some l \<Rightarrow>
          let s1 = (if is_contested contested (cb_id c) l then s\<lparr>sp_contested := True\<rparr> else s)
          in if later_than (cb_first_issue c) l then
               s1\<lparr>sp_contiguous := sp_contiguous s1 + 1,
                  sp_participant := (if cb_participant c then True else sp_participant s1),
                  sp_clean := (if later_than (cb_first_correction c) l then sp_clean s1 + 1 else sp_clean s1)\<rparr>
             else s1)"

definition support_at_tick :: "nat \<Rightarrow> contributor list \<Rightarrow> merge_mapping \<Rightarrow> (int, nat list) omap \<Rightarrow> tick_support" where
  "support_at_tick m cs mm contested = fold (add_support mm contested m) cs no_support"

subsection \<open>The two prefixes\<close>

record prefix_options =
  po_total :: nat
  po_offset :: nat
  po_inherited :: bool
  po_method :: selection_method

record trusted_prefixes =
  tp_accurate :: int
  tp_queryable :: int

definition known_to_start_at_zero :: "prefix_options \<Rightarrow> bool" where
  "known_to_start_at_zero opts \<longleftrightarrow> po_offset opts = 0 \<and> po_method opts = PRECISE_SERVER"

definition lacks_contributors :: "prefix_options \<Rightarrow> tick_support \<Rightarrow> bool" where
  "lacks_contributors opts s \<longleftrightarrow>
     sp_contiguous s < 2 \<or> \<not> sp_participant s \<and> \<not> known_to_start_at_zero opts"

definition has_data_issues :: "tick_support \<Rightarrow> bool" where
  "has_data_issues s \<longleftrightarrow> sp_contested s \<or> sp_clean s < min 2 (sp_contiguous s)"

text \<open>The loop over the ticks, \<open>-1\<close> standing for a prefix that has not ended yet.\<close>

fun prefix_loop :: "prefix_options \<Rightarrow> (nat \<Rightarrow> tick_support) \<Rightarrow> nat list \<Rightarrow> int \<times> int \<Rightarrow> int \<times> int" where
  "prefix_loop opts support [] aq = aq"
| "prefix_loop opts support (m # ms) (a, q) =
     (let s = support m;
          lacks = lacks_contributors opts s;
          a' = (if a < 0 \<and> lacks then int m else a);
          q' = (if q < 0 \<and> (\<not> po_inherited opts \<and> lacks \<or> has_data_issues s) then int m else q)
      in if a' \<ge> 0 \<and> q' \<ge> 0 then (a', q') else prefix_loop opts support ms (a', q'))"

definition compute_trusted_prefixes :: "merge_context \<Rightarrow> prefix_options \<Rightarrow> trusted_prefixes" where
  "compute_trusted_prefixes cx opts =
     (let cs = collect_contributors cx; total = int (po_total opts);
          support = (\<lambda>m. if m \<ge> po_offset opts
                      then support_at_tick (m - po_offset opts) cs (cx_mapping cx) (cx_contested cx)
                      else no_support);
          (a, q) = prefix_loop opts support [0..<po_total opts] (if po_inherited opts then total else -1, -1);
          a' = (if a < 0 then total else a);
          q' = (if q < 0 then total else q)
      in \<lparr>tp_accurate = a', tp_queryable = min q' a'\<rparr>)"

subsection \<open>Reference definitions\<close>

text \<open>What the prefixes promise, said of the clients themselves.\<close>

definition merged_clients :: "merge_context \<Rightarrow> client_events set" where
  "merged_clients cx = {rc_client rc | rc. rc \<in> snd ` set (cx_clients cx) \<and> rc_status rc = MERGED}"

definition contiguous_clients :: "merge_context \<Rightarrow> nat \<Rightarrow> client_events set" where
  "contiguous_clients cx m = {c \<in> merged_clients cx. \<exists>l. resolve_client_tick (cx_mapping cx) m (ce_id c) = Some l \<and>
     (\<forall>i \<in> set (ce_issues c). int l < issue_tick i)}"

definition clean_clients :: "merge_context \<Rightarrow> nat \<Rightarrow> client_events set" where
  "clean_clients cx m = {c \<in> contiguous_clients cx m. \<exists>l. resolve_client_tick (cx_mapping cx) m (ce_id c) = Some l \<and>
     (\<forall>g \<in> set (ce_corrections c). \<forall>(a, t, r) \<in> set (gc_applied g). int l < t)}"

definition disputed :: "merge_context \<Rightarrow> nat \<Rightarrow> bool" where
  "disputed cx m \<longleftrightarrow> (\<exists>c \<in> merged_clients cx. \<exists>l. resolve_client_tick (cx_mapping cx) m (ce_id c) = Some l \<and>
     is_contested (cx_contested cx) (ce_id c) l)"

definition accurate_tick :: "merge_context \<Rightarrow> prefix_options \<Rightarrow> nat \<Rightarrow> bool" where
  "accurate_tick cx opts m \<longleftrightarrow> po_inherited opts \<or>
     po_offset opts \<le> m \<and> 2 \<le> card (contiguous_clients cx (m - po_offset opts)) \<and>
     ((\<exists>c \<in> contiguous_clients cx (m - po_offset opts). \<not> is_spectator c) \<or>
      po_offset opts = 0 \<and> po_method opts = PRECISE_SERVER)"

definition queryable_tick :: "merge_context \<Rightarrow> prefix_options \<Rightarrow> nat \<Rightarrow> bool" where
  "queryable_tick cx opts m \<longleftrightarrow> accurate_tick cx opts m \<and>
     (po_offset opts \<le> m \<longrightarrow> \<not> disputed cx (m - po_offset opts) \<and>
        (2 \<le> card (clean_clients cx (m - po_offset opts)) \<or>
         clean_clients cx (m - po_offset opts) = contiguous_clients cx (m - po_offset opts)))"

text \<open>The length of the longest prefix of \<open>n\<close> ticks that all satisfy \<open>P\<close>.\<close>

definition longest_prefix :: "(nat \<Rightarrow> bool) \<Rightarrow> nat \<Rightarrow> int \<Rightarrow> bool" where
  "longest_prefix P n t \<longleftrightarrow> 0 \<le> t \<and> t \<le> int n \<and> (\<forall>m. int m < t \<longrightarrow> P m) \<and> (t < int n \<longrightarrow> \<not> P (nat t))"

subsection \<open>The loop\<close>

definition first_tick :: "(nat \<Rightarrow> bool) \<Rightarrow> nat list \<Rightarrow> int" where
  "first_tick P ms = (case find P ms of None \<Rightarrow> -1 | Some m \<Rightarrow> int m)"

lemma first_tick_simps [simp]:
  "first_tick P [] = -1" "first_tick P (m # ms) = (if P m then int m else first_tick P ms)"
  by (simp_all add: first_tick_def)

lemma prefix_loop_first:
  assumes "-1 \<le> a" and "-1 \<le> q"
  shows "prefix_loop opts support ms (a, q) =
    (if a < 0 then first_tick (\<lambda>m. lacks_contributors opts (support m)) ms else a,
     if q < 0 then first_tick (\<lambda>m. \<not> po_inherited opts \<and> lacks_contributors opts (support m) \<or> has_data_issues (support m)) ms else q)"
  using assms by (induction ms arbitrary: a q) (simp_all add: Let_def)

lemma longest_prefix_first:
  "longest_prefix (\<lambda>m. \<not> P m) n (if first_tick P [0..<n] < 0 then int n else first_tick P [0..<n])"
proof (cases "find P [0..<n]")
  case None
  then have "\<forall>m < n. \<not> P m" by (simp add: find_None_iff)
  moreover from None have "first_tick P [0..<n] = -1" by (simp add: first_tick_def)
  ultimately show ?thesis by (simp add: longest_prefix_def)
next
  case (Some m)
  then have "m < n" "P m" "\<forall>j < m. \<not> P j" by (auto simp: find_Some_iff)
  with Some show ?thesis by (auto simp: first_tick_def longest_prefix_def)
qed

lemma longest_prefix_mono:
  assumes "longest_prefix P n t" and "longest_prefix Q n u" and "\<And>m. Q m \<Longrightarrow> P m"
  shows "u \<le> t"
proof (rule ccontr)
  assume "\<not> u \<le> t"
  with assms show False unfolding longest_prefix_def by (metis int_nat_eq linorder_not_le order_less_le_trans)
qed

subsection \<open>Support\<close>

lemma later_than_min: "later_than (min_tick ts) l \<longleftrightarrow> (\<forall>t \<in> set ts. int l < t)"
proof -
  have "later_than (fold (\<lambda>t m. case m of None \<Rightarrow> Some t | Some m \<Rightarrow> Some (if t < m then t else m)) ts m) l \<longleftrightarrow>
      later_than m l \<and> (\<forall>t \<in> set ts. int l < t)" for m
    by (induction ts arbitrary: m) (auto simp: later_than_def split: option.splits)
  then show ?thesis by (simp add: min_tick_def later_than_def)
qed

definition at_tick :: "merge_mapping \<Rightarrow> nat \<Rightarrow> (contributor \<Rightarrow> nat \<Rightarrow> bool) \<Rightarrow> contributor \<Rightarrow> bool" where
  "at_tick mm m P c \<longleftrightarrow> (case resolve_client_tick mm m (cb_id c) of None \<Rightarrow> False | Some l \<Rightarrow> P c l)"

lemma support_at_tick_counts:
  "support_at_tick m cs mm contested =
     \<lparr>sp_contiguous = length (filter (at_tick mm m (\<lambda>c. later_than (cb_first_issue c))) cs),
      sp_clean = length (filter (at_tick mm m (\<lambda>c l. later_than (cb_first_issue c) l \<and> later_than (cb_first_correction c) l)) cs),
      sp_participant = list_ex (at_tick mm m (\<lambda>c l. later_than (cb_first_issue c) l \<and> cb_participant c)) cs,
      sp_contested = list_ex (at_tick mm m (\<lambda>c. is_contested contested (cb_id c))) cs\<rparr>"
proof -
  have "fold (add_support mm contested m) cs s =
     \<lparr>sp_contiguous = sp_contiguous s + length (filter (at_tick mm m (\<lambda>c. later_than (cb_first_issue c))) cs),
      sp_clean = sp_clean s + length (filter (at_tick mm m (\<lambda>c l. later_than (cb_first_issue c) l \<and> later_than (cb_first_correction c) l)) cs),
      sp_participant = (sp_participant s \<or> list_ex (at_tick mm m (\<lambda>c l. later_than (cb_first_issue c) l \<and> cb_participant c)) cs),
      sp_contested = (sp_contested s \<or> list_ex (at_tick mm m (\<lambda>c. is_contested contested (cb_id c))) cs)\<rparr>" for s
    by (induction cs arbitrary: s) (simp_all add: add_support_def at_tick_def Let_def split: option.split)
  then show ?thesis by (simp add: support_at_tick_def no_support_def)
qed

definition registered_ids :: "merge_context \<Rightarrow> int list" where
  "registered_ids cx = map (\<lambda>(i, rc). ce_id (rc_client rc)) (cx_clients cx)"

definition merged_list :: "merge_context \<Rightarrow> client_events list" where
  "merged_list cx = map (\<lambda>(i, rc). rc_client rc) (filter (\<lambda>(i, rc). rc_status rc = MERGED) (cx_clients cx))"

lemma merged_list_set: "set (merged_list cx) = merged_clients cx"
  by (force simp: merged_list_def merged_clients_def)

lemma merged_list_distinct:
  assumes "distinct (registered_ids cx)"
  shows "distinct (merged_list cx)"
proof -
  have "registered_ids cx = map ce_id (map (\<lambda>(i, rc). rc_client rc) (cx_clients cx))"
    by (simp add: registered_ids_def split_beta)
  with assms have "distinct (map (\<lambda>(i, rc). rc_client rc) (cx_clients cx))" by (metis distinct_map)
  then show ?thesis by (simp add: merged_list_def distinct_map inj_on_def)
qed

lemma contributors_merged: "collect_contributors cx = map to_contributor (merged_list cx)"
  by (simp add: collect_contributors_def merged_list_def split_beta comp_def)

lemma at_tick_client:
  "at_tick mm m P (to_contributor c) \<longleftrightarrow> (\<exists>l. resolve_client_tick mm m (ce_id c) = Some l \<and> P (to_contributor c) l)"
  by (simp add: at_tick_def to_contributor_def split: option.split)

lemma to_contributor_later:
  "later_than (cb_first_issue (to_contributor c)) l \<longleftrightarrow> (\<forall>i \<in> set (ce_issues c). int l < issue_tick i)"
  "later_than (cb_first_correction (to_contributor c)) l \<longleftrightarrow>
     (\<forall>g \<in> set (ce_corrections c). \<forall>(a, t, r) \<in> set (gc_applied g). int l < t)"
  "cb_participant (to_contributor c) \<longleftrightarrow> \<not> is_spectator c" "cb_id (to_contributor c) = ce_id c"
  by (fastforce simp: to_contributor_def later_than_min)+

lemma count_merged:
  assumes "distinct (registered_ids cx)"
  shows "length (filter P (collect_contributors cx)) = card {c \<in> merged_clients cx. P (to_contributor c)}"
proof -
  have "length (filter P (collect_contributors cx)) = length (filter (\<lambda>c. P (to_contributor c)) (merged_list cx))"
    by (simp add: contributors_merged filter_map comp_def)
  then show ?thesis
    using merged_list_distinct [OF assms] by (simp add: merged_list_set flip: distinct_card)
qed

lemma support_of_clients:
  assumes "distinct (registered_ids cx)"
  shows "support_at_tick m (collect_contributors cx) (cx_mapping cx) (cx_contested cx) =
    \<lparr>sp_contiguous = card (contiguous_clients cx m), sp_clean = card (clean_clients cx m),
     sp_participant = (\<exists>c \<in> contiguous_clients cx m. \<not> is_spectator c), sp_contested = disputed cx m\<rparr>"
proof -
  have "{c \<in> merged_clients cx. at_tick (cx_mapping cx) m (\<lambda>c. later_than (cb_first_issue c)) (to_contributor c)} =
      contiguous_clients cx m"
    by (auto simp: at_tick_client to_contributor_later contiguous_clients_def)
  moreover have "{c \<in> merged_clients cx. at_tick (cx_mapping cx) m
      (\<lambda>c l. later_than (cb_first_issue c) l \<and> later_than (cb_first_correction c) l) (to_contributor c)} = clean_clients cx m"
    by (auto simp: at_tick_client to_contributor_later contiguous_clients_def clean_clients_def)
  moreover have "list_ex (at_tick (cx_mapping cx) m (\<lambda>c l. later_than (cb_first_issue c) l \<and> cb_participant c))
      (collect_contributors cx) \<longleftrightarrow> (\<exists>c \<in> contiguous_clients cx m. \<not> is_spectator c)"
    by (auto simp: contributors_merged list_ex_iff merged_list_set at_tick_client to_contributor_later contiguous_clients_def)
  moreover have "list_ex (at_tick (cx_mapping cx) m (\<lambda>c. is_contested (cx_contested cx) (cb_id c)))
      (collect_contributors cx) \<longleftrightarrow> disputed cx m"
    by (auto simp: contributors_merged list_ex_iff merged_list_set at_tick_client to_contributor_later disputed_def)
  ultimately show ?thesis by (simp add: support_at_tick_counts count_merged [OF assms])
qed

definition final_support :: "merge_context \<Rightarrow> prefix_options \<Rightarrow> nat \<Rightarrow> tick_support" where
  "final_support cx opts m =
     (if m \<ge> po_offset opts
      then support_at_tick (m - po_offset opts) (collect_contributors cx) (cx_mapping cx) (cx_contested cx)
      else no_support)"

lemma lacks_contributors_iff:
  assumes "distinct (registered_ids cx)"
  shows "accurate_tick cx opts m \<longleftrightarrow> po_inherited opts \<or> \<not> lacks_contributors opts (final_support cx opts m)"
  using support_of_clients [OF assms, of "m - po_offset opts"]
  by (auto simp: accurate_tick_def final_support_def lacks_contributors_def known_to_start_at_zero_def no_support_def)

lemma clean_enough_iff:
  "card (clean_clients cx m) < min 2 (card (contiguous_clients cx m)) \<longleftrightarrow>
     \<not> (2 \<le> card (clean_clients cx m) \<or> clean_clients cx m = contiguous_clients cx m)"
proof -
  have fin: "finite (contiguous_clients cx m)"
    by (simp add: contiguous_clients_def flip: merged_list_set)
  have sub: "clean_clients cx m \<subseteq> contiguous_clients cx m" by (auto simp: clean_clients_def)
  show ?thesis
  proof (cases "clean_clients cx m = contiguous_clients cx m")
    case False
    with sub have "card (clean_clients cx m) < card (contiguous_clients cx m)" by (intro psubset_card_mono [OF fin]) auto
    with False show ?thesis by auto
  qed simp
qed

lemma queryable_tick_iff:
  assumes "distinct (registered_ids cx)"
  shows "queryable_tick cx opts m \<longleftrightarrow>
    accurate_tick cx opts m \<and> \<not> has_data_issues (final_support cx opts m)"
  using support_of_clients [OF assms, of "m - po_offset opts"] clean_enough_iff [of cx "m - po_offset opts"]
  by (auto simp: queryable_tick_def final_support_def has_data_issues_def no_support_def)

subsection \<open>Properties\<close>

text \<open>C33: the accurate prefix is the longest one whose ticks are all accurate: either the base was, or two
  merged clients without an earlier consistency issue saw the tick, one of them a participant unless the
  stage is known to start at tick 0. The queryable prefix is the longest one whose ticks are moreover
  undisputed and kept by two uncorrected clients or by all of them; it is never longer.\<close>

theorem trusted_prefixes_longest:
  assumes "distinct (registered_ids cx)"
  shows "longest_prefix (accurate_tick cx opts) (po_total opts) (tp_accurate (compute_trusted_prefixes cx opts)) \<and>
    longest_prefix (queryable_tick cx opts) (po_total opts) (tp_queryable (compute_trusted_prefixes cx opts)) \<and>
    tp_queryable (compute_trusted_prefixes cx opts) \<le> tp_accurate (compute_trusted_prefixes cx opts)"
proof -
  let ?n = "po_total opts" and ?s = "final_support cx opts"
  define first where "first P = (if first_tick P [0..<?n] < 0 then int ?n else first_tick P [0..<?n])" for P
  define a where "a = (if po_inherited opts then int ?n else first (\<lambda>m. lacks_contributors opts (?s m)))"
  define q where "q = first (\<lambda>m. \<not> po_inherited opts \<and> lacks_contributors opts (?s m) \<or> has_data_issues (?s m))"
  have result: "compute_trusted_prefixes cx opts = \<lparr>tp_accurate = a, tp_queryable = min q a\<rparr>"
  proof -
    have "prefix_loop opts ?s [0..<?n] (if po_inherited opts then int ?n else -1, -1) =
        (if po_inherited opts then int ?n else first_tick (\<lambda>m. lacks_contributors opts (?s m)) [0..<?n],
         first_tick (\<lambda>m. \<not> po_inherited opts \<and> lacks_contributors opts (?s m) \<or> has_data_issues (?s m)) [0..<?n])"
      by (simp add: prefix_loop_first)
    moreover have "compute_trusted_prefixes cx opts =
        (let (x, y) = prefix_loop opts ?s [0..<?n] (if po_inherited opts then int ?n else -1, -1);
             a' = (if x < 0 then int ?n else x)
         in \<lparr>tp_accurate = a', tp_queryable = min (if y < 0 then int ?n else y) a'\<rparr>)"
      by (simp add: compute_trusted_prefixes_def Let_def flip: final_support_def)
    ultimately show ?thesis by (simp add: a_def q_def first_def Let_def)
  qed
  have "longest_prefix (\<lambda>_. True) ?n (int ?n)" by (simp add: longest_prefix_def)
  moreover note longest_prefix_first [of "\<lambda>m. lacks_contributors opts (?s m)" ?n]
  moreover have "accurate_tick cx opts = (\<lambda>m. po_inherited opts \<or> \<not> lacks_contributors opts (?s m))"
    by (rule ext) (rule lacks_contributors_iff [OF assms])
  ultimately have accurate: "longest_prefix (accurate_tick cx opts) ?n a"
    by (cases "po_inherited opts") (simp_all add: a_def first_def)
  have "queryable_tick cx opts =
      (\<lambda>m. \<not> (\<not> po_inherited opts \<and> lacks_contributors opts (?s m) \<or> has_data_issues (?s m)))"
    by (rule ext) (auto simp: queryable_tick_iff [OF assms] lacks_contributors_iff [OF assms])
  then have queryable: "longest_prefix (queryable_tick cx opts) ?n q"
    unfolding q_def first_def by (simp only: longest_prefix_first)
  have "q \<le> a" by (rule longest_prefix_mono [OF accurate queryable]) (simp add: queryable_tick_def)
  with accurate queryable result show ?thesis by simp
qed

lemma contested_recorded:
  "is_contested (cx_contested (record_contested_ticks cx c flags)) d l \<longleftrightarrow>
     is_contested (cx_contested cx) d l \<or>
     d = c \<and> (\<exists>f \<in> set flags. \<exists>t. contested_flag_tick f = Some t \<and> resolve_client_tick (cx_mapping cx) t c = Some l)"
proof -
  have step: "is_contested (cx_contested (record_contested_tick c f cx)) d l \<longleftrightarrow>
      is_contested (cx_contested cx) d l \<or>
      d = c \<and> (\<exists>t. contested_flag_tick f = Some t \<and> resolve_client_tick (cx_mapping cx) t c = Some l)" for f cx
    by (auto simp: record_contested_tick_def is_contested_def Let_def omap.get_put split: option.splits)
  have map: "cx_mapping (record_contested_tick c f cx) = cx_mapping cx" for f cx
    by (simp add: record_contested_tick_def Let_def split: option.split)
  show ?thesis
    by (induction flags arbitrary: cx) (auto simp: record_contested_ticks_def step map)
qed

text \<open>Recording the flags of a merge step marks exactly the local ticks of the client that the merged
  ticks in disagreement stem from, and nothing of other clients.\<close>

theorem contested_ticks_recorded:
  "is_contested (cx_contested (record_contested_ticks cx c flags)) d l \<longleftrightarrow>
     is_contested (cx_contested cx) d l \<or>
     d = c \<and> (\<exists>f \<in> set flags. \<exists>t. contested_flag_tick f = Some t \<and> resolve_client_tick (cx_mapping cx) t c = Some l)"
  by (rule contested_recorded)

subsection \<open>Witnesses\<close>

definition sample_context :: merge_context where
  "sample_context =
     \<lparr>cx_challenge = sample_challenge, cx_stage = TOB_NYLOCAS,
      cx_clients = [(7, \<lparr>rc_client = (sample_recorder 7 False 3)\<lparr>ce_issues := [Bad_Data 3 ''x'']\<rparr>, rc_status = MERGED\<rparr>),
                    (8, \<lparr>rc_client = (sample_recorder 8 False 3)\<lparr>ce_primary := Some ''p''\<rparr>, rc_status = MERGED\<rparr>)],
      cx_mapping = commit_step (begin_step 8
        \<lparr>m_base = identity_mapping 5, m_target = identity_mapping 5, m_count = 5\<rparr> (new_merge_mapping 7)),
      cx_contested = [(8, [1])]\<rparr>"

definition sample_prefix_options :: prefix_options where
  "sample_prefix_options = \<lparr>po_total = 5, po_offset = 0, po_inherited = False, po_method = PRECISE_SERVER\<rparr>"

theorem trusted_prefixes_longest_witness:
  "longest_prefix (accurate_tick sample_context sample_prefix_options) 5 3 \<and>
   longest_prefix (queryable_tick sample_context sample_prefix_options) 5 1"
proof -
  have "distinct (registered_ids sample_context)" by code_simp
  moreover have "tp_accurate (compute_trusted_prefixes sample_context sample_prefix_options) = 3 \<and>
      tp_queryable (compute_trusted_prefixes sample_context sample_prefix_options) = 1" by code_simp
  ultimately show ?thesis
    using trusted_prefixes_longest [of sample_context sample_prefix_options] by (simp add: sample_prefix_options_def)
qed

end
