(* ===== verification/Reconcile.thy ===== *)
theory Reconcile
  imports Trusted_Prefixes
begin

text \<open>
  Reconciling what two clients saw of the attacks and spells of one tick
  (\<^verbatim>\<open>mergePlayerAttacks\<close>, \<^verbatim>\<open>mergePlayerSpells\<close> and \<^verbatim>\<open>mergeNpcAttacks\<close> of
  \<^verbatim>\<open>challenge-server/merging/event-consolidator.ts\<close>, with the attack types of \<^verbatim>\<open>event.ts\<close>). The
  numbers of the attacks the code names and the set of targeted spells come from generated data and
  are parameters. Distances are compared by their squares. Each pass yields the tick, the quality flags it
  raises and the number of attacks both sides held.
\<close>

subsection \<open>Parameters\<close>

record attack_numbers =
  an_blowpipe :: int
  an_blowpipe_spec :: int
  an_zcb_auto :: int
  an_zcb_spec :: int
  an_sote_ball :: int
  an_sote_death_ball :: int
  an_dawn_spec :: int
  an_verzik_p3_auto :: int
  an_verzik_p2_bounce :: int

text \<open>Building the \<^verbatim>\<open>Map\<close> of the normalized attacks: a later entry of a key replaces an earlier one.\<close>

definition normalized_attacks :: "attack_numbers \<Rightarrow> (int, int) omap" where
  "normalized_attacks an =
     fold (\<lambda>(k, v). AList.update k v)
       [(an_blowpipe an, an_blowpipe an), (an_blowpipe_spec an, an_blowpipe an),
        (an_zcb_auto an, an_zcb_auto an), (an_zcb_spec an, an_zcb_auto an),
        (an_sote_ball an, an_sote_ball an), (an_sote_death_ball an, an_sote_ball an)] []"

definition normalize_attack_type :: "attack_numbers \<Rightarrow> int \<Rightarrow> int" where
  "normalize_attack_type an a = (case map_of (normalized_attacks an) a of None \<Rightarrow> a | Some b \<Rightarrow> b)"

definition are_projectile_ambiguous :: "attack_numbers \<Rightarrow> int \<Rightarrow> int \<Rightarrow> bool" where
  "are_projectile_ambiguous an a b \<longleftrightarrow> a \<noteq> b \<and> normalize_attack_type an a = normalize_attack_type an b"

subsection \<open>Proximity\<close>

definition distance_squared :: "coords \<Rightarrow> coords \<Rightarrow> int" where
  "distance_squared a b = (fst a - fst b)\<^sup>2 + (snd a - snd b)\<^sup>2"

text \<open>The primary player of a registered client; an empty name counts as none.\<close>

definition primary_player :: "merge_context \<Rightarrow> int \<Rightarrow> string option" where
  "primary_player cx c =
     (case map_of (cx_clients cx) c of
        None \<Rightarrow> None
      | Some rc \<Rightarrow> (case ce_primary (rc_client rc) of None \<Rightarrow> None | Some p \<Rightarrow> if p = [] then None else Some p))"

definition resolve_projectile_ambiguous_attack ::
    "merge_context \<Rightarrow> tick_state \<Rightarrow> int \<Rightarrow> tick_state \<Rightarrow> int \<Rightarrow> coords \<Rightarrow> bool" where
  "resolve_projectile_ambiguous_attack cx merged merged_source target target_source attacker =
     (case (primary_player cx merged_source, primary_player cx target_source) of
        (Some bp, Some tp) \<Rightarrow>
          (case (get_player_state bp merged, get_player_state tp target) of
             (Some b, Some t) \<Rightarrow>
               distance_squared (ps_x t, ps_y t) attacker < distance_squared (ps_x b, ps_y b) attacker
           | _ \<Rightarrow> False)
      | _ \<Rightarrow> False)"

subsection \<open>Player attacks\<close>

text \<open>The decisions: \<^const>\<open>None\<close> leaves the merged side as it is, otherwise the attack it is set to.\<close>

definition reconcile_attack_target ::
    "player_attacked \<Rightarrow> player_attacked \<Rightarrow> nat \<Rightarrow> string \<Rightarrow> player_attacked \<times> quality_flag list" where
  "reconcile_attack_target winner loser tick player =
     (case (at_target winner, at_target loser) of
        (None, None) \<Rightarrow> (winner, [])
      | (None, Some t) \<Rightarrow> (winner\<lparr>at_target := Some t, at_distance := at_distance loser\<rparr>, [])
      | (Some w, None) \<Rightarrow> (winner, [])
      | (Some w, Some l) \<Rightarrow>
          (winner,
           if fst (snd w) \<noteq> fst (snd l)
           then [Attack_Target_Mismatch tick player (fst (snd w)) (fst (snd l)) (at_source winner) (at_source loser)]
           else []))"

definition decide_player_attack ::
    "attack_numbers \<Rightarrow> merge_context \<Rightarrow> tick_state \<Rightarrow> tick_state \<Rightarrow> string \<Rightarrow> player_state \<Rightarrow>
     player_attacked option \<times> quality_flag list \<times> nat" where
  "decide_player_attack an cx merged target player s =
     (let tick = nat (ts_tick merged) in
      case (ps_attack s, Option.bind (get_player_state player target) ps_attack) of
        (None, None) \<Rightarrow> (None, [], 0)
      | (None, Some other) \<Rightarrow> (Some other, [], 0)
      | (Some base, None) \<Rightarrow> (None, [], 0)
      | (Some base, Some other) \<Rightarrow>
          (if at_source base = at_source other then (None, [], 0)
           else if at_type base \<noteq> at_type other \<and> \<not> are_projectile_ambiguous an (at_type base) (at_type other)
           then (None, [Attack_Type_Mismatch tick player (at_type base) (at_type other) (at_source base) (at_source other)], 1)
           else let override = at_type base \<noteq> at_type other \<and>
                      resolve_projectile_ambiguous_attack cx merged (at_source base) target (at_source other) (ps_x s, ps_y s);
                    (r, flags) = (if override then reconcile_attack_target other base tick player
                                  else reconcile_attack_target base other tick player)
             in (Some r, flags, 1)))"

type_synonym pass_state = "tick_state \<times> quality_flag list \<times> nat"

definition merge_player_attack ::
    "attack_numbers \<Rightarrow> merge_context \<Rightarrow> tick_state \<Rightarrow> string \<times> player_state option \<Rightarrow> pass_state \<Rightarrow> pass_state" where
  "merge_player_attack an cx target ps st =
     (case (ps, st) of
        ((player, None), _) \<Rightarrow> st
      | ((player, Some s), (merged, flags, n)) \<Rightarrow>
          let (r, fs, k) = decide_player_attack an cx merged target player s
          in (case r of None \<Rightarrow> merged | Some a \<Rightarrow> set_player_attack player (Some a) merged, flags @ fs, n + k))"

definition merge_player_attacks :: "attack_numbers \<Rightarrow> merge_context \<Rightarrow> tick_state \<Rightarrow> tick_state \<Rightarrow> pass_state" where
  "merge_player_attacks an cx merged target =
     fold (merge_player_attack an cx target) (ts_players merged) (merged, [], 0)"

subsection \<open>Player spells\<close>

fun spell_targets_equal :: "spell_target \<Rightarrow> spell_target \<Rightarrow> bool" where
  "spell_targets_equal (Spell_Player p) (Spell_Player q) = (p = q)"
| "spell_targets_equal (Spell_Npc i r) (Spell_Npc j s) = (r = s)"
| "spell_targets_equal _ _ = False"

definition reconcile_spell_target ::
    "(int \<Rightarrow> bool) \<Rightarrow> spell_cast \<Rightarrow> spell_cast \<Rightarrow> nat \<Rightarrow> string \<Rightarrow> spell_cast \<times> quality_flag list" where
  "reconcile_spell_target targeted winner loser tick player =
     (if \<not> targeted (sl_type winner) then (winner\<lparr>sl_target := None\<rparr>, [])
      else case (sl_target winner, sl_target loser) of
        (None, None) \<Rightarrow> (winner, [])
      | (None, Some t) \<Rightarrow> (winner\<lparr>sl_target := Some t\<rparr>, [])
      | (Some w, None) \<Rightarrow> (winner, [])
      | (Some w, Some l) \<Rightarrow>
          (winner,
           if \<not> spell_targets_equal (fst w) (fst l)
           then [Spell_Target_Mismatch tick player (fst w) (fst l) (sl_source winner) (sl_source loser)] else []))"

definition decide_player_spell ::
    "(int \<Rightarrow> bool) \<Rightarrow> tick_state \<Rightarrow> tick_state \<Rightarrow> string \<Rightarrow> player_state \<Rightarrow> spell_cast option \<times> quality_flag list \<times> nat" where
  "decide_player_spell targeted merged target player s =
     (let tick = nat (ts_tick merged) in
      case (ps_spell s, Option.bind (get_player_state player target) ps_spell) of
        (None, None) \<Rightarrow> (None, [], 0)
      | (None, Some other) \<Rightarrow> (Some other, [], 0)
      | (Some base, None) \<Rightarrow> (None, [], 0)
      | (Some base, Some other) \<Rightarrow>
          (if sl_source base = sl_source other then (None, [], 0)
           else if sl_type base \<noteq> sl_type other
           then (None, [Spell_Type_Mismatch tick player (sl_type base) (sl_type other) (sl_source base) (sl_source other)], 1)
           else let (r, flags) = reconcile_spell_target targeted base other tick player in (Some r, flags, 1)))"

definition merge_player_spell ::
    "(int \<Rightarrow> bool) \<Rightarrow> tick_state \<Rightarrow> string \<times> player_state option \<Rightarrow> pass_state \<Rightarrow> pass_state" where
  "merge_player_spell targeted target ps st =
     (case (ps, st) of
        ((player, None), _) \<Rightarrow> st
      | ((player, Some s), (merged, flags, n)) \<Rightarrow>
          let (r, fs, k) = decide_player_spell targeted merged target player s
          in (case r of None \<Rightarrow> merged | Some a \<Rightarrow> set_player_spell player (Some a) merged, flags @ fs, n + k))"

definition merge_player_spells :: "(int \<Rightarrow> bool) \<Rightarrow> tick_state \<Rightarrow> tick_state \<Rightarrow> pass_state" where
  "merge_player_spells targeted merged target =
     fold (merge_player_spell targeted target) (ts_players merged) (merged, [], 0)"

subsection \<open>NPC attacks\<close>

definition reconcile_npc_attack_target ::
    "npc_attacked \<Rightarrow> npc_attacked \<Rightarrow> nat \<Rightarrow> int \<Rightarrow> int \<Rightarrow> npc_attacked \<times> quality_flag list" where
  "reconcile_npc_attack_target winner loser tick room npc =
     (case (nt_target winner, nt_target loser) of
        (None, None) \<Rightarrow> (winner, [])
      | (None, Some t) \<Rightarrow> (winner\<lparr>nt_target := Some t\<rparr>, [])
      | (Some w, None) \<Rightarrow> (winner, [])
      | (Some w, Some l) \<Rightarrow>
          (winner,
           if w \<noteq> l then [Npc_Attack_Target_Mismatch tick room npc (Some w) (Some l) (nt_source winner) (nt_source loser)]
           else []))"

definition decide_npc_attack ::
    "attack_numbers \<Rightarrow> merge_context \<Rightarrow> tick_state \<Rightarrow> tick_state \<Rightarrow> int \<Rightarrow> npc_state \<Rightarrow>
     npc_attacked option \<times> quality_flag list \<times> nat" where
  "decide_npc_attack an cx merged target room s =
     (let tick = nat (ts_tick merged) in
      case (ns_attack s, Option.bind (get_npc_state room target) ns_attack) of
        (None, None) \<Rightarrow> (None, [], 0)
      | (None, Some other) \<Rightarrow> (Some other, [], 0)
      | (Some base, None) \<Rightarrow> (None, [], 0)
      | (Some base, Some other) \<Rightarrow>
          (if nt_source base = nt_source other then (None, [], 0)
           else if nt_type base \<noteq> nt_type other \<and> \<not> are_projectile_ambiguous an (nt_type base) (nt_type other)
           then (None, [Npc_Attack_Type_Mismatch tick room (ns_id s) (nt_type base) (nt_type other) (nt_source base) (nt_source other)], 1)
           else let override = nt_type base \<noteq> nt_type other \<and>
                      resolve_projectile_ambiguous_attack cx merged (nt_source base) target (nt_source other) (ns_x s, ns_y s);
                    (r, flags) = (if override then reconcile_npc_attack_target other base tick room (ns_id s)
                                  else reconcile_npc_attack_target base other tick room (ns_id s))
             in (Some r, flags, 1)))"

definition merge_npc_attack ::
    "attack_numbers \<Rightarrow> merge_context \<Rightarrow> tick_state \<Rightarrow> int \<times> npc_state \<Rightarrow> pass_state \<Rightarrow> pass_state" where
  "merge_npc_attack an cx target rs st =
     (case (rs, st) of
        ((room, s), (merged, flags, n)) \<Rightarrow>
          let (r, fs, k) = decide_npc_attack an cx merged target room s
          in (case r of None \<Rightarrow> merged | Some a \<Rightarrow> set_npc_attack room (Some a) merged, flags @ fs, n + k))"

definition merge_npc_attacks :: "attack_numbers \<Rightarrow> merge_context \<Rightarrow> tick_state \<Rightarrow> tick_state \<Rightarrow> pass_state" where
  "merge_npc_attacks an cx merged target =
     fold (merge_npc_attack an cx target) (ts_npcs merged) (merged, [], 0)"

subsection \<open>One tick\<close>

definition reconcile_tick ::
    "attack_numbers \<Rightarrow> (int \<Rightarrow> bool) \<Rightarrow> merge_context \<Rightarrow> tick_state \<Rightarrow> tick_state \<Rightarrow>
     tick_state \<times> quality_flag list \<times> nat \<times> nat \<times> nat" where
  "reconcile_tick an targeted cx merged target =
     (let (m1, f1, a) = merge_player_attacks an cx (merge_ticks merged target) target;
          (m2, f2, b) = merge_player_spells targeted m1 target;
          (m3, f3, c) = merge_npc_attacks an cx m2 target
      in (m3, f1 @ f2 @ f3, a, b, c))"

subsection \<open>Passes over the actors of a tick\<close>

text \<open>
  What the three passes share: every actor is decided on once, the decision reads only what no step
  changes, and setting the outcome changes this actor alone.
\<close>

locale reconcile_pass =
  fixes get :: "'k \<Rightarrow> tick_state \<Rightarrow> 's option"
    and put :: "'k \<Rightarrow> 'a \<Rightarrow> tick_state \<Rightarrow> tick_state"
    and upd :: "'a \<Rightarrow> 's \<Rightarrow> 's"
    and decide :: "tick_state \<Rightarrow> 'k \<Rightarrow> 's \<Rightarrow> 'a option \<times> quality_flag list \<times> nat"
    and frame :: "tick_state \<Rightarrow> 'f"
    and step :: "'k \<times> 's \<Rightarrow> pass_state \<Rightarrow> pass_state"
  assumes get_put: "get q (put p a m) = (if q = p then map_option (upd a) (get p m) else get q m)"
    and frame_put: "frame (put p a m) = frame m"
    and decide_frame: "frame m = frame m' \<Longrightarrow> decide m p s = decide m' p s"
    and step: "step (p, s) (m, fl, n) =
      (case fst (decide m p s) of None \<Rightarrow> m | Some a \<Rightarrow> put p a m, fl @ fst (snd (decide m p s)), n + snd (snd (decide m p s)))"
begin

definition outcome :: "tick_state \<Rightarrow> 'k \<Rightarrow> 's \<Rightarrow> 's" where
  "outcome m p s = (case fst (decide m p s) of None \<Rightarrow> s | Some a \<Rightarrow> upd a s)"

definition raised :: "tick_state \<Rightarrow> ('k \<times> 's) list \<Rightarrow> quality_flag list" where
  "raised m xs = concat (map (\<lambda>(p, s). fst (snd (decide m p s))) xs)"

lemma outcome_frame: "frame m = frame m' \<Longrightarrow> outcome m p s = outcome m' p s"
  using decide_frame [of m m'] by (simp add: outcome_def)

lemma raised_frame: "frame m = frame m' \<Longrightarrow> raised m xs = raised m' xs"
  using decide_frame [of m m'] by (simp add: raised_def)

lemma raised_empty: "raised m xs = [] \<longleftrightarrow> (\<forall>p s. (p, s) \<in> set xs \<longrightarrow> fst (snd (decide m p s)) = [])"
  by (force simp: raised_def)

lemma raised_member: "f \<in> set (raised m xs) \<longleftrightarrow> (\<exists>p s. (p, s) \<in> set xs \<and> f \<in> set (fst (snd (decide m p s))))"
  by (auto simp: raised_def)

lemma pass:
  assumes "distinct (map fst xs)" and "\<forall>(p, s) \<in> set xs. get p m = Some s"
    and "fold step xs (m, fl, n) = (m', fl', n')"
  shows "get p m' = (case map_of xs p of None \<Rightarrow> get p m | Some s \<Rightarrow> Some (outcome m p s))"
    and "fl' = fl @ raised m xs" and "frame m' = frame m"
proof -
  have "get p m' = (case map_of xs p of None \<Rightarrow> get p m | Some s \<Rightarrow> Some (outcome m p s)) \<and>
      fl' = fl @ raised m xs \<and> frame m' = frame m"
    using assms
  proof (induction xs arbitrary: m fl n)
    case (Cons x xs)
    obtain q s where x: "x = (q, s)" by (cases x)
    let ?m = "case fst (decide m q s) of None \<Rightarrow> m | Some a \<Rightarrow> put q a m"
    have fr: "frame ?m = frame m" by (simp add: frame_put split: option.split)
    have own: "get q m = Some s" using Cons.prems(2) x by simp
    have get: "get r ?m = (if r = q then Some (outcome m q s) else get r m)" for r
      using own by (simp add: outcome_def get_put split: option.split)
    have cur: "\<forall>(p, s) \<in> set xs. get p ?m = Some s"
      using Cons.prems(1,2) get by (force simp: x)
    have "fold step xs (?m, fl @ fst (snd (decide m q s)), n + snd (snd (decide m q s))) = (m', fl', n')"
      using Cons.prems(3) by (simp add: x step)
    from Cons.IH [OF _ cur this] Cons.prems(1)
    have IH: "get p m' = (case map_of xs p of None \<Rightarrow> get p ?m | Some s \<Rightarrow> Some (outcome m p s))"
      "fl' = (fl @ fst (snd (decide m q s))) @ raised m xs" "frame m' = frame m"
      by (simp_all add: x fr outcome_frame [OF fr] raised_frame [OF fr] cong: option.case_cong)
    have "q \<notin> fst ` set xs" using Cons.prems(1) x by simp
    then have "map_of xs q = None" by (simp add: map_of_eq_None_iff)
    with IH show ?case by (cases "p = q"; cases "map_of xs p") (simp_all add: x raised_def get)
  qed (simp add: raised_def)
  then show "get p m' = (case map_of xs p of None \<Rightarrow> get p m | Some s \<Rightarrow> Some (outcome m p s))"
    "fl' = fl @ raised m xs" "frame m' = frame m" by blast+
qed

end

text \<open>The players that are present.\<close>

definition present :: "(string, player_state option) omap \<Rightarrow> (string \<times> player_state) list" where
  "present ps = concat (map (\<lambda>(p, so). case so of None \<Rightarrow> [] | Some s \<Rightarrow> [(p, s)]) ps)"

lemma present_simps [simp]:
  "present [] = []" "present ((p, None) # ps) = present ps" "present ((p, Some s) # ps) = (p, s) # present ps"
  by (simp_all add: present_def)

lemma present_keys: "fst ` set (present ps) \<subseteq> fst ` set ps"
  by (force simp: present_def split: option.splits)

lemma present_distinct: "distinct (map fst ps) \<Longrightarrow> distinct (map fst (present ps))"
proof (induction ps)
  case (Cons x ps)
  obtain p so where "x = (p, so)" by (cases x)
  with Cons present_keys [of ps] show ?case by (cases so) auto
qed simp

lemma map_of_present:
  "distinct (map fst ps) \<Longrightarrow> map_of (present ps) p = (case map_of ps p of Some (Some s) \<Rightarrow> Some s | _ \<Rightarrow> None)"
proof (induction ps)
  case (Cons x ps)
  obtain q so where x: "x = (q, so)" by (cases x)
  have "map_of (present ps) q = None" if "q \<notin> fst ` set ps" for q
    using that present_keys [of ps] by (auto simp: map_of_eq_None_iff)
  with Cons x show ?case by (cases so) auto
qed simp

lemma present_current:
  assumes "distinct (map fst (ts_players m))"
  shows "\<forall>(p, s) \<in> set (present (ts_players m)). get_player_state p m = Some s"
proof (intro ballI, clarify)
  fix p s assume "(p, s) \<in> set (present (ts_players m))"
  then have "map_of (present (ts_players m)) p = Some s"
    using present_distinct [OF assms] by simp
  then show "get_player_state p m = Some s"
    by (auto simp: map_of_present [OF assms] get_player_state_def split: option.splits)
qed

lemma map_of_present_get:
  "distinct (map fst (ts_players m)) \<Longrightarrow> map_of (present (ts_players m)) p = get_player_state p m"
  by (simp add: map_of_present get_player_state_def)

subsection \<open>The three passes\<close>

definition attack_frame :: "tick_state \<Rightarrow> int \<times> (event_type, tagged list) omap \<times> graphics_state \<times> (int, npc_state) omap \<times> (string \<Rightarrow> player_state option)" where
  "attack_frame m = (ts_tick m, ts_events m, ts_graphics m, ts_npcs m, \<lambda>p. map_option (\<lambda>s. s\<lparr>ps_attack := None\<rparr>) (get_player_state p m))"

definition spell_frame :: "tick_state \<Rightarrow> int \<times> (event_type, tagged list) omap \<times> graphics_state \<times> (int, npc_state) omap \<times> (string \<Rightarrow> player_state option)" where
  "spell_frame m = (ts_tick m, ts_events m, ts_graphics m, ts_npcs m, \<lambda>p. map_option (\<lambda>s. s\<lparr>ps_spell := None\<rparr>) (get_player_state p m))"

definition npc_frame :: "tick_state \<Rightarrow> int \<times> (event_type, tagged list) omap \<times> graphics_state \<times> (string, player_state option) omap \<times> (int \<Rightarrow> npc_state option)" where
  "npc_frame m = (ts_tick m, ts_events m, ts_graphics m, ts_players m, \<lambda>r. map_option (\<lambda>s. s\<lparr>ns_attack := None\<rparr>) (get_npc_state r m))"

lemma get_set_player_attack:
  "get_player_state q (set_player_attack p (Some a) m) =
     (if q = p then map_option (\<lambda>s. s\<lparr>ps_attack := Some a\<rparr>) (get_player_state p m) else get_player_state q m)"
  by (simp add: set_player_attack_def get_player_state_update split: option.split)

lemma get_set_player_spell:
  "get_player_state q (set_player_spell p (Some a) m) =
     (if q = p then map_option (\<lambda>s. s\<lparr>ps_spell := Some a\<rparr>) (get_player_state p m) else get_player_state q m)"
  by (simp add: set_player_spell_def get_player_state_update split: option.split)

lemma get_set_npc_attack:
  "get_npc_state q (set_npc_attack r (Some a) m) =
     (if q = r then map_option (\<lambda>s. s\<lparr>ns_attack := Some a\<rparr>) (get_npc_state r m) else get_npc_state q m)"
  by (simp add: set_npc_attack_def get_npc_state_def omap.get_put split: option.split)

lemma same_place:
  "map_option (\<lambda>s. s\<lparr>ps_attack := None\<rparr>) x = map_option (\<lambda>s. s\<lparr>ps_attack := None\<rparr>) y \<Longrightarrow>
     map_option (\<lambda>s. (ps_x s, ps_y s)) x = map_option (\<lambda>s. (ps_x s, ps_y s)) y"
proof -
  assume "map_option (\<lambda>s. s\<lparr>ps_attack := None\<rparr>) x = map_option (\<lambda>s. s\<lparr>ps_attack := None\<rparr>) y"
  from arg_cong [OF this, of "map_option (\<lambda>s. (ps_x s, ps_y s))"] show ?thesis by (simp add: option.map_comp comp_def)
qed

lemma proximity_places:
  assumes "\<And>p. map_option (\<lambda>s. (ps_x s, ps_y s)) (get_player_state p m) = map_option (\<lambda>s. (ps_x s, ps_y s)) (get_player_state p m')"
  shows "resolve_projectile_ambiguous_attack cx m a t b c = resolve_projectile_ambiguous_attack cx m' a t b c"
proof -
  have "map_option (\<lambda>s. (ps_x s, ps_y s)) x = map_option (\<lambda>s. (ps_x s, ps_y s)) y \<Longrightarrow>
      (case (x, z) of (Some b, Some t) \<Rightarrow> distance_squared (ps_x t, ps_y t) c < distance_squared (ps_x b, ps_y b) c | _ \<Rightarrow> False) =
      (case (y, z) of (Some b, Some t) \<Rightarrow> distance_squared (ps_x t, ps_y t) c < distance_squared (ps_x b, ps_y b) c | _ \<Rightarrow> False)"
    for x y z :: "player_state option"
    by (cases x; cases y; cases z) auto
  from this [OF assms] show ?thesis
    by (simp add: resolve_projectile_ambiguous_attack_def split: option.split)
qed

interpretation attacks: reconcile_pass get_player_state "\<lambda>p a. set_player_attack p (Some a)" "\<lambda>a s. s\<lparr>ps_attack := Some a\<rparr>"
  "\<lambda>m p s. decide_player_attack an cx m target p s" attack_frame "\<lambda>(p, s). merge_player_attack an cx target (p, Some s)"
  for an cx target
proof (unfold_locales, goal_cases)
  case (1 q p a m)
  show ?case by (rule get_set_player_attack)
next
  case (2 p a m)
  have "ts_events (set_player_attack p (Some a) m) = ts_events m" "ts_tick (set_player_attack p (Some a) m) = ts_tick m"
    "ts_graphics (set_player_attack p (Some a) m) = ts_graphics m" "ts_npcs (set_player_attack p (Some a) m) = ts_npcs m"
    by (simp_all add: set_player_attack_def split: option.split)
  then show ?case by (auto simp: attack_frame_def get_set_player_attack fun_eq_iff option.map_comp comp_def)
next
  case (3 m m' p s)
  then have tick: "ts_tick m = ts_tick m'" and "\<And>p. map_option (\<lambda>s. s\<lparr>ps_attack := None\<rparr>) (get_player_state p m) =
      map_option (\<lambda>s. s\<lparr>ps_attack := None\<rparr>) (get_player_state p m')"
    by (simp_all add: attack_frame_def fun_eq_iff)
  from this(2) have near: "resolve_projectile_ambiguous_attack cx m = resolve_projectile_ambiguous_attack cx m'"
    by (intro ext proximity_places same_place)
  show ?case unfolding decide_player_attack_def tick near by (rule refl)
next
  case (4 p s m fl n)
  show ?case by (cases "decide_player_attack an cx m target p s") (simp add: merge_player_attack_def)
qed

interpretation spells: reconcile_pass get_player_state "\<lambda>p a. set_player_spell p (Some a)" "\<lambda>a s. s\<lparr>ps_spell := Some a\<rparr>"
  "\<lambda>m p s. decide_player_spell targeted m target p s" spell_frame "\<lambda>(p, s). merge_player_spell targeted target (p, Some s)"
  for targeted target
proof (unfold_locales, goal_cases)
  case (1 q p a m)
  show ?case by (rule get_set_player_spell)
next
  case (2 p a m)
  have "ts_events (set_player_spell p (Some a) m) = ts_events m" "ts_tick (set_player_spell p (Some a) m) = ts_tick m"
    "ts_graphics (set_player_spell p (Some a) m) = ts_graphics m" "ts_npcs (set_player_spell p (Some a) m) = ts_npcs m"
    by (simp_all add: set_player_spell_def split: option.split)
  then show ?case by (auto simp: spell_frame_def get_set_player_spell fun_eq_iff option.map_comp comp_def)
next
  case (3 m m' p s)
  then have "ts_tick m = ts_tick m'" by (simp add: spell_frame_def)
  then show ?case by (simp add: decide_player_spell_def)
next
  case (4 p s m fl n)
  show ?case by (cases "decide_player_spell targeted m target p s") (simp add: merge_player_spell_def)
qed

interpretation npc_attacks: reconcile_pass get_npc_state "\<lambda>p a. set_npc_attack p (Some a)" "\<lambda>a s. s\<lparr>ns_attack := Some a\<rparr>"
  "\<lambda>m p s. decide_npc_attack an cx m target p s" npc_frame "merge_npc_attack an cx target"
  for an cx target
proof (unfold_locales, goal_cases)
  case (1 q p a m)
  show ?case by (rule get_set_npc_attack)
next
  case (2 p a m)
  have "ts_events (set_npc_attack p (Some a) m) = ts_events m" "ts_tick (set_npc_attack p (Some a) m) = ts_tick m"
    "ts_graphics (set_npc_attack p (Some a) m) = ts_graphics m" "ts_players (set_npc_attack p (Some a) m) = ts_players m"
    by (simp_all add: set_npc_attack_def split: option.split)
  then show ?case by (auto simp: npc_frame_def get_set_npc_attack fun_eq_iff option.map_comp comp_def)
next
  case (3 m m' p s)
  then have tick: "ts_tick m = ts_tick m'" and same: "get_player_state q m = get_player_state q m'" for q
    by (simp_all add: npc_frame_def get_player_state_def)
  have near: "resolve_projectile_ambiguous_attack cx m = resolve_projectile_ambiguous_attack cx m'"
    by (intro ext proximity_places) (simp add: same)
  show ?case unfolding decide_npc_attack_def tick near by (rule refl)
next
  case (4 p s m fl n)
  show ?case by (cases "decide_npc_attack an cx m target p s") (simp add: merge_npc_attack_def)
qed

lemma fold_present_attacks:
  "fold (merge_player_attack an cx target) ps st =
     fold (\<lambda>(p, s). merge_player_attack an cx target (p, Some s)) (present ps) st"
proof (induction ps arbitrary: st)
  case (Cons x ps)
  obtain p so where "x = (p, so)" by (cases x)
  with Cons show ?case by (cases so) (simp_all add: merge_player_attack_def)
qed simp

lemma fold_present_spells:
  "fold (merge_player_spell targeted target) ps st =
     fold (\<lambda>(p, s). merge_player_spell targeted target (p, Some s)) (present ps) st"
proof (induction ps arbitrary: st)
  case (Cons x ps)
  obtain p so where "x = (p, so)" by (cases x)
  with Cons show ?case by (cases so) (simp_all add: merge_player_spell_def)
qed simp

lemma merge_player_attacks_keys:
  assumes "distinct (map fst (ts_players m))" and "merge_player_attacks an cx m target = (m', flags, n)"
  shows "distinct (map fst (ts_players m'))"
proof -
  have "distinct (map fst (ts_players m)) \<Longrightarrow>
      distinct (map fst (ts_players (fst (fold (merge_player_attack an cx target) ps (m, fl, n)))))" for ps m fl n
  proof (induction ps arbitrary: m fl n)
    case (Cons x ps)
    obtain p so where x: "x = (p, so)" by (cases x)
    have "distinct (map fst (ts_players (set_player_attack p a m)))" for a
      using Cons.prems by (simp add: set_player_attack_def distinct_update split: option.split)
    with Cons x show ?case
      by (cases so) (simp_all add: merge_player_attack_def Let_def split_beta split: option.split)
  qed simp
  from this [OF assms(1), of "ts_players m" "[]" 0] show ?thesis using assms(2) by (simp add: merge_player_attacks_def)
qed

lemma merge_player_attacks_pass:
  assumes "distinct (map fst (ts_players m))" and "merge_player_attacks an cx m target = (m', flags, n)"
  shows "get_player_state p m' = map_option (attacks.outcome an cx target m p) (get_player_state p m)"
    "flags = attacks.raised an cx target m (present (ts_players m))" "attack_frame m' = attack_frame m"
proof -
  have "fold (\<lambda>(p, s). merge_player_attack an cx target (p, Some s)) (present (ts_players m)) (m, [], 0) = (m', flags, n)"
    using assms(2) by (simp add: merge_player_attacks_def fold_present_attacks)
  note pass = attacks.pass [OF present_distinct [OF assms(1)] present_current [OF assms(1)] this]
  from pass(1) [of p] show "get_player_state p m' = map_option (attacks.outcome an cx target m p) (get_player_state p m)"
    by (simp add: map_of_present_get [OF assms(1)] split: option.split)
  from pass show "flags = attacks.raised an cx target m (present (ts_players m))" "attack_frame m' = attack_frame m" by simp_all
qed

lemma merge_player_spells_pass:
  assumes "distinct (map fst (ts_players m))" and "merge_player_spells targeted m target = (m', flags, n)"
  shows "get_player_state p m' = map_option (spells.outcome targeted target m p) (get_player_state p m)"
    "flags = spells.raised targeted target m (present (ts_players m))" "spell_frame m' = spell_frame m"
proof -
  have "fold (\<lambda>(p, s). merge_player_spell targeted target (p, Some s)) (present (ts_players m)) (m, [], 0) = (m', flags, n)"
    using assms(2) by (simp add: merge_player_spells_def fold_present_spells)
  note pass = spells.pass [OF present_distinct [OF assms(1)] present_current [OF assms(1)] this]
  from pass(1) [of p] show "get_player_state p m' = map_option (spells.outcome targeted target m p) (get_player_state p m)"
    by (simp add: map_of_present_get [OF assms(1)] split: option.split)
  from pass show "flags = spells.raised targeted target m (present (ts_players m))" "spell_frame m' = spell_frame m" by simp_all
qed

lemma merge_npc_attacks_pass:
  assumes "distinct (map fst (ts_npcs m))" and "merge_npc_attacks an cx m target = (m', flags, n)"
  shows "get_npc_state r m' = map_option (npc_attacks.outcome an cx target m r) (get_npc_state r m)"
    "flags = npc_attacks.raised an cx target m (ts_npcs m)" "npc_frame m' = npc_frame m"
proof -
  have cur: "\<forall>(r, s) \<in> set (ts_npcs m). get_npc_state r m = Some s"
    using assms(1) by (auto simp: get_npc_state_def)
  have "fold (merge_npc_attack an cx target) (ts_npcs m) (m, [], 0) = (m', flags, n)"
    using assms(2) by (simp add: merge_npc_attacks_def)
  note pass = npc_attacks.pass [OF assms(1) cur this]
  from pass(1) [of r] show "get_npc_state r m' = map_option (npc_attacks.outcome an cx target m r) (get_npc_state r m)"
    by (simp add: get_npc_state_def split: option.split)
  from pass show "flags = npc_attacks.raised an cx target m (ts_npcs m)" "npc_frame m' = npc_frame m" by simp_all
qed

subsection \<open>Properties\<close>

lemma merge_ticks_frame:
  "ts_tick (merge_ticks ts other) = ts_tick ts" "ts_events (merge_ticks ts other) = ts_events ts"
  "ts_graphics (merge_ticks ts other) = merge_graphics (ts_graphics ts) (ts_graphics other)"
proof -
  have "ts_tick (fold merge_player ps ts) = ts_tick ts \<and> ts_events (fold merge_player ps ts) = ts_events ts \<and>
      ts_graphics (fold merge_player ps ts) = ts_graphics ts" for ps
    by (induction ps arbitrary: ts) (simp_all add: merge_player_def split: option.split)
  then show "ts_tick (merge_ticks ts other) = ts_tick ts" "ts_events (merge_ticks ts other) = ts_events ts"
    "ts_graphics (merge_ticks ts other) = merge_graphics (ts_graphics ts) (ts_graphics other)"
    by (simp_all add: merge_ticks_def Let_def)
qed

lemma reconcile_tick_passes:
  assumes "reconcile_tick an targeted cx merged target = (m', flags, na, ns, nn)"
  obtains m1 f1 m2 f2 f3 where "merge_player_attacks an cx (merge_ticks merged target) target = (m1, f1, na)"
    and "merge_player_spells targeted m1 target = (m2, f2, ns)"
    and "merge_npc_attacks an cx m2 target = (m', f3, nn)" and "flags = f1 @ f2 @ f3"
  using assms by (auto simp: reconcile_tick_def Let_def split: prod.splits)

text \<open>What may become of the attacks \<open>x\<close> and \<open>y\<close> that the merged side and the other hold of one actor.\<close>

definition attack_reconciled :: "attack_numbers \<Rightarrow> player_attacked option \<Rightarrow> player_attacked option \<Rightarrow> player_attacked option \<Rightarrow> bool" where
  "attack_reconciled an x y z \<longleftrightarrow>
     (case (x, y) of
        (None, _) \<Rightarrow> z = y
      | (_, None) \<Rightarrow> z = x
      | (Some a, Some b) \<Rightarrow> \<exists>c. z = Some c \<and> at_target c \<in> {at_target a, at_target b} \<and>
          ((at_type c, at_weapon_id c, at_source c) = (at_type a, at_weapon_id a, at_source a) \<or>
           are_projectile_ambiguous an (at_type a) (at_type b) \<and>
             (at_type c, at_weapon_id c, at_source c) = (at_type b, at_weapon_id b, at_source b)) \<and>
          (at_target c = None \<longrightarrow> at_target a = None))"

definition spell_reconciled :: "spell_cast option \<Rightarrow> spell_cast option \<Rightarrow> spell_cast option \<Rightarrow> bool" where
  "spell_reconciled x y z \<longleftrightarrow>
     (case (x, y) of
        (None, _) \<Rightarrow> z = y
      | (_, None) \<Rightarrow> z = x
      | (Some a, Some b) \<Rightarrow> \<exists>c. z = Some c \<and> sl_type c = sl_type a \<and> sl_source c = sl_source a \<and>
          sl_target c \<in> {sl_target a, sl_target b, None})"

definition npc_attack_reconciled :: "attack_numbers \<Rightarrow> npc_attacked option \<Rightarrow> npc_attacked option \<Rightarrow> npc_attacked option \<Rightarrow> bool" where
  "npc_attack_reconciled an x y z \<longleftrightarrow>
     (case (x, y) of
        (None, _) \<Rightarrow> z = y
      | (_, None) \<Rightarrow> z = x
      | (Some a, Some b) \<Rightarrow> \<exists>c. z = Some c \<and> nt_target c \<in> {nt_target a, nt_target b} \<and>
          ((nt_type c, nt_source c) = (nt_type a, nt_source a) \<or>
           are_projectile_ambiguous an (nt_type a) (nt_type b) \<and> (nt_type c, nt_source c) = (nt_type b, nt_source b)) \<and>
          (nt_target c = None \<longrightarrow> nt_target a = None))"

lemma attack_outcome:
  "\<exists>z. attacks.outcome an cx target m p s = s\<lparr>ps_attack := z\<rparr> \<and>
     attack_reconciled an (ps_attack s) (Option.bind (get_player_state p target) ps_attack) z"
proof -
  let ?o = "Option.bind (get_player_state p target) ps_attack"
  consider "ps_attack s = None" "?o = None" | b where "ps_attack s = None" "?o = Some b"
    | a where "ps_attack s = Some a" "?o = None" | a b where "ps_attack s = Some a" "?o = Some b"
    by (cases "ps_attack s"; cases ?o) auto
  then have "\<exists>z. (case fst (decide_player_attack an cx m target p s) of None \<Rightarrow> s | Some a \<Rightarrow> s\<lparr>ps_attack := Some a\<rparr>) = s\<lparr>ps_attack := z\<rparr> \<and>
     attack_reconciled an (ps_attack s) (Option.bind (get_player_state p target) ps_attack) z"
  proof cases
    case (4 a b)
    show ?thesis
      by (rule exI [of _ "ps_attack (case fst (decide_player_attack an cx m target p s) of None \<Rightarrow> s | Some a \<Rightarrow> s\<lparr>ps_attack := Some a\<rparr>)"])
        (auto simp: 4 decide_player_attack_def Let_def reconcile_attack_target_def are_projectile_ambiguous_def attack_reconciled_def split: option.splits)
  qed (auto simp: decide_player_attack_def attack_reconciled_def)
  then show ?thesis by (simp only: attacks.outcome_def)
qed

lemma spell_outcome:
  "\<exists>z. spells.outcome targeted target m p s = s\<lparr>ps_spell := z\<rparr> \<and>
     spell_reconciled (ps_spell s) (Option.bind (get_player_state p target) ps_spell) z"
proof -
  let ?o = "Option.bind (get_player_state p target) ps_spell"
  consider "ps_spell s = None" "?o = None" | b where "ps_spell s = None" "?o = Some b"
    | a where "ps_spell s = Some a" "?o = None" | a b where "ps_spell s = Some a" "?o = Some b"
    by (cases "ps_spell s"; cases ?o) auto
  then have "\<exists>z. (case fst (decide_player_spell targeted m target p s) of None \<Rightarrow> s | Some a \<Rightarrow> s\<lparr>ps_spell := Some a\<rparr>) = s\<lparr>ps_spell := z\<rparr> \<and>
     spell_reconciled (ps_spell s) (Option.bind (get_player_state p target) ps_spell) z"
  proof cases
    case (4 a b)
    show ?thesis
      by (rule exI [of _ "ps_spell (case fst (decide_player_spell targeted m target p s) of None \<Rightarrow> s | Some a \<Rightarrow> s\<lparr>ps_spell := Some a\<rparr>)"])
        (auto simp: 4 decide_player_spell_def Let_def reconcile_spell_target_def spell_reconciled_def split: option.splits)
  qed (auto simp: decide_player_spell_def spell_reconciled_def)
  then show ?thesis by (simp only: spells.outcome_def)
qed

lemma npc_attack_outcome:
  "\<exists>z. npc_attacks.outcome an cx target m r s = s\<lparr>ns_attack := z\<rparr> \<and>
     npc_attack_reconciled an (ns_attack s) (Option.bind (get_npc_state r target) ns_attack) z"
proof -
  let ?o = "Option.bind (get_npc_state r target) ns_attack"
  consider "ns_attack s = None" "?o = None" | b where "ns_attack s = None" "?o = Some b"
    | a where "ns_attack s = Some a" "?o = None" | a b where "ns_attack s = Some a" "?o = Some b"
    by (cases "ns_attack s"; cases ?o) auto
  then have "\<exists>z. (case fst (decide_npc_attack an cx m target r s) of None \<Rightarrow> s | Some a \<Rightarrow> s\<lparr>ns_attack := Some a\<rparr>) = s\<lparr>ns_attack := z\<rparr> \<and>
     npc_attack_reconciled an (ns_attack s) (Option.bind (get_npc_state r target) ns_attack) z"
  proof cases
    case (4 a b)
    show ?thesis
      by (rule exI [of _ "ns_attack (case fst (decide_npc_attack an cx m target r s) of None \<Rightarrow> s | Some a \<Rightarrow> s\<lparr>ns_attack := Some a\<rparr>)"])
        (auto simp: 4 decide_npc_attack_def Let_def reconcile_npc_attack_target_def are_projectile_ambiguous_def npc_attack_reconciled_def split: option.splits)
  qed (auto simp: decide_npc_attack_def npc_attack_reconciled_def)
  then show ?thesis by (simp only: npc_attacks.outcome_def)
qed

text \<open>Reconciling a tick changes nothing of the merged view but the attacks and spells of players and
  the attacks of NPCs. Where only one side saw an attack it is kept; where both did, the kept one is the base
  view's, or the other's if the two differ only by their projectile, and its target is one of
  the two, never lost; a spell keeps the base view's type.\<close>

theorem reconcile_tick_actors:
  assumes "reconcile_tick an targeted cx merged target = (m', flags, na, ns, nn)"
    and "distinct (map fst (ts_players (merge_ticks merged target)))"
    and "distinct (map fst (ts_npcs (merge_ticks merged target)))"
  shows "(case get_player_state p (merge_ticks merged target) of
       None \<Rightarrow> get_player_state p m' = None
     | Some s \<Rightarrow> \<exists>a sp. get_player_state p m' = Some (s\<lparr>ps_attack := a, ps_spell := sp\<rparr>) \<and>
         attack_reconciled an (ps_attack s) (Option.bind (get_player_state p target) ps_attack) a \<and>
         spell_reconciled (ps_spell s) (Option.bind (get_player_state p target) ps_spell) sp) \<and>
    (case get_npc_state r (merge_ticks merged target) of
       None \<Rightarrow> get_npc_state r m' = None
     | Some n \<Rightarrow> \<exists>a. get_npc_state r m' = Some (n\<lparr>ns_attack := a\<rparr>) \<and>
         npc_attack_reconciled an (ns_attack n) (Option.bind (get_npc_state r target) ns_attack) a) \<and>
    ts_tick m' = ts_tick merged \<and> ts_events m' = ts_events merged \<and>
    ts_graphics m' = merge_graphics (ts_graphics merged) (ts_graphics target)"
proof -
  let ?m = "merge_ticks merged target"
  from assms(1) obtain m1 f1 m2 f2 f3 where
    m1: "merge_player_attacks an cx ?m target = (m1, f1, na)" and
    m2: "merge_player_spells targeted m1 target = (m2, f2, ns)" and
    m3: "merge_npc_attacks an cx m2 target = (m', f3, nn)" by (rule reconcile_tick_passes)
  note a = merge_player_attacks_pass [OF assms(2) m1]
  have d1: "distinct (map fst (ts_players m1))" by (rule merge_player_attacks_keys [OF assms(2) m1])
  note b = merge_player_spells_pass [OF d1 m2]
  have "ts_npcs m2 = ts_npcs ?m" using a(3) b(3) by (simp add: attack_frame_def spell_frame_def)
  with assms(3) have "distinct (map fst (ts_npcs m2))" by simp
  note c = merge_npc_attacks_pass [OF this m3]
  have frame: "ts_tick m' = ts_tick merged \<and> ts_events m' = ts_events merged \<and>
      ts_graphics m' = merge_graphics (ts_graphics merged) (ts_graphics target)"
    using a(3) b(3) c(3) merge_ticks_frame [of merged target] by (simp add: attack_frame_def spell_frame_def npc_frame_def)
  have "get_player_state p m' = get_player_state p m2" using c(3) by (simp add: npc_frame_def get_player_state_def)
  then have player: "get_player_state p m' = map_option (spells.outcome targeted target m1 p)
      (map_option (attacks.outcome an cx target ?m p) (get_player_state p ?m))" using a(1) b(1) by simp
  have npc: "get_npc_state r m' = map_option (npc_attacks.outcome an cx target m2 r) (get_npc_state r ?m)"
    using c(1) \<open>ts_npcs m2 = ts_npcs ?m\<close> by (simp add: get_npc_state_def)
  have "\<exists>x y. spells.outcome targeted target m1 p (attacks.outcome an cx target ?m p s) = s\<lparr>ps_attack := x, ps_spell := y\<rparr> \<and>
      attack_reconciled an (ps_attack s) (Option.bind (get_player_state p target) ps_attack) x \<and>
      spell_reconciled (ps_spell s) (Option.bind (get_player_state p target) ps_spell) y" for s
  proof -
    obtain x where x: "attacks.outcome an cx target ?m p s = s\<lparr>ps_attack := x\<rparr>"
      "attack_reconciled an (ps_attack s) (Option.bind (get_player_state p target) ps_attack) x"
      using attack_outcome by blast
    obtain y where "spells.outcome targeted target m1 p (s\<lparr>ps_attack := x\<rparr>) = s\<lparr>ps_attack := x\<rparr>\<lparr>ps_spell := y\<rparr>"
      "spell_reconciled (ps_spell (s\<lparr>ps_attack := x\<rparr>)) (Option.bind (get_player_state p target) ps_spell) y"
      using spell_outcome by blast
    with x show ?thesis by (intro exI [of _ x] exI [of _ y]) simp
  qed
  with player npc npc_attack_outcome [of an cx target m2 r] frame show ?thesis by (simp split: option.split)
qed

text \<open>When two clients contradict each other about an attack or a spell.\<close>

fun attack_conflict :: "attack_numbers \<Rightarrow> player_attacked option \<Rightarrow> player_attacked option \<Rightarrow> bool" where
  "attack_conflict an (Some a) (Some b) \<longleftrightarrow> at_source a \<noteq> at_source b \<and>
     (if at_type a = at_type b \<or> are_projectile_ambiguous an (at_type a) (at_type b)
      then at_target a \<noteq> None \<and> at_target b \<noteq> None \<and> fst (snd (the (at_target a))) \<noteq> fst (snd (the (at_target b))) else True)"
| "attack_conflict an _ _ \<longleftrightarrow> False"

fun spell_conflict :: "(int \<Rightarrow> bool) \<Rightarrow> spell_cast option \<Rightarrow> spell_cast option \<Rightarrow> bool" where
  "spell_conflict targeted (Some a) (Some b) \<longleftrightarrow> sl_source a \<noteq> sl_source b \<and>
     (if sl_type a = sl_type b
      then targeted (sl_type a) \<and> sl_target a \<noteq> None \<and> sl_target b \<noteq> None \<and>
        \<not> spell_targets_equal (fst (the (sl_target a))) (fst (the (sl_target b))) else True)"
| "spell_conflict targeted _ _ \<longleftrightarrow> False"

fun npc_attack_conflict :: "attack_numbers \<Rightarrow> npc_attacked option \<Rightarrow> npc_attacked option \<Rightarrow> bool" where
  "npc_attack_conflict an (Some a) (Some b) \<longleftrightarrow> nt_source a \<noteq> nt_source b \<and>
     (if nt_type a = nt_type b \<or> are_projectile_ambiguous an (nt_type a) (nt_type b)
      then nt_target a \<noteq> None \<and> nt_target b \<noteq> None \<and> nt_target a \<noteq> nt_target b else True)"
| "npc_attack_conflict an _ _ \<longleftrightarrow> False"

lemma attack_flags:
  "fst (snd (decide_player_attack an cx m target p s)) = [] \<longleftrightarrow>
     \<not> attack_conflict an (ps_attack s) (Option.bind (get_player_state p target) ps_attack)"
  "f \<in> set (fst (snd (decide_player_attack an cx m target p s))) \<Longrightarrow> contested_flag_tick f = Some (nat (ts_tick m))"
  by (auto simp: decide_player_attack_def Let_def reconcile_attack_target_def are_projectile_ambiguous_def
      split: option.splits if_splits)

lemma spell_flags:
  "fst (snd (decide_player_spell targeted m target p s)) = [] \<longleftrightarrow>
     \<not> spell_conflict targeted (ps_spell s) (Option.bind (get_player_state p target) ps_spell)"
  "f \<in> set (fst (snd (decide_player_spell targeted m target p s))) \<Longrightarrow> contested_flag_tick f = Some (nat (ts_tick m))"
  by (auto simp: decide_player_spell_def Let_def reconcile_spell_target_def split: option.splits if_splits)

lemma npc_attack_flags:
  "fst (snd (decide_npc_attack an cx m target r s)) = [] \<longleftrightarrow>
     \<not> npc_attack_conflict an (ns_attack s) (Option.bind (get_npc_state r target) ns_attack)"
  "f \<in> set (fst (snd (decide_npc_attack an cx m target r s))) \<Longrightarrow> contested_flag_tick f = Some (nat (ts_tick m))"
  by (auto simp: decide_npc_attack_def Let_def reconcile_npc_attack_target_def are_projectile_ambiguous_def
      split: option.splits if_splits)

lemma present_iff:
  "distinct (map fst (ts_players m)) \<Longrightarrow> (p, s) \<in> set (present (ts_players m)) \<longleftrightarrow> get_player_state p m = Some s"
  by (simp flip: map_of_present_get add: map_of_eq_Some_iff present_distinct)

lemma attack_pass_flags:
  assumes "distinct (map fst (ts_players m))" and "merge_player_attacks an cx m target = (m', flags, n)"
  shows "flags = [] \<longleftrightarrow> (\<forall>p s. get_player_state p m = Some s \<longrightarrow>
      \<not> attack_conflict an (ps_attack s) (Option.bind (get_player_state p target) ps_attack))"
    and "f \<in> set flags \<Longrightarrow> contested_flag_tick f = Some (nat (ts_tick m))"
  unfolding merge_player_attacks_pass(2) [OF assms]
  by (simp_all add: attacks.raised_empty attacks.raised_member present_iff [OF assms(1)] attack_flags(1)) (blast dest: attack_flags(2))

lemma spell_pass_flags:
  assumes "distinct (map fst (ts_players m))" and "merge_player_spells targeted m target = (m', flags, n)"
  shows "flags = [] \<longleftrightarrow> (\<forall>p s. get_player_state p m = Some s \<longrightarrow>
      \<not> spell_conflict targeted (ps_spell s) (Option.bind (get_player_state p target) ps_spell))"
    and "f \<in> set flags \<Longrightarrow> contested_flag_tick f = Some (nat (ts_tick m))"
  unfolding merge_player_spells_pass(2) [OF assms]
  by (simp_all add: spells.raised_empty spells.raised_member present_iff [OF assms(1)] spell_flags(1)) (blast dest: spell_flags(2))

lemma npc_attack_pass_flags:
  assumes "distinct (map fst (ts_npcs m))" and "merge_npc_attacks an cx m target = (m', flags, n)"
  shows "flags = [] \<longleftrightarrow> (\<forall>r s. get_npc_state r m = Some s \<longrightarrow>
      \<not> npc_attack_conflict an (ns_attack s) (Option.bind (get_npc_state r target) ns_attack))"
    and "f \<in> set flags \<Longrightarrow> contested_flag_tick f = Some (nat (ts_tick m))"
  unfolding merge_npc_attacks_pass(2) [OF assms] get_npc_state_def
  by (simp_all add: npc_attacks.raised_empty npc_attacks.raised_member map_of_eq_Some_iff [OF assms(1)] npc_attack_flags(1) get_npc_state_def)
    (blast dest: npc_attack_flags(2))

lemma reconcile_flags:
  assumes "reconcile_tick an targeted cx merged target = (m', flags, na, ns, nn)"
    and "distinct (map fst (ts_players (merge_ticks merged target)))"
    and "distinct (map fst (ts_npcs (merge_ticks merged target)))"
  shows "(flags = [] \<longleftrightarrow>
      (\<forall>p s. get_player_state p (merge_ticks merged target) = Some s \<longrightarrow>
        \<not> attack_conflict an (ps_attack s) (Option.bind (get_player_state p target) ps_attack) \<and>
        \<not> spell_conflict targeted (ps_spell s) (Option.bind (get_player_state p target) ps_spell)) \<and>
      (\<forall>r n. get_npc_state r (merge_ticks merged target) = Some n \<longrightarrow>
        \<not> npc_attack_conflict an (ns_attack n) (Option.bind (get_npc_state r target) ns_attack))) \<and>
    (\<forall>f \<in> set flags. contested_flag_tick f = Some (nat (ts_tick merged)))"
proof -
  let ?m = "merge_ticks merged target"
  from assms(1) obtain m1 f1 m2 f2 f3 where
    m1: "merge_player_attacks an cx ?m target = (m1, f1, na)" and
    m2: "merge_player_spells targeted m1 target = (m2, f2, ns)" and
    m3: "merge_npc_attacks an cx m2 target = (m', f3, nn)" and flags: "flags = f1 @ f2 @ f3" by (rule reconcile_tick_passes)
  note a = merge_player_attacks_pass [OF assms(2) m1]
  have d1: "distinct (map fst (ts_players m1))" by (rule merge_player_attacks_keys [OF assms(2) m1])
  note b = merge_player_spells_pass [OF d1 m2]
  have npcs: "ts_npcs m2 = ts_npcs ?m" using a(3) b(3) by (simp add: attack_frame_def spell_frame_def)
  with assms(3) have d2: "distinct (map fst (ts_npcs m2))" by simp
  have ticks: "ts_tick m1 = ts_tick merged" "ts_tick m2 = ts_tick merged"
    using a(3) b(3) merge_ticks_frame [of merged target] by (simp_all add: attack_frame_def spell_frame_def)
  have spells: "(\<exists>s. get_player_state p m1 = Some s \<and> P (ps_spell s)) \<longleftrightarrow> (\<exists>s. get_player_state p ?m = Some s \<and> P (ps_spell s))" for p P
  proof -
    have "ps_spell (attacks.outcome an cx target ?m p s) = ps_spell s" for s
      using attack_outcome [of an cx target ?m p s] by auto
    then show ?thesis unfolding a(1) by (cases "get_player_state p ?m") auto
  qed
  have "f2 = [] \<longleftrightarrow> (\<forall>p s. get_player_state p ?m = Some s \<longrightarrow>
      \<not> spell_conflict targeted (ps_spell s) (Option.bind (get_player_state p target) ps_spell))"
    unfolding spell_pass_flags(1) [OF d1 m2]
    using spells [of _ "\<lambda>x. spell_conflict targeted x (Option.bind (get_player_state _ target) ps_spell)"] by blast
  moreover have "f3 = [] \<longleftrightarrow> (\<forall>r n. get_npc_state r ?m = Some n \<longrightarrow>
      \<not> npc_attack_conflict an (ns_attack n) (Option.bind (get_npc_state r target) ns_attack))"
    unfolding npc_attack_pass_flags(1) [OF d2 m3] get_npc_state_def npcs by simp
  ultimately have "flags = [] \<longleftrightarrow>
      (\<forall>p s. get_player_state p ?m = Some s \<longrightarrow>
        \<not> attack_conflict an (ps_attack s) (Option.bind (get_player_state p target) ps_attack) \<and>
        \<not> spell_conflict targeted (ps_spell s) (Option.bind (get_player_state p target) ps_spell)) \<and>
      (\<forall>r n. get_npc_state r ?m = Some n \<longrightarrow>
        \<not> npc_attack_conflict an (ns_attack n) (Option.bind (get_npc_state r target) ns_attack))"
    unfolding flags using attack_pass_flags(1) [OF assms(2) m1] by simp blast
  moreover have "\<forall>f \<in> set flags. contested_flag_tick f = Some (nat (ts_tick merged))"
    unfolding flags
    using attack_pass_flags(2) [OF assms(2) m1] spell_pass_flags(2) [OF d1 m2] npc_attack_pass_flags(2) [OF d2 m3]
    by (auto simp: ticks merge_ticks_frame)
  ultimately show ?thesis by blast
qed

text \<open>Reconciling a tick raises no flag exactly if the two clients contradict each other about no attack and
  no spell, and every flag it raises marks the tick as contested, under the number the tick has on the
  merged side.\<close>

theorem reconcile_tick_flags:
  assumes "reconcile_tick an targeted cx merged target = (m', flags, na, ns, nn)"
    and "distinct (map fst (ts_players (merge_ticks merged target)))"
    and "distinct (map fst (ts_npcs (merge_ticks merged target)))"
  shows "(flags = [] \<longleftrightarrow>
      (\<forall>p s. get_player_state p (merge_ticks merged target) = Some s \<longrightarrow>
        \<not> attack_conflict an (ps_attack s) (Option.bind (get_player_state p target) ps_attack) \<and>
        \<not> spell_conflict targeted (ps_spell s) (Option.bind (get_player_state p target) ps_spell)) \<and>
      (\<forall>r n. get_npc_state r (merge_ticks merged target) = Some n \<longrightarrow>
        \<not> npc_attack_conflict an (ns_attack n) (Option.bind (get_npc_state r target) ns_attack))) \<and>
    (\<forall>f \<in> set flags. contested_flag_tick f = Some (nat (ts_tick merged)))"
  using assms by (rule reconcile_flags)

subsection \<open>Witnesses\<close>

definition sample_numbers :: attack_numbers where
  "sample_numbers = \<lparr>an_blowpipe = 1, an_blowpipe_spec = 2, an_zcb_auto = 3, an_zcb_spec = 4, an_sote_ball = 5,
     an_sote_death_ball = 6, an_dawn_spec = 7, an_verzik_p3_auto = 8, an_verzik_p2_bounce = 9\<rparr>"

definition sample_attacked :: "int \<Rightarrow> int \<Rightarrow> int \<Rightarrow> int \<Rightarrow> tick_state" where
  "sample_attacked tick source type room =
     (sample_tick tick [] PRIMARY)\<lparr>ts_players := [(''p'', Some ((sample_state PRIMARY)\<lparr>ps_attack :=
        Some \<lparr>at_type = type, at_weapon_id = 0, at_distance = 1, at_target = Some (1, room, source), at_source = source\<rparr>\<rparr>))]\<rparr>"

lemma sample_attacked_merged:
  "get_player_state ''p'' (merge_ticks (sample_attacked t a b c) (sample_attacked u d e f)) =
     get_player_state ''p'' (sample_attacked t a b c)"
  "distinct (map fst (ts_players (merge_ticks (sample_attacked t a b c) (sample_attacked u d e f))))"
  "distinct (map fst (ts_npcs (merge_ticks (sample_attacked t a b c) (sample_attacked u d e f))))"
  by (simp_all add: merge_ticks_def Let_def merge_player_def sample_attacked_def sample_tick_def sample_state_def
      new_tick_state_def get_player_state_def)

theorem reconcile_tick_actors_witness:
  "\<exists>m' rest. reconcile_tick sample_numbers (\<lambda>_. True) sample_context (sample_attacked 3 7 1 5) (sample_attacked 3 8 9 5) = (m', rest) \<and>
     map_option (\<lambda>s. map_option at_type (ps_attack s)) (get_player_state ''p'' m') = Some (Some 1)"
proof -
  obtain m' flags na ns nn where r: "reconcile_tick sample_numbers (\<lambda>_. True) sample_context
      (sample_attacked 3 7 1 5) (sample_attacked 3 8 9 5) = (m', flags, na, ns, nn)"
    by (rule prod_cases5)
  have "\<not> are_projectile_ambiguous sample_numbers 1 9" by code_simp
  with reconcile_tick_actors [OF r sample_attacked_merged(2,3), of "''p''" 0] r show ?thesis
    unfolding sample_attacked_merged(1)
    by (auto simp: sample_attacked_def sample_tick_def get_player_state_def attack_reconciled_def)
qed

theorem reconcile_tick_flags_witness:
  "\<exists>m' flags rest. reconcile_tick sample_numbers (\<lambda>_. True) sample_context (sample_attacked 3 7 1 5) (sample_attacked 3 8 9 5) =
     (m', flags, rest) \<and> flags \<noteq> [] \<and> (\<forall>f \<in> set flags. contested_flag_tick f = Some 3)"
proof -
  obtain m' flags na ns nn where r: "reconcile_tick sample_numbers (\<lambda>_. True) sample_context
      (sample_attacked 3 7 1 5) (sample_attacked 3 8 9 5) = (m', flags, na, ns, nn)"
    by (rule prod_cases5)
  have "\<not> are_projectile_ambiguous sample_numbers 1 9" by code_simp
  then have "\<exists>p s. get_player_state p (merge_ticks (sample_attacked 3 7 1 5) (sample_attacked 3 8 9 5)) = Some s \<and>
      attack_conflict sample_numbers (ps_attack s) (Option.bind (get_player_state p (sample_attacked 3 8 9 5)) ps_attack)"
    by (intro exI [of _ "''p''"]) (simp add: sample_attacked_merged(1), simp add: sample_attacked_def sample_tick_def get_player_state_def)
  moreover have "ts_tick (sample_attacked 3 7 1 5) = 3"
    by (simp add: sample_attacked_def sample_tick_def new_tick_state_def)
  ultimately show ?thesis
    using reconcile_tick_flags [OF r sample_attacked_merged(2,3)] r by auto
qed

end
