(* ===== verification/Consolidation.thy ===== *)
theory Consolidation
  imports Reconcile "HOL-Library.Multiset"
begin

text \<open>
  Consolidating a client's timeline into the merged one
  (\<^verbatim>\<open>challenge-server/merging/event-consolidator.ts\<close>): placing the ticks of both sides in merged space, reconciling
  the ticks both have, matching their stream events, assigning attack-mapped events to the attacks they refer to,
  and remapping all events to merged space. The numeric order in which the code visits event types and the
  definitions of NPCs, spells and attacks are parameters where they are generated. A failing non-null
  assertion or a read of an absent tick gives \<^const>\<open>None\<close>.
\<close>

subsection \<open>Data\<close>

record buffered_event =
  be_tagged :: tagged
  be_merged :: nat
  be_client :: nat

type_synonym event_buffer = "(event_type, buffered_event list) omap"

record counters =
  ct_player_attacks :: nat
  ct_player_spells :: nat
  ct_npc_attacks :: nat
  ct_stream_pairs :: nat
  ct_attack_mapped :: nat

record attack_candidate =
  ca_base :: bool
  ca_source :: int
  ca_client :: nat
  ca_referenced :: int
  ca_tagged :: tagged

record consolidation =
  cn_ticks :: "tick_state option list"
  cn_base_buffer :: event_buffer
  cn_target_buffer :: event_buffer
  cn_flags :: "quality_flag list"
  cn_counters :: counters

record consolidate_params =
  kp_numbers :: attack_numbers
  kp_targeted :: "int \<Rightarrow> bool"
  kp_stream_types :: "event_type list"
  kp_attack_types :: "event_type list"

definition no_counters :: counters where
  "no_counters = \<lparr>ct_player_attacks = 0, ct_player_spells = 0, ct_npc_attacks = 0, ct_stream_pairs = 0, ct_attack_mapped = 0\<rparr>"

definition present_tick :: "tick_state option list \<Rightarrow> nat option \<Rightarrow> tick_state option" where
  "present_tick ticks i = Option.bind i (arr_get ticks)"

subsection \<open>Building the timeline\<close>

definition buffer_event :: "nat \<Rightarrow> nat \<Rightarrow> tagged \<Rightarrow> event_buffer \<Rightarrow> event_buffer" where
  "buffer_event m c t buf =
     AList.update (ev_type (fst t))
       ((case map_of buf (ev_type (fst t)) of None \<Rightarrow> [] | Some bs \<Rightarrow> bs) @ [\<lparr>be_tagged = t, be_merged = m, be_client = c\<rparr>]) buf"

definition buffer_events :: "event_buffer \<Rightarrow> tagged list \<Rightarrow> nat \<Rightarrow> nat \<Rightarrow> event_buffer" where
  "buffer_events buf ts m c = fold (buffer_event m c) ts buf"

definition place_base_tick ::
    "consolidate_params \<Rightarrow> tick_mapping \<Rightarrow> nat \<times> tick_state option \<Rightarrow> consolidation \<Rightarrow> consolidation" where
  "place_base_tick kp bm it cn =
     (case (to_merged bm (fst it), snd it) of
        (Some m, Some t) \<Rightarrow>
          let (events, cloned) = extract_events (kp_stream_types kp @ kp_attack_types kp) (clone_tick t)
          in cn\<lparr>cn_base_buffer := buffer_events (cn_base_buffer cn) events m (fst it),
                cn_ticks := arr_set (cn_ticks cn) m cloned\<rparr>
      | _ \<Rightarrow> cn)"

definition place_target_tick ::
    "consolidate_params \<Rightarrow> tick_mapping \<Rightarrow> nat \<times> tick_state option \<Rightarrow> consolidation \<Rightarrow> consolidation" where
  "place_target_tick kp tm it cn =
     (case (to_merged tm (fst it), snd it) of
        (Some m, Some t) \<Rightarrow>
          (if \<not> m < length (cn_ticks cn) \<or> arr_get (cn_ticks cn) m \<noteq> None then cn
           else let (events, cloned) = extract_events (kp_stream_types kp @ kp_attack_types kp) (clone_tick t)
             in cn\<lparr>cn_target_buffer := buffer_events (cn_target_buffer cn) events m (fst it),
                   cn_ticks := arr_set (cn_ticks cn) m cloned\<rparr>)
      | _ \<Rightarrow> cn)"

definition build_timeline ::
    "consolidate_params \<Rightarrow> mappings \<Rightarrow> tick_state option list \<Rightarrow> tick_state option list \<Rightarrow> consolidation" where
  "build_timeline kp mp base target =
     fold (place_target_tick kp (m_target mp)) (enumerate 0 target)
       (fold (place_base_tick kp (m_base mp)) (enumerate 0 base)
          \<lparr>cn_ticks = replicate (m_count mp) None, cn_base_buffer = [], cn_target_buffer = [], cn_flags = [],
           cn_counters = no_counters\<rparr>)"

subsection \<open>Reconciling the ticks\<close>

definition consolidate_tick ::
    "consolidate_params \<Rightarrow> merge_context \<Rightarrow> mappings \<Rightarrow> tick_state option list \<Rightarrow> tick_state option list \<Rightarrow> nat \<Rightarrow>
     consolidation option \<Rightarrow> consolidation option" where
  "consolidate_tick kp cx mp base target m acc =
     (case acc of
        None \<Rightarrow> None
      | Some cn \<Rightarrow>
          (case (to_client (m_target mp) m, present_tick base (to_client (m_base mp) m), present_tick target (to_client (m_target mp) m)) of
             (Some ti, Some b, Some t) \<Rightarrow>
               let (events, other) = extract_events (kp_stream_types kp @ kp_attack_types kp) (clone_tick t) in
               (case arr_get (cn_ticks cn) m of
                  None \<Rightarrow> None
                | Some merged \<Rightarrow>
                    let (merged', flags, a, s, n) = reconcile_tick (kp_numbers kp) (kp_targeted kp) cx merged other;
                        ct = cn_counters cn
                    in Some (cn\<lparr>cn_ticks := (cn_ticks cn)[m := Some merged'],
                          cn_target_buffer := buffer_events (cn_target_buffer cn) events m ti,
                          cn_flags := cn_flags cn @ flags,
                          cn_counters := ct\<lparr>ct_player_attacks := ct_player_attacks ct + a,
                             ct_player_spells := ct_player_spells ct + s, ct_npc_attacks := ct_npc_attacks ct + n\<rparr>\<rparr>))
           | _ \<Rightarrow> Some cn))"

definition consolidate_ticks ::
    "consolidate_params \<Rightarrow> merge_context \<Rightarrow> mappings \<Rightarrow> tick_state option list \<Rightarrow> tick_state option list \<Rightarrow>
     consolidation \<Rightarrow> consolidation option" where
  "consolidate_ticks kp cx mp base target cn =
     fold (consolidate_tick kp cx mp base target) [0..<length (cn_ticks cn)] (Some cn)"

subsection \<open>Stream events\<close>

definition insert_tagged_event :: "int \<Rightarrow> tagged \<Rightarrow> consolidation \<Rightarrow> consolidation" where
  "insert_tagged_event m t cn =
     (if 0 \<le> m \<and> m < int (length (cn_ticks cn))
      then cn\<lparr>cn_ticks := (cn_ticks cn)[nat m := map_option (add_tagged_events [t]) (cn_ticks cn ! nat m)]\<rparr>
      else cn)"

definition insert_buffered_event :: "buffered_event \<Rightarrow> consolidation \<Rightarrow> consolidation" where
  "insert_buffered_event b cn = insert_tagged_event (int (be_merged b)) (be_tagged b) cn"

definition gap_of :: "buffered_event \<Rightarrow> buffered_event \<Rightarrow> int" where
  "gap_of b t = \<bar>int (be_merged b) - int (be_merged t)\<bar>"

definition flag_large_gap ::
    "event_type \<Rightarrow> int option \<Rightarrow> buffered_event \<Rightarrow> buffered_event \<Rightarrow> quality_flag list" where
  "flag_large_gap ty threshold b t =
     (case threshold of
        None \<Rightarrow> []
      | Some n \<Rightarrow>
          (if gap_of b t \<le> n then []
           else [Large_Temporal_Gap ty (gap_of b t) (int (be_merged b)) (int (be_merged t))]))"

text \<open>The outcome of matching the occurrences of a key: which are emitted, and which pairs were formed.\<close>

record matching =
  mt_emitted :: "buffered_event list"
  mt_pairs :: "(buffered_event \<times> buffered_event) list"

definition emit :: "buffered_event \<Rightarrow> matching \<Rightarrow> matching" where
  "emit b mt = mt\<lparr>mt_emitted := b # mt_emitted mt\<rparr>"

definition emit_pair :: "buffered_event \<Rightarrow> buffered_event \<Rightarrow> matching \<Rightarrow> matching" where
  "emit_pair b t mt =
     mt\<lparr>mt_emitted := (if be_merged b \<le> be_merged t then b else t) # mt_emitted mt, mt_pairs := (b, t) # mt_pairs mt\<rparr>"

definition no_matching :: matching where
  "no_matching = \<lparr>mt_emitted = [], mt_pairs = []\<rparr>"

fun match_unique :: "buffered_event list \<Rightarrow> buffered_event list \<Rightarrow> matching" where
  "match_unique (b # bs) (t # ts) = emit_pair b t no_matching"
| "match_unique (b # bs) [] = emit b no_matching"
| "match_unique [] (t # ts) = emit t no_matching"
| "match_unique [] [] = no_matching"

fun match_temporal :: "int \<Rightarrow> buffered_event list \<Rightarrow> buffered_event list \<Rightarrow> matching" where
  "match_temporal w (b # bs) (t # ts) =
     (if gap_of b t \<le> w then emit_pair b t (match_temporal w bs ts)
      else if be_merged b < be_merged t then emit b (match_temporal w bs (t # ts))
      else emit t (match_temporal w (b # bs) ts))"
| "match_temporal w (b # bs) [] = emit b (match_temporal w bs [])"
| "match_temporal w [] (t # ts) = emit t (match_temporal w [] ts)"
| "match_temporal w [] [] = no_matching"

definition apply_matching :: "event_type \<Rightarrow> int option \<Rightarrow> matching \<Rightarrow> consolidation \<Rightarrow> consolidation" where
  "apply_matching ty threshold mt cn =
     (let cn1 = fold insert_buffered_event (mt_emitted mt) cn in
      cn1\<lparr>cn_flags := cn_flags cn1 @ concat (map (\<lambda>(b, t). flag_large_gap ty threshold b t) (mt_pairs mt)),
          cn_counters := (cn_counters cn1)\<lparr>ct_stream_pairs := ct_stream_pairs (cn_counters cn1) + length (mt_pairs mt)\<rparr>\<rparr>)"

fun group_by_key :: "key_fn \<Rightarrow> buffered_event list \<Rightarrow> (string, buffered_event list) omap \<Rightarrow> (string, buffered_event list) omap option" where
  "group_by_key f [] m = Some m"
| "group_by_key f (b # bs) m =
     (case identity_key f (fst (be_tagged b)) of
        None \<Rightarrow> None
      | Some k \<Rightarrow> group_by_key f bs (AList.update k ((case map_of m k of None \<Rightarrow> [] | Some xs \<Rightarrow> xs) @ [b]) m))"

definition key_list :: "(string, buffered_event list) omap \<Rightarrow> string \<Rightarrow> buffered_event list" where
  "key_list m k = sort_key be_merged (case map_of m k of None \<Rightarrow> [] | Some bs \<Rightarrow> bs)"

definition match_key ::
    "stream_config \<Rightarrow> (string, buffered_event list) omap \<Rightarrow> (string, buffered_event list) omap \<Rightarrow> string \<Rightarrow> matching" where
  "match_key cfg bm tm k =
     (case sc_window cfg of
        None \<Rightarrow> match_unique (key_list bm k) (key_list tm k)
      | Some w \<Rightarrow> match_temporal w (key_list bm k) (key_list tm k))"

definition deduplicate_stream_events ::
    "event_type \<Rightarrow> buffered_event list \<Rightarrow> buffered_event list \<Rightarrow> stream_config \<Rightarrow> consolidation \<Rightarrow> consolidation option" where
  "deduplicate_stream_events ty base target cfg cn =
     (case (group_by_key (sc_key cfg) base [], group_by_key (sc_key cfg) target []) of
        (Some bm, Some tm) \<Rightarrow>
          Some (fold (\<lambda>k. apply_matching ty (sc_large_gap cfg) (match_key cfg bm tm k))
            (omap_keys bm @ filter (\<lambda>k. k \<notin> set (omap_keys bm)) (omap_keys tm)) cn)
      | _ \<Rightarrow> None)"

definition buffered_of :: "event_buffer \<Rightarrow> event_type \<Rightarrow> buffered_event list" where
  "buffered_of buf ty = (case map_of buf ty of None \<Rightarrow> [] | Some bs \<Rightarrow> bs)"

definition reconcile_stream_type ::
    "stage \<Rightarrow> event_type \<Rightarrow> consolidation option \<Rightarrow> consolidation option" where
  "reconcile_stream_type stage ty acc =
     (case acc of
        None \<Rightarrow> None
      | Some cn \<Rightarrow>
          (case stream_configs_for_stage stage ty of
             None \<Rightarrow> Some cn
           | Some cfg \<Rightarrow> deduplicate_stream_events ty (buffered_of (cn_base_buffer cn) ty)
               (buffered_of (cn_target_buffer cn) ty) cfg cn))"

subsection \<open>Attack-mapped events\<close>

definition to_merged_tick :: "tick_mapping \<Rightarrow> int \<Rightarrow> nat option" where
  "to_merged_tick m t = (if t < 0 then None else to_merged m (nat t))"

text \<open>The tick an event refers to; \<^const>\<open>None\<close> when its sub-message is absent.\<close>

definition referenced_tick :: "event_type \<Rightarrow> event \<Rightarrow> int option" where
  "referenced_tick ty e =
     (if ty = TOB_VERZIK_BOUNCE then map_option (\<lambda>t. if t = -1 then ev_tick e else t) (ev_attack_tick e)
      else ev_attack_tick e)"

definition npc_attack_is :: "int \<Rightarrow> npc_state \<Rightarrow> bool" where
  "npc_attack_is code n \<longleftrightarrow> map_option nt_type (ns_attack n) = Some code"

definition validate_attack :: "attack_numbers \<Rightarrow> event_type \<Rightarrow> tick_state \<Rightarrow> event \<Rightarrow> bool" where
  "validate_attack an ty ts e \<longleftrightarrow>
     (if ty = TOB_VERZIK_ATTACK_STYLE then list_ex (\<lambda>(_, n). npc_attack_is (an_verzik_p3_auto an) n) (ts_npcs ts)
      else if ty = TOB_VERZIK_BOUNCE then
        (case List.find (\<lambda>(_, n). is_verzik_p2 (ns_id n)) (ts_npcs ts) of
           None \<Rightarrow> False
         | Some (_, n) \<Rightarrow> if ev_bounced_player e = [] then ns_attack n \<noteq> None else npc_attack_is (an_verzik_p2_bounce an) n)
      else Option.bind (get_player_state (ev_dawn_player e) ts) (\<lambda>s. map_option at_type (ps_attack s)) = Some (an_dawn_spec an))"

definition candidates_agree :: "event_type \<Rightarrow> event \<Rightarrow> event \<Rightarrow> bool" where
  "candidates_agree ty a b \<longleftrightarrow>
     (if ty = TOB_VERZIK_ATTACK_STYLE then ev_attack_style a = ev_attack_style b
      else if ty = TOB_VERZIK_BOUNCE then ev_bounced_player a = ev_bounced_player b
      else ev_dawn_player a = ev_dawn_player b \<and> ev_dawn_damage a = ev_dawn_damage b)"

text \<open>The sizes of Verzik's forms (\<^verbatim>\<open>common/npcs/npc-definitions.ts\<close>); every one of its identifiers has a definition.\<close>

definition verzik_size :: "int \<Rightarrow> int" where
  "verzik_size i = (if is_verzik_p1 i then 5 else if is_verzik_p2 i then 3 else 7)"

definition verzik_position :: "tick_state \<Rightarrow> coords option" where
  "verzik_position ts =
     map_option (\<lambda>(_, n). (ns_x n + verzik_size (ns_id n) div 2, ns_y n + verzik_size (ns_id n) div 2))
       (List.find (\<lambda>(_, n). is_verzik (ns_id n)) (ts_npcs ts))"

type_synonym attack_groups = "(nat, attack_candidate list) omap"

definition try_resolve ::
    "attack_numbers \<Rightarrow> event_type \<Rightarrow> bool \<Rightarrow> tick_mapping \<Rightarrow> buffered_event \<Rightarrow>
     (attack_groups \<times> consolidation) option \<Rightarrow> (attack_groups \<times> consolidation) option" where
  "try_resolve an ty is_base mp b acc =
     (case (acc, referenced_tick ty (fst (be_tagged b))) of
        (Some (groups, cn0), Some ref) \<Rightarrow>
          let cn = cn0\<lparr>cn_counters := (cn_counters cn0)\<lparr>ct_attack_mapped := ct_attack_mapped (cn_counters cn0) + 1\<rparr>\<rparr> in
          (case to_merged_tick mp ref of
             None \<Rightarrow> Some (groups, cn)
           | Some m \<Rightarrow>
               (case arr_get (cn_ticks cn) m of
                  Some ts \<Rightarrow>
                    (if validate_attack an ty ts (fst (be_tagged b))
                     then Some (AList.update m ((case map_of groups m of None \<Rightarrow> [] | Some cs \<Rightarrow> cs) @
                            [\<lparr>ca_base = is_base, ca_source = snd (be_tagged b), ca_client = be_client b,
                              ca_referenced = ref, ca_tagged = be_tagged b\<rparr>]) groups, cn)
                     else Some (groups, cn\<lparr>cn_flags := cn_flags cn @ [Attack_Mapped_Not_Found ty is_base (int (be_client b)) ref]\<rparr>))
                | None \<Rightarrow> Some (groups, cn\<lparr>cn_flags := cn_flags cn @ [Attack_Mapped_Not_Found ty is_base (int (be_client b)) ref]\<rparr>)))
      | _ \<Rightarrow> None)"

definition group_attack_mapped ::
    "attack_numbers \<Rightarrow> mappings \<Rightarrow> event_type \<Rightarrow> buffered_event list \<Rightarrow> buffered_event list \<Rightarrow> consolidation \<Rightarrow>
     (attack_groups \<times> consolidation) option" where
  "group_attack_mapped an mp ty base target cn =
     fold (try_resolve an ty False (m_target mp)) target (fold (try_resolve an ty True (m_base mp)) base (Some ([], cn)))"

definition nearer_candidate ::
    "merge_context \<Rightarrow> tick_state \<Rightarrow> coords \<Rightarrow> attack_candidate \<Rightarrow> (attack_candidate \<times> int) option \<Rightarrow>
     (attack_candidate \<times> int) option" where
  "nearer_candidate cx ts pos c best =
     (case Option.bind (primary_player cx (ca_source c)) (\<lambda>p. get_player_state p ts) of
        None \<Rightarrow> best
      | Some s \<Rightarrow>
          let d = distance_squared (ps_x s, ps_y s) pos
          in (case best of None \<Rightarrow> Some (c, d) | Some (b, bd) \<Rightarrow> if d < bd then Some (c, d) else best))"

definition resolve_by_npc_proximity ::
    "merge_context \<Rightarrow> consolidation \<Rightarrow> nat \<Rightarrow> attack_candidate list \<Rightarrow> attack_candidate option" where
  "resolve_by_npc_proximity cx cn tick cs =
     (case arr_get (cn_ticks cn) tick of
        None \<Rightarrow> None
      | Some ts \<Rightarrow>
          (case verzik_position ts of
             None \<Rightarrow> None
           | Some pos \<Rightarrow> map_option fst (fold (nearer_candidate cx ts pos) cs None)))"

definition insert_candidate :: "nat \<Rightarrow> attack_candidate \<Rightarrow> consolidation \<Rightarrow> consolidation" where
  "insert_candidate tick c = insert_tagged_event (int tick + 1) (ca_tagged c)"

definition resolve_group ::
    "merge_context \<Rightarrow> event_type \<Rightarrow> nat \<times> attack_candidate list \<Rightarrow> consolidation \<Rightarrow> consolidation" where
  "resolve_group cx ty grp cn =
     (case grp of
        (tick, []) \<Rightarrow> cn
      | (tick, [c]) \<Rightarrow> insert_candidate tick c cn
      | (tick, c # d # cs) \<Rightarrow>
          let fallback = (case List.find ca_base (c # d # cs) of None \<Rightarrow> c | Some b \<Rightarrow> b) in
          if list_all (\<lambda>x. candidates_agree ty (fst (ca_tagged c)) (fst (ca_tagged x))) (d # cs)
          then insert_candidate tick fallback cn
          else if ty = TOB_VERZIK_ATTACK_STYLE
          then insert_candidate tick
                 (case resolve_by_npc_proximity cx cn tick (c # d # cs) of None \<Rightarrow> fallback | Some w \<Rightarrow> w) cn
          else let loser = (if ca_base c \<or> List.find ca_base (c # d # cs) = None then d else c);
                   cn1 = insert_candidate tick fallback cn
            in cn1\<lparr>cn_flags := cn_flags cn1 @ [Unexpected_Conflict ty tick (ca_source fallback) (ca_source loser)]\<rparr>)"

definition reconcile_attack_type ::
    "consolidate_params \<Rightarrow> merge_context \<Rightarrow> mappings \<Rightarrow> event_type \<Rightarrow> consolidation option \<Rightarrow> consolidation option" where
  "reconcile_attack_type kp cx mp ty acc =
     (case acc of
        None \<Rightarrow> None
      | Some cn \<Rightarrow>
          map_option (\<lambda>(groups, cn1). fold (resolve_group cx ty) groups cn1)
            (group_attack_mapped (kp_numbers kp) mp ty (buffered_of (cn_base_buffer cn) ty)
               (buffered_of (cn_target_buffer cn) ty) cn))"

definition reconcile_streams ::
    "consolidate_params \<Rightarrow> merge_context \<Rightarrow> mappings \<Rightarrow> consolidation \<Rightarrow> consolidation option" where
  "reconcile_streams kp cx mp cn =
     fold (reconcile_attack_type kp cx mp) (kp_attack_types kp)
       (fold (reconcile_stream_type (cx_stage cx)) (kp_stream_types kp) (Some cn))"

subsection \<open>Remapping\<close>

text \<open>The ticks \<^verbatim>\<open>remapEventTick\<close> asks its callback for, in order.\<close>

definition remapped_ticks :: "(int \<Rightarrow> int) \<Rightarrow> event \<Rightarrow> int list" where
  "remapped_ticks remap e =
     ev_tick e #
     (if ev_type e = TOB_XARPUS_EXHUMED then (case ev_exhumed e of None \<Rightarrow> [] | Some (s, hs) \<Rightarrow> s # hs)
      else if ev_type e \<in> {TOB_VERZIK_ATTACK_STYLE, TOB_VERZIK_DAWN, MOKHAIOTL_ATTACK_STYLE}
      then (case ev_attack_tick e of None \<Rightarrow> [] | Some t \<Rightarrow> [t])
      else if ev_type e = TOB_VERZIK_BOUNCE
      then (case ev_attack_tick e of None \<Rightarrow> [] | Some t \<Rightarrow> [if t = -1 then remap (ev_tick e) else t])
      else [])"

definition remap_tick :: "tick_mapping \<Rightarrow> int \<Rightarrow> int \<Rightarrow> int" where
  "remap_tick mp offset t = (case to_merged_tick mp t of Some m \<Rightarrow> int m | None \<Rightarrow> t + offset)"

definition unmapped_flags :: "tick_mapping \<Rightarrow> nat \<Rightarrow> event \<Rightarrow> quality_flag list" where
  "unmapped_flags mp i e =
     (let offset = int i - ev_tick e in
      map (\<lambda>t. Unmapped_Cross_Tick_Reference (ev_type e) (int i) t (t + offset))
        (filter (\<lambda>t. to_merged_tick mp t = None) (remapped_ticks (remap_tick mp offset) e)))"

definition mapping_for :: "int \<Rightarrow> mappings \<Rightarrow> tagged \<Rightarrow> tick_mapping" where
  "mapping_for target_id mp t = (if snd t = target_id then m_target mp else m_base mp)"

definition remap_to_merged :: "int \<Rightarrow> mappings \<Rightarrow> nat \<Rightarrow> tagged \<Rightarrow> tagged option" where
  "remap_to_merged target_id mp i t =
     map_option (\<lambda>(e, src). (e\<lparr>ev_tick := int i\<rparr>, src))
       (remap_event_tick (remap_tick (mapping_for target_id mp t) (int i - ev_tick (fst t))) t)"

fun all_some :: "'a option list \<Rightarrow> 'a list option" where
  "all_some [] = Some []"
| "all_some (None # xs) = None"
| "all_some (Some x # xs) = map_option (\<lambda>ys. x # ys) (all_some xs)"

definition remap_tick_state :: "int \<Rightarrow> mappings \<Rightarrow> nat \<Rightarrow> tick_state \<Rightarrow> tick_state option" where
  "remap_tick_state target_id mp i ts =
     map_option (\<lambda>events. new_tick_state (int i) events (ts_players ts) (ts_npcs ts) (ts_graphics ts))
       (all_some (map (remap_to_merged target_id mp i) (get_tagged_events ts)))"

definition remap_all_to_merged ::
    "int \<Rightarrow> mappings \<Rightarrow> tick_state option list \<Rightarrow> (tick_state option list \<times> quality_flag list) option" where
  "remap_all_to_merged target_id mp ticks =
     map_option (\<lambda>out. (out,
         concat (map (\<lambda>(i, t). case t of None \<Rightarrow> []
           | Some ts \<Rightarrow> concat (map (\<lambda>tg. unmapped_flags (mapping_for target_id mp tg) i (fst tg)) (get_tagged_events ts)))
           (enumerate 0 ticks))))
       (all_some (map (\<lambda>(i, t). case t of None \<Rightarrow> Some None | Some ts \<Rightarrow> map_option Some (remap_tick_state target_id mp i ts))
          (enumerate 0 ticks)))"

subsection \<open>Consolidating\<close>

record consolidation_result =
  cr_ticks :: "tick_state option list"
  cr_flags :: "quality_flag list"
  cr_counters :: counters

definition consolidate ::
    "consolidate_params \<Rightarrow> merge_context \<Rightarrow> tick_state option list \<Rightarrow> tick_state option list \<Rightarrow> consolidation_result option" where
  "consolidate kp cx base target =
     (case mm_in_flight (cx_mapping cx) of
        None \<Rightarrow> None
      | Some (target_id, mp) \<Rightarrow>
          (case Option.bind (consolidate_ticks kp cx mp base target (build_timeline kp mp base target))
                  (reconcile_streams kp cx mp) of
             None \<Rightarrow> None
           | Some cn \<Rightarrow>
               map_option (\<lambda>(ticks, flags). \<lparr>cr_ticks = ticks, cr_flags = cn_flags cn @ flags, cr_counters = cn_counters cn\<rparr>)
                 (remap_all_to_merged target_id mp (cn_ticks cn))))"

subsection \<open>Matching occurrences\<close>

definition losers :: "matching \<Rightarrow> buffered_event list" where
  "losers mt = map (\<lambda>(b, t). if be_merged b \<le> be_merged t then t else b) (mt_pairs mt)"

lemma match_temporal_conserves:
  "mset (mt_emitted (match_temporal w bs ts)) + mset (losers (match_temporal w bs ts)) = mset bs + mset ts"
  by (induction w bs ts rule: match_temporal.induct)
    (auto simp: emit_def emit_pair_def no_matching_def losers_def)

lemma match_temporal_pairs:
  "(b, t) \<in> set (mt_pairs (match_temporal w bs ts)) \<Longrightarrow> b \<in> set bs \<and> t \<in> set ts \<and> gap_of b t \<le> w"
  by (induction w bs ts rule: match_temporal.induct)
    (auto simp: emit_def emit_pair_def no_matching_def split: if_splits)

lemma match_temporal_emits:
  "x \<in> set (mt_emitted (match_temporal w bs ts)) \<Longrightarrow> x \<in> set bs \<or> x \<in> set ts"
  using arg_cong [OF match_temporal_conserves [of w bs ts], of set_mset] by auto

lemma match_temporal_sorted:
  assumes "sorted (map be_merged bs)" and "sorted (map be_merged ts)"
  shows "sorted (map be_merged (mt_emitted (match_temporal w bs ts)))"
  using assms
proof (induction w bs ts rule: match_temporal.induct)
  case (1 w b bs t ts)
  have "be_merged b \<le> be_merged x" if "x \<in> set bs" for x using 1(4) that by simp
  moreover have "be_merged t \<le> be_merged x" if "x \<in> set ts" for x using 1(5) that by simp
  moreover from calculation have "be_merged b < be_merged t \<Longrightarrow> x \<in> set ts \<Longrightarrow> be_merged b \<le> be_merged x"
    "\<not> be_merged b < be_merged t \<Longrightarrow> x \<in> set bs \<Longrightarrow> be_merged t \<le> be_merged x" for x
    by force+
  ultimately show ?case
    using 1 by (auto simp: emit_def emit_pair_def dest!: match_temporal_emits)
qed (auto simp: emit_def no_matching_def dest!: match_temporal_emits)

lemma match_temporal_same: "0 \<le> w \<Longrightarrow> mt_emitted (match_temporal w bs bs) = bs"
  by (induction bs) (simp_all add: emit_pair_def gap_of_def no_matching_def)

subsection \<open>The timeline\<close>

definition actors_of :: "tick_state \<Rightarrow> (string, player_state option) omap \<times> (int, npc_state) omap \<times> graphics_state" where
  "actors_of ts = (ts_players ts, ts_npcs ts, ts_graphics ts)"

definition stripped :: "consolidate_params \<Rightarrow> tick_state \<Rightarrow> tick_state" where
  "stripped kp t = snd (extract_events (kp_stream_types kp @ kp_attack_types kp) (clone_tick t))"

definition mappings_fit :: "mappings \<Rightarrow> bool" where
  "mappings_fit mp \<longleftrightarrow> mappings_ok mp \<and> length (reverse (m_base mp)) = m_count mp \<and> length (reverse (m_target mp)) = m_count mp"

lemma to_merged_less:
  assumes "mapping_ok m" and "to_merged m i = Some p"
  shows "p < length (reverse m)" and "to_client m p = Some i"
proof -
  from assms show "to_client m p = Some i" by (simp add: ticks.inverse)
  then show "p < length (reverse m)" unfolding to_client_def by (rule arr_get_Some_less)
qed

lemma present_tick_snoc:
  "present_tick (xs @ [x]) i = (if i = Some (length xs) then x else present_tick xs i)"
  by (cases i) (auto simp: present_tick_def arr_get_def nth_append)

lemma enumerate_snoc: "enumerate 0 (xs @ [x]) = enumerate 0 xs @ [(length xs, x)]"
  by (simp add: enumerate_append_eq)

lemma build_base:
  assumes "mapping_ok bm" and "\<And>i p. to_merged bm i = Some p \<Longrightarrow> p < length (cn_ticks cn)"
  shows "arr_get (cn_ticks (fold (place_base_tick kp bm) (enumerate 0 base) cn)) p =
      (case present_tick base (to_client bm p) of Some t \<Rightarrow> Some (stripped kp t) | None \<Rightarrow> arr_get (cn_ticks cn) p)"
    and "length (cn_ticks (fold (place_base_tick kp bm) (enumerate 0 base) cn)) = length (cn_ticks cn)"
proof -
  have "(\<forall>p. arr_get (cn_ticks (fold (place_base_tick kp bm) (enumerate 0 base) cn)) p =
      (case present_tick base (to_client bm p) of Some t \<Rightarrow> Some (stripped kp t) | None \<Rightarrow> arr_get (cn_ticks cn) p)) \<and>
      length (cn_ticks (fold (place_base_tick kp bm) (enumerate 0 base) cn)) = length (cn_ticks cn)"
  proof (induction base rule: rev_induct)
    case Nil
    have "present_tick [] i = None" for i by (cases i) (simp_all add: present_tick_def arr_get_def)
    then show ?case by simp
  next
    case (snoc x xs)
    let ?cn = "fold (place_base_tick kp bm) (enumerate 0 xs) cn"
    have client: "to_client bm p = Some (length xs) \<longleftrightarrow> to_merged bm (length xs) = Some p" for p
      using assms(1) by (simp add: ticks.inverse)
    have step: "cn_ticks (place_base_tick kp bm (length xs, x) ?cn) =
        (case (to_merged bm (length xs), x) of (Some m, Some t) \<Rightarrow> arr_set (cn_ticks ?cn) m (stripped kp t) | _ \<Rightarrow> cn_ticks ?cn)"
      by (simp add: place_base_tick_def stripped_def split_beta Let_def split: option.split)
    have none: "present_tick xs (Some (length xs)) = None" by (simp add: present_tick_def arr_get_def)
    have "length (cn_ticks (place_base_tick kp bm (length xs, x) ?cn)) = length (cn_ticks cn)"
      using snoc.IH assms(2) [of "length xs"] by (auto simp: step split: option.split)
    moreover have "arr_get (cn_ticks (place_base_tick kp bm (length xs, x) ?cn)) p =
        (case present_tick (xs @ [x]) (to_client bm p) of Some t \<Rightarrow> Some (stripped kp t) | None \<Rightarrow> arr_get (cn_ticks cn) p)" for p
    proof (cases "to_merged bm (length xs) = Some p")
      case True
      then show ?thesis using snoc.IH client [of p] none
        by (auto simp: step present_tick_snoc arr_get_set split: option.split)
    next
      case False
      with client have "to_client bm p \<noteq> Some (length xs)" by simp
      with False show ?thesis using snoc.IH
        by (auto simp: step present_tick_snoc arr_get_set split: option.split)
    qed
    ultimately show ?case by (simp add: enumerate_snoc)
  qed
  then show "arr_get (cn_ticks (fold (place_base_tick kp bm) (enumerate 0 base) cn)) p =
      (case present_tick base (to_client bm p) of Some t \<Rightarrow> Some (stripped kp t) | None \<Rightarrow> arr_get (cn_ticks cn) p)"
    "length (cn_ticks (fold (place_base_tick kp bm) (enumerate 0 base) cn)) = length (cn_ticks cn)" by simp_all
qed

lemma place_target_tick_ticks:
  assumes "\<And>m. to_merged tm i = Some m \<Longrightarrow> m < length (cn_ticks cn)"
  shows "cn_ticks (place_target_tick kp tm (i, x) cn) =
    (case (to_merged tm i, x) of
       (Some m, Some t) \<Rightarrow> if arr_get (cn_ticks cn) m \<noteq> None then cn_ticks cn else arr_set (cn_ticks cn) m (stripped kp t)
     | _ \<Rightarrow> cn_ticks cn)"
  using assms by (auto simp: place_target_tick_def stripped_def split_beta Let_def split: option.split)

lemma build_target:
  assumes "mapping_ok tm" and "\<And>i p. to_merged tm i = Some p \<Longrightarrow> p < length (cn_ticks cn)"
  shows "arr_get (cn_ticks (fold (place_target_tick kp tm) (enumerate 0 target) cn)) p =
      (case arr_get (cn_ticks cn) p of Some t \<Rightarrow> Some t | None \<Rightarrow> map_option (stripped kp) (present_tick target (to_client tm p)))"
    and "length (cn_ticks (fold (place_target_tick kp tm) (enumerate 0 target) cn)) = length (cn_ticks cn)"
proof -
  have "(\<forall>p. arr_get (cn_ticks (fold (place_target_tick kp tm) (enumerate 0 target) cn)) p =
      (case arr_get (cn_ticks cn) p of Some t \<Rightarrow> Some t | None \<Rightarrow> map_option (stripped kp) (present_tick target (to_client tm p)))) \<and>
      length (cn_ticks (fold (place_target_tick kp tm) (enumerate 0 target) cn)) = length (cn_ticks cn)"
  proof (induction target rule: rev_induct)
    case Nil
    have "present_tick [] i = None" for i by (cases i) (simp_all add: present_tick_def arr_get_def)
    then show ?case by (simp split: option.split)
  next
    case (snoc x xs)
    let ?cn = "fold (place_target_tick kp tm) (enumerate 0 xs) cn"
    have client: "to_client tm p = Some (length xs) \<longleftrightarrow> to_merged tm (length xs) = Some p" for p
      using assms(1) by (simp add: ticks.inverse)
    have step: "cn_ticks (place_target_tick kp tm (length xs, x) ?cn) =
        (case (to_merged tm (length xs), x) of
           (Some m, Some t) \<Rightarrow> if arr_get (cn_ticks ?cn) m \<noteq> None then cn_ticks ?cn else arr_set (cn_ticks ?cn) m (stripped kp t)
         | _ \<Rightarrow> cn_ticks ?cn)"
      using snoc.IH assms(2) [of "length xs"] by (intro place_target_tick_ticks) simp
    have none: "present_tick xs (Some (length xs)) = None" by (simp add: present_tick_def arr_get_def)
    have "length (cn_ticks (place_target_tick kp tm (length xs, x) ?cn)) = length (cn_ticks cn)"
      using snoc.IH assms(2) [of "length xs"] by (auto simp: step split: option.split)
    moreover have "arr_get (cn_ticks (place_target_tick kp tm (length xs, x) ?cn)) p =
        (case arr_get (cn_ticks cn) p of Some t \<Rightarrow> Some t
         | None \<Rightarrow> map_option (stripped kp) (present_tick (xs @ [x]) (to_client tm p)))" for p
    proof (cases "to_merged tm (length xs) = Some p")
      case True
      then show ?thesis using snoc.IH client [of p] none
        by (auto simp: step present_tick_snoc arr_get_set split: option.split)
    next
      case False
      with client have "to_client tm p \<noteq> Some (length xs)" by simp
      with False show ?thesis using snoc.IH
        by (auto simp: step present_tick_snoc arr_get_set split: option.split)
    qed
    ultimately show ?case by (simp add: enumerate_snoc)
  qed
  then show "arr_get (cn_ticks (fold (place_target_tick kp tm) (enumerate 0 target) cn)) p =
      (case arr_get (cn_ticks cn) p of Some t \<Rightarrow> Some t | None \<Rightarrow> map_option (stripped kp) (present_tick target (to_client tm p)))"
    "length (cn_ticks (fold (place_target_tick kp tm) (enumerate 0 target) cn)) = length (cn_ticks cn)" by simp_all
qed

lemma build_timeline_ticks:
  assumes "mappings_fit mp"
  shows "arr_get (cn_ticks (build_timeline kp mp base target)) p =
      (case present_tick base (to_client (m_base mp) p) of
         Some t \<Rightarrow> Some (stripped kp t)
       | None \<Rightarrow> map_option (stripped kp) (present_tick target (to_client (m_target mp) p)))"
    and "length (cn_ticks (build_timeline kp mp base target)) = m_count mp"
proof -
  have ok: "mapping_ok (m_base mp)" "mapping_ok (m_target mp)" using assms by (simp_all add: mappings_fit_def mappings_ok_def)
  have less: "to_merged (m_base mp) i = Some p \<Longrightarrow> p < m_count mp" "to_merged (m_target mp) i = Some p \<Longrightarrow> p < m_count mp" for i p
    using to_merged_less(1) [OF ok(1)] to_merged_less(1) [OF ok(2)] assms by (auto simp: mappings_fit_def)
  show "arr_get (cn_ticks (build_timeline kp mp base target)) p =
      (case present_tick base (to_client (m_base mp) p) of
         Some t \<Rightarrow> Some (stripped kp t)
       | None \<Rightarrow> map_option (stripped kp) (present_tick target (to_client (m_target mp) p)))"
    "length (cn_ticks (build_timeline kp mp base target)) = m_count mp"
    unfolding build_timeline_def
    by (simp_all add: build_target [OF ok(2)] build_base [OF ok(1)] less split: option.split)
qed

definition reconciled_at ::
    "consolidate_params \<Rightarrow> merge_context \<Rightarrow> mappings \<Rightarrow> tick_state option list \<Rightarrow> tick_state option list \<Rightarrow> nat \<Rightarrow>
     tick_state option \<Rightarrow> tick_state option" where
  "reconciled_at kp cx mp base target p x =
     (case (present_tick base (to_client (m_base mp) p), present_tick target (to_client (m_target mp) p)) of
        (Some b, Some t) \<Rightarrow> map_option (\<lambda>m. fst (reconcile_tick (kp_numbers kp) (kp_targeted kp) cx m (stripped kp t))) x
      | _ \<Rightarrow> x)"

lemma arr_get_update: "m < length xs \<Longrightarrow> arr_get (xs[m := x]) p = (if p = m then x else arr_get xs p)"
  by (auto simp: arr_get_def)

lemma present_tick_client: "present_tick ticks i = Some t \<Longrightarrow> \<exists>j. i = Some j"
  by (cases i) (simp_all add: present_tick_def)

lemma consolidate_tick_Some:
  assumes "present_tick base (to_client (m_base mp) m) \<noteq> None \<Longrightarrow> arr_get (cn_ticks cn) m \<noteq> None"
  shows "\<exists>cn'. consolidate_tick kp cx mp base target m (Some cn) = Some cn' \<and> length (cn_ticks cn') = length (cn_ticks cn) \<and>
    (\<forall>p. arr_get (cn_ticks cn') p =
      (if p = m then reconciled_at kp cx mp base target p (arr_get (cn_ticks cn) p) else arr_get (cn_ticks cn) p))"
proof (cases "present_tick base (to_client (m_base mp) m)")
  case None
  then show ?thesis by (auto simp: consolidate_tick_def reconciled_at_def split: option.split)
next
  case (Some b)
  then obtain merged where merged: "arr_get (cn_ticks cn) m = Some merged" using assms by auto
  then have less: "m < length (cn_ticks cn)" by (rule arr_get_Some_less)
  show ?thesis
  proof (cases "present_tick target (to_client (m_target mp) m)")
    case None
    then show ?thesis by (auto simp: consolidate_tick_def reconciled_at_def split: option.split)
  next
    case target: (Some t)
    from present_tick_client [OF target] obtain ti where ti: "to_client (m_target mp) m = Some ti" by blast
    show ?thesis
      using Some target ti merged less
      by (auto simp: consolidate_tick_def reconciled_at_def stripped_def split_beta Let_def arr_get_update)
  qed
qed

lemma consolidate_ticks_Some:
  assumes "\<And>p. present_tick base (to_client (m_base mp) p) \<noteq> None \<Longrightarrow> arr_get (cn_ticks cn) p \<noteq> None"
  shows "\<exists>cn'. consolidate_ticks kp cx mp base target cn = Some cn' \<and> length (cn_ticks cn') = length (cn_ticks cn) \<and>
    (\<forall>p. arr_get (cn_ticks cn') p = reconciled_at kp cx mp base target p (arr_get (cn_ticks cn) p))"
proof -
  have "\<exists>cn'. fold (consolidate_tick kp cx mp base target) [0..<n] (Some cn) = Some cn' \<and>
      length (cn_ticks cn') = length (cn_ticks cn) \<and>
      (\<forall>p. arr_get (cn_ticks cn') p =
        (if p < n then reconciled_at kp cx mp base target p (arr_get (cn_ticks cn) p) else arr_get (cn_ticks cn) p))" for n
  proof (induction n)
    case (Suc n)
    then obtain cn1 where cn1: "fold (consolidate_tick kp cx mp base target) [0..<n] (Some cn) = Some cn1"
      "length (cn_ticks cn1) = length (cn_ticks cn)"
      "\<forall>p. arr_get (cn_ticks cn1) p =
        (if p < n then reconciled_at kp cx mp base target p (arr_get (cn_ticks cn) p) else arr_get (cn_ticks cn) p)" by blast
    have "present_tick base (to_client (m_base mp) n) \<noteq> None \<Longrightarrow> arr_get (cn_ticks cn1) n \<noteq> None"
      using assms cn1(3) by simp
    then obtain cn2 where "consolidate_tick kp cx mp base target n (Some cn1) = Some cn2" "length (cn_ticks cn2) = length (cn_ticks cn1)"
      "\<forall>p. arr_get (cn_ticks cn2) p =
        (if p = n then reconciled_at kp cx mp base target p (arr_get (cn_ticks cn1) p) else arr_get (cn_ticks cn1) p)"
      using consolidate_tick_Some [where kp = kp and cx = cx and target = target and base = base and mp = mp] by blast
    with cn1 show ?case by (auto simp: less_Suc_eq)
  qed simp
  from this [of "length (cn_ticks cn)"] obtain cn' where cn':
    "consolidate_ticks kp cx mp base target cn = Some cn'" "length (cn_ticks cn') = length (cn_ticks cn)"
    "\<forall>p. arr_get (cn_ticks cn') p =
      (if p < length (cn_ticks cn) then reconciled_at kp cx mp base target p (arr_get (cn_ticks cn) p) else arr_get (cn_ticks cn) p)"
    unfolding consolidate_ticks_def by blast
  have "reconciled_at kp cx mp base target p (arr_get (cn_ticks cn) p) = arr_get (cn_ticks cn) p" if "\<not> p < length (cn_ticks cn)" for p
    using that by (simp add: arr_get_def reconciled_at_def split: option.split)
  with cn' show ?thesis by auto
qed

subsection \<open>Streams keep the actors\<close>

definition view :: "consolidation \<Rightarrow> ((string, player_state option) omap \<times> (int, npc_state) omap \<times> graphics_state) option list" where
  "view cn = map (map_option actors_of) (cn_ticks cn)"

lemma view_simps [simp]:
  "view (cn\<lparr>cn_flags := f\<rparr>) = view cn" "view (cn\<lparr>cn_counters := c\<rparr>) = view cn"
  by (simp_all add: view_def)

lemma view_insert [simp]: "view (insert_tagged_event m t cn) = view cn"
proof -
  have actors: "actors_of (add_tagged_events ts t) = actors_of t" for ts t by (simp add: actors_of_def add_tagged_events_def)
  show ?thesis
    by (auto simp: insert_tagged_event_def view_def map_update option.map_comp comp_def actors intro!: list_update_same_conv [THEN iffD2])
qed

lemma view_fold: "(\<And>x cn. view (f x cn) = view cn) \<Longrightarrow> view (fold f xs cn) = view cn"
  by (induction xs arbitrary: cn) simp_all

lemma view_apply_matching [simp]: "view (apply_matching ty n mt cn) = view cn"
  by (simp add: apply_matching_def Let_def view_fold insert_buffered_event_def)

lemma view_deduplicate: "deduplicate_stream_events ty bs ts cfg cn = Some cn' \<Longrightarrow> view cn' = view cn"
  by (auto simp: deduplicate_stream_events_def view_fold split: option.splits)

lemma view_fold_option:
  assumes "\<And>x acc. f x None = None" and "\<And>x cn cn'. f x (Some cn) = Some cn' \<Longrightarrow> view cn' = view cn"
  shows "fold f xs (Some cn) = Some cn' \<Longrightarrow> view cn' = view cn"
proof (induction xs arbitrary: cn)
  case (Cons x xs)
  have "fold f ys None = None" for ys by (induction ys) (simp_all add: assms(1))
  with Cons.prems obtain cn1 where "f x (Some cn) = Some cn1" by (cases "f x (Some cn)") auto
  with Cons assms(2) show ?case by fastforce
qed simp

lemma view_resolve_group [simp]: "view (resolve_group cx ty g cn) = view cn"
  by (auto simp: resolve_group_def insert_candidate_def Let_def split: prod.split list.split)

lemma try_resolve_view:
  assumes "try_resolve an ty b mp e (Some (g, cn)) = Some (g', cn')"
  shows "view cn' = view cn"
  using assms by (auto simp: try_resolve_def Let_def split: option.splits if_splits)

lemma fold_try_resolve_view:
  "fold (try_resolve an ty b mp) es (Some (g, cn)) = Some (g', cn') \<Longrightarrow> view cn' = view cn"
proof (induction es arbitrary: g cn)
  case (Cons e es)
  have "fold (try_resolve an ty b mp) xs None = None" for xs by (induction xs) (simp_all add: try_resolve_def)
  with Cons.prems obtain g1 cn1 where step: "try_resolve an ty b mp e (Some (g, cn)) = Some (g1, cn1)"
    by (cases "try_resolve an ty b mp e (Some (g, cn))") auto
  with Cons.prems Cons.IH [of g1 cn1] try_resolve_view [OF step] show ?case by simp
qed simp

lemma view_reconcile_attack_type:
  assumes "reconcile_attack_type kp cx mp ty (Some cn) = Some cn'"
  shows "view cn' = view cn"
proof -
  from assms obtain g cn1 where
    group: "group_attack_mapped (kp_numbers kp) mp ty (buffered_of (cn_base_buffer cn) ty) (buffered_of (cn_target_buffer cn) ty) cn = Some (g, cn1)"
    and cn': "cn' = fold (resolve_group cx ty) g cn1"
    by (auto simp: reconcile_attack_type_def)
  have none: "fold (try_resolve an ty b mp) xs None = None" for an b mp xs by (induction xs) (simp_all add: try_resolve_def)
  from group obtain g0 cn0 where "fold (try_resolve (kp_numbers kp) ty True (m_base mp)) (buffered_of (cn_base_buffer cn) ty) (Some ([], cn)) = Some (g0, cn0)"
    "fold (try_resolve (kp_numbers kp) ty False (m_target mp)) (buffered_of (cn_target_buffer cn) ty) (Some (g0, cn0)) = Some (g, cn1)"
    unfolding group_attack_mapped_def using none
    by (cases "fold (try_resolve (kp_numbers kp) ty True (m_base mp)) (buffered_of (cn_base_buffer cn) ty) (Some ([], cn))") auto
  from fold_try_resolve_view [OF this(1)] fold_try_resolve_view [OF this(2)] show ?thesis
    by (simp add: cn' view_fold)
qed

lemma reconcile_streams_view:
  assumes "reconcile_streams kp cx mp cn = Some cn'"
  shows "view cn' = view cn"
proof -
  have none: "fold (reconcile_attack_type kp cx mp) xs None = None" for xs
    by (induction xs) (simp_all add: reconcile_attack_type_def)
  from assms obtain cn1 where first: "fold (reconcile_stream_type (cx_stage cx)) (kp_stream_types kp) (Some cn) = Some cn1"
    and second: "fold (reconcile_attack_type kp cx mp) (kp_attack_types kp) (Some cn1) = Some cn'"
    unfolding reconcile_streams_def using none
    by (cases "fold (reconcile_stream_type (cx_stage cx)) (kp_stream_types kp) (Some cn)") auto
  have "view cn1 = view cn"
    by (rule view_fold_option [OF _ _ first])
      (auto simp: reconcile_stream_type_def split: option.splits dest: view_deduplicate)
  moreover have "view cn' = view cn1"
    by (rule view_fold_option [OF _ view_reconcile_attack_type second]) (simp_all add: reconcile_attack_type_def)
  ultimately show ?thesis by simp
qed

subsection \<open>Properties\<close>

lemma all_some_iff: "all_some xs = Some ys \<longleftrightarrow> xs = map Some ys"
proof (induction xs arbitrary: ys)
  case (Cons x xs)
  then show ?case by (cases x; cases ys) auto
qed auto

lemma remap_tick_state_actors:
  "remap_tick_state tid mp i ts = Some t \<Longrightarrow> ts_tick t = int i \<and> actors_of t = actors_of ts"
  by (auto simp: remap_tick_state_def new_tick_state_def actors_of_def)

lemma remap_all_nth:
  assumes "remap_all_to_merged tid mp ticks = Some (out, flags)"
  shows "length out = length ticks"
    and "map_option (\<lambda>t. (ts_tick t, actors_of t)) (arr_get out p) = map_option (\<lambda>t. (int p, actors_of t)) (arr_get ticks p)"
proof -
  from assms have eq: "map (\<lambda>(i, t). case t of None \<Rightarrow> Some None | Some ts \<Rightarrow> map_option Some (remap_tick_state tid mp i ts)) (enumerate 0 ticks) =
      map Some out"
    by (auto simp: remap_all_to_merged_def all_some_iff)
  from arg_cong [OF eq, of length] show len: "length out = length ticks" by simp
  show "map_option (\<lambda>t. (ts_tick t, actors_of t)) (arr_get out p) = map_option (\<lambda>t. (int p, actors_of t)) (arr_get ticks p)"
  proof (cases "p < length ticks")
    case True
    with arg_cong [OF eq, of "\<lambda>xs. xs ! p"] len
    have "(case ticks ! p of None \<Rightarrow> Some None | Some ts \<Rightarrow> map_option Some (remap_tick_state tid mp p ts)) = Some (out ! p)"
      by (simp add: nth_enumerate_eq)
    with True len show ?thesis
      by (cases "ticks ! p"; cases "out ! p") (auto simp: arr_get_def dest: remap_tick_state_actors)
  qed (simp add: arr_get_def len)
qed

lemma actors_of_stripped [simp]: "actors_of (stripped kp t) = actors_of t"
  by (simp add: stripped_def actors_of_def extract_events_def clone_tick_def new_tick_state_def)

lemma view_nth: "map_option actors_of (arr_get (cn_ticks cn) p) = arr_get (view cn) p"
  by (simp add: view_def arr_get_def)

text \<open>C30: a merge step that consolidates yields one tick for every tick of the merged timeline, numbered by its
  position. Where only one side has the tick, its players, NPCs and graphics are that side's; where both do, they
  are the reconciliation of the two; and there is none exactly where neither side has one.\<close>

theorem consolidate_actors:
  assumes "mm_in_flight (cx_mapping cx) = Some (tid, mp)" and "mappings_fit mp"
    and "consolidate kp cx base target = Some r"
  shows "length (cr_ticks r) = m_count mp \<and>
    map_option (\<lambda>t. (ts_tick t, actors_of t)) (arr_get (cr_ticks r) p) =
      (case (present_tick base (to_client (m_base mp) p), present_tick target (to_client (m_target mp) p)) of
         (None, None) \<Rightarrow> None
       | (Some b, None) \<Rightarrow> Some (int p, actors_of b)
       | (None, Some t) \<Rightarrow> Some (int p, actors_of t)
       | (Some b, Some t) \<Rightarrow>
           Some (int p, actors_of (fst (reconcile_tick (kp_numbers kp) (kp_targeted kp) cx (stripped kp b) (stripped kp t)))))"
proof -
  let ?b = "build_timeline kp mp base target"
  note build = build_timeline_ticks [OF assms(2), of kp base target]
  have "present_tick base (to_client (m_base mp) p) \<noteq> None \<Longrightarrow> arr_get (cn_ticks ?b) p \<noteq> None" for p
    by (auto simp: build)
  then obtain cn1 where cn1: "consolidate_ticks kp cx mp base target ?b = Some cn1" "length (cn_ticks cn1) = length (cn_ticks ?b)"
    "\<forall>p. arr_get (cn_ticks cn1) p = reconciled_at kp cx mp base target p (arr_get (cn_ticks ?b) p)"
    using consolidate_ticks_Some by blast
  from assms(1,3) cn1(1) obtain cn2 flags where cn2: "reconcile_streams kp cx mp cn1 = Some cn2"
    and remap: "remap_all_to_merged tid mp (cn_ticks cn2) = Some (cr_ticks r, flags)"
    by (auto simp: consolidate_def split: option.splits)
  have v: "view cn2 = view cn1" by (rule reconcile_streams_view [OF cn2])
  then have len: "length (cn_ticks cn2) = m_count mp" using cn1(2) build(2) by (metis length_map view_def)
  have "map_option actors_of (arr_get (cn_ticks cn2) p) = map_option actors_of (arr_get (cn_ticks cn1) p)"
    unfolding view_nth v ..
  moreover have "map_option (\<lambda>t. (int p, actors_of t)) x = map_option (Pair (int p)) (map_option actors_of x)" for x
    by (cases x) simp_all
  ultimately have "map_option (\<lambda>t. (int p, actors_of t)) (arr_get (cn_ticks cn2) p) =
      map_option (Pair (int p)) (map_option actors_of (arr_get (cn_ticks cn1) p))" by simp
  with remap_all_nth [OF remap] len cn1(3) build(1) show ?thesis
    by (auto simp: reconciled_at_def split: option.splits)
qed

lemma key_list_sorted: "sorted (map be_merged (key_list m k))"
  by (simp add: key_list_def)

text \<open>Matching the occurrences of a key within a window loses and invents none: each is emitted or is the later
  one of a pair of a base and a target occurrence at most a window apart, of which the earlier is emitted; the
  emitted ones are in order, and matching a client against itself emits its own.\<close>

theorem stream_occurrences_matched:
  assumes "mt = match_temporal w (key_list bm k) (key_list tm k)"
  shows "mset (mt_emitted mt) + mset (losers mt) = mset (key_list bm k) + mset (key_list tm k) \<and>
    (\<forall>(b, t) \<in> set (mt_pairs mt). b \<in> set (key_list bm k) \<and> t \<in> set (key_list tm k) \<and> gap_of b t \<le> w) \<and>
    sorted (map be_merged (mt_emitted mt)) \<and>
    (0 \<le> w \<and> key_list bm k = key_list tm k \<longrightarrow> mt_emitted mt = key_list bm k)"
  using match_temporal_conserves [of w "key_list bm k" "key_list tm k"]
    match_temporal_sorted [OF key_list_sorted key_list_sorted, of w bm k tm k]
    match_temporal_same [of w "key_list bm k"] match_temporal_pairs
  unfolding assms by fastforce

text \<open>C38: the flags of a reconciled tick carry the number \<open>i\<close> of the base tick, whatever its position in the
  merged timeline is, although recording them reads that number as a position. What is marked as
  contested is thus the tick that stems from position \<open>i\<close>, another one where ticks were inserted before.\<close>

theorem contested_ticks_in_base_numbering:
  assumes "ts_tick b = int i"
    and "reconcile_tick an targeted cx (stripped kp b) (stripped kp t) = (m', flags, na, ns, nn)"
    and "distinct (map fst (ts_players (merge_ticks (stripped kp b) (stripped kp t))))"
    and "distinct (map fst (ts_npcs (merge_ticks (stripped kp b) (stripped kp t))))"
  shows "is_contested (cx_contested (record_contested_ticks cx' c flags)) d l \<longleftrightarrow>
    is_contested (cx_contested cx') d l \<or> d = c \<and> flags \<noteq> [] \<and> resolve_client_tick (cx_mapping cx') i c = Some l"
proof -
  have "ts_tick (stripped kp b) = int i"
    using assms(1) by (simp add: stripped_def extract_events_def clone_tick_def new_tick_state_def)
  with reconcile_flags [OF assms(2-4)] have "\<forall>f \<in> set flags. contested_flag_tick f = Some i" by simp
  then have "(\<exists>f \<in> set flags. \<exists>t. contested_flag_tick f = Some t \<and> resolve_client_tick (cx_mapping cx') t c = Some l) \<longleftrightarrow>
      flags \<noteq> [] \<and> resolve_client_tick (cx_mapping cx') i c = Some l"
    by (cases flags) auto
  then show ?thesis by (simp add: contested_recorded)
qed

subsection \<open>Witnesses\<close>

definition sample_shift :: mappings where
  "sample_shift =
     \<lparr>m_base = \<lparr>forward = [Some 1, Some 2], reverse = [None, Some 0, Some 1]\<rparr>,
      m_target = \<lparr>forward = [Some 0, Some 1, Some 2], reverse = [Some 0, Some 1, Some 2]\<rparr>, m_count = 3\<rparr>"

definition sample_step :: merge_context where
  "sample_step = sample_context\<lparr>cx_mapping := begin_step 8 sample_shift (new_merge_mapping 7), cx_contested := []\<rparr>"

definition sample_consolidate_params :: consolidate_params where
  "sample_consolidate_params = \<lparr>kp_numbers = sample_numbers, kp_targeted = (\<lambda>_. True), kp_stream_types = [PLAYER_DEATH, NPC_DEATH],
     kp_attack_types = [TOB_VERZIK_DAWN]\<rparr>"

definition sample_base_ticks :: "tick_state option list" where
  "sample_base_ticks = [Some (sample_attacked 0 7 1 5), Some (sample_tick 1 [] PRIMARY)]"

definition sample_target_ticks :: "tick_state option list" where
  "sample_target_ticks = [None, Some (sample_attacked 1 8 9 5), None]"

definition sample_contested :: "(quality_flag list \<times> (int, nat list) omap) option" where
  "sample_contested =
     map_option (\<lambda>r. (cr_flags r,
         cx_contested (record_contested_ticks (sample_step\<lparr>cx_mapping := commit_step (cx_mapping sample_step)\<rparr>) 8 (cr_flags r))))
       (consolidate sample_consolidate_params sample_step sample_base_ticks sample_target_ticks)"

lemma sample_contested_value:
  "sample_contested = Some ([Attack_Type_Mismatch 0 ''p'' 1 9 7 8], [(8, [0])])"
  by code_simp

text \<open>Both sides have merged tick 1, which is tick 0 of the base and tick 1 of client 8. Their disagreement
  there marks tick 0 of client 8.\<close>

theorem contested_ticks_in_base_numbering_witness:
  "(\<exists>flags. sample_contested = Some (flags, [(8, [0])])) \<and> to_client (m_base sample_shift) 1 = Some 0 \<and>
   to_client (m_target sample_shift) 1 = Some 1 \<and>
   (\<exists>m' flags rest. reconcile_tick sample_numbers (\<lambda>_. True) sample_step (stripped sample_consolidate_params (sample_attacked 0 7 1 5))
        (stripped sample_consolidate_params (sample_attacked 1 8 9 5)) = (m', flags, rest) \<and>
      \<not> is_contested (cx_contested (record_contested_ticks sample_step 8 flags)) 8 1)"
proof -
  let ?b = "stripped sample_consolidate_params (sample_attacked 0 7 1 5)"
  let ?t = "stripped sample_consolidate_params (sample_attacked 1 8 9 5)"
  obtain m' flags na ns nn where r: "reconcile_tick sample_numbers (\<lambda>_. True) sample_step ?b ?t = (m', flags, na, ns, nn)"
    by (rule prod_cases5)
  have tick: "ts_tick (sample_attacked 0 7 1 5) = int 0" by (simp add: sample_attacked_def sample_tick_def new_tick_state_def)
  have keys: "distinct (map fst (ts_players (merge_ticks ?b ?t)))" "distinct (map fst (ts_npcs (merge_ticks ?b ?t)))" by code_simp+
  have "resolve_client_tick (cx_mapping sample_step) 0 8 = Some 0" "cx_contested sample_step = []" by code_simp+
  with contested_ticks_in_base_numbering [OF tick r keys, of sample_step 8 8 1] have
    "\<not> is_contested (cx_contested (record_contested_ticks sample_step 8 flags)) 8 1" by (simp add: is_contested_def)
  moreover have "to_client (m_base sample_shift) 1 = Some 0" "to_client (m_target sample_shift) 1 = Some 1" by code_simp+
  ultimately show ?thesis using r sample_contested_value by auto
qed

theorem consolidate_actors_witness:
  "\<exists>r. consolidate sample_consolidate_params sample_step sample_base_ticks sample_target_ticks = Some r \<and>
     length (cr_ticks r) = 3 \<and> map_option ts_tick (arr_get (cr_ticks r) 2) = Some 2"
proof -
  obtain r where r: "consolidate sample_consolidate_params sample_step sample_base_ticks sample_target_ticks = Some r"
    using sample_contested_value unfolding sample_contested_def by auto
  have flight: "mm_in_flight (cx_mapping sample_step) = Some (8, sample_shift)"
    by (simp add: sample_step_def begin_step_def new_merge_mapping_def)
  have fit: "mappings_fit sample_shift" by code_simp
  have sides: "present_tick sample_base_ticks (to_client (m_base sample_shift) 2) = Some (sample_tick 1 [] PRIMARY)"
    "present_tick sample_target_ticks (to_client (m_target sample_shift) 2) = None"
    by (simp_all add: present_tick_def to_client_def sample_shift_def arr_get_def sample_base_ticks_def sample_target_ticks_def)
  have fst_of: "map_option (\<lambda>t. (f t, g t)) x = Some (a, b) \<Longrightarrow> map_option f x = Some a"
    for f :: "tick_state \<Rightarrow> int" and g :: "tick_state \<Rightarrow> 'b" and x a b by (cases x) simp_all
  note ticks = consolidate_actors [OF flight fit r, of 2]
  have two: "map_option ts_tick (arr_get (cr_ticks r) 2) = Some (int 2)"
    using conjunct2 [OF ticks] unfolding sides prod.case option.case by (rule fst_of)
  have count: "m_count sample_shift = 3" by (simp add: sample_shift_def)
  have "length (cr_ticks r) = 3" using conjunct1 [OF ticks] unfolding count .
  with r two show ?thesis unfolding of_nat_numeral by (intro exI conjI)
qed

definition sample_occurrence :: "nat \<Rightarrow> buffered_event" where
  "sample_occurrence m = \<lparr>be_tagged = (sample_bounce, 7), be_merged = m, be_client = m\<rparr>"

theorem stream_occurrences_matched_witness:
  "length (mt_emitted (match_temporal 5 (key_list [([], [sample_occurrence 4])] []) (key_list [([], [sample_occurrence 6])] []))) \<le> 2"
proof -
  let ?m = "match_temporal 5 (key_list [([], [sample_occurrence 4])] []) (key_list [([], [sample_occurrence 6])] [])"
  have "key_list [([], [sample_occurrence n])] [] = [sample_occurrence n]" for n by (simp add: key_list_def)
  then have "size (mset (mt_emitted ?m) + mset (losers ?m)) = 2"
    unfolding conjunct1 [OF stream_occurrences_matched [OF refl]] by simp
  then show ?thesis by simp
qed

end
