(* ===== verification/Npc_Ids.thy ===== *)
theory Npc_Ids
  imports World
begin

text \<open>
  The identifiers of NPCs and their classes (\<^verbatim>\<open>common/npcs/npc-id.ts\<close>); those of Verzik are in \<^theory_text>\<open>World\<close>.
\<close>

definition npc_ids :: "int list" where
  "npc_ids = [7691, 7692, 7693, 7694, 7695, 7696, 7697, 7698, 7699, 7700, 7701, 7702, 7703, 7704, 7705, 7706,
    7707, 7708, 7709, 10814, 10815, 10816, 10817, 10818, 10819, 8360, 8361, 8362, 8363, 8364, 8365,
    10822, 10823, 10824, 10825, 10826, 10827, 10820, 8366, 10828, 10821, 8367, 10829, 10812, 8359,
    10813, 10774, 8342, 10791, 10780, 8348, 10797, 10777, 8345, 10794, 10783, 8351, 10800, 10775, 8343,
    10792, 10781, 8349, 10798, 10778, 8346, 10795, 10784, 8352, 10801, 10776, 8344, 10793, 10782, 8350,
    10799, 10779, 8347, 10796, 10785, 8353, 10802, 10803, 10804, 10805, 10806, 10787, 10788, 10789,
    10790, 8354, 8355, 8356, 8357, 10807, 10808, 10809, 10810, 10864, 8387, 10867, 10865, 8388, 10868,
    10766, 8338, 10770, 10767, 8339, 10771, 10768, 8340, 10772, 10831, 10832, 8370, 8371, 10848, 10849,
    10833, 8372, 10850, 10834, 8373, 10851, 10835, 10836, 8374, 8375, 10852, 10853, 8379, 10841, 8381,
    10858, 10842, 8382, 10859, 10843, 8383, 10860, 10844, 8384, 10861, 10845, 8385, 10862, 10846, 8386,
    10863, 12810, 12811, 12812, 12813, 12814, 12815, 12816, 12817, 12818, 12819, 12821, 12823, 12824,
    12825, 12826, 14707, 14708, 14709, 14710, 14711, 14712, 14713, 14714, 14715, 14788, 14789]"

definition is_maiden_entry :: "int \<Rightarrow> bool" where
  "is_maiden_entry i \<longleftrightarrow> i \<in> set [10814, 10815, 10816, 10817, 10818, 10819]"

definition is_maiden_regular :: "int \<Rightarrow> bool" where
  "is_maiden_regular i \<longleftrightarrow> i \<in> set [8360, 8361, 8362, 8363, 8364, 8365]"

definition is_maiden_hard :: "int \<Rightarrow> bool" where
  "is_maiden_hard i \<longleftrightarrow> i \<in> set [10822, 10823, 10824, 10825, 10826, 10827]"

definition is_maiden :: "int \<Rightarrow> bool" where
  "is_maiden i \<longleftrightarrow> is_maiden_entry i \<or> is_maiden_regular i \<or> is_maiden_hard i"

definition is_maiden_matomenos :: "int \<Rightarrow> bool" where
  "is_maiden_matomenos i \<longleftrightarrow> i \<in> set [10820, 8366, 10828]"

definition is_maiden_blood_spawn :: "int \<Rightarrow> bool" where
  "is_maiden_blood_spawn i \<longleftrightarrow> i \<in> set [10821, 8367, 10829]"

definition is_bloat :: "int \<Rightarrow> bool" where
  "is_bloat i \<longleftrightarrow> i \<in> set [10812, 8359, 10813]"

definition is_nylocas_ischyros_small :: "int \<Rightarrow> bool" where
  "is_nylocas_ischyros_small i \<longleftrightarrow> i \<in> set [10774, 8342, 10791, 10780, 8348, 10797]"

definition is_nylocas_ischyros_big :: "int \<Rightarrow> bool" where
  "is_nylocas_ischyros_big i \<longleftrightarrow> i \<in> set [10777, 8345, 10794, 10783, 8351, 10800]"

definition is_nylocas_ischyros :: "int \<Rightarrow> bool" where
  "is_nylocas_ischyros i \<longleftrightarrow> is_nylocas_ischyros_small i \<or> is_nylocas_ischyros_big i"

definition is_nylocas_toxobolos_small :: "int \<Rightarrow> bool" where
  "is_nylocas_toxobolos_small i \<longleftrightarrow> i \<in> set [10775, 8343, 10792, 10781, 8349, 10798]"

definition is_nylocas_toxobolos_big :: "int \<Rightarrow> bool" where
  "is_nylocas_toxobolos_big i \<longleftrightarrow> i \<in> set [10778, 8346, 10795, 10784, 8352, 10801]"

definition is_nylocas_toxobolos :: "int \<Rightarrow> bool" where
  "is_nylocas_toxobolos i \<longleftrightarrow> is_nylocas_toxobolos_small i \<or> is_nylocas_toxobolos_big i"

definition is_nylocas_hagios_small :: "int \<Rightarrow> bool" where
  "is_nylocas_hagios_small i \<longleftrightarrow> i \<in> set [10776, 8344, 10793, 10782, 8350, 10799]"

definition is_nylocas_hagios_big :: "int \<Rightarrow> bool" where
  "is_nylocas_hagios_big i \<longleftrightarrow> i \<in> set [10779, 8347, 10796, 10785, 8353, 10802]"

definition is_nylocas_hagios :: "int \<Rightarrow> bool" where
  "is_nylocas_hagios i \<longleftrightarrow> is_nylocas_hagios_small i \<or> is_nylocas_hagios_big i"

definition is_nylocas :: "int \<Rightarrow> bool" where
  "is_nylocas i \<longleftrightarrow> is_nylocas_ischyros i \<or> is_nylocas_toxobolos i \<or> is_nylocas_hagios i"

definition is_nylocas_prinkipas :: "int \<Rightarrow> bool" where
  "is_nylocas_prinkipas i \<longleftrightarrow> i \<in> set [10804, 10805, 10806]"

definition is_nylocas_vasilias_dropping :: "int \<Rightarrow> bool" where
  "is_nylocas_vasilias_dropping i \<longleftrightarrow> i \<in> set [10787, 8354, 10807]"

definition is_nylocas_vasilias_entry :: "int \<Rightarrow> bool" where
  "is_nylocas_vasilias_entry i \<longleftrightarrow> i \<in> set [10788, 10790, 10789]"

definition is_nylocas_vasilias_regular :: "int \<Rightarrow> bool" where
  "is_nylocas_vasilias_regular i \<longleftrightarrow> i \<in> set [8355, 8357, 8356]"

definition is_nylocas_vasilias_hard :: "int \<Rightarrow> bool" where
  "is_nylocas_vasilias_hard i \<longleftrightarrow> i \<in> set [10808, 10810, 10809]"

definition is_nylocas_vasilias :: "int \<Rightarrow> bool" where
  "is_nylocas_vasilias i \<longleftrightarrow> is_nylocas_vasilias_entry i \<or> is_nylocas_vasilias_regular i \<or> is_nylocas_vasilias_hard i"

definition is_sotetseg :: "int \<Rightarrow> bool" where
  "is_sotetseg i \<longleftrightarrow> i \<in> set [10864, 8387, 10867, 10865, 8388, 10868]"

definition is_xarpus_entry :: "int \<Rightarrow> bool" where
  "is_xarpus_entry i \<longleftrightarrow> i \<in> set [10766, 10767, 10768]"

definition is_xarpus_regular :: "int \<Rightarrow> bool" where
  "is_xarpus_regular i \<longleftrightarrow> i \<in> set [8338, 8339, 8340]"

definition is_xarpus_hard :: "int \<Rightarrow> bool" where
  "is_xarpus_hard i \<longleftrightarrow> i \<in> set [10770, 10771, 10772]"

definition is_xarpus :: "int \<Rightarrow> bool" where
  "is_xarpus i \<longleftrightarrow> is_xarpus_entry i \<or> is_xarpus_regular i \<or> is_xarpus_hard i"

definition is_verzik_pillar :: "int \<Rightarrow> bool" where
  "is_verzik_pillar i \<longleftrightarrow> i = 8379"

definition is_verzik_ischyros :: "int \<Rightarrow> bool" where
  "is_verzik_ischyros i \<longleftrightarrow> i \<in> set [10841, 8381, 10858]"

definition is_verzik_toxobolos :: "int \<Rightarrow> bool" where
  "is_verzik_toxobolos i \<longleftrightarrow> i \<in> set [10842, 8382, 10859]"

definition is_verzik_hagios :: "int \<Rightarrow> bool" where
  "is_verzik_hagios i \<longleftrightarrow> i \<in> set [10843, 8383, 10860]"

definition is_verzik_nylocas :: "int \<Rightarrow> bool" where
  "is_verzik_nylocas i \<longleftrightarrow> is_verzik_ischyros i \<or> is_verzik_toxobolos i \<or> is_verzik_hagios i"

definition is_verzik_athanatos :: "int \<Rightarrow> bool" where
  "is_verzik_athanatos i \<longleftrightarrow> i \<in> set [10844, 8384, 10861]"

definition is_verzik_matomenos :: "int \<Rightarrow> bool" where
  "is_verzik_matomenos i \<longleftrightarrow> i \<in> set [10845, 8385, 10862]"

definition is_jaguar_warrior :: "int \<Rightarrow> bool" where
  "is_jaguar_warrior i \<longleftrightarrow> i = 12810"

definition is_serpent_shaman :: "int \<Rightarrow> bool" where
  "is_serpent_shaman i \<longleftrightarrow> i = 12811"

definition is_minotaur :: "int \<Rightarrow> bool" where
  "is_minotaur i \<longleftrightarrow> i = 12812 \<or> i = 12813"

definition is_fremennik_archer :: "int \<Rightarrow> bool" where
  "is_fremennik_archer i \<longleftrightarrow> i = 12814"

definition is_fremennik_seer :: "int \<Rightarrow> bool" where
  "is_fremennik_seer i \<longleftrightarrow> i = 12815"

definition is_fremennik_berserker :: "int \<Rightarrow> bool" where
  "is_fremennik_berserker i \<longleftrightarrow> i = 12816"

definition is_fremennik :: "int \<Rightarrow> bool" where
  "is_fremennik i \<longleftrightarrow> is_fremennik_archer i \<or> is_fremennik_seer i \<or> is_fremennik_berserker i"

definition is_javelin_colossus :: "int \<Rightarrow> bool" where
  "is_javelin_colossus i \<longleftrightarrow> i = 12817"

definition is_manticore :: "int \<Rightarrow> bool" where
  "is_manticore i \<longleftrightarrow> i = 12818"

definition is_shockwave_colossus :: "int \<Rightarrow> bool" where
  "is_shockwave_colossus i \<longleftrightarrow> i = 12819"

definition is_sol_heredit :: "int \<Rightarrow> bool" where
  "is_sol_heredit i \<longleftrightarrow> i = 12821"

definition is_bee_swarm :: "int \<Rightarrow> bool" where
  "is_bee_swarm i \<longleftrightarrow> i = 12823"

definition is_laser_prism :: "int \<Rightarrow> bool" where
  "is_laser_prism i \<longleftrightarrow> i = 12824"

definition is_healing_totem :: "int \<Rightarrow> bool" where
  "is_healing_totem i \<longleftrightarrow> i = 12825"

definition is_solarflare :: "int \<Rightarrow> bool" where
  "is_solarflare i \<longleftrightarrow> i = 12826"

definition is_bloblet :: "int \<Rightarrow> bool" where
  "is_bloblet i \<longleftrightarrow> i \<in> set [7696, 7694, 7695]"

definition is_mokhaiotl :: "int \<Rightarrow> bool" where
  "is_mokhaiotl i \<longleftrightarrow> i \<in> set [14707, 14709]"

definition is_demonic_larva :: "int \<Rightarrow> bool" where
  "is_demonic_larva i \<longleftrightarrow> i \<in> set [14710, 14711, 14712, 14713]"

definition is_jal_zek :: "int \<Rightarrow> bool" where
  "is_jal_zek i \<longleftrightarrow> i = 7699"

definition is_rocky_support :: "int \<Rightarrow> bool" where
  "is_rocky_support i \<longleftrightarrow> i = 7709"

lemmas npc_class_defs = is_maiden_entry_def is_maiden_regular_def is_maiden_hard_def is_maiden_def is_maiden_matomenos_def
  is_maiden_blood_spawn_def is_bloat_def is_nylocas_ischyros_small_def is_nylocas_ischyros_big_def
  is_nylocas_ischyros_def is_nylocas_toxobolos_small_def is_nylocas_toxobolos_big_def
  is_nylocas_toxobolos_def is_nylocas_hagios_small_def is_nylocas_hagios_big_def is_nylocas_hagios_def
  is_nylocas_def is_nylocas_prinkipas_def is_nylocas_vasilias_dropping_def
  is_nylocas_vasilias_entry_def is_nylocas_vasilias_regular_def is_nylocas_vasilias_hard_def
  is_nylocas_vasilias_def is_sotetseg_def is_xarpus_entry_def is_xarpus_regular_def is_xarpus_hard_def
  is_xarpus_def is_verzik_pillar_def is_verzik_ischyros_def is_verzik_toxobolos_def
  is_verzik_hagios_def is_verzik_nylocas_def is_verzik_athanatos_def is_verzik_matomenos_def
  is_jaguar_warrior_def is_serpent_shaman_def is_minotaur_def is_fremennik_archer_def
  is_fremennik_seer_def is_fremennik_berserker_def is_fremennik_def is_javelin_colossus_def
  is_manticore_def is_shockwave_colossus_def is_sol_heredit_def is_bee_swarm_def is_laser_prism_def
  is_healing_totem_def is_solarflare_def is_bloblet_def is_mokhaiotl_def is_demonic_larva_def
  is_jal_zek_def is_rocky_support_def

subsection \<open>Classes\<close>

text \<open>The elementary classes, which the others unite.\<close>

definition npc_classes :: "int \<Rightarrow> bool list" where
  "npc_classes i = [is_maiden_entry i, is_maiden_regular i, is_maiden_hard i, is_maiden_matomenos i,
    is_maiden_blood_spawn i, is_bloat i, is_nylocas_ischyros_small i, is_nylocas_ischyros_big i,
    is_nylocas_toxobolos_small i, is_nylocas_toxobolos_big i, is_nylocas_hagios_small i,
    is_nylocas_hagios_big i, is_nylocas_prinkipas i, is_nylocas_vasilias_dropping i,
    is_nylocas_vasilias_entry i, is_nylocas_vasilias_regular i, is_nylocas_vasilias_hard i, is_sotetseg
    i, is_xarpus_entry i, is_xarpus_regular i, is_xarpus_hard i, is_verzik_p1 i, is_verzik_p2 i,
    is_verzik_p3_transition i, is_verzik_p3 i, is_verzik_pillar i, is_verzik_ischyros i,
    is_verzik_toxobolos i, is_verzik_hagios i, is_verzik_athanatos i, is_verzik_matomenos i,
    is_jaguar_warrior i, is_serpent_shaman i, is_minotaur i, is_fremennik_archer i, is_fremennik_seer i,
    is_fremennik_berserker i, is_javelin_colossus i, is_manticore i, is_shockwave_colossus i,
    is_sol_heredit i, is_bee_swarm i, is_laser_prism i, is_healing_totem i, is_solarflare i, is_bloblet
    i, is_mokhaiotl i, is_demonic_larva i, is_jal_zek i, is_rocky_support i]"

text \<open>Every class of NPCs contains only identifiers the enumeration lists, and no identifier is in two of the
  elementary classes.\<close>

theorem npc_classes_disjoint:
  "length (filter id (npc_classes i)) \<le> (if i \<in> set npc_ids then 1 else 0)"
proof (cases "i \<in> set npc_ids")
  case True
  have "list_all (\<lambda>i. length (filter id (npc_classes i)) \<le> 1) npc_ids" by code_simp
  with True show ?thesis by (simp add: list_all_iff)
next
  case False
  then have "\<forall>b \<in> set (npc_classes i). \<not> b"
    by (simp add: npc_classes_def npc_class_defs npc_ids_def is_verzik_p1_def is_verzik_p2_def is_verzik_p3_transition_def is_verzik_p3_def)
  with False show ?thesis by (simp add: filter_empty_conv)
qed

end
