(* ===== verification/Similarity.thy ===== *)
theory Similarity
  imports Reconcile Npc_Ids Complex_Main
begin

text \<open>
  The similarity of two ticks (\<^verbatim>\<open>challenge-server/merging/similarity-scorer.ts\<close>), which the alignment maximises.
  Scores are rationals; \<^const>\<open>None\<close> is the score of incompatible ticks, minus infinity in the code.
  The numbers of the visible equipment slots and of the attacks are generated and parameters, and so is the
  rounding of \<^verbatim>\<open>Math.exp\<close>, of which only its range on negative numbers matters here. The attacks of a tick
  are a list by actor; the code turns room identifiers into strings to compare them.
\<close>

subsection \<open>Parameters\<close>

record scorer =
  sr_numbers :: attack_numbers
  sr_slots :: "int list"
  sr_exp :: "rat \<Rightarrow> rat"
  sr_baseline :: rat

definition default_baseline_compatibility_weight :: rat where
  "default_baseline_compatibility_weight = 4"

definition clamp :: "rat \<Rightarrow> rat \<Rightarrow> rat \<Rightarrow> rat" where
  "clamp v lo hi = max lo (min v hi)"

record attack_scores =
  as_positive :: rat
  as_weak_positive :: rat
  as_weak_negative :: rat
  as_contradictory :: rat
  as_min :: rat
  as_max :: rat

definition player_attack_scores :: attack_scores where
  "player_attack_scores =
     \<lparr>as_positive = 2, as_weak_positive = 1 / 2, as_weak_negative = - 1 / 5, as_contradictory = -10, as_min = -20, as_max = 10\<rparr>"

definition npc_attack_scores :: attack_scores where
  "npc_attack_scores =
     \<lparr>as_positive = 4, as_weak_positive = 1, as_weak_negative = - 1 / 2, as_contradictory = -10, as_min = -10, as_max = 10\<rparr>"

subsection \<open>Compatibility\<close>

definition worn_item :: "player_state \<Rightarrow> int \<Rightarrow> int option" where
  "worn_item s slot = map_option it_id (ps_equipment s slot)"

definition same_player :: "int list \<Rightarrow> player_state \<Rightarrow> player_state \<Rightarrow> bool" where
  "same_player slots a b \<longleftrightarrow>
     ps_x a = ps_x b \<and> ps_y a = ps_y b \<and> list_all (\<lambda>slot. worn_item a slot = worn_item b slot) slots"

fun player_compatibility :: "int list \<Rightarrow> tick_state \<Rightarrow> (string \<times> player_state option) list \<Rightarrow> nat option" where
  "player_compatibility slots tb [] = Some 0"
| "player_compatibility slots tb ((p, so) # ps) =
     (case (so, get_player_state p tb) of
        (Some a, Some b) \<Rightarrow> if same_player slots a b then map_option Suc (player_compatibility slots tb ps) else None
      | _ \<Rightarrow> player_compatibility slots tb ps)"

definition same_npc :: "npc_state \<Rightarrow> npc_state \<Rightarrow> bool" where
  "same_npc a b \<longleftrightarrow> ns_id a = ns_id b \<and> ns_x a = ns_x b \<and> ns_y a = ns_y b"

fun npc_compatibility :: "tick_state \<Rightarrow> (int \<times> npc_state) list \<Rightarrow> nat option" where
  "npc_compatibility tb [] = Some 0"
| "npc_compatibility tb ((r, a) # ns) =
     (case get_npc_state r tb of
        Some b \<Rightarrow> if same_npc a b then map_option Suc (npc_compatibility tb ns) else None
      | None \<Rightarrow> npc_compatibility tb ns)"

definition check_for_compatibility :: "int list \<Rightarrow> tick_state \<Rightarrow> tick_state \<Rightarrow> nat option" where
  "check_for_compatibility slots ta tb =
     (case player_compatibility slots tb (ts_players ta) of
        None \<Rightarrow> None
      | Some p \<Rightarrow> map_option (\<lambda>n. p + n) (npc_compatibility tb (ts_npcs ta)))"

subsection \<open>Hitpoints\<close>

definition has_varbit_based_hitpoints :: "int \<Rightarrow> bool" where
  "has_varbit_based_hitpoints i \<longleftrightarrow>
     is_maiden i \<or> is_bloat i \<or> is_nylocas_vasilias i \<or> is_sotetseg i \<or> is_xarpus i \<or> is_verzik i"

definition hitpoints_scoring_constants :: "int \<Rightarrow> rat \<times> rat" where
  "hitpoints_scoring_constants i = (if has_varbit_based_hitpoints i then (10, 50) else (2, 5))"

definition normalize_hitpoints :: "npc_state \<Rightarrow> rat" where
  "normalize_hitpoints s =
     (let base = sk_base (ns_hitpoints s) in
      if base \<le> 0 then 0 else of_int (min (sk_current (ns_hitpoints s)) base) / of_int base)"

definition hitpoints_similarity :: "(rat \<Rightarrow> rat) \<Rightarrow> npc_state \<Rightarrow> npc_state \<Rightarrow> rat" where
  "hitpoints_similarity ex a b =
     (let (weight, k) = hitpoints_scoring_constants (ns_id a); delta = \<bar>normalize_hitpoints a - normalize_hitpoints b\<bar>
      in if delta > 2 / 5 then 0 else weight * ex (- k * delta * delta))"

definition score_npc_hitpoints :: "(rat \<Rightarrow> rat) \<Rightarrow> tick_state \<Rightarrow> tick_state \<Rightarrow> rat" where
  "score_npc_hitpoints ex ta tb =
     min (sum_list (map (\<lambda>(r, a). case get_npc_state r tb of None \<Rightarrow> 0 | Some b \<Rightarrow> hitpoints_similarity ex a b) (ts_npcs ta))) 10"

subsection \<open>Attacks\<close>

record 't attack_view =
  av_target :: "'t option"
  av_type :: int
  av_secondary :: "int option"

datatype attack_comparison = ATTACK_MATCH | AMBIGUOUS_PROJECTILE | ATTACK_MISMATCH

definition compare_attacks :: "attack_numbers \<Rightarrow> 't attack_view \<Rightarrow> 't attack_view \<Rightarrow> attack_comparison" where
  "compare_attacks an a b =
     (if av_secondary a \<noteq> av_secondary b then ATTACK_MISMATCH
      else if av_type a = av_type b then ATTACK_MATCH
      else if normalize_attack_type an (av_type a) = normalize_attack_type an (av_type b) then AMBIGUOUS_PROJECTILE
      else ATTACK_MISMATCH)"

definition player_attack_views :: "tick_state \<Rightarrow> (string \<times> int attack_view) list" where
  "player_attack_views ts =
     concat (map (\<lambda>(p, so). case so of None \<Rightarrow> [] | Some s \<Rightarrow>
       (case ps_attack s of None \<Rightarrow> [] | Some a \<Rightarrow>
         [(ps_username s, \<lparr>av_target = map_option (\<lambda>(i, r, c). r) (at_target a), av_type = at_type a,
            av_secondary = Some (at_weapon_id a)\<rparr>)])) (ts_players ts))"

definition npc_attack_views :: "tick_state \<Rightarrow> (int \<times> string attack_view) list" where
  "npc_attack_views ts =
     concat (map (\<lambda>(r, s). case ns_attack s of None \<Rightarrow> [] | Some a \<Rightarrow>
       [(r, \<lparr>av_target = nt_target a, av_type = nt_type a, av_secondary = None\<rparr>)]) (ts_npcs ts))"

definition attack_pair_score ::
    "attack_numbers \<Rightarrow> attack_scores \<Rightarrow> ('t \<Rightarrow> bool) \<Rightarrow> ('t \<Rightarrow> bool) \<Rightarrow> 't attack_view \<Rightarrow> 't attack_view \<Rightarrow> rat" where
  "attack_pair_score an sc target_in_a target_in_b a b =
     (case compare_attacks an a b of
        ATTACK_MISMATCH \<Rightarrow> as_contradictory sc
      | AMBIGUOUS_PROJECTILE \<Rightarrow>
          (if av_target a \<noteq> None \<and> av_target b \<noteq> None \<and> av_target a \<noteq> av_target b then as_contradictory sc else 0)
      | ATTACK_MATCH \<Rightarrow>
          (case (av_target a, av_target b) of
             (Some x, Some y) \<Rightarrow> if x = y then as_positive sc else as_contradictory sc
           | (Some x, None) \<Rightarrow> if target_in_b x then as_weak_negative sc else as_weak_positive sc
           | (None, Some y) \<Rightarrow> if target_in_a y then as_weak_negative sc else as_weak_positive sc
           | (None, None) \<Rightarrow> as_weak_positive sc))"

definition missing_score :: "attack_scores \<Rightarrow> ('a \<Rightarrow> bool) \<Rightarrow> ('a \<times> 't attack_view) list \<Rightarrow> ('a \<times> 't attack_view) list \<Rightarrow> rat" where
  "missing_score sc sees xs ys =
     sum_list (map (\<lambda>(p, a). if map_of ys p = None \<and> sees p then as_weak_negative sc else 0) xs)"

definition score_attacks ::
    "attack_numbers \<Rightarrow> attack_scores \<Rightarrow> ('a \<Rightarrow> bool) \<Rightarrow> ('a \<Rightarrow> bool) \<Rightarrow> ('t \<Rightarrow> bool) \<Rightarrow> ('t \<Rightarrow> bool) \<Rightarrow>
     ('a \<times> 't attack_view) list \<Rightarrow> ('a \<times> 't attack_view) list \<Rightarrow> rat" where
  "score_attacks an sc actor_in_a actor_in_b target_in_a target_in_b xs ys =
     (if xs = [] \<and> ys = [] then 0
      else clamp
        (sum_list (map (\<lambda>(p, a). case map_of ys p of None \<Rightarrow> 0 | Some b \<Rightarrow> attack_pair_score an sc target_in_a target_in_b a b) xs) +
         missing_score sc actor_in_b xs ys + missing_score sc actor_in_a ys xs) (as_min sc) (as_max sc))"

definition has_player :: "tick_state \<Rightarrow> string \<Rightarrow> bool" where
  "has_player ts p \<longleftrightarrow> get_player_state p ts \<noteq> None"

definition has_npc :: "tick_state \<Rightarrow> int \<Rightarrow> bool" where
  "has_npc ts r \<longleftrightarrow> get_npc_state r ts \<noteq> None"

definition score_player_attacks :: "attack_numbers \<Rightarrow> tick_state \<Rightarrow> tick_state \<Rightarrow> rat" where
  "score_player_attacks an ta tb =
     score_attacks an player_attack_scores (has_player ta) (has_player tb) (has_npc ta) (has_npc tb)
       (player_attack_views ta) (player_attack_views tb)"

definition score_npc_attacks :: "attack_numbers \<Rightarrow> tick_state \<Rightarrow> tick_state \<Rightarrow> rat" where
  "score_npc_attacks an ta tb =
     score_attacks an npc_attack_scores (has_npc ta) (has_npc tb) (has_player ta) (has_player tb)
       (npc_attack_views ta) (npc_attack_views tb)"

subsection \<open>Prayers and deaths\<close>

definition prayer_similarity :: "player_state \<Rightarrow> player_state \<Rightarrow> rat" where
  "prayer_similarity a b =
     (let x = overheads (ps_prayers a); y = overheads (ps_prayers b)
      in if prayers_is_empty x \<and> prayers_is_empty y then 0 else if x = y then 1 else -1)"

definition score_prayers :: "tick_state \<Rightarrow> tick_state \<Rightarrow> rat" where
  "score_prayers ta tb =
     clamp (sum_list (map (\<lambda>(p, so). case (so, get_player_state p tb) of (Some a, Some b) \<Rightarrow> prayer_similarity a b | _ \<Rightarrow> 0)
       (ts_players ta))) (-5) 5"

definition player_died :: "string \<Rightarrow> tick_state \<Rightarrow> bool" where
  "player_died p ts \<longleftrightarrow> list_ex (\<lambda>e. map_option pm_name (ev_player e) = Some p) (get_events_by_type PLAYER_DEATH ts)"

definition npc_died :: "int \<Rightarrow> tick_state \<Rightarrow> bool" where
  "npc_died r ts \<longleftrightarrow> list_ex (\<lambda>e. map_option nm_room_id (ev_npc e) = Some r) (get_events_by_type NPC_DEATH ts)"

definition score_deaths :: "tick_state \<Rightarrow> tick_state \<Rightarrow> rat" where
  "score_deaths ta tb =
     clamp
       (sum_list (map (\<lambda>(p, so). case (so, get_player_state p tb) of
            (Some a, Some b) \<Rightarrow> if player_died p ta \<and> player_died p tb then 1 / 2 else 0 | _ \<Rightarrow> 0) (ts_players ta)) +
        sum_list (map (\<lambda>(r, a). case get_npc_state r tb of
            None \<Rightarrow> 0
          | Some b \<Rightarrow> if \<not> npc_died r ta \<and> \<not> npc_died r tb then 0 else if npc_died r ta \<and> npc_died r tb then 1 else -1)
          (ts_npcs ta))) (-3) 3"

subsection \<open>The score\<close>

definition similarity :: "scorer \<Rightarrow> tick_state \<Rightarrow> tick_state \<Rightarrow> rat option" where
  "similarity sr ta tb =
     map_option (\<lambda>count.
         (if count > 0 then sr_baseline sr else 0) +
         score_npc_hitpoints (sr_exp sr) ta tb * (3 / 20) +
         (score_player_attacks (sr_numbers sr) ta tb + score_npc_attacks (sr_numbers sr) ta tb) * (1 / 2) +
         score_prayers ta tb * (1 / 5) + score_deaths ta tb * (1 / 10))
       (check_for_compatibility (sr_slots sr) ta tb)"

subsection \<open>Sums over the actors of both ticks\<close>

definition shared_sum :: "('k \<Rightarrow> 'v \<Rightarrow> 'w \<Rightarrow> 'n::comm_monoid_add) \<Rightarrow> ('k \<times> 'v) list \<Rightarrow> ('k \<times> 'w) list \<Rightarrow> 'n" where
  "shared_sum f xs ys = sum_list (map (\<lambda>(k, a). case map_of ys k of None \<Rightarrow> 0 | Some b \<Rightarrow> f k a b) xs)"

lemma sum_list_keys:
  "distinct (map fst xs) \<Longrightarrow> sum_list (map (\<lambda>(k, a). h k a) xs) = (\<Sum>k\<in>fst ` set xs. h k (the (map_of xs k)))"
proof (induction xs)
  case (Cons x xs)
  obtain k a where x: "x = (k, a)" by (cases x)
  have k: "k \<notin> fst ` set xs" using Cons.prems x by auto
  have "(\<Sum>j\<in>fst ` set xs. h j (the (map_of xs j))) = (\<Sum>j\<in>fst ` set xs. h j (the (map_of (x # xs) j)))"
    using k x by (intro sum.cong) auto
  then show ?case using Cons k x by simp
qed simp

lemma shared_sum_dom:
  assumes "distinct (map fst xs)"
  shows "shared_sum f xs ys = (\<Sum>k\<in>fst ` set xs \<inter> fst ` set ys. f k (the (map_of xs k)) (the (map_of ys k)))"
proof -
  have "shared_sum f xs ys =
      (\<Sum>k\<in>fst ` set xs. case map_of ys k of None \<Rightarrow> 0 | Some b \<Rightarrow> f k (the (map_of xs k)) b)"
    unfolding shared_sum_def by (rule sum_list_keys [OF assms])
  also have "\<dots> = (\<Sum>k\<in>fst ` set xs \<inter> fst ` set ys. case map_of ys k of None \<Rightarrow> 0 | Some b \<Rightarrow> f k (the (map_of xs k)) b)"
    by (rule sum.mono_neutral_right) (auto simp: map_of_eq_None_iff split: option.splits dest: map_of_SomeD intro: rev_image_eqI)
  also have "\<dots> = (\<Sum>k\<in>fst ` set xs \<inter> fst ` set ys. f k (the (map_of xs k)) (the (map_of ys k)))"
    by (rule sum.cong) (auto split: option.splits simp: map_of_eq_None_iff intro: rev_image_eqI)
  finally show ?thesis .
qed

lemma shared_sum_swap:
  assumes "distinct (map fst xs)" and "distinct (map fst ys)"
    and "\<And>k a b. map_of xs k = Some a \<Longrightarrow> map_of ys k = Some b \<Longrightarrow> f k a b = g k b a"
  shows "shared_sum f xs ys = shared_sum g ys xs"
  unfolding shared_sum_dom [OF assms(1)] shared_sum_dom [OF assms(2)]
proof (rule sum.cong)
  show "fst ` set xs \<inter> fst ` set ys = fst ` set ys \<inter> fst ` set xs" by blast
  fix k assume "k \<in> fst ` set ys \<inter> fst ` set xs"
  then obtain a b where "map_of xs k = Some a" and "map_of ys k = Some b"
    by (meson IntE map_of_eq_None_iff not_None_eq)
  then show "f k (the (map_of xs k)) (the (map_of ys k)) = g k (the (map_of ys k)) (the (map_of xs k))"
    using assms(3) by simp
qed

lemma shared_sum_bounds:
  fixes f :: "'k \<Rightarrow> 'v \<Rightarrow> 'w \<Rightarrow> rat"
  assumes "\<And>k a b. 0 \<le> f k a b"
  shows "0 \<le> shared_sum f xs ys"
  unfolding shared_sum_def by (rule sum_list_nonneg) (auto simp: assms split: option.splits)

subsection \<open>Symmetry\<close>

definition keyed_tick :: "tick_state \<Rightarrow> bool" where
  "keyed_tick ts \<longleftrightarrow> distinct (map fst (ts_players ts)) \<and> distinct (map fst (ts_npcs ts)) \<and>
     list_all (\<lambda>(p, so). case so of None \<Rightarrow> True | Some s \<Rightarrow> ps_username s = p) (ts_players ts)"

definition of_both :: "('p \<Rightarrow> 'p \<Rightarrow> 'n) \<Rightarrow> 'p option \<Rightarrow> 'p option \<Rightarrow> 'n::zero" where
  "of_both f x y = (case (x, y) of (Some a, Some b) \<Rightarrow> f a b | _ \<Rightarrow> 0)"

lemma case_player_state:
  "(case (so, get_player_state p tb) of (Some a, Some b) \<Rightarrow> f a b | _ \<Rightarrow> 0) =
     (case map_of (ts_players tb) p of None \<Rightarrow> 0 | Some so' \<Rightarrow> of_both f so so')"
  by (auto simp: get_player_state_def of_both_def split: option.splits)

lemma player_compatibility_sum:
  "player_compatibility slots tb ps =
     (if \<forall>(p, so) \<in> set ps. \<forall>a b. so = Some a \<longrightarrow> get_player_state p tb = Some b \<longrightarrow> same_player slots a b
      then Some (shared_sum (\<lambda>k. of_both (\<lambda>a b. 1)) ps (ts_players tb)) else None)"
proof (induction ps)
  case (Cons x ps)
  obtain p so where x: "x = (p, so)" by (cases x)
  have step: "shared_sum (\<lambda>k. of_both (\<lambda>a b. 1)) ((p, so) # ps) (ts_players tb) =
      (case (so, get_player_state p tb) of (Some a, Some b) \<Rightarrow> 1 | _ \<Rightarrow> 0) +
      (shared_sum (\<lambda>k. of_both (\<lambda>a b. 1)) ps (ts_players tb) :: nat)"
    unfolding case_player_state by (simp add: shared_sum_def del: One_nat_def)
  show ?case unfolding x step using Cons by (auto split: option.splits)
qed (simp add: shared_sum_def)

lemma npc_compatibility_sum:
  "npc_compatibility tb ns =
     (if \<forall>(r, a) \<in> set ns. \<forall>b. get_npc_state r tb = Some b \<longrightarrow> same_npc a b
      then Some (shared_sum (\<lambda>k a b. 1) ns (ts_npcs tb)) else None)"
proof (induction ns)
  case (Cons x ns)
  obtain r a where x: "x = (r, a)" by (cases x)
  have step: "shared_sum (\<lambda>k a b. 1) ((r, a) # ns) (ts_npcs tb) =
      (case get_npc_state r tb of None \<Rightarrow> 0 | Some b \<Rightarrow> 1) + (shared_sum (\<lambda>k a b. 1) ns (ts_npcs tb) :: nat)"
    by (simp add: shared_sum_def get_npc_state_def del: One_nat_def)
  show ?case unfolding x step using Cons by (auto split: option.splits)
qed (simp add: shared_sum_def)

lemma same_player_sym: "same_player slots a b \<Longrightarrow> same_player slots b a"
  by (auto simp: same_player_def list_all_iff)

lemma same_npc_sym: "same_npc a b \<Longrightarrow> same_npc b a"
  by (auto simp: same_npc_def)

lemma get_player_state_mem:
  "distinct (map fst (ts_players t)) \<Longrightarrow> get_player_state p t = Some a \<longleftrightarrow> (p, Some a) \<in> set (ts_players t)"
proof -
  have "get_player_state p t = Some a \<longleftrightarrow> map_of (ts_players t) p = Some (Some a)"
    by (auto simp: get_player_state_def split: option.splits)
  then show "distinct (map fst (ts_players t)) \<Longrightarrow> ?thesis" by simp
qed

lemma get_npc_state_mem:
  "distinct (map fst (ts_npcs t)) \<Longrightarrow> get_npc_state r t = Some a \<longleftrightarrow> (r, a) \<in> set (ts_npcs t)"
  by (simp add: get_npc_state_def map_of_eq_Some_iff)

definition ticks_compatible :: "int list \<Rightarrow> tick_state \<Rightarrow> tick_state \<Rightarrow> bool" where
  "ticks_compatible slots ta tb \<longleftrightarrow>
     (\<forall>p a b. get_player_state p ta = Some a \<longrightarrow> get_player_state p tb = Some b \<longrightarrow> same_player slots a b) \<and>
     (\<forall>r a b. get_npc_state r ta = Some a \<longrightarrow> get_npc_state r tb = Some b \<longrightarrow> same_npc a b)"

definition shared_actors :: "tick_state \<Rightarrow> tick_state \<Rightarrow> nat" where
  "shared_actors ta tb =
     shared_sum (\<lambda>k. of_both (\<lambda>a b. 1)) (ts_players ta) (ts_players tb) + shared_sum (\<lambda>k a b. 1) (ts_npcs ta) (ts_npcs tb)"

lemma check_for_compatibility_eq:
  assumes "keyed_tick ta"
  shows "check_for_compatibility slots ta tb = (if ticks_compatible slots ta tb then Some (shared_actors ta tb) else None)"
proof -
  have d: "distinct (map fst (ts_players ta))" "distinct (map fst (ts_npcs ta))" using assms by (simp_all add: keyed_tick_def)
  have "(\<forall>(p, so) \<in> set (ts_players ta). \<forall>a b. so = Some a \<longrightarrow> get_player_state p tb = Some b \<longrightarrow> same_player slots a b) \<longleftrightarrow>
      (\<forall>p a b. get_player_state p ta = Some a \<longrightarrow> get_player_state p tb = Some b \<longrightarrow> same_player slots a b)"
    unfolding get_player_state_mem [OF d(1)] by blast
  moreover have "(\<forall>(r, a) \<in> set (ts_npcs ta). \<forall>b. get_npc_state r tb = Some b \<longrightarrow> same_npc a b) \<longleftrightarrow>
      (\<forall>r a b. get_npc_state r ta = Some a \<longrightarrow> get_npc_state r tb = Some b \<longrightarrow> same_npc a b)"
    unfolding get_npc_state_mem [OF d(2)] by blast
  ultimately show ?thesis
    by (simp add: check_for_compatibility_def player_compatibility_sum npc_compatibility_sum ticks_compatible_def shared_actors_def)
qed

lemma ticks_compatible_sym: "ticks_compatible slots ta tb = ticks_compatible slots tb ta"
  unfolding ticks_compatible_def by (blast intro: same_player_sym same_npc_sym)

lemma of_both_swap: "(\<And>a b. f a b = g b a) \<Longrightarrow> of_both f x y = of_both g y x"
  by (auto simp: of_both_def split: option.splits)

lemma shared_actors_sym: "keyed_tick ta \<Longrightarrow> keyed_tick tb \<Longrightarrow> shared_actors ta tb = shared_actors tb ta"
  unfolding shared_actors_def keyed_tick_def
  by (intro arg_cong2 [where f = "(+)"] shared_sum_swap of_both_swap) auto

lemma attack_pair_score_sym: "attack_pair_score an sc va vb a b = attack_pair_score an sc vb va b a"
  by (auto simp: attack_pair_score_def compare_attacks_def split: option.splits attack_comparison.splits)

lemma score_attacks_sym:
  assumes "distinct (map fst xs)" and "distinct (map fst ys)"
  shows "score_attacks an sc aa ab va vb xs ys = score_attacks an sc ab aa vb va ys xs"
proof -
  have "shared_sum (\<lambda>k. attack_pair_score an sc va vb) xs ys = shared_sum (\<lambda>k. attack_pair_score an sc vb va) ys xs"
    by (intro shared_sum_swap assms attack_pair_score_sym)
  then show ?thesis by (auto simp: score_attacks_def shared_sum_def add.commute add.left_commute cong: option.case_cong)
qed

lemma keys_concat_singletons:
  assumes "\<And>k v. (k, v) \<in> set xs \<Longrightarrow> map fst (f (k, v)) = [] \<or> map fst (f (k, v)) = [k]" and "distinct (map fst xs)"
  shows "distinct (map fst (concat (map f xs))) \<and> set (map fst (concat (map f xs))) \<subseteq> fst ` set xs"
  using assms
proof (induction xs)
  case (Cons x xs)
  obtain k v where x: "x = (k, v)" by (cases x)
  have "map fst (f x) = [] \<or> map fst (f x) = [k]" using Cons.prems(1) x by simp
  moreover have "distinct (map fst (concat (map f xs))) \<and> set (map fst (concat (map f xs))) \<subseteq> fst ` set xs"
    using Cons by simp
  moreover have "k \<notin> fst ` set xs" using Cons.prems(2) x by simp
  ultimately show ?case using x by (auto simp: map_eq_Cons_conv simp del: set_map)
qed simp

lemma distinct_player_views: "keyed_tick t \<Longrightarrow> distinct (map fst (player_attack_views t))"
  unfolding player_attack_views_def
  by (rule keys_concat_singletons [THEN conjunct1])
    (auto simp: keyed_tick_def list_all_iff split: option.splits)

lemma distinct_npc_views: "keyed_tick t \<Longrightarrow> distinct (map fst (npc_attack_views t))"
  unfolding npc_attack_views_def
  by (rule keys_concat_singletons [THEN conjunct1]) (auto simp: keyed_tick_def split: option.splits)

lemma normalized_swap: "\<bar>normalize_hitpoints a - normalize_hitpoints b\<bar> = \<bar>normalize_hitpoints b - normalize_hitpoints a\<bar>"
  by (rule abs_minus_commute)

lemma hitpoints_similarity_sym: "ns_id a = ns_id b \<Longrightarrow> hitpoints_similarity ex a b = hitpoints_similarity ex b a"
  unfolding hitpoints_similarity_def by (simp only: normalized_swap [of a b])

lemma score_npc_hitpoints_sym:
  assumes "keyed_tick ta" and "keyed_tick tb" and "ticks_compatible slots ta tb"
  shows "score_npc_hitpoints ex ta tb = score_npc_hitpoints ex tb ta"
proof -
  have "shared_sum (\<lambda>r. hitpoints_similarity ex) (ts_npcs ta) (ts_npcs tb) =
      shared_sum (\<lambda>r. hitpoints_similarity ex) (ts_npcs tb) (ts_npcs ta)"
    using assms by (intro shared_sum_swap hitpoints_similarity_sym)
      (auto simp: keyed_tick_def ticks_compatible_def get_npc_state_def same_npc_def)
  then show ?thesis by (simp add: score_npc_hitpoints_def shared_sum_def get_npc_state_def)
qed

lemma prayer_similarity_sym: "prayer_similarity a b = prayer_similarity b a"
  by (auto simp: prayer_similarity_def Let_def)

lemma score_prayers_sym:
  assumes "keyed_tick ta" and "keyed_tick tb"
  shows "score_prayers ta tb = score_prayers tb ta"
proof -
  have "shared_sum (\<lambda>p. of_both prayer_similarity) (ts_players ta) (ts_players tb) =
      shared_sum (\<lambda>p. of_both prayer_similarity) (ts_players tb) (ts_players ta)"
    using assms by (intro shared_sum_swap of_both_swap prayer_similarity_sym) (auto simp: keyed_tick_def)
  then show ?thesis unfolding score_prayers_def case_player_state by (simp only: shared_sum_def)
qed

definition npc_death_score :: "tick_state \<Rightarrow> tick_state \<Rightarrow> int \<Rightarrow> rat" where
  "npc_death_score ta tb r = (if \<not> npc_died r ta \<and> \<not> npc_died r tb then 0 else if npc_died r ta \<and> npc_died r tb then 1 else -1)"

definition player_death_score :: "tick_state \<Rightarrow> tick_state \<Rightarrow> string \<Rightarrow> rat" where
  "player_death_score ta tb p = (if player_died p ta \<and> player_died p tb then 1 / 2 else 0)"

lemma score_deaths_sums:
  "score_deaths ta tb = clamp (shared_sum (\<lambda>p. of_both (\<lambda>a b. player_death_score ta tb p)) (ts_players ta) (ts_players tb) +
     shared_sum (\<lambda>r a b. npc_death_score ta tb r) (ts_npcs ta) (ts_npcs tb)) (-3) 3"
  unfolding score_deaths_def case_player_state
  by (simp add: shared_sum_def player_death_score_def npc_death_score_def get_npc_state_def cong: option.case_cong)

lemma score_deaths_sym:
  assumes "keyed_tick ta" and "keyed_tick tb"
  shows "score_deaths ta tb = score_deaths tb ta"
proof -
  have "shared_sum (\<lambda>p. of_both (\<lambda>a b. player_death_score ta tb p)) (ts_players ta) (ts_players tb) =
      shared_sum (\<lambda>p. of_both (\<lambda>a b. player_death_score tb ta p)) (ts_players tb) (ts_players ta)"
    using assms by (intro shared_sum_swap of_both_swap) (auto simp: keyed_tick_def player_death_score_def)
  moreover have "shared_sum (\<lambda>r a b. npc_death_score ta tb r) (ts_npcs ta) (ts_npcs tb) =
      shared_sum (\<lambda>r a b. npc_death_score tb ta r) (ts_npcs tb) (ts_npcs ta)"
    using assms by (intro shared_sum_swap) (auto simp: keyed_tick_def npc_death_score_def)
  ultimately show ?thesis by (simp add: score_deaths_sums)
qed

lemma clamp_bounds: "lo \<le> hi \<Longrightarrow> lo \<le> clamp v lo hi \<and> clamp v lo hi \<le> hi"
  by (auto simp: clamp_def)

lemma hitpoints_similarity_nonneg: "(\<And>x. 0 \<le> ex x) \<Longrightarrow> 0 \<le> hitpoints_similarity ex a b"
  by (auto simp: hitpoints_similarity_def hitpoints_scoring_constants_def Let_def)

lemma score_npc_hitpoints_bounds:
  assumes "\<And>x. 0 \<le> ex x"
  shows "0 \<le> score_npc_hitpoints ex ta tb \<and> score_npc_hitpoints ex ta tb \<le> 10"
proof -
  have "0 \<le> shared_sum (\<lambda>r. hitpoints_similarity ex) (ts_npcs ta) (ts_npcs tb)"
    by (intro shared_sum_bounds hitpoints_similarity_nonneg assms)
  then show ?thesis by (simp add: score_npc_hitpoints_def shared_sum_def get_npc_state_def)
qed

lemma score_attacks_bounds:
  "as_min sc \<le> 0 \<Longrightarrow> 0 \<le> as_max sc \<Longrightarrow>
     as_min sc \<le> score_attacks an sc aa ab va vb xs ys \<and> score_attacks an sc aa ab va vb xs ys \<le> as_max sc"
  by (simp add: score_attacks_def clamp_bounds)

lemma score_component_bounds:
  "-20 \<le> score_player_attacks an ta tb \<and> score_player_attacks an ta tb \<le> 10"
  "-10 \<le> score_npc_attacks an ta tb \<and> score_npc_attacks an ta tb \<le> 10"
  "-5 \<le> score_prayers ta tb \<and> score_prayers ta tb \<le> 5"
  "-3 \<le> score_deaths ta tb \<and> score_deaths ta tb \<le> 3"
  using score_attacks_bounds [of player_attack_scores] score_attacks_bounds [of npc_attack_scores]
  by (simp_all add: score_player_attacks_def score_npc_attacks_def player_attack_scores_def npc_attack_scores_def
    score_prayers_def score_deaths_def clamp_bounds)

text \<open>The similarity score is symmetric: scoring tick A against tick B gives what scoring B against A gives, and
  each is minus infinity when the other is. The alignment may therefore score its base and target in either
  order, although every loop of the scorer runs over the actors of its first argument.
\<close>

theorem similarity_symmetric:
  assumes "keyed_tick ta" and "keyed_tick tb"
  shows "similarity sr ta tb = similarity sr tb ta"
proof (cases "ticks_compatible (sr_slots sr) ta tb")
  case False
  then show ?thesis
    using ticks_compatible_sym [of "sr_slots sr" ta tb] by (simp add: similarity_def check_for_compatibility_eq assms)
next
  case True
  have c: "check_for_compatibility (sr_slots sr) ta tb = check_for_compatibility (sr_slots sr) tb ta"
    using ticks_compatible_sym [of "sr_slots sr" ta tb] by (simp add: check_for_compatibility_eq assms shared_actors_sym)
  have h: "score_npc_hitpoints ex ta tb = score_npc_hitpoints ex tb ta" for ex
    by (rule score_npc_hitpoints_sym) (use assms True in auto)
  have "score_player_attacks an ta tb = score_player_attacks an tb ta" for an
    unfolding score_player_attacks_def by (rule score_attacks_sym) (simp_all add: distinct_player_views assms)
  moreover have "score_npc_attacks an ta tb = score_npc_attacks an tb ta" for an
    unfolding score_npc_attacks_def by (rule score_attacks_sym) (simp_all add: distinct_npc_views assms)
  ultimately show ?thesis
    unfolding similarity_def c h
    by (simp add: score_prayers_sym [OF assms] score_deaths_sym [OF assms])
qed

lemma weighted_bounds:
  fixes h p n r d v :: rat
  assumes "0 \<le> h \<and> h \<le> 10" and "-20 \<le> p \<and> p \<le> 10" and "-10 \<le> n \<and> n \<le> 10" and "-5 \<le> r \<and> r \<le> 5" and "-3 \<le> d \<and> d \<le> 3"
    and "0 \<le> v" and "v \<le> w"
  shows "- 163 / 10 \<le> v + h * (3 / 20) + (p + n) * (1 / 2) + r * (1 / 5) + d * (1 / 10) \<and>
    v + h * (3 / 20) + (p + n) * (1 / 2) + r * (1 / 5) + d * (1 / 10) \<le> w + 128 / 10"
  using assms by (simp add: field_simps)

text \<open>Two ticks score minus infinity exactly when some player or NPC visible in both stands elsewhere, wears other
  visible gear or has another NPC id; otherwise the score lies between -16.3 and the baseline weight plus 12.8,
  whatever the attacks, prayers and deaths of the tick are, so no single component can outweigh the alignment's
  other costs without bound.
\<close>

theorem similarity_bounded:
  assumes "keyed_tick ta" and "\<And>x. 0 \<le> sr_exp sr x" and "0 \<le> sr_baseline sr"
  shows "(similarity sr ta tb = None \<longleftrightarrow> \<not> ticks_compatible (sr_slots sr) ta tb) \<and>
    (\<forall>s. similarity sr ta tb = Some s \<longrightarrow> - 163 / 10 \<le> s \<and> s \<le> sr_baseline sr + 128 / 10)"
proof -
  define v where "v = (if shared_actors ta tb > 0 then sr_baseline sr else 0)"
  have "0 \<le> v" "v \<le> sr_baseline sr" using assms(3) by (auto simp: v_def)
  note b = weighted_bounds [OF score_npc_hitpoints_bounds [of "sr_exp sr" ta tb, OF assms(2)]
    score_component_bounds(1,2) [of "sr_numbers sr" ta tb] score_component_bounds(3,4) [of ta tb] this]
  show ?thesis
    unfolding similarity_def check_for_compatibility_eq [OF assms(1)] using b by (auto simp only: v_def split: if_splits)
qed

subsection \<open>Witnesses\<close>

definition sample_scorer :: scorer where
  "sample_scorer = \<lparr>sr_numbers = sample_numbers, sr_slots = [0, 3], sr_exp = (\<lambda>x. if x = 0 then 1 else 1 / 2),
     sr_baseline = default_baseline_compatibility_weight\<rparr>"

lemma sample_attacked_keyed: "keyed_tick (sample_attacked t a b c)"
  by (simp add: keyed_tick_def sample_attacked_def sample_tick_def sample_state_def new_tick_state_def)

theorem similarity_symmetric_witness:
  "similarity sample_scorer (sample_attacked 0 1 1 5) (sample_attacked 0 1 1 6) =
     similarity sample_scorer (sample_attacked 0 1 1 6) (sample_attacked 0 1 1 5) \<and>
   similarity sample_scorer (sample_attacked 0 1 1 5) (sample_attacked 0 1 1 6) = Some (-1)"
proof
  show "similarity sample_scorer (sample_attacked 0 1 1 5) (sample_attacked 0 1 1 6) =
      similarity sample_scorer (sample_attacked 0 1 1 6) (sample_attacked 0 1 1 5)"
    by (rule similarity_symmetric) (rule sample_attacked_keyed)+
  show "similarity sample_scorer (sample_attacked 0 1 1 5) (sample_attacked 0 1 1 6) = Some (-1)"
    by code_simp
qed

theorem similarity_bounded_witness:
  "similarity sample_scorer (sample_attacked 0 1 1 5) (sample_attacked 0 1 1 5) = Some 5 \<and>
   (5 :: rat) \<le> sr_baseline sample_scorer + 128 / 10"
proof -
  have v: "similarity sample_scorer (sample_attacked 0 1 1 5) (sample_attacked 0 1 1 5) = Some 5" by code_simp
  have "0 \<le> sr_exp sample_scorer x" "0 \<le> sr_baseline sample_scorer" for x
    by (simp_all add: sample_scorer_def default_baseline_compatibility_weight_def)
  from similarity_bounded [OF sample_attacked_keyed this, of 0 1 1 5 "sample_attacked 0 1 1 5"] v
  show ?thesis by blast
qed

end
