(* ===== verification/Merge_Consistency.thy ===== *)
theory Merge_Consistency
  imports Reconcile
begin

text \<open>
  The consistency check of a merged timeline (\<^verbatim>\<open>challenge-server/merging/merge-consistency.ts\<close>). Every check
  collects the issues it finds; the check throws, which is \<^const>\<open>None\<close>, where an event lacks the sub-message
  a non-null assertion claims. The cooldowns of attacks are generated data and a parameter.
\<close>

subsection \<open>Issues\<close>

record attack_occurrence =
  ao_tick :: int
  ao_type :: int

record phase_occurrence =
  ph_type :: event_type
  ph_key :: string
  ph_tick :: int

datatype actor_kind = Player_Actor | Npc_Actor

datatype merge_issue =
    Duplicate_Player_Death string "int list"
  | Duplicate_Npc_Spawn int "(int \<times> int) list"
  | Duplicate_Npc_Death int "(int \<times> int) list"
  | Duplicate_Stream_Event event_type string "int list"
  | Weapon_Cooldown_Violation string attack_occurrence attack_occurrence int
  | Death_Before_Spawn int int "int option"
  | Phase_Out_Of_Order phase_occurrence phase_occurrence
  | Attack_Target_Missing int actor_kind string actor_kind string
  | Exclusive_Event_Violation event_type event_type int

datatype rejection_reason = POST_MERGE_CONSISTENCY | LOW_MERGE_CONFIDENCE

record step_rejection =
  rj_reason :: rejection_reason
  rj_issues :: "merge_issue list"

subsection \<open>Rules of the stages\<close>

record ordering_rule =
  or_types :: "event_type set"
  or_ordinal :: "event \<Rightarrow> int option"

definition ordering_rules :: "stage \<Rightarrow> ordering_rule list" where
  "ordering_rules stage =
     (case stage of
        TOB_XARPUS \<Rightarrow> [\<lparr>or_types = {TOB_XARPUS_PHASE}, or_ordinal = (\<lambda>e. Some (ev_phase e))\<rparr>]
      | TOB_VERZIK \<Rightarrow> [\<lparr>or_types = {TOB_VERZIK_PHASE}, or_ordinal = (\<lambda>e. Some (ev_phase e))\<rparr>]
      | TOB_NYLOCAS \<Rightarrow> [\<lparr>or_types = {TOB_NYLO_WAVE_SPAWN}, or_ordinal = ev_nylo_wave\<rparr>]
      | TOB_SOTETSEG \<Rightarrow> [\<lparr>or_types = {TOB_SOTE_MAZE_PROC, TOB_SOTE_MAZE_END},
          or_ordinal = (\<lambda>e. map_option (\<lambda>s. so_maze s * 2 + (if ev_type e = TOB_SOTE_MAZE_END then 1 else 0)) (ev_sote e))\<rparr>]
      | _ \<Rightarrow> [])"

definition exclusive_event_pairs :: "stage \<Rightarrow> (event_type \<times> event_type) list" where
  "exclusive_event_pairs stage = (if stage = TOB_BLOAT then [(TOB_BLOAT_DOWN, TOB_BLOAT_UP)] else [])"

subsection \<open>Maps of arrays\<close>

text \<open>\<^verbatim>\<open>const xs = m.get(k) ?? []; xs.push(v); m.set(k, xs)\<close> and its variant with a map of maps.\<close>

definition update_group :: "('v \<Rightarrow> 'g list \<Rightarrow> 'g list) \<Rightarrow> 'k \<times> 'v \<Rightarrow> ('k, 'g list) omap \<Rightarrow> ('k, 'g list) omap" where
  "update_group f kv m = AList.update (fst kv) (f (snd kv) (case map_of m (fst kv) of None \<Rightarrow> [] | Some xs \<Rightarrow> xs)) m"

definition push_group :: "'k \<times> 'v \<Rightarrow> ('k, 'v list) omap \<Rightarrow> ('k, 'v list) omap" where
  "push_group = update_group (\<lambda>v xs. xs @ [v])"

definition collect :: "('k \<times> 'v) list \<Rightarrow> ('k, 'v list) omap" where
  "collect kvs = fold push_group kvs []"

subsection \<open>Actor lifecycles\<close>

definition present :: "tick_state option list \<Rightarrow> tick_state list" where
  "present ticks = List.map_filter id ticks"

definition player_deaths_at :: "tick_state \<Rightarrow> (string \<times> int) list option" where
  "player_deaths_at ts =
     those (map (\<lambda>e. map_option (\<lambda>p. (pm_name p, ts_tick ts)) (ev_player e)) (get_events_by_type PLAYER_DEATH ts))"

definition npc_occurrences_at :: "event_type \<Rightarrow> tick_state \<Rightarrow> (int \<times> int \<times> int) list option" where
  "npc_occurrences_at ty ts =
     those (map (\<lambda>e. map_option (\<lambda>n. (nm_room_id n, ts_tick ts, nm_id n)) (ev_npc e)) (get_events_by_type ty ts))"

definition over_ticks :: "(tick_state \<Rightarrow> 'a list option) \<Rightarrow> tick_state option list \<Rightarrow> 'a list option" where
  "over_ticks f ticks = map_option concat (those (map f (present ticks)))"

definition repeated :: "('k \<Rightarrow> 'v list \<Rightarrow> merge_issue) \<Rightarrow> ('k, 'v list) omap \<Rightarrow> merge_issue list" where
  "repeated issue groups = concat (map (\<lambda>(k, vs). if length vs > 1 then [issue k vs] else []) groups)"

definition unspawned_deaths :: "(int, (int \<times> int) list) omap \<Rightarrow> (int, (int \<times> int) list) omap \<Rightarrow> merge_issue list" where
  "unspawned_deaths spawns deaths =
     concat (map (\<lambda>(room, ds).
       let death = fst (hd ds); spawn = map_option (\<lambda>ss. fst (hd ss)) (map_of spawns room)
       in case spawn of
            None \<Rightarrow> [Death_Before_Spawn room death None]
          | Some s \<Rightarrow> if s \<ge> death then [Death_Before_Spawn room death (Some s)] else []) deaths)"

definition check_actor_lifecycles :: "tick_state option list \<Rightarrow> merge_issue list option" where
  "check_actor_lifecycles ticks =
     (case (over_ticks player_deaths_at ticks, over_ticks (npc_occurrences_at NPC_SPAWN) ticks,
            over_ticks (npc_occurrences_at NPC_DEATH) ticks) of
        (Some players, Some spawns, Some deaths) \<Rightarrow>
          Some (repeated Duplicate_Player_Death (collect players) @ repeated Duplicate_Npc_Spawn (collect spawns) @
            repeated Duplicate_Npc_Death (collect deaths) @ unspawned_deaths (collect spawns) (collect deaths))
      | _ \<Rightarrow> None)"

subsection \<open>Stream events\<close>

definition is_unique_stream_event :: "event_type \<Rightarrow> bool" where
  "is_unique_stream_event ty \<longleftrightarrow>
     ty \<notin> {PLAYER_DEATH, NPC_SPAWN, NPC_DEATH} \<and>
     (case default_stream_config ty of None \<Rightarrow> False | Some c \<Rightarrow> sc_window c = None)"

definition stream_identity :: "event \<Rightarrow> string option" where
  "stream_identity e = Option.bind (default_stream_config (ev_type e)) (\<lambda>c. identity_key (sc_key c) e)"

record stream_check =
  st_groups :: "(event_type, (string \<times> int list) list) omap"
  st_previous :: "(nat, int \<times> phase_occurrence) omap"
  st_issues :: "merge_issue list"

definition apply_rule :: "event \<Rightarrow> phase_occurrence \<Rightarrow> nat \<times> ordering_rule \<Rightarrow> stream_check option \<Rightarrow> stream_check option" where
  "apply_rule e occ ir sc =
     (case sc of
        None \<Rightarrow> None
      | Some st \<Rightarrow>
          (if ev_type e \<notin> or_types (snd ir) then Some st
           else case or_ordinal (snd ir) e of
             None \<Rightarrow> None
           | Some n \<Rightarrow>
               Some (st\<lparr>st_previous := AList.update (fst ir) (n, occ) (st_previous st),
                 st_issues := st_issues st @
                   (case map_of (st_previous st) (fst ir) of
                      None \<Rightarrow> []
                    | Some (m, prev) \<Rightarrow> if n < m then [Phase_Out_Of_Order prev occ] else [])\<rparr>)))"

definition check_stream_event :: "ordering_rule list \<Rightarrow> int \<times> event \<Rightarrow> stream_check option \<Rightarrow> stream_check option" where
  "check_stream_event rules te sc =
     (case sc of
        None \<Rightarrow> None
      | Some st \<Rightarrow>
          (let (tick, e) = te in
           if \<not> is_unique_stream_event (ev_type e) then Some st
           else case stream_identity e of
             None \<Rightarrow> None
           | Some key \<Rightarrow>
               fold (apply_rule e \<lparr>ph_type = ev_type e, ph_key = key, ph_tick = tick\<rparr>) (List.enumerate 0 rules)
                 (Some (st\<lparr>st_groups := update_group (push_group) (ev_type e, (key, tick)) (st_groups st)\<rparr>))))"

definition timeline_events :: "tick_state option list \<Rightarrow> (int \<times> event) list" where
  "timeline_events ticks = concat (map (\<lambda>ts. map (Pair (ts_tick ts)) (get_events ts)) (present ticks))"

definition check_stream_events :: "stage \<Rightarrow> tick_state option list \<Rightarrow> merge_issue list option" where
  "check_stream_events stage ticks =
     map_option (\<lambda>st. st_issues st @ concat (map (\<lambda>(ty, by_key). repeated (Duplicate_Stream_Event ty) by_key) (st_groups st)))
       (fold (check_stream_event (ordering_rules stage)) (timeline_events ticks)
         (Some \<lparr>st_groups = [], st_previous = [], st_issues = []\<rparr>))"

subsection \<open>Weapon cooldowns\<close>

definition attack_occurrences :: "tick_state option list \<Rightarrow> (string \<times> attack_occurrence) list" where
  "attack_occurrences ticks =
     concat (map (\<lambda>ts. concat (map (\<lambda>(p, so). case so of None \<Rightarrow> [] | Some s \<Rightarrow>
       (case ps_attack s of None \<Rightarrow> [] | Some a \<Rightarrow> [(p, \<lparr>ao_tick = ts_tick ts, ao_type = at_type a\<rparr>)])) (ts_players ts)))
       (present ticks))"

fun cooldown_issues ::
    "(int \<Rightarrow> int option) \<Rightarrow> (string, attack_occurrence) omap \<Rightarrow> (string \<times> attack_occurrence) list \<Rightarrow> merge_issue list" where
  "cooldown_issues cooldown recent [] = []"
| "cooldown_issues cooldown recent ((p, c) # rest) =
     (case map_of recent p of
        None \<Rightarrow> []
      | Some prev \<Rightarrow> (case cooldown (ao_type prev) of
          None \<Rightarrow> []
        | Some k \<Rightarrow> if ao_tick c - ao_tick prev < k then [Weapon_Cooldown_Violation p prev c k] else [])) @
     cooldown_issues cooldown (AList.update p c recent) rest"

definition check_weapon_cooldowns :: "(int \<Rightarrow> int option) \<Rightarrow> tick_state option list \<Rightarrow> merge_issue list" where
  "check_weapon_cooldowns cooldown ticks = cooldown_issues cooldown [] (attack_occurrences ticks)"

subsection \<open>Attack targets\<close>

definition player_target_issues :: "tick_state \<Rightarrow> merge_issue list" where
  "player_target_issues ts =
     concat (map (\<lambda>(p, so). case Option.bind so (\<lambda>s. Option.bind (ps_attack s) at_target) of
        None \<Rightarrow> []
      | Some (_, room, _) \<Rightarrow>
          if map_of (ts_npcs ts) room = None
          then [Attack_Target_Missing (ts_tick ts) Player_Actor p Npc_Actor (show_int room)] else []) (ts_players ts))"

definition npc_target_issues :: "string list \<Rightarrow> tick_state \<Rightarrow> merge_issue list" where
  "npc_target_issues dead ts =
     concat (map (\<lambda>(room, s). case Option.bind (ns_attack s) nt_target of
        None \<Rightarrow> []
      | Some p \<Rightarrow>
          if p \<in> set dead then []
          else if get_player_state p ts = None
            then [Attack_Target_Missing (ts_tick ts) Npc_Actor (show_int room) Player_Actor p] else []) (ts_npcs ts))"

fun target_issues :: "string list \<Rightarrow> tick_state list \<Rightarrow> merge_issue list option" where
  "target_issues dead [] = Some []"
| "target_issues dead (ts # rest) =
     (case player_deaths_at ts of
        None \<Rightarrow> None
      | Some ds \<Rightarrow>
          map_option (\<lambda>xs. player_target_issues ts @ npc_target_issues dead ts @ xs)
            (target_issues (fold oset_add (map fst ds) dead) rest))"

definition check_attack_target_presence :: "tick_state option list \<Rightarrow> merge_issue list option" where
  "check_attack_target_presence ticks = target_issues [] (present ticks)"

subsection \<open>Exclusive events\<close>

definition check_exclusive_event_types :: "stage \<Rightarrow> tick_state option list \<Rightarrow> merge_issue list" where
  "check_exclusive_event_types stage ticks =
     concat (map (\<lambda>ts. concat (map (\<lambda>(a, b).
       if get_events_by_type a ts \<noteq> [] \<and> get_events_by_type b ts \<noteq> []
       then [Exclusive_Event_Violation a b (ts_tick ts)] else []) (exclusive_event_pairs stage))) (present ticks))"

subsection \<open>The check\<close>

definition check_merge :: "(int \<Rightarrow> int option) \<Rightarrow> stage \<Rightarrow> tick_state option list \<Rightarrow> merge_issue list option" where
  "check_merge cooldown stage ticks =
     (case (check_actor_lifecycles ticks, check_stream_events stage ticks, check_attack_target_presence ticks) of
        (Some lifecycle, Some stream, Some target) \<Rightarrow>
          Some (lifecycle @ stream @ check_weapon_cooldowns cooldown ticks @ target @
            check_exclusive_event_types stage ticks)
      | _ \<Rightarrow> None)"

subsection \<open>Grouping\<close>

definition values_of :: "'k \<Rightarrow> ('k \<times> 'v) list \<Rightarrow> 'v list" where
  "values_of k kvs = map snd (filter (\<lambda>x. fst x = k) kvs)"

lemma values_of_simps [simp]:
  "values_of k [] = []"
  "values_of k (x # kvs) = (if fst x = k then [snd x] else []) @ values_of k kvs"
  by (simp_all add: values_of_def)

lemma values_of_Nil_iff: "values_of k kvs = [] \<longleftrightarrow> k \<notin> fst ` set kvs"
  by (force simp: values_of_def filter_empty_conv)

lemma set_values_of: "v \<in> set (values_of k kvs) \<longleftrightarrow> (k, v) \<in> set kvs"
  by (force simp: values_of_def)

lemma fold_update_group:
  "map_of (fold (update_group f) kvs m) k =
     (if values_of k kvs = [] then map_of m k
      else Some (fold f (values_of k kvs) (case map_of m k of None \<Rightarrow> [] | Some xs \<Rightarrow> xs)))"
  by (induction kvs arbitrary: m) (auto simp: update_group_def update_conv' split: option.splits)

lemma distinct_update_group: "distinct (map fst m) \<Longrightarrow> distinct (map fst (fold (update_group f) kvs m))"
  by (induction kvs arbitrary: m) (auto simp: update_group_def intro: distinct_update)

lemma fold_snoc: "fold (\<lambda>v xs. xs @ [v]) vs xs = xs @ vs"
  by (induction vs arbitrary: xs) auto

lemma map_of_collect: "map_of (collect kvs) k = (if values_of k kvs = [] then None else Some (values_of k kvs))"
  by (simp add: collect_def push_group_def fold_update_group fold_snoc)

lemma distinct_collect: "distinct (map fst (collect kvs))"
  by (simp add: collect_def push_group_def distinct_update_group)

lemma mem_collect: "(k, vs) \<in> set (collect kvs) \<longleftrightarrow> vs = values_of k kvs \<and> vs \<noteq> []"
  using map_of_eq_Some_iff [OF distinct_collect, of kvs k vs] by (auto simp: map_of_collect split: if_splits)

lemma length_values_of: "(\<forall>k. length (values_of k kvs) \<le> 1) \<longleftrightarrow> distinct (map fst kvs)"
proof (induction kvs)
  case (Cons x kvs)
  have "(\<forall>k. length (values_of k (x # kvs)) \<le> 1) \<longleftrightarrow>
      (\<forall>k. length (values_of k kvs) \<le> 1) \<and> values_of (fst x) kvs = []"
    by (auto simp: le_Suc_eq split: if_splits)
  then show ?case using Cons by (auto simp: values_of_Nil_iff)
qed simp

lemma repeated_Nil: "repeated issue (collect kvs) = [] \<longleftrightarrow> distinct (map fst kvs)"
proof -
  have "repeated issue (collect kvs) = [] \<longleftrightarrow> (\<forall>(k, vs) \<in> set (collect kvs). length vs \<le> 1)"
    by (force simp: repeated_def not_less split: if_splits)
  also have "\<dots> \<longleftrightarrow> (\<forall>k. length (values_of k kvs) \<le> 1)"
  proof (intro iffI allI ballI)
    fix k assume "\<forall>(k, vs) \<in> set (collect kvs). length vs \<le> 1"
    then have "values_of k kvs \<noteq> [] \<Longrightarrow> length (values_of k kvs) \<le> 1" using mem_collect [of k "values_of k kvs" kvs] by blast
    then show "length (values_of k kvs) \<le> 1" by (cases "values_of k kvs = []") auto
  qed (auto simp: mem_collect)
  finally show ?thesis by (simp only: length_values_of)
qed

subsection \<open>The specification\<close>

text \<open>
  A consistent timeline, in terms of the events of its ticks: no player dies twice, no NPC spawns or dies twice
  and each dies after its spawn, no stream event without a temporal window occurs twice, phases come in order, no
  player attacks again before the cooldown of the previous attack, targets are present, and no two exclusive events
  share a tick.
\<close>

definition player_deaths :: "tick_state list \<Rightarrow> (string \<times> int) list" where
  "player_deaths tss = concat (map (\<lambda>ts. List.map_filter (\<lambda>e. map_option (\<lambda>p. (pm_name p, ts_tick ts)) (ev_player e))
     (get_events_by_type PLAYER_DEATH ts)) tss)"

definition npc_occurrences :: "event_type \<Rightarrow> tick_state list \<Rightarrow> (int \<times> int \<times> int) list" where
  "npc_occurrences ty tss = concat (map (\<lambda>ts. List.map_filter (\<lambda>e. map_option (\<lambda>n. (nm_room_id n, ts_tick ts, nm_id n)) (ev_npc e))
     (get_events_by_type ty ts)) tss)"

definition stream_entries :: "(int \<times> event) list \<Rightarrow> (event_type \<times> string \<times> int) list" where
  "stream_entries es = map (\<lambda>(t, e). (ev_type e, the (stream_identity e), t)) (filter (\<lambda>(t, e). is_unique_stream_event (ev_type e)) es)"

definition phase_ordinals :: "ordering_rule \<Rightarrow> (int \<times> event) list \<Rightarrow> int list" where
  "phase_ordinals r es =
     map (\<lambda>(t, e). the (or_ordinal r e)) (filter (\<lambda>(t, e). is_unique_stream_event (ev_type e) \<and> ev_type e \<in> or_types r) es)"

definition spaced :: "(int \<Rightarrow> int option) \<Rightarrow> attack_occurrence \<Rightarrow> attack_occurrence \<Rightarrow> bool" where
  "spaced cooldown a b \<longleftrightarrow> (\<forall>k. cooldown (ao_type a) = Some k \<longrightarrow> k \<le> ao_tick b - ao_tick a)"

definition targets_present :: "tick_state list \<Rightarrow> tick_state \<Rightarrow> bool" where
  "targets_present before ts \<longleftrightarrow>
     (\<forall>p s a i room c. (p, Some s) \<in> set (ts_players ts) \<longrightarrow> ps_attack s = Some a \<longrightarrow> at_target a = Some (i, room, c) \<longrightarrow>
        get_npc_state room ts \<noteq> None) \<and>
     (\<forall>room s a p. (room, s) \<in> set (ts_npcs ts) \<longrightarrow> ns_attack s = Some a \<longrightarrow> nt_target a = Some p \<longrightarrow>
        get_player_state p ts \<noteq> None \<or> p \<in> fst ` set (player_deaths before))"

definition lifecycles_consistent :: "tick_state list \<Rightarrow> bool" where
  "lifecycles_consistent tss \<longleftrightarrow>
     distinct (map fst (player_deaths tss)) \<and> distinct (map fst (npc_occurrences NPC_SPAWN tss)) \<and>
     distinct (map fst (npc_occurrences NPC_DEATH tss)) \<and>
     (\<forall>(room, d, i) \<in> set (npc_occurrences NPC_DEATH tss). \<exists>(room', s, j) \<in> set (npc_occurrences NPC_SPAWN tss). room' = room \<and> s < d)"

definition streams_consistent :: "stage \<Rightarrow> tick_state option list \<Rightarrow> bool" where
  "streams_consistent stage ticks \<longleftrightarrow>
     distinct (map (\<lambda>(ty, key, t). (ty, key)) (stream_entries (timeline_events ticks))) \<and>
     (\<forall>r \<in> set (ordering_rules stage). sorted (phase_ordinals r (timeline_events ticks)))"

definition consistent_timeline :: "(int \<Rightarrow> int option) \<Rightarrow> stage \<Rightarrow> tick_state option list \<Rightarrow> bool" where
  "consistent_timeline cooldown stage ticks \<longleftrightarrow>
     lifecycles_consistent (present ticks) \<and> streams_consistent stage ticks \<and>
     (\<forall>p. successively (spaced cooldown) (values_of p (attack_occurrences ticks))) \<and>
     (\<forall>us ts vs. present ticks = us @ ts # vs \<longrightarrow> targets_present us ts) \<and>
     (\<forall>ts \<in> set (present ticks). \<forall>(a, b) \<in> set (exclusive_event_pairs stage).
        get_events_by_type a ts = [] \<or> get_events_by_type b ts = [])"

subsection \<open>Lifecycles\<close>

lemma those_map_filter: "those (map f xs) = Some ys \<Longrightarrow> ys = List.map_filter f xs"
  by (induction xs arbitrary: ys) (auto simp: List.map_filter_simps split: option.splits)

lemma those_eq_None: "those (map f xs) = None \<longleftrightarrow> (\<exists>x \<in> set xs. f x = None)"
  by (induction xs) (auto split: option.splits)

lemma over_ticks_filter:
  assumes "over_ticks (\<lambda>ts. those (map (f ts) (g ts))) ticks = Some xs"
  shows "xs = concat (map (\<lambda>ts. List.map_filter (f ts) (g ts)) (present ticks))"
proof -
  have "those (map (\<lambda>ts. those (map (f ts) (g ts))) tss) = Some yss \<Longrightarrow>
      concat yss = concat (map (\<lambda>ts. List.map_filter (f ts) (g ts)) tss)" for tss yss
  proof (induction tss arbitrary: yss)
    case (Cons ts tss)
    then obtain xs zs where "those (map (f ts) (g ts)) = Some xs" "those (map (\<lambda>ts. those (map (f ts) (g ts))) tss) = Some zs"
      "yss = xs # zs" by (auto split: option.splits)
    with Cons.IH show ?case by (simp add: those_map_filter)
  qed simp
  then show ?thesis using assms by (auto simp: over_ticks_def)
qed

lemma over_player_deaths: "over_ticks player_deaths_at ticks = Some xs \<Longrightarrow> xs = player_deaths (present ticks)"
  unfolding player_deaths_def player_deaths_at_def [abs_def] by (rule over_ticks_filter)

lemma over_npc_occurrences: "over_ticks (npc_occurrences_at ty) ticks = Some xs \<Longrightarrow> xs = npc_occurrences ty (present ticks)"
  unfolding npc_occurrences_def npc_occurrences_at_def [abs_def] by (rule over_ticks_filter)

lemma sorted_npc_occurrences:
  "sorted (map ts_tick tss) \<Longrightarrow> sorted (map (\<lambda>x. fst (snd x)) (npc_occurrences ty tss))"
proof (induction tss)
  case (Cons ts tss)
  define xs where "xs = List.map_filter (\<lambda>e. map_option (\<lambda>n. (nm_room_id n, ts_tick ts, nm_id n)) (ev_npc e)) (get_events_by_type ty ts)"
  have split: "npc_occurrences ty (ts # tss) = xs @ npc_occurrences ty tss" by (simp add: npc_occurrences_def xs_def)
  have head: "\<forall>x \<in> set xs. fst (snd x) = ts_tick ts" by (auto simp: xs_def set_map_filter_conv)
  then have "sorted (map (\<lambda>x. fst (snd x)) xs)" by (induction xs) auto
  moreover have "\<forall>x \<in> set (npc_occurrences ty tss). \<exists>t \<in> set tss. fst (snd x) = ts_tick t"
    by (auto simp: npc_occurrences_def set_map_filter_conv)
  ultimately show ?case using Cons head unfolding split by (fastforce simp: sorted_append)
qed (simp add: npc_occurrences_def)

lemma sorted_values_of: "sorted (map (\<lambda>x. fst (snd x)) kvs) \<Longrightarrow> sorted (map fst (values_of k kvs))"
  by (induction kvs) (fastforce simp: set_values_of)+

lemma hd_values_of_least:
  assumes "sorted (map (\<lambda>x. fst (snd x)) kvs)" and "(k, t, i) \<in> set kvs"
  shows "values_of k kvs \<noteq> [] \<and> fst (hd (values_of k kvs)) \<le> t"
proof -
  have "(t, i) \<in> set (values_of k kvs)" using assms(2) by (simp add: set_values_of)
  then show ?thesis using sorted_values_of [OF assms(1), of k] by (cases "values_of k kvs") auto
qed

lemma hd_values_of_mem: "values_of k kvs \<noteq> [] \<Longrightarrow> (k, hd (values_of k kvs)) \<in> set kvs"
  by (simp flip: set_values_of)

lemma unspawned_deaths_Nil:
  assumes "sorted (map (\<lambda>x. fst (snd x)) spawns)" and "sorted (map (\<lambda>x. fst (snd x)) deaths)"
  shows "unspawned_deaths (collect spawns) (collect deaths) = [] \<longleftrightarrow>
    (\<forall>(room, d, i) \<in> set deaths. \<exists>(room', s, j) \<in> set spawns. room' = room \<and> s < d)"
proof -
  let ?early = "\<lambda>k. values_of k spawns \<noteq> [] \<and> fst (hd (values_of k spawns)) < fst (hd (values_of k deaths))"
  have "unspawned_deaths (collect spawns) (collect deaths) = [] \<longleftrightarrow>
      (\<forall>(k, ds) \<in> set (collect deaths). values_of k spawns \<noteq> [] \<and> fst (hd (values_of k spawns)) < fst (hd ds))"
    by (force simp: unspawned_deaths_def Let_def map_of_collect split: if_splits)
  also have "\<dots> \<longleftrightarrow> (\<forall>k. values_of k deaths \<noteq> [] \<longrightarrow> ?early k)" by (auto simp: mem_collect)
  also have "\<dots> \<longleftrightarrow> (\<forall>(room, d, i) \<in> set deaths. \<exists>(room', s, j) \<in> set spawns. room' = room \<and> s < d)"
  proof (intro iffI ballI allI impI)
    fix x assume early: "\<forall>k. values_of k deaths \<noteq> [] \<longrightarrow> ?early k" and x: "x \<in> set deaths"
    obtain room d i where d: "x = (room, d, i)" by (cases x)
    obtain s j where h: "hd (values_of room spawns) = (s, j)" by (cases "hd (values_of room spawns)")
    have "?early room" "fst (hd (values_of room deaths)) \<le> d"
      using early hd_values_of_least [OF assms(2), of room d i] x d by auto
    then have "(room, s, j) \<in> set spawns \<and> s < d" using hd_values_of_mem [of room spawns] h by auto
    then show "case x of (room, d, i) \<Rightarrow> \<exists>(room', s, j) \<in> set spawns. room' = room \<and> s < d" using d by blast
  next
    fix k assume r: "\<forall>(room, d, i) \<in> set deaths. \<exists>(room', s, j) \<in> set spawns. room' = room \<and> s < d"
      and k: "values_of k deaths \<noteq> []"
    obtain d i where h: "hd (values_of k deaths) = (d, i)" by (cases "hd (values_of k deaths)")
    then have "(k, d, i) \<in> set deaths" using hd_values_of_mem [OF k] by simp
    then obtain s j where s: "(k, s, j) \<in> set spawns" "s < d" using r by blast
    show "?early k" using hd_values_of_least [OF assms(1) s(1)] s(2) h by simp
  qed
  finally show ?thesis .
qed

lemma lifecycles_clean:
  assumes "check_actor_lifecycles ticks = Some issues" and "sorted (map ts_tick (present ticks))"
  shows "issues = [] \<longleftrightarrow> lifecycles_consistent (present ticks)"
proof -
  obtain ps ss ds where o: "over_ticks player_deaths_at ticks = Some ps" "over_ticks (npc_occurrences_at NPC_SPAWN) ticks = Some ss"
      "over_ticks (npc_occurrences_at NPC_DEATH) ticks = Some ds"
    and i: "issues = repeated Duplicate_Player_Death (collect ps) @ repeated Duplicate_Npc_Spawn (collect ss) @
      repeated Duplicate_Npc_Death (collect ds) @ unspawned_deaths (collect ss) (collect ds)"
    using assms(1) by (auto simp: check_actor_lifecycles_def split: option.splits)
  note eqs = over_player_deaths [OF o(1)] over_npc_occurrences [OF o(2)] over_npc_occurrences [OF o(3)]
  have sorted: "sorted (map (\<lambda>x. fst (snd x)) (npc_occurrences ty (present ticks)))" for ty
    by (rule sorted_npc_occurrences) (rule assms(2))
  show ?thesis
    unfolding i eqs lifecycles_consistent_def
    by (simp only: append_is_Nil_conv repeated_Nil unspawned_deaths_Nil [OF sorted sorted])
qed

subsection \<open>Stream events\<close>

definition prior_ordinals :: "nat \<Rightarrow> stream_check \<Rightarrow> int list" where
  "prior_ordinals i st = (case map_of (st_previous st) i of None \<Rightarrow> [] | Some (n, _) \<Rightarrow> [n])"

definition stream_step_ok :: "ordering_rule list \<Rightarrow> int \<times> event \<Rightarrow> bool" where
  "stream_step_ok rules te \<longleftrightarrow> \<not> is_unique_stream_event (ev_type (snd te)) \<or>
     stream_identity (snd te) \<noteq> None \<and> (\<forall>r \<in> set rules. ev_type (snd te) \<in> or_types r \<longrightarrow> or_ordinal r (snd te) \<noteq> None)"

lemma fold_apply_rule_None [simp]: "fold (apply_rule e occ) rs None = None"
  by (induction rs) (simp_all add: apply_rule_def)

lemma fold_check_stream_None [simp]: "fold (check_stream_event rules) es None = None"
  by (induction es) (simp_all add: check_stream_event_def)

lemma check_stream_event_single:
  assumes "rules = [] \<or> rules = [r]" and "check_stream_event rules te (Some st) = Some st'"
  shows "st_groups st' = fold (update_group push_group) (stream_entries [te]) (st_groups st) \<and>
    (st_issues st' = [] \<longleftrightarrow> st_issues st = [] \<and>
      (\<forall>r \<in> set rules. sorted (prior_ordinals 0 st @ phase_ordinals r [te]))) \<and>
    (\<forall>r \<in> set rules. prior_ordinals 0 st' =
      (if phase_ordinals r [te] = [] then prior_ordinals 0 st else phase_ordinals r [te])) \<and>
    stream_step_ok rules te"
  using assms
  by (cases te)
    (auto simp: check_stream_event_def stream_entries_def phase_ordinals_def apply_rule_def prior_ordinals_def stream_step_ok_def
      not_less split: option.splits if_splits prod.splits)

lemma phase_ordinals_Cons: "phase_ordinals r (te # es) = phase_ordinals r [te] @ phase_ordinals r es"
  by (simp add: phase_ordinals_def)

lemma stream_entries_Cons: "stream_entries (te # es) = stream_entries [te] @ stream_entries es"
  by (simp add: stream_entries_def)

lemma sorted_join:
  "length xs \<le> 1 \<Longrightarrow> length ys \<le> 1 \<Longrightarrow>
     sorted (xs @ ys @ zs) \<longleftrightarrow> sorted (xs @ ys) \<and> sorted ((if ys = [] then xs else ys) @ (zs :: int list))"
  by (cases xs; cases ys) auto

lemma length_ordinals: "length (prior_ordinals i st) \<le> 1" "length (phase_ordinals r [te]) \<le> 1"
  by (auto simp: prior_ordinals_def phase_ordinals_def split: option.splits)

lemma fold_check_stream:
  assumes "rules = [] \<or> rules = [r]" and "fold (check_stream_event rules) es (Some st) = Some st'"
  shows "st_groups st' = fold (update_group push_group) (stream_entries es) (st_groups st) \<and>
    (st_issues st' = [] \<longleftrightarrow> st_issues st = [] \<and> (\<forall>r \<in> set rules. sorted (prior_ordinals 0 st @ phase_ordinals r es)))"
  using assms(2)
proof (induction es arbitrary: st)
  case Nil
  then show ?case
    using length_ordinals(1) [of 0 st] by (auto simp: stream_entries_def phase_ordinals_def sorted01)
next
  case (Cons te es)
  then obtain st1 where st1: "check_stream_event rules te (Some st) = Some st1"
    by (cases "check_stream_event rules te (Some st)") auto
  have rest: "fold (check_stream_event rules) es (Some st1) = Some st'" using Cons.prems st1 by simp
  have "sorted (prior_ordinals 0 st @ phase_ordinals r (te # es)) \<longleftrightarrow>
      sorted (prior_ordinals 0 st @ phase_ordinals r [te]) \<and> sorted (prior_ordinals 0 st1 @ phase_ordinals r es)"
    if "r \<in> set rules" for r
    using check_stream_event_single [OF assms(1) st1] that
    unfolding phase_ordinals_Cons [of r te es] sorted_join [OF length_ordinals] by auto
  then show ?case
    using check_stream_event_single [OF assms(1) st1] Cons.IH [OF rest] by (auto simp: stream_entries_Cons [of te es])
qed

lemma ordering_rules_single: "\<exists>r. ordering_rules stage = [] \<or> ordering_rules stage = [r]"
  by (auto simp: ordering_rules_def split: stage.splits)

lemma fold_push_group: "fold push_group kvs [] = collect kvs"
  by (simp add: collect_def)

lemma distinct_pairs: "(\<forall>a. distinct (map fst (values_of a kvs))) \<longleftrightarrow> distinct (map (\<lambda>(a, b, c). (a, b)) kvs)"
proof (induction kvs)
  case (Cons x kvs)
  obtain a b c where x: "x = (a, b, c)" by (cases x)
  have "b \<in> fst ` set (values_of a kvs) \<longleftrightarrow> (a, b) \<in> (\<lambda>(a, b, c). (a, b)) ` set kvs"
    by (force simp: values_of_def)
  moreover have "(\<forall>a'. distinct (map fst (values_of a' (x # kvs)))) \<longleftrightarrow>
      b \<notin> fst ` set (values_of a kvs) \<and> (\<forall>a'. distinct (map fst (values_of a' kvs)))"
    by (auto simp: x split: if_splits)
  ultimately show ?case using Cons.IH x by simp
qed simp

lemma concat_map_Nil: "concat (map (\<lambda>(a, b). f a b) xs) = [] \<longleftrightarrow> (\<forall>a b. (a, b) \<in> set xs \<longrightarrow> f a b = [])"
  by (induction xs) auto

lemma duplicates_Nil:
  "concat (map (\<lambda>(ty, by_key). repeated (Duplicate_Stream_Event ty) by_key) (fold (update_group push_group) kvs [])) = [] \<longleftrightarrow>
     distinct (map (\<lambda>(ty, key, t). (ty, key)) kvs)"
proof -
  have d: "distinct (map fst (fold (update_group push_group) kvs []))" by (rule distinct_update_group) simp
  have m: "(ty, g) \<in> set (fold (update_group push_group) kvs []) \<longleftrightarrow> values_of ty kvs \<noteq> [] \<and> g = collect (values_of ty kvs)" for ty g
    using map_of_eq_Some_iff [OF d, of ty g] by (auto simp: fold_update_group fold_push_group split: if_splits)
  have "concat (map (\<lambda>(ty, by_key). repeated (Duplicate_Stream_Event ty) by_key) (fold (update_group push_group) kvs [])) = [] \<longleftrightarrow>
      (\<forall>ty. values_of ty kvs \<noteq> [] \<longrightarrow> repeated (Duplicate_Stream_Event ty) (collect (values_of ty kvs)) = [])"
    unfolding concat_map_Nil m by simp
  also have "\<dots> \<longleftrightarrow> (\<forall>ty. distinct (map fst (values_of ty kvs)))"
    unfolding repeated_Nil by (metis distinct.simps(1) list.simps(8))
  finally show ?thesis by (simp only: distinct_pairs)
qed

lemma streams_clean:
  assumes "check_stream_events stage ticks = Some issues"
  shows "issues = [] \<longleftrightarrow> streams_consistent stage ticks"
proof -
  obtain r where r: "ordering_rules stage = [] \<or> ordering_rules stage = [r]" using ordering_rules_single by blast
  obtain st where st: "fold (check_stream_event (ordering_rules stage)) (timeline_events ticks)
        (Some \<lparr>st_groups = [], st_previous = [], st_issues = []\<rparr>) = Some st"
    and i: "issues = st_issues st @ concat (map (\<lambda>(ty, by_key). repeated (Duplicate_Stream_Event ty) by_key) (st_groups st))"
    using assms by (auto simp: check_stream_events_def)
  have g: "st_groups st = fold (update_group push_group) (stream_entries (timeline_events ticks)) []"
    and o: "st_issues st = [] \<longleftrightarrow> (\<forall>r \<in> set (ordering_rules stage). sorted (phase_ordinals r (timeline_events ticks)))"
    using fold_check_stream [OF r st] by (simp_all add: prior_ordinals_def)
  show ?thesis unfolding i g append_is_Nil_conv duplicates_Nil o streams_consistent_def by (rule conj_commute)
qed

subsection \<open>Cooldowns, targets and exclusive events\<close>

definition recent_attack :: "(string, attack_occurrence) omap \<Rightarrow> string \<Rightarrow> attack_occurrence list" where
  "recent_attack recent p = (case map_of recent p of None \<Rightarrow> [] | Some a \<Rightarrow> [a])"

lemma cooldown_issues_Nil:
  "cooldown_issues cooldown recent occs = [] \<longleftrightarrow>
     (\<forall>p. successively (spaced cooldown) (recent_attack recent p @ values_of p occs))"
proof (induction cooldown recent occs rule: cooldown_issues.induct)
  case (1 cooldown recent)
  then show ?case by (simp add: recent_attack_def split: option.splits)
next
  case (2 cooldown recent p c rest)
  let ?ok = "successively (spaced cooldown) (recent_attack recent p @ [c])"
  have "cooldown_issues cooldown recent ((p, c) # rest) = [] \<longleftrightarrow>
      ?ok \<and> cooldown_issues cooldown (AList.update p c recent) rest = []"
    by (auto simp: recent_attack_def spaced_def not_less split: option.splits)
  moreover have "successively (spaced cooldown) (recent_attack recent q @ values_of q ((p, c) # rest)) \<longleftrightarrow>
      (q = p \<longrightarrow> ?ok) \<and> successively (spaced cooldown) (recent_attack (AList.update p c recent) q @ values_of q rest)" for q
    by (auto simp: recent_attack_def update_conv' split: option.splits)
  ultimately show ?case using 2 by auto
qed

lemma player_target_issues_Nil:
  "player_target_issues ts = [] \<longleftrightarrow>
     (\<forall>p s a i room c. (p, Some s) \<in> set (ts_players ts) \<longrightarrow> ps_attack s = Some a \<longrightarrow> at_target a = Some (i, room, c) \<longrightarrow>
        get_npc_state room ts \<noteq> None)"
  unfolding player_target_issues_def concat_map_Nil get_npc_state_def
  by (auto split: option.splits if_splits bind_splits) (metis not_None_eq)+

lemma npc_target_issues_Nil:
  "npc_target_issues dead ts = [] \<longleftrightarrow>
     (\<forall>room s a p. (room, s) \<in> set (ts_npcs ts) \<longrightarrow> ns_attack s = Some a \<longrightarrow> nt_target a = Some p \<longrightarrow>
        get_player_state p ts \<noteq> None \<or> p \<in> set dead)"
  unfolding npc_target_issues_def concat_map_Nil
  by (auto split: option.splits if_splits bind_splits) (metis not_None_eq)+

lemma set_fold_oset_add [simp]: "set (fold oset_add xs acc) = set xs \<union> set acc"
  by (induction xs arbitrary: acc) auto

lemma player_deaths_at_eq: "player_deaths_at ts = Some ds \<Longrightarrow> ds = player_deaths [ts]"
  by (simp add: player_deaths_at_def player_deaths_def those_map_filter)

lemma player_deaths_append: "player_deaths (us @ vs) = player_deaths us @ player_deaths vs"
  by (simp add: player_deaths_def)

lemma target_issues_Nil:
  assumes "target_issues dead tss = Some issues" and "set dead = fst ` set (player_deaths before)"
  shows "issues = [] \<longleftrightarrow> (\<forall>us ts vs. tss = us @ ts # vs \<longrightarrow> targets_present (before @ us) ts)"
  using assms
proof (induction tss arbitrary: dead before issues)
  case (Cons ts tss)
  then obtain ds xs where ds: "player_deaths_at ts = Some ds" and xs: "target_issues (fold oset_add (map fst ds) dead) tss = Some xs"
    and i: "issues = player_target_issues ts @ npc_target_issues dead ts @ xs"
    by (auto split: option.splits)
  have dead: "set (fold oset_add (map fst ds) dead) = fst ` set (player_deaths (before @ [ts]))"
    using Cons.prems(2) player_deaths_at_eq [OF ds] by (auto simp: player_deaths_append)
  have "(\<forall>us t vs. ts # tss = us @ t # vs \<longrightarrow> targets_present (before @ us) t) \<longleftrightarrow>
      targets_present before ts \<and> (\<forall>us t vs. tss = us @ t # vs \<longrightarrow> targets_present (before @ [ts] @ us) t)"
    by (auto simp: Cons_eq_append_conv)
  then show ?case
    using Cons.IH [OF xs dead] Cons.prems(2)
    by (simp add: i player_target_issues_Nil npc_target_issues_Nil targets_present_def)
qed simp

lemma exclusive_Nil:
  "check_exclusive_event_types stage ticks = [] \<longleftrightarrow>
     (\<forall>ts \<in> set (present ticks). \<forall>(a, b) \<in> set (exclusive_event_pairs stage).
        get_events_by_type a ts = [] \<or> get_events_by_type b ts = [])"
  by (auto simp: check_exclusive_event_types_def split_beta split: if_splits)

lemma check_merge_clean:
  assumes "check_merge cooldown stage ticks = Some issues" and "sorted (map ts_tick (present ticks))"
  shows "issues = [] \<longleftrightarrow> consistent_timeline cooldown stage ticks"
proof -
  obtain ls ss as where o: "check_actor_lifecycles ticks = Some ls" "check_stream_events stage ticks = Some ss"
      "check_attack_target_presence ticks = Some as"
    and i: "issues = ls @ ss @ check_weapon_cooldowns cooldown ticks @ as @ check_exclusive_event_types stage ticks"
    using assms(1) by (auto simp: check_merge_def split: option.splits)
  have "as = [] \<longleftrightarrow> (\<forall>us ts vs. present ticks = us @ ts # vs \<longrightarrow> targets_present us ts)"
    using target_issues_Nil [of "[]" "present ticks" as "[]"] o(3)
    by (simp add: check_attack_target_presence_def player_deaths_def)
  moreover have "check_weapon_cooldowns cooldown ticks = [] \<longleftrightarrow>
      (\<forall>p. successively (spaced cooldown) (values_of p (attack_occurrences ticks)))"
    by (simp add: check_weapon_cooldowns_def cooldown_issues_Nil recent_attack_def)
  ultimately show ?thesis
    by (simp only: i append_is_Nil_conv lifecycles_clean [OF o(1) assms(2)] streams_clean [OF o(2)] exclusive_Nil
      consistent_timeline_def)
qed

subsection \<open>Absent sub-messages\<close>

lemma over_ticks_None: "over_ticks f ticks = None \<longleftrightarrow> (\<exists>ts \<in> set (present ticks). f ts = None)"
  by (simp add: over_ticks_def those_eq_None)

lemma target_issues_None: "target_issues dead tss = None \<longleftrightarrow> (\<exists>ts \<in> set tss. player_deaths_at ts = None)"
  by (induction tss arbitrary: dead) (auto split: option.splits)

lemma check_stream_event_total:
  assumes "rules = [] \<or> rules = [r]"
  shows "check_stream_event rules te (Some st) = None \<longleftrightarrow> \<not> stream_step_ok rules te"
  using assms
  by (cases te) (auto simp: check_stream_event_def apply_rule_def stream_step_ok_def split: option.splits if_splits)

lemma fold_check_stream_total:
  assumes "rules = [] \<or> rules = [r]"
  shows "fold (check_stream_event rules) es (Some st) = None \<longleftrightarrow> (\<exists>te \<in> set es. \<not> stream_step_ok rules te)"
proof (induction es arbitrary: st)
  case (Cons te es)
  show ?case
  proof (cases "check_stream_event rules te (Some st)")
    case None
    then show ?thesis using check_stream_event_total [OF assms, of te st] by auto
  next
    case (Some st1)
    then have "stream_step_ok rules te" using check_stream_event_total [OF assms, of te st] by auto
    then show ?thesis using Some Cons.IH [of st1] by auto
  qed
qed simp

lemma stream_step_ok_iff:
  "stream_step_ok (ordering_rules stage) (t, e) \<longleftrightarrow>
     \<not> (ev_type e = TOB_NYLO_WAVE_SPAWN \<and> ev_nylo_wave e = None \<or>
        (ev_type e = TOB_SOTE_MAZE_PROC \<or> ev_type e = TOB_SOTE_MAZE_END) \<and> ev_sote e = None)"
  by (cases "ev_type e")
    (auto simp: stream_step_ok_def ordering_rules_def is_unique_stream_event_def stream_identity_def split: stage.splits)

definition lacks_message :: "tick_state \<Rightarrow> bool" where
  "lacks_message ts \<longleftrightarrow>
     list_ex (\<lambda>e. ev_player e = None) (get_events_by_type PLAYER_DEATH ts) \<or>
     list_ex (\<lambda>e. ev_npc e = None) (get_events_by_type NPC_SPAWN ts @ get_events_by_type NPC_DEATH ts) \<or>
     list_ex (\<lambda>e. ev_type e = TOB_NYLO_WAVE_SPAWN \<and> ev_nylo_wave e = None \<or>
       (ev_type e = TOB_SOTE_MAZE_PROC \<or> ev_type e = TOB_SOTE_MAZE_END) \<and> ev_sote e = None) (get_events ts)"

lemma check_merge_None: "check_merge cooldown stage ticks = None \<longleftrightarrow> list_ex lacks_message (present ticks)"
proof -
  obtain r where r: "ordering_rules stage = [] \<or> ordering_rules stage = [r]" using ordering_rules_single by blast
  have s: "check_stream_events stage ticks = None \<longleftrightarrow>
      (\<exists>ts \<in> set (present ticks). \<exists>e \<in> set (get_events ts). \<not> stream_step_ok (ordering_rules stage) (ts_tick ts, e))"
    by (auto simp: check_stream_events_def fold_check_stream_total [OF r] timeline_events_def)
  have "check_merge cooldown stage ticks = None \<longleftrightarrow>
      check_actor_lifecycles ticks = None \<or> check_stream_events stage ticks = None \<or> check_attack_target_presence ticks = None"
    by (auto simp: check_merge_def split: option.splits)
  also have "check_actor_lifecycles ticks = None \<longleftrightarrow> (\<exists>ts \<in> set (present ticks). player_deaths_at ts = None \<or>
      npc_occurrences_at NPC_SPAWN ts = None \<or> npc_occurrences_at NPC_DEATH ts = None)"
    unfolding bex_disj_distrib over_ticks_None [symmetric] by (auto simp: check_actor_lifecycles_def split: option.splits)
  finally show ?thesis
    unfolding s check_attack_target_presence_def target_issues_None stream_step_ok_iff
    by (auto simp: list_ex_iff lacks_message_def player_deaths_at_def npc_occurrences_at_def those_eq_None)
qed

subsection \<open>Properties\<close>

text \<open>
  C31: The check accepts a merged timeline exactly when it is consistent: every issue it reports is a violation of
  the specification, and every violation is reported. Each of the checks keeps only the latest occurrence it has
  seen; that this suffices needs the ticks to be numbered in order, which timelines are.
\<close>

theorem merge_consistency_iff:
  assumes "check_merge cooldown stage ticks = Some issues" and "sorted (map ts_tick (present ticks))"
  shows "issues = [] \<longleftrightarrow> consistent_timeline cooldown stage ticks"
  by (rule check_merge_clean) (rule assms)+

text \<open>The check throws exactly when some death, spawn, wave or maze event of the timeline lacks the sub-message its
  type promises; no other message content, and no missing tick, makes it fail.
\<close>

theorem merge_check_throws_iff: "check_merge cooldown stage ticks = None \<longleftrightarrow> list_ex lacks_message (present ticks)"
  by (rule check_merge_None)

definition sample_merged :: "int \<Rightarrow> tick_state option list" where
  "sample_merged n = Some (sample_tick 0 [sample_death] PRIMARY) # map (\<lambda>i. Some (sample_tick i [sample_death] PRIMARY)) [1..n]"

lemma sample_merged_checks:
  "check_merge (\<lambda>_. Some 4) TOB_BLOAT (sample_merged 0) = Some []"
  "check_merge (\<lambda>_. Some 4) TOB_BLOAT (sample_merged 1) = Some [Duplicate_Player_Death ''p'' [0, 1]]"
  "map ts_tick (present (sample_merged 0)) = [0]"
  "map ts_tick (present (sample_merged 1)) = [0, 1]"
  by code_simp+

theorem merge_consistency_iff_witness:
  "consistent_timeline (\<lambda>_. Some 4) TOB_BLOAT (sample_merged 0) \<and> \<not> consistent_timeline (\<lambda>_. Some 4) TOB_BLOAT (sample_merged 1)"
  using merge_consistency_iff [OF sample_merged_checks(1)] merge_consistency_iff [OF sample_merged_checks(2)]
  by (simp add: sample_merged_checks)

end
