(* ===== verification/Matchings.thy ===== *)
theory Matchings
  imports Complex_Main Blert_Prelude
begin

text \<open>
  Counting the ways ticks could have been paired (\<^verbatim>\<open>countMonotoneMatchings\<close> and \<^verbatim>\<open>boundedBinomial\<close> of
  \<^verbatim>\<open>challenge-server/merging/confidence.ts\<close>). The counts are exact here; the code holds them in doubles, which are
  exact below \<open>2 ^ 53\<close>. The dynamic program is shown to count the strictly increasing sets of cells, the
  closed form to be the clamped binomial coefficient.
\<close>

subsection \<open>The dynamic program\<close>

type_synonym cell_pos = "nat \<times> nat"

text \<open>\<^verbatim>\<open>toSorted\<close> by row, then column: the comparator's first key decides after a stable sort by the second.\<close>

definition sort_cells :: "cell_pos list \<Rightarrow> cell_pos list" where
  "sort_cells cells = sort_key fst (sort_key snd cells)"

definition before_cell :: "cell_pos \<Rightarrow> cell_pos \<Rightarrow> bool" where
  "before_cell a b \<longleftrightarrow> fst a < fst b \<and> snd a < snd b"

text \<open>A row of \<^verbatim>\<open>dp\<close> has a count for every size from 0; the count of size 1 is 1.\<close>

definition first_row :: "nat \<Rightarrow> nat list" where
  "first_row len = map (\<lambda>s. if s = 1 then 1 else 0) [0..<Suc len]"

definition add_row :: "nat list \<Rightarrow> nat list \<Rightarrow> nat list" where
  "add_row r row = map (\<lambda>s. row ! s + (if 2 \<le> s then r ! (s - 1) else 0)) [0..<length row]"

definition dp_row :: "nat \<Rightarrow> (cell_pos \<times> nat list) list \<Rightarrow> cell_pos \<Rightarrow> nat list" where
  "dp_row len prev c = fold (\<lambda>(c', r) row. if before_cell c' c then add_row r row else row) prev (first_row len)"

fun sum_rows :: "nat \<Rightarrow> (cell_pos \<times> nat list) list \<Rightarrow> cell_pos list \<Rightarrow> nat \<Rightarrow> nat" where
  "sum_rows len prev [] acc = acc"
| "sum_rows len prev (c # cs) acc =
     (let row = dp_row len prev c in sum_rows len (prev @ [(c, row)]) cs (acc + row ! len))"

definition count_monotone_matchings :: "cell_pos list \<Rightarrow> int \<Rightarrow> nat" where
  "count_monotone_matchings cells len =
     (if len \<le> 0 then if len = 0 then 1 else 0 else sum_rows (nat len) [] (sort_cells cells) 0)"

subsection \<open>The bounded binomial coefficient\<close>

definition max_path_count :: rat where
  "max_path_count = 1000000000"

function binomial_loop :: "nat \<Rightarrow> nat \<Rightarrow> nat \<Rightarrow> rat \<Rightarrow> rat" where
  "binomial_loop n kk i r =
     (if i < kk
      then let r' = r * (of_nat n - of_nat i) / (of_nat i + 1)
           in if r' > max_path_count then max_path_count else binomial_loop n kk (Suc i) r'
      else r)"
  by pat_completeness auto
termination by (relation "measure (\<lambda>(n, kk, i, r). kk - i)") auto

declare binomial_loop.simps [simp del]

definition bounded_binomial :: "nat \<Rightarrow> nat \<Rightarrow> rat" where
  "bounded_binomial n k = (if k > n then 0 else binomial_loop n (min k (n - k)) 0 1)"

subsection \<open>Increasing subsequences\<close>

definition ending_count :: "cell_pos list \<Rightarrow> cell_pos \<Rightarrow> nat \<Rightarrow> nat" where
  "ending_count xs c s = length (filter (\<lambda>ys. length ys = s \<and> sorted_wrt before_cell (ys @ [c])) (subseqs xs))"

definition matching_count :: "cell_pos list \<Rightarrow> nat \<Rightarrow> nat" where
  "matching_count xs s = length (filter (\<lambda>ys. length ys = s \<and> sorted_wrt before_cell ys) (subseqs xs))"

lemma length_filter_subseqs_snoc:
  "length (filter P (subseqs (xs @ [c]))) = length (filter P (subseqs xs)) + length (filter (\<lambda>ys. P (ys @ [c])) (subseqs xs))"
proof (induction xs arbitrary: P)
  case (Cons x xs)
  show ?case
    using Cons.IH [of P] Cons.IH [of "\<lambda>ys. P (x # ys)"] by (simp add: Let_def filter_map o_def)
qed simp

lemma matching_count_snoc: "matching_count (xs @ [c]) (Suc s) = matching_count xs (Suc s) + ending_count xs c s"
  by (simp add: matching_count_def ending_count_def length_filter_subseqs_snoc)

lemma matching_count_Nil [simp]: "matching_count [] (Suc s) = 0"
  by (simp add: matching_count_def)

lemma before_cell_trans: "before_cell a b \<Longrightarrow> before_cell b c \<Longrightarrow> before_cell a c"
  by (auto simp: before_cell_def)

lemma sorted_two: "sorted_wrt before_cell (ys @ [d, c]) \<longleftrightarrow> before_cell d c \<and> sorted_wrt before_cell (ys @ [d])"
  by (auto simp: sorted_wrt_append intro: before_cell_trans)

lemma ending_count_snoc:
  "ending_count (xs @ [d]) c (Suc s) = ending_count xs c (Suc s) + (if before_cell d c then ending_count xs d s else 0)"
  by (auto simp: ending_count_def length_filter_subseqs_snoc sorted_two cong: filter_cong)

lemma ending_count_0: "ending_count xs c 0 = 1"
proof (induction xs rule: rev_induct)
  case (snoc d xs)
  then show ?case by (simp add: ending_count_def length_filter_subseqs_snoc)
qed (simp add: ending_count_def)

lemma ending_count_Nil [simp]: "ending_count [] c s = (if s = 0 then 1 else 0)"
  by (simp add: ending_count_def)

subsection \<open>Correctness of the dynamic program\<close>

definition row_counts :: "nat \<Rightarrow> cell_pos list \<Rightarrow> cell_pos \<Rightarrow> nat list \<Rightarrow> bool" where
  "row_counts len xs c row \<longleftrightarrow>
     length row = Suc len \<and> (\<forall>s. Suc s \<le> len \<longrightarrow> row ! Suc s = ending_count xs c s)"

fun rows_ok :: "nat \<Rightarrow> cell_pos list \<Rightarrow> (cell_pos \<times> nat list) list \<Rightarrow> bool" where
  "rows_ok len xs [] = True"
| "rows_ok len xs ((c, row) # rest) = (row_counts len xs c row \<and> rows_ok len (xs @ [c]) rest)"

lemma row_counts_step:
  assumes "row_counts len xs c row" and "row_counts len xs d r"
  shows "row_counts len (xs @ [d]) c (if before_cell d c then add_row r row else row)"
proof -
  have "(if before_cell d c then add_row r row else row) ! Suc s = ending_count (xs @ [d]) c s" if "Suc s \<le> len" for s
  proof (cases s)
    case 0
    then show ?thesis using assms that by (auto simp: row_counts_def add_row_def ending_count_0 simp del: upt_Suc)
  next
    case (Suc t)
    then show ?thesis using assms that by (auto simp: row_counts_def add_row_def ending_count_snoc simp del: upt_Suc)
  qed
  then show ?thesis using assms by (simp add: row_counts_def add_row_def)
qed

lemma dp_row_fold:
  assumes "rows_ok len xs prev" and "row_counts len xs c row"
  shows "row_counts len (xs @ map fst prev) c (fold (\<lambda>(c', r) row. if before_cell c' c then add_row r row else row) prev row)"
  using assms
proof (induction len xs prev arbitrary: row rule: rows_ok.induct)
  case (2 len xs d r rest)
  then show ?case using row_counts_step [of len xs c row d r] by (simp add: if_distribR)
qed simp

lemma first_row_counts: "row_counts len [] c (first_row len)"
  by (auto simp: row_counts_def first_row_def simp del: upt_Suc)

lemma dp_row_counts: "rows_ok len [] prev \<Longrightarrow> row_counts len (map fst prev) c (dp_row len prev c)"
  using dp_row_fold [OF _ first_row_counts] by (simp add: dp_row_def)

lemma rows_ok_snoc:
  "rows_ok len xs (prev @ [(c, row)]) \<longleftrightarrow> rows_ok len xs prev \<and> row_counts len (xs @ map fst prev) c row"
  by (induction len xs prev rule: rows_ok.induct) auto

lemma sum_rows_count:
  assumes "rows_ok (Suc n) [] prev" and "acc = matching_count (map fst prev) (Suc n)"
  shows "sum_rows (Suc n) prev cs acc = matching_count (map fst prev @ cs) (Suc n)"
  using assms
proof (induction cs arbitrary: prev acc)
  case (Cons c cs)
  define row where "row = dp_row (Suc n) prev c"
  have row: "row_counts (Suc n) (map fst prev) c row" unfolding row_def by (rule dp_row_counts) (rule Cons.prems)
  then have "acc + row ! Suc n = matching_count (map fst (prev @ [(c, row)])) (Suc n)"
    using Cons.prems by (simp add: row_counts_def matching_count_snoc)
  then show ?case
    using Cons.IH [of "prev @ [(c, row)]"] Cons.prems row by (simp add: rows_ok_snoc Let_def flip: row_def)
qed simp

subsection \<open>Matchings as sets of cells\<close>

definition is_matching :: "cell_pos set \<Rightarrow> bool" where
  "is_matching S \<longleftrightarrow> (\<forall>a \<in> S. \<forall>b \<in> S. a = b \<or> before_cell a b \<or> before_cell b a)"

definition cell_le :: "cell_pos \<Rightarrow> cell_pos \<Rightarrow> bool" where
  "cell_le a b \<longleftrightarrow> fst a < fst b \<or> fst a = fst b \<and> snd a \<le> snd b"

lemma set_sort_cells [simp]: "set (sort_cells cells) = set cells"
  by (simp add: sort_cells_def)

lemma distinct_sort_cells [simp]: "distinct (sort_cells cells) = distinct cells"
  by (simp add: sort_cells_def)

lemma insort_key_stable_sorted:
  assumes "sorted_wrt cell_le xs" and "\<forall>y \<in> set xs. fst y = fst x \<longrightarrow> snd x \<le> snd y"
  shows "sorted_wrt cell_le (insort_key fst x xs)"
  using assms
proof (induction xs)
  case (Cons y ys)
  then show ?case
    by (cases "fst x \<le> fst y") (auto simp: cell_le_def set_insort_key)
qed simp

lemma sorted_sort_cells: "sorted_wrt cell_le (sort_cells cells)"
proof -
  have "sorted (map snd ys) \<Longrightarrow> sorted_wrt cell_le (sort_key fst ys)" for ys :: "cell_pos list"
    by (induction ys) (auto intro!: insort_key_stable_sorted)
  then show ?thesis by (simp add: sort_cells_def)
qed

lemma subseqs_sorted: "sorted_wrt P xs \<Longrightarrow> ys \<in> set (subseqs xs) \<Longrightarrow> sorted_wrt P ys"
proof (induction xs arbitrary: ys)
  case (Cons x xs)
  have "set zs \<subseteq> set xs" if "zs \<in> set (subseqs xs)" for zs
    using that subseqs_powset [of xs] by blast
  with Cons show ?case by (fastforce simp: Let_def)
qed simp

lemma sorted_matching:
  assumes "sorted_wrt cell_le ys" and "distinct ys"
  shows "sorted_wrt before_cell ys \<longleftrightarrow> is_matching (set ys)"
  using assms
proof (induction ys)
  case (Cons y ys)
  then have "before_cell y z \<longleftrightarrow> y = z \<or> before_cell y z \<or> before_cell z y" if "z \<in> set ys" for z
    using that by (auto simp: cell_le_def before_cell_def)
  then show ?case using Cons by (auto simp: is_matching_def)
qed (simp add: is_matching_def)

lemma matching_count_card:
  assumes "sorted_wrt cell_le xs" and "distinct xs"
  shows "matching_count xs s = card {S. S \<subseteq> set xs \<and> card S = s \<and> is_matching S}"
proof -
  let ?P = "\<lambda>ys. length ys = s \<and> sorted_wrt before_cell ys"
  have eq: "?P ys \<longleftrightarrow> card (set ys) = s \<and> is_matching (set ys)" if "ys \<in> set (subseqs xs)" for ys
    using that assms subseqs_sorted [OF assms(1) that] subseqs_distinctD [OF that assms(2)]
    by (simp add: sorted_matching distinct_card)
  have "distinct (map set (filter ?P (subseqs xs)))"
    using distinct_set_subseqs [OF assms(2)] by (rule distinct_map_filter)
  from distinct_card [OF this] have "matching_count xs s = card (set ` set (filter ?P (subseqs xs)))"
    unfolding matching_count_def set_map length_map by (rule sym)
  also have "set ` set (filter ?P (subseqs xs)) = {S \<in> set ` set (subseqs xs). card S = s \<and> is_matching S}"
    unfolding set_filter using eq by blast
  also have "\<dots> = {S. S \<subseteq> set xs \<and> card S = s \<and> is_matching S}"
    unfolding subseqs_powset by blast
  finally show ?thesis .
qed

lemma count_matchings_card:
  assumes "distinct cells"
  shows "count_monotone_matchings cells (int s) = card {S. S \<subseteq> set cells \<and> card S = s \<and> is_matching S}"
proof (cases s)
  case 0
  have "{S. S \<subseteq> set cells \<and> card S = 0 \<and> is_matching S} = {{}}"
    by (auto simp: is_matching_def dest: finite_subset [OF _ finite_set])
  then show ?thesis using 0 by (simp add: count_monotone_matchings_def)
next
  case (Suc n)
  then have "count_monotone_matchings cells (int s) = matching_count (sort_cells cells) s"
    using sum_rows_count [of n "[]" 0 "sort_cells cells"] by (simp add: count_monotone_matchings_def nat_add_distrib)
  then show ?thesis by (simp add: matching_count_card sorted_sort_cells assms)
qed

text \<open>
  C32: The dynamic program counts the matchings: for a positive size, the sets of that many cells any two of which are
  strictly ordered in both row and column, and 1 for size 0. The order in which the cells are given does not matter.
\<close>

theorem count_matchings_correct:
  assumes "distinct cells"
  shows "count_monotone_matchings cells (int s) = card {S. S \<subseteq> set cells \<and> card S = s \<and> is_matching S}"
  by (rule count_matchings_card) (rule assms)

subsection \<open>The closed form\<close>

lemma binomial_step:
  "i < n \<Longrightarrow> (of_nat (n choose i) :: rat) * (of_nat n - of_nat i) / (of_nat i + 1) = of_nat (n choose Suc i)"
proof -
  assume "i < n"
  have "Suc i * (n choose Suc i) = (n choose i) * (n - i)"
    using binomial_absorption [of i n] binomial_absorb_comp [of n i] by (simp only: mult.commute)
  then have "(of_nat (Suc i) :: rat) * of_nat (n choose Suc i) = of_nat (n choose i) * of_nat (n - i)"
    by (simp only: flip: of_nat_mult)
  then show ?thesis using \<open>i < n\<close> by (simp add: of_nat_diff field_simps)
qed

lemma binomial_loop_min:
  assumes "2 * kk \<le> n" and "i \<le> kk" and "of_nat (n choose i) \<le> max_path_count"
  shows "binomial_loop n kk i (of_nat (n choose i)) = min max_path_count (of_nat (n choose kk))"
  using assms(2,3)
proof (induction "kk - i" arbitrary: i)
  case 0
  then have "i = kk" by simp
  then show ?case using 0 by (simp add: binomial_loop.simps min_def)
next
  case (Suc d)
  then have i: "i < kk" "i < n" using assms(1) by auto
  let ?next = "of_nat (n choose Suc i) :: rat"
  have loop: "binomial_loop n kk i (of_nat (n choose i)) =
      (if ?next > max_path_count then max_path_count else binomial_loop n kk (Suc i) ?next)"
    using i by (subst binomial_loop.simps) (simp only: Let_def binomial_step if_True)
  have "n choose Suc i \<le> n choose kk" using i assms(1) by (intro binomial_mono) auto
  then have "?next \<le> of_nat (n choose kk)" by (simp only: of_nat_le_iff)
  then show ?case using loop Suc i by (auto simp: min_def not_less)
qed

text \<open>
  C12: The closed form is the binomial coefficient, clamped at \<open>10 ^ 9\<close>: the loop stops early only when the result
  exceeds the clamp for good, and its divisions are exact.
\<close>

theorem bounded_binomial_correct: "bounded_binomial n k = min max_path_count (of_nat (n choose k))"
proof (cases "k \<le> n")
  case True
  have "bounded_binomial n k = min max_path_count (of_nat (n choose min k (n - k)))"
    using binomial_loop_min [of "min k (n - k)" n 0] True by (simp add: bounded_binomial_def max_path_count_def)
  also have "n choose min k (n - k) = n choose k"
    using binomial_symmetric [OF True] by (simp add: min_def)
  finally show ?thesis .
next
  case False
  then show ?thesis by (simp add: bounded_binomial_def max_path_count_def binomial_eq_0)
qed

theorem count_matchings_correct_witness:
  "card {S. S \<subseteq> set [(1, 1), (0, 0), (0, 1), (1, 0), (2, 2)] \<and> card S = 2 \<and> is_matching S} = 5"
proof -
  have "distinct [(1, 1), (0, 0), (0, 1), (1, 0), (2, 2) :: cell_pos]" by simp
  from count_matchings_correct [OF this, of 2]
  have "card {S. S \<subseteq> set [(1, 1), (0, 0), (0, 1), (1, 0), (2, 2)] \<and> card S = 2 \<and> is_matching S} =
      count_monotone_matchings [(1, 1), (0, 0), (0, 1), (1, 0), (2, 2)] (int 2)" by (rule sym)
  also have "\<dots> = 5" by code_simp
  finally show ?thesis .
qed

end
