(* ===== verification/Confidence.thy ===== *)
theory Confidence
  imports Alignment Consolidation Matchings Similarity
begin

text \<open>
  The confidence of a merge step (\<^verbatim>\<open>challenge-server/merging/confidence.ts\<close>, \<^verbatim>\<open>math.ts\<close>): the partition of an
  alignment into anchors and ambiguous segments, how discriminable and how well supported a segment is, and the
  combination with the conflicts of the reconciliation. Scores are rationals; ECMAScript leaves \<^verbatim>\<open>Math.exp\<close> and
  \<^verbatim>\<open>Math.log\<close> to the implementation, so they are parameters. The entries of an alignment lie in its range; a
  cell outside the matrices reads as incompatible.
\<close>

subsection \<open>Arithmetic\<close>

definition safe_div :: "rat \<Rightarrow> rat \<Rightarrow> rat" where
  "safe_div a b = (if b > 0 then a / b else 0)"

definition soft_min :: "(rat \<Rightarrow> rat) \<Rightarrow> (rat \<Rightarrow> rat) \<Rightarrow> rat list \<Rightarrow> rat \<Rightarrow> rat" where
  "soft_min ex lg vs temperature =
     (if vs = [] then 1
      else - temperature * lg (sum_list (map (\<lambda>v. ex (- v / temperature)) vs) / of_nat (length vs)))"

definition noisy_or :: "rat \<Rightarrow> rat \<Rightarrow> rat" where
  "noisy_or a b = 1 - (1 - a) * (1 - b)"

subsection \<open>Data\<close>

record segment_confidence =
  sf_base_start :: nat
  sf_base_end :: nat
  sf_discriminability :: rat
  sf_bonus_support :: rat
  sf_score :: rat

record structural_confidence =
  tc_value :: rat
  tc_identity :: bool
  tc_target_coverage :: rat
  tc_segments :: "segment_confidence list"
  tc_worst :: "nat option"

record content_confidence =
  nc_value :: rat
  nc_disagreement_rate :: rat
  nc_large_gap_rate :: rat
  nc_attack_mapped_failure_rate :: rat

record step_confidence =
  pc_overall :: rat
  pc_structural :: structural_confidence
  pc_content :: content_confidence

record confidence_weights =
  cw_axis :: rat
  cw_support_scale :: rat
  cw_support_temperature :: rat
  cw_disagreement :: rat
  cw_large_gap :: rat
  cw_attack_mapped_failure :: rat

definition default_confidence_weights :: confidence_weights where
  "default_confidence_weights =
     \<lparr>cw_axis = 1 / 2, cw_support_scale = 5, cw_support_temperature = 1 / 10, cw_disagreement = 3 / 5,
      cw_large_gap = 1 / 5, cw_attack_mapped_failure = 1 / 5\<rparr>"

datatype partition_part = Anchor nat nat | Segment alignment align_range

subsection \<open>Plateaus\<close>

definition is_null_merge :: "local_alignment \<Rightarrow> nat \<Rightarrow> nat \<Rightarrow> bool" where
  "is_null_merge la b t \<longleftrightarrow> b \<in> set (la_base_null la) \<or> t \<in> set (la_target_null la)"

definition similarity_at :: "local_alignment \<Rightarrow> nat \<Rightarrow> nat \<Rightarrow> rat option" where
  "similarity_at la i j =
     (if i < length (la_similarity la) \<and> j < length (la_similarity la ! i) then la_similarity la ! i ! j else None)"

definition plateau_compatible :: "local_alignment \<Rightarrow> nat \<Rightarrow> nat \<Rightarrow> bool" where
  "plateau_compatible la i col \<longleftrightarrow>
     similarity_at la i col \<noteq> None \<and> target_start (la_range la) + col \<notin> set (la_target_null la)"

fun plateau_lo :: "(nat \<Rightarrow> bool) \<Rightarrow> nat \<Rightarrow> nat" where
  "plateau_lo compatible 0 = 0"
| "plateau_lo compatible (Suc lo) = (if compatible lo then plateau_lo compatible lo else Suc lo)"

function plateau_hi :: "(nat \<Rightarrow> bool) \<Rightarrow> nat \<Rightarrow> nat \<Rightarrow> nat" where
  "plateau_hi compatible len hi =
     (if hi < len - 1 \<and> compatible (hi + 1) then plateau_hi compatible len (hi + 1) else hi)"
  by pat_completeness auto
termination by (relation "measure (\<lambda>(compatible, len, hi). len - hi)") auto

declare plateau_hi.simps [simp del]

definition plateau_bounds :: "local_alignment \<Rightarrow> nat \<Rightarrow> nat \<Rightarrow> nat \<times> nat" where
  "plateau_bounds la i j =
     (plateau_lo (plateau_compatible la i) j,
      plateau_hi (plateau_compatible la i) (if i < length (la_similarity la) then length (la_similarity la ! i) else 0) j)"

subsection \<open>The partition\<close>

definition merge_plateau :: "local_alignment \<Rightarrow> align_entry \<Rightarrow> (nat \<times> nat) option" where
  "merge_plateau la e =
     (case e of
        MERGE b t s \<Rightarrow>
          if is_null_merge la b t then None
          else Some (plateau_bounds la (b - base_start (la_range la)) (t - target_start (la_range la)))
      | _ \<Rightarrow> None)"

definition plateau :: "local_alignment \<Rightarrow> align_entry \<Rightarrow> nat option" where
  "plateau la e = map_option (\<lambda>(lo, hi). hi - lo + 1) (merge_plateau la e)"

definition is_anchor :: "local_alignment \<Rightarrow> nat \<Rightarrow> bool" where
  "is_anchor la idx \<longleftrightarrow> plateau la (la_entries la ! idx) = Some 1"

definition is_ambiguous_merge :: "local_alignment \<Rightarrow> nat \<Rightarrow> bool" where
  "is_ambiguous_merge la idx \<longleftrightarrow> (case plateau la (la_entries la ! idx) of None \<Rightarrow> False | Some n \<Rightarrow> n > 1)"

definition slice :: "nat \<Rightarrow> nat \<Rightarrow> 'a list \<Rightarrow> 'a list" where
  "slice a b xs = take (b - a) (drop a xs)"

definition segment_region :: "local_alignment \<Rightarrow> (nat \<times> nat) option \<Rightarrow> (nat \<times> nat) option \<Rightarrow> alignment \<Rightarrow> align_range" where
  "segment_region la left right entries =
     (let bounds = List.map_filter (merge_plateau la) entries; start = target_start (la_range la)
      in \<lparr>base_start = (case left of Some (b, t) \<Rightarrow> b + 1 | None \<Rightarrow> base_index (hd entries)),
          base_end = (case right of Some (b, t) \<Rightarrow> b | None \<Rightarrow> base_index (last entries) + 1),
          target_start = (case left of Some (b, t) \<Rightarrow> t + 1 | None \<Rightarrow> start + foldr min (map fst bounds) (fst (hd bounds))),
          target_end = (case right of Some (b, t) \<Rightarrow> t | None \<Rightarrow> start + foldr max (map snd bounds) 0 + 1)\<rparr>)"

definition flush_pending :: "local_alignment \<Rightarrow> (nat \<times> nat) option \<Rightarrow> (nat \<times> nat) option \<Rightarrow> nat list \<Rightarrow> partition_part list" where
  "flush_pending la left right pending =
     (let idxs = filter (is_ambiguous_merge la) pending
      in if idxs = [] then []
         else let entries = slice (hd idxs) (last idxs + 1) (la_entries la)
              in [Segment entries (segment_region la left right entries)])"

fun partition_loop :: "local_alignment \<Rightarrow> (nat \<times> nat) option \<Rightarrow> nat list \<Rightarrow> nat list \<Rightarrow> partition_part list" where
  "partition_loop la prev pending [] = flush_pending la prev None pending"
| "partition_loop la prev pending (idx # rest) =
     (if is_anchor la idx
      then let b = base_index (la_entries la ! idx); t = target_index (la_entries la ! idx)
           in flush_pending la prev (Some (b, t)) pending @ Anchor b t # partition_loop la (Some (b, t)) [] rest
      else partition_loop la prev (pending @ [idx]) rest)"

definition partition_alignment :: "local_alignment \<Rightarrow> partition_part list" where
  "partition_alignment la = partition_loop la None [] [0..<length (la_entries la)]"

subsection \<open>Segments\<close>

definition max_exact_region :: nat where
  "max_exact_region = 1024"

definition real_merges :: "local_alignment \<Rightarrow> alignment \<Rightarrow> (nat \<times> nat) list" where
  "real_merges la es = concat (map (\<lambda>e. case e of MERGE b t s \<Rightarrow> if is_null_merge la b t then [] else [(b, t)] | _ \<Rightarrow> []) es)"

definition region_bases :: "local_alignment \<Rightarrow> align_range \<Rightarrow> nat list" where
  "region_bases la r = filter (\<lambda>b. b \<notin> set (la_base_null la)) [base_start r..<base_end r]"

definition region_targets :: "local_alignment \<Rightarrow> align_range \<Rightarrow> nat list" where
  "region_targets la r = filter (\<lambda>t. t \<notin> set (la_target_null la)) [target_start r..<target_end r]"

definition region_cells :: "local_alignment \<Rightarrow> align_range \<Rightarrow> (nat \<times> nat) list" where
  "region_cells la r =
     concat (map (\<lambda>b. map (Pair b) (filter (\<lambda>t.
       similarity_at la (b - base_start (la_range la)) (t - target_start (la_range la)) \<noteq> None) (region_targets la r)))
       (region_bases la r))"

definition share_of_paths :: "rat \<Rightarrow> rat" where
  "share_of_paths paths = (if paths \<le> 1 then 1 else 1 / paths)"

definition segment_discriminability :: "local_alignment \<Rightarrow> alignment \<Rightarrow> align_range \<Rightarrow> rat" where
  "segment_discriminability la es r =
     (let merges = length (real_merges la es); nb = length (region_bases la r); nt = length (region_targets la r)
      in if nb * nt > max_exact_region then share_of_paths (bounded_binomial nb merges * bounded_binomial nt merges)
         else share_of_paths (of_nat (count_monotone_matchings (region_cells la r) (int merges))))"

definition margin_at :: "local_alignment \<Rightarrow> nat \<Rightarrow> nat \<Rightarrow> rat" where
  "margin_at la i j =
     (if i < length (la_margin la) \<and> j < length (la_margin la ! i) then la_margin la ! i ! j else 0)"

fun entry_supports :: "(rat \<Rightarrow> rat) \<Rightarrow> local_alignment \<Rightarrow> rat \<Rightarrow> rat \<Rightarrow> nat \<Rightarrow> nat \<Rightarrow> alignment \<Rightarrow> rat list" where
  "entry_supports ex la scale baseline b t [] = []"
| "entry_supports ex la scale baseline b t (e # es) =
     (let b' = (case e of MERGE x y s \<Rightarrow> x | KEEP x \<Rightarrow> x | INSERT y \<Rightarrow> b);
          t' = (case e of MERGE x y s \<Rightarrow> y | KEEP x \<Rightarrow> t | INSERT y \<Rightarrow> y);
          rest = entry_supports ex la scale baseline b' t' es;
          margin = margin_at la (b' - base_start (la_range la)) (t' - target_start (la_range la))
      in if is_MERGE e \<and> is_null_merge la b' t' then rest
         else (1 - ex (- (if is_MERGE e then max 0 (margin - baseline) else margin) / scale)) # rest)"

definition segment_bonus_support ::
    "(rat \<Rightarrow> rat) \<Rightarrow> (rat \<Rightarrow> rat) \<Rightarrow> local_alignment \<Rightarrow> alignment \<Rightarrow> rat \<Rightarrow> rat \<Rightarrow> rat \<Rightarrow> rat" where
  "segment_bonus_support ex lg la es scale temperature baseline =
     soft_min ex lg (entry_supports ex la scale baseline 0 0 es) temperature"

subsection \<open>Content\<close>

fun is_mismatch_flag :: "quality_flag \<Rightarrow> bool" where
  "is_mismatch_flag (Attack_Type_Mismatch _ _ _ _ _ _) = True"
| "is_mismatch_flag (Attack_Target_Mismatch _ _ _ _ _ _) = True"
| "is_mismatch_flag (Spell_Type_Mismatch _ _ _ _ _ _) = True"
| "is_mismatch_flag (Spell_Target_Mismatch _ _ _ _ _ _) = True"
| "is_mismatch_flag (Npc_Attack_Type_Mismatch _ _ _ _ _ _ _) = True"
| "is_mismatch_flag (Npc_Attack_Target_Mismatch _ _ _ _ _ _ _) = True"
| "is_mismatch_flag _ = False"

fun is_large_gap_flag :: "quality_flag \<Rightarrow> bool" where
  "is_large_gap_flag (Large_Temporal_Gap _ _ _ _) = True"
| "is_large_gap_flag _ = False"

fun is_attack_mapped_flag :: "quality_flag \<Rightarrow> bool" where
  "is_attack_mapped_flag (Unexpected_Conflict _ _ _ _) = True"
| "is_attack_mapped_flag (Attack_Mapped_Not_Found _ _ _ _) = True"
| "is_attack_mapped_flag _ = False"

definition count_flags :: "(quality_flag \<Rightarrow> bool) \<Rightarrow> quality_flag list \<Rightarrow> rat" where
  "count_flags p flags = of_nat (length (filter p flags))"

definition content_confidence_of :: "confidence_weights \<Rightarrow> counters \<Rightarrow> quality_flag list \<Rightarrow> content_confidence" where
  "content_confidence_of w ct flags =
     (let disagreement = safe_div (count_flags is_mismatch_flag flags)
            (of_nat (ct_player_attacks ct + ct_player_spells ct + ct_npc_attacks ct));
          gap = safe_div (count_flags is_large_gap_flag flags) (of_nat (ct_stream_pairs ct));
          failure = safe_div (count_flags is_attack_mapped_flag flags) (of_nat (ct_attack_mapped ct));
          penalty = clamp (cw_disagreement w * disagreement + cw_large_gap w * gap + cw_attack_mapped_failure w * failure) 0 1
      in \<lparr>nc_value = 1 - penalty, nc_disagreement_rate = disagreement, nc_large_gap_rate = gap,
          nc_attack_mapped_failure_rate = failure\<rparr>)"

subsection \<open>Structure\<close>

definition score_segment ::
    "(rat \<Rightarrow> rat) \<Rightarrow> (rat \<Rightarrow> rat) \<Rightarrow> confidence_weights \<Rightarrow> rat \<Rightarrow> local_alignment \<Rightarrow> alignment \<Rightarrow> align_range \<Rightarrow> segment_confidence" where
  "score_segment ex lg w baseline la es r =
     (let d = segment_discriminability la es r;
          s = segment_bonus_support ex lg la es (cw_support_scale w) (cw_support_temperature w) baseline
      in \<lparr>sf_base_start = base_start r, sf_base_end = base_end r, sf_discriminability = d, sf_bonus_support = s,
          sf_score = noisy_or d s\<rparr>)"

text \<open>The weighted score, its weight, and the scored segments of the parts of one local alignment.\<close>

fun score_parts ::
    "(rat \<Rightarrow> rat) \<Rightarrow> (rat \<Rightarrow> rat) \<Rightarrow> confidence_weights \<Rightarrow> rat \<Rightarrow> local_alignment \<Rightarrow> partition_part list \<Rightarrow>
     rat \<times> rat \<times> segment_confidence list" where
  "score_parts ex lg w baseline la [] = (0, 0, [])"
| "score_parts ex lg w baseline la (Anchor b t # ps) =
     (let (num, den, segs) = score_parts ex lg w baseline la ps in (1 + num, 1 + den, segs))"
| "score_parts ex lg w baseline la (Segment es r # ps) =
     (let (num, den, segs) = score_parts ex lg w baseline la ps;
          seg = score_segment ex lg w baseline la es r;
          span = of_nat (base_end r) - of_nat (base_start r)
      in (sf_score seg * span + num, span + den, seg # segs))"

fun score_alignments ::
    "(rat \<Rightarrow> rat) \<Rightarrow> (rat \<Rightarrow> rat) \<Rightarrow> confidence_weights \<Rightarrow> rat \<Rightarrow> local_alignment list \<Rightarrow> rat \<times> rat \<times> segment_confidence list" where
  "score_alignments ex lg w baseline [] = (0, 0, [])"
| "score_alignments ex lg w baseline (la # las) =
     (let (num, den, segs) = score_parts ex lg w baseline la (partition_alignment la);
          (quality, merges, segs') = score_alignments ex lg w baseline las;
          count = of_nat (count_action is_MERGE [la])
      in if den = 0 then (quality, merges, segs @ segs')
         else (num / den * count + quality, count + merges, segs @ segs'))"

fun worst_segment :: "segment_confidence list \<Rightarrow> nat \<Rightarrow> (nat \<times> rat) option \<Rightarrow> nat option" where
  "worst_segment [] i worst = map_option fst worst"
| "worst_segment (s # ss) i worst =
     worst_segment ss (Suc i) (case worst of None \<Rightarrow> Some (i, sf_score s)
       | Some (j, v) \<Rightarrow> if sf_score s < v then Some (i, sf_score s) else Some (j, v))"

definition structural_confidence_of ::
    "(rat \<Rightarrow> rat) \<Rightarrow> (rat \<Rightarrow> rat) \<Rightarrow> confidence_weights \<Rightarrow> rat \<Rightarrow> alignment_result option \<Rightarrow> structural_confidence" where
  "structural_confidence_of ex lg w baseline alignment =
     (case alignment of
        None \<Rightarrow> \<lparr>tc_value = 1, tc_identity = True, tc_target_coverage = 1, tc_segments = [], tc_worst = None\<rparr>
      | Some res \<Rightarrow>
          (let (quality, merges, segs) = score_alignments ex lg w baseline (ar_alignments res)
           in \<lparr>tc_value = safe_div quality merges * ar_target_coverage res, tc_identity = False,
               tc_target_coverage = ar_target_coverage res, tc_segments = segs, tc_worst = worst_segment segs 0 None\<rparr>))"

definition score_step_confidence ::
    "(rat \<Rightarrow> rat) \<Rightarrow> (rat \<Rightarrow> rat) \<Rightarrow> confidence_weights \<Rightarrow> rat \<Rightarrow> alignment_result option \<Rightarrow> counters \<Rightarrow>
     quality_flag list \<Rightarrow> step_confidence" where
  "score_step_confidence ex lg w baseline alignment ct flags =
     (let content = content_confidence_of w ct flags; structural = structural_confidence_of ex lg w baseline alignment
      in \<lparr>pc_overall = cw_axis w * tc_value structural + (1 - cw_axis w) * nc_value content,
          pc_structural = structural, pc_content = content\<rparr>)"

subsection \<open>Nothing is lost by the partition\<close>

fun part_merges :: "local_alignment \<Rightarrow> partition_part \<Rightarrow> (nat \<times> nat) list" where
  "part_merges la (Anchor b t) = [(b, t)]"
| "part_merges la (Segment es r) = real_merges la es"

definition entry_merges :: "local_alignment \<Rightarrow> align_entry \<Rightarrow> (nat \<times> nat) list" where
  "entry_merges la e = real_merges la [e]"

lemma real_merges_entries: "real_merges la es = concat (map (entry_merges la) es)"
  by (induction es) (simp_all add: real_merges_def entry_merges_def)

lemma merge_plateau_None: "merge_plateau la e = None \<longleftrightarrow> entry_merges la e = []"
  by (cases e) (auto simp: merge_plateau_def entry_merges_def real_merges_def)

lemma plateau_cases:
  "is_anchor la idx \<or> is_ambiguous_merge la idx \<or> entry_merges la (la_entries la ! idx) = []"
  by (cases "merge_plateau la (la_entries la ! idx)")
    (auto simp: is_anchor_def is_ambiguous_merge_def plateau_def merge_plateau_None)

lemma anchor_merges:
  assumes "is_anchor la idx"
  shows "entry_merges la (la_entries la ! idx) = [(base_index (la_entries la ! idx), target_index (la_entries la ! idx))]"
  using assms
  by (cases "la_entries la ! idx")
    (auto simp: is_anchor_def plateau_def merge_plateau_def entry_merges_def real_merges_def split: if_splits)

lemma slice_nth: "b \<le> length xs \<Longrightarrow> slice a b xs = map ((!) xs) [a..<b]"
  by (rule nth_equalityI) (auto simp: slice_def)

text \<open>The ambiguous merges of a run of indices lie between the first and the last of them.\<close>

lemma upt_between_filter:
  assumes "filter P [a..<b] \<noteq> []"
  shows "a \<le> hd (filter P [a..<b]) \<and> hd (filter P [a..<b]) \<le> last (filter P [a..<b]) \<and> last (filter P [a..<b]) < b \<and>
    P (hd (filter P [a..<b])) \<and> P (last (filter P [a..<b])) \<and>
    (\<forall>i. a \<le> i \<and> i < b \<and> P i \<longrightarrow> hd (filter P [a..<b]) \<le> i \<and> i \<le> last (filter P [a..<b]))"
proof -
  let ?xs = "filter P [a..<b]"
  have mem: "hd ?xs \<in> set ?xs" "last ?xs \<in> set ?xs" using assms hd_in_set last_in_set by blast+
  have sorted: "sorted ?xs" by (rule sorted_filter [where f = id, simplified]) simp
  have "hd ?xs \<le> i \<and> i \<le> last ?xs" if "i \<in> set ?xs" for i
    using that sorted assms by (metis in_set_conv_nth hd_conv_nth last_conv_nth sorted_nth_mono
        le0 length_greater_0_conv less_imp_diff_less diff_less zero_less_one Suc_pred less_Suc_eq_le diff_Suc_1)
  then show ?thesis using mem by auto
qed

lemma upt_split_at: "a \<le> m \<Longrightarrow> m \<le> b \<Longrightarrow> [a..<b] = [a..<m] @ [m..<b]"
  by (metis le_add_diff_inverse upt_add_eq_append)

lemma flush_merges:
  assumes "b \<le> length (la_entries la)" and "\<forall>i \<in> set [a..<b]. \<not> is_anchor la i"
  shows "concat (map (part_merges la) (flush_pending la left right [a..<b])) =
    concat (map (\<lambda>i. entry_merges la (la_entries la ! i)) [a..<b])"
proof (cases "filter (is_ambiguous_merge la) [a..<b] = []")
  case True
  then have "\<forall>i \<in> set [a..<b]. entry_merges la (la_entries la ! i) = []"
    using assms(2) plateau_cases [of la] unfolding filter_empty_conv by blast
  then show ?thesis using True by (simp add: flush_pending_def)
next
  case False
  define f l where "f = hd (filter (is_ambiguous_merge la) [a..<b])" and "l = last (filter (is_ambiguous_merge la) [a..<b])"
  have fl: "a \<le> f" "f \<le> l" "l < b" and within: "\<And>i. a \<le> i \<Longrightarrow> i < b \<Longrightarrow> is_ambiguous_merge la i \<Longrightarrow> f \<le> i \<and> i \<le> l"
    using upt_between_filter [OF False] unfolding f_def l_def by blast+
  have none: "entry_merges la (la_entries la ! i) = []" if "a \<le> i" "i < b" "\<not> (f \<le> i \<and> i \<le> l)" for i
    using that within [of i] plateau_cases [of la i] assms(2) by auto
  have split: "[a..<b] = [a..<f] @ [f..<l + 1] @ [l + 1..<b]"
    using fl upt_split_at [of a f b] upt_split_at [of f "l + 1" b] by simp
  have "concat (map (\<lambda>i. entry_merges la (la_entries la ! i)) [a..<f]) = []"
    "concat (map (\<lambda>i. entry_merges la (la_entries la ! i)) [l + 1..<b]) = []"
    using fl by (auto intro!: none)
  note outside = this
  have "concat (map (\<lambda>i. entry_merges la (la_entries la ! i)) [a..<b]) =
      concat (map (\<lambda>i. entry_merges la (la_entries la ! i)) [f..<l + 1])"
    unfolding split map_append concat_append outside append_Nil append_Nil2 by (rule refl)
  then show ?thesis
    using False fl assms(1)
    by (simp add: flush_pending_def Let_def real_merges_entries slice_nth o_def del: upt_Suc flip: f_def l_def)
qed

lemma partition_loop_merges:
  assumes "a \<le> i" and "i \<le> length (la_entries la)" and "\<forall>j \<in> set [a..<i]. \<not> is_anchor la j"
  shows "concat (map (part_merges la) (partition_loop la prev [a..<i] [i..<length (la_entries la)])) =
    concat (map (\<lambda>j. entry_merges la (la_entries la ! j)) [a..<length (la_entries la)])"
  using assms
proof (induction "length (la_entries la) - i" arbitrary: a i prev)
  case 0
  then show ?case using flush_merges [of i la a prev None] by simp
next
  case (Suc d)
  let ?n = "length (la_entries la)"
  have i: "i < ?n" "[i..<?n] = i # [Suc i..<?n]" using Suc.hyps(2) by (auto simp: upt_conv_Cons)
  have split: "[a..<?n] = [a..<i] @ i # [Suc i..<?n]"
    using Suc.prems(1) i upt_split_at [of a i ?n] by simp
  show ?case
  proof (cases "is_anchor la i")
    case True
    define b t where "b = base_index (la_entries la ! i)" and "t = target_index (la_entries la ! i)"
    have "concat (map (part_merges la) (partition_loop la (Some (b, t)) [Suc i..<Suc i] [Suc i..<?n])) =
        concat (map (\<lambda>j. entry_merges la (la_entries la ! j)) [Suc i..<?n])"
      by (rule Suc.hyps(1)) (use Suc.hyps(2) i in auto)
    then show ?thesis
      using True flush_merges [of i la a prev "Some (b, t)"] Suc.prems anchor_merges [OF True]
      unfolding i(2) split by (simp add: Let_def flip: b_def t_def)
  next
    case False
    have "concat (map (part_merges la) (partition_loop la prev [a..<Suc i] [Suc i..<?n])) =
        concat (map (\<lambda>j. entry_merges la (la_entries la ! j)) [a..<?n])"
      by (rule Suc.hyps(1)) (use Suc i False in \<open>auto simp: less_Suc_eq\<close>)
    then show ?thesis using False Suc.prems(1) unfolding i(2) by simp
  qed
qed

lemma partition_merges: "concat (map (part_merges la) (partition_alignment la)) = real_merges la (la_entries la)"
  using partition_loop_merges [of 0 0 la None]
  by (simp add: partition_alignment_def real_merges_entries map_nth [of "la_entries la"] flip: map_map [unfolded o_def])

subsection \<open>Discriminability\<close>

lemma distinct_pairs_concat:
  "distinct bs \<Longrightarrow> (\<And>b. distinct (ts b)) \<Longrightarrow> distinct (concat (map (\<lambda>b. map (Pair b) (ts b)) bs))"
  by (induction bs) (auto simp: distinct_map inj_on_def)

lemma distinct_region_cells: "distinct (region_cells la r)"
  unfolding region_cells_def region_bases_def region_targets_def by (intro distinct_pairs_concat) auto

lemma share_of_paths_bounds: "0 < share_of_paths p \<and> share_of_paths p \<le> 1"
  by (auto simp: share_of_paths_def divide_le_eq)

lemma discriminability_bounds: "0 < segment_discriminability la es r \<and> segment_discriminability la es r \<le> 1"
  by (auto simp: segment_discriminability_def Let_def share_of_paths_bounds)

subsection \<open>Support\<close>

text \<open>What the code relies on of \<^verbatim>\<open>Math.exp\<close> and \<^verbatim>\<open>Math.log\<close>.\<close>

definition exp_log :: "(rat \<Rightarrow> rat) \<Rightarrow> (rat \<Rightarrow> rat) \<Rightarrow> bool" where
  "exp_log ex lg \<longleftrightarrow> mono ex \<and> ex 0 = 1 \<and> (\<forall>x. 0 < ex x) \<and> (\<forall>x y. 0 < x \<longrightarrow> x \<le> y \<longrightarrow> lg x \<le> lg y) \<and> (\<forall>x. lg (ex x) = x)"

lemma mean_bounds:
  fixes xs :: "rat list"
  assumes "xs \<noteq> []" and "\<forall>x \<in> set xs. lo \<le> x \<and> x \<le> hi"
  shows "lo \<le> sum_list xs / of_nat (length xs) \<and> sum_list xs / of_nat (length xs) \<le> hi"
proof -
  have "lo * of_nat (length xs) \<le> sum_list xs \<and> sum_list xs \<le> hi * of_nat (length xs)"
    using assms(2) by (induction xs) (auto simp: algebra_simps)
  then show ?thesis using assms(1) by (simp add: field_simps)
qed

lemma soft_min_bounds:
  assumes "exp_log ex lg" and "0 < temperature" and "\<forall>v \<in> set vs. 0 \<le> v \<and> v \<le> 1"
  shows "0 \<le> soft_min ex lg vs temperature \<and> soft_min ex lg vs temperature \<le> 1"
proof (cases "vs = []")
  case False
  let ?xs = "map (\<lambda>v. ex (- v / temperature)) vs"
  let ?m = "sum_list ?xs / of_nat (length ?xs)"
  have m: "mono ex" "ex 0 = 1" "0 < ex x" "0 < x \<Longrightarrow> x \<le> y \<Longrightarrow> lg x \<le> lg y" "lg (ex x) = x" for x y
    using assms(1) by (auto simp: exp_log_def)
  have "\<forall>x \<in> set ?xs. ex (- 1 / temperature) \<le> x \<and> x \<le> ex 0"
    using assms(2,3) by (auto intro!: monoD [OF m(1)] simp: divide_right_mono)
  then have "ex (- 1 / temperature) \<le> ?m \<and> ?m \<le> ex 0"
    by (intro mean_bounds) (use False in auto)
  then have "lg (ex (- 1 / temperature)) \<le> lg ?m \<and> lg ?m \<le> lg (ex 0)"
    by (meson less_le_trans m(3,4))
  then have "- 1 / temperature \<le> lg ?m \<and> lg ?m \<le> 0" by (simp only: m(5))
  then have "0 \<le> - temperature * lg ?m \<and> - temperature * lg ?m \<le> 1"
    using assms(2) by (simp add: field_simps mult_le_0_iff)
  then show ?thesis using False by (simp add: soft_min_def)
qed (simp add: soft_min_def)

lemma entry_supports_bounds:
  assumes "exp_log ex lg" and "0 < scale" and "\<And>i j. 0 \<le> margin_at la i j"
  shows "\<forall>v \<in> set (entry_supports ex la scale baseline b t es). 0 \<le> v \<and> v \<le> 1"
proof -
  have "0 \<le> 1 - ex (- m / scale) \<and> 1 - ex (- m / scale) \<le> 1" if "0 \<le> m" for m
  proof -
    have e: "mono ex" "ex 0 = 1" "0 < ex (- m / scale)" using assms(1) by (simp_all only: exp_log_def)
    have "- m / scale \<le> 0" using assms(2) that by simp
    from monoD [OF e(1) this] e(2,3) show ?thesis by simp
  qed
  note unit = this
  show ?thesis
  proof (induction es arbitrary: b t)
    case (Cons e es)
    obtain b' t' where pos: "b' = (case e of MERGE x y s \<Rightarrow> x | KEEP x \<Rightarrow> x | INSERT y \<Rightarrow> b)"
      "t' = (case e of MERGE x y s \<Rightarrow> y | KEEP x \<Rightarrow> t | INSERT y \<Rightarrow> y)" by blast
    define m where "m = (let margin = margin_at la (b' - base_start (la_range la)) (t' - target_start (la_range la))
      in if is_MERGE e then max 0 (margin - baseline) else margin)"
    have "0 \<le> m" using assms(3) by (auto simp: m_def Let_def)
    moreover have "set (entry_supports ex la scale baseline b t (e # es)) \<subseteq>
        insert (1 - ex (- m / scale)) (set (entry_supports ex la scale baseline b' t' es))"
      unfolding entry_supports.simps(2) m_def Let_def pos [symmetric] by (simp add: subset_insertI)
    ultimately show ?case using Cons.IH [of b' t'] unit [of m] by blast
  qed simp
qed

lemma noisy_or_bounds: "0 \<le> a \<Longrightarrow> a \<le> 1 \<Longrightarrow> 0 \<le> b \<Longrightarrow> b \<le> 1 \<Longrightarrow> 0 \<le> noisy_or a b \<and> noisy_or a b \<le> 1"
  using mult_le_one [of "1 - a" "1 - b"] by (simp add: noisy_or_def)

definition weights_ok :: "confidence_weights \<Rightarrow> bool" where
  "weights_ok w \<longleftrightarrow> 0 \<le> cw_axis w \<and> cw_axis w \<le> 1 \<and> 0 < cw_support_scale w \<and> 0 < cw_support_temperature w"

lemma score_segment_bounds:
  assumes "exp_log ex lg" and "weights_ok w" and "\<And>i j. 0 \<le> margin_at la i j"
  shows "0 \<le> sf_score (score_segment ex lg w baseline la es r) \<and> sf_score (score_segment ex lg w baseline la es r) \<le> 1"
proof -
  have "0 \<le> segment_bonus_support ex lg la es (cw_support_scale w) (cw_support_temperature w) baseline \<and>
      segment_bonus_support ex lg la es (cw_support_scale w) (cw_support_temperature w) baseline \<le> 1"
    unfolding segment_bonus_support_def using assms(2)
    by (intro soft_min_bounds [OF assms(1)] entry_supports_bounds [OF assms(1)] assms(3)) (simp_all add: weights_ok_def)
  then show ?thesis
    using discriminability_bounds [of la es r] by (simp add: score_segment_def Let_def noisy_or_bounds)
qed

subsection \<open>What the aligner guarantees\<close>

lemma mk_cell_margin: "0 \<le> c_margin (mk_cell cfg sim diag up left)"
  by (cases sim) (auto simp: mk_cell_def Let_def)

lemma fill_row_margins: "\<forall>c \<in> set (fill_row cfg ss us diag left). 0 \<le> c_margin c"
  by (induction cfg ss us diag left rule: fill_row.induct) (auto simp: Let_def mk_cell_margin)

lemma fill_rows_margins: "\<forall>row \<in> set (fill_rows cfg sss ups). \<forall>c \<in> set row. 0 \<le> c_margin c"
  by (induction cfg sss ups rule: fill_rows.induct) (auto simp: Let_def fill_row_margins)

definition margins_nonneg :: "local_alignment \<Rightarrow> bool" where
  "margins_nonneg la \<longleftrightarrow> (\<forall>row \<in> set (la_margin la). \<forall>m \<in> set row. 0 \<le> m)"

lemma margin_at_nonneg: "margins_nonneg la \<Longrightarrow> 0 \<le> margin_at la i j"
  by (auto simp: margin_at_def margins_nonneg_def dest: nth_mem)

lemma align_local_margins: "align_local cfg f base target r = Some (Some la) \<Longrightarrow> margins_nonneg la"
  using fill_rows_margins [of cfg "similarity_rows (score_similarity f base target) r" "replicate (target_end r - target_start r) 0"]
  by (auto simp: align_local_def Let_def margins_nonneg_def fill_matrices_def split: option.splits if_splits)

lemma align_over_all:
  assumes "\<And>r la. align_local cfg f base target r = Some (Some la) \<Longrightarrow> P la"
    and "align_over cfg f base target r acc = Some las" and "\<forall>la \<in> set acc. P la"
  shows "\<forall>la \<in> set las. P la"
  using assms
proof (induction cfg f base target r acc arbitrary: las rule: align_over.induct)
  case (1 cfg f base target r acc)
  note local = "1.prems"(1) and res = "1.prems"(2) and acc = "1.prems"(3)
  show ?case
  proof (cases "base_end r - base_start r < min_context cfg \<or> target_end r - target_start r < min_context cfg")
    case True
    then show ?thesis using res acc by (subst (asm) align_over.simps) simp
  next
    case ctx: False
    then obtain o1 where o1: "align_local cfg f base target r = Some o1"
      using res by (subst (asm) align_over.simps) (auto split: option.splits)
    show ?thesis
    proof (cases o1)
      case None
      then show ?thesis using res acc o1 ctx by (subst (asm) align_over.simps) simp
    next
      case (Some la)
      then obtain b1 t1 s1 b2 t2 s2 las1 where la: "la_entries la \<noteq> []" "hd (la_entries la) = MERGE b1 t1 s1"
          "last (la_entries la) = MERGE b2 t2 s2"
        and l: "align_over cfg f base target (r\<lparr>base_end := b1, target_end := t1\<rparr>) acc = Some las1"
        and u: "align_over cfg f base target (r\<lparr>base_start := b2 + 1, target_start := t2 + 1\<rparr>) (las1 @ [la]) = Some las"
        using res o1 ctx by (subst (asm) align_over.simps) (auto split: option.splits if_splits align_entry.splits)
      note IH = "1.IH" [OF ctx o1 Some la(1) refl la(2,3)]
      have "\<forall>la \<in> set las1. P la" by (rule IH(1) [OF local l acc])
      moreover have "P la" using local o1 Some by simp
      ultimately show ?thesis by (intro IH(2) [OF l local u]) auto
    qed
  qed
qed

lemma align_bases_sorted:
  assumes "0 < gap_open_penalty cfg" and "0 < min_score cfg" and "align cfg f base target = Some res"
  shows "\<forall>la \<in> set (ar_alignments res). sorted_wrt (<) (bases (la_entries la)) \<and> margins_nonneg la"
proof -
  obtain las where las: "align_over cfg f base target (full_range base target) [] = Some las" "ar_alignments res = las"
    using assms(3) by (auto simp: align_def Let_def split: option.splits)
  have "valid_within cfg (score_similarity f base target) (full_range base target) las"
    using align_over_valid [OF assms(1,2), of f base target "full_range base target" "[]"] las by auto
  then have "sorted_wrt (<) (concat (map (\<lambda>la. bases (la_entries la)) las))"
    by (simp add: valid_within_def increasing_within_def all_entries_def bases_def List.map_filter_def filter_concat map_concat o_def)
  then have "\<forall>la \<in> set las. sorted_wrt (<) (bases (la_entries la))"
    by (induction las) (auto simp: sorted_wrt_append)
  moreover have "\<forall>la \<in> set las. margins_nonneg la"
    using align_over_all [OF align_local_margins las(1)] by simp
  ultimately show ?thesis using las(2) by blast
qed

subsection \<open>The regions of segments\<close>

lemma bases_nth_less:
  assumes "sorted_wrt (<) (bases es)" and "i < j" and "j < length es" and "base_of (es ! i) = Some x" and "base_of (es ! j) = Some y"
  shows "x < y"
proof -
  have "es ! i \<in> set (take j es)" "es ! j \<in> set (drop j es)"
    using assms(2,3) by (auto simp: in_set_conv_nth intro: exI [of _ i] exI [of _ 0])
  then have "x \<in> set (bases (take j es))" "y \<in> set (bases (drop j es))"
    unfolding bases_def set_map_filter_conv using assms(4,5) by blast+
  moreover have "sorted_wrt (<) (bases (take j es) @ bases (drop j es))"
    using assms(1) by (metis append_take_drop_id bases_append)
  ultimately show ?thesis by (auto simp: sorted_wrt_append)
qed

lemma ambiguous_base: "is_ambiguous_merge la i \<Longrightarrow> base_of (la_entries la ! i) = Some (base_index (la_entries la ! i))"
  by (cases "la_entries la ! i") (auto simp: is_ambiguous_merge_def plateau_def merge_plateau_def)

lemma anchor_base: "is_anchor la i \<Longrightarrow> base_of (la_entries la ! i) = Some (base_index (la_entries la ! i))"
  by (cases "la_entries la ! i") (auto simp: is_anchor_def plateau_def merge_plateau_def)

definition base_at :: "local_alignment \<Rightarrow> nat \<Rightarrow> nat option" where
  "base_at la k = base_of (la_entries la ! k)"

fun part_spans :: "partition_part \<Rightarrow> bool" where
  "part_spans (Anchor b t) = True"
| "part_spans (Segment es r) = (base_start r \<le> base_end r)"

lemma flush_spans:
  assumes "sorted_wrt (<) (bases (la_entries la))" and "b \<le> length (la_entries la)"
    and "\<And>x t k y. left = Some (x, t) \<Longrightarrow> k \<in> {a..<b} \<Longrightarrow> base_at la k = Some y \<Longrightarrow> x < y"
    and "\<And>x t k y. right = Some (x, t) \<Longrightarrow> k \<in> {a..<b} \<Longrightarrow> base_at la k = Some y \<Longrightarrow> y < x"
  shows "list_all part_spans (flush_pending la left right [a..<b])"
proof (cases "filter (is_ambiguous_merge la) [a..<b] = []")
  case False
  define f l where "f = hd (filter (is_ambiguous_merge la) [a..<b])" and "l = last (filter (is_ambiguous_merge la) [a..<b])"
  have fl: "a \<le> f" "f \<le> l" "l < b" and amb: "is_ambiguous_merge la f" "is_ambiguous_merge la l"
    using upt_between_filter [OF False] unfolding f_def l_def by blast+
  define x y where "x = base_index (la_entries la ! f)" and "y = base_index (la_entries la ! l)"
  have at: "base_at la f = Some x" "base_at la l = Some y"
    using amb by (simp_all add: base_at_def ambiguous_base x_def y_def)
  have "x \<le> y"
    using bases_nth_less [OF assms(1), of f l x y] at fl assms(2) by (cases "f = l") (auto simp: base_at_def)
  have ends: "hd (slice f (l + 1) (la_entries la)) = la_entries la ! f" "last (slice f (l + 1) (la_entries la)) = la_entries la ! l"
    using fl assms(2) by (simp_all add: slice_nth hd_map last_map del: upt_Suc)
  define r where "r = segment_region la left right (slice f (l + 1) (la_entries la))"
  have "base_start r = (case left of Some (b, t) \<Rightarrow> b + 1 | None \<Rightarrow> x)" "base_end r = (case right of Some (b, t) \<Rightarrow> b | None \<Rightarrow> y + 1)"
    unfolding r_def segment_region_def Let_def ends x_def y_def by simp_all
  moreover have "left = Some (b', t) \<Longrightarrow> b' < x" "right = Some (b', t) \<Longrightarrow> y < b'" for b' t
    using assms(3) [of b' t f x] assms(4) [of b' t l y] at fl by auto
  ultimately have "base_start r \<le> base_end r"
    using \<open>x \<le> y\<close> by (fastforce split: option.splits)
  then show ?thesis using False by (simp add: flush_pending_def Let_def r_def flip: f_def l_def)
qed (simp add: flush_pending_def)

lemma partition_loop_spans:
  assumes "sorted_wrt (<) (bases (la_entries la))" and "a \<le> i" and "i \<le> length (la_entries la)"
    and "\<And>x t k y. prev = Some (x, t) \<Longrightarrow> a \<le> k \<Longrightarrow> k < length (la_entries la) \<Longrightarrow> base_at la k = Some y \<Longrightarrow> x < y"
  shows "list_all part_spans (partition_loop la prev [a..<i] [i..<length (la_entries la)])"
  using assms(2-)
proof (induction "length (la_entries la) - i" arbitrary: a i prev)
  case 0
  then have "list_all part_spans (flush_pending la prev None [a..<i])"
    by (intro flush_spans [OF assms(1)]) auto
  then show ?case using 0 by simp
next
  case (Suc d)
  let ?n = "length (la_entries la)"
  have i: "i < ?n" "[i..<?n] = i # [Suc i..<?n]" using Suc.hyps(2) by (auto simp: upt_conv_Cons)
  show ?case
  proof (cases "is_anchor la i")
    case True
    define b t where "b = base_index (la_entries la ! i)" and "t = target_index (la_entries la ! i)"
    have at: "base_at la i = Some b" using anchor_base [OF True] by (simp add: base_at_def b_def)
    have "list_all part_spans (flush_pending la prev (Some (b, t)) [a..<i])"
    proof (rule flush_spans [OF assms(1) Suc.prems(2)])
      show "x < y" if "prev = Some (x, t)" "k \<in> {a..<i}" "base_at la k = Some y" for x t k y
        using Suc.prems(3) [of x t k y] that i by simp
      show "y < x" if "Some (b, t) = Some (x, t')" "k \<in> {a..<i}" "base_at la k = Some y" for x t' k y
        using bases_nth_less [OF assms(1) _ i(1), of k y x] that at by (simp add: base_at_def)
    qed
    moreover have "list_all part_spans (partition_loop la (Some (b, t)) [Suc i..<Suc i] [Suc i..<?n])"
    proof (rule Suc.hyps(1))
      show "x < y" if "Some (b, t) = Some (x, t')" "Suc i \<le> k" "k < ?n" "base_at la k = Some y" for x t' k y
        using bases_nth_less [OF assms(1) _ that(3), of i x y] that at by (simp add: base_at_def)
    qed (use Suc.hyps(2) i in auto)
    ultimately show ?thesis using True unfolding i(2) by (simp add: Let_def flip: b_def t_def)
  next
    case False
    have "list_all part_spans (partition_loop la prev [a..<Suc i] [Suc i..<?n])"
      using Suc i by (intro Suc.hyps(1)) auto
    then show ?thesis using False Suc.prems(1) unfolding i(2) by simp
  qed
qed

lemma partition_spans: "sorted_wrt (<) (bases (la_entries la)) \<Longrightarrow> list_all part_spans (partition_alignment la)"
  using partition_loop_spans [of la 0 0 None] by (simp add: partition_alignment_def)

subsection \<open>The score lies between 0 and 1\<close>

lemma score_parts_bounds:
  assumes "exp_log ex lg" and "weights_ok w" and "margins_nonneg la" and "list_all part_spans ps"
    and "score_parts ex lg w baseline la ps = (num, den, segs)"
  shows "0 \<le> num \<and> num \<le> den"
  using assms(4,5)
proof (induction ps arbitrary: num den segs)
  case (Cons p ps)
  obtain num' den' segs' where rest: "score_parts ex lg w baseline la ps = (num', den', segs')" by (rule prod_cases3)
  have IH: "0 \<le> num' \<and> num' \<le> den'" using Cons.IH [OF _ rest] Cons.prems(1) by simp
  show ?case
  proof (cases p)
    case (Anchor b t)
    then show ?thesis using IH rest Cons.prems(2) by auto
  next
    case (Segment es r)
    define v where "v = sf_score (score_segment ex lg w baseline la es r)"
    define span where "span = (of_nat (base_end r) - of_nat (base_start r) :: rat)"
    have "0 \<le> v" "v \<le> 1" "0 \<le> span"
      using score_segment_bounds [OF assms(1,2) margin_at_nonneg [OF assms(3)]] Cons.prems(1) Segment
      by (simp_all add: v_def span_def)
    then have "0 \<le> v * span \<and> v * span \<le> span" by (simp add: mult_left_le_one_le)
    then show ?thesis using IH rest Cons.prems(2) Segment by (auto simp: Let_def simp flip: v_def span_def)
  qed
qed simp

lemma score_alignments_bounds:
  assumes "exp_log ex lg" and "weights_ok w"
    and "\<forall>la \<in> set las. sorted_wrt (<) (bases (la_entries la)) \<and> margins_nonneg la"
    and "score_alignments ex lg w baseline las = (quality, merges, segs)"
  shows "0 \<le> quality \<and> quality \<le> merges"
  using assms(3,4)
proof (induction las arbitrary: quality merges segs)
  case (Cons la las)
  obtain num den sg where parts: "score_parts ex lg w baseline la (partition_alignment la) = (num, den, sg)" by (rule prod_cases3)
  obtain q m sg' where rest: "score_alignments ex lg w baseline las = (q, m, sg')" by (rule prod_cases3)
  have IH: "0 \<le> q \<and> q \<le> m" using Cons.IH [OF _ rest] Cons.prems(1) by simp
  have nd: "0 \<le> num \<and> num \<le> den"
    using score_parts_bounds [OF assms(1,2) _ partition_spans parts] Cons.prems(1) by simp
  show ?case
  proof (cases "den = 0")
    case True
    then show ?thesis using IH parts rest Cons.prems(2) by auto
  next
    case False
    define c where "c = (of_nat (count_action is_MERGE [la]) :: rat)"
    have "0 \<le> num / den" "num / den \<le> 1" using nd False by (simp_all add: divide_le_eq)
    then have "0 \<le> num / den * c \<and> num / den * c \<le> c" 
      using mult_left_le_one_le [of c "num / den"] mult_nonneg_nonneg [of "num / den" c] by (simp only: c_def of_nat_0_le_iff simp_thms)
    then show ?thesis using IH parts rest Cons.prems(2) False by (auto simp: Let_def simp flip: c_def)
  qed
qed simp

lemma clamp_unit: "0 \<le> clamp v 0 1 \<and> clamp v 0 1 \<le> 1"
  by (auto simp: clamp_def)

lemma convex_unit:
  fixes a x y :: rat
  assumes "0 \<le> a" "a \<le> 1" "0 \<le> x" "x \<le> 1" "0 \<le> y" "y \<le> 1"
  shows "0 \<le> a * x + (1 - a) * y \<and> a * x + (1 - a) * y \<le> 1"
  using convex_bound_le [of x 1 y a "1 - a"] assms by (simp add: add_nonneg_nonneg)

lemma structural_bounds:
  assumes "exp_log ex lg" and "weights_ok w"
    and "\<And>res. alignment = Some res \<Longrightarrow> 0 \<le> ar_target_coverage res \<and> ar_target_coverage res \<le> 1 \<and>
      (\<forall>la \<in> set (ar_alignments res). sorted_wrt (<) (bases (la_entries la)) \<and> margins_nonneg la)"
  shows "0 \<le> tc_value (structural_confidence_of ex lg w baseline alignment) \<and>
    tc_value (structural_confidence_of ex lg w baseline alignment) \<le> 1"
proof (cases alignment)
  case (Some res)
  obtain q m segs where sc: "score_alignments ex lg w baseline (ar_alignments res) = (q, m, segs)" by (rule prod_cases3)
  have "0 \<le> q \<and> q \<le> m" using score_alignments_bounds [OF assms(1,2) _ sc] assms(3) [OF Some] by blast
  then have "0 \<le> safe_div q m \<and> safe_div q m \<le> 1" by (simp add: safe_div_def divide_le_eq)
  then show ?thesis
    using assms(3) [OF Some] Some sc by (simp add: structural_confidence_of_def mult_le_one)
qed (simp add: structural_confidence_of_def)

subsection \<open>Properties\<close>

text \<open>Partitioning an alignment loses no evidence: read in order, the anchors and the merges of the segments are
  exactly the merges of the alignment between ticks both clients recorded, each once.
\<close>

theorem partition_keeps_merges:
  "concat (map (part_merges la) (partition_alignment la)) = real_merges la (la_entries la)"
  by (rule partition_merges)

text \<open>The discriminability of a segment whose region is not too large is the reciprocal of the number of ways its merges
  could have been placed on compatible cells in order, or 1 when there is no way; it is always positive and at most 1.
\<close>

theorem discriminability_counts_placements:
  "0 < segment_discriminability la es r \<and> segment_discriminability la es r \<le> 1 \<and>
   (length (region_bases la r) * length (region_targets la r) \<le> max_exact_region \<longrightarrow>
      segment_discriminability la es r = share_of_paths (of_nat (card
        {S. S \<subseteq> set (region_cells la r) \<and> card S = length (real_merges la es) \<and> is_matching S})))"
  by (simp add: discriminability_bounds) (simp add: segment_discriminability_def count_matchings_card distinct_region_cells)

text \<open>Whatever the aligner returns, and also when a step was identity mapped, the structural, the content and the
  overall confidence of a step lie between 0 and 1, so they can be compared with the acceptance threshold.
\<close>

theorem step_confidence_unit:
  assumes "exp_log ex lg" and "weights_ok w" and "0 < gap_open_penalty cfg" and "0 < min_score cfg"
    and "alignment = None \<or> alignment = align cfg f base target"
    and "c = score_step_confidence ex lg w baseline alignment counts flags"
  shows "0 \<le> pc_overall c \<and> pc_overall c \<le> 1 \<and> 0 \<le> tc_value (pc_structural c) \<and> tc_value (pc_structural c) \<le> 1 \<and>
    0 \<le> nc_value (pc_content c) \<and> nc_value (pc_content c) \<le> 1"
proof -
  have s: "0 \<le> tc_value (structural_confidence_of ex lg w baseline alignment) \<and>
      tc_value (structural_confidence_of ex lg w baseline alignment) \<le> 1"
  proof (rule structural_bounds [OF assms(1,2)])
    fix res assume "alignment = Some res"
    then have "align cfg f base target = Some res" using assms(5) by auto
    then show "0 \<le> ar_target_coverage res \<and> ar_target_coverage res \<le> 1 \<and>
        (\<forall>la \<in> set (ar_alignments res). sorted_wrt (<) (bases (la_entries la)) \<and> margins_nonneg la)"
      using align_bases_sorted [OF assms(3,4)] align_coverage [OF assms(3,4)] by blast
  qed
  have n: "0 \<le> nc_value (content_confidence_of w counts flags) \<and> nc_value (content_confidence_of w counts flags) \<le> 1"
    using clamp_unit by (simp add: content_confidence_of_def Let_def)
  show ?thesis
    unfolding assms(6) score_step_confidence_def Let_def
    using s n assms(2) by (simp add: convex_unit weights_ok_def)
qed

subsection \<open>Witnesses\<close>

definition sample_ex :: "rat \<Rightarrow> rat" where
  "sample_ex x = (if 0 \<le> x then 1 + x else 1 / (1 - x))"

definition sample_lg :: "rat \<Rightarrow> rat" where
  "sample_lg y = (if 1 \<le> y then y - 1 else 1 - 1 / y)"

lemma sample_exp_log: "exp_log sample_ex sample_lg"
proof -
  have "mono sample_ex"
  proof (rule monoI)
    fix x y :: rat assume "x \<le> y"
    show "sample_ex x \<le> sample_ex y"
    proof (cases "0 \<le> x \<or> y < 0")
      case True
      then show ?thesis using \<open>x \<le> y\<close> by (auto simp: sample_ex_def frac_le)
    next
      case False
      then have "sample_ex x \<le> 1" "1 \<le> sample_ex y" by (simp_all add: sample_ex_def)
      then show ?thesis by (rule order_trans)
    qed
  qed
  moreover have "sample_lg x \<le> sample_lg y" if "0 < x" "x \<le> y" for x y
  proof (cases "1 \<le> x \<or> y < 1")
    case True
    then show ?thesis using that by (auto simp: sample_lg_def frac_le)
  next
    case False
    then have "1 \<le> 1 / x" "1 \<le> y" using that by simp_all
    then show ?thesis using False by (simp add: sample_lg_def)
  qed
  moreover have "sample_lg (sample_ex x) = x" for x by (auto simp: sample_lg_def sample_ex_def)
  ultimately show ?thesis by (auto simp: exp_log_def sample_ex_def)
qed

lemma default_weights_ok: "weights_ok default_confidence_weights"
  by (simp add: weights_ok_def default_confidence_weights_def)

definition sample_counters :: counters where
  "sample_counters = \<lparr>ct_player_attacks = 4, ct_player_spells = 0, ct_npc_attacks = 0, ct_stream_pairs = 1, ct_attack_mapped = 0\<rparr>"

definition sample_confidence :: step_confidence where
  "sample_confidence = score_step_confidence sample_ex sample_lg default_confidence_weights 0
     (align sample_config sample_similarity sample_base sample_target) sample_counters [Attack_Type_Mismatch 0 ''p'' 1 9 7 8]"

theorem step_confidence_unit_witness:
  "pc_overall sample_confidence \<le> 1 \<and> nc_value (pc_content sample_confidence) = 17 / 20"
proof -
  have "0 < gap_open_penalty sample_config" "0 < min_score sample_config" by (simp_all add: sample_config_def)
  from step_confidence_unit [OF sample_exp_log default_weights_ok this disjI2 [OF refl], OF sample_confidence_def]
  have "pc_overall sample_confidence \<le> 1" by blast
  moreover have "nc_value (pc_content sample_confidence) = 17 / 20"
    by (simp add: sample_confidence_def score_step_confidence_def content_confidence_of_def Let_def sample_counters_def
      count_flags_def safe_div_def clamp_def default_confidence_weights_def)
  ultimately show ?thesis by blast
qed

definition sample_local :: local_alignment where
  "sample_local = \<lparr>la_entries = [MERGE 0 0 1], la_range = \<lparr>base_start = 0, base_end = 1, target_start = 0, target_end = 2\<rparr>,
     la_similarity = [[Some 1, Some 1]], la_margin = [[1, 0]], la_base_null = [], la_target_null = []\<rparr>"

theorem discriminability_counts_placements_witness:
  "segment_discriminability sample_local [MERGE 0 0 1] (la_range sample_local) =
     share_of_paths (of_nat (card {S. S \<subseteq> set (region_cells sample_local (la_range sample_local)) \<and>
       card S = length (real_merges sample_local [MERGE 0 0 1]) \<and> is_matching S})) \<and>
   segment_discriminability sample_local [MERGE 0 0 1] (la_range sample_local) = 1 / 2"
proof
  have "length (region_bases sample_local (la_range sample_local)) * length (region_targets sample_local (la_range sample_local)) \<le> max_exact_region"
    by code_simp
  with discriminability_counts_placements [of sample_local "[MERGE 0 0 1]" "la_range sample_local"]
  show "segment_discriminability sample_local [MERGE 0 0 1] (la_range sample_local) =
     share_of_paths (of_nat (card {S. S \<subseteq> set (region_cells sample_local (la_range sample_local)) \<and>
       card S = length (real_merges sample_local [MERGE 0 0 1]) \<and> is_matching S}))" by blast
  show "segment_discriminability sample_local [MERGE 0 0 1] (la_range sample_local) = 1 / 2" by code_simp
qed

end
