(* ===== verification/Derivation.thy ===== *)
theory Derivation
  imports Npc_Ids Trusted_Prefixes
begin

text \<open>
  Events derived from the merged timeline (\<^verbatim>\<open>challenge-server/merging/derivation.ts\<close>): stalls, cleanup and boss spawn
  of the Nylocas, the red crabs of Verzik, and the maze pivots of Sotetseg united over the merged clients.
\<close>

subsection \<open>Nylocas\<close>

definition final_nylo_wave :: int where
  "final_nylo_wave = 31"

definition nylo_wave_cycle :: int where
  "nylo_wave_cycle = 4"

definition find_boss_npc :: "tick_state \<Rightarrow> npc_state option" where
  "find_boss_npc ts =
     map_option snd (List.find (\<lambda>(_, n). is_nylocas_vasilias (ns_id n) \<or> is_nylocas_vasilias_dropping (ns_id n)) (ts_npcs ts))"

definition count_nylos_alive :: "tick_state \<Rightarrow> int" where
  "count_nylos_alive ts =
     sum_list (map (\<lambda>(_, n). if is_nylocas (ns_id n) then 1 else if is_nylocas_prinkipas (ns_id n) then 3 else 0) (ts_npcs ts))"

definition basic_nylo_event :: "event_type \<Rightarrow> event" where
  "basic_nylo_event ty = blank_event ty TOB_NYLOCAS 0 0 0"

definition stall_event :: "tick_state \<Rightarrow> int \<Rightarrow> int \<Rightarrow> event" where
  "stall_event ts wave cap =
     (basic_nylo_event TOB_NYLO_WAVE_STALL)\<lparr>ev_nylo_wave := Some wave, ev_nylos_alive := count_nylos_alive ts, ev_room_cap := cap\<rparr>"

definition boss_spawn_event :: "npc_state \<Rightarrow> event" where
  "boss_spawn_event b = (basic_nylo_event TOB_NYLO_BOSS_SPAWN)\<lparr>ev_x := ns_x b, ev_y := ns_y b\<rparr>"

definition emit :: "event \<Rightarrow> tick_state \<Rightarrow> tick_state" where
  "emit e ts = add_synthetic_events [e\<lparr>ev_tick := ts_tick ts\<rparr>] ts"

definition first_wave_spawn :: "tick_state \<Rightarrow> event option" where
  "first_wave_spawn ts = (case get_events_by_type TOB_NYLO_WAVE_SPAWN ts of [] \<Rightarrow> None | e # _ \<Rightarrow> Some e)"

text \<open>A tick without boss or wave spawn: the end of the cleanup, or a stall.\<close>

definition nylo_idle :: "int \<Rightarrow> int \<Rightarrow> int \<Rightarrow> int \<Rightarrow> tick_state option \<Rightarrow> tick_state option \<times> int \<times> int" where
  "nylo_idle wave cap nst t x =
     (if wave = final_nylo_wave
      then (case x of
          None \<Rightarrow> (None, wave, nst)
        | Some ts \<Rightarrow> if count_nylos_alive ts = 0 then (Some (emit (basic_nylo_event TOB_NYLO_CLEANUP_END) ts), 0, -1)
                     else (Some ts, wave, nst))
      else if t = nst
      then (case x of
          None \<Rightarrow> (None, wave, nst + nylo_wave_cycle)
        | Some ts \<Rightarrow> (Some (if count_nylos_alive ts \<ge> cap then emit (stall_event ts wave cap) ts else ts),
            wave, nst + nylo_wave_cycle))
      else (x, wave, nst))"

fun nylo_loop :: "challenge_mode \<Rightarrow> int \<Rightarrow> int \<Rightarrow> int \<Rightarrow> int \<Rightarrow> tick_state option list \<Rightarrow> tick_state option list option" where
  "nylo_loop mode wave cap nst t [] = Some []"
| "nylo_loop mode wave cap nst t (x # rest) =
     (case (Option.bind x find_boss_npc, Option.bind x first_wave_spawn) of
        (Some b, _) \<Rightarrow> Some (map_option (emit (boss_spawn_event b)) x # rest)
      | (None, Some e) \<Rightarrow>
          (case ev_nylo_wave e of
             None \<Rightarrow> None
           | Some w \<Rightarrow> (case natural_stall_for_wave mode w of
               None \<Rightarrow> None
             | Some s \<Rightarrow> map_option ((#) x) (nylo_loop mode w (ev_room_cap e) (ev_tick e + s) (t + 1) rest)))
      | (None, None) \<Rightarrow>
          (let (x', wave', nst') = nylo_idle wave cap nst t x
           in map_option ((#) x') (nylo_loop mode wave' cap nst' (t + 1) rest)))"

definition derive_nylocas :: "challenge_mode \<Rightarrow> tick_state option list \<Rightarrow> tick_state option list option" where
  "derive_nylocas mode ticks = nylo_loop mode 0 0 (-1) 0 ticks"

subsection \<open>Verzik\<close>

definition has_red_spawn :: "tick_state \<Rightarrow> bool" where
  "has_red_spawn ts \<longleftrightarrow>
     list_ex (\<lambda>e. case ev_npc e of None \<Rightarrow> False | Some n \<Rightarrow> is_verzik_matomenos (nm_id n)) (get_events_by_type NPC_SPAWN ts)"

fun derive_verzik :: "tick_state option list \<Rightarrow> tick_state option list" where
  "derive_verzik [] = []"
| "derive_verzik (None # rest) = None # derive_verzik rest"
| "derive_verzik (Some ts # rest) =
     (if has_red_spawn ts then Some (emit (blank_event TOB_VERZIK_REDS_SPAWN TOB_VERZIK 0 0 0) ts) # rest
      else Some ts # derive_verzik rest)"

definition derive_events :: "stage \<Rightarrow> challenge_mode \<Rightarrow> tick_state option list \<Rightarrow> tick_state option list option" where
  "derive_events stage mode ticks =
     (if stage = TOB_NYLOCAS then derive_nylocas mode ticks
      else if stage = TOB_VERZIK then Some (derive_verzik ticks)
      else Some ticks)"

subsection \<open>Sotetseg\<close>

record maze_pivots =
  mz_overworld :: "(string, coords \<times> int) omap"
  mz_underworld :: "(string, coords \<times> int) omap"

definition add_pivot :: "int \<Rightarrow> coords \<Rightarrow> (string, coords \<times> int) omap \<Rightarrow> (string, coords \<times> int) omap" where
  "add_pivot source c m = (if map_of m (coord_key c) = None then AList.update (coord_key c) (c, source) m else m)"

definition add_maze :: "int \<Rightarrow> sote_pivots \<Rightarrow> (int, maze_pivots) omap \<Rightarrow> (int, maze_pivots) omap" where
  "add_maze source p by_maze =
     (let entry = (case map_of by_maze (sp_maze p) of None \<Rightarrow> \<lparr>mz_overworld = [], mz_underworld = []\<rparr> | Some z \<Rightarrow> z)
      in AList.update (sp_maze p)
           (entry\<lparr>mz_overworld := fold (add_pivot source) (sp_overworld p) (mz_overworld entry),
              mz_underworld := fold (add_pivot source) (sp_underworld p) (mz_underworld entry)\<rparr>) by_maze)"

definition add_client_pivots :: "int \<times> registered_client \<Rightarrow> (int, maze_pivots) omap \<Rightarrow> (int, maze_pivots) omap" where
  "add_client_pivots irc by_maze =
     (if rc_status (snd irc) \<noteq> MERGED then by_maze
      else fold (add_maze (fst irc)) (ce_pivots (rc_client (snd irc))) by_maze)"

definition collect_pivots :: "merge_context \<Rightarrow> (int, maze_pivots) omap" where
  "collect_pivots cx = fold add_client_pivots (cx_clients cx) []"

fun maze_end_ticks :: "nat \<Rightarrow> tick_state option list \<Rightarrow> (int, nat) omap \<Rightarrow> (int, nat) omap" where
  "maze_end_ticks t [] m = m"
| "maze_end_ticks t (None # rest) m = maze_end_ticks (Suc t) rest m"
| "maze_end_ticks t (Some ts # rest) m =
     maze_end_ticks (Suc t) rest
       (fold (\<lambda>e m. case ev_sote e of None \<Rightarrow> m | Some s \<Rightarrow> AList.update (so_maze s) t m)
         (get_events_by_type TOB_SOTE_MAZE_END ts) m)"

definition sorted_pivots :: "(string, coords \<times> int) omap \<Rightarrow> coords list" where
  "sorted_pivots m = sort_key snd (map (\<lambda>x. fst (snd x)) m)"

definition maze_path_event :: "nat \<Rightarrow> int \<Rightarrow> maze_pivots \<Rightarrow> event" where
  "maze_path_event t maze z =
     (blank_event TOB_SOTE_MAZE_PATH TOB_SOTETSEG (int t) 0 0)\<lparr>ev_sote := Some
        \<lparr>so_maze = maze, so_overworld_tiles = [], so_overworld_pivots = sorted_pivots (mz_overworld z),
         so_underworld_pivots = sorted_pivots (mz_underworld z),
         so_chosen = None\<rparr>\<rparr>"

definition place_maze_path :: "(int, nat) omap \<Rightarrow> int \<times> maze_pivots \<Rightarrow> tick_state option list \<Rightarrow> tick_state option list" where
  "place_maze_path ends mz ticks =
     (case map_of ends (fst mz) of
        None \<Rightarrow> ticks
      | Some t \<Rightarrow> (case ticks ! t of
          None \<Rightarrow> ticks
        | Some ts \<Rightarrow> ticks[t := Some (add_synthetic_events [maze_path_event t (fst mz) (snd mz)] ts)]))"

definition merge_sote_pivots :: "merge_context \<Rightarrow> tick_state option list \<Rightarrow> tick_state option list" where
  "merge_sote_pivots cx ticks =
     (let by_maze = collect_pivots cx in
      if by_maze = [] then ticks else fold (place_maze_path (maze_end_ticks 0 ticks [])) by_maze ticks)"

definition merge_stage_data :: "merge_context \<Rightarrow> tick_state option list \<Rightarrow> tick_state option list" where
  "merge_stage_data cx ticks = (if cx_stage cx = TOB_SOTETSEG then merge_sote_pivots cx ticks else ticks)"

subsection \<open>Which events the Nylocas room derives\<close>

text \<open>
  The event of one tick, from the ticks before it: the boss spawn at the first tick with the boss and nothing
  afterwards; nothing at a wave spawn; after the last wave the cleanup at the first tick without Nylocas; after any other
  wave a stall at every fourth tick from the end of its natural stall at which the room is at its cap.
\<close>

fun room_spawns :: "int \<Rightarrow> tick_state option list \<Rightarrow> (int \<times> event) list" where
  "room_spawns t [] = []"
| "room_spawns t (x # rest) =
     (case Option.bind x first_wave_spawn of None \<Rightarrow> [] | Some e \<Rightarrow> [(t, e)]) @ room_spawns (t + 1) rest"

definition has_boss :: "tick_state option \<Rightarrow> bool" where
  "has_boss x \<longleftrightarrow> Option.bind x find_boss_npc \<noteq> None"

definition room_cleared :: "tick_state option \<Rightarrow> bool" where
  "room_cleared x \<longleftrightarrow> (case x of None \<Rightarrow> False | Some ts \<Rightarrow> count_nylos_alive ts = 0)"

definition wave_event :: "challenge_mode \<Rightarrow> tick_state option list \<Rightarrow> int \<times> event \<Rightarrow> tick_state \<Rightarrow> event option" where
  "wave_event mode before ie ts =
     (let (i, e) = ie in
      case ev_nylo_wave e of
        None \<Rightarrow> None
      | Some w \<Rightarrow> (case natural_stall_for_wave mode w of
          None \<Rightarrow> None
        | Some s \<Rightarrow>
            if w = final_nylo_wave
            then (if count_nylos_alive ts = 0 \<and> \<not> list_ex room_cleared (drop (nat i + 1) before)
                  then Some (basic_nylo_event TOB_NYLO_CLEANUP_END) else None)
            else (let d = int (length before) - (i + s)
                  in if 0 \<le> d \<and> d mod nylo_wave_cycle = 0 \<and> count_nylos_alive ts \<ge> ev_room_cap e
                     then Some (stall_event ts w (ev_room_cap e)) else None)))"

definition nylo_event :: "challenge_mode \<Rightarrow> tick_state option list \<Rightarrow> tick_state \<Rightarrow> event option" where
  "nylo_event mode before ts =
     (if list_ex has_boss before then None
      else case find_boss_npc ts of
        Some b \<Rightarrow> Some (boss_spawn_event b)
      | None \<Rightarrow>
          if first_wave_spawn ts \<noteq> None \<or> room_spawns 0 before = [] then None
          else wave_event mode before (last (room_spawns 0 before)) ts)"

definition derive_at :: "challenge_mode \<Rightarrow> tick_state option list \<Rightarrow> tick_state option \<Rightarrow> tick_state option" where
  "derive_at mode before x =
     map_option (\<lambda>ts. case nylo_event mode before ts of None \<Rightarrow> ts | Some e \<Rightarrow> emit e ts) x"

definition numbered_spawns :: "tick_state option list \<Rightarrow> bool" where
  "numbered_spawns ticks \<longleftrightarrow> list_all (\<lambda>(i, e). ev_tick e = i) (room_spawns 0 ticks)"

lemma room_spawns_append: "room_spawns t (xs @ ys) = room_spawns t xs @ room_spawns (t + int (length xs)) ys"
  by (induction xs arbitrary: t) (auto simp: algebra_simps)

lemma room_spawns_range: "(i, e) \<in> set (room_spawns t xs) \<Longrightarrow> t \<le> i \<and> i < t + int (length xs)"
  by (induction xs arbitrary: t) (fastforce split: option.splits)+

text \<open>What the loop's variables say about the ticks before.\<close>

definition nylo_inv :: "challenge_mode \<Rightarrow> tick_state option list \<Rightarrow> int \<Rightarrow> int \<Rightarrow> int \<Rightarrow> bool" where
  "nylo_inv mode before wave cap nst \<longleftrightarrow>
     (if room_spawns 0 before = [] then wave = 0 \<and> nst = -1
      else \<exists>i e w s. last (room_spawns 0 before) = (i, e) \<and> ev_nylo_wave e = Some w \<and> natural_stall_for_wave mode w = Some s \<and>
        (if w = final_nylo_wave
         then (if list_ex room_cleared (drop (nat i + 1) before) then wave = 0 \<and> nst = -1 else wave = w)
         else wave = w \<and> cap = ev_room_cap e \<and> int (length before) \<le> nst \<and> i + s \<le> nst \<and>
           (nst - (i + s)) mod nylo_wave_cycle = 0 \<and> (nst = i + s \<or> nst < int (length before) + nylo_wave_cycle)))"

lemma natural_stall_at_least:
  assumes "natural_stall_for_wave mode w = Some s" and "w \<noteq> final_nylo_wave"
  shows "4 \<le> s"
proof (cases "mode = TOB_HARD \<and> is_prince_wave w")
  case False
  then have w: "1 \<le> w" "w \<le> 30" "s = nylocas_natural_stalls ! nat (w - 1)"
    using assms by (auto simp: natural_stall_for_wave_def final_nylo_wave_def nylocas_natural_stalls_def split: if_splits)
  have "list_all (\<lambda>s. 4 \<le> s) (take 30 nylocas_natural_stalls)" by (simp add: nylocas_natural_stalls_def)
  moreover have "nat (w - 1) < length (take 30 nylocas_natural_stalls)"
    using w by (simp add: nylocas_natural_stalls_def)
  ultimately have "4 \<le> take 30 nylocas_natural_stalls ! nat (w - 1)" by (simp only: list_all_length)
  then show ?thesis using w by simp
qed (use assms in \<open>simp add: natural_stall_for_wave_def\<close>)

lemma nylo_inv_spawn:
  assumes "Option.bind x first_wave_spawn = Some e" and "ev_nylo_wave e = Some w" and "natural_stall_for_wave mode w = Some s"
    and "ev_tick e = int (length before)"
  shows "nylo_inv mode (before @ [x]) w (ev_room_cap e) (ev_tick e + s)"
  using assms natural_stall_at_least [OF assms(3)]
  by (auto simp: nylo_inv_def room_spawns_append)

lemma next_stall:
  fixes d n t :: int
  assumes "t \<le> n" and "d \<le> n" and "(n - d) mod 4 = 0" and "n = d \<or> n < t + 4"
  shows "t = n \<longleftrightarrow> d \<le> t \<and> (t - d) mod 4 = 0"
  using assms by presburger

lemma nylo_idle_step:
  assumes inv: "nylo_inv mode before wave cap nst" and boss: "Option.bind x find_boss_npc = None"
    and spawn: "Option.bind x first_wave_spawn = None" and clean: "\<not> list_ex has_boss before"
    and idle: "nylo_idle wave cap nst (int (length before)) x = (x', wave', nst')"
  shows "x' = derive_at mode before x \<and> nylo_inv mode (before @ [x]) wave' cap nst'"
proof (cases "room_spawns 0 before = []")
  case True
  then have "wave = 0" "nst = -1" using inv by (simp_all add: nylo_inv_def)
  then have "x' = x" "wave' = 0" "nst' = -1" using idle by (auto simp: nylo_idle_def final_nylo_wave_def)
  moreover have "derive_at mode before x = x"
    using True boss spawn clean by (cases x) (simp_all add: derive_at_def nylo_event_def)
  ultimately show ?thesis using True spawn by (simp add: nylo_inv_def room_spawns_append)
next
  case False
  then obtain i e w s where l: "last (room_spawns 0 before) = (i, e)" "ev_nylo_wave e = Some w" "natural_stall_for_wave mode w = Some s"
    and st: "if w = final_nylo_wave
       then (if list_ex room_cleared (drop (nat i + 1) before) then wave = 0 \<and> nst = -1 else wave = w)
       else wave = w \<and> cap = ev_room_cap e \<and> int (length before) \<le> nst \<and> i + s \<le> nst \<and>
         (nst - (i + s)) mod nylo_wave_cycle = 0 \<and> (nst = i + s \<or> nst < int (length before) + nylo_wave_cycle)"
    using inv by (auto simp: nylo_inv_def)
  have "(i, e) \<in> set (room_spawns 0 before)" using l(1) False last_in_set by metis
  then have i: "0 \<le> i" "nat i < length before" using room_spawns_range by fastforce+
  have l': "room_spawns 0 (before @ [x]) = room_spawns 0 before" using spawn by (simp add: room_spawns_append)
  have ev: "nylo_event mode before ts = wave_event mode before (i, e) ts" if "x = Some ts" for ts
    using that boss spawn clean False l(1) by (simp add: nylo_event_def)
  have drop: "drop (nat i + 1) (before @ [x]) = drop (nat i + 1) before @ [x]" using i by simp
  show ?thesis
  proof (cases "w = final_nylo_wave")
    case True
    then show ?thesis
      using st idle l l' False drop ev
      by (cases x; cases "list_ex room_cleared (drop (nat i + 1) before)")
        (auto simp: nylo_idle_def derive_at_def wave_event_def nylo_inv_def room_cleared_def final_nylo_wave_def split: if_splits)
  next
    case w: False
    have stall: "int (length before) = nst \<longleftrightarrow>
        0 \<le> int (length before) - (i + s) \<and> (int (length before) - (i + s)) mod nylo_wave_cycle = 0"
      using st w next_stall [of "int (length before)" "nst" "i + s"] by (simp add: nylo_wave_cycle_def)
    have "nylo_inv mode (before @ [x]) wave cap (if int (length before) = nst then nst + nylo_wave_cycle else nst)"
      using st w l l' False by (auto simp: nylo_inv_def nylo_wave_cycle_def) presburger
    then show ?thesis
      using st w idle l(2,3) ev stall
      by (cases x) (auto simp: nylo_idle_def derive_at_def wave_event_def Let_def split: if_splits)
  qed
qed

lemma nylo_loop_derives:
  assumes "nylo_loop mode wave cap nst (int (length before)) rest = Some rest'"
    and "nylo_inv mode before wave cap nst" and "\<not> list_ex has_boss before" and "numbered_spawns (before @ rest)"
  shows "rest' = map (\<lambda>k. derive_at mode (before @ take k rest) (rest ! k)) [0..<length rest]"
  using assms
proof (induction rest arbitrary: before wave cap nst rest')
  case (Cons x rest)
  let ?spec = "\<lambda>before rest. map (\<lambda>k. derive_at mode (before @ take k rest) (rest ! k)) [0..<length rest]"
  have unfold: "?spec before (x # rest) = derive_at mode before x # ?spec (before @ [x]) rest"
    by (simp add: upt_conv_Cons map_Suc_upt [symmetric] del: upt_Suc)
  have later: "rest'' = ?spec (before @ [x]) rest"
    if "nylo_loop mode w c n (int (length before) + 1) rest = Some rest''" "nylo_inv mode (before @ [x]) w c n"
      "Option.bind x find_boss_npc = None" for w c n rest''
    using that Cons.prems(3,4) by (intro Cons.IH [of w c n "before @ [x]"]) (simp_all add: has_boss_def add.commute)
  show ?case
  proof (cases "Option.bind x find_boss_npc")
    case (Some b)
    then obtain ts where ts: "x = Some ts" "find_boss_npc ts = Some b" by (cases x) auto
    have silent: "derive_at mode (before @ x # xs) y = y" for xs y
      using Some by (cases y) (simp_all add: derive_at_def nylo_event_def has_boss_def)
    have "?spec (before @ [x]) rest = rest" by (simp add: silent map_nth)
    moreover have "derive_at mode before x = map_option (emit (boss_spawn_event b)) x"
      using ts Cons.prems(3) by (simp add: derive_at_def nylo_event_def)
    ultimately show ?thesis using Some Cons.prems(1) unfolding unfold by simp
  next
    case boss: None
    show ?thesis
    proof (cases "Option.bind x first_wave_spawn")
      case (Some e)
      then obtain w s rest'' where r: "ev_nylo_wave e = Some w" "natural_stall_for_wave mode w = Some s"
          "nylo_loop mode w (ev_room_cap e) (ev_tick e + s) (int (length before) + 1) rest = Some rest''" "rest' = x # rest''"
        using Cons.prems(1) boss by (auto split: option.splits)
      have "ev_tick e = int (length before)"
        using Cons.prems(4) Some by (simp add: numbered_spawns_def room_spawns_append)
      then have "rest'' = ?spec (before @ [x]) rest"
        by (intro later [OF r(3)] nylo_inv_spawn Some r(1,2) boss)
      moreover have "derive_at mode before x = x"
        using Some boss Cons.prems(3) by (cases x) (simp_all add: derive_at_def nylo_event_def)
      ultimately show ?thesis unfolding unfold r(4) by simp
    next
      case None
      obtain x' wave' nst' where idle: "nylo_idle wave cap nst (int (length before)) x = (x', wave', nst')" by (rule prod_cases3)
      then obtain rest'' where r: "nylo_loop mode wave' cap nst' (int (length before) + 1) rest = Some rest''" "rest' = x' # rest''"
        using Cons.prems(1) boss None by auto
      from nylo_idle_step [OF Cons.prems(2) boss None Cons.prems(3) idle]
      have "x' = derive_at mode before x" "rest'' = ?spec (before @ [x]) rest" using later [OF r(1) _ boss] by blast+
      then show ?thesis unfolding unfold r(2) by simp
    qed
  qed
qed simp

text \<open>The events derived for a Nylocas room are exactly those of the rule above, tick by tick, and no other tick is
  touched: the loop's counter of the next stall, which is advanced at every stall whether or not one is recorded,
  always holds the next tick of the wave cycle.
\<close>

theorem nylocas_events_derived:
  assumes "derive_nylocas mode ticks = Some ticks'" and "numbered_spawns ticks"
  shows "ticks' = map (\<lambda>t. derive_at mode (take t ticks) (ticks ! t)) [0..<length ticks]"
  using nylo_loop_derives [of mode 0 0 "-1" "[]" ticks ticks'] assms
  by (simp add: derive_nylocas_def nylo_inv_def)

subsection \<open>The pivots of Sotetseg's mazes\<close>

definition pivots_keyed :: "(string, coords \<times> int) omap \<Rightarrow> bool" where
  "pivots_keyed m \<longleftrightarrow> distinct (map fst m) \<and> (\<forall>(k, c, s) \<in> set m. k = coord_key c)"

definition pivot_coords :: "(string, coords \<times> int) omap \<Rightarrow> coords set" where
  "pivot_coords m = (\<lambda>x. fst (snd x)) ` set m"

lemma update_new: "map_of m k = None \<Longrightarrow> AList.update k v m = m @ [(k, v)]"
  by (induction m) (auto split: if_splits)

lemma add_pivot_coords:
  assumes "pivots_keyed m"
  shows "pivots_keyed (add_pivot src c m) \<and> pivot_coords (add_pivot src c m) = insert c (pivot_coords m)"
proof (cases "map_of m (coord_key c)")
  case None
  then have "add_pivot src c m = m @ [(coord_key c, c, src)]" by (simp only: add_pivot_def update_new if_True refl)
  moreover have "coord_key c \<notin> set (map fst m)" using None by (simp only: map_of_eq_None_iff set_map not_False_eq_True)
  ultimately show ?thesis using assms by (auto simp: pivots_keyed_def pivot_coords_def)
next
  case (Some v)
  then have v: "(coord_key c, v) \<in> set m" by (rule map_of_SomeD)
  then have "coord_key c = coord_key (fst v)" using assms by (cases v) (auto simp: pivots_keyed_def)
  then have "c = fst v" by (simp only: coord_key_inj)
  then have "c \<in> pivot_coords m" using v unfolding pivot_coords_def by (metis image_eqI snd_conv)
  then show ?thesis using Some assms by (auto simp: add_pivot_def)
qed

lemma fold_add_pivot_coords:
  "pivots_keyed m \<Longrightarrow> pivots_keyed (fold (add_pivot src) cs m) \<and> pivot_coords (fold (add_pivot src) cs m) = pivot_coords m \<union> set cs"
  by (induction cs arbitrary: m) (auto simp: add_pivot_coords)

text \<open>The coordinates a map holds for a maze, and whether it has an entry for it.\<close>

definition maze_coords :: "(maze_pivots \<Rightarrow> (string, coords \<times> int) omap) \<Rightarrow> (int, maze_pivots) omap \<Rightarrow> int \<Rightarrow> coords set" where
  "maze_coords sel by_maze m = (case map_of by_maze m of None \<Rightarrow> {} | Some z \<Rightarrow> pivot_coords (sel z))"

definition mazes_keyed :: "(int, maze_pivots) omap \<Rightarrow> bool" where
  "mazes_keyed by_maze \<longleftrightarrow> (\<forall>m z. map_of by_maze m = Some z \<longrightarrow> pivots_keyed (mz_overworld z) \<and> pivots_keyed (mz_underworld z))"

lemma add_maze_coords:
  assumes "mazes_keyed by_maze"
  shows "mazes_keyed (add_maze src p by_maze)"
    "maze_coords mz_overworld (add_maze src p by_maze) m =
       maze_coords mz_overworld by_maze m \<union> (if sp_maze p = m then set (sp_overworld p) else {})"
    "maze_coords mz_underworld (add_maze src p by_maze) m =
       maze_coords mz_underworld by_maze m \<union> (if sp_maze p = m then set (sp_underworld p) else {})"
    "map_of (add_maze src p by_maze) m \<noteq> None \<longleftrightarrow> sp_maze p = m \<or> map_of by_maze m \<noteq> None"
proof -
  define z where "z = (case map_of by_maze (sp_maze p) of None \<Rightarrow> \<lparr>mz_overworld = [], mz_underworld = []\<rparr> | Some z \<Rightarrow> z)"
  define z' where "z' = z\<lparr>mz_overworld := fold (add_pivot src) (sp_overworld p) (mz_overworld z),
    mz_underworld := fold (add_pivot src) (sp_underworld p) (mz_underworld z)\<rparr>"
  have lookup: "map_of (add_maze src p by_maze) k = (if k = sp_maze p then Some z' else map_of by_maze k)" for k
    unfolding add_maze_def Let_def z'_def z_def by (simp add: update_conv' fun_upd_def)
  have keyed: "pivots_keyed (mz_overworld z)" "pivots_keyed (mz_underworld z)"
    using assms unfolding z_def mazes_keyed_def by (cases "map_of by_maze (sp_maze p)"; simp add: pivots_keyed_def)+
  have z: "maze_coords mz_overworld by_maze (sp_maze p) = pivot_coords (mz_overworld z)"
    "maze_coords mz_underworld by_maze (sp_maze p) = pivot_coords (mz_underworld z)"
    unfolding z_def maze_coords_def by (cases "map_of by_maze (sp_maze p)"; simp add: pivot_coords_def)+
  have z': "pivots_keyed (mz_overworld z')" "pivots_keyed (mz_underworld z')"
    "pivot_coords (mz_overworld z') = pivot_coords (mz_overworld z) \<union> set (sp_overworld p)"
    "pivot_coords (mz_underworld z') = pivot_coords (mz_underworld z) \<union> set (sp_underworld p)"
    using fold_add_pivot_coords [OF keyed(1)] fold_add_pivot_coords [OF keyed(2)] unfolding z'_def by simp_all
  show "mazes_keyed (add_maze src p by_maze)"
    using assms z'(1,2) unfolding mazes_keyed_def lookup by (metis option.inject)
  show "maze_coords mz_overworld (add_maze src p by_maze) m =
       maze_coords mz_overworld by_maze m \<union> (if sp_maze p = m then set (sp_overworld p) else {})"
    "maze_coords mz_underworld (add_maze src p by_maze) m =
       maze_coords mz_underworld by_maze m \<union> (if sp_maze p = m then set (sp_underworld p) else {})"
    using z z'(3,4) unfolding maze_coords_def lookup by auto
  show "map_of (add_maze src p by_maze) m \<noteq> None \<longleftrightarrow> sp_maze p = m \<or> map_of by_maze m \<noteq> None"
    by (auto simp: lookup)
qed

text \<open>Folding an operation whose effect on a set-valued view is a union.\<close>

lemma fold_union:
  assumes "\<And>x s. P s \<Longrightarrow> P (f x s)" and "\<And>x s. P s \<Longrightarrow> v (f x s) = v s \<union> g x" and "P s"
  shows "P (fold f xs s) \<and> v (fold f xs s) = v s \<union> (\<Union>x \<in> set xs. g x)"
  using assms(3) by (induction xs arbitrary: s) (auto simp: assms(1,2))

definition seen_pivots :: "(sote_pivots \<Rightarrow> coords list) \<Rightarrow> int \<Rightarrow> sote_pivots list \<Rightarrow> coords set" where
  "seen_pivots sel m ps = {c. \<exists>p \<in> set ps. sp_maze p = m \<and> c \<in> set (sel p)}"

definition merged_pivots :: "merge_context \<Rightarrow> sote_pivots list" where
  "merged_pivots cx = concat (map (\<lambda>(i, rc). if rc_status rc = MERGED then ce_pivots (rc_client rc) else []) (cx_clients cx))"

lemma collect_pivots_coords:
  "mazes_keyed (collect_pivots cx)"
  "maze_coords mz_overworld (collect_pivots cx) m = seen_pivots sp_overworld m (merged_pivots cx)"
  "maze_coords mz_underworld (collect_pivots cx) m = seen_pivots sp_underworld m (merged_pivots cx)"
proof -
  have client: "mazes_keyed bm \<Longrightarrow> mazes_keyed (add_client_pivots irc bm)"
    "mazes_keyed bm \<Longrightarrow> maze_coords mz_overworld (add_client_pivots irc bm) m = maze_coords mz_overworld bm m \<union>
       seen_pivots sp_overworld m (if rc_status (snd irc) = MERGED then ce_pivots (rc_client (snd irc)) else [])"
    "mazes_keyed bm \<Longrightarrow> maze_coords mz_underworld (add_client_pivots irc bm) m = maze_coords mz_underworld bm m \<union>
       seen_pivots sp_underworld m (if rc_status (snd irc) = MERGED then ce_pivots (rc_client (snd irc)) else [])" for irc bm
    using fold_union [of mazes_keyed "add_maze (fst irc)" "\<lambda>bm. maze_coords mz_overworld bm m"
        "\<lambda>p. if sp_maze p = m then set (sp_overworld p) else {}" bm "ce_pivots (rc_client (snd irc))"]
      fold_union [of mazes_keyed "add_maze (fst irc)" "\<lambda>bm. maze_coords mz_underworld bm m"
        "\<lambda>p. if sp_maze p = m then set (sp_underworld p) else {}" bm "ce_pivots (rc_client (snd irc))"]
    by (auto simp: add_client_pivots_def add_maze_coords seen_pivots_def split: if_splits)
  have "mazes_keyed []" by (simp add: mazes_keyed_def)
  note folds = fold_union [of mazes_keyed add_client_pivots "\<lambda>bm. maze_coords mz_overworld bm m", OF client(1,2) this, of "cx_clients cx"]
    fold_union [of mazes_keyed add_client_pivots "\<lambda>bm. maze_coords mz_underworld bm m", OF client(1,3) this, of "cx_clients cx"]
  show "mazes_keyed (collect_pivots cx)"
    "maze_coords mz_overworld (collect_pivots cx) m = seen_pivots sp_overworld m (merged_pivots cx)"
    "maze_coords mz_underworld (collect_pivots cx) m = seen_pivots sp_underworld m (merged_pivots cx)"
    using folds
    by (auto simp: collect_pivots_def maze_coords_def merged_pivots_def seen_pivots_def split_beta split: if_splits)
qed

text \<open>Where a maze ends: the last tick with an end event for it.\<close>

definition ends_maze :: "int \<Rightarrow> tick_state option \<Rightarrow> bool" where
  "ends_maze m x \<longleftrightarrow> (case x of None \<Rightarrow> False | Some ts \<Rightarrow>
     list_ex (\<lambda>e. map_option so_maze (ev_sote e) = Some m) (get_events_by_type TOB_SOTE_MAZE_END ts))"

lemma fold_maze_ends:
  "map_of (fold (\<lambda>e m. case ev_sote e of None \<Rightarrow> m | Some s \<Rightarrow> AList.update (so_maze s) t m) es acc) maze =
     (if list_ex (\<lambda>e. map_option so_maze (ev_sote e) = Some maze) es then Some t else map_of acc maze)"
  by (induction es arbitrary: acc) (auto simp: update_conv' split: option.splits)

lemma maze_end_ticks_append:
  "maze_end_ticks n (xs @ ys) acc = maze_end_ticks (n + length xs) ys (maze_end_ticks n xs acc)"
  by (induction n xs acc rule: maze_end_ticks.induct) simp_all

lemma maze_end_ticks_snoc:
  "map_of (maze_end_ticks 0 (ticks @ [x]) []) m =
     (if ends_maze m x then Some (length ticks) else map_of (maze_end_ticks 0 ticks []) m)"
  by (cases x) (simp_all add: maze_end_ticks_append fold_maze_ends ends_maze_def)

lemma maze_end_ticks_iff:
  "map_of (maze_end_ticks 0 ticks []) m = Some t \<longleftrightarrow>
     t < length ticks \<and> ends_maze m (ticks ! t) \<and> (\<forall>u. t < u \<and> u < length ticks \<longrightarrow> \<not> ends_maze m (ticks ! u))"
proof (induction ticks rule: rev_induct)
  case (snoc x ticks)
  have old: "u < length ticks \<Longrightarrow> (ticks @ [x]) ! u = ticks ! u" for u by (simp add: nth_append)
  have new: "(ticks @ [x]) ! length ticks = x" by simp
  have later: "(\<forall>u. t < u \<and> u < length (ticks @ [x]) \<longrightarrow> \<not> ends_maze m ((ticks @ [x]) ! u)) \<longleftrightarrow>
      (\<forall>u. t < u \<and> u < length ticks \<longrightarrow> \<not> ends_maze m (ticks ! u)) \<and> (t < length ticks \<longrightarrow> \<not> ends_maze m x)"
    unfolding length_append_singleton less_Suc_eq using old new by metis
  show ?case
    unfolding maze_end_ticks_snoc later
  proof (cases "ends_maze m x")
    case True
    then show "((if ends_maze m x then Some (length ticks) else map_of (maze_end_ticks 0 ticks []) m) = Some t) \<longleftrightarrow>
        t < length (ticks @ [x]) \<and> ends_maze m ((ticks @ [x]) ! t) \<and>
        (\<forall>u. t < u \<and> u < length ticks \<longrightarrow> \<not> ends_maze m (ticks ! u)) \<and> (t < length ticks \<longrightarrow> \<not> ends_maze m x)"
      using new by (cases "t = length ticks") auto
  next
    case False
    then show "((if ends_maze m x then Some (length ticks) else map_of (maze_end_ticks 0 ticks []) m) = Some t) \<longleftrightarrow>
        t < length (ticks @ [x]) \<and> ends_maze m ((ticks @ [x]) ! t) \<and>
        (\<forall>u. t < u \<and> u < length ticks \<longrightarrow> \<not> ends_maze m (ticks ! u)) \<and> (t < length ticks \<longrightarrow> \<not> ends_maze m x)"
      using new old snoc.IH by (cases "t = length ticks") (simp_all add: less_Suc_eq cong: conj_cong)
  qed
qed simp

subsection \<open>The paths of the mazes\<close>

definition paths_at :: "(int, nat) omap \<Rightarrow> (int \<times> maze_pivots) list \<Rightarrow> nat \<Rightarrow> event list" where
  "paths_at ends mzs t = map (\<lambda>(m, z). maze_path_event t m z) (filter (\<lambda>(m, z). map_of ends m = Some t) mzs)"

lemma add_synthetic_twice: "add_synthetic_events es' (add_synthetic_events es ts) = add_synthetic_events (es @ es') ts"
  by (simp add: add_synthetic_events_def add_tagged_events_def tag_synthetic_def)

lemma add_synthetic_Nil [simp]: "add_synthetic_events [] ts = ts"
  by (simp add: add_synthetic_events_def add_tagged_events_def tag_synthetic_def)

lemma place_maze_path_nth:
  assumes "t < length ticks" and "\<And>m u. map_of ends m = Some u \<Longrightarrow> u < length ticks"
  shows "length (place_maze_path ends mz ticks) = length ticks \<and>
    place_maze_path ends mz ticks ! t = map_option (add_synthetic_events (paths_at ends [mz] t)) (ticks ! t)"
proof (cases "map_of ends (fst mz)")
  case None
  then show ?thesis by (cases mz; cases "ticks ! t") (simp_all add: place_maze_path_def paths_at_def)
next
  case (Some u)
  then show ?thesis
    using assms by (cases mz; cases "ticks ! u"; cases "u = t"; cases "ticks ! t") (simp_all add: place_maze_path_def paths_at_def)
qed

lemma fold_place_maze_path:
  assumes "t < length ticks" and "\<And>m u. map_of ends m = Some u \<Longrightarrow> u < length ticks"
  shows "length (fold (place_maze_path ends) mzs ticks) = length ticks \<and>
    fold (place_maze_path ends) mzs ticks ! t = map_option (add_synthetic_events (paths_at ends mzs t)) (ticks ! t)"
  using assms
proof (induction mzs arbitrary: ticks)
  case Nil
  then show ?case by (cases "ticks ! t") (simp_all add: paths_at_def)
next
  case (Cons mz mzs)
  note step = place_maze_path_nth [of t ticks ends mz, OF Cons.prems]
  have split: "paths_at ends (mz # mzs) t = paths_at ends [mz] t @ paths_at ends mzs t"
    by (simp add: paths_at_def)
  have "t < length (place_maze_path ends mz ticks)" "\<And>m u. map_of ends m = Some u \<Longrightarrow> u < length (place_maze_path ends mz ticks)"
    using step Cons.prems by auto
  from Cons.IH [OF this] step show ?case
    unfolding split by (cases "ticks ! t") (simp_all add: add_synthetic_twice)
qed

lemma sorted_pivots_set: "pivots_keyed m \<Longrightarrow> set (sorted_pivots m) = pivot_coords m \<and> distinct (sorted_pivots m) \<and> sorted (map snd (sorted_pivots m))"
proof -
  assume k: "pivots_keyed m"
  then have keys: "map fst m = map (\<lambda>x. coord_key (fst (snd x))) m" by (auto simp: pivots_keyed_def)
  have "distinct (map (\<lambda>x. coord_key (fst (snd x))) m)" using k unfolding keys [symmetric] pivots_keyed_def by blast
  then have "distinct (map (\<lambda>x. fst (snd x)) m)" by (simp add: distinct_map inj_on_def)
  then show ?thesis by (simp add: sorted_pivots_def pivot_coords_def)
qed

lemma sote_paths:
  assumes "cx_stage cx = TOB_SOTETSEG" and "t < length ticks"
  shows "length (merge_stage_data cx ticks) = length ticks \<and>
    merge_stage_data cx ticks ! t =
      map_option (add_synthetic_events (paths_at (maze_end_ticks 0 ticks []) (collect_pivots cx) t)) (ticks ! t)"
proof -
  have "collect_pivots cx = [] \<Longrightarrow> map_option (add_synthetic_events (paths_at ends (collect_pivots cx) t)) x = x" for ends x
    by (cases x) (simp_all add: paths_at_def)
  then show ?thesis
    using fold_place_maze_path [OF assms(2), of "maze_end_ticks 0 ticks []" "collect_pivots cx"] assms(1) maze_end_ticks_iff
    by (auto simp: merge_stage_data_def merge_sote_pivots_def Let_def)
qed

lemma sote_pivots_united:
  assumes "map_of (collect_pivots cx) m = Some z"
  shows "set (sorted_pivots (mz_overworld z)) = seen_pivots sp_overworld m (merged_pivots cx) \<and>
    set (sorted_pivots (mz_underworld z)) = seen_pivots sp_underworld m (merged_pivots cx) \<and>
    distinct (sorted_pivots (mz_overworld z)) \<and> distinct (sorted_pivots (mz_underworld z)) \<and>
    sorted (map snd (sorted_pivots (mz_overworld z))) \<and> sorted (map snd (sorted_pivots (mz_underworld z)))"
proof -
  have k: "pivots_keyed (mz_overworld z)" "pivots_keyed (mz_underworld z)"
    using collect_pivots_coords(1) [of cx] assms by (auto simp: mazes_keyed_def)
  have "pivot_coords (mz_overworld z) = seen_pivots sp_overworld m (merged_pivots cx)"
    "pivot_coords (mz_underworld z) = seen_pivots sp_underworld m (merged_pivots cx)"
    using collect_pivots_coords(2,3) [of cx m] assms by (simp_all add: maze_coords_def)
  then show ?thesis using sorted_pivots_set [OF k(1)] sorted_pivots_set [OF k(2)] by simp
qed

text \<open>In a Sotetseg stage, each tick gains one path event per maze that ends last at this tick, and nothing else: its
  pivots are all those that some merged client observed of the maze, each once, sorted by row; recordings of clients
  whose merge was rejected or skipped add none.
\<close>

theorem sote_paths_merged:
  assumes "cx_stage cx = TOB_SOTETSEG" and "t < length ticks"
    and "ends = maze_end_ticks 0 ticks []" and "mazes = collect_pivots cx"
  shows "merge_stage_data cx ticks ! t =
      map_option (add_synthetic_events (map (\<lambda>(m, z). maze_path_event t m z) (filter (\<lambda>(m, z). map_of ends m = Some t) mazes))) (ticks ! t) \<and>
    (\<forall>m u. map_of ends m = Some u \<longleftrightarrow>
       u < length ticks \<and> ends_maze m (ticks ! u) \<and> (\<forall>v. u < v \<and> v < length ticks \<longrightarrow> \<not> ends_maze m (ticks ! v))) \<and>
    (\<forall>m z. map_of mazes m = Some z \<longrightarrow>
       set (sorted_pivots (mz_overworld z)) = seen_pivots sp_overworld m (merged_pivots cx) \<and>
       set (sorted_pivots (mz_underworld z)) = seen_pivots sp_underworld m (merged_pivots cx) \<and>
       distinct (sorted_pivots (mz_overworld z)) \<and> distinct (sorted_pivots (mz_underworld z)))"
  unfolding assms(3,4)
  using sote_paths [OF assms(1,2)] maze_end_ticks_iff sote_pivots_united by (auto simp: paths_at_def)

subsection \<open>Witnesses\<close>

definition sample_wave_tick :: "int \<Rightarrow> int \<Rightarrow> tick_state" where
  "sample_wave_tick t wave =
     new_tick_state t [((blank_event TOB_NYLO_WAVE_SPAWN TOB_NYLOCAS t 0 0)\<lparr>ev_nylo_wave := Some wave, ev_room_cap := 0\<rparr>, 7)] [] [] []"

definition sample_nylo_room :: "tick_state option list" where
  "sample_nylo_room = [Some (sample_wave_tick 0 1), None, None, None, Some (new_tick_state 4 [] [] [] [])]"

theorem nylocas_events_derived_witness:
  "\<exists>ticks'. derive_nylocas TOB_REGULAR sample_nylo_room = Some ticks' \<and>
     ticks' ! 4 = derive_at TOB_REGULAR (take 4 sample_nylo_room) (sample_nylo_room ! 4) \<and>
     map (\<lambda>e. (ev_type e, ev_tick e)) (get_events (the (ticks' ! 4))) = [(TOB_NYLO_WAVE_STALL, 4)]"
proof -
  have some: "map_option (\<lambda>ticks'. map (\<lambda>e. (ev_type e, ev_tick e)) (get_events (the (ticks' ! 4)))) (derive_nylocas TOB_REGULAR sample_nylo_room) =
      Some [(TOB_NYLO_WAVE_STALL, 4)]" by code_simp
  then obtain ticks' where d: "derive_nylocas TOB_REGULAR sample_nylo_room = Some ticks'" by blast
  have "numbered_spawns sample_nylo_room" by code_simp
  from nylocas_events_derived [OF d this]
  have "ticks' ! 4 = derive_at TOB_REGULAR (take 4 sample_nylo_room) (sample_nylo_room ! 4)"
    by (simp add: sample_nylo_room_def nth_append del: upt_Suc)
  then show ?thesis using d some by auto
qed

definition sample_maze_context :: merge_context where
  "sample_maze_context = sample_context\<lparr>cx_stage := TOB_SOTETSEG, cx_clients :=
     [(7, \<lparr>rc_client = (sample_recorder 7 False 3)\<lparr>ce_pivots := [\<lparr>sp_maze = 1, sp_overworld = [(4, 9), (3, 2)], sp_underworld = []\<rparr>]\<rparr>,
           rc_status = MERGED\<rparr>),
      (8, \<lparr>rc_client = (sample_recorder 8 False 3)\<lparr>ce_pivots := [\<lparr>sp_maze = 1, sp_overworld = [(3, 2), (5, 5)], sp_underworld = []\<rparr>]\<rparr>,
           rc_status = MERGED\<rparr>)]\<rparr>"

definition sample_maze_end :: "tick_state option list" where
  "sample_maze_end = [None, Some (new_tick_state 1 [((blank_event TOB_SOTE_MAZE_END TOB_SOTETSEG 1 0 0)\<lparr>ev_sote := Some
     \<lparr>so_maze = 1, so_overworld_tiles = [], so_overworld_pivots = [], so_underworld_pivots = [],
      so_chosen = None\<rparr>\<rparr>, 7)] [] [] [])]"

theorem sote_paths_merged_witness:
  "(\<forall>u. map_of (maze_end_ticks 0 sample_maze_end []) 1 = Some u \<longleftrightarrow>
      u < length sample_maze_end \<and> ends_maze 1 (sample_maze_end ! u) \<and>
      (\<forall>v. u < v \<and> v < length sample_maze_end \<longrightarrow> \<not> ends_maze 1 (sample_maze_end ! v))) \<and>
   map_option (\<lambda>ts. map (\<lambda>e. map_option so_overworld_pivots (ev_sote e)) (get_events_by_type TOB_SOTE_MAZE_PATH ts))
     (merge_stage_data sample_maze_context sample_maze_end ! 1) = Some [Some [(3, 2), (5, 5), (4, 9)]]"
proof
  have "cx_stage sample_maze_context = TOB_SOTETSEG" "1 < length sample_maze_end"
    by (simp_all add: sample_maze_context_def sample_maze_end_def)
  from sote_paths_merged [OF this refl refl]
  show "\<forall>u. map_of (maze_end_ticks 0 sample_maze_end []) 1 = Some u \<longleftrightarrow>
      u < length sample_maze_end \<and> ends_maze 1 (sample_maze_end ! u) \<and>
      (\<forall>v. u < v \<and> v < length sample_maze_end \<longrightarrow> \<not> ends_maze 1 (sample_maze_end ! v))" by blast
  show "map_option (\<lambda>ts. map (\<lambda>e. map_option so_overworld_pivots (ev_sote e)) (get_events_by_type TOB_SOTE_MAZE_PATH ts))
     (merge_stage_data sample_maze_context sample_maze_end ! 1) = Some [Some [(3, 2), (5, 5), (4, 9)]]"
    by code_simp
qed

end
