(* ===== verification/Merge_Run.thy ===== *)
theory Merge_Run
  imports Merged_Events Consolidation Similarity Merge_Consistency Confidence Derivation "HOL-Library.Multiset" "HOL-Library.Monad_Syntax"
begin

text \<open>
  A whole merge (\<^verbatim>\<open>challenge-server/merging/merge.ts\<close>): the steps that merge one client after the other into the
  timeline of the base client, the end alignment, the corrections after the merge, and the merged events with the
  report on every client. The merge context, which the code shares between the merger and its timeline, is a
  field of the timeline and returned updated. A step that throws gives \<^const>\<open>None\<close> as its outcome, together with the
  timeline it leaves behind; a merge that throws gives \<^const>\<open>None\<close>, one that returns \<^verbatim>\<open>null\<close> gives \<^term>\<open>Some None\<close>.
  Logging and the merge tracer are left out.
\<close>

subsection \<open>Parameters\<close>

text \<open>The tables the code reads from generated data, and \<^verbatim>\<open>Math.exp\<close> and \<^verbatim>\<open>Math.log\<close>.\<close>

record merge_params =
  mp_slots :: "int list"
  mp_exp :: "rat \<Rightarrow> rat"
  mp_log :: "rat \<Rightarrow> rat"
  mp_consolidate :: consolidate_params
  mp_cooldown :: "int \<Rightarrow> int option"
  mp_resync :: resync_params

definition merge_scorer :: "merge_params \<Rightarrow> scorer" where
  "merge_scorer mp =
     \<lparr>sr_numbers = kp_numbers (mp_consolidate mp), sr_slots = mp_slots mp, sr_exp = mp_exp mp,
      sr_baseline = default_baseline_compatibility_weight\<rparr>"

definition min_merge_confidence_threshold :: rat where
  "min_merge_confidence_threshold = 3 / 4"

definition low_confidence_warn_threshold :: rat where
  "low_confidence_warn_threshold = 2 / 5"

subsection \<open>Outcomes and reports\<close>

datatype merge_client_classification = REFERENCE | MATCHING | MISMATCHED

datatype step_result =
    Step_Merged "step_confidence option"
  | Step_Unmerged
  | Step_Skipped
  | Step_Rejected step_rejection

type_synonym step_outcome = "step_result \<times> quality_flag list"

fun status_from_outcome :: "step_outcome \<Rightarrow> merge_client_status" where
  "status_from_outcome (Step_Merged c, flags) = MERGED"
| "status_from_outcome (Step_Skipped, flags) = SKIPPED"
| "status_from_outcome (Step_Unmerged, flags) = UNMERGED"
| "status_from_outcome (Step_Rejected r, flags) = UNMERGED"

record merge_client =
  mc_id :: int
  mc_primary :: "string option"
  mc_metadata :: "client_metadata option"
  mc_status :: merge_client_status
  mc_classification :: merge_client_classification
  mc_sequence :: nat
  mc_recorded :: int
  mc_server :: "server_ticks option"
  mc_reported_accurate :: bool
  mc_derived_accurate :: bool
  mc_anomalies :: "client_anomaly list"
  mc_issues :: "issue list"
  mc_flags :: "quality_flag list"
  mc_rejection :: "rejection_reason option"
  mc_merge_issues :: "merge_issue list"
  mc_worst_score :: "rat option"

definition worst_segment_score :: "step_confidence option \<Rightarrow> rat option" where
  "worst_segment_score conf =
     Option.bind conf (\<lambda>c. map_option (\<lambda>i. sf_score (tc_segments (pc_structural c) ! i)) (tc_worst (pc_structural c)))"

definition create_merge_client ::
    "client_events \<Rightarrow> merge_client_classification \<Rightarrow> merge_client_status \<Rightarrow> nat \<Rightarrow> quality_flag list \<Rightarrow>
     rejection_reason option \<Rightarrow> merge_issue list \<Rightarrow> step_confidence option \<Rightarrow> merge_client" where
  "create_merge_client c cls status n flags reason issues conf =
     \<lparr>mc_id = ce_id c, mc_primary = ce_primary c, mc_metadata = ce_metadata c, mc_status = status,
      mc_classification = cls, mc_sequence = n, mc_recorded = get_final_tick c, mc_server = get_server_ticks c,
      mc_reported_accurate = si_accurate (ce_info c), mc_derived_accurate = ce_accurate c,
      mc_anomalies = ce_anomalies c, mc_issues = ce_issues c, mc_flags = flags, mc_rejection = reason,
      mc_merge_issues = issues, mc_worst_score = worst_segment_score conf\<rparr>"

definition surface_alerts :: "merge_client list \<Rightarrow> merge_alert list" where
  "surface_alerts mcs =
     (let rejected = filter (\<lambda>c. mc_merge_issues c \<noteq> []) mcs;
          unsure = filter (\<lambda>c. mc_rejection c = Some LOW_MERGE_CONFIDENCE) mcs;
          low = filter (\<lambda>c. mc_status c = MERGED \<and>
            (case mc_worst_score c of None \<Rightarrow> False | Some s \<Rightarrow> s < low_confidence_warn_threshold)) mcs
      in (if rejected \<noteq> [] then [Post_Merge_Consistency_Rejections (map mc_id rejected)
            (sum_list (map (\<lambda>c. length (mc_merge_issues c)) rejected))] else []) @
         (if unsure \<noteq> [] then [Low_Confidence_Rejections (map mc_id unsure)] else []) @
         (if low \<noteq> [] then [Low_Structural_Confidence (map mc_id low) (List.map_filter mc_worst_score low)] else []))"

definition get_merge_counts :: "merge_client list \<Rightarrow> nat \<times> nat \<times> nat" where
  "get_merge_counts mcs =
     fold (\<lambda>c (m, u, s). case mc_status c of MERGED \<Rightarrow> (m + 1, u, s) | UNMERGED \<Rightarrow> (m, u + 1, s) | SKIPPED \<Rightarrow> (m, u, s + 1))
       mcs (0, 0, 0)"

subsection \<open>The merged timeline\<close>

record merged_timeline =
  mt_cx :: merge_context
  mt_ticks :: "tick_state option list"
  mt_status :: stage_status
  mt_reference :: reference_selection
  mt_precise :: bool
  mt_inherited :: bool
  mt_prefixes :: "trusted_prefixes option"
  mt_finalized :: bool
  mt_offset :: nat

text \<open>An array of a negative length cannot be made.\<close>

definition initialize_base_ticks :: "client_events \<Rightarrow> tick_state option list option" where
  "initialize_base_ticks base =
     (if get_final_tick base + 1 < 0 then None
      else Some (map (\<lambda>i. map_option clone_tick (get_tick_state (int i) base)) [0..<nat (get_final_tick base + 1)]))"

definition new_merged_timeline :: "client_events \<Rightarrow> merge_context \<Rightarrow> reference_selection \<Rightarrow> merged_timeline option" where
  "new_merged_timeline base cx r =
     map_option (\<lambda>ticks.
         \<lparr>mt_cx = cx, mt_ticks = ticks, mt_status = si_status (ce_info base), mt_reference = r,
          mt_precise = (rs_method r = PRECISE_SERVER \<or> rs_method r = ACCURATE_MODAL), mt_inherited = ce_accurate base,
          mt_prefixes = None, mt_finalized = False, mt_offset = 0\<rparr>)
       (initialize_base_ticks base)"

definition run_alignment :: "merge_params \<Rightarrow> client_events \<Rightarrow> merged_timeline \<Rightarrow> alignment_result option" where
  "run_alignment mp c mt =
     align default_alignment_config (similarity (merge_scorer mp)) (mt_ticks mt) (map Some (ce_ticks c))"

text \<open>How a client is to be merged: with these mappings, or not at all; \<^const>\<open>None\<close> when the alignment throws.\<close>

definition step_mappings ::
    "merge_params \<Rightarrow> bool \<Rightarrow> client_events \<Rightarrow> merged_timeline \<Rightarrow> (alignment_result option \<times> mappings) option option" where
  "step_mappings mp align_mismatched c mt =
     (let n = length (mt_ticks mt); k = length (ce_ticks c) in
      if mt_inherited mt \<and> ce_accurate c
      then Some (Some (None, \<lparr>m_base = identity_mapping n, m_target = identity_mapping k, m_count = n\<rparr>))
      else if \<not> align_mismatched then Some None
      else case run_alignment mp c mt of
        None \<Rightarrow> None
      | Some res \<Rightarrow>
          if ar_alignments res = [] then Some None
          else map_option (\<lambda>m. Some (Some res, m)) (from_alignment n k (map la_entries (ar_alignments res))))"

definition map_cx :: "(merge_context \<Rightarrow> merge_context) \<Rightarrow> merged_timeline \<Rightarrow> merged_timeline" where
  "map_cx f mt = mt\<lparr>mt_cx := f (mt_cx mt)\<rparr>"

definition map_mapping :: "(merge_mapping \<Rightarrow> merge_mapping) \<Rightarrow> merge_context \<Rightarrow> merge_context" where
  "map_mapping f cx = cx\<lparr>cx_mapping := f (cx_mapping cx)\<rparr>"

definition attempt_step ::
    "merge_params \<Rightarrow> client_events \<Rightarrow> alignment_result option \<Rightarrow> mappings \<Rightarrow> merged_timeline \<Rightarrow>
     step_outcome option \<times> merged_timeline" where
  "attempt_step mp c alignment m mt0 =
     (let mt = map_cx (map_mapping (begin_step (ce_id c) m)) mt0;
          discarded = map_cx (map_mapping discard_step) mt
      in case consolidate (mp_consolidate mp) (mt_cx mt) (mt_ticks mt) (map Some (ce_ticks c)) of
           None \<Rightarrow> (None, discarded)
         | Some r \<Rightarrow>
             let conf = score_step_confidence (mp_exp mp) (mp_log mp) default_confidence_weights
                          default_baseline_compatibility_weight alignment (cr_counters r) (cr_flags r)
             in case check_merge (mp_cooldown mp) (cx_stage (mt_cx mt)) (cr_ticks r) of
                  None \<Rightarrow> (None, discarded)
                | Some issues \<Rightarrow>
                    if issues \<noteq> [] \<or> pc_overall conf < min_merge_confidence_threshold
                    then (Some (Step_Rejected \<lparr>rj_reason = (if issues \<noteq> [] then POST_MERGE_CONSISTENCY else LOW_MERGE_CONFIDENCE),
                            rj_issues = issues\<rparr>, cr_flags r), discarded)
                    else (Some (Step_Merged (Some conf), cr_flags r),
                       (map_cx (\<lambda>cx. record_contested_ticks (map_mapping commit_step cx) (ce_id c) (cr_flags r)) mt)
                         \<lparr>mt_ticks := cr_ticks r\<rparr>))"

definition merge_events_from ::
    "merge_params \<Rightarrow> bool \<Rightarrow> client_events \<Rightarrow> merged_timeline \<Rightarrow> step_outcome option \<times> merged_timeline" where
  "merge_events_from mp align_mismatched c mt =
     (case step_mappings mp align_mismatched c mt of
        None \<Rightarrow> (None, mt)
      | Some None \<Rightarrow> (Some (Step_Unmerged, []), mt)
      | Some (Some (alignment, m)) \<Rightarrow> attempt_step mp c alignment m mt)"

subsection \<open>Finalizing\<close>

definition shift_tick :: "nat \<Rightarrow> nat \<Rightarrow> tick_state \<Rightarrow> tick_state option" where
  "shift_tick offset i ts =
     map_option (\<lambda>es. new_tick_state (int (i + offset)) es (ts_players ts) (ts_npcs ts) (ts_graphics ts))
       (all_some (map (remap_event_tick (\<lambda>t. t + int offset)) (get_tagged_events ts)))"

fun shift_ticks :: "nat \<Rightarrow> nat \<Rightarrow> tick_state option list \<Rightarrow> tick_state option list option" where
  "shift_ticks offset i [] = Some []"
| "shift_ticks offset i (None # rest) = map_option ((#) None) (shift_ticks offset (Suc i) rest)"
| "shift_ticks offset i (Some ts # rest) =
     (case (shift_tick offset i ts, shift_ticks offset (Suc i) rest) of
        (Some ts', Some rest') \<Rightarrow> Some (Some ts' # rest')
      | _ \<Rightarrow> None)"

text \<open>The shifted array has one tick more than the reference count, which are the ticks in front and those shifted.\<close>

definition end_align_to_reference :: "merged_timeline \<Rightarrow> merged_timeline option" where
  "end_align_to_reference mt =
     (let offset = rs_count (mt_reference mt) - (int (length (mt_ticks mt)) - 1) in
      if rs_method (mt_reference mt) = RECORDED_TICKS \<or> offset \<le> 0 then Some mt
      else map_option (\<lambda>ticks. mt\<lparr>mt_ticks := replicate (nat offset) None @ ticks, mt_offset := nat offset\<rparr>)
        (shift_ticks (nat offset) 0 (mt_ticks mt)))"

definition finalize_merge :: "merge_params \<Rightarrow> merged_timeline \<Rightarrow> merged_timeline option" where
  "finalize_merge mp mt0 =
     (if mt_finalized mt0 then Some mt0
      else do {
        mt \<leftarrow> end_align_to_reference mt0;
        resynced \<leftarrow> resynchronize_ticks (mp_resync mp) (cx_stage (mt_cx mt)) (mt_ticks mt);
        derived \<leftarrow> derive_events (cx_stage (mt_cx mt)) (ci_mode (cx_challenge (mt_cx mt))) resynced;
        let ticks = merge_stage_data (mt_cx mt) derived;
        Some (mt\<lparr>mt_ticks := ticks, mt_finalized := True,
          mt_prefixes := Some (compute_trusted_prefixes (mt_cx mt)
            \<lparr>po_total = length ticks, po_offset = mt_offset mt, po_inherited = mt_inherited mt,
             po_method = rs_method (mt_reference mt)\<rparr>)\<rparr>)
      })"

subsection \<open>Maiden's spawn\<close>

text \<open>The first spawn of Maiden, by the tick that holds it and its place among the spawns there.\<close>

fun maiden_spawn_in :: "nat \<Rightarrow> event list \<Rightarrow> (nat \<times> event \<times> npc_msg) option option" where
  "maiden_spawn_in k [] = Some None"
| "maiden_spawn_in k (e # es) =
     (case ev_npc e of
        None \<Rightarrow> None
      | Some n \<Rightarrow> if is_maiden (nm_id n) then Some (Some (k, e, n)) else maiden_spawn_in (Suc k) es)"

fun first_maiden_event :: "nat \<Rightarrow> tick_state option list \<Rightarrow> (nat \<times> nat \<times> event \<times> npc_msg) option option" where
  "first_maiden_event i [] = Some None"
| "first_maiden_event i (None # rest) = first_maiden_event (Suc i) rest"
| "first_maiden_event i (Some ts # rest) =
     (case maiden_spawn_in 0 (get_events_by_type NPC_SPAWN ts) of
        None \<Rightarrow> None
      | Some (Some (k, e, n)) \<Rightarrow> Some (Some (i, k, e, n))
      | Some None \<Rightarrow> first_maiden_event (Suc i) rest)"

definition add_at :: "nat \<Rightarrow> event \<Rightarrow> tick_state option list \<Rightarrow> tick_state option list" where
  "add_at i e ticks = ticks[i := map_option (add_synthetic_events [e]) (ticks ! i)]"

definition move_maiden_spawn :: "nat \<Rightarrow> event \<Rightarrow> tick_state option list \<Rightarrow> tick_state option list" where
  "move_maiden_spawn k e ticks =
     (let update = e\<lparr>ev_type := NPC_UPDATE\<rparr>;
          ticks1 = ticks[2 := map_option (\<lambda>ts. add_synthetic_events [update] (snd (remove_event NPC_SPAWN k ts))) (ticks ! 2)]
      in add_at 1 (update\<lparr>ev_tick := 1\<rparr>) (add_at 0 (e\<lparr>ev_tick := 0\<rparr>) ticks1))"

text \<open>An event that its tick 2 does not hold cannot be removed from there.\<close>

definition correct_offset_maiden_spawn :: "tick_state option list \<Rightarrow> tick_state option list option" where
  "correct_offset_maiden_spawn ticks =
     (case first_maiden_event 0 ticks of
        None \<Rightarrow> None
      | Some None \<Rightarrow> Some ticks
      | Some (Some (i, k, e, n)) \<Rightarrow>
          (let hp = skill_from_raw (nm_hitpoints n) in
           if ev_tick e \<noteq> 2 \<or> sk_current hp \<noteq> sk_base hp \<or> i \<noteq> 2 then Some ticks
           else Some (move_maiden_spawn k e ticks)))"

definition postprocess :: "stage \<Rightarrow> merged_timeline \<Rightarrow> merged_timeline option" where
  "postprocess stage mt =
     (if \<not> mt_finalized mt then None
      else if stage = TOB_MAIDEN then map_option (\<lambda>ticks. mt\<lparr>mt_ticks := ticks\<rparr>) (correct_offset_maiden_spawn (mt_ticks mt))
      else Some mt)"

subsection \<open>Merged events\<close>

definition to_merged_events :: "merged_timeline \<Rightarrow> merged_events option" where
  "to_merged_events mt =
     (if \<not> mt_finalized mt then None
      else Some
        \<lparr>me_events = concat (map (case_option [] get_events) (mt_ticks mt)), me_status = mt_status mt,
         me_last_tick = int (length (mt_ticks mt)) - 1,
         me_missing = length (filter (\<lambda>t. t = None) (mt_ticks mt)), me_precise = mt_precise mt,
         me_accurate_until = (case mt_prefixes mt of None \<Rightarrow> 0 | Some p \<Rightarrow> tp_accurate p),
         me_queryable_until = (case mt_prefixes mt of None \<Rightarrow> 0 | Some p \<Rightarrow> tp_queryable p)\<rparr>)"

subsection \<open>The merge\<close>

definition record_merge_result ::
    "client_events \<Rightarrow> merge_client_classification \<Rightarrow> step_outcome \<Rightarrow> merged_timeline \<times> merge_client list \<Rightarrow>
     merged_timeline \<times> merge_client list" where
  "record_merge_result c cls outcome st =
     (let status = status_from_outcome outcome;
          rejection = (case fst outcome of Step_Rejected r \<Rightarrow> Some r | _ \<Rightarrow> None);
          conf = (case fst outcome of Step_Merged cf \<Rightarrow> cf | _ \<Rightarrow> None)
      in (map_cx (\<lambda>cx. cx\<lparr>cx_clients := AList.map_entry (ce_id c) (\<lambda>r. r\<lparr>rc_status := status\<rparr>) (cx_clients cx)\<rparr>) (fst st),
          snd st @ [create_merge_client c cls status (length (snd st)) (snd outcome) (map_option rj_reason rejection)
            (case rejection of None \<Rightarrow> [] | Some r \<Rightarrow> rj_issues r) conf]))"

definition merge_from ::
    "merge_params \<Rightarrow> bool \<Rightarrow> merge_client_classification \<Rightarrow> client_events \<Rightarrow> merged_timeline \<times> merge_client list \<Rightarrow>
     merged_timeline \<times> merge_client list" where
  "merge_from mp align_mismatched cls c st =
     (case merge_events_from mp align_mismatched c (fst st) of
        (outcome, mt) \<Rightarrow>
          record_merge_result c cls (case outcome of None \<Rightarrow> (Step_Unmerged, []) | Some r \<Rightarrow> r) (mt, snd st))"

record merge_report =
  mr_events :: merged_events
  mr_clients :: "merge_client list"
  mr_counts :: "nat \<times> nat \<times> nat"
  mr_alerts :: "merge_alert list"
  mr_reference :: reference_selection

definition merge_steps ::
    "merge_params \<Rightarrow> bool \<Rightarrow> classified_clients \<Rightarrow> client_events list \<Rightarrow> merged_timeline \<Rightarrow> merged_timeline \<times> merge_client list" where
  "merge_steps mp align_mismatched cl bad mt =
     fold (\<lambda>c. record_merge_result c MISMATCHED (Step_Skipped, [])) bad
       (fold (merge_from mp align_mismatched MISMATCHED) (cl_mismatched cl)
         (fold (merge_from mp align_mismatched MATCHING) (cl_matching cl)
           (record_merge_result (cl_base cl) REFERENCE (Step_Merged None, []) (mt, []))))"

text \<open>The registered clients are the objects whose accuracy the classification may take away.\<close>

definition merge_context_for ::
    "challenge_info \<Rightarrow> stage \<Rightarrow> client_events list \<Rightarrow> client_events \<Rightarrow> merge_context" where
  "merge_context_for challenge stage clients base =
     \<lparr>cx_challenge = challenge, cx_stage = stage,
      cx_clients = fold (\<lambda>c. AList.update (ce_id c) \<lparr>rc_client = c, rc_status = UNMERGED\<rparr>) clients [],
      cx_mapping = new_merge_mapping (ce_id base), cx_contested = []\<rparr>"

definition sort_clients :: "client_events list \<Rightarrow> client_events list" where
  "sort_clients = sort_key (\<lambda>c. (- get_final_tick c, ce_id c))"

text \<open>The demoted clients take the places of the clients they were.\<close>

definition with_demoted :: "client_events list \<Rightarrow> client_events list \<Rightarrow> client_events list" where
  "with_demoted demoted = map (\<lambda>c. case List.find (\<lambda>d. ce_id d = ce_id c) demoted of None \<Rightarrow> c | Some d \<Rightarrow> d)"

definition finish_merge ::
    "merge_params \<Rightarrow> stage \<Rightarrow> reference_selection \<Rightarrow> merge_alert list \<Rightarrow> merged_timeline \<times> merge_client list \<Rightarrow> merge_report option" where
  "finish_merge mp stage reference alerts st =
     do {
       mt \<leftarrow> finalize_merge mp (fst st);
       mt' \<leftarrow> postprocess stage mt;
       events \<leftarrow> to_merged_events mt';
       Some
         \<lparr>mr_events = events, mr_clients = snd st, mr_counts = get_merge_counts (snd st),
          mr_alerts = alerts @
            (if mt_offset mt > 0 then [Timeline_Offset_Applied (int (mt_offset mt)) (rs_count reference)] else []) @
            surface_alerts (snd st),
          mr_reference = reference\<rparr>
     }"

definition merge :: "merge_params \<Rightarrow> bool \<Rightarrow> challenge_info \<Rightarrow> stage \<Rightarrow> client_events list \<Rightarrow> merge_report option option" where
  "merge mp align_mismatched challenge stage inputs =
     (let clients = sort_clients inputs;
          bad = filter (has_anomaly BAD_DATA) clients; good = filter (\<lambda>c. \<not> has_anomaly BAD_DATA c) clients
      in if good = [] then Some None
         else do {
           (cl, demoted, alerts) \<leftarrow> classify_and_update good;
           mt \<leftarrow> new_merged_timeline (cl_base cl)
             (merge_context_for challenge stage (with_demoted demoted clients) (cl_base cl)) (cl_reference cl);
           map_option Some (finish_merge mp stage (cl_reference cl) alerts (merge_steps mp align_mismatched cl bad mt))
         })"

subsection \<open>Steps\<close>

lemma map_cx_fields [simp]:
  "mt_cx (map_cx f mt) = f (mt_cx mt)" "mt_ticks (map_cx f mt) = mt_ticks mt" "mt_inherited (map_cx f mt) = mt_inherited mt"
  "mt_reference (map_cx f mt) = mt_reference mt" "mt_finalized (map_cx f mt) = mt_finalized mt"
  "mt_offset (map_cx f mt) = mt_offset mt" "mt_status (map_cx f mt) = mt_status mt"
  by (simp_all add: map_cx_def)

lemma map_mapping_fields [simp]:
  "cx_mapping (map_mapping f cx) = f (cx_mapping cx)" "cx_stage (map_mapping f cx) = cx_stage cx"
  "cx_clients (map_mapping f cx) = cx_clients cx" "cx_contested (map_mapping f cx) = cx_contested cx"
  "cx_challenge (map_mapping f cx) = cx_challenge cx"
  by (simp_all add: map_mapping_def)

lemma discard_begun:
  "mm_in_flight (cx_mapping (mt_cx mt)) = None \<Longrightarrow>
     map_cx (map_mapping discard_step) (map_cx (map_mapping (begin_step c m)) mt) = mt"
  by (simp add: map_cx_def map_mapping_def discard_step_def begin_step_def)

lemma record_contested_tick_fields [simp]:
  "cx_mapping (record_contested_tick c f cx) = cx_mapping cx" "cx_stage (record_contested_tick c f cx) = cx_stage cx"
  "cx_clients (record_contested_tick c f cx) = cx_clients cx" "cx_challenge (record_contested_tick c f cx) = cx_challenge cx"
  by (simp_all add: record_contested_tick_def Let_def split: option.split)

lemma record_contested_ticks_fields [simp]:
  "cx_mapping (record_contested_ticks cx c fs) = cx_mapping cx" "cx_stage (record_contested_ticks cx c fs) = cx_stage cx"
  "cx_clients (record_contested_ticks cx c fs) = cx_clients cx" "cx_challenge (record_contested_ticks cx c fs) = cx_challenge cx"
  by (induction fs arbitrary: cx) (simp_all add: record_contested_ticks_def)

text \<open>What a step that merges a client does to the timeline.\<close>

definition merged_by :: "merge_params \<Rightarrow> client_events \<Rightarrow> step_confidence \<Rightarrow> quality_flag list \<Rightarrow> mappings \<Rightarrow>
    merged_timeline \<Rightarrow> merged_timeline \<Rightarrow> bool" where
  "merged_by mp c conf flags m mt mt' \<longleftrightarrow>
     min_merge_confidence_threshold \<le> pc_overall conf \<and>
     check_merge (mp_cooldown mp) (cx_stage (mt_cx mt)) (mt_ticks mt') = Some [] \<and>
     mm_chain (cx_mapping (mt_cx mt')) = mm_chain (cx_mapping (mt_cx mt)) @ [(ce_id c, m)] \<and>
     mm_in_flight (cx_mapping (mt_cx mt')) = None \<and>
     mm_base_client (cx_mapping (mt_cx mt')) = mm_base_client (cx_mapping (mt_cx mt)) \<and>
     cx_stage (mt_cx mt') = cx_stage (mt_cx mt) \<and> cx_clients (mt_cx mt') = cx_clients (mt_cx mt) \<and>
     mt_inherited mt' = mt_inherited mt \<and> mt_reference mt' = mt_reference mt \<and>
     (\<exists>r. consolidate (mp_consolidate mp) (map_mapping (begin_step (ce_id c) m) (mt_cx mt)) (mt_ticks mt)
         (map Some (ce_ticks c)) = Some r \<and> mt_ticks mt' = cr_ticks r \<and> flags = cr_flags r)"

lemma attempt_step_cases:
  assumes "mm_in_flight (cx_mapping (mt_cx mt)) = None"
  obtains (Keeps) outcome where "attempt_step mp c al m mt = (outcome, mt)"
      "\<forall>out. outcome = Some out \<longrightarrow> status_from_outcome out = UNMERGED"
    | (Merges) conf flags mt' where "attempt_step mp c al m mt = (Some (Step_Merged (Some conf), flags), mt')"
      "merged_by mp c conf flags m mt mt'"
proof -
  let ?cx = "map_mapping (begin_step (ce_id c) m) (mt_cx mt)"
  let ?cons = "consolidate (mp_consolidate mp) ?cx (mt_ticks mt) (map Some (ce_ticks c))"
  note unfold = attempt_step_def Let_def discard_begun [OF assms]
  consider "?cons = None"
    | r where "?cons = Some r" "check_merge (mp_cooldown mp) (cx_stage (mt_cx mt)) (cr_ticks r) = None"
    | r issues where "?cons = Some r" "check_merge (mp_cooldown mp) (cx_stage (mt_cx mt)) (cr_ticks r) = Some issues"
    by (cases ?cons; cases "check_merge (mp_cooldown mp) (cx_stage (mt_cx mt)) (cr_ticks (the ?cons))") auto
  then show thesis
  proof cases
    case 1
    then show thesis by (intro Keeps) (auto simp: unfold)
  next
    case 2
    then show thesis by (intro Keeps) (auto simp: unfold)
  next
    case (3 r issues)
    let ?conf = "score_step_confidence (mp_exp mp) (mp_log mp) default_confidence_weights
      default_baseline_compatibility_weight al (cr_counters r) (cr_flags r)"
    show thesis
    proof (cases "issues \<noteq> [] \<or> pc_overall ?conf < min_merge_confidence_threshold")
      case True
      with 3 show thesis by (intro Keeps) (auto simp: unfold)
    next
      case False
      have "mm_in_flight (commit_step (begin_step (ce_id c) m mm)) = None \<and>
          mm_chain (commit_step (begin_step (ce_id c) m mm)) = mm_chain mm @ [(ce_id c, m)] \<and>
          mm_base_client (commit_step (begin_step (ce_id c) m mm)) = mm_base_client mm" for mm
        by (simp add: commit_step_def begin_step_def)
      with 3 False show thesis by (intro Merges) (auto simp: unfold merged_by_def)
    qed
  qed
qed

lemma merge_events_from_cases:
  assumes "mm_in_flight (cx_mapping (mt_cx mt)) = None"
  obtains (Keeps) outcome where "merge_events_from mp am c mt = (outcome, mt)"
      "\<forall>out. outcome = Some out \<longrightarrow> status_from_outcome out = UNMERGED"
    | (Merges) al m conf flags mt' where "merge_events_from mp am c mt = (Some (Step_Merged (Some conf), flags), mt')"
      "step_mappings mp am c mt = Some (Some (al, m))" "merged_by mp c conf flags m mt mt'"
proof -
  consider "step_mappings mp am c mt = None" | "step_mappings mp am c mt = Some None"
    | al m where "step_mappings mp am c mt = Some (Some (al, m))"
    by (metis option.exhaust prod.exhaust)
  then show thesis
  proof cases
    case (3 al m)
    from assms show thesis
    proof (cases rule: attempt_step_cases [where mp = mp and c = c and al = al and m = m])
      case (Keeps outcome)
      with 3 show thesis by (intro that(1)) (auto simp: merge_events_from_def)
    next
      case (Merges conf flags mt')
      with 3 show thesis by (intro that(2)) (auto simp: merge_events_from_def)
    qed
  qed (auto simp: merge_events_from_def intro!: Keeps)
qed

text \<open>C19: a merge step is atomic. It leaves the timeline, the mapping and the contested ticks exactly as they were unless its
  client is merged; then the new timeline passes the consistency check, the confidence of the step reaches the threshold,
  the step is the last of the mapping's chain, and nothing is in flight any more.\<close>

theorem merge_step_atomic:
  assumes "mm_in_flight (cx_mapping (mt_cx mt)) = None" and "merge_events_from mp am c mt = (outcome, mt')"
  shows "(case outcome of
      Some (Step_Merged conf, flags) \<Rightarrow>
        (\<exists>cf m. conf = Some cf \<and> 3 / 4 \<le> pc_overall cf \<and>
          check_merge (mp_cooldown mp) (cx_stage (mt_cx mt)) (mt_ticks mt') = Some [] \<and>
          mm_chain (cx_mapping (mt_cx mt')) = mm_chain (cx_mapping (mt_cx mt)) @ [(ce_id c, m)] \<and>
          mm_in_flight (cx_mapping (mt_cx mt')) = None)
    | _ \<Rightarrow> mt' = mt)"
  using assms(1)
proof (cases rule: merge_events_from_cases [where mp = mp and c = c and am = am])
  case (Keeps out)
  with assms(2) show ?thesis by (auto split: option.split step_result.split)
next
  case (Merges al m conf flags mt'')
  with assms(2) show ?thesis by (auto simp: merged_by_def min_merge_confidence_threshold_def)
qed

subsection \<open>The chain of steps\<close>

lemma consolidate_length:
  assumes "consolidate kp cx base target = Some r" and "mm_in_flight (cx_mapping cx) = Some (tid, m)"
    and "mapping_ok (m_base m)" and "length (reverse (m_base m)) = m_count m"
  shows "length (cr_ticks r) = m_count m"
proof -
  let ?cn0 = "\<lparr>cn_ticks = replicate (m_count m) None, cn_base_buffer = [], cn_target_buffer = [], cn_flags = [],
    cn_counters = no_counters\<rparr>"
  let ?cn1 = "fold (place_base_tick kp (m_base m)) (enumerate 0 base) ?cn0"
  have less: "to_merged (m_base m) i = Some p \<Longrightarrow> p < length (cn_ticks ?cn0)" for i p
    using to_merged_less(1) [OF assms(3)] assms(4) by simp
  have "length (cn_ticks (place_target_tick kp tm x cn)) = length (cn_ticks cn) \<and>
      (arr_get (cn_ticks cn) p \<noteq> None \<longrightarrow> arr_get (cn_ticks (place_target_tick kp tm x cn)) p \<noteq> None)" for tm x cn p
    by (auto simp: place_target_tick_def split_beta Let_def arr_get_set split: option.split)
  then have "length (cn_ticks (fold (place_target_tick kp tm) xs cn)) = length (cn_ticks cn) \<and>
      (arr_get (cn_ticks cn) p \<noteq> None \<longrightarrow> arr_get (cn_ticks (fold (place_target_tick kp tm) xs cn)) p \<noteq> None)" for tm xs cn p
    by (induction xs arbitrary: cn) simp_all
  note keep = this
  have len: "length (cn_ticks (build_timeline kp m base target)) = m_count m"
    using keep build_base(2) [OF assms(3) less] by (simp add: build_timeline_def)
  have "present_tick base (to_client (m_base m) p) \<noteq> None \<Longrightarrow> arr_get (cn_ticks (build_timeline kp m base target)) p \<noteq> None" for p
    unfolding build_timeline_def by (rule keep [THEN conjunct2, rule_format]) (auto simp: build_base(1) [OF assms(3) less])
  then obtain cn1 where cn1: "consolidate_ticks kp cx m base target (build_timeline kp m base target) = Some cn1"
    "length (cn_ticks cn1) = m_count m" using consolidate_ticks_Some len by metis
  from assms(1,2) cn1(1) obtain cn2 flags where cn2: "reconcile_streams kp cx m cn1 = Some cn2"
    and remap: "remap_all_to_merged tid m (cn_ticks cn2) = Some (cr_ticks r, flags)"
    by (auto simp: consolidate_def split: option.splits)
  from reconcile_streams_view [OF cn2] have "length (cn_ticks cn2) = length (cn_ticks cn1)"
    unfolding view_def by (rule map_eq_imp_length_eq)
  with remap_all_nth(1) [OF remap] cn1(2) show ?thesis by simp
qed

lemma step_mappings_ok:
  assumes "step_mappings mp am c mt = Some (Some (al, m))"
  shows "mappings_ok m" "client_tick_count (m_base m) = length (mt_ticks mt)" "length (reverse (m_base m)) = m_count m"
proof -
  have pos: "0 < gap_open_penalty default_alignment_config" "0 < min_score default_alignment_config"
    by (simp_all add: default_alignment_config_def)
  have "mappings_ok m \<and> client_tick_count (m_base m) = length (mt_ticks mt) \<and> length (reverse (m_base m)) = m_count m"
  proof (cases "mt_inherited mt \<and> ce_accurate c")
    case True
    with assms have "m = \<lparr>m_base = identity_mapping (length (mt_ticks mt)), m_target = identity_mapping (length (ce_ticks c)),
        m_count = length (mt_ticks mt)\<rparr>" by (simp add: step_mappings_def Let_def)
    then show ?thesis
      by (simp add: mappings_ok_def identity_mapping_ok) (simp add: client_tick_count_def identity_mapping_def)
  next
    case False
    with assms obtain res where res: "run_alignment mp c mt = Some res"
      and m: "from_alignment (length (mt_ticks mt)) (length (ce_ticks c)) (map la_entries (ar_alignments res)) = Some m"
      by (auto simp: step_mappings_def Let_def split: if_splits option.splits)
    obtain res' where "align default_alignment_config (similarity (merge_scorer mp)) (mt_ticks mt) (map Some (ce_ticks c)) = Some res'"
      "mappable (length (mt_ticks mt)) (length (map Some (ce_ticks c))) (map la_entries (ar_alignments res'))"
      using align_mappable [OF pos] by metis
    with res have "mappable (length (mt_ticks mt)) (length (ce_ticks c)) (map la_entries (ar_alignments res))"
      by (simp add: run_alignment_def)
    from from_alignment_spec [OF this] m show ?thesis by (metis client_tick_count_def option.inject)
  qed
  then show "mappings_ok m" "client_tick_count (m_base m) = length (mt_ticks mt)" "length (reverse (m_base m)) = m_count m"
    by simp_all
qed

text \<open>Every mapping of the chain starts from the timeline the one before it made.\<close>

fun linked :: "nat \<Rightarrow> (int \<times> mappings) list \<Rightarrow> nat \<Rightarrow> bool" where
  "linked n [] k \<longleftrightarrow> n = k"
| "linked n ((c, m) # chain) k \<longleftrightarrow> client_tick_count (m_base m) = n \<and> linked (m_count m) chain k"

lemma linked_snoc: "linked n (chain @ [(c, m)]) k \<longleftrightarrow> linked n chain (client_tick_count (m_base m)) \<and> m_count m = k"
  by (induction n chain k rule: linked.induct) auto

lemma merged_by_length:
  assumes "merged_by mp c conf flags m mt mt'" and "step_mappings mp am c mt = Some (Some (al, m))"
  shows "length (mt_ticks mt') = m_count m"
proof -
  from assms(1) obtain r where r: "consolidate (mp_consolidate mp) (map_mapping (begin_step (ce_id c) m) (mt_cx mt)) (mt_ticks mt)
      (map Some (ce_ticks c)) = Some r" "mt_ticks mt' = cr_ticks r" by (auto simp: merged_by_def)
  have "mm_in_flight (cx_mapping (map_mapping (begin_step (ce_id c) m) (mt_cx mt))) = Some (ce_id c, m)"
    by (simp add: begin_step_def)
  from consolidate_length [OF r(1) this] step_mappings_ok [OF assms(2)] r(2) show ?thesis by (simp add: mappings_ok_def)
qed

subsection \<open>The state of a run\<close>

definition reported_status :: "merge_client list \<Rightarrow> int \<Rightarrow> merge_client_status" where
  "reported_status mcs i = (case map_of (map (\<lambda>m. (mc_id m, mc_status m)) mcs) i of None \<Rightarrow> UNMERGED | Some s \<Rightarrow> s)"

definition merged_ids :: "merge_client list \<Rightarrow> int list" where
  "merged_ids mcs = map mc_id (filter (\<lambda>m. mc_status m = MERGED) mcs)"

definition run_ok :: "merge_params \<Rightarrow> stage \<Rightarrow> nat \<Rightarrow> merged_timeline \<times> merge_client list \<Rightarrow> bool" where
  "run_ok mp stage n st \<longleftrightarrow>
     (let mt = fst st; mcs = snd st; mm = cx_mapping (mt_cx mt) in
      mm_in_flight mm = None \<and> cx_stage (mt_cx mt) = stage \<and>
      mm_base_client mm # map fst (mm_chain mm) = merged_ids mcs \<and>
      linked n (mm_chain mm) (length (mt_ticks mt)) \<and> merge_mapping_ok mm \<and>
      (mm_chain mm \<noteq> [] \<longrightarrow> check_merge (mp_cooldown mp) stage (mt_ticks mt) = Some []) \<and>
      map mc_sequence mcs = [0..<length mcs] \<and> distinct (map fst (cx_clients (mt_cx mt))) \<and>
      (\<forall>(i, r) \<in> set (cx_clients (mt_cx mt)). rc_status r = reported_status mcs i))"

lemma create_merge_client_fields [simp]:
  "mc_id (create_merge_client c cls s n fs rs is cf) = ce_id c" "mc_status (create_merge_client c cls s n fs rs is cf) = s"
  "mc_sequence (create_merge_client c cls s n fs rs is cf) = n"
  "mc_classification (create_merge_client c cls s n fs rs is cf) = cls"
  by (simp_all add: create_merge_client_def)

lemma map_entry_set:
  "distinct (map fst m) \<Longrightarrow> (i, r) \<in> set (AList.map_entry k f m) \<Longrightarrow>
     (i \<noteq> k \<and> (i, r) \<in> set m) \<or> (i = k \<and> (\<exists>r0. (i, r0) \<in> set m \<and> r = f r0))"
  by (induction m) (force split: if_splits)+

text \<open>Recording the outcome of a step that has kept the chain in order.\<close>

lemma record_run:
  assumes "distinct (ce_id c # map mc_id mcs)" and "mm_in_flight (cx_mapping (mt_cx mt)) = None"
    and "cx_stage (mt_cx mt) = stage" and "map mc_sequence mcs = [0..<length mcs]"
    and "mm_base_client (cx_mapping (mt_cx mt)) # map fst (mm_chain (cx_mapping (mt_cx mt))) =
      merged_ids mcs @ (if status_from_outcome outcome = MERGED then [ce_id c] else [])"
    and "linked n (mm_chain (cx_mapping (mt_cx mt))) (length (mt_ticks mt))" and "merge_mapping_ok (cx_mapping (mt_cx mt))"
    and "mm_chain (cx_mapping (mt_cx mt)) \<noteq> [] \<Longrightarrow> check_merge (mp_cooldown mp) stage (mt_ticks mt) = Some []"
    and "distinct (map fst (cx_clients (mt_cx mt)))"
    and "\<forall>(i, r) \<in> set (cx_clients (mt_cx mt)). rc_status r = reported_status mcs i"
  shows "run_ok mp stage n (record_merge_result c cls outcome (mt, mcs))"
proof -
  define mc where "mc = create_merge_client c cls (status_from_outcome outcome) (length mcs) (snd outcome)
    (map_option rj_reason (case fst outcome of Step_Rejected r \<Rightarrow> Some r | _ \<Rightarrow> None))
    (case (case fst outcome of Step_Rejected r \<Rightarrow> Some r | _ \<Rightarrow> None) of None \<Rightarrow> [] | Some r \<Rightarrow> rj_issues r)
    (case fst outcome of Step_Merged cf \<Rightarrow> cf | _ \<Rightarrow> None)"
  have mc: "mc_id mc = ce_id c" "mc_status mc = status_from_outcome outcome" "mc_sequence mc = length mcs"
    by (simp_all add: mc_def)
  have eq: "record_merge_result c cls outcome (mt, mcs) =
      (map_cx (\<lambda>cx. cx\<lparr>cx_clients := AList.map_entry (ce_id c) (\<lambda>r. r\<lparr>rc_status := status_from_outcome outcome\<rparr>) (cx_clients cx)\<rparr>) mt,
       mcs @ [mc])"
    by (simp add: record_merge_result_def mc_def Let_def)
  have seq: "map mc_sequence (mcs @ [mc]) = [0..<length (mcs @ [mc])]" using assms(4) mc by simp
  have reported: "reported_status (mcs @ [mc]) i = (if i = ce_id c then status_from_outcome outcome else reported_status mcs i)" for i
  proof -
    have "map_of (map (\<lambda>m. (mc_id m, mc_status m)) mcs) (ce_id c) = None"
      using assms(1) by (auto simp: map_of_eq_None_iff)
    then show ?thesis by (auto simp: reported_status_def map_add_def mc split: option.split)
  qed
  have ids: "merged_ids (mcs @ [mc]) = merged_ids mcs @ (if status_from_outcome outcome = MERGED then [ce_id c] else [])"
    by (simp add: merged_ids_def mc)
  have status: "\<forall>(i, r) \<in> set (AList.map_entry (ce_id c) (\<lambda>r. r\<lparr>rc_status := status_from_outcome outcome\<rparr>) (cx_clients (mt_cx mt))).
      rc_status r = reported_status (mcs @ [mc]) i"
    using assms(10) by (auto simp: reported dest!: map_entry_set [OF assms(9)])
  show ?thesis
    unfolding eq run_ok_def Let_def fst_conv snd_conv
    using assms(2-3,5-9) seq ids status by (simp add: distinct_map_entry)
qed

lemma run_okD:
  assumes "run_ok mp stage n (mt, mcs)"
  shows "mm_in_flight (cx_mapping (mt_cx mt)) = None" "cx_stage (mt_cx mt) = stage"
    "mm_base_client (cx_mapping (mt_cx mt)) # map fst (mm_chain (cx_mapping (mt_cx mt))) = merged_ids mcs"
    "linked n (mm_chain (cx_mapping (mt_cx mt))) (length (mt_ticks mt))" "merge_mapping_ok (cx_mapping (mt_cx mt))"
    "mm_chain (cx_mapping (mt_cx mt)) \<noteq> [] \<Longrightarrow> check_merge (mp_cooldown mp) stage (mt_ticks mt) = Some []"
    "map mc_sequence mcs = [0..<length mcs]" "distinct (map fst (cx_clients (mt_cx mt)))"
    "\<forall>(i, r) \<in> set (cx_clients (mt_cx mt)). rc_status r = reported_status mcs i"
  using assms by (simp_all add: run_ok_def Let_def)

lemma record_unmerged_run:
  assumes "run_ok mp stage n (mt, mcs)" and "distinct (ce_id c # map mc_id mcs)" and "status_from_outcome outcome \<noteq> MERGED"
  shows "run_ok mp stage n (record_merge_result c cls outcome (mt, mcs))"
  using assms(2,3) run_okD [OF assms(1)] by (intro record_run) simp_all

lemma merge_from_run:
  assumes "run_ok mp stage n (mt, mcs)" and "distinct (ce_id c # map mc_id mcs)"
  shows "run_ok mp stage n (merge_from mp am cls c (mt, mcs))"
  using run_okD(1) [OF assms(1)]
proof (cases rule: merge_events_from_cases [where mp = mp and c = c and am = am])
  case (Keeps outcome)
  then show ?thesis
    unfolding merge_from_def fst_conv snd_conv prod.case
    by (auto intro!: record_unmerged_run [OF assms] split: option.split)
next
  case (Merges al m conf flags mt')
  note old = run_okD [OF assms(1)] and new = Merges(3) [unfolded merged_by_def]
  have "linked n (mm_chain (cx_mapping (mt_cx mt'))) (length (mt_ticks mt'))"
    using old(4) new step_mappings_ok(2) [OF Merges(2)] merged_by_length [OF Merges(3,2)] by (simp add: linked_snoc)
  moreover have "merge_mapping_ok (cx_mapping (mt_cx mt'))"
    using old(1,5) new step_mappings_ok(1) [OF Merges(2)] by (simp add: merge_mapping_ok_def steps_of_def)
  ultimately show ?thesis
    unfolding merge_from_def fst_conv snd_conv Merges(1) prod.case option.case
    using assms(2) old new by (intro record_run) auto
qed

lemma record_ids [simp]: "map mc_id (snd (record_merge_result c cls outcome st)) = map mc_id (snd st) @ [ce_id c]"
  by (simp add: record_merge_result_def Let_def)

lemma merge_from_ids [simp]: "map mc_id (snd (merge_from mp am cls c st)) = map mc_id (snd st) @ [ce_id c]"
  by (simp add: merge_from_def split: prod.split)

lemma fold_run:
  assumes "\<And>c mt mcs. run_ok mp stage n (mt, mcs) \<Longrightarrow> distinct (ce_id c # map mc_id mcs) \<Longrightarrow> run_ok mp stage n (f c (mt, mcs))"
    and "\<And>c st. map mc_id (snd (f c st)) = map mc_id (snd st) @ [ce_id c]"
    and "run_ok mp stage n st" and "map mc_id (snd st) = ids" and "distinct (ids @ map ce_id cs)"
  shows "run_ok mp stage n (fold f cs st) \<and> map mc_id (snd (fold f cs st)) = ids @ map ce_id cs"
  using assms(3-5)
proof (induction cs arbitrary: st ids)
  case (Cons c cs)
  from Cons.prems have "run_ok mp stage n (f c st)" using assms(1) [of "fst st" "snd st" c] by (cases st) simp
  moreover have "map mc_id (snd (f c st)) = ids @ [ce_id c]" using Cons.prems(2) by (simp add: assms(2))
  ultimately show ?case using Cons.IH [of "f c st" "ids @ [ce_id c]"] Cons.prems(3) by simp
qed simp

subsection \<open>From the inputs to the run\<close>

lemma demoted_ids: "map ce_id (fst (demote_clients clients)) = map ce_id clients"
  using arg_cong [OF demoted_clients, of "map ce_id" clients] by (simp add: comp_def)

lemma classify_and_update_Some:
  assumes "classify_and_update clients = Some (cl, demoted, alerts)" and "distinct (map ce_id clients)"
  shows "map ce_id demoted = map ce_id clients"
    "mset (map ce_id (cl_base cl # cl_matching cl @ cl_mismatched cl)) = mset (map ce_id clients)"
    "cl_base cl \<in> set demoted"
proof -
  from assms(1) have d: "demoted = fst (demote_clients clients)" and r: "classify_clients demoted = Some cl"
    by (auto simp: classify_and_update_def split: prod.splits)
  show ids: "map ce_id demoted = map ce_id clients" by (simp add: d demoted_ids)
  show base: "cl_base cl \<in> set demoted"
  proof (cases "filter ce_accurate demoted = []")
    case True
    from inexact_selection_base(1) [OF classify_clients_Some(2) [OF r True]] show ?thesis .
  next
    case False
    from accurate_selection_Some(1) [OF classify_clients_Some(1) [OF r False]] show ?thesis by simp
  qed
  have "mset (cl_matching cl @ cl_mismatched cl) = mset (filter (\<lambda>c. ce_id c \<noteq> ce_id (cl_base cl)) demoted)"
    by (simp add: classify_clients_Some(3,4) [OF r] del: filter_filter)
  from arg_cong [OF this, of "image_mset ce_id"]
  have others: "mset (map ce_id (cl_matching cl @ cl_mismatched cl)) = mset (filter (\<lambda>i. i \<noteq> ce_id (cl_base cl)) (map ce_id demoted))"
    by (simp only: mset_map filter_map comp_def)
  have remove: "add_mset i (mset (filter (\<lambda>j. j \<noteq> i) xs)) = mset xs" if "distinct xs" "i \<in> set xs" for i :: int and xs
  proof -
    have "filter (\<lambda>j. j \<noteq> i) xs = remove1 i xs"
      using that(1) by (induction xs) (auto simp: filter_id_conv)
    with that(2) show ?thesis by simp
  qed
  have "add_mset (ce_id (cl_base cl)) (mset (filter (\<lambda>i. i \<noteq> ce_id (cl_base cl)) (map ce_id demoted))) = mset (map ce_id demoted)"
  proof (rule remove)
    show "distinct (map ce_id demoted)" using assms(2) ids by simp
    show "ce_id (cl_base cl) \<in> set (map ce_id demoted)" using base by simp
  qed
  then show "mset (map ce_id (cl_base cl # cl_matching cl @ cl_mismatched cl)) = mset (map ce_id clients)"
    by (simp only: list.map mset.simps others ids)
qed

lemma merge_context_clients:
  "distinct (map fst (cx_clients (merge_context_for ch stage cs base)))"
  "(i, r) \<in> set (cx_clients (merge_context_for ch stage cs base)) \<Longrightarrow> rc_status r = UNMERGED"
proof -
  have "distinct (map fst m) \<Longrightarrow> distinct (map fst (fold (\<lambda>c. AList.update (ce_id c) \<lparr>rc_client = c, rc_status = UNMERGED\<rparr>) cs m))" for m
    by (induction cs arbitrary: m) (simp_all add: distinct_update)
  then show "distinct (map fst (cx_clients (merge_context_for ch stage cs base)))" by (simp add: merge_context_for_def)
  have upd: "list_all (\<lambda>x. rc_status (snd x) = UNMERGED) m \<Longrightarrow>
      list_all (\<lambda>x. rc_status (snd x) = UNMERGED) (AList.update k \<lparr>rc_client = c, rc_status = UNMERGED\<rparr> m)"
    for k c and m :: "(int, registered_client) omap"
    by (induction m) auto
  have "list_all (\<lambda>x. rc_status (snd x) = UNMERGED) m \<Longrightarrow>
      list_all (\<lambda>x. rc_status (snd x) = UNMERGED) (fold (\<lambda>c. AList.update (ce_id c) \<lparr>rc_client = c, rc_status = UNMERGED\<rparr>) cs m)" for m
    by (induction cs arbitrary: m) (simp_all add: upd)
  from this [of "[]"] have "list_all (\<lambda>x. rc_status (snd x) = UNMERGED) (cx_clients (merge_context_for ch stage cs base))"
    by (simp add: merge_context_for_def)
  then show "(i, r) \<in> set (cx_clients (merge_context_for ch stage cs base)) \<Longrightarrow> rc_status r = UNMERGED"
    by (auto simp: list_all_iff)
qed

lemma merge_steps_run:
  assumes "new_merged_timeline (cl_base cl) (merge_context_for ch stage cs (cl_base cl)) (cl_reference cl) = Some mt"
    and "distinct (map ce_id (cl_base cl # cl_matching cl @ cl_mismatched cl @ bad))"
  shows "run_ok mp stage (length (mt_ticks mt)) (merge_steps mp am cl bad mt)"
    and "map mc_id (snd (merge_steps mp am cl bad mt)) = map ce_id (cl_base cl # cl_matching cl @ cl_mismatched cl @ bad)"
proof -
  let ?n = "length (mt_ticks mt)"
  let ?st0 = "record_merge_result (cl_base cl) REFERENCE (Step_Merged None, []) (mt, [])"
  from assms(1) have cx: "mt_cx mt = merge_context_for ch stage cs (cl_base cl)" by (auto simp: new_merged_timeline_def)
  have "run_ok mp stage ?n ?st0"
    by (rule record_run) (use merge_context_clients [where ch = ch and stage = stage and cs = cs and base = "cl_base cl"] in
      \<open>auto simp: cx reported_status_def merge_context_for_def new_merge_mapping_def merged_ids_def merge_mapping_ok_def steps_of_def\<close>)
  note st0 = this
  have skip: "run_ok mp stage ?n (mt', mcs) \<Longrightarrow> distinct (ce_id c # map mc_id mcs) \<Longrightarrow>
      run_ok mp stage ?n (record_merge_result c MISMATCHED (Step_Skipped, []) (mt', mcs))" for c mt' mcs
    by (rule record_unmerged_run) simp_all
  have from_run: "run_ok mp stage ?n st \<Longrightarrow> map mc_id (snd st) = ids \<Longrightarrow> distinct (ids @ map ce_id cs) \<Longrightarrow>
      run_ok mp stage ?n (fold (merge_from mp am cls) cs st) \<and>
      map mc_id (snd (fold (merge_from mp am cls) cs st)) = ids @ map ce_id cs" for st ids cs cls
    by (rule fold_run) (simp_all add: merge_from_run)
  have skip_run: "run_ok mp stage ?n st \<Longrightarrow> map mc_id (snd st) = ids \<Longrightarrow> distinct (ids @ map ce_id cs) \<Longrightarrow>
      run_ok mp stage ?n (fold (\<lambda>c. record_merge_result c MISMATCHED (Step_Skipped, [])) cs st) \<and>
      map mc_id (snd (fold (\<lambda>c. record_merge_result c MISMATCHED (Step_Skipped, [])) cs st)) = ids @ map ce_id cs" for st ids cs
    by (rule fold_run) (simp_all add: skip)
  let ?st1 = "fold (merge_from mp am MATCHING) (cl_matching cl) ?st0"
  let ?st2 = "fold (merge_from mp am MISMATCHED) (cl_mismatched cl) ?st1"
  have 1: "run_ok mp stage ?n ?st1 \<and> map mc_id (snd ?st1) = [ce_id (cl_base cl)] @ map ce_id (cl_matching cl)"
    by (rule from_run [OF st0]) (use assms(2) in auto)
  have 2: "run_ok mp stage ?n ?st2 \<and>
      map mc_id (snd ?st2) = ([ce_id (cl_base cl)] @ map ce_id (cl_matching cl)) @ map ce_id (cl_mismatched cl)"
    by (rule from_run [OF 1 [THEN conjunct1] 1 [THEN conjunct2]]) (use assms(2) in auto)
  have "run_ok mp stage ?n (merge_steps mp am cl bad mt) \<and> map mc_id (snd (merge_steps mp am cl bad mt)) =
      (([ce_id (cl_base cl)] @ map ce_id (cl_matching cl)) @ map ce_id (cl_mismatched cl)) @ map ce_id bad"
    unfolding merge_steps_def
    by (rule skip_run [OF 2 [THEN conjunct1] 2 [THEN conjunct2]]) (use assms(2) in auto)
  then show "run_ok mp stage ?n (merge_steps mp am cl bad mt)"
    "map mc_id (snd (merge_steps mp am cl bad mt)) = map ce_id (cl_base cl # cl_matching cl @ cl_mismatched cl @ bad)"
    by simp_all
qed

subsection \<open>What a merge reports\<close>

lemma merge_counts:
  "get_merge_counts mcs =
     (length (filter (\<lambda>m. mc_status m = MERGED) mcs), length (filter (\<lambda>m. mc_status m = UNMERGED) mcs),
      length (filter (\<lambda>m. mc_status m = SKIPPED) mcs))"
proof -
  have "fold (\<lambda>c (m, u, s). case mc_status c of MERGED \<Rightarrow> (m + 1, u, s) | UNMERGED \<Rightarrow> (m, u + 1, s) | SKIPPED \<Rightarrow> (m, u, s + 1))
      mcs (m, u, s) =
    (m + length (filter (\<lambda>m. mc_status m = MERGED) mcs), u + length (filter (\<lambda>m. mc_status m = UNMERGED) mcs),
     s + length (filter (\<lambda>m. mc_status m = SKIPPED) mcs))" for m u s
    by (induction mcs arbitrary: m u s) (auto split: merge_client_status.split)
  then show ?thesis by (simp add: get_merge_counts_def)
qed

lemma counts_sum:
  "length (filter (\<lambda>m. mc_status m = MERGED) mcs) + length (filter (\<lambda>m. mc_status m = UNMERGED) mcs) +
     length (filter (\<lambda>m. mc_status m = SKIPPED) mcs) = length mcs"
  by (induction mcs) (auto, metis merge_client_status.exhaust)

text \<open>Each report that a step adds, of the clients that are skipped and of the others.\<close>

lemma attempt_never_skips: "fst (attempt_step mp c al m mt) = Some out \<Longrightarrow> status_from_outcome out \<noteq> SKIPPED"
  by (cases out rule: status_from_outcome.cases) (simp_all add: attempt_step_def Let_def split: option.splits if_splits)

lemma step_never_skips: "fst (merge_events_from mp am c mt) = Some out \<Longrightarrow> status_from_outcome out \<noteq> SKIPPED"
  by (cases "step_mappings mp am c mt")
    (auto simp: merge_events_from_def attempt_never_skips split: option.splits)

lemma fold_reports:
  assumes "\<And>c st. \<exists>m. snd (f c st) = snd st @ [m] \<and> P m"
  shows "\<exists>new. snd (fold f cs st) = snd st @ new \<and> length new = length cs \<and> list_all P new"
proof (induction cs arbitrary: st)
  case (Cons c cs)
  obtain m where "snd (f c st) = snd st @ [m]" "P m" using assms by blast
  with Cons [of "f c st"] show ?case by force
qed simp

lemma merge_steps_reports:
  obtains ms us where "snd (merge_steps mp am cl bad mt) = ms # us" "mc_status ms = MERGED" "mc_classification ms = REFERENCE"
    "list_all (\<lambda>m. mc_status m \<noteq> SKIPPED) (take (length (cl_matching cl @ cl_mismatched cl)) us)"
    "list_all (\<lambda>m. mc_status m = SKIPPED) (drop (length (cl_matching cl @ cl_mismatched cl)) us)"
proof -
  let ?st0 = "record_merge_result (cl_base cl) REFERENCE (Step_Merged None, []) (mt, [])"
  let ?st1 = "fold (merge_from mp am MATCHING) (cl_matching cl) ?st0"
  let ?st2 = "fold (merge_from mp am MISMATCHED) (cl_mismatched cl) ?st1"
  have from_one: "\<exists>m. snd (merge_from mp am cls c st) = snd st @ [m] \<and> mc_status m \<noteq> SKIPPED" for cls c st
  proof -
    obtain outcome mt' where o: "merge_events_from mp am c (fst st) = (outcome, mt')" by fastforce
    then have "status_from_outcome (case outcome of None \<Rightarrow> (Step_Unmerged, []) | Some r \<Rightarrow> r) \<noteq> SKIPPED"
      using step_never_skips [of mp am c "fst st"] by (cases outcome) simp_all
    then show ?thesis by (simp add: merge_from_def record_merge_result_def Let_def o)
  qed
  have skip_one: "\<exists>m. snd (record_merge_result c MISMATCHED (Step_Skipped, []) st) = snd st @ [m] \<and> mc_status m = SKIPPED" for c st
    by (simp add: record_merge_result_def)
  obtain m0 where m0: "snd ?st0 = [m0]" "mc_status m0 = MERGED" "mc_classification m0 = REFERENCE"
    by (simp add: record_merge_result_def)
  obtain n1 where n1: "snd ?st1 = snd ?st0 @ n1" "length n1 = length (cl_matching cl)" "list_all (\<lambda>m. mc_status m \<noteq> SKIPPED) n1"
    using fold_reports [of "merge_from mp am MATCHING" "\<lambda>m. mc_status m \<noteq> SKIPPED", OF from_one] by blast
  obtain n2 where n2: "snd ?st2 = snd ?st1 @ n2" "length n2 = length (cl_mismatched cl)" "list_all (\<lambda>m. mc_status m \<noteq> SKIPPED) n2"
    using fold_reports [of "merge_from mp am MISMATCHED" "\<lambda>m. mc_status m \<noteq> SKIPPED", OF from_one] by blast
  obtain n3 where n3: "snd (merge_steps mp am cl bad mt) = snd ?st2 @ n3" "list_all (\<lambda>m. mc_status m = SKIPPED) n3"
    using fold_reports [of "\<lambda>c. record_merge_result c MISMATCHED (Step_Skipped, [])" "\<lambda>m. mc_status m = SKIPPED", OF skip_one]
    unfolding merge_steps_def by blast
  show thesis by (rule that [of m0 "n1 @ n2 @ n3"]) (use m0 n1 n2 n3 in simp_all)
qed

lemma finish_merge_Some:
  assumes "finish_merge mp stage reference alerts st = Some r"
  obtains mt mt' where "finalize_merge mp (fst st) = Some mt" "postprocess stage mt = Some mt'"
    "to_merged_events mt' = Some (mr_events r)" "mr_clients r = snd st" "mr_counts r = get_merge_counts (snd st)"
    "mr_reference r = reference"
proof -
  from assms obtain mt where 1: "finalize_merge mp (fst st) = Some mt"
    by (cases "finalize_merge mp (fst st)") (simp_all add: finish_merge_def)
  with assms obtain mt' where 2: "postprocess stage mt = Some mt'"
    by (cases "postprocess stage mt") (simp_all add: finish_merge_def)
  with assms 1 obtain es where 3: "to_merged_events mt' = Some es"
    by (cases "to_merged_events mt'") (simp_all add: finish_merge_def)
  from assms 1 2 3 show thesis by (intro that [OF 1 2]) (auto simp: finish_merge_def)
qed

lemma merge_Some:
  assumes "merge mp am ch stage inputs = Some (Some r)"
  obtains cl demoted alerts mt where
    "classify_and_update (filter (\<lambda>c. \<not> has_anomaly BAD_DATA c) (sort_clients inputs)) = Some (cl, demoted, alerts)"
    "new_merged_timeline (cl_base cl)
       (merge_context_for ch stage (with_demoted demoted (sort_clients inputs)) (cl_base cl)) (cl_reference cl) = Some mt"
    "finish_merge mp stage (cl_reference cl) alerts
       (merge_steps mp am cl (filter (has_anomaly BAD_DATA) (sort_clients inputs)) mt) = Some r"
  using assms by (auto simp: merge_def Let_def Option.bind_eq_Some_conv split: if_splits)

lemma merge_reports_ids:
  assumes "merge mp am ch stage inputs = Some (Some r)" and "distinct (map ce_id inputs)"
  obtains cl :: classified_clients and ms us where
    "mset (map mc_id (mr_clients r)) = mset (map ce_id inputs)" "map mc_sequence (mr_clients r) = [0..<length inputs]"
    "mr_clients r = ms # us" "mc_status ms = MERGED" "mc_classification ms = REFERENCE"
    "map mc_id (mr_clients r) =
      map ce_id (cl_base cl # cl_matching cl @ cl_mismatched cl) @ map ce_id (filter (has_anomaly BAD_DATA) (sort_clients inputs))"
    "list_all (\<lambda>m. mc_status m \<noteq> SKIPPED) (take (length (cl_matching cl @ cl_mismatched cl)) us)"
    "list_all (\<lambda>m. mc_status m = SKIPPED) (drop (length (cl_matching cl @ cl_mismatched cl)) us)"
    "mset (map ce_id (cl_base cl # cl_matching cl @ cl_mismatched cl)) =
       mset (map ce_id (filter (\<lambda>c. \<not> has_anomaly BAD_DATA c) (sort_clients inputs)))"
proof -
  let ?cs = "sort_clients inputs"
  let ?good = "filter (\<lambda>c. \<not> has_anomaly BAD_DATA c) ?cs" and ?bad = "filter (has_anomaly BAD_DATA) ?cs"
  from assms(1) obtain cl demoted alerts mt where cl: "classify_and_update ?good = Some (cl, demoted, alerts)"
    and mt: "new_merged_timeline (cl_base cl) (merge_context_for ch stage (with_demoted demoted ?cs) (cl_base cl)) (cl_reference cl) = Some mt"
    and fin: "finish_merge mp stage (cl_reference cl) alerts (merge_steps mp am cl ?bad mt) = Some r"
    by (rule merge_Some)
  obtain mt1 where steps: "merge_steps mp am cl ?bad mt = (mt1, mr_clients r)"
    using finish_merge_Some [OF fin] by (metis prod.collapse)
  have perm: "mset ?cs = mset inputs" by (simp add: sort_clients_def)
  have cs: "distinct (map ce_id ?cs)"
    using assms(2) perm by (metis mset_eq_imp_distinct_iff mset_map)
  then have good: "distinct (map ce_id ?good)" by (rule distinct_map_filter)
  note ids = classify_and_update_Some(2) [OF cl good]
  have all: "mset (map ce_id (cl_base cl # cl_matching cl @ cl_mismatched cl) @ map ce_id ?bad) = mset (map ce_id inputs)"
  proof -
    have "mset ?good + mset ?bad = mset inputs"
      using multiset_partition [of "mset ?cs" "has_anomaly BAD_DATA"] by (simp only: mset_filter perm add.commute)
    from arg_cong [OF this, of "image_mset ce_id"] show ?thesis
      unfolding mset_append ids unfolding mset_map image_mset_union .
  qed
  have "distinct (map ce_id (cl_base cl # cl_matching cl @ cl_mismatched cl @ ?bad))"
    using assms(2) mset_eq_imp_distinct_iff [OF all] by simp
  note run = merge_steps_run [OF mt this, of mp am, unfolded steps fst_conv snd_conv]
  obtain ms us where u: "mr_clients r = ms # us" "mc_status ms = MERGED" "mc_classification ms = REFERENCE"
    "list_all (\<lambda>m. mc_status m \<noteq> SKIPPED) (take (length (cl_matching cl @ cl_mismatched cl)) us)"
    "list_all (\<lambda>m. mc_status m = SKIPPED) (drop (length (cl_matching cl @ cl_mismatched cl)) us)"
    using merge_steps_reports [of mp am cl ?bad mt] unfolding steps snd_conv by blast
  have mc: "map mc_id (mr_clients r) = map ce_id (cl_base cl # cl_matching cl @ cl_mismatched cl) @ map ce_id ?bad"
    using run(2) by simp
  have m: "mset (map mc_id (mr_clients r)) = mset (map ce_id inputs)" unfolding mc by (rule all)
  have seq: "map mc_sequence (mr_clients r) = [0..<length inputs]"
    using run_okD(7) [OF run(1)] arg_cong [OF m, of size] by simp
  show thesis by (rule that [OF m seq u(1-3) mc u(4,5) ids])
qed

text \<open>C21: a merge accounts for every client it was given: each is reported once, numbered in the order of the merge, the
  base client first and merged. Exactly the clients with bad data are skipped, and the counts of the result add up to the
  number of clients.\<close>

theorem merge_accounts_for_clients:
  assumes "merge mp am ch stage inputs = Some (Some r)" and "distinct (map ce_id inputs)"
  shows "mset (map mc_id (mr_clients r)) = mset (map ce_id inputs) \<and>
    map mc_sequence (mr_clients r) = [0..<length inputs] \<and>
    mc_classification (hd (mr_clients r)) = REFERENCE \<and> mc_status (hd (mr_clients r)) = MERGED \<and>
    (\<forall>c \<in> set inputs. \<forall>m \<in> set (mr_clients r). mc_id m = ce_id c \<longrightarrow> (mc_status m = SKIPPED \<longleftrightarrow> has_anomaly BAD_DATA c)) \<and>
    (case mr_counts r of (m, u, s) \<Rightarrow> 0 < m \<and> m + u + s = length inputs)"
proof (rule merge_reports_ids [OF assms])
  fix cl :: classified_clients and ms us
  let ?P = "has_anomaly BAD_DATA" and ?cs = "sort_clients inputs" and ?k = "length (cl_matching cl @ cl_mismatched cl)"
  assume m: "mset (map mc_id (mr_clients r)) = mset (map ce_id inputs)" and seq: "map mc_sequence (mr_clients r) = [0..<length inputs]"
    and u: "mr_clients r = ms # us" "mc_status ms = MERGED" "mc_classification ms = REFERENCE"
    and mc: "map mc_id (mr_clients r) = map ce_id (cl_base cl # cl_matching cl @ cl_mismatched cl) @ map ce_id (filter ?P ?cs)"
    and merged: "list_all (\<lambda>m. mc_status m \<noteq> SKIPPED) (take ?k us)" and skipped: "list_all (\<lambda>m. mc_status m = SKIPPED) (drop ?k us)"
    and good: "mset (map ce_id (cl_base cl # cl_matching cl @ cl_mismatched cl)) = mset (map ce_id (filter (\<lambda>c. \<not> ?P c) ?cs))"
  have us: "map mc_id us = map ce_id (cl_matching cl @ cl_mismatched cl) @ map ce_id (filter ?P ?cs)" "mc_id ms = ce_id (cl_base cl)"
    using mc by (simp_all add: u)
  have tk: "map mc_id (take ?k us) = map ce_id (cl_matching cl @ cl_mismatched cl)" "map mc_id (drop ?k us) = map ce_id (filter ?P ?cs)"
    by (simp_all only: take_map [symmetric] drop_map [symmetric] us) simp_all
  have split: "set us = set (take ?k us) \<union> set (drop ?k us)" by (metis append_take_drop_id set_append)
  have same: "c = d" if "c \<in> set inputs" "d \<in> set inputs" "ce_id c = ce_id d" for c d
    using assms(2) that by (auto simp: distinct_map dest: inj_onD)
  have set_cs: "set ?cs = set inputs" by (simp add: sort_clients_def)
  have good_ids: "ce_id ` set (cl_base cl # cl_matching cl @ cl_mismatched cl) = ce_id ` {c \<in> set inputs. \<not> ?P c}"
    using arg_cong [OF good, of set_mset] set_cs by (simp add: image_Un)
  have "mc_status m = SKIPPED \<longleftrightarrow> ?P c" if c: "c \<in> set inputs" and mr: "m \<in> set (mr_clients r)" and id: "mc_id m = ce_id c" for c m
  proof (cases "m \<in> set (drop ?k us)")
    case True
    then have "mc_id m \<in> ce_id ` {c \<in> set inputs. ?P c}"
      using arg_cong [OF tk(2), of set] set_cs by auto
    with id same [OF c] have "?P c" by auto
    with True skipped show ?thesis by (simp add: list_all_iff)
  next
    case False
    with mr u split have m: "m = ms \<or> m \<in> set (take ?k us)" by auto
    then have "mc_id m \<in> ce_id ` set (cl_base cl # cl_matching cl @ cl_mismatched cl)"
      using us(2) arg_cong [OF tk(1), of set] by auto
    with good_ids id same [OF c] have "\<not> ?P c" by auto
    with m u(2) merged show ?thesis by (auto simp: list_all_iff)
  qed
  moreover have "mr_counts r = get_merge_counts (mr_clients r)"
    using merge_Some [OF assms(1)] finish_merge_Some by (metis (no_types, lifting))
  moreover have "length (mr_clients r) = length inputs" using arg_cong [OF seq, of length] by simp
  ultimately show ?thesis
    using m seq u counts_sum [of "mr_clients r"] by (auto simp: merge_counts)
qed

lemma reported_merged:
  "distinct (map mc_id mcs) \<Longrightarrow> reported_status mcs i = MERGED \<longleftrightarrow> i \<in> mc_id ` {m \<in> set mcs. mc_status m = MERGED}"
  by (induction mcs) (auto simp: reported_status_def split: option.split)

text \<open>C20: after its steps a merge knows the merged clients in three places that agree: the chain of its mappings, the registered
  statuses from which the trusted prefixes are computed, and the reports. Every mapping of the chain starts from the timeline
  the one before it made, the last ends in the merged timeline, and if any client was merged that timeline passes the
  consistency check.\<close>

theorem merge_chain_lists_merged:
  assumes "new_merged_timeline (cl_base cl) (merge_context_for ch stage cs (cl_base cl)) (cl_reference cl) = Some mt"
    and "distinct (map ce_id (cl_base cl # cl_matching cl @ cl_mismatched cl @ bad))"
    and "merge_steps mp am cl bad mt = (mt', mcs)"
  shows "map fst (mm_chain (cx_mapping (mt_cx mt'))) = tl (map mc_id (filter (\<lambda>m. mc_status m = MERGED) mcs)) \<and>
    (\<forall>(i, r) \<in> set (cx_clients (mt_cx mt')). rc_status r = MERGED \<longleftrightarrow>
       i \<in> mc_id ` {m \<in> set mcs. mc_status m = MERGED}) \<and>
    linked (length (mt_ticks mt)) (mm_chain (cx_mapping (mt_cx mt'))) (length (mt_ticks mt')) \<and>
    merge_mapping_ok (cx_mapping (mt_cx mt')) \<and>
    (mm_chain (cx_mapping (mt_cx mt')) \<noteq> [] \<longrightarrow> check_merge (mp_cooldown mp) stage (mt_ticks mt') = Some [])"
proof -
  have run: "run_ok mp stage (length (mt_ticks mt)) (mt', mcs)"
    and mc: "map mc_id mcs = map ce_id (cl_base cl # cl_matching cl @ cl_mismatched cl @ bad)"
    using merge_steps_run [OF assms(1,2), of mp am] assms(3) by simp_all
  note inv = run_okD [OF run]
  have "distinct (map mc_id mcs)" using assms(2) by (simp add: mc)
  note reported_merged [OF this]
  then have "\<forall>(i, r) \<in> set (cx_clients (mt_cx mt')). rc_status r = MERGED \<longleftrightarrow> i \<in> mc_id ` {m \<in> set mcs. mc_status m = MERGED}"
    using inv(9) by auto
  moreover have "map fst (mm_chain (cx_mapping (mt_cx mt'))) = tl (map mc_id (filter (\<lambda>m. mc_status m = MERGED) mcs))"
    using arg_cong [OF inv(3), of tl] by (simp add: merged_ids_def)
  ultimately show ?thesis using inv(4-6) by blast
qed

text \<open>A merge gives no result, without an error, exactly when no client is left to merge: none was given or all have
  bad data.\<close>

theorem merge_without_result_iff:
  "merge mp am ch stage inputs = Some None \<longleftrightarrow> list_all (has_anomaly BAD_DATA) inputs"
proof -
  have "filter (\<lambda>c. \<not> has_anomaly BAD_DATA c) (sort_clients inputs) = [] \<longleftrightarrow> list_all (has_anomaly BAD_DATA) inputs"
    by (simp add: filter_empty_conv sort_clients_def list_all_iff)
  then show ?thesis by (simp add: merge_def Let_def Option.bind_eq_Some_conv split_beta)
qed

subsection \<open>The end alignment\<close>

lemma push_event_mset:
  "mset (concat (map snd (push_event t m))) = add_mset t (mset (concat (map snd m)))"
proof -
  have upd: "map_of m k = Some es \<Longrightarrow>
      mset (concat (map snd (AList.update k (es @ [t]) m))) = add_mset t (mset (concat (map snd m)))" for k es
    by (induction m) (auto split: if_splits)
  have new: "map_of m k = None \<Longrightarrow> mset (concat (map snd (AList.update k [t] m))) = add_mset t (mset (concat (map snd m)))" for k
    by (induction m) (auto split: if_splits)
  show ?thesis
    by (cases "map_of m (ev_type (fst t))") (simp_all add: push_event_def upd new)
qed

lemma push_events_mset: "mset (concat (map snd (fold push_event es m))) = mset (concat (map snd m)) + mset es"
  by (induction es arbitrary: m) (simp_all add: push_event_mset)

lemma new_tick_state_mset:
  "mset (get_tagged_events (new_tick_state t es ps ns g)) = mset (filter (\<lambda>e. ev_type (fst e) \<notin> tick_state_types) es)"
  by (simp add: new_tick_state_def get_tagged_events_def push_events_mset)

lemma remap_event_tick_Some:
  assumes "remap_event_tick f t = Some t'"
  shows "ev_type (fst t) \<notin> tick_state_types" "ev_type (fst t') = ev_type (fst t)" "ev_tick (fst t') = f (ev_tick (fst t))"
    "snd t' = snd t"
proof -
  from assms obtain e where e: "remap_reference f (f (ev_tick (fst t))) ((fst t)\<lparr>ev_tick := f (ev_tick (fst t))\<rparr>) = Some e"
    and t': "t' = (e, snd t)" and ty: "ev_type (fst t) \<notin> tick_state_types"
    by (auto simp: remap_event_tick_def Let_def split: if_splits)
  have "ev_type e = ev_type (fst t) \<and> ev_tick e = f (ev_tick (fst t))"
    using e by (cases "ev_type (fst t)") (auto simp: remap_reference_def)
  with t' ty show "ev_type (fst t) \<notin> tick_state_types" "ev_type (fst t') = ev_type (fst t)" "ev_tick (fst t') = f (ev_tick (fst t))"
    "snd t' = snd t" by simp_all
qed

text \<open>A tick and what became of it when it was moved by some ticks.\<close>

definition shifted_by :: "nat \<Rightarrow> nat \<Rightarrow> tick_state \<Rightarrow> tick_state \<Rightarrow> bool" where
  "shifted_by offset i ts ts' \<longleftrightarrow>
     ts_tick ts' = int (i + offset) \<and> actors_of ts' = actors_of ts \<and>
     mset (map (\<lambda>t. (ev_type (fst t), ev_tick (fst t), snd t)) (get_tagged_events ts')) =
       mset (map (\<lambda>t. (ev_type (fst t), ev_tick (fst t) + int offset, snd t)) (get_tagged_events ts))"

lemma remap_all_Some:
  "map (remap_event_tick f) ts = map Some es \<Longrightarrow>
     map (\<lambda>t. (ev_type (fst t), ev_tick (fst t), snd t)) es = map (\<lambda>t. (ev_type (fst t), f (ev_tick (fst t)), snd t)) ts \<and>
     list_all (\<lambda>t. ev_type (fst t) \<notin> tick_state_types) es"
proof (induction ts arbitrary: es)
  case (Cons t ts)
  then obtain e es' where es: "es = e # es'" "remap_event_tick f t = Some e" "map (remap_event_tick f) ts = map Some es'"
    by (auto simp: Cons_eq_map_conv)
  with Cons.IH [OF es(3)] remap_event_tick_Some [OF es(2)] show ?case by simp
qed simp

lemma shift_tick_Some:
  assumes "shift_tick offset i ts = Some ts'"
  shows "shifted_by offset i ts ts'"
proof -
  from assms obtain es where es: "map (remap_event_tick (\<lambda>t. t + int offset)) (get_tagged_events ts) = map Some es"
    and ts': "ts' = new_tick_state (int (i + offset)) es (ts_players ts) (ts_npcs ts) (ts_graphics ts)"
    by (auto simp: shift_tick_def all_some_iff)
  note all = remap_all_Some [OF es]
  then have "filter (\<lambda>e. ev_type (fst e) \<notin> tick_state_types) es = es" by (simp add: filter_id_conv list_all_iff)
  then have "mset (get_tagged_events ts') = mset es" by (simp add: ts' new_tick_state_mset)
  from arg_cong [OF this, of "image_mset (\<lambda>t. (ev_type (fst t), ev_tick (fst t), snd t))"]
  have "mset (map (\<lambda>t. (ev_type (fst t), ev_tick (fst t), snd t)) (get_tagged_events ts')) =
      mset (map (\<lambda>t. (ev_type (fst t), ev_tick (fst t) + int offset, snd t)) (get_tagged_events ts))"
    unfolding mset_map [symmetric] all [THEN conjunct1] .
  moreover have "ts_tick ts' = int (i + offset) \<and> actors_of ts' = actors_of ts" by (simp add: ts' new_tick_state_def actors_of_def)
  ultimately show ?thesis by (simp add: shifted_by_def)
qed

lemma shift_ticks_Some:
  "shift_ticks offset i ticks = Some ticks' \<Longrightarrow> length ticks' = length ticks \<and>
     (\<forall>k < length ticks. rel_option (shifted_by offset (i + k)) (ticks ! k) (ticks' ! k))"
proof (induction ticks arbitrary: i ticks')
  case (Cons x ticks)
  from Cons.prems obtain x' rest where r: "ticks' = x' # rest" "shift_ticks offset (Suc i) ticks = Some rest"
    "rel_option (shifted_by offset i) x x'"
    by (cases x) (auto split: option.splits dest: shift_tick_Some)
  from Cons.IH [OF r(2)] r(3) show ?case unfolding r(1) by (simp add: nth_Cons split: nat.split)
qed simp

text \<open>The end alignment moves the timeline so that its last tick is the reference tick count. The ticks in front are
  empty, and every tick is moved with its players, NPCs and graphics and with all its events, each event by as many ticks
  as the timeline.\<close>

theorem end_alignment_moves_timeline:
  assumes "end_align_to_reference mt = Some mt'" and "rs_method (mt_reference mt) \<noteq> RECORDED_TICKS"
    and "int (length (mt_ticks mt)) \<le> rs_count (mt_reference mt)"
  shows "int (length (mt_ticks mt')) = rs_count (mt_reference mt) + 1 \<and>
    length (mt_ticks mt') = mt_offset mt' + length (mt_ticks mt) \<and> (\<forall>k < mt_offset mt'. mt_ticks mt' ! k = None) \<and>
    (\<forall>k < length (mt_ticks mt). rel_option (shifted_by (mt_offset mt') k) (mt_ticks mt ! k) (mt_ticks mt' ! (mt_offset mt' + k)))"
proof -
  let ?off = "nat (rs_count (mt_reference mt) - (int (length (mt_ticks mt)) - 1))"
  from assms obtain ticks where ticks: "shift_ticks ?off 0 (mt_ticks mt) = Some ticks"
    and mt': "mt' = mt\<lparr>mt_ticks := replicate ?off None @ ticks, mt_offset := ?off\<rparr>"
    by (auto simp: end_align_to_reference_def Let_def)
  from shift_ticks_Some [OF ticks] assms(3) show ?thesis by (simp add: mt' nth_append)
qed

subsection \<open>Maiden's spawn after the merge\<close>

definition of_type :: "event_type \<Rightarrow> tick_state option \<Rightarrow> event list" where
  "of_type ty = case_option [] (get_events_by_type ty)"

definition timeline_of_type :: "event_type \<Rightarrow> tick_state option list \<Rightarrow> event multiset" where
  "timeline_of_type ty ticks = mset (concat (map (of_type ty) ticks))"

lemma of_type_simps [simp]: "of_type ty None = []" "of_type ty (Some ts) = get_events_by_type ty ts"
  by (simp_all add: of_type_def)

lemma timeline_of_type_Cons [simp]:
  "timeline_of_type ty (x # xs) = mset (of_type ty x) + timeline_of_type ty xs"
  by (simp add: timeline_of_type_def)

lemma maiden_spawn_in_Some:
  "maiden_spawn_in k0 es = Some (Some (k, e, n)) \<Longrightarrow>
     k0 \<le> k \<and> k < k0 + length es \<and> es ! (k - k0) = e \<and> ev_npc e = Some n \<and> is_maiden (nm_id n)"
  by (induction k0 es rule: maiden_spawn_in.induct) (force simp: nth_Cons' split: option.splits if_splits)+

lemma first_maiden_event_Some:
  "first_maiden_event i ticks = Some (Some (j, k, e, n)) \<Longrightarrow>
     i \<le> j \<and> j < i + length ticks \<and> (\<exists>ts. ticks ! (j - i) = Some ts \<and>
       maiden_spawn_in 0 (get_events_by_type NPC_SPAWN ts) = Some (Some (k, e, n)))"
  by (induction i ticks rule: first_maiden_event.induct) (force simp: nth_Cons' split: option.splits)+

lemma three_ticks:
  assumes "2 < length xs"
  obtains a b c rest where "xs = a # b # c # rest"
  using assms that by (cases xs; cases "tl xs"; cases "tl (tl xs)") auto

lemma mset_remove_nth:
  assumes "k < length xs"
  shows "mset (take k xs @ drop (Suc k) xs) = mset xs - {#xs ! k#}"
proof -
  from arg_cong [OF id_take_nth_drop [OF assms], of mset]
  have "mset xs = add_mset (xs ! k) (mset (take k xs @ drop (Suc k) xs))" by simp
  then show ?thesis by simp
qed

text \<open>C23: Maiden's first spawn, when recorded at tick 2 with full hitpoints, is taken from there, and an update of Maiden is put in its
  place and into tick 1. The spawn comes back at tick 0 only if the merged timeline has a tick 0: when the end
  alignment has left that tick empty, the merged events lose the spawn.\<close>

theorem maiden_spawn_moved:
  assumes "first_maiden_event 0 ticks = Some (Some (2, k, e, n))" and "ev_type e = NPC_SPAWN" and "ev_tick e = 2"
    and "sk_current (skill_from_raw (nm_hitpoints n)) = sk_base (skill_from_raw (nm_hitpoints n))"
  shows "\<exists>ticks'. correct_offset_maiden_spawn ticks = Some ticks' \<and> length ticks' = length ticks \<and>
    timeline_of_type NPC_SPAWN ticks' =
      (timeline_of_type NPC_SPAWN ticks - {#e#}) + (if ticks ! 0 = None then {#} else {#e\<lparr>ev_tick := 0\<rparr>#}) \<and>
    timeline_of_type NPC_UPDATE ticks' =
      timeline_of_type NPC_UPDATE ticks + {#e\<lparr>ev_type := NPC_UPDATE\<rparr>#} +
      (if ticks ! 1 = None then {#} else {#e\<lparr>ev_type := NPC_UPDATE, ev_tick := 1\<rparr>#})"
proof -
  from first_maiden_event_Some [OF assms(1)] obtain ts where len: "2 < length ticks" and ts: "ticks ! 2 = Some ts"
    and spawn: "maiden_spawn_in 0 (get_events_by_type NPC_SPAWN ts) = Some (Some (k, e, n))" by auto
  from len obtain t0 t1 t2 rest where ticks: "ticks = t0 # t1 # t2 # rest" by (rule three_ticks)
  with ts have t2: "t2 = Some ts" by (simp add: numeral_2_eq_2)
  from maiden_spawn_in_Some [OF spawn] have k: "k < length (get_events_by_type NPC_SPAWN ts)" "get_events_by_type NPC_SPAWN ts ! k = e"
    by auto
  then have k': "k < length (get_tagged_by_type NPC_SPAWN ts)" by (simp add: get_events_by_type_def)
  let ?ts = "snd (remove_event NPC_SPAWN k ts)"
  have spawns: "mset (get_events_by_type NPC_SPAWN ?ts) = mset (get_events_by_type NPC_SPAWN ts) - {#e#}"
    using mset_remove_nth [OF k(1)] k(2)
    by (simp add: get_events_by_type_def get_tagged_by_type_remove_event [OF k'] take_map drop_map flip: map_append)
  have updates: "get_events_by_type NPC_UPDATE ?ts = get_events_by_type NPC_UPDATE ts"
    by (simp add: get_events_by_type_def get_tagged_by_type_remove_event [OF k'])
  have "e \<in># mset (get_events_by_type NPC_SPAWN ts)" using k by auto
  then obtain M where M: "mset (get_events_by_type NPC_SPAWN ts) = add_mset e M" by (rule mset_add)
  have "correct_offset_maiden_spawn ticks = Some (move_maiden_spawn k e ticks)"
    using assms by (simp add: correct_offset_maiden_spawn_def)
  moreover have "move_maiden_spawn k e ticks =
      map_option (add_synthetic_events [e\<lparr>ev_tick := 0\<rparr>]) t0 #
      map_option (add_synthetic_events [e\<lparr>ev_type := NPC_UPDATE, ev_tick := 1\<rparr>]) t1 #
      Some (add_synthetic_events [e\<lparr>ev_type := NPC_UPDATE\<rparr>] ?ts) # rest"
    by (simp add: move_maiden_spawn_def add_at_def ticks t2 numeral_2_eq_2 Let_def)
  ultimately show ?thesis
    using spawns updates assms(2) M
    by (cases t0; cases t1) (simp_all add: ticks t2)
qed

subsection \<open>How far the merged events can be trusted\<close>

lemma resynchronize_length: "resynchronize_ticks pr stage ticks = Some ticks' \<Longrightarrow> length ticks' = length ticks"
proof -
  have "resync_from pr stage ctx ticks = Some ticks' \<Longrightarrow> length ticks' = length ticks" for ctx
  proof (induction pr stage ctx ticks arbitrary: ticks' rule: resync_from.induct)
    case (2 pr stage ctx ticks)
    then show ?case by auto
  next
    case (3 pr stage ctx t ticks)
    then show ?case by (auto simp: Let_def split: if_splits)
  qed simp
  then show "resynchronize_ticks pr stage ticks = Some ticks' \<Longrightarrow> length ticks' = length ticks"
    unfolding resynchronize_ticks_def .
qed

lemma nylo_loop_length: "nylo_loop mode w cap nst t ticks = Some ticks' \<Longrightarrow> length ticks' = length ticks"
proof (induction ticks arbitrary: w cap nst t ticks')
  case (Cons x rest)
  from Cons.prems show ?case by (auto split: option.splits prod.splits dest: Cons.IH)
qed simp

lemma derive_verzik_length [simp]: "length (derive_verzik ticks) = length ticks"
  by (induction ticks rule: derive_verzik.induct) simp_all

lemma derive_events_length: "derive_events stage mode ticks = Some ticks' \<Longrightarrow> length ticks' = length ticks"
  by (auto simp: derive_events_def derive_nylocas_def split: if_splits dest: nylo_loop_length)

lemma merge_stage_data_length [simp]: "length (merge_stage_data cx ticks) = length ticks"
proof -
  have "length (place_maze_path ends mz ticks) = length ticks" for ends mz ticks
    by (simp add: place_maze_path_def split: option.split)
  then have "length (fold (place_maze_path ends) mzs ticks) = length ticks" for ends mzs
    by (induction mzs arbitrary: ticks) simp_all
  then show ?thesis by (simp add: merge_stage_data_def merge_sote_pivots_def Let_def)
qed

lemma correct_offset_length: "correct_offset_maiden_spawn ticks = Some ticks' \<Longrightarrow> length ticks' = length ticks"
  by (auto simp: correct_offset_maiden_spawn_def move_maiden_spawn_def add_at_def Let_def split: option.splits if_splits)

lemma prefixes_bounds:
  "0 \<le> tp_queryable (compute_trusted_prefixes cx opts) \<and>
   tp_queryable (compute_trusted_prefixes cx opts) \<le> tp_accurate (compute_trusted_prefixes cx opts) \<and>
   tp_accurate (compute_trusted_prefixes cx opts) \<le> int (po_total opts)"
proof -
  have first: "-1 \<le> first_tick P [0..<n] \<and> first_tick P [0..<n] \<le> int n" for P and n :: nat
  proof (cases "find P [0..<n]")
    case (Some m)
    then have "m < n" by (auto simp: find_Some_iff)
    with Some show ?thesis by (simp add: first_tick_def)
  qed (simp add: first_tick_def)
  let ?s = "\<lambda>m. if m \<ge> po_offset opts
    then support_at_tick (m - po_offset opts) (collect_contributors cx) (cx_mapping cx) (cx_contested cx) else no_support"
  obtain a q where loop: "prefix_loop opts ?s [0..<po_total opts] (if po_inherited opts then int (po_total opts) else -1, -1) = (a, q)"
    by fastforce
  have "prefix_loop opts ?s [0..<po_total opts] (if po_inherited opts then int (po_total opts) else -1, -1) =
      (if po_inherited opts then int (po_total opts) else first_tick (\<lambda>m. lacks_contributors opts (?s m)) [0..<po_total opts],
       first_tick (\<lambda>m. \<not> po_inherited opts \<and> lacks_contributors opts (?s m) \<or> has_data_issues (?s m)) [0..<po_total opts])"
    by (subst prefix_loop_first) auto
  then have "a = (if po_inherited opts then int (po_total opts) else first_tick (\<lambda>m. lacks_contributors opts (?s m)) [0..<po_total opts])"
    "q = first_tick (\<lambda>m. \<not> po_inherited opts \<and> lacks_contributors opts (?s m) \<or> has_data_issues (?s m)) [0..<po_total opts]"
    unfolding loop by simp_all
  then have "-1 \<le> a" "a \<le> int (po_total opts)" "-1 \<le> q"
    using first [of "\<lambda>m. lacks_contributors opts (?s m)" "po_total opts"]
      first [of "\<lambda>m. \<not> po_inherited opts \<and> lacks_contributors opts (?s m) \<or> has_data_issues (?s m)" "po_total opts"]
    by (simp_all only: split: if_split) auto
  then show ?thesis by (simp add: compute_trusted_prefixes_def Let_def loop)
qed

lemma end_align_length:
  assumes "end_align_to_reference mt = Some mt'"
  shows "length (mt_ticks mt) \<le> length (mt_ticks mt')" "mt_reference mt' = mt_reference mt" "mt_prefixes mt' = mt_prefixes mt"
    "rs_method (mt_reference mt) \<noteq> RECORDED_TICKS \<Longrightarrow> rs_count (mt_reference mt) < int (length (mt_ticks mt'))"
  using assms by (auto simp: end_align_to_reference_def Let_def split: if_splits dest: shift_ticks_Some)

lemma finalize_merge_Some:
  assumes "finalize_merge mp mt = Some mt2" and "\<not> mt_finalized mt"
  obtains mt1 resynced derived where "end_align_to_reference mt = Some mt1"
    "resynchronize_ticks (mp_resync mp) (cx_stage (mt_cx mt1)) (mt_ticks mt1) = Some resynced"
    "derive_events (cx_stage (mt_cx mt1)) (ci_mode (cx_challenge (mt_cx mt1))) resynced = Some derived"
    "mt2 = mt1\<lparr>mt_ticks := merge_stage_data (mt_cx mt1) derived, mt_finalized := True,
       mt_prefixes := Some (compute_trusted_prefixes (mt_cx mt1)
         \<lparr>po_total = length (merge_stage_data (mt_cx mt1) derived), po_offset = mt_offset mt1, po_inherited = mt_inherited mt1,
          po_method = rs_method (mt_reference mt1)\<rparr>)\<rparr>"
  using assms by (auto simp: finalize_merge_def Option.bind_eq_Some_conv)

lemma to_merged_events_Some:
  assumes "to_merged_events mt = Some me"
  shows "me_last_tick me = int (length (mt_ticks mt)) - 1"
    "me_accurate_until me = (case mt_prefixes mt of None \<Rightarrow> 0 | Some p \<Rightarrow> tp_accurate p)"
    "me_queryable_until me = (case mt_prefixes mt of None \<Rightarrow> 0 | Some p \<Rightarrow> tp_queryable p)"
    "me_events me = concat (map (case_option [] get_events) (mt_ticks mt))"
  using assms by (auto simp: to_merged_events_def split: if_splits)

text \<open>What the steps leave alone.\<close>

lemma merge_steps_keep:
  "mt_finalized (fst (merge_steps mp am cl bad mt)) = mt_finalized mt \<and>
   mt_reference (fst (merge_steps mp am cl bad mt)) = mt_reference mt"
proof -
  have rec_one: "mt_finalized (fst (record_merge_result c cls out st)) = mt_finalized (fst st) \<and>
      mt_reference (fst (record_merge_result c cls out st)) = mt_reference (fst st)" for c cls out st
    by (simp add: record_merge_result_def Let_def)
  have attempt: "mt_finalized (snd (attempt_step mp c al m mt)) = mt_finalized mt \<and>
      mt_reference (snd (attempt_step mp c al m mt)) = mt_reference mt" for c al m mt
    by (simp add: attempt_step_def Let_def split: option.split)
  have "mt_finalized (snd (merge_events_from mp am c mt)) = mt_finalized mt \<and>
      mt_reference (snd (merge_events_from mp am c mt)) = mt_reference mt" for c mt
    by (simp add: merge_events_from_def attempt split: option.split)
  then have from_one: "mt_finalized (fst (merge_from mp am cls c st)) = mt_finalized (fst st) \<and>
      mt_reference (fst (merge_from mp am cls c st)) = mt_reference (fst st)" for cls c st
    by (simp add: merge_from_def rec_one split_beta)
  have fold_keeps: "mt_finalized (fst (fold f cs st)) = mt_finalized (fst st) \<and> mt_reference (fst (fold f cs st)) = mt_reference (fst st)"
    if "\<And>c st. mt_finalized (fst (f c st)) = mt_finalized (fst st) \<and> mt_reference (fst (f c st)) = mt_reference (fst st)"
    for f and cs :: "client_events list" and st :: "merged_timeline \<times> merge_client list"
    using that by (induction cs arbitrary: st) simp_all
  show ?thesis by (simp add: merge_steps_def fold_keeps rec_one from_one)
qed

text \<open>C22: the merged events of a merge end no earlier than the reference tick count, unless that count is only what a client
  recorded. They can be queried at most as far as they are accurate, and are accurate at most up to their end.\<close>

theorem merged_events_bounds:
  assumes "merge mp am ch stage inputs = Some (Some r)"
  shows "(rs_method (mr_reference r) \<noteq> RECORDED_TICKS \<longrightarrow> rs_count (mr_reference r) \<le> me_last_tick (mr_events r)) \<and>
    0 \<le> me_queryable_until (mr_events r) \<and> me_queryable_until (mr_events r) \<le> me_accurate_until (mr_events r) \<and>
    me_accurate_until (mr_events r) \<le> me_last_tick (mr_events r) + 1 \<and>
    (fully_queryable (mr_events r) \<longrightarrow> fully_accurate (mr_events r))"
proof (rule merge_Some [OF assms])
  fix cl demoted alerts mt
  let ?bad = "filter (has_anomaly BAD_DATA) (sort_clients inputs)"
  assume mt: "new_merged_timeline (cl_base cl) (merge_context_for ch stage (with_demoted demoted (sort_clients inputs)) (cl_base cl))
      (cl_reference cl) = Some mt"
    and fin: "finish_merge mp stage (cl_reference cl) alerts (merge_steps mp am cl ?bad mt) = Some r"
  from mt have new: "\<not> mt_finalized mt" "mt_reference mt = cl_reference cl" by (auto simp: new_merged_timeline_def)
  show ?thesis
  proof (rule finish_merge_Some [OF fin])
    fix mt2 mt3
    assume 2: "finalize_merge mp (fst (merge_steps mp am cl ?bad mt)) = Some mt2" and 3: "postprocess stage mt2 = Some mt3"
      and events: "to_merged_events mt3 = Some (mr_events r)" and reference: "mr_reference r = cl_reference cl"
    have "\<not> mt_finalized (fst (merge_steps mp am cl ?bad mt))" using merge_steps_keep new(1) by simp
    from 2 this show ?thesis
    proof (rule finalize_merge_Some)
      fix mt1 :: merged_timeline and resynced derived
      let ?ticks = "merge_stage_data (mt_cx mt1) derived"
      assume end_align: "end_align_to_reference (fst (merge_steps mp am cl ?bad mt)) = Some mt1"
        and resynced: "resynchronize_ticks (mp_resync mp) (cx_stage (mt_cx mt1)) (mt_ticks mt1) = Some resynced"
        and derived: "derive_events (cx_stage (mt_cx mt1)) (ci_mode (cx_challenge (mt_cx mt1))) resynced = Some derived"
        and mt2: "mt2 = mt1\<lparr>mt_ticks := ?ticks, mt_finalized := True,
          mt_prefixes := Some (compute_trusted_prefixes (mt_cx mt1)
            \<lparr>po_total = length ?ticks, po_offset = mt_offset mt1, po_inherited = mt_inherited mt1,
             po_method = rs_method (mt_reference mt1)\<rparr>)\<rparr>"
      have len: "length derived = length (mt_ticks mt1)"
        using resynchronize_length [OF resynced] derive_events_length [OF derived] by simp
      have last: "length (mt_ticks mt3) = length ?ticks" and prefixes: "mt_prefixes mt3 = mt_prefixes mt2"
        using 3 by (auto simp: postprocess_def mt2 split: if_splits dest: correct_offset_length)
      have ref: "mt_reference (fst (merge_steps mp am cl ?bad mt)) = mr_reference r"
        using merge_steps_keep new(2) reference by simp
      note bounds = prefixes_bounds [of "mt_cx mt1" "\<lparr>po_total = length ?ticks, po_offset = mt_offset mt1,
          po_inherited = mt_inherited mt1, po_method = rs_method (mt_reference mt1)\<rparr>"]
      have "me_last_tick (mr_events r) = int (length ?ticks) - 1"
        "me_accurate_until (mr_events r) = tp_accurate (the (mt_prefixes mt2))"
        "me_queryable_until (mr_events r) = tp_queryable (the (mt_prefixes mt2))"
        by (simp_all add: to_merged_events_Some [OF events] last prefixes mt2)
      with bounds end_align_length(4) [OF end_align] show ?thesis
        by (auto simp: mt2 len ref fully_queryable_def fully_accurate_def)
    qed
  qed
qed

subsection \<open>Witnesses\<close>

definition sample_merge_params :: merge_params where
  "sample_merge_params = \<lparr>mp_slots = [0, 3], mp_exp = (\<lambda>x. if x < 0 then 1 / 2 else 1), mp_log = (\<lambda>x. x - 1),
     mp_consolidate = sample_consolidate_params, mp_cooldown = (\<lambda>_. None), mp_resync = sample_params\<rparr>"

definition sample_input :: "int \<Rightarrow> bool \<Rightarrow> nat \<Rightarrow> client_anomaly list \<Rightarrow> client_events" where
  "sample_input i acc n anomalies =
     (sample_recorder i acc n)
       \<lparr>ce_info := sample_info\<lparr>si_recorded := int n\<rparr>, ce_anomalies := anomalies,
        ce_ticks := map (\<lambda>k. new_tick_state (int k) (if k = 1 then [(blank_event TOB_BLOAT_DOWN TOB_BLOAT 1 0 0, i)] else [])
          [(''p'', Some (sample_state PRIMARY))] [] []) [0..<Suc n]\<rparr>"

definition sample_inputs :: "client_events list" where
  "sample_inputs = [sample_input 3 True 2 [], sample_input 5 False 1 [], sample_input 6 True 9 [BAD_DATA]]"

definition sample_merge :: "merge_report option option" where
  "sample_merge = merge sample_merge_params False sample_challenge TOB_BLOAT sample_inputs"

definition brief :: "merge_report \<Rightarrow> (int \<times> merge_client_status) list \<times> int \<times> int \<times> int" where
  "brief r = (map (\<lambda>m. (mc_id m, mc_status m)) (mr_clients r), me_last_tick (mr_events r), me_accurate_until (mr_events r),
     me_queryable_until (mr_events r))"

lemma sample_merge_value:
  "map_option (map_option brief) sample_merge =
     Some (Some ([(3, MERGED), (5, UNMERGED), (6, SKIPPED)], 2, 3, 3))"
  by code_simp


definition sample_timeline_start :: merged_timeline where
  "sample_timeline_start =
     \<lparr>mt_cx = merge_context_for sample_challenge TOB_BLOAT sample_inputs (sample_input 3 True 2 []),
      mt_ticks = map (\<lambda>k. Some (clone_tick (ce_ticks (sample_input 3 True 2 []) ! k))) [0..<3], mt_status = COMPLETED,
      mt_reference = \<lparr>rs_count = 4, rs_method = PRECISE_SERVER, rs_details = Server_Details [3] [4]\<rparr>, mt_precise = True,
      mt_inherited = True, mt_prefixes = None, mt_finalized = False, mt_offset = 0\<rparr>"

text \<open>The second accurate client is either merged into a consistent timeline, or nothing has changed.\<close>

theorem merge_step_atomic_witness:
  "\<exists>outcome mt'. merge_events_from sample_merge_params True (sample_input 4 True 2 []) sample_timeline_start = (outcome, mt') \<and>
     (mt' = sample_timeline_start \<or> check_merge (mp_cooldown sample_merge_params) TOB_BLOAT (mt_ticks mt') = Some [])"
proof -
  obtain outcome mt' where step: "merge_events_from sample_merge_params True (sample_input 4 True 2 []) sample_timeline_start = (outcome, mt')"
    by fastforce
  have "mm_in_flight (cx_mapping (mt_cx sample_timeline_start)) = None" "cx_stage (mt_cx sample_timeline_start) = TOB_BLOAT"
    by (simp_all add: sample_timeline_start_def merge_context_for_def new_merge_mapping_def)
  with merge_step_atomic [OF this(1) step] step show ?thesis by (auto split: option.splits step_result.splits prod.splits)
qed

theorem merge_accounts_for_clients_witness:
  "\<exists>r. sample_merge = Some (Some r) \<and> mset (map mc_id (mr_clients r)) = {#3, 5, 6#} \<and>
     (\<forall>m \<in> set (mr_clients r). mc_id m = 6 \<longrightarrow> mc_status m = SKIPPED)"
proof -
  obtain r where r: "merge sample_merge_params False sample_challenge TOB_BLOAT sample_inputs = Some (Some r)"
    using sample_merge_value by (auto simp: sample_merge_def)
  have ids: "map ce_id sample_inputs = [3, 5, 6]" "sample_input 6 True 9 [BAD_DATA] \<in> set sample_inputs"
    "ce_id (sample_input 6 True 9 [BAD_DATA]) = 6" "has_anomaly BAD_DATA (sample_input 6 True 9 [BAD_DATA])"
    by (simp_all add: sample_inputs_def sample_input_def sample_recorder_def has_anomaly_def)
  have "distinct (map ce_id sample_inputs)" by (simp add: ids)
  from merge_accounts_for_clients [OF r this] have "mset (map mc_id (mr_clients r)) = mset [3, 5, 6]"
    "\<forall>c \<in> set sample_inputs. \<forall>m \<in> set (mr_clients r). mc_id m = ce_id c \<longrightarrow> (mc_status m = SKIPPED \<longleftrightarrow> has_anomaly BAD_DATA c)"
    unfolding ids by blast+
  with r ids show ?thesis by (auto simp: sample_merge_def)
qed

theorem merge_chain_lists_merged_witness:
  "\<exists>mt mt' mcs cl. new_merged_timeline (sample_input 3 True 2 []) (merge_context_for sample_challenge TOB_BLOAT sample_inputs
       (sample_input 3 True 2 [])) (cl_reference cl) = Some mt \<and>
     merge_steps sample_merge_params True cl [] mt = (mt', mcs) \<and> length (mt_ticks mt) = 3 \<and>
     linked 3 (mm_chain (cx_mapping (mt_cx mt'))) (length (mt_ticks mt'))"
proof -
  let ?cl = "\<lparr>cl_base = sample_input 3 True 2 [], cl_matching = [sample_input 4 True 2 []], cl_mismatched = [sample_input 5 False 1 []],
    cl_reference = mt_reference sample_timeline_start\<rparr>"
  obtain mt where mt: "new_merged_timeline (cl_base ?cl) (merge_context_for sample_challenge TOB_BLOAT sample_inputs (cl_base ?cl))
      (cl_reference ?cl) = Some mt" "length (mt_ticks mt) = 3"
    by (simp add: new_merged_timeline_def initialize_base_ticks_def sample_input_def sample_info_def get_final_tick_def)
  obtain mt' mcs where steps: "merge_steps sample_merge_params True ?cl [] mt = (mt', mcs)" by fastforce
  have "distinct (map ce_id (cl_base ?cl # cl_matching ?cl @ cl_mismatched ?cl @ []))"
    by (simp add: sample_input_def sample_recorder_def)
  from merge_chain_lists_merged [OF mt(1) this steps] mt(2) have "linked 3 (mm_chain (cx_mapping (mt_cx mt'))) (length (mt_ticks mt'))"
    by simp
  with mt steps show ?thesis by (intro exI [of _ mt] exI [of _ mt'] exI [of _ mcs] exI [of _ ?cl]) simp
qed

theorem end_alignment_moves_timeline_witness:
  "\<exists>mt'. end_align_to_reference sample_timeline_start = Some mt' \<and> int (length (mt_ticks mt')) = 5 \<and>
     mt_ticks mt' ! 0 = None \<and> mt_offset mt' = 2"
proof -
  obtain mt' where mt': "end_align_to_reference sample_timeline_start = Some mt'"
  proof -
    have "map_option mt_offset (end_align_to_reference sample_timeline_start) = Some 2" by code_simp
    then show thesis using that by (cases "end_align_to_reference sample_timeline_start") auto
  qed
  have start: "rs_method (mt_reference sample_timeline_start) \<noteq> RECORDED_TICKS" "rs_count (mt_reference sample_timeline_start) = 4"
    "length (mt_ticks sample_timeline_start) = 3" by (simp_all add: sample_timeline_start_def)
  then have "int (length (mt_ticks sample_timeline_start)) \<le> rs_count (mt_reference sample_timeline_start)" by simp
  from end_alignment_moves_timeline [OF mt' start(1) this] start
  have "int (length (mt_ticks mt')) = 5" "length (mt_ticks mt') = mt_offset mt' + 3" "\<forall>k < mt_offset mt'. mt_ticks mt' ! k = None"
    by simp_all
  with mt' show ?thesis by auto
qed

theorem merged_events_bounds_witness:
  "\<exists>r. sample_merge = Some (Some r) \<and> me_queryable_until (mr_events r) \<le> me_accurate_until (mr_events r) \<and>
     me_accurate_until (mr_events r) \<le> me_last_tick (mr_events r) + 1"
proof -
  obtain r where r: "merge sample_merge_params False sample_challenge TOB_BLOAT sample_inputs = Some (Some r)"
    using sample_merge_value by (auto simp: sample_merge_def)
  from merged_events_bounds [OF r] r show ?thesis by (auto simp: sample_merge_def)
qed

definition sample_maiden_spawn :: event where
  "sample_maiden_spawn = (blank_event NPC_SPAWN TOB_MAIDEN 2 0 0)\<lparr>ev_npc := Some ((blank_npc 8360 1)\<lparr>nm_hitpoints := 3500 * 2 ^ 16 + 3500\<rparr>)\<rparr>"

definition sample_maiden_ticks :: "tick_state option list" where
  "sample_maiden_ticks = [None, None, Some (new_tick_state 2 [(sample_maiden_spawn, 7)] [] [] [])]"

text \<open>Two ticks in front, empty after the end alignment: Maiden's only spawn is gone.\<close>

theorem maiden_spawn_moved_witness:
  "\<exists>ticks'. correct_offset_maiden_spawn sample_maiden_ticks = Some ticks' \<and>
     timeline_of_type NPC_SPAWN sample_maiden_ticks = {#sample_maiden_spawn#} \<and> timeline_of_type NPC_SPAWN ticks' = {#}"
proof -
  have one: "get_events_by_type NPC_SPAWN (new_tick_state 2 [(sample_maiden_spawn, 7)] [] [] []) = [sample_maiden_spawn]"
    by (simp add: get_events_by_type_def get_tagged_by_type_def new_tick_state_def push_event_def sample_maiden_spawn_def
      blank_event_def tick_state_types_def type_classes)
  have npc: "ev_npc sample_maiden_spawn = Some ((blank_npc 8360 1)\<lparr>nm_hitpoints := 3500 * 2 ^ 16 + 3500\<rparr>)" "is_maiden 8360"
    "ev_type sample_maiden_spawn = NPC_SPAWN" "ev_tick sample_maiden_spawn = 2"
    by (simp_all add: sample_maiden_spawn_def blank_event_def is_maiden_def is_maiden_regular_def is_maiden_entry_def is_maiden_hard_def)
  have first: "first_maiden_event 0 sample_maiden_ticks =
      Some (Some (2, 0, sample_maiden_spawn, (blank_npc 8360 1)\<lparr>nm_hitpoints := 3500 * 2 ^ 16 + 3500\<rparr>))"
    by (simp add: sample_maiden_ticks_def one npc blank_npc_def)
  have "sk_current (skill_from_raw (3500 * 2 ^ 16 + 3500)) = sk_base (skill_from_raw (3500 * 2 ^ 16 + 3500))" by code_simp
  then have hp: "sk_current (skill_from_raw (nm_hitpoints ((blank_npc 8360 1)\<lparr>nm_hitpoints := 3500 * 2 ^ 16 + 3500\<rparr>))) =
      sk_base (skill_from_raw (nm_hitpoints ((blank_npc 8360 1)\<lparr>nm_hitpoints := 3500 * 2 ^ 16 + 3500\<rparr>)))" by simp
  have "timeline_of_type NPC_SPAWN sample_maiden_ticks = {#sample_maiden_spawn#}" "sample_maiden_ticks ! 0 = None"
    by (simp_all add: sample_maiden_ticks_def one) (simp add: timeline_of_type_def)
  with maiden_spawn_moved [OF first npc(3,4) hp] show ?thesis by auto
qed

end
