(* ===== verification/Event_Flow.thy ===== *)
theory Event_Flow
  imports Merge_Run
begin

text \<open>
  Where the events of a merged timeline come from. A merge copies, renumbers, buffers and reinserts events; whatever holds of
  a recorded event and survives renumbering holds of every event of the merged timeline. The locale \<^verbatim>\<open>event_invariant\<close> says so
  once for every such predicate; it is interpreted for the events that stem from given ones (a merge invents no
  event) and for the events that carry the messages their type promises (a merge does not throw).
\<close>

subsection \<open>Predicates on all events\<close>

definition holds_all :: "(tagged \<Rightarrow> bool) \<Rightarrow> tick_state \<Rightarrow> bool" where
  "holds_all P ts \<longleftrightarrow> (\<forall>t \<in> set (get_tagged_events ts). P t)"

definition timeline_all :: "(tagged \<Rightarrow> bool) \<Rightarrow> tick_state option list \<Rightarrow> bool" where
  "timeline_all P ticks \<longleftrightarrow> (\<forall>ts. Some ts \<in> set ticks \<longrightarrow> holds_all P ts)"

definition buffered_all :: "(tagged \<Rightarrow> bool) \<Rightarrow> buffered_event list \<Rightarrow> bool" where
  "buffered_all P bs \<longleftrightarrow> (\<forall>b \<in> set bs. P (be_tagged b))"

definition buffer_all :: "(tagged \<Rightarrow> bool) \<Rightarrow> event_buffer \<Rightarrow> bool" where
  "buffer_all P buf \<longleftrightarrow> (\<forall>ty. buffered_all P (buffered_of buf ty))"

definition consolidation_all :: "(tagged \<Rightarrow> bool) \<Rightarrow> consolidation \<Rightarrow> bool" where
  "consolidation_all P cn \<longleftrightarrow>
     timeline_all P (cn_ticks cn) \<and> buffer_all P (cn_base_buffer cn) \<and> buffer_all P (cn_target_buffer cn)"

text \<open>A tick made by the constructor holds each event among those of its type.\<close>

definition sound_tick :: "(tagged \<Rightarrow> bool) \<Rightarrow> tick_state \<Rightarrow> bool" where
  "sound_tick P ts \<longleftrightarrow> holds_all P ts \<and> (\<forall>ty. \<forall>t \<in> set (get_tagged_by_type ty ts). ev_type (fst t) = ty)"

definition timeline_sound :: "(tagged \<Rightarrow> bool) \<Rightarrow> tick_state option list \<Rightarrow> bool" where
  "timeline_sound P ticks \<longleftrightarrow> (\<forall>ts. Some ts \<in> set ticks \<longrightarrow> sound_tick P ts)"

lemma new_tick_state_by_type: "t \<in> set (get_tagged_by_type ty (new_tick_state i es ps ns g)) \<Longrightarrow> ev_type (fst t) = ty"
proof -
  have "get_tagged_by_type ty (new_tick_state i es ps ns g) =
      get_tagged_by_type ty (add_tagged_events (filter (\<lambda>t. ev_type (fst t) \<notin> tick_state_types) es) \<lparr>ts_tick = i, ts_events = [],
        ts_players = ps, ts_npcs = ns, ts_graphics = g\<rparr>)"
    by (simp add: new_tick_state_def add_tagged_events_def)
  then show "t \<in> set (get_tagged_by_type ty (new_tick_state i es ps ns g)) \<Longrightarrow> ev_type (fst t) = ty"
    by (simp add: get_tagged_by_type_def [of ty "\<lparr>ts_tick = i, ts_events = [], ts_players = ps, ts_npcs = ns, ts_graphics = g\<rparr>"])
qed

lemma timeline_sound_all: "timeline_sound P ticks \<Longrightarrow> timeline_all P ticks"
  by (simp add: timeline_sound_def timeline_all_def sound_tick_def)

lemma events_of_new_tick_state:
  "set (get_tagged_events (new_tick_state t es ps ns g)) = {e \<in> set es. ev_type (fst e) \<notin> tick_state_types}"
  using mset_eq_setD [OF new_tick_state_mset [of t es ps ns g]] by auto

lemma added_events: "set (get_tagged_events (add_tagged_events es ts)) = set (get_tagged_events ts) \<union> set es"
proof -
  have "mset (get_tagged_events (add_tagged_events es ts)) = mset (get_tagged_events ts @ es)"
    by (simp add: add_tagged_events_def get_tagged_events_def push_events_mset)
  from mset_eq_setD [OF this] show ?thesis by simp
qed

lemma holds_all_new: "\<forall>t \<in> set es. P t \<Longrightarrow> holds_all P (new_tick_state t es ps ns g)"
  by (simp add: holds_all_def events_of_new_tick_state)

lemma sound_new: "\<forall>t \<in> set es. P t \<Longrightarrow> sound_tick P (new_tick_state t es ps ns g)"
  by (auto simp: sound_tick_def holds_all_new new_tick_state_by_type)

lemma sound_clone: "holds_all P ts \<Longrightarrow> sound_tick P (clone_tick ts)"
  by (simp add: clone_tick_def sound_new holds_all_def)

lemma holds_all_clone: "holds_all P ts \<Longrightarrow> holds_all P (clone_tick ts)"
  by (simp add: clone_tick_def holds_all_new holds_all_def [of P ts])

lemma by_type_events: "set (get_tagged_by_type ty ts) \<subseteq> set (get_tagged_events ts)"
  by (cases "map_of (ts_events ts) ty")
    (force simp: get_tagged_by_type_def get_tagged_events_def dest: map_of_SomeD)+

lemma holds_all_extract:
  assumes "holds_all P ts"
  shows "\<forall>t \<in> set (fst (extract_events types ts)). P t" "holds_all P (snd (extract_events types ts))"
proof -
  show "\<forall>t \<in> set (fst (extract_events types ts)). P t"
    using assms by_type_events [of _ ts] by (fastforce simp: extract_events_def holds_all_def)
  have "set (get_tagged_events (snd (extract_events types ts))) \<subseteq> set (get_tagged_events ts)"
    by (auto simp: extract_events_def get_tagged_events_def)
  with assms show "holds_all P (snd (extract_events types ts))" by (auto simp: holds_all_def)
qed

lemma holds_all_events: "ts_events ts' = ts_events ts \<Longrightarrow> holds_all P ts' = holds_all P ts"
  by (simp add: holds_all_def get_tagged_events_def)

lemma timeline_all_simps [simp]:
  "timeline_all P []" "timeline_all P (None # ticks) = timeline_all P ticks"
  "timeline_all P (Some ts # ticks) \<longleftrightarrow> holds_all P ts \<and> timeline_all P ticks"
  "timeline_all P (replicate n None)" "timeline_all P (xs @ ys) \<longleftrightarrow> timeline_all P xs \<and> timeline_all P ys"
  by (auto simp: timeline_all_def)

lemma timeline_all_update:
  "timeline_all P ticks \<Longrightarrow> (\<And>ts. x = Some ts \<Longrightarrow> holds_all P ts) \<Longrightarrow> timeline_all P (ticks[i := x])"
  by (auto simp: timeline_all_def dest: set_update_subset_insert [THEN subsetD])

lemma timeline_all_Some: "timeline_all P ticks \<Longrightarrow> holds_all P ts \<Longrightarrow> timeline_all P (ticks[i := Some ts])"
  by (rule timeline_all_update) auto

lemma timeline_all_nth: "timeline_all P ticks \<Longrightarrow> i < length ticks \<Longrightarrow> ticks ! i = Some ts \<Longrightarrow> holds_all P ts"
  by (metis nth_mem timeline_all_def)

lemma timeline_all_get: "timeline_all P ticks \<Longrightarrow> arr_get ticks i = Some ts \<Longrightarrow> holds_all P ts"
  by (auto simp: arr_get_def timeline_all_nth split: if_splits)

lemma present_tick_all: "timeline_all P ticks \<Longrightarrow> present_tick ticks i = Some ts \<Longrightarrow> holds_all P ts"
  by (cases i) (auto simp: present_tick_def timeline_all_get)

lemma timeline_all_set: "timeline_all P ticks \<Longrightarrow> holds_all P ts \<Longrightarrow> timeline_all P (arr_set ticks i ts)"
  by (auto simp: arr_set_def intro!: timeline_all_update)

subsection \<open>Building and reconciling the ticks\<close>

lemma buffer_events_all: "buffer_all P buf \<Longrightarrow> \<forall>t \<in> set es. P t \<Longrightarrow> buffer_all P (buffer_events buf es m c)"
proof (unfold buffer_events_def, induction es arbitrary: buf)
  case (Cons t es)
  from Cons.prems have "buffer_all P (buffer_event m c t buf)"
    by (auto simp: buffer_all_def buffered_all_def buffered_of_def buffer_event_def omap.get_put split: option.splits if_splits)
  with Cons show ?case by simp
qed simp

lemma consolidation_allI:
  "timeline_all P (cn_ticks cn) \<Longrightarrow> buffer_all P (cn_base_buffer cn) \<Longrightarrow> buffer_all P (cn_target_buffer cn) \<Longrightarrow> consolidation_all P cn"
  by (simp add: consolidation_all_def)

lemma consolidation_all_fields [simp]:
  "consolidation_all P (cn\<lparr>cn_flags := fs\<rparr>) = consolidation_all P cn"
  "consolidation_all P (cn\<lparr>cn_counters := ct\<rparr>) = consolidation_all P cn"
  by (simp_all add: consolidation_all_def)

lemma place_base_all:
  assumes "consolidation_all P cn" and "\<And>ts. snd it = Some ts \<Longrightarrow> holds_all P ts"
  shows "consolidation_all P (place_base_tick kp bm it cn)"
proof (cases "to_merged bm (fst it)"; cases "snd it")
  fix m ts assume some: "to_merged bm (fst it) = Some m" "snd it = Some ts"
  obtain es c where e: "extract_events (kp_stream_types kp @ kp_attack_types kp) (clone_tick ts) = (es, c)" by fastforce
  from holds_all_extract [OF holds_all_clone [OF assms(2) [OF some(2)]], of "kp_stream_types kp @ kp_attack_types kp"]
  have "\<forall>t \<in> set es. P t" "holds_all P c" by (simp_all add: e)
  with assms(1) show ?thesis
    by (simp add: place_base_tick_def some e consolidation_all_def buffer_events_all timeline_all_set)
qed (simp_all add: place_base_tick_def assms(1))

lemma place_target_all:
  assumes "consolidation_all P cn" and "\<And>ts. snd it = Some ts \<Longrightarrow> holds_all P ts"
  shows "consolidation_all P (place_target_tick kp tm it cn)"
proof (cases "to_merged tm (fst it)"; cases "snd it")
  fix m ts assume some: "to_merged tm (fst it) = Some m" "snd it = Some ts"
  obtain es c where e: "extract_events (kp_stream_types kp @ kp_attack_types kp) (clone_tick ts) = (es, c)" by fastforce
  from holds_all_extract [OF holds_all_clone [OF assms(2) [OF some(2)]], of "kp_stream_types kp @ kp_attack_types kp"]
  have "\<forall>t \<in> set es. P t" "holds_all P c" by (simp_all add: e)
  with assms(1) show ?thesis
    by (simp add: place_target_tick_def some e consolidation_all_def buffer_events_all timeline_all_set)
qed (simp_all add: place_target_tick_def assms(1))

lemma fold_enumerate_all:
  assumes "\<And>it cn. consolidation_all P cn \<Longrightarrow> (\<And>ts. snd it = Some ts \<Longrightarrow> holds_all P ts) \<Longrightarrow> consolidation_all P (f it cn)"
    and "consolidation_all P cn" and "timeline_all P ticks"
  shows "consolidation_all P (fold f (enumerate n ticks) cn)"
  using assms(2,3)
proof (induction ticks arbitrary: n cn)
  case (Cons x ticks)
  have "consolidation_all P (f (n, x) cn)"
    by (rule assms(1) [OF Cons.prems(1)]) (use Cons.prems(2) in auto)
  moreover have "timeline_all P ticks" using Cons.prems(2) by (cases x) simp_all
  ultimately show ?case using Cons.IH by simp
qed simp

lemma build_timeline_all:
  assumes "timeline_all P base" and "timeline_all P target"
  shows "consolidation_all P (build_timeline kp mp base target)"
proof -
  let ?cn = "\<lparr>cn_ticks = replicate (m_count mp) None, cn_base_buffer = [], cn_target_buffer = [], cn_flags = [],
    cn_counters = no_counters\<rparr>"
  have "consolidation_all P ?cn" by (simp add: consolidation_all_def buffer_all_def buffered_of_def buffered_all_def)
  then have "consolidation_all P (fold (place_base_tick kp (m_base mp)) (enumerate 0 base) ?cn)"
    by (rule fold_enumerate_all [where f = "place_base_tick kp (m_base mp)", rotated 1])
      (use assms(1) in \<open>simp_all add: place_base_all\<close>)
  then show ?thesis
    unfolding build_timeline_def
    by (rule fold_enumerate_all [where f = "place_target_tick kp (m_target mp)", rotated 1])
      (use assms(2) in \<open>simp_all add: place_target_all\<close>)
qed

lemma set_attack_events [simp]:
  "ts_events (set_player_attack p a ts) = ts_events ts" "ts_events (set_player_spell p b ts) = ts_events ts"
  "ts_events (set_npc_attack r c ts) = ts_events ts"
  by (simp_all add: set_player_attack_def set_player_spell_def set_npc_attack_def split: option.split)

lemma fold_events:
  assumes "\<And>x st. ts_events (fst (f x st)) = ts_events (fst st)"
  shows "ts_events (fst (fold f xs st)) = ts_events (fst st)"
  by (induction xs arbitrary: st) (simp_all add: assms)

lemma reconcile_tick_events: "ts_events (fst (reconcile_tick an targeted cx merged target)) = ts_events merged"
proof -
  have a: "ts_events (fst (merge_player_attack an cx target ps st)) = ts_events (fst st)" for ps st
    by (cases ps; cases "snd ps"; cases st) (auto simp: merge_player_attack_def split: prod.split option.split)
  have b: "ts_events (fst (merge_player_spell targeted target ps st)) = ts_events (fst st)" for ps st
    by (cases ps; cases "snd ps"; cases st) (auto simp: merge_player_spell_def split: prod.split option.split)
  have c: "ts_events (fst (merge_npc_attack an cx target rs st)) = ts_events (fst st)" for rs st
    by (cases rs; cases st) (auto simp: merge_npc_attack_def split: prod.split option.split)
  show ?thesis
    by (simp add: reconcile_tick_def merge_player_attacks_def merge_player_spells_def merge_npc_attacks_def split_beta
      fold_events [where f = "merge_player_attack an cx target", OF a] fold_events [where f = "merge_player_spell targeted target", OF b]
      fold_events [where f = "merge_npc_attack an cx target", OF c] merge_ticks_frame(2))
qed

lemma consolidate_tick_all:
  assumes "consolidate_tick kp cx mp base target m (Some cn) = Some cn'" and "consolidation_all P cn"
    and "timeline_all P target"
  shows "consolidation_all P cn'"
proof (cases "\<exists>ti b t. to_client (m_target mp) m = Some ti \<and> present_tick base (to_client (m_base mp) m) = Some b \<and>
    present_tick target (to_client (m_target mp) m) = Some t")
  case True
  then obtain ti b t where some: "to_client (m_target mp) m = Some ti" "present_tick base (to_client (m_base mp) m) = Some b"
    "present_tick target (Some ti) = Some t" by auto
  obtain es other where e: "extract_events (kp_stream_types kp @ kp_attack_types kp) (clone_tick t) = (es, other)" by fastforce
  from assms(1) obtain merged where merged: "arr_get (cn_ticks cn) m = Some merged"
    by (auto simp: consolidate_tick_def some e split: option.splits)
  obtain m' fl a s n where r: "reconcile_tick (kp_numbers kp) (kp_targeted kp) cx merged other = (m', fl, a, s, n)"
    by (metis prod_cases5)
  have es: "\<forall>t \<in> set es. P t"
    using holds_all_extract(1) [OF holds_all_clone [OF present_tick_all [OF assms(3) some(3)]], of "kp_stream_types kp @ kp_attack_types kp"] e
    by simp
  have "ts_events m' = ts_events merged" using reconcile_tick_events [of "kp_numbers kp" "kp_targeted kp" cx merged other] r by simp
  then have m': "holds_all P m'"
    using timeline_all_get [OF _ merged, of P] assms(2) by (simp add: consolidation_all_def holds_all_events [of m' merged])
  have "cn' = cn\<lparr>cn_ticks := (cn_ticks cn)[m := Some m'], cn_target_buffer := buffer_events (cn_target_buffer cn) es m ti,
      cn_flags := cn_flags cn @ fl, cn_counters := (cn_counters cn)\<lparr>ct_player_attacks := ct_player_attacks (cn_counters cn) + a,
        ct_player_spells := ct_player_spells (cn_counters cn) + s, ct_npc_attacks := ct_npc_attacks (cn_counters cn) + n\<rparr>\<rparr>"
    using assms(1) by (simp add: consolidate_tick_def some e merged r Let_def)
  with assms(2) es m' show ?thesis by (simp add: consolidation_all_def timeline_all_Some buffer_events_all)
next
  case False
  with assms(1) have "cn' = cn" by (auto simp: consolidate_tick_def split: option.splits)
  with assms(2) show ?thesis by simp
qed

subsection \<open>Reconciling streams\<close>

lemma fold_option_all:
  assumes "\<And>x. f x None = None" and "\<And>x cn cn'. f x (Some cn) = Some cn' \<Longrightarrow> consolidation_all P cn \<Longrightarrow> consolidation_all P cn'"
  shows "fold f xs (Some cn) = Some cn' \<Longrightarrow> consolidation_all P cn \<Longrightarrow> consolidation_all P cn'"
proof (induction xs arbitrary: cn)
  case (Cons x xs)
  have "fold f ys None = None" for ys by (induction ys) (simp_all add: assms(1))
  with Cons.prems(1) obtain cn1 where "f x (Some cn) = Some cn1" by (cases "f x (Some cn)") auto
  with Cons assms(2) show ?case by fastforce
qed simp

lemma insert_tagged_all: "consolidation_all P cn \<Longrightarrow> P t \<Longrightarrow> consolidation_all P (insert_tagged_event m t cn)"
proof -
  assume cn: "consolidation_all P cn" and t: "P t"
  have "holds_all P ts'" if "0 \<le> m" "m < int (length (cn_ticks cn))" "map_option (add_tagged_events [t]) (cn_ticks cn ! nat m) = Some ts'" for ts'
  proof -
    from that(3) obtain ts where ts: "cn_ticks cn ! nat m = Some ts" "ts' = add_tagged_events [t] ts" by auto
    have "nat m < length (cn_ticks cn)" using that(1,2) by linarith
    then have "holds_all P ts" using timeline_all_nth [OF _ _ ts(1)] cn by (simp add: consolidation_all_def)
    with t ts(2) show ?thesis by (simp add: holds_all_def added_events)
  qed
  with cn show ?thesis by (auto simp: insert_tagged_event_def consolidation_all_def intro!: timeline_all_update)
qed

lemma emitted_all:
  "buffered_all P bs \<Longrightarrow> buffered_all P ts \<Longrightarrow> buffered_all P (mt_emitted (match_unique bs ts))"
  "buffered_all P bs \<Longrightarrow> buffered_all P ts \<Longrightarrow> buffered_all P (mt_emitted (match_temporal w bs ts))"
proof -
  show "buffered_all P bs \<Longrightarrow> buffered_all P ts \<Longrightarrow> buffered_all P (mt_emitted (match_unique bs ts))"
    by (cases "(bs, ts)" rule: match_unique.cases)
      (auto simp: buffered_all_def Consolidation.emit_def emit_pair_def no_matching_def)
  show "buffered_all P bs \<Longrightarrow> buffered_all P ts \<Longrightarrow> buffered_all P (mt_emitted (match_temporal w bs ts))"
    by (induction w bs ts rule: match_temporal.induct)
      (auto simp: buffered_all_def Consolidation.emit_def emit_pair_def no_matching_def)
qed

lemma apply_matching_all:
  assumes "consolidation_all P cn" and "buffered_all P (mt_emitted mt)"
  shows "consolidation_all P (apply_matching ty n mt cn)"
proof -
  have "buffered_all P bs \<Longrightarrow> consolidation_all P cn \<Longrightarrow> consolidation_all P (fold insert_buffered_event bs cn)" for bs cn
    by (induction bs arbitrary: cn) (simp_all add: buffered_all_def insert_buffered_event_def insert_tagged_all)
  with assms show ?thesis by (simp add: apply_matching_def Let_def)
qed

lemma group_by_key_all:
  assumes "group_by_key f bs m = Some m'" and "buffered_all P bs"
    and "\<forall>k. buffered_all P (case map_of m k of None \<Rightarrow> [] | Some xs \<Rightarrow> xs)"
  shows "buffered_all P (key_list m' k)"
  using assms
proof (induction f bs m arbitrary: m' rule: group_by_key.induct)
  case (1 f m)
  then show ?case by (simp add: key_list_def buffered_all_def)
next
  case (2 f b bs m)
  from "2.prems"(1) obtain key where key: "identity_key f (fst (be_tagged b)) = Some key"
    by (auto split: option.splits)
  let ?m = "AList.update key ((case map_of m key of None \<Rightarrow> [] | Some xs \<Rightarrow> xs) @ [b]) m"
  from key "2.prems"(1) have rest: "group_by_key f bs ?m = Some m'" by simp
  have b: "P (be_tagged b)" "buffered_all P bs" using "2.prems"(2) by (simp_all add: buffered_all_def)
  have "buffered_all P (case map_of ?m k of None \<Rightarrow> [] | Some xs \<Rightarrow> xs)" for k
  proof (cases "k = key")
    case True
    with b(1) "2.prems"(3) [rule_format, of key] show ?thesis by (auto simp: buffered_all_def omap.get_put)
  next
    case False
    with "2.prems"(3) [rule_format, of k] show ?thesis by (simp add: omap.get_put)
  qed
  then show ?case by (intro "2.IH" [OF key rest b(2)]) blast
qed

lemma deduplicate_all:
  assumes "deduplicate_stream_events ty bs ts cfg cn = Some cn'" and "consolidation_all P cn"
    and "buffered_all P bs" and "buffered_all P ts"
  shows "consolidation_all P cn'"
proof -
  from assms(1) obtain bm tm where bm: "group_by_key (sc_key cfg) bs [] = Some bm" and tm: "group_by_key (sc_key cfg) ts [] = Some tm"
    and cn': "cn' = fold (\<lambda>k. apply_matching ty (sc_large_gap cfg) (match_key cfg bm tm k))
            (omap_keys bm @ filter (\<lambda>k. k \<notin> set (omap_keys bm)) (omap_keys tm)) cn"
    by (auto simp: deduplicate_stream_events_def split: option.splits)
  have "buffered_all P (key_list bm k)" "buffered_all P (key_list tm k)" for k
    using group_by_key_all [OF bm assms(3), of k] group_by_key_all [OF tm assms(4), of k] by (simp_all add: buffered_all_def)
  then have emitted: "buffered_all P (mt_emitted (match_key cfg bm tm k))" for k
    by (simp add: match_key_def emitted_all split: option.split)
  have "consolidation_all P cn \<Longrightarrow> consolidation_all P (fold (\<lambda>k. apply_matching ty (sc_large_gap cfg) (match_key cfg bm tm k)) ks cn)" for ks cn
    by (induction ks arbitrary: cn) (simp_all add: apply_matching_all emitted)
  with assms(2) show ?thesis by (simp add: cn')
qed

lemma buffered_of_all:
  "consolidation_all P cn \<Longrightarrow> buffered_all P (buffered_of (cn_base_buffer cn) ty)"
  "consolidation_all P cn \<Longrightarrow> buffered_all P (buffered_of (cn_target_buffer cn) ty)"
  by (simp_all add: consolidation_all_def buffer_all_def)

lemma reconcile_stream_type_all:
  assumes "reconcile_stream_type stage ty (Some cn) = Some cn'" and "consolidation_all P cn"
  shows "consolidation_all P cn'"
proof (cases "stream_configs_for_stage stage ty")
  case None
  with assms show ?thesis by (simp add: reconcile_stream_type_def)
next
  case (Some cfg)
  with assms(1) have "deduplicate_stream_events ty (buffered_of (cn_base_buffer cn) ty)
      (buffered_of (cn_target_buffer cn) ty) cfg cn = Some cn'" by (simp add: reconcile_stream_type_def)
  from deduplicate_all [OF this assms(2) buffered_of_all [OF assms(2)]] show ?thesis .
qed

definition groups_all :: "(tagged \<Rightarrow> bool) \<Rightarrow> attack_groups \<Rightarrow> bool" where
  "groups_all P gs \<longleftrightarrow> (\<forall>g \<in> set gs. \<forall>c \<in> set (snd g). P (ca_tagged c))"

lemma groups_all_update:
  assumes "groups_all P gs" and "P (ca_tagged c)"
  shows "groups_all P (AList.update m ((case map_of gs m of None \<Rightarrow> [] | Some cs \<Rightarrow> cs) @ [c]) gs)"
proof -
  have old: "\<forall>c \<in> set (case map_of gs m of None \<Rightarrow> [] | Some cs \<Rightarrow> cs). P (ca_tagged c)"
    using assms(1) by (cases "map_of gs m") (force simp: groups_all_def dest: map_of_SomeD)+
  have "groups_all P gs \<Longrightarrow> (\<forall>c \<in> set cs. P (ca_tagged c)) \<Longrightarrow> groups_all P (AList.update m cs gs)" for cs gs
    by (induction gs) (auto simp: groups_all_def)
  with assms old show ?thesis by auto
qed

lemma try_resolve_all:
  assumes "try_resolve an ty b mp e (Some (gs, cn)) = Some (gs', cn')" and "groups_all P gs" and "consolidation_all P cn"
    and "P (be_tagged e)"
  shows "groups_all P gs' \<and> consolidation_all P cn'"
proof -
  from assms(1) obtain ref where ref: "referenced_tick ty (fst (be_tagged e)) = Some ref"
    by (auto simp: try_resolve_def split: option.splits)
  let ?c = "\<lparr>ca_base = b, ca_source = snd (be_tagged e), ca_client = be_client e, ca_referenced = ref, ca_tagged = be_tagged e\<rparr>"
  have upd: "groups_all P (AList.update m ((case map_of gs m of None \<Rightarrow> [] | Some cs \<Rightarrow> cs) @ [?c]) gs)" for m
    by (rule groups_all_update [OF assms(2)]) (simp add: assms(4))
  show ?thesis
  proof (cases "to_merged_tick mp ref")
    case None
    with assms(1-3) ref show ?thesis by (auto simp: try_resolve_def Let_def)
  next
    case (Some m)
    show ?thesis
    proof (cases "arr_get (cn_ticks cn) m")
      case None
      with Some assms(1-3) ref show ?thesis by (auto simp: try_resolve_def Let_def)
    next
      case ts: (Some ts)
      show ?thesis
      proof (cases "validate_attack an ty ts (fst (be_tagged e))")
        case True
        then have "gs' = AList.update m ((case map_of gs m of None \<Rightarrow> [] | Some cs \<Rightarrow> cs) @ [?c]) gs"
          "cn' = cn\<lparr>cn_counters := (cn_counters cn)\<lparr>ct_attack_mapped := ct_attack_mapped (cn_counters cn) + 1\<rparr>\<rparr>"
          using Some ts assms(1) ref by (simp_all add: try_resolve_def Let_def)
        with upd assms(3) show ?thesis by simp
      next
        case False
        with Some ts assms(1-3) ref show ?thesis by (auto simp: try_resolve_def Let_def)
      qed
    qed
  qed
qed

lemma fold_try_resolve_all:
  assumes "fold (try_resolve an ty b mp) es (Some (gs, cn)) = Some (gs', cn')" and "groups_all P gs" and "consolidation_all P cn"
    and "buffered_all P es"
  shows "groups_all P gs' \<and> consolidation_all P cn'"
  using assms
proof (induction es arbitrary: gs cn)
  case (Cons e es)
  have "fold (try_resolve an ty b mp) es None = None" for es by (induction es) (simp_all add: try_resolve_def)
  with Cons.prems(1) obtain gs1 cn1 where one: "try_resolve an ty b mp e (Some (gs, cn)) = Some (gs1, cn1)"
    by (cases "try_resolve an ty b mp e (Some (gs, cn))") auto
  from Cons.prems(4) have e: "P (be_tagged e)" "buffered_all P es" by (simp_all add: buffered_all_def)
  from try_resolve_all [OF one Cons.prems(2,3) e(1)] Cons.IH [of gs1 cn1] Cons.prems(1) one e(2) show ?case by simp
qed simp

lemma nearer_candidate_in:
  assumes "\<And>c. best = Some c \<Longrightarrow> fst c \<in> C" and "x \<in> C" and "nearer_candidate cx ts pos x best = Some c"
  shows "fst c \<in> C"
  using assms by (auto simp: nearer_candidate_def Let_def split: option.splits if_splits)

lemma fold_nearer_in:
  assumes "\<And>c. best = Some c \<Longrightarrow> fst c \<in> C" and "set xs \<subseteq> C" and "fold (nearer_candidate cx ts pos) xs best = Some c"
  shows "fst c \<in> C"
  using assms
proof (induction xs arbitrary: best)
  case (Cons x xs)
  show ?case
  proof (rule Cons.IH)
    show "fst c \<in> C" if "nearer_candidate cx ts pos x best = Some c" for c
      by (rule nearer_candidate_in [OF Cons.prems(1) _ that]) (use Cons.prems(2) in auto)
  qed (use Cons.prems in auto)
qed simp

lemma proximity_in:
  assumes "resolve_by_npc_proximity cx cn tick cs = Some c"
  shows "c \<in> set cs"
proof -
  from assms obtain ts pos b where "fold (nearer_candidate cx ts pos) cs None = Some b" "c = fst b"
    by (auto simp: resolve_by_npc_proximity_def split: option.splits)
  with fold_nearer_in [of None "set cs" cs cx ts pos b] show ?thesis by simp
qed

lemma resolve_group_all:
  assumes "consolidation_all P cn" and "\<forall>c \<in> set (snd g). P (ca_tagged c)"
  shows "consolidation_all P (resolve_group cx ty g cn)"
proof -
  obtain tick cs where g: "g = (tick, cs)" by fastforce
  have ins: "consolidation_all P (insert_candidate tick c cn)" if "c \<in> set cs" for c
    using assms that by (simp add: g insert_candidate_def insert_tagged_all)
  show ?thesis
  proof (cases cs rule: remdups_adj.cases)
    case 1
    with assms(1) show ?thesis by (simp add: resolve_group_def g)
  next
    case (2 c)
    with ins [of c] show ?thesis by (simp add: resolve_group_def g)
  next
    case (3 c d es)
    let ?fallback = "case List.find ca_base cs of None \<Rightarrow> c | Some b \<Rightarrow> b"
    have fallback: "?fallback \<in> set cs"
    proof (cases "List.find ca_base cs")
      case (Some b)
      then have "b \<in> set cs" by (auto simp: find_Some_iff)
      with Some show ?thesis by simp
    qed (simp add: 3)
    then have nearer: "(case resolve_by_npc_proximity cx cn tick cs of None \<Rightarrow> ?fallback | Some w \<Rightarrow> w) \<in> set cs"
      using proximity_in [of cx cn tick cs] by (cases "resolve_by_npc_proximity cx cn tick cs") simp_all
    show ?thesis
      using ins [OF fallback] ins [OF nearer]
      unfolding resolve_group_def g 3 prod.case list.case Let_def
      by (simp only: consolidation_all_fields split: if_split) blast
  qed
qed

lemma reconcile_attack_type_all:
  assumes "reconcile_attack_type kp cx mp ty (Some cn) = Some cn'" and "consolidation_all P cn"
  shows "consolidation_all P cn'"
proof -
  from assms(1) obtain gs cn1 where gr: "group_attack_mapped (kp_numbers kp) mp ty (buffered_of (cn_base_buffer cn) ty)
      (buffered_of (cn_target_buffer cn) ty) cn = Some (gs, cn1)" and cn': "cn' = fold (resolve_group cx ty) gs cn1"
    by (auto simp: reconcile_attack_type_def)
  have "fold (try_resolve an ty b mp) es None = None" for an b mp es by (induction es) (simp_all add: try_resolve_def)
  with gr obtain gs0 cn0 where f: "fold (try_resolve (kp_numbers kp) ty True (m_base mp)) (buffered_of (cn_base_buffer cn) ty) (Some ([], cn)) = Some (gs0, cn0)"
    and g: "fold (try_resolve (kp_numbers kp) ty False (m_target mp)) (buffered_of (cn_target_buffer cn) ty) (Some (gs0, cn0)) = Some (gs, cn1)"
    unfolding group_attack_mapped_def
    by (cases "fold (try_resolve (kp_numbers kp) ty True (m_base mp)) (buffered_of (cn_base_buffer cn) ty) (Some ([], cn))") auto
  have "groups_all P []" by (simp add: groups_all_def)
  note one = fold_try_resolve_all [OF f this assms(2) buffered_of_all(1) [OF assms(2)]]
  from fold_try_resolve_all [OF g one [THEN conjunct1] one [THEN conjunct2]
      buffered_of_all(2) [OF assms(2)]]
  have "groups_all P gs" "consolidation_all P cn1" by simp_all
  then have "consolidation_all P (fold (resolve_group cx ty) gs cn1)"
    by (induction gs arbitrary: cn1) (simp_all add: groups_all_def resolve_group_all)
  then show ?thesis by (simp add: cn')
qed

lemma reconcile_streams_all:
  assumes "reconcile_streams kp cx mp cn = Some cn'" and "consolidation_all P cn"
  shows "consolidation_all P cn'"
proof -
  have none: "fold (reconcile_attack_type kp cx mp) xs None = None" for xs
    by (induction xs) (simp_all add: reconcile_attack_type_def)
  from assms(1) obtain cn1 where first: "fold (reconcile_stream_type (cx_stage cx)) (kp_stream_types kp) (Some cn) = Some cn1"
    and second: "fold (reconcile_attack_type kp cx mp) (kp_attack_types kp) (Some cn1) = Some cn'"
    unfolding reconcile_streams_def using none
    by (cases "fold (reconcile_stream_type (cx_stage cx)) (kp_stream_types kp) (Some cn)") auto
  have "consolidation_all P cn1"
    by (rule fold_option_all [OF _ reconcile_stream_type_all first assms(2)]) (simp_all add: reconcile_stream_type_def)
  show ?thesis
    by (rule fold_option_all [OF _ reconcile_attack_type_all second \<open>consolidation_all P cn1\<close>])
      (simp_all add: reconcile_attack_type_def)
qed

subsection \<open>Renumbering\<close>

locale event_invariant =
  fixes P :: "tagged \<Rightarrow> bool"
  assumes remap: "remap_event_tick f t = Some t' \<Longrightarrow> P t \<Longrightarrow> P t'"
    and retick: "P (e, src) \<Longrightarrow> P (e\<lparr>ev_tick := i\<rparr>, src)"
begin

lemma remap_to_merged: "remap_to_merged tid mp i t = Some t' \<Longrightarrow> P t \<Longrightarrow> P t'"
  by (auto simp: remap_to_merged_def intro: retick dest: remap)

lemma remap_tick_state:
  assumes "remap_tick_state tid mp i ts = Some ts'" and "holds_all P ts"
  shows "sound_tick P ts'"
proof -
  from assms(1) obtain es where es: "map (remap_to_merged tid mp i) (get_tagged_events ts) = map Some es"
    and ts': "ts' = new_tick_state (int i) es (ts_players ts) (ts_npcs ts) (ts_graphics ts)"
    by (auto simp: remap_tick_state_def all_some_iff)
  have "P e" if "e \<in> set es" for e
  proof -
    from that es have "Some e \<in> set (map (remap_to_merged tid mp i) (get_tagged_events ts))" by simp
    then obtain t where "t \<in> set (get_tagged_events ts)" "remap_to_merged tid mp i t = Some e" by auto
    with assms(2) show ?thesis by (auto simp: holds_all_def intro: remap_to_merged)
  qed
  then show ?thesis by (simp add: ts' sound_new)
qed

lemma remap_all:
  assumes "remap_all_to_merged tid mp ticks = Some (out, flags)" and "timeline_all P ticks"
  shows "timeline_sound P out"
proof -
  from assms(1) have eq: "map (\<lambda>(i, t). case t of None \<Rightarrow> Some None | Some ts \<Rightarrow> map_option Some (remap_tick_state tid mp i ts)) (enumerate 0 ticks) =
      map Some out"
    by (auto simp: remap_all_to_merged_def all_some_iff)
  have "sound_tick P ts'" if "Some ts' \<in> set out" for ts'
  proof -
    from that have "Some (Some ts') \<in> set (map Some out)" by simp
    then obtain i x where x: "(i, x) \<in> set (enumerate 0 ticks)"
      "(case x of None \<Rightarrow> Some None | Some ts \<Rightarrow> map_option Some (remap_tick_state tid mp i ts)) = Some (Some ts')"
      unfolding eq [symmetric] by auto
    then obtain ts where ts: "x = Some ts" "remap_tick_state tid mp i ts = Some ts'" by (cases x) auto
    from x(1) have "x \<in> set ticks" by (auto simp: enumerate_eq_zip dest: set_zip_rightD)
    with assms(2) ts(1) have "holds_all P ts" by (simp add: timeline_all_def)
    then show ?thesis by (rule remap_tick_state [OF ts(2)])
  qed
  then show ?thesis by (simp add: timeline_sound_def)
qed

lemma consolidated:
  assumes "consolidate kp cx base target = Some r" and "timeline_all P base" and "timeline_all P target"
  shows "timeline_sound P (cr_ticks r)"
proof -
  from assms(1) obtain tid mp cn1 cn2 flags where cn1: "consolidate_ticks kp cx mp base target (build_timeline kp mp base target) = Some cn1"
    and cn2: "reconcile_streams kp cx mp cn1 = Some cn2" and out: "remap_all_to_merged tid mp (cn_ticks cn2) = Some (cr_ticks r, flags)"
    by (auto simp: consolidate_def Option.bind_eq_Some_conv split: option.splits)
  have "consolidation_all P cn1"
    by (rule fold_option_all [OF _ consolidate_tick_all [OF _ _ assms(3)] cn1 [unfolded consolidate_ticks_def]
      build_timeline_all [OF assms(2,3)]]) (simp_all add: consolidate_tick_def)
  from reconcile_streams_all [OF cn2 this] have "timeline_all P (cn_ticks cn2)" by (simp add: consolidation_all_def)
  with out show ?thesis by (rule remap_all)
qed

lemma merged_step:
  assumes "mm_in_flight (cx_mapping (mt_cx mt)) = None" and "timeline_sound P (mt_ticks mt)"
    and "timeline_all P (map Some (ce_ticks c))"
  shows "timeline_sound P (mt_ticks (snd (merge_events_from mp am c mt)))"
  using assms(1)
proof (cases rule: merge_events_from_cases [where mp = mp and c = c and am = am])
  case (Keeps outcome)
  with assms(2) show ?thesis by simp
next
  case (Merges al m conf flags mt')
  then obtain r where r: "consolidate (mp_consolidate mp) (map_mapping (begin_step (ce_id c) m) (mt_cx mt)) (mt_ticks mt)
      (map Some (ce_ticks c)) = Some r" "mt_ticks mt' = cr_ticks r" by (auto simp: merged_by_def)
  from consolidated [OF r(1) timeline_sound_all [OF assms(2)] assms(3)] r(2) Merges(1) show ?thesis by simp
qed

lemma base_ticks:
  assumes "initialize_base_ticks base = Some ticks" and "timeline_all P (map Some (ce_ticks base))"
  shows "timeline_sound P ticks"
proof -
  have "sound_tick P (clone_tick ts)" if "get_tick_state i base = Some ts" for i ts
  proof -
    from that have "ts \<in> set (ce_ticks base)" by (auto simp: get_tick_state_def split: if_splits)
    with assms(2) show ?thesis by (simp add: timeline_all_def sound_clone)
  qed
  note clone = this
  have "sound_tick P ts" if "Some ts \<in> set ticks" for ts
  proof -
    from assms(1) have "ticks = map (\<lambda>i. map_option clone_tick (get_tick_state (int i) base)) [0..<nat (get_final_tick base + 1)]"
      by (simp add: initialize_base_ticks_def split: if_splits)
    with that have "Some ts \<in> (\<lambda>i. map_option clone_tick (get_tick_state (int i) base)) ` {0..<nat (get_final_tick base + 1)}" by simp
    then obtain i where "Some ts = map_option clone_tick (get_tick_state (int i) base)" by (rule imageE)
    then have "map_option clone_tick (get_tick_state (int i) base) = Some ts" by simp
    then show ?thesis using clone by auto
  qed
  then show ?thesis by (simp add: timeline_sound_def)
qed

text \<open>The state of a run in which every event has the property.\<close>

lemma merge_steps_recorded:
  assumes "timeline_all P (map Some (ce_ticks c))" and "mm_in_flight (cx_mapping (mt_cx (fst st))) = None"
    and "timeline_sound P (mt_ticks (fst st))"
  shows "mm_in_flight (cx_mapping (mt_cx (fst (merge_from mp am cls c st)))) = None \<and>
    timeline_sound P (mt_ticks (fst (merge_from mp am cls c st)))"
proof -
  have "mm_in_flight (cx_mapping (mt_cx (snd (merge_events_from mp am c (fst st))))) = None"
    using assms(2) by (cases rule: merge_events_from_cases [where mp = mp and c = c and am = am])
      (use assms(2) in \<open>auto simp: merged_by_def\<close>)
  with merged_step [OF assms(2,3,1), of mp am] show ?thesis
    by (simp add: merge_from_def record_merge_result_def Let_def split_beta)
qed

lemma folded_steps:
  assumes "\<forall>c \<in> set cs. timeline_all P (map Some (ce_ticks c))"
    and "mm_in_flight (cx_mapping (mt_cx (fst st))) = None" and "timeline_sound P (mt_ticks (fst st))"
  shows "mm_in_flight (cx_mapping (mt_cx (fst (fold (merge_from mp am cls) cs st)))) = None \<and>
    timeline_sound P (mt_ticks (fst (fold (merge_from mp am cls) cs st)))"
  using assms
proof (induction cs arbitrary: st)
  case (Cons c cs)
  from merge_steps_recorded [of c st mp am cls] Cons show ?case by simp
qed simp

lemma steps:
  assumes "new_merged_timeline (cl_base cl) (merge_context_for ch stage cs (cl_base cl)) (cl_reference cl) = Some mt"
    and "\<forall>c \<in> set (cl_base cl # cl_matching cl @ cl_mismatched cl). timeline_all P (map Some (ce_ticks c))"
  shows "timeline_sound P (mt_ticks (fst (merge_steps mp am cl bad mt)))"
proof -
  have skipped: "mt_ticks (fst (fold (\<lambda>c. record_merge_result c MISMATCHED (Step_Skipped, [])) ds st)) = mt_ticks (fst st)" for ds st
    by (induction ds arbitrary: st) (simp_all add: record_merge_result_def)
  let ?st = "record_merge_result (cl_base cl) REFERENCE (Step_Merged None, []) (mt, [])"
  from assms(1) obtain ticks where "initialize_base_ticks (cl_base cl) = Some ticks" "mt_ticks mt = ticks"
    "mt_cx mt = merge_context_for ch stage cs (cl_base cl)"
    by (auto simp: new_merged_timeline_def)
  then have "timeline_sound P (mt_ticks (fst ?st))" "mm_in_flight (cx_mapping (mt_cx (fst ?st))) = None"
    using base_ticks assms(2) by (simp_all add: record_merge_result_def merge_context_for_def new_merge_mapping_def)
  with assms(2) folded_steps [of "cl_mismatched cl" "fold (merge_from mp am MATCHING) (cl_matching cl) ?st" mp am MISMATCHED]
    folded_steps [of "cl_matching cl" ?st mp am MATCHING]
  show ?thesis by (simp add: merge_steps_def skipped)
qed

end

subsection \<open>A merge invents no event\<close>

definition blank_ticks :: "event \<Rightarrow> event" where
  "blank_ticks e = e\<lparr>ev_tick := 0, ev_attack_tick := None, ev_exhumed := None\<rparr>"

text \<open>An event that is one of some given events but for the ticks it names, with the same source.\<close>

definition stems_from :: "tagged set \<Rightarrow> tagged \<Rightarrow> bool" where
  "stems_from S t \<longleftrightarrow> (\<exists>t0 \<in> S. snd t = snd t0 \<and> blank_ticks (fst t) = blank_ticks (fst t0))"

lemma stems_self: "t \<in> S \<Longrightarrow> stems_from S t"
  by (auto simp: stems_from_def)

lemma remap_blank: "remap_event_tick f t = Some t' \<Longrightarrow> snd t' = snd t \<and> blank_ticks (fst t') = blank_ticks (fst t)"
  by (cases "ev_type (fst t)") (auto simp: remap_event_tick_def remap_reference_def Let_def blank_ticks_def split: if_splits)

interpretation stems: event_invariant "stems_from S" for S
proof
  show "remap_event_tick f t = Some t' \<Longrightarrow> stems_from S t \<Longrightarrow> stems_from S t'" for f t t'
    unfolding stems_from_def by (drule remap_blank) metis
  show "stems_from S (e, src) \<Longrightarrow> stems_from S (e\<lparr>ev_tick := i\<rparr>, src)" for e src i
    by (simp add: stems_from_def blank_ticks_def)
qed

text \<open>C18: merging invents no event. Every event of the timeline after the steps of a merge was recorded by one of the clients given
  to it, with the same content and source; only its tick and the ticks it refers to may have been renumbered.\<close>

theorem merge_invents_no_event:
  assumes "new_merged_timeline (cl_base cl) (merge_context_for ch stage cs (cl_base cl)) (cl_reference cl) = Some mt"
    and "merge_steps mp am cl bad mt = (mt', mcs)"
    and "Some ts \<in> set (mt_ticks mt')" and "t \<in> set (get_tagged_events ts)"
  shows "\<exists>c \<in> set (cl_base cl # cl_matching cl @ cl_mismatched cl). \<exists>ts0 \<in> set (ce_ticks c). \<exists>t0 \<in> set (get_tagged_events ts0).
    snd t = snd t0 \<and> blank_ticks (fst t) = blank_ticks (fst t0)"
proof -
  let ?cs = "cl_base cl # cl_matching cl @ cl_mismatched cl"
  define S where "S = {t0. \<exists>c \<in> set ?cs. \<exists>ts0 \<in> set (ce_ticks c). t0 \<in> set (get_tagged_events ts0)}"
  have "\<forall>c \<in> set ?cs. timeline_all (stems_from S) (map Some (ce_ticks c))"
    using stems_self [of _ S] by (simp add: timeline_all_def holds_all_def S_def) blast
  from stems.steps [OF assms(1) this, of mp am bad] assms(2) have "timeline_sound (stems_from S) (mt_ticks mt')" by simp
  with assms(3,4) have "stems_from S t" by (simp add: timeline_sound_def sound_tick_def holds_all_def)
  then obtain t0 where t0: "t0 \<in> S" "snd t = snd t0" "blank_ticks (fst t) = blank_ticks (fst t0)"
    by (auto simp: stems_from_def)
  from t0(1) obtain c ts0 where "c \<in> set ?cs" "ts0 \<in> set (ce_ticks c)" "t0 \<in> set (get_tagged_events ts0)"
    unfolding S_def by blast
  with t0(2,3) show ?thesis by blast
qed

subsection \<open>A merge does not throw\<close>

text \<open>The messages an event's type promises, which finalizing a merge reads.\<close>

definition event_complete :: "challenge_mode \<Rightarrow> tagged \<Rightarrow> bool" where
  "event_complete mode t \<longleftrightarrow>
     (let e = fst t in
      ev_type e \<notin> tick_state_types \<and>
      (ev_type e \<in> {NPC_SPAWN, NPC_DEATH} \<longrightarrow> ev_npc e \<noteq> None) \<and>
      (ev_type e = TOB_NYLO_WAVE_SPAWN \<longrightarrow> Option.bind (ev_nylo_wave e) (natural_stall_for_wave mode) \<noteq> None) \<and>
      (ev_type e = TOB_XARPUS_EXHUMED \<longrightarrow> ev_exhumed e \<noteq> None) \<and>
      (ev_type e \<in> {TOB_VERZIK_ATTACK_STYLE, TOB_VERZIK_BOUNCE, TOB_VERZIK_DAWN, MOKHAIOTL_ATTACK_STYLE} \<longrightarrow>
         ev_attack_tick e \<noteq> None))"

lemma remap_complete: "event_complete mode t \<Longrightarrow> \<exists>t'. remap_event_tick f t = Some t'"
  by (cases "ev_type (fst t)") (simp_all add: event_complete_def remap_event_tick_def remap_reference_def Let_def)

lemma remap_fields:
  assumes "remap_event_tick f t = Some t'"
  shows "ev_type (fst t') = ev_type (fst t)" "ev_npc (fst t') = ev_npc (fst t)" "ev_nylo_wave (fst t') = ev_nylo_wave (fst t)"
    "ev_exhumed (fst t') = None \<longleftrightarrow> ev_exhumed (fst t) = None" "ev_attack_tick (fst t') = None \<longleftrightarrow> ev_attack_tick (fst t) = None"
proof -
  have blank: "blank_ticks (fst t') = blank_ticks (fst t)" using remap_blank [OF assms] by simp
  from arg_cong [OF blank, of ev_type] arg_cong [OF blank, of ev_npc] arg_cong [OF blank, of ev_nylo_wave]
  show "ev_type (fst t') = ev_type (fst t)" "ev_npc (fst t') = ev_npc (fst t)" "ev_nylo_wave (fst t') = ev_nylo_wave (fst t)"
    by (simp_all add: blank_ticks_def)
  have "(ev_exhumed (fst t') = None \<longleftrightarrow> ev_exhumed (fst t) = None) \<and> (ev_attack_tick (fst t') = None \<longleftrightarrow> ev_attack_tick (fst t) = None)"
    using assms by (cases "ev_type (fst t)") (auto simp: remap_event_tick_def remap_reference_def Let_def split: if_splits)
  then show "ev_exhumed (fst t') = None \<longleftrightarrow> ev_exhumed (fst t) = None"
    "ev_attack_tick (fst t') = None \<longleftrightarrow> ev_attack_tick (fst t) = None" by simp_all
qed

interpretation complete: event_invariant "event_complete mode" for mode
proof
  show "remap_event_tick f t = Some t' \<Longrightarrow> event_complete mode t \<Longrightarrow> event_complete mode t'" for f t t'
    by (simp only: event_complete_def Let_def remap_fields simp_thms) (elim conjE, intro conjI; assumption)
  show "event_complete mode (e, src) \<Longrightarrow> event_complete mode (e\<lparr>ev_tick := i\<rparr>, src)" for e src i
    by (simp add: event_complete_def)
qed

lemma all_some_total: "(\<forall>x \<in> set xs. \<exists>y. x = Some y) \<Longrightarrow> \<exists>ys. all_some xs = Some ys"
  by (induction xs) auto

lemma shift_ticks_total:
  assumes "timeline_sound (event_complete mode) ticks"
  shows "\<exists>ticks'. shift_ticks offset i ticks = Some ticks' \<and> timeline_sound (event_complete mode) ticks'"
  using assms
proof (induction ticks arbitrary: i)
  case (Cons x ticks)
  then have "timeline_sound (event_complete mode) ticks" by (simp add: timeline_sound_def)
  then obtain rest where rest: "shift_ticks offset (Suc i) ticks = Some rest" "timeline_sound (event_complete mode) rest"
    using Cons.IH by blast
  show ?case
  proof (cases x)
    case None
    with rest show ?thesis by (auto simp: timeline_sound_def)
  next
    case (Some ts)
    with Cons.prems have complete: "\<forall>t \<in> set (get_tagged_events ts). event_complete mode t"
      by (simp add: timeline_sound_def sound_tick_def holds_all_def)
    then have "\<forall>y \<in> set (map (remap_event_tick (\<lambda>t. t + int offset)) (get_tagged_events ts)). \<exists>t. y = Some t"
      using remap_complete by fastforce
    from all_some_total [OF this] obtain es where es: "all_some (map (remap_event_tick (\<lambda>t. t + int offset)) (get_tagged_events ts)) = Some es"
      by blast
    have "\<forall>t \<in> set es. event_complete mode t"
    proof
      fix t assume "t \<in> set es"
      with es have "Some t \<in> set (map (remap_event_tick (\<lambda>t. t + int offset)) (get_tagged_events ts))" by (simp add: all_some_iff)
      then obtain t0 where "t0 \<in> set (get_tagged_events ts)" "remap_event_tick (\<lambda>t. t + int offset) t0 = Some t" by auto
      with complete show "event_complete mode t" using complete.remap by blast
    qed
    then obtain ts' where "shift_tick offset i ts = Some ts'" "sound_tick (event_complete mode) ts'"
      by (simp add: shift_tick_def es sound_new)
    with Some rest show ?thesis by (auto simp: timeline_sound_def)
  qed
qed (simp add: timeline_sound_def)

lemma end_align_total:
  assumes "timeline_sound (event_complete mode) (mt_ticks mt)"
  shows "\<exists>mt'. end_align_to_reference mt = Some mt' \<and> timeline_sound (event_complete mode) (mt_ticks mt') \<and> mt_cx mt' = mt_cx mt"
proof -
  from shift_ticks_total [OF assms] obtain ticks' where
    "shift_ticks (nat (rs_count (mt_reference mt) - (int (length (mt_ticks mt)) - 1))) 0 (mt_ticks mt) = Some ticks'"
    "timeline_sound (event_complete mode) ticks'" by blast
  with assms show ?thesis by (auto simp: end_align_to_reference_def Let_def timeline_sound_def)
qed

text \<open>After the ticks have been rewritten, what is left to read.\<close>

definition carries :: "challenge_mode \<Rightarrow> tick_state option \<Rightarrow> bool" where
  "carries mode x \<longleftrightarrow>
     (\<forall>e \<in> set (of_type NPC_SPAWN x) \<union> set (of_type NPC_DEATH x). ev_npc e \<noteq> None) \<and>
     (\<forall>e \<in> set (of_type TOB_NYLO_WAVE_SPAWN x). Option.bind (ev_nylo_wave e) (natural_stall_for_wave mode) \<noteq> None)"

lemma sound_carries: "timeline_sound (event_complete mode) ticks \<Longrightarrow> x \<in> set ticks \<Longrightarrow> carries mode x"
proof (cases x)
  case (Some ts)
  assume "timeline_sound (event_complete mode) ticks" "x \<in> set ticks"
  with Some have ts: "sound_tick (event_complete mode) ts" by (simp add: timeline_sound_def)
  have "event_complete mode t \<and> ev_type (fst t) = ty" if "t \<in> set (get_tagged_by_type ty ts)" for t ty
    using ts that by_type_events [of ty ts] by (auto simp: sound_tick_def holds_all_def)
  then show ?thesis by (fastforce simp: carries_def Some get_events_by_type_def event_complete_def Let_def)
qed (simp add: carries_def)

lemma of_type_resynchronize: "ty \<notin> tick_state_types \<Longrightarrow> of_type ty (Some (resynchronize pr stage ctx ts)) = of_type ty (Some ts)"
  by (simp add: resynchronize_other_events)

lemma fix_death_ids_by_type:
  "get_events_by_type ty (fix_death_ids prev ts) =
     (if ty = NPC_DEATH then map (\<lambda>t. fst (fix_death_id prev t)) (get_tagged_by_type ty ts) else get_events_by_type ty ts)"
proof -
  have "map_of (map (\<lambda>(t, es). (t, if t = NPC_DEATH then map (fix_death_id prev) es else es)) m) ty =
      map_option (\<lambda>es. if ty = NPC_DEATH then map (fix_death_id prev) es else es) (map_of m ty)" for m
    by (induction m) auto
  then show ?thesis
    by (auto simp: fix_death_ids_def get_events_by_type_def get_tagged_by_type_def split: option.splits)
qed

lemma resync_total:
  assumes "\<forall>x \<in> set ticks. carries mode x"
  shows "\<exists>ticks'. resync_from pr stage ctx ticks = Some ticks' \<and> (\<forall>x \<in> set ticks'. carries mode x)"
  using assms
proof (induction ticks arbitrary: ctx)
  case (Cons x ticks)
  show ?case
  proof (cases x)
    case None
    with Cons show ?thesis by (fastforce simp: carries_def)
  next
    case (Some ts)
    let ?t1 = "resynchronize pr stage ctx ts"
    let ?t2 = "fix_death_ids (rc_npcs ctx) ?t1"
    have same: "get_events_by_type ty ?t1 = get_events_by_type ty ts" if "ty \<in> {NPC_SPAWN, NPC_DEATH, TOB_NYLO_WAVE_SPAWN}" for ty
      using that by (intro resynchronize_other_events) (auto simp: type_classes)
    from Cons.prems Some have ts: "carries mode (Some ts)" by simp
    then have "\<not> list_ex (\<lambda>e. ev_npc e = None) (get_events_by_type NPC_DEATH ?t1)"
      by (auto simp: carries_def list_ex_iff same)
    moreover have "carries mode (Some ?t2)"
    proof -
      have "(\<exists>n. ev_npc (fst (fix_death_id prev t)) = Some n) \<longleftrightarrow> (\<exists>n. ev_npc (fst t) = Some n)" for prev t
        by (simp add: fix_death_id_def split: option.split)
      moreover have "\<forall>t \<in> set (get_tagged_by_type NPC_DEATH ?t1). ev_npc (fst t) \<noteq> None"
      proof -
        have "\<forall>e \<in> set (get_events_by_type NPC_DEATH ?t1). ev_npc e \<noteq> None" using ts same by (simp add: carries_def)
        then show ?thesis by (simp add: get_events_by_type_def)
      qed
      ultimately show ?thesis using ts same by (auto simp: carries_def fix_death_ids_by_type)
    qed
    moreover from Cons obtain rest where "resync_from pr stage (after_tick ?t2 ctx) ticks = Some rest" "\<forall>x \<in> set rest. carries mode x"
      by fastforce
    ultimately show ?thesis by (simp add: Some Let_def)
  qed
qed simp

lemma nylo_loop_total:
  assumes "\<forall>x \<in> set ticks. carries mode x"
  shows "nylo_loop mode w cap nst t ticks \<noteq> None"
  using assms
proof (induction ticks arbitrary: w cap nst t)
  case (Cons x rest)
  then have IH: "\<exists>ys. nylo_loop mode w cap nst t rest = Some ys" for w cap nst t by simp
  show ?case
  proof (cases "Option.bind x find_boss_npc"; cases "Option.bind x first_wave_spawn")
    fix e assume none: "Option.bind x find_boss_npc = None" and e: "Option.bind x first_wave_spawn = Some e"
    from e obtain ts where ts: "x = Some ts" "first_wave_spawn ts = Some e" by (cases x) auto
    then have "e \<in> set (of_type TOB_NYLO_WAVE_SPAWN x)" by (auto simp: first_wave_spawn_def split: list.splits)
    with Cons.prems have "Option.bind (ev_nylo_wave e) (natural_stall_for_wave mode) \<noteq> None" by (simp add: carries_def)
    then obtain v s where "ev_nylo_wave e = Some v" "natural_stall_for_wave mode v = Some s"
      by (cases "ev_nylo_wave e") auto
    with none e IH [of v "ev_room_cap e" "ev_tick e + s" "t + 1"] show ?thesis by auto
  next
    assume none: "Option.bind x find_boss_npc = None" "Option.bind x first_wave_spawn = None"
    obtain x' w' nst' where idle: "nylo_idle w cap nst t x = (x', w', nst')" by (metis prod_cases3)
    from IH [of w' cap nst' "t + 1"] show ?thesis by (auto simp: none idle)
  qed auto
qed simp

lemma finalize_total:
  assumes "timeline_sound (event_complete (ci_mode (cx_challenge (mt_cx mt)))) (mt_ticks mt)" and "\<not> mt_finalized mt"
  shows "\<exists>mt'. finalize_merge mp mt = Some mt' \<and> mt_finalized mt' \<and>
    (cx_stage (mt_cx mt) = TOB_MAIDEN \<longrightarrow> (\<forall>x \<in> set (mt_ticks mt'). carries (ci_mode (cx_challenge (mt_cx mt))) x))"
proof -
  let ?mode = "ci_mode (cx_challenge (mt_cx mt))" and ?stage = "cx_stage (mt_cx mt)"
  from end_align_total [OF assms(1)] obtain mt1 where mt1: "end_align_to_reference mt = Some mt1"
    "timeline_sound (event_complete ?mode) (mt_ticks mt1)" "mt_cx mt1 = mt_cx mt" by blast
  from resync_total [of "mt_ticks mt1" ?mode "mp_resync mp" ?stage] sound_carries [OF mt1(2)]
  obtain resynced where resynced: "resynchronize_ticks (mp_resync mp) ?stage (mt_ticks mt1) = Some resynced"
    "\<forall>x \<in> set resynced. carries ?mode x" unfolding resynchronize_ticks_def by blast
  have "derive_events ?stage ?mode resynced \<noteq> None"
    using nylo_loop_total [OF resynced(2)] by (simp add: derive_events_def derive_nylocas_def)
  then obtain derived where derived: "derive_events ?stage ?mode resynced = Some derived" by blast
  have "?stage = TOB_MAIDEN \<Longrightarrow> merge_stage_data (mt_cx mt) derived = resynced"
    using derived by (simp add: derive_events_def merge_stage_data_def)
  with mt1 resynced derived assms(2) show ?thesis by (simp add: finalize_merge_def)
qed

lemma maiden_spawn_in_total: "\<forall>e \<in> set es. ev_npc e \<noteq> None \<Longrightarrow> maiden_spawn_in k es \<noteq> None"
  by (induction k es rule: maiden_spawn_in.induct) auto

lemma correct_offset_total:
  assumes "\<forall>x \<in> set ticks. carries mode x"
  shows "correct_offset_maiden_spawn ticks \<noteq> None"
proof -
  have "first_maiden_event i ticks \<noteq> None" for i
    using assms
  proof (induction i ticks rule: first_maiden_event.induct)
    case (3 i ts rest)
    then have "maiden_spawn_in 0 (get_events_by_type NPC_SPAWN ts) \<noteq> None"
      by (intro maiden_spawn_in_total) (auto simp: carries_def)
    with 3 show ?case by (auto split: option.split)
  qed simp_all
  then show ?thesis by (auto simp: correct_offset_maiden_spawn_def Let_def split: option.split)
qed

lemma merge_steps_cx:
  assumes "new_merged_timeline (cl_base cl) (merge_context_for ch stage cs (cl_base cl)) (cl_reference cl) = Some mt"
  shows "cx_challenge (mt_cx (fst (merge_steps mp am cl bad mt))) = ch \<and> cx_stage (mt_cx (fst (merge_steps mp am cl bad mt))) = stage"
proof -
  define same where "same st st' \<longleftrightarrow> cx_challenge (mt_cx (fst st')) = cx_challenge (mt_cx (fst st)) \<and>
    cx_stage (mt_cx (fst st')) = cx_stage (mt_cx (fst st))" for st st' :: "merged_timeline \<times> merge_client list"
  have rec_one: "same st (record_merge_result c cls out st)" for c cls out st
    by (simp add: same_def record_merge_result_def Let_def)
  have attempt: "cx_challenge (mt_cx (snd (attempt_step mp c al m mt))) = cx_challenge (mt_cx mt) \<and>
      cx_stage (mt_cx (snd (attempt_step mp c al m mt))) = cx_stage (mt_cx mt)" for c al m mt
    by (simp add: attempt_step_def Let_def split: option.split)
  have "cx_challenge (mt_cx (snd (merge_events_from mp am c mt))) = cx_challenge (mt_cx mt) \<and>
      cx_stage (mt_cx (snd (merge_events_from mp am c mt))) = cx_stage (mt_cx mt)" for c mt
    by (simp add: merge_events_from_def attempt split: option.split)
  then have from_one: "same st (merge_from mp am cls c st)" for cls c st
    using rec_one [of "(snd (merge_events_from mp am c (fst st)), snd st)"] by (simp add: same_def merge_from_def split_beta)
  have folded: "same st (fold f cs st)" if "\<And>c st. same st (f c st)" for f and cs :: "client_events list" and st
    using that by (induction cs arbitrary: st) (simp_all add: same_def)
  let ?st = "record_merge_result (cl_base cl) REFERENCE (Step_Merged None, []) (mt, [])"
  have "same ?st (fold (merge_from mp am MATCHING) (cl_matching cl) ?st)" by (rule folded) (rule from_one)
  moreover have "same st (fold (merge_from mp am MISMATCHED) (cl_mismatched cl) st)" for st by (rule folded) (rule from_one)
  moreover have "same st (fold (\<lambda>c. record_merge_result c MISMATCHED (Step_Skipped, [])) bad st)" for st
    by (rule folded) (rule rec_one)
  moreover have "same (mt, []) ?st" by (rule rec_one)
  ultimately have "same (mt, []) (merge_steps mp am cl bad mt)" unfolding merge_steps_def same_def by metis
  with assms show ?thesis by (auto simp: same_def new_merged_timeline_def merge_context_for_def)
qed

lemma classified_clients_subset:
  assumes "classify_and_update clients = Some (cl, demoted, alerts)" and "clients \<noteq> []"
  shows "set (cl_base cl # cl_matching cl @ cl_mismatched cl) \<subseteq> set demoted"
    "c \<in> set demoted \<Longrightarrow> \<exists>c0 \<in> set clients. ce_ticks c = ce_ticks c0 \<and> get_final_tick c = get_final_tick c0"
proof -
  from assms(1) have d: "demoted = fst (demote_clients clients)" and r: "classify_clients demoted = Some cl"
    by (auto simp: classify_and_update_def split: prod.splits)
  have "cl_base cl \<in> set demoted"
  proof (cases "filter ce_accurate demoted = []")
    case True
    from inexact_selection_base(1) [OF classify_clients_Some(2) [OF r True]] show ?thesis .
  next
    case False
    from accurate_selection_Some(1) [OF classify_clients_Some(1) [OF r False]] show ?thesis by simp
  qed
  then show "set (cl_base cl # cl_matching cl @ cl_mismatched cl) \<subseteq> set demoted"
    by (auto simp: classify_clients_Some(3,4) [OF r])
  show "c \<in> set demoted \<Longrightarrow> \<exists>c0 \<in> set clients. ce_ticks c = ce_ticks c0 \<and> get_final_tick c = get_final_tick c0"
    by (force simp: d demote_clients_def Let_def set_accurate_def get_final_tick_def split: if_splits)
qed

lemma classify_and_update_total: "clients \<noteq> [] \<Longrightarrow> \<exists>cl demoted alerts. classify_and_update clients = Some (cl, demoted, alerts)"
proof -
  assume ne: "clients \<noteq> []"
  obtain demoted conflict where d: "demote_clients clients = (demoted, conflict)" by fastforce
  have "demoted \<noteq> []" using ne demoted_ids [of clients] d by auto
  then have "(if filter ce_accurate demoted \<noteq> [] then accurate_selection (filter ce_accurate demoted)
      else inexact_selection demoted) \<noteq> None"
    using accurate_selection_total inexact_selection_total by (auto split: if_split)
  then have "classify_clients demoted \<noteq> None" by (simp add: classify_clients_def Let_def)
  then obtain cl where "classify_clients demoted = Some cl" by blast
  then show ?thesis by (simp add: classify_and_update_def d)
qed

text \<open>C17: a merge of clients of which at least one has no bad data returns a result. It never throws when the recorded events carry
  the messages their types promise, whatever the clients disagree about: a step that throws only leaves its client out.\<close>

theorem merge_returns_report:
  assumes "c0 \<in> set inputs" and "\<not> has_anomaly BAD_DATA c0"
    and "\<And>c. c \<in> set inputs \<Longrightarrow> \<not> has_anomaly BAD_DATA c \<Longrightarrow> 0 \<le> get_final_tick c"
    and "\<And>c ts t. c \<in> set inputs \<Longrightarrow> \<not> has_anomaly BAD_DATA c \<Longrightarrow> ts \<in> set (ce_ticks c) \<Longrightarrow>
      t \<in> set (get_tagged_events ts) \<Longrightarrow> event_complete (ci_mode ch) t"
  shows "\<exists>r. merge mp am ch stage inputs = Some (Some r)"
proof -
  let ?cs = "sort_clients inputs"
  let ?good = "filter (\<lambda>c. \<not> has_anomaly BAD_DATA c) ?cs" and ?bad = "filter (has_anomaly BAD_DATA) ?cs"
  have good: "set ?good = {c \<in> set inputs. \<not> has_anomaly BAD_DATA c}" by (auto simp: sort_clients_def)
  then have ne: "?good \<noteq> []" using assms(1,2) by (metis (mono_tags, lifting) empty_iff empty_set mem_Collect_eq)
  then obtain cl demoted alerts where cl: "classify_and_update ?good = Some (cl, demoted, alerts)"
    using classify_and_update_total by blast
  let ?all = "cl_base cl # cl_matching cl @ cl_mismatched cl"
  have client: "\<exists>c1 \<in> set ?good. ce_ticks c = ce_ticks c1 \<and> get_final_tick c = get_final_tick c1" if "c \<in> set ?all" for c
    using classified_clients_subset [OF cl ne] that by blast
  obtain c1 where "c1 \<in> set inputs" "\<not> has_anomaly BAD_DATA c1" "get_final_tick (cl_base cl) = get_final_tick c1"
    using client [of "cl_base cl"] good by auto
  with assms(3) have "0 \<le> get_final_tick (cl_base cl)" by simp
  then obtain mt where mt: "new_merged_timeline (cl_base cl) (merge_context_for ch stage (with_demoted demoted ?cs) (cl_base cl))
      (cl_reference cl) = Some mt" by (simp add: new_merged_timeline_def initialize_base_ticks_def)
  have complete: "\<forall>c \<in> set ?all. timeline_all (event_complete (ci_mode ch)) (map Some (ce_ticks c))"
  proof
    fix c assume "c \<in> set ?all"
    then obtain c1 where "c1 \<in> set inputs" "\<not> has_anomaly BAD_DATA c1" "ce_ticks c = ce_ticks c1" using client good by blast
    with assms(4) show "timeline_all (event_complete (ci_mode ch)) (map Some (ce_ticks c))"
      by (auto simp: timeline_all_def holds_all_def)
  qed
  obtain mt1 mcs where steps: "merge_steps mp am cl ?bad mt = (mt1, mcs)" by fastforce
  have sound: "timeline_sound (event_complete (ci_mode ch)) (mt_ticks mt1)"
    using complete.steps [OF mt complete, of mp am ?bad] by (simp add: steps)
  have kept: "cx_challenge (mt_cx mt1) = ch" "cx_stage (mt_cx mt1) = stage" "\<not> mt_finalized mt1"
    using merge_steps_cx [OF mt, of mp am ?bad] merge_steps_keep [of mp am cl ?bad mt] mt
    by (auto simp: steps new_merged_timeline_def)
  from finalize_total [of mt1 mp] sound kept obtain mt2 where mt2: "finalize_merge mp mt1 = Some mt2" "mt_finalized mt2"
    "stage = TOB_MAIDEN \<longrightarrow> (\<forall>x \<in> set (mt_ticks mt2). carries (ci_mode ch) x)" by auto
  obtain mt3 where mt3: "postprocess stage mt2 = Some mt3" "mt_finalized mt3"
  proof (cases "stage = TOB_MAIDEN")
    case True
    with mt2 obtain ticks where "correct_offset_maiden_spawn (mt_ticks mt2) = Some ticks"
      using correct_offset_total [of "mt_ticks mt2" "ci_mode ch"] by auto
    with True mt2(2) that [of "mt2\<lparr>mt_ticks := ticks\<rparr>"] show ?thesis by (simp add: postprocess_def)
  qed (use mt2(2) that [of mt2] in \<open>simp add: postprocess_def\<close>)
  then obtain events where "to_merged_events mt3 = Some events" by (simp add: to_merged_events_def)
  with mt2 mt3 have "\<exists>r. finish_merge mp stage (cl_reference cl) alerts (mt1, mcs) = Some r" by (simp add: finish_merge_def)
  then show ?thesis using ne by (auto simp: merge_def Let_def cl mt steps)
qed

subsection \<open>Witnesses\<close>

lemma sample_input_events:
  assumes "ts \<in> set (ce_ticks (sample_input i acc n anomalies))"
  shows "set (get_tagged_events ts) \<subseteq> {(blank_event TOB_BLOAT_DOWN TOB_BLOAT 1 0 0, i)}"
  using assms by (auto simp: sample_input_def events_of_new_tick_state split: if_splits)

theorem merge_invents_no_event_witness:
  "\<exists>mt ts. new_merged_timeline (sample_input 3 True 2 []) (merge_context_for sample_challenge TOB_BLOAT sample_inputs
       (sample_input 3 True 2 [])) (mt_reference sample_timeline_start) = Some mt \<and> mt_ticks mt ! 1 = Some ts \<and>
     (\<forall>t \<in> set (get_tagged_events ts). snd t = 3)"
proof -
  let ?cl = "\<lparr>cl_base = sample_input 3 True 2 [], cl_matching = [], cl_mismatched = [],
    cl_reference = mt_reference sample_timeline_start\<rparr>"
  obtain mt where mt: "new_merged_timeline (cl_base ?cl) (merge_context_for sample_challenge TOB_BLOAT sample_inputs (cl_base ?cl))
      (cl_reference ?cl) = Some mt" "length (mt_ticks mt) = 3" "mt_ticks mt ! 1 = map_option clone_tick (get_tick_state 1 (cl_base ?cl))"
    by (simp add: new_merged_timeline_def initialize_base_ticks_def sample_input_def sample_info_def get_final_tick_def)
  obtain ts where ts: "mt_ticks mt ! 1 = Some ts"
    using mt(3) by (simp add: get_tick_state_def sample_input_def sample_info_def)
  have steps: "merge_steps sample_merge_params True ?cl [] mt =
      (fst (merge_steps sample_merge_params True ?cl [] mt), snd (merge_steps sample_merge_params True ?cl [] mt))" by simp
  have kept: "mt_ticks (fst (merge_steps sample_merge_params True ?cl [] mt)) = mt_ticks mt"
    by (simp add: merge_steps_def record_merge_result_def)
  have "Some ts \<in> set (mt_ticks mt)" using ts mt(2) nth_mem [of 1 "mt_ticks mt"] by simp
  then have ts': "Some ts \<in> set (mt_ticks (fst (merge_steps sample_merge_params True ?cl [] mt)))" by (simp add: kept)
  have "snd t = 3" if "t \<in> set (get_tagged_events ts)" for t
    using merge_invents_no_event [OF mt(1) steps ts' that] sample_input_events [of _ 3 True 2 "[]"] by fastforce
  with mt ts show ?thesis by (intro exI [of _ mt] exI [of _ ts]) simp
qed

theorem merge_returns_report_witness:
  "\<exists>r. merge sample_merge_params True sample_challenge TOB_BLOAT sample_inputs = Some (Some r)"
proof (rule merge_returns_report)
  show "sample_input 3 True 2 [] \<in> set sample_inputs" "\<not> has_anomaly BAD_DATA (sample_input 3 True 2 [])"
    by (simp_all add: sample_inputs_def sample_input_def has_anomaly_def)
  have inputs: "\<exists>i acc n anomalies. c = sample_input i acc n anomalies" if "c \<in> set sample_inputs" for c
    using that by (auto simp: sample_inputs_def)
  show "0 \<le> get_final_tick c" if "c \<in> set sample_inputs" for c
    using inputs [OF that] by (auto simp: sample_input_def get_final_tick_def)
  show "event_complete (ci_mode sample_challenge) t"
    if "c \<in> set sample_inputs" "ts \<in> set (ce_ticks c)" "t \<in> set (get_tagged_events ts)" for c ts t
    using inputs [OF that(1)] that(2,3) sample_input_events
    by (fastforce simp: event_complete_def blank_event_def type_classes)
qed

end
