(* ===== verification/Challenge_State.thy ===== *)
theory Challenge_State
  imports Client_Events
begin

text \<open>
  The state of a running challenge as the server and Redis hold it
  (\<^verbatim>\<open>challenge-server/redis-client.ts\<close>, \<^verbatim>\<open>challenge-server/event-processing/challenge-processor.ts\<close>): the
  enumerations, the complete state of a challenge, the hash of optional fields Redis keeps for it, and the partial
  updates that are applied to the hash. A \<open>Partial\<close> object is the list of its fields; writing it into a hash sets
  the fields with a value and deletes the ones that are null. The data of a challenge kind is the type variable.
\<close>

subsection \<open>Enumerations\<close>

datatype challenge_type = TOB | COX | TOA | COLOSSEUM | INFERNO | MOKHAIOTL

datatype challenge_status = IN_PROGRESS | CHALLENGE_COMPLETED | RESET | CHALLENGE_WIPED | ABANDONED

datatype melee_gear = UNKNOWN_GEAR | ELITE_VOID | BANDOS | TORVA | BLORVA | OATHPLATE | RADIANT_OATHPLATE

datatype lifecycle_state = INITIALIZING | ACTIVE | CLEANUP

datatype timeout_state = NO_TIMEOUT | STAGE_END_TIMEOUT | CHALLENGE_END_TIMEOUT | CLEANUP_TIMEOUT

datatype recording_type = SPECTATOR | PARTICIPANT

record player_info =
  pi_id :: int
  pi_gear :: melee_gear

record reported_times =
  rt_challenge :: int
  rt_overall :: "int option"

record challenge_timeout =
  to_timestamp :: int
  to_retries :: int
  to_interval :: int

record challenge_client =
  cc_user :: int
  cc_id :: int
  cc_token :: string
  cc_plugin :: string
  cc_runelite :: string
  cc_type :: recording_type
  cc_active :: bool
  cc_stage :: stage
  cc_attempt :: "int option"
  cc_stage_status :: stage_status
  cc_last_stage :: stage
  cc_last_attempt :: "int option"

subsection \<open>The state of a challenge\<close>

record 'c challenge_state =
  cs_id :: int
  cs_session :: int
  cs_uuid :: string
  cs_type :: challenge_type
  cs_mode :: challenge_mode
  cs_stage :: stage
  cs_attempt :: "int option"
  cs_status :: challenge_status
  cs_stage_status :: stage_status
  cs_party :: "string list"
  cs_players :: "player_info list"
  cs_deaths :: int
  cs_ticks :: int
  cs_reported_challenge :: "int option"
  cs_reported_overall :: "int option"
  cs_custom :: "'c option"
  cs_party_changed :: bool
  cs_state :: lifecycle_state
  cs_timeout :: timeout_state
  cs_processing :: "int option"

subsection \<open>The hash of a challenge\<close>

record 'c challenge_hash =
  ch_id :: "int option"
  ch_session :: "int option"
  ch_uuid :: "string option"
  ch_type :: "challenge_type option"
  ch_mode :: "challenge_mode option"
  ch_stage :: "stage option"
  ch_attempt :: "int option"
  ch_status :: "challenge_status option"
  ch_stage_status :: "stage_status option"
  ch_party :: "string list option"
  ch_players :: "player_info list option"
  ch_deaths :: "int option"
  ch_ticks :: "int option"
  ch_reported_challenge :: "int option"
  ch_reported_overall :: "int option"
  ch_custom :: "'c option"
  ch_party_changed :: "bool option"
  ch_state :: "lifecycle_state option"
  ch_timeout :: "timeout_state option"
  ch_processing :: "int option"

definition empty_hash :: "'c challenge_hash" where
  "empty_hash =
     \<lparr>ch_id = None, ch_session = None, ch_uuid = None, ch_type = None, ch_mode = None, ch_stage = None,
      ch_attempt = None, ch_status = None, ch_stage_status = None, ch_party = None, ch_players = None,
      ch_deaths = None, ch_ticks = None, ch_reported_challenge = None, ch_reported_overall = None,
      ch_custom = None, ch_party_changed = None, ch_state = None, ch_timeout = None, ch_processing = None\<rparr>"

subsection \<open>Partial updates\<close>

datatype 'c field =
    F_Id int | F_Session int | F_Uuid string | F_Type challenge_type | F_Mode challenge_mode | F_Stage stage
  | F_Attempt "int option" | F_Status challenge_status | F_Stage_Status stage_status | F_Party "string list"
  | F_Players "player_info list" | F_Deaths int | F_Ticks int | F_Reported_Challenge "int option"
  | F_Reported_Overall "int option" | F_Custom "'c option" | F_Party_Changed bool
  | F_State lifecycle_state | F_Timeout timeout_state | F_Processing "int option"

fun set_field :: "'c field \<Rightarrow> 'c challenge_hash \<Rightarrow> 'c challenge_hash" where
  "set_field (F_Id v) h = h\<lparr>ch_id := Some v\<rparr>"
| "set_field (F_Session v) h = h\<lparr>ch_session := Some v\<rparr>"
| "set_field (F_Uuid v) h = h\<lparr>ch_uuid := Some v\<rparr>"
| "set_field (F_Type v) h = h\<lparr>ch_type := Some v\<rparr>"
| "set_field (F_Mode v) h = h\<lparr>ch_mode := Some v\<rparr>"
| "set_field (F_Stage v) h = h\<lparr>ch_stage := Some v\<rparr>"
| "set_field (F_Attempt v) h = h\<lparr>ch_attempt := v\<rparr>"
| "set_field (F_Status v) h = h\<lparr>ch_status := Some v\<rparr>"
| "set_field (F_Stage_Status v) h = h\<lparr>ch_stage_status := Some v\<rparr>"
| "set_field (F_Party v) h = h\<lparr>ch_party := Some v\<rparr>"
| "set_field (F_Players v) h = h\<lparr>ch_players := Some v\<rparr>"
| "set_field (F_Deaths v) h = h\<lparr>ch_deaths := Some v\<rparr>"
| "set_field (F_Ticks v) h = h\<lparr>ch_ticks := Some v\<rparr>"
| "set_field (F_Reported_Challenge v) h = h\<lparr>ch_reported_challenge := v\<rparr>"
| "set_field (F_Reported_Overall v) h = h\<lparr>ch_reported_overall := v\<rparr>"
| "set_field (F_Custom v) h = h\<lparr>ch_custom := v\<rparr>"
| "set_field (F_Party_Changed v) h = h\<lparr>ch_party_changed := Some v\<rparr>"
| "set_field (F_State v) h = h\<lparr>ch_state := Some v\<rparr>"
| "set_field (F_Timeout v) h = h\<lparr>ch_timeout := Some v\<rparr>"
| "set_field (F_Processing v) h = h\<lparr>ch_processing := v\<rparr>"

definition set_fields :: "'c field list \<Rightarrow> 'c challenge_hash \<Rightarrow> 'c challenge_hash" where
  "set_fields fs h = fold set_field fs h"

text \<open>
  The key of a field. A \<open>Partial\<close> object is kept as the list of its assignments in order: setting a key a second time
  replaces the first value, and so does applying the list to a hash.
\<close>

fun field_name :: "'c field \<Rightarrow> string" where
  "field_name (F_Id v) = ''id''"
| "field_name (F_Session v) = ''sessionId''"
| "field_name (F_Uuid v) = ''uuid''"
| "field_name (F_Type v) = ''type''"
| "field_name (F_Mode v) = ''mode''"
| "field_name (F_Stage v) = ''stage''"
| "field_name (F_Attempt v) = ''stageAttempt''"
| "field_name (F_Status v) = ''status''"
| "field_name (F_Stage_Status v) = ''stageStatus''"
| "field_name (F_Party v) = ''party''"
| "field_name (F_Players v) = ''players''"
| "field_name (F_Deaths v) = ''totalDeaths''"
| "field_name (F_Ticks v) = ''challengeTicks''"
| "field_name (F_Reported_Challenge v) = ''reportedChallengeTicks''"
| "field_name (F_Reported_Overall v) = ''reportedOverallTicks''"
| "field_name (F_Custom v) = ''customData''"
| "field_name (F_Party_Changed v) = ''partyChangedMidChallenge''"
| "field_name (F_State v) = ''state''"
| "field_name (F_Timeout v) = ''timeoutState''"
| "field_name (F_Processing v) = ''processingStage''"

subsection \<open>Reading a hash\<close>

text \<open>
  A challenge without fields is null (\<^term>\<open>Some None\<close>). Reading a hash that lacks its party or its players throws
  (\<^const>\<open>None\<close>). A hash with these two that lacks a number would be read with \<open>NaN\<close>; no writer leaves one behind,
  and the model reads it as \<^const>\<open>None\<close> too. The optional fields read as null when they are absent, the flag as false.
\<close>

definition challenge_from_hash :: "'c challenge_hash \<Rightarrow> 'c challenge_state option option" where
  "challenge_from_hash h =
     (if h = empty_hash then Some None
      else case (ch_id h, ch_session h, ch_uuid h, ch_type h, ch_mode h, ch_stage h, ch_status h, ch_stage_status h) of
        (Some i, Some si, Some u, Some ty, Some m, Some st, Some status, Some ss) \<Rightarrow>
          (case (ch_party h, ch_players h, ch_deaths h, ch_ticks h, ch_state h, ch_timeout h) of
             (Some party, Some players, Some deaths, Some ticks, Some state, Some timeout) \<Rightarrow>
               Some (Some
                 \<lparr>cs_id = i, cs_session = si, cs_uuid = u, cs_type = ty, cs_mode = m, cs_stage = st,
                  cs_attempt = ch_attempt h, cs_status = status, cs_stage_status = ss, cs_party = party,
                  cs_players = players, cs_deaths = deaths, cs_ticks = ticks,
                  cs_reported_challenge = ch_reported_challenge h, cs_reported_overall = ch_reported_overall h,
                  cs_custom = ch_custom h, cs_party_changed = (ch_party_changed h = Some True),
                  cs_state = state, cs_timeout = timeout, cs_processing = ch_processing h\<rparr>)
           | _ \<Rightarrow> None)
      | _ \<Rightarrow> None)"

definition state_fields :: "'c challenge_state \<Rightarrow> 'c field list" where
  "state_fields s =
     [F_Id (cs_id s), F_Session (cs_session s), F_Uuid (cs_uuid s), F_Type (cs_type s), F_Mode (cs_mode s),
      F_Stage (cs_stage s), F_Attempt (cs_attempt s), F_Status (cs_status s), F_Stage_Status (cs_stage_status s),
      F_Party (cs_party s), F_Players (cs_players s), F_Deaths (cs_deaths s), F_Ticks (cs_ticks s),
      F_Reported_Challenge (cs_reported_challenge s), F_Reported_Overall (cs_reported_overall s),
      F_Custom (cs_custom s), F_Party_Changed (cs_party_changed s), F_State (cs_state s), F_Timeout (cs_timeout s),
      F_Processing (cs_processing s)]"

lemma set_fields_simps [simp]:
  "set_fields [] h = h" "set_fields (f # fs) h = set_fields fs (set_field f h)"
  "set_fields (fs @ gs) h = set_fields gs (set_fields fs h)"
  by (simp_all add: set_fields_def)

lemma set_field_not_empty_state: "ch_state h = Some st \<Longrightarrow> h \<noteq> empty_hash"
  by (auto simp: empty_hash_def)

text \<open>A complete state written field by field into any hash is read back as it was.\<close>

lemma challenge_from_state_fields: "challenge_from_hash (set_fields (state_fields s) h) = Some (Some s)"
proof -
  have "ch_state (set_fields (state_fields s) h) = Some (cs_state s)" by (simp add: state_fields_def)
  then have "set_fields (state_fields s) h \<noteq> empty_hash" by (rule set_field_not_empty_state)
  then show ?thesis by (simp add: challenge_from_hash_def state_fields_def)
qed

end
