(* ===== verification/Challenge_Db.thy ===== *)
theory Challenge_Db
  imports Challenge_State "HOL-Library.Multiset"
begin

text \<open>
  The relational data of challenges (\<^verbatim>\<open>challenge-server/event-processing/challenge-processor.ts\<close>,
  \<^verbatim>\<open>challenge-server/players.ts\<close>, \<^verbatim>\<open>common/split.ts\<close>): the tables the challenge server writes, as lists of rows in
  insertion order, the queries and updates on sessions, players, splits and personal bests, and the numbering of
  splits by raid mode. The numbers of the modes and the hash of a party come from generated code and from a library
  and are parameters.
\<close>

subsection \<open>Names of players\<close>

definition char_between :: "char \<Rightarrow> char \<Rightarrow> char \<Rightarrow> bool" where
  "char_between a b c \<longleftrightarrow> of_char a \<le> (of_char c :: nat) \<and> (of_char c :: nat) \<le> of_char b"

definition lower_char :: "char \<Rightarrow> char" where
  "lower_char c = (if char_between CHR ''A'' CHR ''Z'' c then char_of (of_char c + (32 :: nat)) else c)"

definition normalize_rsn :: "string \<Rightarrow> string" where
  "normalize_rsn name =
     map (\<lambda>c. if lower_char c = CHR ''-'' \<or> lower_char c = CHR '' '' then CHR ''_'' else lower_char c) name"

definition rsn_char :: "char \<Rightarrow> bool" where
  "rsn_char c \<longleftrightarrow> char_between CHR ''a'' CHR ''z'' c \<or> char_between CHR ''A'' CHR ''Z'' c \<or> is_digit c \<or>
     c = CHR ''_'' \<or> c = CHR ''-''"

text \<open>\<^verbatim>\<open>/^[a-zA-Z0-9_-]([a-zA-Z0-9 _-]{0,10}[a-zA-Z0-9_-])?$/\<close>\<close>

definition is_valid_rsn :: "string \<Rightarrow> bool" where
  "is_valid_rsn name \<longleftrightarrow>
     (case name of [] \<Rightarrow> False
      | c # cs \<Rightarrow> rsn_char c \<and>
          (cs = [] \<or> length cs \<le> 11 \<and> rsn_char (last cs) \<and> list_all (\<lambda>d. rsn_char d \<or> d = CHR '' '') (butlast cs)))"

subsection \<open>Splits\<close>

definition generic_tob_splits :: "int list" where
  "generic_tob_splits = map (\<lambda>k. 3 * int k) [0..<38]"

definition adjust_split_for_mode :: "int \<Rightarrow> challenge_mode \<Rightarrow> int" where
  "adjust_split_for_mode split mode =
     (if split \<in> set generic_tob_splits
      then split + (if mode = TOB_REGULAR then 1 else if mode = TOB_HARD then 2 else 0)
      else split)"

definition generalize_split :: "int \<Rightarrow> int" where
  "generalize_split split = (if 0 \<le> split \<and> split \<le> 113 then split - split mod 3 else split)"

definition all_split_modes :: "int \<Rightarrow> int list" where
  "all_split_modes split =
     (let s = generalize_split split in if s \<in> set generic_tob_splits then [s, s + 1, s + 2] else [s])"

subsection \<open>Tables\<close>

datatype session_status = SESSION_ACTIVE | SESSION_COMPLETED | SESSION_HIDDEN

record session_row =
  sn_id :: int
  sn_type :: challenge_type
  sn_mode :: challenge_mode
  sn_scale :: nat
  sn_hash :: string
  sn_start :: int
  sn_end :: "int option"
  sn_status :: session_status

record challenge_row =
  ck_id :: int
  ck_uuid :: string
  ck_type :: challenge_type
  ck_mode :: challenge_mode
  ck_scale :: nat
  ck_stage :: stage
  ck_status :: challenge_status
  ck_start :: int
  ck_session :: int
  ck_ticks :: int
  ck_overall :: "int option"
  ck_deaths :: int
  ck_finish :: "int option"
  ck_full :: bool

record challenge_player_row =
  cp_challenge :: int
  cp_player :: int
  cp_name :: string
  cp_orb :: nat
  cp_gear :: melee_gear
  cp_deaths :: "stage list"

record split_row =
  sp_id :: int
  sp_challenge :: int
  sp_type :: int
  sp_scale :: nat
  sp_ticks :: int
  sp_accurate :: bool

record pb_row =
  pb_player :: int
  pb_split :: int
  pb_created :: int

record player_row =
  pl_id :: int
  pl_username :: string
  pl_normalized :: string
  pl_recordings :: int

text \<open>A row of player statistics: the columns that were never written hold their default 0.\<close>

record stats_row =
  st_player :: int
  st_date :: int
  st_values :: "string \<Rightarrow> int"

record recorder_row =
  ro_challenge :: int
  ro_user :: int
  ro_type :: recording_type

record queryable_row =
  qe_challenge :: int
  qe_type :: event_type
  qe_stage :: stage
  qe_mode :: challenge_mode
  qe_tick :: int
  qe_x :: int
  qe_y :: int
  qe_subtype :: "int option"
  qe_player :: "int option"
  qe_npc :: "int option"
  qe_int_1 :: "int option"
  qe_int_2 :: "int option"
  qe_short_1 :: "int option"
  qe_short_2 :: "int option"

record bloat_down_row =
  bd_challenge :: int
  bd_number :: int
  bd_tick :: int
  bd_walk :: int
  bd_accurate :: bool

record bloat_hand_row =
  bh_challenge :: int
  bh_wave :: int
  bh_tile :: int
  bh_chunk :: int
  bh_order :: nat

record saved_stage =
  sv_uuid :: string
  sv_stage :: stage
  sv_party :: "string list"
  sv_attempt :: "int option"
  sv_events :: "event list"

record db =
  d_sessions :: "session_row list"
  d_challenges :: "challenge_row list"
  d_challenge_players :: "challenge_player_row list"
  d_splits :: "split_row list"
  d_pbs :: "pb_row list"
  d_players :: "player_row list"
  d_stats :: "stats_row list"
  d_recorders :: "recorder_row list"
  d_queryable :: "queryable_row list"
  d_saved :: "saved_stage list"
  d_kind_stats :: "int \<Rightarrow> string \<Rightarrow> int list"
  d_bloat_downs :: "bloat_down_row list"
  d_bloat_hands :: "bloat_hand_row list"
  d_next :: int

definition empty_db :: db where
  "empty_db =
     \<lparr>d_sessions = [], d_challenges = [], d_challenge_players = [], d_splits = [], d_pbs = [], d_players = [],
      d_stats = [], d_recorders = [], d_queryable = [], d_saved = [], d_kind_stats = (\<lambda>_ _. []),
      d_bloat_downs = [], d_bloat_hands = [], d_next = 1\<rparr>"

text \<open>\<^const>\<open>d_next\<close> is the next value of the identity columns, one sequence for all tables.\<close>

subsection \<open>Players\<close>

text \<open>\<^verbatim>\<open>Players.startChallenge\<close>; an invalid name that is not in the table throws.\<close>

definition start_challenge :: "string \<Rightarrow> db \<Rightarrow> int option \<times> db" where
  "start_challenge name d =
     (case List.find (\<lambda>r. pl_normalized r = normalize_rsn name) (d_players d) of
        Some r \<Rightarrow>
          (Some (pl_id r),
           d\<lparr>d_players := map (\<lambda>q. if pl_normalized q = normalize_rsn name then q\<lparr>pl_recordings := pl_recordings q + 1\<rparr> else q)
             (d_players d)\<rparr>)
      | None \<Rightarrow>
          (if is_valid_rsn name
           then (Some (d_next d),
             d\<lparr>d_players := d_players d @
                 [\<lparr>pl_id = d_next d, pl_username = name, pl_normalized = normalize_rsn name, pl_recordings = 1\<rparr>],
               d_next := d_next d + 1\<rparr>)
           else (None, d)))"

definition lookup_ids :: "string list \<Rightarrow> db \<Rightarrow> int list" where
  "lookup_ids names d =
     List.map_filter (\<lambda>n. map_option pl_id (List.find (\<lambda>r. pl_normalized r = n) (d_players d))) (map normalize_rsn names)"

definition latest_stats :: "int \<Rightarrow> stats_row list \<Rightarrow> stats_row option" where
  "latest_stats pid rows =
     (case sort_key (\<lambda>r. - st_date r) (filter (\<lambda>r. st_player r = pid) rows) of [] \<Rightarrow> None | r # _ \<Rightarrow> Some r)"

definition add_increments :: "(string, int) omap \<Rightarrow> (string \<Rightarrow> int) \<Rightarrow> string \<Rightarrow> int" where
  "add_increments incs v k = v k + (case map_of incs k of None \<Rightarrow> 0 | Some n \<Rightarrow> n)"

definition update_stats :: "int \<Rightarrow> int \<Rightarrow> (string, int) omap \<Rightarrow> db \<Rightarrow> db" where
  "update_stats today pid incs d =
     (case latest_stats pid (d_stats d) of
        None \<Rightarrow> d\<lparr>d_stats := d_stats d @ [\<lparr>st_player = pid, st_date = today, st_values = add_increments incs (\<lambda>_. 0)\<rparr>]\<rparr>
      | Some r \<Rightarrow>
          (if st_date r \<noteq> today
           then d\<lparr>d_stats := d_stats d @ [r\<lparr>st_date := today, st_values := add_increments incs (st_values r)\<rparr>]\<rparr>
           else d\<lparr>d_stats := map (\<lambda>q. if st_player q = pid \<and> st_date q = today
               then q\<lparr>st_values := add_increments incs (st_values q)\<rparr> else q) (d_stats d)\<rparr>))"

subsection \<open>Sessions\<close>

datatype session_field = S_End int | S_Mode challenge_mode | S_Status session_status

fun set_session_field :: "session_field \<Rightarrow> session_row \<Rightarrow> session_row" where
  "set_session_field (S_End t) r = r\<lparr>sn_end := Some t\<rparr>"
| "set_session_field (S_Mode m) r = r\<lparr>sn_mode := m\<rparr>"
| "set_session_field (S_Status s) r = r\<lparr>sn_status := s\<rparr>"

definition update_session :: "int \<Rightarrow> session_field list \<Rightarrow> db \<Rightarrow> db" where
  "update_session sid fs d =
     d\<lparr>d_sessions := map (\<lambda>r. if sn_id r = sid then fold set_session_field fs r else r) (d_sessions d)\<rparr>"

definition session_challenges :: "int \<Rightarrow> db \<Rightarrow> challenge_row list" where
  "session_challenges sid d = filter (\<lambda>r. ck_session r = sid) (d_challenges d)"

text \<open>\<^verbatim>\<open>GROUP BY mode ORDER BY COUNT(*) DESC, mode ASC LIMIT 1\<close>\<close>

definition most_frequent_mode :: "(challenge_mode \<Rightarrow> int) \<Rightarrow> challenge_row list \<Rightarrow> challenge_mode option" where
  "most_frequent_mode num rows =
     (case sort_key (\<lambda>m. - int (length (filter (\<lambda>r. ck_mode r = m) rows))) (sort_key num (remdups (map ck_mode rows))) of
        [] \<Rightarrow> None | m # _ \<Rightarrow> Some m)"

definition last_finish_time :: "challenge_row list \<Rightarrow> int option" where
  "last_finish_time rows =
     (case List.map_filter ck_finish rows of [] \<Rightarrow> None | t # ts \<Rightarrow> Some (fold max ts t))"

text \<open>The result tells whether the session was updated; a session without challenges is deleted.\<close>

definition finalize_session_with :: "(challenge_mode \<Rightarrow> int) \<Rightarrow> int option \<Rightarrow> int \<Rightarrow> db \<Rightarrow> bool \<times> db" where
  "finalize_session_with num default_end sid d =
     (let rows = session_challenges sid d in
      if rows = [] then (False, d\<lparr>d_sessions := filter (\<lambda>r. sn_id r \<noteq> sid) (d_sessions d)\<rparr>)
      else
        (let only = (case remdups (map ck_status rows) of [s] \<Rightarrow> Some s | _ \<Rightarrow> None);
             status = (if only = Some ABANDONED then SESSION_HIDDEN else SESSION_COMPLETED);
             ended = (case last_finish_time rows of Some t \<Rightarrow> [S_End t]
               | None \<Rightarrow> (case default_end of Some t \<Rightarrow> [S_End t] | None \<Rightarrow> []));
             mode = (case most_frequent_mode num rows of Some m \<Rightarrow> (if num m \<noteq> 0 then [S_Mode m] else []) | None \<Rightarrow> [])
         in (True, update_session sid (S_Status status # ended @ mode) d)))"

definition finalize_session :: "(challenge_mode \<Rightarrow> int) \<Rightarrow> int \<Rightarrow> db \<Rightarrow> bool \<times> db" where
  "finalize_session num sid d = finalize_session_with num None sid d"

definition session_activity_duration_ms :: int where
  "session_activity_duration_ms = 30 * 60 * 1000"

definition load_expiring_sessions :: "int \<Rightarrow> db \<Rightarrow> session_row list" where
  "load_expiring_sessions now d =
     filter (\<lambda>r. sn_status r = SESSION_ACTIVE \<and>
         (case sn_end r of Some t \<Rightarrow> t < now - session_activity_duration_ms
          | None \<Rightarrow> sn_start r < now - session_activity_duration_ms))
       (d_sessions d)"

subsection \<open>Recorders\<close>

definition recording_rank :: "recording_type \<Rightarrow> nat" where
  "recording_rank t = (case t of SPECTATOR \<Rightarrow> 0 | PARTICIPANT \<Rightarrow> 1)"

text \<open>An upsert that keeps the greater recording type; a challenge that is not in the table throws.\<close>

definition add_recorder :: "string \<Rightarrow> int \<Rightarrow> recording_type \<Rightarrow> db \<Rightarrow> bool \<times> db" where
  "add_recorder uuid user ty d =
     (case List.find (\<lambda>r. ck_uuid r = uuid) (d_challenges d) of
        None \<Rightarrow> (False, d)
      | Some c \<Rightarrow>
          (True,
           if \<exists>r \<in> set (d_recorders d). ro_challenge r = ck_id c \<and> ro_user r = user
           then d\<lparr>d_recorders := map (\<lambda>r. if ro_challenge r = ck_id c \<and> ro_user r = user \<and>
                   recording_rank (ro_type r) < recording_rank ty then r\<lparr>ro_type := ty\<rparr> else r) (d_recorders d)\<rparr>
           else d\<lparr>d_recorders := d_recorders d @ [\<lparr>ro_challenge = ck_id c, ro_user = user, ro_type = ty\<rparr>]\<rparr>))"

subsection \<open>Splits and personal bests\<close>

record challenge_split =
  cl_type :: int
  cl_ticks :: int
  cl_accurate :: bool

text \<open>
  The insert fails as a whole, and the code goes on with no splits, when a type of the challenge is already in the
  table or occurs twice (the unique constraint on challenge and type).
\<close>

definition insert_splits :: "int \<Rightarrow> challenge_mode \<Rightarrow> nat \<Rightarrow> challenge_split list \<Rightarrow> db \<Rightarrow> split_row list \<times> db" where
  "insert_splits cid mode scale splits d =
     (let rows = map (\<lambda>(i, s). \<lparr>sp_id = d_next d + int i, sp_challenge = cid,
            sp_type = adjust_split_for_mode (cl_type s) mode, sp_scale = scale, sp_ticks = cl_ticks s,
            sp_accurate = cl_accurate s\<rparr>) (enumerate 0 splits);
          taken = map sp_type (filter (\<lambda>r. sp_challenge r = cid) (d_splits d))
      in if splits = [] then ([], d)
         else if distinct (map sp_type rows @ taken)
         then (rows, d\<lparr>d_splits := d_splits d @ rows, d_next := d_next d + int (length splits)\<rparr>)
         else ([], d))"

definition split_by_id :: "db \<Rightarrow> int \<Rightarrow> split_row option" where
  "split_by_id d i = List.find (\<lambda>s. sp_id s = i) (d_splits d)"

text \<open>
  The current personal best: of the history rows of the player whose split has the type and the scale the one
  created last, by the order of the creation times and, where they agree, of insertion.
\<close>

definition pb_times :: "db \<Rightarrow> int \<Rightarrow> int \<Rightarrow> nat \<Rightarrow> int list" where
  "pb_times d pid ty scale =
     List.map_filter
       (\<lambda>h. case split_by_id d (pb_split h) of
          Some s \<Rightarrow> (if sp_type s = ty \<and> sp_scale s = scale then Some (sp_ticks s) else None) | None \<Rightarrow> None)
       (sort_key pb_created (filter (\<lambda>h. pb_player h = pid) (d_pbs d)))"

definition current_pb :: "db \<Rightarrow> int \<Rightarrow> int \<Rightarrow> nat \<Rightarrow> int option" where
  "current_pb d pid ty scale = (case pb_times d pid ty scale of [] \<Rightarrow> None | ts \<Rightarrow> Some (last ts))"

definition new_pb_rows :: "int \<Rightarrow> nat \<Rightarrow> int list \<Rightarrow> split_row list \<Rightarrow> db \<Rightarrow> pb_row list" where
  "new_pb_rows now scale pids splits d =
     concat (map (\<lambda>s. List.map_filter
         (\<lambda>pid. if (case current_pb d pid (sp_type s) scale of None \<Rightarrow> True | Some t \<Rightarrow> sp_ticks s < t)
            then Some \<lparr>pb_player = pid, pb_split = sp_id s, pb_created = now\<rparr> else None) pids)
       (filter sp_accurate splits))"

definition update_personal_bests :: "int \<Rightarrow> nat \<Rightarrow> int list \<Rightarrow> split_row list \<Rightarrow> db \<Rightarrow> db" where
  "update_personal_bests now scale pids splits d = d\<lparr>d_pbs := d_pbs d @ new_pb_rows now scale pids splits d\<rparr>"

subsection \<open>Splits of the raid modes\<close>

lemma generic_tob_split_iff: "s \<in> set generic_tob_splits \<longleftrightarrow> s mod 3 = 0 \<and> 0 \<le> s \<and> s \<le> 111"
proof
  assume "s mod 3 = 0 \<and> 0 \<le> s \<and> s \<le> 111"
  then have "s = 3 * int (nat (s div 3))" "nat (s div 3) < 38" by auto
  then show "s \<in> set generic_tob_splits"
    unfolding generic_tob_splits_def by (metis (no_types, lifting) atLeastLessThan_iff image_eqI le0 set_map set_upt)
qed (auto simp: generic_tob_splits_def)

lemma generalize_adjust_split: "s \<in> set generic_tob_splits \<Longrightarrow> generalize_split (adjust_split_for_mode s m) = s"
proof -
  assume g: "s \<in> set generic_tob_splits"
  then have s: "s mod 3 = 0" "0 \<le> s" "s \<le> 111" by (simp_all add: generic_tob_split_iff)
  then have "(s + 1) mod 3 = 1" "(s + 2) mod 3 = 2" by presburger+
  with g s show ?thesis by (auto simp: generalize_split_def adjust_split_for_mode_def)
qed

subsection \<open>Personal bests\<close>

lemma sort_key_append_top:
  assumes "\<forall>x \<in> set xs. f x \<le> n" and "\<forall>y \<in> set ys. f y = n"
  shows "sort_key f (xs @ ys) = sort_key f xs @ ys"
proof (rule properties_for_sort_key)
  show "mset (sort_key f xs @ ys) = mset (xs @ ys)" by simp
  show "filter (\<lambda>x. f k = f x) (sort_key f xs @ ys) = filter (\<lambda>x. f k = f x) (xs @ ys)" for k
    using sort_key_stable [of f "f k" xs] by (simp add: eq_commute [of "f k"])
  have "sorted (map f ys)" using assms(2) by (induction ys) auto
  with assms show "sorted (map f (sort_key f xs @ ys))" by (auto simp: sorted_append)
qed

text \<open>The improving splits of a player, and the rows they give.\<close>

definition improves :: "db \<Rightarrow> int \<Rightarrow> nat \<Rightarrow> split_row \<Rightarrow> bool" where
  "improves d pid scale s \<longleftrightarrow>
     (case current_pb d pid (sp_type s) scale of None \<Rightarrow> True | Some t \<Rightarrow> sp_ticks s < t)"

lemma map_filter_player:
  "distinct pids \<Longrightarrow>
     filter (\<lambda>h. pb_player h = pid)
       (List.map_filter (\<lambda>q. if P q then Some \<lparr>pb_player = q, pb_split = i, pb_created = now\<rparr> else None) pids) =
     (if pid \<in> set pids \<and> P pid then [\<lparr>pb_player = pid, pb_split = i, pb_created = now\<rparr>] else [])"
  by (induction pids) (auto simp: map_filter_simps)

lemma new_rows_of_player:
  assumes "distinct pids"
  shows "filter (\<lambda>h. pb_player h = pid) (new_pb_rows now scale pids splits d) =
    (if pid \<in> set pids
     then map (\<lambda>s. \<lparr>pb_player = pid, pb_split = sp_id s, pb_created = now\<rparr>)
        (filter (improves d pid scale) (filter sp_accurate splits))
     else [])"
proof -
  have "filter (\<lambda>h. pb_player h = pid) (concat (map (\<lambda>s. List.map_filter
         (\<lambda>q. if improves d q scale s then Some \<lparr>pb_player = q, pb_split = sp_id s, pb_created = now\<rparr> else None) pids) ss)) =
     (if pid \<in> set pids
      then map (\<lambda>s. \<lparr>pb_player = pid, pb_split = sp_id s, pb_created = now\<rparr>) (filter (improves d pid scale) ss) else [])"
    for ss
    using assms by (induction ss) (simp_all add: map_filter_player)
  then show ?thesis by (simp add: new_pb_rows_def improves_def)
qed

definition splits_stored :: "nat \<Rightarrow> split_row list \<Rightarrow> db \<Rightarrow> bool" where
  "splits_stored scale splits d \<longleftrightarrow> list_all (\<lambda>s. split_by_id d (sp_id s) = Some s \<and> sp_scale s = scale) splits"

definition pb_entry :: "db \<Rightarrow> int \<Rightarrow> nat \<Rightarrow> pb_row \<Rightarrow> int option" where
  "pb_entry d ty scale h =
     (case split_by_id d (pb_split h) of
        Some s \<Rightarrow> (if sp_type s = ty \<and> sp_scale s = scale then Some (sp_ticks s) else None) | None \<Rightarrow> None)"

lemma pb_entry_rows:
  "splits_stored scale ss d \<Longrightarrow>
     List.map_filter (pb_entry d ty scale) (map (\<lambda>s. \<lparr>pb_player = pid, pb_split = sp_id s, pb_created = now\<rparr>) ss) =
     map sp_ticks (filter (\<lambda>s. sp_type s = ty) ss)"
  by (induction ss) (simp_all add: map_filter_simps splits_stored_def pb_entry_def)

lemma pb_times_update:
  assumes "distinct pids" and "\<forall>h \<in> set (d_pbs d). pb_created h \<le> now" and "splits_stored scale splits d"
  shows "pb_times (update_personal_bests now scale pids splits d) pid ty scale =
    pb_times d pid ty scale @
      (if pid \<in> set pids
       then map sp_ticks (filter (\<lambda>s. sp_type s = ty) (filter (improves d pid scale) (filter sp_accurate splits))) else [])"
proof -
  let ?d' = "update_personal_bests now scale pids splits d"
  let ?old = "filter (\<lambda>h. pb_player h = pid) (d_pbs d)"
  let ?new = "filter (\<lambda>h. pb_player h = pid) (new_pb_rows now scale pids splits d)"
  have created: "\<forall>h \<in> set ?new. pb_created h = now"
    by (auto simp: new_rows_of_player [OF assms(1)])
  have srt: "sort_key pb_created (?old @ ?new) = sort_key pb_created ?old @ ?new"
    using assms(2) created by (intro sort_key_append_top) auto
  have entry: "pb_entry ?d' ty scale = pb_entry d ty scale"
    by (rule ext) (simp add: pb_entry_def split_by_id_def update_personal_bests_def)
  have "splits_stored scale (filter (improves d pid scale) (filter sp_accurate splits)) d"
    using assms(3) by (simp add: splits_stored_def list_all_iff)
  note rows = pb_entry_rows [OF this, of ty pid now]
  have times: "pb_times e pid ty scale =
      List.map_filter (pb_entry e ty scale) (sort_key pb_created (filter (\<lambda>h. pb_player h = pid) (d_pbs e)))" for e
    by (simp add: pb_times_def pb_entry_def [abs_def])
  have pbs: "filter (\<lambda>h. pb_player h = pid) (d_pbs ?d') = ?old @ ?new"
    by (simp add: update_personal_bests_def)
  show ?thesis
    unfolding times pbs srt entry map_filter_append
    using rows by (simp add: new_rows_of_player [OF assms(1)] map_filter_simps)
qed

lemma distinct_types_single:
  "distinct (map sp_type ss) \<Longrightarrow> s \<in> set ss \<Longrightarrow> filter (\<lambda>r. sp_type r = sp_type s) ss = [s]"
proof (induction ss)
  case (Cons a ss)
  have "filter (\<lambda>r. sp_type r = sp_type a) ss = []"
    using Cons.prems(1) by (auto simp: filter_empty_conv image_iff)
  moreover have "sp_type a \<noteq> sp_type s" if "s \<in> set ss" using Cons.prems(1) that by auto
  ultimately show ?case using Cons by auto
qed simp

text \<open>
  C15: After the personal bests are updated with the splits of a stage, the current best of every player of the party for
  a split among them is the smaller of the new time and the old best; a player outside the party, and a split that
  is not among the accurate ones, keeps its best. The history is only ever extended.
\<close>

theorem personal_bests_improve:
  assumes "distinct pids" and "\<forall>h \<in> set (d_pbs d). pb_created h \<le> now" and "splits_stored scale splits d"
    and "distinct (map sp_type (filter sp_accurate splits))"
  shows "current_pb (update_personal_bests now scale pids splits d) pid ty scale =
      (case List.find (\<lambda>s. sp_accurate s \<and> sp_type s = ty) splits of
         Some s \<Rightarrow> (if pid \<in> set pids
           then Some (case current_pb d pid ty scale of None \<Rightarrow> sp_ticks s | Some t \<Rightarrow> min t (sp_ticks s))
           else current_pb d pid ty scale)
       | None \<Rightarrow> current_pb d pid ty scale)"
proof (cases "List.find (\<lambda>s. sp_accurate s \<and> sp_type s = ty) splits")
  case None
  then have "filter (\<lambda>s. sp_type s = ty) (filter (improves d pid scale) (filter sp_accurate splits)) = []"
    by (auto simp: find_None_iff filter_empty_conv)
  with None show ?thesis
    using pb_times_update [OF assms(1-3), of pid ty] by (simp add: current_pb_def)
next
  case (Some s)
  then have s: "sp_accurate s" "sp_type s = ty" "s \<in> set splits" by (auto simp: find_Some_iff)
  then have "filter (\<lambda>r. sp_type r = ty) (filter sp_accurate splits) = [s]"
    using distinct_types_single [OF assms(4), of s] by auto
  then have one: "filter (\<lambda>r. sp_type r = ty) (filter (improves d pid scale) (filter sp_accurate splits)) =
      (if improves d pid scale s then [s] else [])"
  proof -
    have "filter (\<lambda>r. sp_type r = ty) (filter (improves d pid scale) (filter sp_accurate splits)) =
        filter (improves d pid scale) (filter (\<lambda>r. sp_type r = ty) (filter sp_accurate splits))"
      by (simp add: conj_commute conj_left_commute)
    with \<open>_ = [s]\<close> show ?thesis by simp
  qed
  have "current_pb d pid ty scale = (case pb_times d pid ty scale of [] \<Rightarrow> None | ts \<Rightarrow> Some (last ts))"
    by (simp add: current_pb_def)
  then show ?thesis
    using pb_times_update [OF assms(1-3), of pid ty] Some s(2) one
    by (auto simp: current_pb_def improves_def split: list.splits)
qed

subsection \<open>Player statistics\<close>

definition stats_keyed :: "stats_row list \<Rightarrow> bool" where
  "stats_keyed rows \<longleftrightarrow> distinct (map (\<lambda>r. (st_player r, st_date r)) rows)"

lemma stats_keyed_eq: "stats_keyed rows \<Longrightarrow> r \<in> set rows \<Longrightarrow> q \<in> set rows \<Longrightarrow> st_player r = st_player q \<Longrightarrow>
    st_date r = st_date q \<Longrightarrow> r = q"
  by (auto simp: stats_keyed_def distinct_map inj_on_def)

lemma latest_stats_iff:
  assumes "stats_keyed rows"
  shows "latest_stats pid rows = Some r \<longleftrightarrow>
    r \<in> set rows \<and> st_player r = pid \<and> (\<forall>q \<in> set rows. st_player q = pid \<longrightarrow> st_date q \<le> st_date r)"
proof -
  let ?own = "filter (\<lambda>r. st_player r = pid) rows"
  let ?srt = "sort_key (\<lambda>r. - st_date r) ?own"
  have mem: "set ?srt = set ?own" by simp
  have srt: "sorted (map (\<lambda>r. - st_date r) ?srt)" by (rule sorted_sort_key)
  show ?thesis
  proof (cases ?srt)
    case Nil
    then have "?own = []" by (metis set_empty mem)
    then show ?thesis using Nil by (auto simp: latest_stats_def filter_empty_conv)
  next
    case (Cons q qs)
    then have q: "q \<in> set rows" "st_player q = pid" using mem by auto
    have top: "st_date x \<le> st_date q" if "x \<in> set rows" "st_player x = pid" for x
    proof -
      have "x \<in> set (q # qs)" using that mem Cons by auto
      with srt Cons show ?thesis by auto
    qed
    have "latest_stats pid rows = Some q" using Cons by (simp add: latest_stats_def)
    moreover have "r = q" if "r \<in> set rows" "st_player r = pid" "\<forall>x \<in> set rows. st_player x = pid \<longrightarrow> st_date x \<le> st_date r"
      using that q top stats_keyed_eq [OF assms, of r q] by (metis order_antisym)
    ultimately show ?thesis using q top by auto
  qed
qed

lemma latest_stats_None: "latest_stats pid rows = None \<longleftrightarrow> (\<forall>r \<in> set rows. st_player r \<noteq> pid)"
proof -
  have "sort_key (\<lambda>r. - st_date r) (filter (\<lambda>r. st_player r = pid) rows) = [] \<longleftrightarrow> filter (\<lambda>r. st_player r = pid) rows = []"
    by (metis length_0_conv length_sort)
  then show ?thesis by (auto simp: latest_stats_def filter_empty_conv split: list.splits)
qed

definition stats_of :: "int \<Rightarrow> db \<Rightarrow> string \<Rightarrow> int" where
  "stats_of pid d = (case latest_stats pid (d_stats d) of None \<Rightarrow> (\<lambda>_. 0) | Some r \<Rightarrow> st_values r)"

text \<open>The statistics of a player are cumulative: after an update on a day that is not before the player's last row the
  latest row is of that day, and every column is its value before plus the increment; no other player's latest
  row changes, and there is still one row for a player and a day.
\<close>

theorem update_stats_accumulates:
  assumes "stats_keyed (d_stats d)" and "\<forall>r \<in> set (d_stats d). st_player r = pid \<longrightarrow> st_date r \<le> today"
  shows "map_option st_date (latest_stats pid (d_stats (update_stats today pid incs d))) = Some today \<and>
      stats_of pid (update_stats today pid incs d) = add_increments incs (stats_of pid d) \<and>
      (\<forall>other. other \<noteq> pid \<longrightarrow> stats_of other (update_stats today pid incs d) = stats_of other d) \<and>
      stats_keyed (d_stats (update_stats today pid incs d))"
proof -
  let ?d = "update_stats today pid incs d"
  have *: "stats_keyed (d_stats ?d) \<and> (\<exists>r. latest_stats pid (d_stats ?d) = Some r \<and> st_date r = today \<and>
      st_values r = add_increments incs (stats_of pid d)) \<and>
      (\<forall>other. other \<noteq> pid \<longrightarrow> filter (\<lambda>r. st_player r = other) (d_stats ?d) = filter (\<lambda>r. st_player r = other) (d_stats d))"
  proof (cases "latest_stats pid (d_stats d)")
    case None
    let ?r = "\<lparr>st_player = pid, st_date = today, st_values = add_increments incs (\<lambda>_. 0)\<rparr>"
    have rows: "d_stats ?d = d_stats d @ [?r]" using None by (simp add: update_stats_def)
    have keyed: "stats_keyed (d_stats ?d)"
      using assms(1) None by (auto simp: rows stats_keyed_def latest_stats_None)
    moreover have "latest_stats pid (d_stats ?d) = Some ?r"
      unfolding latest_stats_iff [OF keyed] using None by (auto simp: rows latest_stats_None)
    ultimately show ?thesis using None by (simp add: rows stats_of_def)
  next
    case (Some r)
    then have r: "r \<in> set (d_stats d)" "st_player r = pid"
      "\<forall>q \<in> set (d_stats d). st_player q = pid \<longrightarrow> st_date q \<le> st_date r"
      by (auto simp: latest_stats_iff [OF assms(1)])
    show ?thesis
    proof (cases "st_date r = today")
      case False
      let ?r = "r\<lparr>st_date := today, st_values := add_increments incs (st_values r)\<rparr>"
      have rows: "d_stats ?d = d_stats d @ [?r]" using Some False by (simp add: update_stats_def)
      have "st_date r < today" using False assms(2) r by force
      then have "(pid, today) \<notin> (\<lambda>r. (st_player r, st_date r)) ` set (d_stats d)" using r(3) by fastforce
      then have keyed: "stats_keyed (d_stats ?d)" using assms(1) r(2) by (simp add: rows stats_keyed_def)
      moreover have "latest_stats pid (d_stats ?d) = Some ?r"
        unfolding latest_stats_iff [OF keyed] using assms(2) r by (auto simp: rows)
      ultimately show ?thesis using Some r by (simp add: rows stats_of_def)
    next
      case True
      let ?f = "\<lambda>q :: stats_row. if st_player q = pid \<and> st_date q = today then q\<lparr>st_values := add_increments incs (st_values q)\<rparr> else q"
      have rows: "d_stats ?d = map ?f (d_stats d)" using Some True by (simp add: update_stats_def)
      have "map (\<lambda>r. (st_player r, st_date r)) (map ?f rs) = map (\<lambda>r. (st_player r, st_date r)) rs" for rs
        by (induction rs) auto
      then have keyed: "stats_keyed (d_stats ?d)" using assms(1) by (simp only: rows stats_keyed_def)
      moreover have "latest_stats pid (d_stats ?d) = Some (?f r)"
        unfolding latest_stats_iff [OF keyed] using r True by (auto simp: rows)
      moreover have "filter (\<lambda>r. st_player r = other) (map ?f rs) = filter (\<lambda>r. st_player r = other) rs"
        if "other \<noteq> pid" for other rs
        using that by (induction rs) auto
      ultimately show ?thesis using Some r True by (simp add: rows stats_of_def)
    qed
  qed
  moreover have "stats_of other ?d = stats_of other d"
    if "filter (\<lambda>r. st_player r = other) (d_stats ?d) = filter (\<lambda>r. st_player r = other) (d_stats d)" for other
    using that by (simp add: stats_of_def latest_stats_def)
  ultimately show ?thesis by (auto simp: stats_of_def [of pid ?d])
qed

subsection \<open>Examples\<close>

definition sample_split :: "int \<Rightarrow> int \<Rightarrow> int \<Rightarrow> bool \<Rightarrow> split_row" where
  "sample_split i ty ticks acc = \<lparr>sp_id = i, sp_challenge = 1, sp_type = ty, sp_scale = 1, sp_ticks = ticks, sp_accurate = acc\<rparr>"

definition sample_pb_db :: db where
  "sample_pb_db = empty_db\<lparr>d_splits := [sample_split 1 152 200 True, sample_split 2 153 90 True, sample_split 3 152 180 True],
     d_pbs := [\<lparr>pb_player = 7, pb_split = 1, pb_created = 10\<rparr>, \<lparr>pb_player = 7, pb_split = 2, pb_created = 10\<rparr>]\<rparr>"

theorem personal_bests_improve_witness:
  "current_pb (update_personal_bests 20 1 [7, 8] [sample_split 3 152 180 True] sample_pb_db) 7 152 1 = Some 180 \<and>
   current_pb sample_pb_db 7 152 1 = Some 200"
proof -
  have old: "current_pb sample_pb_db 7 152 1 = Some 200"
    by (simp add: sample_pb_db_def empty_db_def current_pb_def pb_times_def map_filter_simps split_by_id_def sample_split_def)
  show ?thesis
    using personal_bests_improve [of "[7, 8]" sample_pb_db 20 1 "[sample_split 3 152 180 True]" 7 152] old
    by (simp add: sample_pb_db_def empty_db_def splits_stored_def split_by_id_def sample_split_def)
qed

definition sample_stats_db :: db where
  "sample_stats_db = empty_db\<lparr>d_stats :=
     [\<lparr>st_player = 7, st_date = 3, st_values = (\<lambda>k. if k = ''deaths'' then 4 else 0)\<rparr>]\<rparr>"

theorem update_stats_accumulates_witness:
  "stats_of 7 (update_stats 5 7 [(''deaths'', 2)] sample_stats_db) ''deaths'' = 6"
proof -
  have "stats_of 7 sample_stats_db = (\<lambda>k. if k = ''deaths'' then 4 else 0)"
    by (simp add: stats_of_def latest_stats_def sample_stats_db_def empty_db_def)
  moreover have "stats_of 7 (update_stats 5 7 [(''deaths'', 2)] sample_stats_db) =
      add_increments [(''deaths'', 2)] (stats_of 7 sample_stats_db)"
    using update_stats_accumulates [of sample_stats_db 7 5 "[(''deaths'', 2)]"]
    by (simp add: sample_stats_db_def empty_db_def stats_keyed_def)
  ultimately show ?thesis by (simp add: add_increments_def)
qed

end
