(* ===== verification/Queryable.thy ===== *)
theory Queryable
  imports Challenge_Db Merged_Events "HOL-Library.Monad_Syntax"
begin

text \<open>
  The rows of queryable events a stage writes (\<^verbatim>\<open>writeQueryableEvents\<close> of
  \<^verbatim>\<open>challenge-server/event-processing/challenge-processor.ts\<close>, the columns from \<^verbatim>\<open>common/db/queryable-event.ts\<close>).
  An event whose type promises a sub-message it lacks makes the code throw, which is \<^const>\<open>None\<close>; a type that is not
  queryable gives no row.
\<close>

record room_npc =
  rn_room :: int
  rn_spawn_id :: int
  rn_spawn_tick :: int
  rn_spawn_point :: coords
  rn_death_tick :: int
  rn_death_point :: coords
  rn_subtype :: "npc_subtype option"

type_synonym room_npcs = "(int, room_npc) omap"

text \<open>What the rows of a stage share: the challenge, the current stage, the mode, the party and the rooms of the stage.\<close>

record query_context =
  qc_challenge :: int
  qc_stage :: stage
  qc_mode :: challenge_mode
  qc_party :: "string list"
  qc_players :: "player_info list"
  qc_npcs :: room_npcs

fun index_of :: "'a \<Rightarrow> 'a list \<Rightarrow> nat option" where
  "index_of x [] = None"
| "index_of x (y # ys) = (if y = x then Some 0 else map_option Suc (index_of x ys))"

lemma index_of_Some: "index_of x ys = Some i \<Longrightarrow> i < length ys \<and> ys ! i = x"
  by (induction ys arbitrary: i) (auto split: if_splits)

lemma index_of_None: "index_of x ys = None \<longleftrightarrow> x \<notin> set ys"
  by (induction ys) auto

definition player_id_of :: "query_context \<Rightarrow> string \<Rightarrow> int option" where
  "player_id_of q name = map_option (\<lambda>i. pi_id (qc_players q ! i)) (index_of name (qc_party q))"

definition base_row :: "query_context \<Rightarrow> event \<Rightarrow> queryable_row" where
  "base_row q e =
     \<lparr>qe_challenge = qc_challenge q, qe_type = ev_type e, qe_stage = qc_stage q, qe_mode = qc_mode q,
      qe_tick = ev_tick e, qe_x = ev_x e, qe_y = ev_y e, qe_subtype = None, qe_player = None, qe_npc = None,
      qe_int_1 = None, qe_int_2 = None, qe_short_1 = None, qe_short_2 = None\<rparr>"

text \<open>The number of the kind of a room NPC: basic, Maiden crab, Nylo or Verzik crab.\<close>

fun room_npc_type :: "npc_subtype option \<Rightarrow> int" where
  "room_npc_type None = 0"
| "room_npc_type (Some (Maiden_Crab c)) = 1"
| "room_npc_type (Some (Nylo n)) = 2"
| "room_npc_type (Some (Verzik_Crab c)) = 3"

fun subtype_columns :: "npc_subtype option \<Rightarrow> queryable_row \<Rightarrow> queryable_row" where
  "subtype_columns None r = r"
| "subtype_columns (Some (Maiden_Crab c)) r = r\<lparr>qe_short_1 := Some (mc_spawn c), qe_short_2 := Some (mc_position c)\<rparr>"
| "subtype_columns (Some (Nylo n)) r = r\<lparr>qe_short_1 := Some (ny_spawn_type n), qe_short_2 := Some (ny_style n)\<rparr>"
| "subtype_columns (Some (Verzik_Crab c)) r = r\<lparr>qe_short_1 := Some (vc_phase c), qe_short_2 := Some (vc_spawn c)\<rparr>"

definition attack_row :: "query_context \<Rightarrow> event \<Rightarrow> queryable_row option" where
  "attack_row q e =
     do { a \<leftarrow> ev_player_attack e;
          pl \<leftarrow> ev_player e;
          Some ((base_row q e)\<lparr>qe_subtype := Some (am_type a), qe_player := player_id_of q (pm_name pl),
            qe_short_1 := Some (am_distance a), qe_npc := map_option fst (am_target a), qe_int_1 := am_weapon_id a\<rparr>) }"

definition spell_row :: "query_context \<Rightarrow> event \<Rightarrow> queryable_row option" where
  "spell_row q e =
     do { s \<leftarrow> ev_player_spell e;
          pl \<leftarrow> ev_player e;
          Some ((base_row q e)\<lparr>qe_subtype := Some (sm_type s), qe_player := player_id_of q (pm_name pl),
            qe_int_1 := Option.bind (sm_target_player s) (player_id_of q), qe_npc := map_option fst (sm_target_npc s)\<rparr>) }"

definition npc_row :: "query_context \<Rightarrow> event \<Rightarrow> queryable_row option" where
  "npc_row q e =
     do { n \<leftarrow> ev_npc e;
          let r = (base_row q e)\<lparr>qe_npc := Some (nm_id n)\<rparr>;
          Some (case map_of (qc_npcs q) (nm_room_id n) of
              None \<Rightarrow> r
            | Some rn \<Rightarrow> subtype_columns (rn_subtype rn) (r\<lparr>qe_subtype := Some (room_npc_type (rn_subtype rn))\<rparr>)) }"

definition npc_attack_row :: "query_context \<Rightarrow> event \<Rightarrow> queryable_row option" where
  "npc_attack_row q e =
     do { a \<leftarrow> ev_npc_attack e;
          n \<leftarrow> ev_npc e;
          Some ((base_row q e)\<lparr>qe_subtype := Some (na_attack a), qe_npc := Some (nm_id n),
            qe_player := Option.bind (na_target a) (player_id_of q)\<rparr>) }"

text \<open>A leak of a crab whose spawn was not seen gives no row.\<close>

definition crab_leak_row :: "query_context \<Rightarrow> event \<Rightarrow> queryable_row option option" where
  "crab_leak_row q e =
     do { n \<leftarrow> ev_npc e;
          Some (case map_of (qc_npcs q) (nm_room_id n) of
              Some rn \<Rightarrow>
                (case rn_subtype rn of
                   Some (Maiden_Crab c) \<Rightarrow>
                     (let hp = skill_from_raw (nm_hitpoints n) in
                      Some ((base_row q e)\<lparr>qe_npc := Some (nm_id n), qe_short_1 := Some (mc_spawn c),
                        qe_short_2 := Some (mc_position c), qe_int_1 := Some (sk_current hp),
                        qe_int_2 := Some (sk_base hp)\<rparr>))
                 | _ \<Rightarrow> None)
            | None \<Rightarrow> None) }"

text \<open>The row of an event: throws, no row, or a row.\<close>

definition queryable_row_of :: "query_context \<Rightarrow> event \<Rightarrow> queryable_row option option" where
  "queryable_row_of q e =
     (case ev_type e of
        PLAYER_ATTACK \<Rightarrow> map_option Some (attack_row q e)
      | PLAYER_SPELL \<Rightarrow> map_option Some (spell_row q e)
      | PLAYER_DEATH \<Rightarrow>
          do { pl \<leftarrow> ev_player e;
               Some (map_option (\<lambda>i. (base_row q e)\<lparr>qe_player := Some i\<rparr>) (player_id_of q (pm_name pl))) }
      | NPC_SPAWN \<Rightarrow> map_option Some (npc_row q e)
      | NPC_DEATH \<Rightarrow> map_option Some (npc_row q e)
      | NPC_ATTACK \<Rightarrow> map_option Some (npc_attack_row q e)
      | TOB_MAIDEN_CRAB_LEAK \<Rightarrow> crab_leak_row q e
      | TOB_BLOAT_DOWN \<Rightarrow>
          Some (Some ((base_row q e)\<lparr>qe_short_1 := Some (fst (ev_bloat_down e)),
            qe_short_2 := Some (snd (ev_bloat_down e) - 1)\<rparr>))
      | TOB_NYLO_WAVE_STALL \<Rightarrow>
          do { w \<leftarrow> ev_nylo_wave e;
               Some (Some ((base_row q e)\<lparr>qe_short_1 := Some w, qe_short_2 := Some (ev_nylos_alive e)\<rparr>)) }
      | TOB_XARPUS_EXHUMED \<Rightarrow>
          do { x \<leftarrow> ev_exhumed e;
               Some (Some ((base_row q e)\<lparr>qe_tick := fst x, qe_short_1 := Some (int (length (snd x)))\<rparr>)) }
      | TOB_VERZIK_BOUNCE \<Rightarrow>
          Some (Some ((base_row q e)\<lparr>
            qe_player := (if ev_bounced_player e = [] then None else player_id_of q (ev_bounced_player e)),
            qe_short_1 := Some (fst (ev_bounce_counts e)), qe_short_2 := Some (snd (ev_bounce_counts e))\<rparr>))
      | TOB_VERZIK_HEAL \<Rightarrow>
          do { pl \<leftarrow> ev_heal_player e;
               Some (Some ((base_row q e)\<lparr>qe_player := player_id_of q pl, qe_short_1 := Some (ev_heal_amount e)\<rparr>)) }
      | TOB_VERZIK_DAWN_DROP \<Rightarrow>
          do { dropped \<leftarrow> ev_dawn_dropped e;
               Some (Some ((base_row q e)\<lparr>qe_subtype := Some (if dropped then 1 else 0)\<rparr>)) }
      | COLOSSEUM_SOL_GRAPPLE \<Rightarrow>
          Some (Some ((base_row q e)\<lparr>
            qe_player := (if qc_party q \<noteq> [] then Some (pi_id (qc_players q ! 0)) else None),
            qe_short_1 := Some (fst (ev_grapple e)), qe_short_2 := Some (snd (ev_grapple e))\<rparr>))
      | _ \<Rightarrow> Some None)"

fun all_options :: "'a option list \<Rightarrow> 'a list option" where
  "all_options [] = Some []"
| "all_options (x # xs) = do { y \<leftarrow> x; ys \<leftarrow> all_options xs; Some (y # ys) }"

text \<open>The rows go to the database only when every event gave its row; the events at and after the bound are left out.\<close>

definition queryable_rows :: "query_context \<Rightarrow> int \<Rightarrow> event list \<Rightarrow> queryable_row list option" where
  "queryable_rows q until es =
     map_option (List.map_filter id) (all_options (map (queryable_row_of q) (filter (\<lambda>e. ev_tick e < until) es)))"

definition write_queryable_events :: "query_context \<Rightarrow> int \<Rightarrow> event list \<Rightarrow> db \<Rightarrow> db option" where
  "write_queryable_events q until es d =
     map_option (\<lambda>rows. d\<lparr>d_queryable := d_queryable d @ rows\<rparr>) (queryable_rows q until es)"

end
