(* ===== verification/Processor.thy ===== *)
theory Processor
  imports Queryable "HOL-Library.List_Lexorder" "HOL-Library.Char_ord"
begin

text \<open>
  The challenge processor (\<^verbatim>\<open>challenge-server/event-processing/challenge-processor.ts\<close>): the state of a challenge while it
  is processed, the updates it collects, the processing of the merged events of a stage, and the end of a challenge.
  The abstract methods of the class are the record \<open>hooks\<close>; the data of a challenge kind, with the fields a stage does not
  keep, is the type variable. A method that throws gives \<^const>\<open>None\<close> or \<^const>\<open>False\<close> next to the database it leaves behind.
  Statements the code starts together (\<^verbatim>\<open>Promise.all\<close>) run in the order they are written. Logging and metrics are left out;
  writing the stage's events to the repository is taken to succeed.
\<close>

subsection \<open>Parameters\<close>

record proc_params =
  pp_stage :: "stage \<Rightarrow> int"
  pp_mode :: "challenge_mode \<Rightarrow> int"
  pp_hash :: "string \<Rightarrow> string"
  pp_torso :: int
  pp_head :: int

subsection \<open>State\<close>

record stage_data =
  sg_deaths :: "string list"
  sg_npcs :: room_npcs
  sg_written :: "nat list"
  sg_stats :: "(string, int) omap list"

record 'c processor =
  pr_uuid :: string
  pr_type :: challenge_type
  pr_first :: stage
  pr_last :: stage
  pr_id :: int
  pr_session :: int
  pr_mode :: challenge_mode
  pr_status :: challenge_status
  pr_stage :: stage
  pr_stage_status :: stage_status
  pr_attempt :: "int option"
  pr_party :: "string list"
  pr_players :: "player_info list"
  pr_ticks :: int
  pr_deaths :: int
  pr_reported :: "reported_times option"
  pr_party_changed :: bool
  pr_stage_splits :: "(int, int \<times> int \<times> bool) omap"
  pr_challenge_splits :: "(int, int \<times> bool option) omap"
  pr_room :: stage_data
  pr_db_updates :: "'c field list"
  pr_redis_updates :: "'c field list"
  pr_custom :: 'c

text \<open>
  \<^const>\<open>sg_written\<close> holds the positions of the events to write, since a later event may rewrite an earlier one. The split
  maps hold tick, start and whether completion is required, and ticks and accuracy.
\<close>

record 'c hooks =
  hk_type :: challenge_type
  hk_first :: stage
  hk_last :: stage
  hk_initial :: 'c
  hk_custom_data :: "'c \<Rightarrow> 'c"
  hk_retriable :: "stage \<Rightarrow> bool"
  hk_recorded :: "'c \<Rightarrow> stage \<Rightarrow> bool"
  hk_create :: "'c processor \<Rightarrow> db \<Rightarrow> db"
  hk_event :: "event list \<Rightarrow> nat \<Rightarrow> 'c processor \<Rightarrow> db \<Rightarrow> bool option \<times> event list \<times> 'c processor \<times> db"
  hk_stage :: "stage \<Rightarrow> merged_events \<Rightarrow> 'c processor \<Rightarrow> db \<Rightarrow> 'c processor \<times> db"
  hk_final_ticks :: "'c processor \<Rightarrow> int"
  hk_finish :: "int \<Rightarrow> int \<Rightarrow> 'c processor \<Rightarrow> db \<Rightarrow> 'c processor \<times> db"

definition initial_stage_data :: "string list \<Rightarrow> stage_data" where
  "initial_stage_data party =
     \<lparr>sg_deaths = [], sg_npcs = [], sg_written = [], sg_stats = map (\<lambda>_. []) party\<rparr>"

definition new_processor :: "'c hooks \<Rightarrow> string \<Rightarrow> challenge_mode \<Rightarrow> stage \<Rightarrow> string list \<Rightarrow> 'c processor" where
  "new_processor hk uuid mode stage party =
     \<lparr>pr_uuid = uuid, pr_type = hk_type hk, pr_first = hk_first hk, pr_last = hk_last hk, pr_id = - 1,
      pr_session = - 1, pr_mode = mode, pr_status = IN_PROGRESS, pr_stage = stage, pr_stage_status = ENTERED,
      pr_attempt = None, pr_party = party, pr_players = map (\<lambda>_. \<lparr>pi_id = - 1, pi_gear = UNKNOWN_GEAR\<rparr>) party,
      pr_ticks = 0, pr_deaths = 0, pr_reported = None, pr_party_changed = False, pr_stage_splits = [],
      pr_challenge_splits = [], pr_room = initial_stage_data party, pr_db_updates = [], pr_redis_updates = [],
      pr_custom = hk_initial hk\<rparr>"

definition load_processor :: "'c hooks \<Rightarrow> 'c challenge_state \<Rightarrow> 'c processor" where
  "load_processor hk s =
     \<lparr>pr_uuid = cs_uuid s, pr_type = hk_type hk, pr_first = hk_first hk, pr_last = hk_last hk, pr_id = cs_id s,
      pr_session = cs_session s, pr_mode = cs_mode s, pr_status = cs_status s, pr_stage = cs_stage s,
      pr_stage_status = cs_stage_status s, pr_attempt = cs_attempt s, pr_party = cs_party s,
      pr_players = cs_players s, pr_ticks = cs_ticks s, pr_deaths = cs_deaths s,
      pr_reported = map_option (\<lambda>c. \<lparr>rt_challenge = c, rt_overall = cs_reported_overall s\<rparr>) (cs_reported_challenge s),
      pr_party_changed = cs_party_changed s, pr_stage_splits = [], pr_challenge_splits = [],
      pr_room = initial_stage_data (cs_party s), pr_db_updates = [], pr_redis_updates = [],
      pr_custom = (case cs_custom s of None \<Rightarrow> hk_initial hk | Some c \<Rightarrow> hk_custom_data hk c)\<rparr>"

definition get_state :: "'c hooks \<Rightarrow> 'c processor \<Rightarrow> 'c field list" where
  "get_state hk p =
     [F_Id (pr_id p), F_Session (pr_session p), F_Uuid (pr_uuid p), F_Type (pr_type p), F_Mode (pr_mode p),
      F_Stage (pr_stage p), F_Attempt (pr_attempt p), F_Status (pr_status p), F_Stage_Status (pr_stage_status p),
      F_Party (pr_party p), F_Ticks (pr_ticks p), F_Deaths (pr_deaths p),
      F_Reported_Challenge (map_option rt_challenge (pr_reported p)),
      F_Reported_Overall (Option.bind (pr_reported p) rt_overall), F_Players (pr_players p),
      F_Party_Changed (pr_party_changed p), F_Custom (Some (hk_custom_data hk (pr_custom p)))]"

subsection \<open>Updates\<close>

definition is_modifiable_key :: "string \<Rightarrow> bool" where
  "is_modifiable_key k \<longleftrightarrow> k \<in> set [''challengeTicks'', ''mode'', ''stage'', ''status'', ''totalDeaths'']"

definition prepare_update :: "'c field \<Rightarrow> 'c processor \<Rightarrow> 'c processor" where
  "prepare_update f p =
     (if is_modifiable_key (field_name f) then p\<lparr>pr_db_updates := pr_db_updates p @ [f]\<rparr>
      else p\<lparr>pr_redis_updates := pr_redis_updates p @ [f]\<rparr>)"

definition set_mode :: "challenge_mode \<Rightarrow> 'c processor \<Rightarrow> 'c processor" where
  "set_mode m p =
     (if m \<noteq> NO_MODE \<and> m \<noteq> pr_mode p then prepare_update (F_Mode m) (p\<lparr>pr_mode := m\<rparr>) else p)"

definition update_party :: "string list \<Rightarrow> 'c processor \<Rightarrow> 'c processor" where
  "update_party party p =
     (let changed = length party \<noteq> length (pr_party p) \<or> list_ex (\<lambda>n. n \<notin> set (pr_party p)) party
      in if changed \<and> \<not> pr_party_changed p
         then prepare_update (F_Party_Changed True) (p\<lparr>pr_party_changed := True\<rparr>) else p)"

definition start_stage :: "'c hooks \<Rightarrow> stage \<Rightarrow> 'c processor \<Rightarrow> 'c processor" where
  "start_stage hk stage p =
     (if stage \<noteq> pr_stage p
      then (let a = (if hk_retriable hk stage then Some 1 else None)
            in prepare_update (F_Attempt a) (prepare_update (F_Stage stage) (p\<lparr>pr_stage := stage, pr_attempt := a\<rparr>)))
      else if hk_retriable hk stage
      then (let a = Some ((case pr_attempt p of None \<Rightarrow> 0 | Some n \<Rightarrow> n) + 1)
            in prepare_update (F_Attempt a) (p\<lparr>pr_attempt := a\<rparr>))
      else p)"

definition add_player_death :: "string \<Rightarrow> 'c processor \<Rightarrow> 'c processor" where
  "add_player_death name p =
     (let p' = prepare_update (F_Deaths (pr_deaths p + 1)) (p\<lparr>pr_deaths := pr_deaths p + 1\<rparr>)
      in p'\<lparr>pr_room := (pr_room p')\<lparr>sg_deaths := sg_deaths (pr_room p') @ [name]\<rparr>\<rparr>)"

definition set_total_ticks :: "int \<Rightarrow> 'c processor \<Rightarrow> 'c processor" where
  "set_total_ticks n p =
     (if n \<noteq> pr_ticks p then prepare_update (F_Ticks n) (p\<lparr>pr_ticks := n\<rparr>) else p)"

definition set_stage_split :: "int \<Rightarrow> int \<Rightarrow> int \<Rightarrow> bool \<Rightarrow> 'c processor \<Rightarrow> 'c processor" where
  "set_stage_split ty tick start req p =
     (if start \<ge> 0 \<and> tick > start
      then p\<lparr>pr_stage_splits := AList.update ty (tick, start, req) (pr_stage_splits p)\<rparr> else p)"

definition set_challenge_split :: "int \<Rightarrow> int \<Rightarrow> bool option \<Rightarrow> 'c processor \<Rightarrow> 'c processor" where
  "set_challenge_split ty ticks acc p =
     (if ticks > 0 then p\<lparr>pr_challenge_splits := AList.update ty (ticks, acc) (pr_challenge_splits p)\<rparr> else p)"

text \<open>Adding to a statistic of a player; the statistics of a name that is not in the party are thrown away.\<close>

definition add_stat_by :: "int \<Rightarrow> string \<Rightarrow> string \<Rightarrow> 'c processor \<Rightarrow> 'c processor" where
  "add_stat_by n name key p =
     (case index_of (map lower_char name) (map (map lower_char) (pr_party p)) of
        None \<Rightarrow> p
      | Some i \<Rightarrow>
          (let st = sg_stats (pr_room p);
               v = (case map_of (st ! i) key of None \<Rightarrow> 0 | Some n \<Rightarrow> n)
           in p\<lparr>pr_room := (pr_room p)\<lparr>sg_stats := st[i := AList.update key (v + n) (st ! i)]\<rparr>\<rparr>))"

abbreviation add_stat :: "string \<Rightarrow> string \<Rightarrow> 'c processor \<Rightarrow> 'c processor" where
  "add_stat \<equiv> add_stat_by 1"

fun set_row_field :: "'c field \<Rightarrow> challenge_row \<Rightarrow> challenge_row" where
  "set_row_field (F_Mode v) r = r\<lparr>ck_mode := v\<rparr>"
| "set_row_field (F_Stage v) r = r\<lparr>ck_stage := v\<rparr>"
| "set_row_field (F_Status v) r = r\<lparr>ck_status := v\<rparr>"
| "set_row_field (F_Ticks v) r = r\<lparr>ck_ticks := v\<rparr>"
| "set_row_field (F_Deaths v) r = r\<lparr>ck_deaths := v\<rparr>"
| "set_row_field _ r = r"

definition update_challenge_row :: "string \<Rightarrow> (challenge_row \<Rightarrow> challenge_row) \<Rightarrow> db \<Rightarrow> db" where
  "update_challenge_row uuid f d =
     d\<lparr>d_challenges := map (\<lambda>r. if ck_uuid r = uuid then f r else r) (d_challenges d)\<rparr>"

fun last_mode :: "'c field list \<Rightarrow> challenge_mode option" where
  "last_mode [] = None"
| "last_mode (F_Mode m # fs) = (case last_mode fs of None \<Rightarrow> Some m | Some m' \<Rightarrow> Some m')"
| "last_mode (f # fs) = last_mode fs"

definition finalize_updates :: "'c processor \<Rightarrow> db \<Rightarrow> 'c field list \<times> 'c processor \<times> db" where
  "finalize_updates p d =
     (let dbu = pr_db_updates p;
          fields = pr_redis_updates p @ dbu;
          p' = p\<lparr>pr_db_updates := [], pr_redis_updates := []\<rparr>
      in if dbu = [] then (fields, p', d)
         else (fields, p',
           (case last_mode dbu of None \<Rightarrow> id | Some m \<Rightarrow> update_session (pr_session p) [S_Mode m])
             (update_challenge_row (pr_uuid p) (fold set_row_field dbu) d)))"

subsection \<open>Creating a challenge\<close>

definition join_strings :: "string \<Rightarrow> string list \<Rightarrow> string" where
  "join_strings sep xs = (case xs of [] \<Rightarrow> [] | y # ys \<Rightarrow> y @ concat (map (\<lambda>z. sep @ z) ys))"

definition party_string :: "string list \<Rightarrow> string" where
  "party_string party = join_strings ''-'' (map normalize_rsn (sort party))"

definition party_hash :: "proc_params \<Rightarrow> string list \<Rightarrow> string" where
  "party_hash pp party = pp_hash pp (party_string party)"

definition stale_sessions :: "challenge_type \<Rightarrow> string \<Rightarrow> db \<Rightarrow> int list" where
  "stale_sessions ty hash d =
     map sn_id (filter (\<lambda>r. sn_type r = ty \<and> sn_hash r = hash \<and> sn_end r = None) (d_sessions d))"

definition create_session :: "proc_params \<Rightarrow> int \<Rightarrow> 'c processor \<Rightarrow> db \<Rightarrow> int \<times> db" where
  "create_session pp start p d =
     (let hash = party_hash pp (pr_party p);
          d1 = fold (\<lambda>sid e. snd (finalize_session_with (pp_mode pp) (Some start) sid e)) (stale_sessions (pr_type p) hash d) d
      in (d_next d1,
          d1\<lparr>d_sessions := d_sessions d1 @
               [\<lparr>sn_id = d_next d1, sn_type = pr_type p, sn_mode = pr_mode p, sn_scale = length (pr_party p), sn_hash = hash,
                 sn_start = start, sn_end = None, sn_status = SESSION_ACTIVE\<rparr>],
             d_next := d_next d1 + 1\<rparr>))"

definition create_challenge_with_session ::
    "proc_params \<Rightarrow> int \<Rightarrow> int option \<Rightarrow> 'c processor \<Rightarrow> db \<Rightarrow> 'c processor \<times> db" where
  "create_challenge_with_session pp start session p d =
     (let (sid, d1) = (case session of Some s \<Rightarrow> (s, d) | None \<Rightarrow> create_session pp start p d);
          cid = d_next d1;
          row = \<lparr>ck_id = cid, ck_uuid = pr_uuid p, ck_type = pr_type p, ck_mode = pr_mode p, ck_scale = length (pr_party p),
                 ck_stage = pr_stage p, ck_status = IN_PROGRESS, ck_start = start, ck_session = sid, ck_ticks = 0,
                 ck_overall = None, ck_deaths = 0, ck_finish = None, ck_full = False\<rparr>;
          players = map (\<lambda>(i, name). \<lparr>cp_challenge = cid, cp_player = pi_id (pr_players p ! i), cp_name = name, cp_orb = i,
                 cp_gear = UNKNOWN_GEAR, cp_deaths = []\<rparr>) (enumerate 0 (pr_party p))
      in (p\<lparr>pr_id := cid, pr_session := sid\<rparr>,
          d1\<lparr>d_challenges := d_challenges d1 @ [row], d_challenge_players := d_challenge_players d1 @ players,
             d_next := cid + 1\<rparr>))"

fun start_all :: "string list \<Rightarrow> db \<Rightarrow> int option list \<times> db" where
  "start_all [] d = ([], d)"
| "start_all (n # ns) d =
     (let (i, d1) = start_challenge n d; (is, d2) = start_all ns d1 in (i # is, d2))"

definition create_new :: "proc_params \<Rightarrow> 'c hooks \<Rightarrow> int \<Rightarrow> int option \<Rightarrow> 'c processor \<Rightarrow> db \<Rightarrow> 'c processor option \<times> db" where
  "create_new pp hk start session p d =
     (let (ids, d1) = start_all (pr_party p) d in
      if None \<in> set ids then (None, d1)
      else
        (let p1 = p\<lparr>pr_players := map2 (\<lambda>i pl. pl\<lparr>pi_id := the i\<rparr>) ids (pr_players p)\<rparr>;
             (p2, d2) = create_challenge_with_session pp start session p1 d1
         in (Some p2, hk_create hk p2 d2)))"

subsection \<open>Processing the events of a stage\<close>

definition torso_gear :: "int \<Rightarrow> melee_gear option" where
  "torso_gear i =
     (if i = 30779 then Some RADIANT_OATHPLATE else if i = 30753 then Some OATHPLATE
      else if i = 28256 then Some BLORVA else if i = 26384 then Some TORVA
      else if i = 11832 then Some BANDOS else None)"

definition determine_gear :: "proc_params \<Rightarrow> item_delta list \<Rightarrow> melee_gear option" where
  "determine_gear pp equipment =
     (let torso = List.find (\<lambda>d. dl_added d \<and> dl_slot d = pp_torso pp) equipment;
          helm = List.find (\<lambda>d. dl_added d \<and> dl_slot d = pp_head pp) equipment
      in case helm of
           Some h \<Rightarrow> (if dl_item_id h = 11665 \<or> dl_item_id h = 26477 then Some ELITE_VOID
             else Option.bind torso (\<lambda>t. torso_gear (dl_item_id t)))
         | None \<Rightarrow> Option.bind torso (\<lambda>t. torso_gear (dl_item_id t)))"

definition try_determine_gear :: "proc_params \<Rightarrow> player_msg \<Rightarrow> 'c processor \<Rightarrow> db \<Rightarrow> 'c processor \<times> db" where
  "try_determine_gear pp pl p d =
     (case index_of (pm_name pl) (pr_party p) of
        None \<Rightarrow> (p, d)
      | Some i \<Rightarrow>
          (if pi_gear (pr_players p ! i) \<noteq> UNKNOWN_GEAR then (p, d)
           else case determine_gear pp (map delta_from_raw (pm_deltas pl)) of
               None \<Rightarrow> (p, d)
             | Some g \<Rightarrow>
                 (p\<lparr>pr_players := (pr_players p)[i := (pr_players p ! i)\<lparr>pi_gear := g\<rparr>]\<rparr>,
                  d\<lparr>d_challenge_players := map (\<lambda>r. if cp_challenge r = pr_id p \<and> cp_player r = pi_id (pr_players p ! i)
                      then r\<lparr>cp_gear := g\<rparr> else r) (d_challenge_players d)\<rparr>)))"

definition npc_subtype_of :: "npc_msg \<Rightarrow> npc_subtype option" where
  "npc_subtype_of n =
     (case nm_maiden_crab n of Some c \<Rightarrow> Some (Maiden_Crab c)
      | None \<Rightarrow> (case nm_nylo n of Some y \<Rightarrow> Some (Nylo y)
          | None \<Rightarrow> map_option Verzik_Crab (nm_verzik_crab n)))"

definition set_npcs :: "(room_npcs \<Rightarrow> room_npcs) \<Rightarrow> 'c processor \<Rightarrow> 'c processor" where
  "set_npcs f p = p\<lparr>pr_room := (pr_room p)\<lparr>sg_npcs := f (sg_npcs (pr_room p))\<rparr>\<rparr>"

definition handle_npc_spawn :: "event \<Rightarrow> 'c processor \<Rightarrow> 'c processor" where
  "handle_npc_spawn e p =
     (case ev_npc e of
        None \<Rightarrow> p
      | Some n \<Rightarrow> set_npcs (AList.update (nm_room_id n)
          \<lparr>rn_room = nm_room_id n, rn_spawn_id = nm_id n, rn_spawn_tick = ev_tick e, rn_spawn_point = (ev_x e, ev_y e),
           rn_death_tick = 0, rn_death_point = (0, 0), rn_subtype = npc_subtype_of n\<rparr>) p)"

definition handle_npc_death :: "event \<Rightarrow> npc_msg \<Rightarrow> 'c processor \<Rightarrow> 'c processor" where
  "handle_npc_death e n p =
     set_npcs (AList.map_entry (nm_room_id n)
       (\<lambda>r. r\<lparr>rn_death_tick := ev_tick e, rn_death_point := (ev_x e, ev_y e)\<rparr>)) p"

text \<open>What the base class does with an event before the challenge kind sees it; \<^const>\<open>None\<close> when it throws.\<close>

definition process_base :: "proc_params \<Rightarrow> event \<Rightarrow> 'c processor \<Rightarrow> db \<Rightarrow> ('c processor \<times> db) option" where
  "process_base pp e p d =
     (case ev_type e of
        PLAYER_UPDATE \<Rightarrow> map_option (\<lambda>pl. try_determine_gear pp pl p d) (ev_player e)
      | PLAYER_DEATH \<Rightarrow> map_option (\<lambda>pl. (add_player_death (pm_name pl) p, d)) (ev_player e)
      | NPC_SPAWN \<Rightarrow> Some (handle_npc_spawn e p, d)
      | NPC_DEATH \<Rightarrow> map_option (\<lambda>n. (handle_npc_death e n p, d)) (ev_npc e)
      | _ \<Rightarrow> Some (p, d))"

definition process_event ::
    "proc_params \<Rightarrow> 'c hooks \<Rightarrow> event list \<Rightarrow> nat \<Rightarrow> 'c processor \<Rightarrow> db \<Rightarrow> bool \<times> event list \<times> 'c processor \<times> db" where
  "process_event pp hk es i p d =
     (case process_base pp (es ! i) p d of
        None \<Rightarrow> (False, es, p, d)
      | Some (p1, d1) \<Rightarrow>
          (case hk_event hk es i p1 d1 of
             (None, es2, p2, d2) \<Rightarrow> (False, es2, p2, d2)
           | (Some save, es2, p2, d2) \<Rightarrow>
               (True, es2, (if save then p2\<lparr>pr_room := (pr_room p2)\<lparr>sg_written := sg_written (pr_room p2) @ [i]\<rparr>\<rparr> else p2), d2)))"

text \<open>An event of a player outside the party is skipped; the first throw ends the loop.\<close>

fun process_events ::
    "proc_params \<Rightarrow> 'c hooks \<Rightarrow> nat list \<Rightarrow> event list \<Rightarrow> 'c processor \<Rightarrow> db \<Rightarrow> bool \<times> event list \<times> 'c processor \<times> db" where
  "process_events pp hk [] es p d = (True, es, p, d)"
| "process_events pp hk (i # is) es p d =
     (if (case ev_player (es ! i) of None \<Rightarrow> False | Some pl \<Rightarrow> pm_name pl \<notin> set (pr_party p))
      then process_events pp hk is es p d
      else case process_event pp hk es i p d of
          (False, r) \<Rightarrow> (False, r)
        | (True, es', p', d') \<Rightarrow> process_events pp hk is es' p' d')"

definition load_ids :: "'c processor \<Rightarrow> db \<Rightarrow> 'c processor option" where
  "load_ids p d =
     (case (if pr_id p = - 1 \<or> pr_session p = - 1
            then map_option (\<lambda>r. p\<lparr>pr_id := ck_id r, pr_session := ck_session r\<rparr>)
              (List.find (\<lambda>r. ck_uuid r = pr_uuid p) (d_challenges d))
            else Some p) of
        None \<Rightarrow> None
      | Some p1 \<Rightarrow>
          (if list_all (\<lambda>pl. pi_id pl \<noteq> - 1) (pr_players p1) then Some p1
           else
             (let rows = sort_key cp_orb (filter (\<lambda>r. cp_challenge r = pr_id p1) (d_challenge_players d)) in
              if length rows > length (pr_players p1) then None
              else Some (p1\<lparr>pr_players := map2 (\<lambda>r pl. pl\<lparr>pi_id := cp_player r\<rparr>) rows (pr_players p1) @
                drop (length rows) (pr_players p1)\<rparr>))))"

definition clear_stage :: "'c processor \<Rightarrow> 'c processor" where
  "clear_stage p = p\<lparr>pr_stage_splits := [], pr_challenge_splits := [], pr_room := initial_stage_data (pr_party p)\<rparr>"

text \<open>The status the challenge would have if it ended after this stage.\<close>

definition stage_outcome :: "proc_params \<Rightarrow> stage \<Rightarrow> stage \<Rightarrow> stage_status \<Rightarrow> challenge_status" where
  "stage_outcome pp last_st stage status =
     (if pp_stage pp stage > pp_stage pp last_st then CHALLENGE_COMPLETED
      else if status = COMPLETED then (if stage = last_st then CHALLENGE_COMPLETED else RESET)
      else if status = STARTED then ABANDONED
      else CHALLENGE_WIPED)"

definition add_stage_deaths :: "'c processor \<Rightarrow> db \<Rightarrow> db" where
  "add_stage_deaths p d =
     fold (\<lambda>name e. case index_of name (pr_party p) of
         None \<Rightarrow> e
       | Some i \<Rightarrow> e\<lparr>d_challenge_players := map (\<lambda>r. if cp_challenge r = pr_id p \<and> cp_player r = pi_id (pr_players p ! i)
           then r\<lparr>cp_deaths := cp_deaths r @ [pr_stage p]\<rparr> else r) (d_challenge_players e)\<rparr>)
       (sg_deaths (pr_room p)) d"

definition query_context_of :: "'c processor \<Rightarrow> query_context" where
  "query_context_of p =
     \<lparr>qc_challenge = pr_id p, qc_stage = pr_stage p, qc_mode = pr_mode p, qc_party = pr_party p,
      qc_players = pr_players p, qc_npcs = sg_npcs (pr_room p)\<rparr>"

definition write_stage_events :: "stage \<Rightarrow> event list \<Rightarrow> int \<Rightarrow> 'c processor \<Rightarrow> db \<Rightarrow> db option" where
  "write_stage_events stage es until p d =
     map_option
       (\<lambda>e. e\<lparr>d_saved := d_saved e @
          [\<lparr>sv_uuid = pr_uuid p, sv_stage = stage, sv_party = pr_party p, sv_attempt = pr_attempt p, sv_events = es\<rparr>]\<rparr>)
       (if until > 0 then write_queryable_events (query_context_of p) until es d else Some d)"

definition stage_splits_of :: "int \<Rightarrow> bool \<Rightarrow> 'c processor \<Rightarrow> challenge_split list" where
  "stage_splits_of accurate_until completed p =
     map (\<lambda>(ty, tick, start, req). \<lparr>cl_type = ty, cl_ticks = tick - start,
          cl_accurate = (tick < accurate_until \<and> (req \<longrightarrow> completed))\<rparr>) (pr_stage_splits p)"

definition challenge_splits_of :: "bool \<Rightarrow> 'c processor \<Rightarrow> challenge_split list" where
  "challenge_splits_of dflt p =
     map (\<lambda>(ty, ticks, acc). \<lparr>cl_type = ty, cl_ticks = ticks, cl_accurate = (case acc of None \<Rightarrow> dflt | Some a \<Rightarrow> a)\<rparr>)
       (pr_challenge_splits p)"

definition insert_own_splits :: "challenge_split list \<Rightarrow> 'c processor \<Rightarrow> db \<Rightarrow> split_row list \<times> db" where
  "insert_own_splits splits p d = insert_splits (pr_id p) (pr_mode p) (length (pr_party p)) splits d"

definition update_own_pbs :: "int \<Rightarrow> split_row list \<Rightarrow> 'c processor \<Rightarrow> db \<Rightarrow> db" where
  "update_own_pbs now rows p d = update_personal_bests now (length (pr_party p)) (map pi_id (pr_players p)) rows d"

definition update_all_players_stats :: "int \<Rightarrow> 'c processor \<Rightarrow> db \<Rightarrow> db" where
  "update_all_players_stats today p d =
     (if pr_mode p = TOB_ENTRY then d
      else fold (\<lambda>(pl, incs) e. if incs = [] then e else update_stats today (pi_id pl) incs e)
        (zip (pr_players p) (sg_stats (pr_room p))) d)"

text \<open>The writes of a stage after its events were processed: splits, personal bests and statistics.\<close>

definition record_stage :: "int \<Rightarrow> int \<Rightarrow> merged_events \<Rightarrow> 'c processor \<Rightarrow> db \<Rightarrow> db" where
  "record_stage now today me p d =
     (let (rows1, d1) = insert_own_splits (stage_splits_of (me_accurate_until me) (me_status me = COMPLETED) p) p d;
          (rows2, d2) = insert_own_splits (challenge_splits_of False p) p d1
      in update_all_players_stats today p (update_own_pbs now (rows1 @ rows2) p d2))"

definition stage_updates :: "'c hooks \<Rightarrow> 'c processor \<Rightarrow> 'c field list \<Rightarrow> 'c field list" where
  "stage_updates hk p fs =
     fs @ [F_Status (pr_status p), F_Players (pr_players p), F_Custom (Some (hk_custom_data hk (pr_custom p)))]"

text \<open>\<^verbatim>\<open>processStage\<close>: the updates for Redis, unless it throws, the processor and the database.\<close>

definition process_stage ::
    "proc_params \<Rightarrow> 'c hooks \<Rightarrow> int \<Rightarrow> int \<Rightarrow> stage \<Rightarrow> merged_events \<Rightarrow> 'c processor \<Rightarrow> db \<Rightarrow>
     'c field list option \<times> 'c processor \<times> db" where
  "process_stage pp hk now today stage me p d =
     (case load_ids p d of
        None \<Rightarrow> (None, p, d)
      | Some p0 \<Rightarrow>
          (case process_events pp hk [0..<length (me_events me)] (me_events me) (clear_stage p0) d of
             (False, es, p1, d1) \<Rightarrow> (None, p1, d1)
           | (True, es, p1, d1) \<Rightarrow>
               (let p2 = set_total_ticks (pr_ticks p1 + me_last_tick me) p1;
                    p3 = p2\<lparr>pr_status := stage_outcome pp (pr_last p2) stage (me_status me)\<rparr>;
                    me' = (if pr_party_changed p3 then restrict_accuracy_to 0 (me\<lparr>me_events := es\<rparr>)
                           else me\<lparr>me_events := es\<rparr>);
                    (p4, d4) = hk_stage hk stage me' p3 d1
                in case write_stage_events stage (map ((!) es) (sg_written (pr_room p4))) (me_queryable_until me') p4
                       (add_stage_deaths p4 d4) of
                     None \<Rightarrow> (None, p4, add_stage_deaths p4 d4)
                   | Some d5 \<Rightarrow>
                       (case finalize_updates p4 (record_stage now today me' p4 d5) of
                          (fs, p5, d6) \<Rightarrow> (Some (stage_updates hk p5 fs), p5, d6)))))"

subsection \<open>The end of a challenge\<close>

definition delete_challenge :: "'c processor \<Rightarrow> db \<Rightarrow> db" where
  "delete_challenge p d =
     (let found = list_ex (\<lambda>r. ck_id r = pr_id p) (d_challenges d);
          d1 = d\<lparr>d_challenges := filter (\<lambda>r. ck_id r \<noteq> pr_id p) (d_challenges d),
                 d_saved := filter (\<lambda>v. sv_uuid v \<noteq> pr_uuid p) (d_saved d)\<rparr>
      in if found
         then d1\<lparr>d_players := map (\<lambda>r. if pl_id r \<in> set (map pi_id (pr_players p))
                 then r\<lparr>pl_recordings := pl_recordings r - 1\<rparr> else r) (d_players d1)\<rparr>
         else d1)"

definition finish_row :: "'c hooks \<Rightarrow> int \<Rightarrow> 'c processor \<Rightarrow> challenge_row \<Rightarrow> challenge_row" where
  "finish_row hk finish_time p r =
     r\<lparr>ck_status := pr_status p, ck_ticks := pr_ticks p, ck_overall := Option.bind (pr_reported p) rt_overall,
       ck_finish := Some finish_time, ck_full := hk_recorded hk (pr_custom p) (pr_stage p)\<rparr>"

definition times_accurate :: "'c hooks \<Rightarrow> 'c processor \<Rightarrow> bool" where
  "times_accurate hk p \<longleftrightarrow>
     \<not> pr_party_changed p \<and> hk_recorded hk (pr_custom p) (pr_last p) \<and> pr_status p = CHALLENGE_COMPLETED"

definition final_ticks :: "'c hooks \<Rightarrow> 'c processor \<Rightarrow> int" where
  "final_ticks hk p =
     (case pr_reported p of
        Some r \<Rightarrow> (if rt_challenge r \<noteq> hk_final_ticks hk p then rt_challenge r else hk_final_ticks hk p)
      | None \<Rightarrow> hk_final_ticks hk p)"

text \<open>The first result tells whether the challenge was kept; \<^const>\<open>None\<close> when its ids cannot be loaded.\<close>

definition finish_challenge ::
    "'c hooks \<Rightarrow> int \<Rightarrow> int \<Rightarrow> int \<Rightarrow> 'c processor \<Rightarrow> db \<Rightarrow> bool option \<times> 'c processor \<times> db" where
  "finish_challenge hk now today finish_time p d =
     (case load_ids p d of
        None \<Rightarrow> (None, p, d)
      | Some p0 \<Rightarrow>
          (let p1 = clear_stage p0 in
           if pr_ticks p1 = 0
           then (Some False, p1, update_session (pr_session p1) [S_End finish_time] (delete_challenge p1 d))
           else
             (let p2 = (if pr_stage_status p1 = STARTED then p1\<lparr>pr_status := ABANDONED\<rparr> else p1);
                  d2 = update_session (pr_session p2) [S_End finish_time]
                    (update_challenge_row (pr_uuid p2) (finish_row hk finish_time p2) d);
                  (p3, d3) = hk_finish hk now (final_ticks hk p2) p2 d2;
                  acc = times_accurate hk p3;
                  (rows, d4) = insert_own_splits (challenge_splits_of acc p3) p3 d3;
                  d5 = (if acc then update_own_pbs now rows p3 d4 else d4)
              in (Some True, p3, update_all_players_stats today p3 d5))))"

subsection \<open>Updates mirror the state\<close>

text \<open>
  The updates a processor collects are meant to bring the hash of its challenge up to its own state. \<open>synced p h\<close> says
  that the hash has the fields of the processor that may change; \<open>in_sync p h\<close> that it will have them once the
  collected updates are written into it.
\<close>

definition modifiable :: "'c field \<Rightarrow> bool" where
  "modifiable f = is_modifiable_key (field_name f)"

lemma modifiable_simps [simp]:
  "modifiable (F_Mode m)" "modifiable (F_Stage st)" "modifiable (F_Deaths n)" "modifiable (F_Ticks n)"
  "modifiable (F_Status cst)" "\<not> modifiable (F_Attempt a)" "\<not> modifiable (F_Party_Changed b)"
  by (simp_all add: modifiable_def is_modifiable_key_def)

lemma modifiable_cases:
  "modifiable f \<Longrightarrow> (\<exists>m. f = F_Mode m) \<or> (\<exists>st. f = F_Stage st) \<or> (\<exists>n. f = F_Deaths n) \<or> (\<exists>n. f = F_Ticks n) \<or>
     (\<exists>cst. f = F_Status cst)"
  by (cases f) (simp_all add: modifiable_def is_modifiable_key_def)

lemma set_field_db_commute:
  "modifiable g \<Longrightarrow> \<not> modifiable f \<Longrightarrow> set_field f (set_field g h) = set_field g (set_field f h)"
  by (drule modifiable_cases) (cases f; auto)

lemma set_field_through_db:
  "list_all modifiable gs \<Longrightarrow> \<not> modifiable f \<Longrightarrow> set_fields gs (set_field f h) = set_field f (set_fields gs h)"
proof (induction gs arbitrary: h)
  case (Cons g gs)
  then have "set_field g (set_field f h) = set_field f (set_field g h)"
    by (intro set_field_db_commute [symmetric]) simp_all
  with Cons show ?case by simp
qed simp

definition pending :: "'c processor \<Rightarrow> 'c field list" where
  "pending p = pr_redis_updates p @ pr_db_updates p"

definition synced :: "'c processor \<Rightarrow> 'c challenge_hash \<Rightarrow> bool" where
  "synced p h \<longleftrightarrow>
     ch_mode h = Some (pr_mode p) \<and> ch_stage h = Some (pr_stage p) \<and> ch_attempt h = pr_attempt p \<and>
     ch_deaths h = Some (pr_deaths p) \<and> ch_ticks h = Some (pr_ticks p) \<and>
     (ch_party_changed h = Some True \<longleftrightarrow> pr_party_changed p)"

definition in_sync :: "'c processor \<Rightarrow> 'c challenge_hash \<Rightarrow> bool" where
  "in_sync p h \<longleftrightarrow> list_all modifiable (pr_db_updates p) \<and> synced p (set_fields (pending p) h)"

text \<open>What synchronization depends on, and what no method changes.\<close>

definition sync_view :: "'c processor \<Rightarrow> _" where
  "sync_view p = ((pr_mode p, pr_stage p, pr_attempt p, pr_deaths p, pr_ticks p, pr_party_changed p),
     pr_db_updates p, pr_redis_updates p)"

definition identity_of :: "'c processor \<Rightarrow> _" where
  "identity_of p = ((pr_uuid p, pr_type p, pr_first p, pr_last p), pr_stage_status p, pr_party p, pr_reported p)"

lemma in_sync_view: "sync_view p = sync_view q \<Longrightarrow> in_sync p h \<longleftrightarrow> in_sync q h"
  by (simp add: sync_view_def in_sync_def synced_def pending_def)

lemma pending_prepare:
  assumes "list_all modifiable (pr_db_updates p)"
  shows "set_fields (pending (prepare_update f p)) h = set_field f (set_fields (pending p) h)"
    and "list_all modifiable (pr_db_updates (prepare_update f p))"
  using assms by (auto simp: pending_def prepare_update_def set_field_through_db simp flip: modifiable_def)

lemma prepare_simps [simp]:
  "pr_mode (prepare_update f p) = pr_mode p" "pr_stage (prepare_update f p) = pr_stage p"
  "pr_attempt (prepare_update f p) = pr_attempt p" "pr_deaths (prepare_update f p) = pr_deaths p"
  "pr_ticks (prepare_update f p) = pr_ticks p" "pr_party_changed (prepare_update f p) = pr_party_changed p"
  "pr_party (prepare_update f p) = pr_party p" "pr_status (prepare_update f p) = pr_status p"
  "pr_stage_status (prepare_update f p) = pr_stage_status p" "pr_custom (prepare_update f p) = pr_custom p"
  "identity_of (prepare_update f p) = identity_of p" "pr_room (prepare_update f p) = pr_room p"
  by (simp_all add: prepare_update_def identity_of_def)

lemma in_sync_prepare:
  assumes "list_all modifiable (pr_db_updates p)" and "synced p (set_field f (set_fields (pending p) h))"
  shows "in_sync (prepare_update f p) h"
  using assms pending_prepare(1) [of p f h] pending_prepare(2) [of p f] by (simp add: in_sync_def synced_def)

text \<open>A changed field and its update together keep the synchronization; the rest of the methods are frames.\<close>

lemma in_sync_methods:
  assumes "in_sync p h"
  shows "in_sync (set_mode m p) h" "in_sync (update_party ps p) h" "in_sync (start_stage hk st p) h"
    "in_sync (set_total_ticks n p) h" "in_sync (add_player_death name p) h"
proof -
  have p: "list_all modifiable (pr_db_updates p)" "synced p (set_fields (pending p) h)"
    using assms by (simp_all add: in_sync_def)
  show "in_sync (set_mode m p) h"
    using assms p by (auto simp: set_mode_def synced_def pending_def intro!: in_sync_prepare)
  show "in_sync (update_party ps p) h"
    using assms p by (auto simp: update_party_def Let_def synced_def pending_def intro!: in_sync_prepare)
  show "in_sync (set_total_ticks n p) h"
    using assms p by (auto simp: set_total_ticks_def synced_def pending_def intro!: in_sync_prepare)
  have room: "in_sync (q\<lparr>pr_room := r\<rparr>) h = in_sync q h" for q :: "'a processor" and r
    by (rule in_sync_view) (simp add: sync_view_def)
  show "in_sync (add_player_death name p) h"
    using p by (auto simp: add_player_death_def Let_def room synced_def pending_def intro!: in_sync_prepare)
  show "in_sync (start_stage hk st p) h"
  proof (cases "st = pr_stage p")
    case True
    then show ?thesis using assms p by (auto simp: start_stage_def Let_def synced_def pending_def intro!: in_sync_prepare)
  next
    case False
    let ?a = "if hk_retriable hk st then Some 1 else None"
    let ?q = "p\<lparr>pr_stage := st, pr_attempt := ?a\<rparr>"
    have q: "list_all modifiable (pr_db_updates ?q)" "pending ?q = pending p" using p by (simp_all add: pending_def)
    note one = pending_prepare(1) [OF q(1), of "F_Stage st" h]
    have "in_sync (prepare_update (F_Attempt ?a) (prepare_update (F_Stage st) ?q)) h"
    proof (rule in_sync_prepare)
      show "list_all modifiable (pr_db_updates (prepare_update (F_Stage st) ?q))" using pending_prepare(2) [OF q(1)] .
      show "synced (prepare_update (F_Stage st) ?q)
          (set_field (F_Attempt ?a) (set_fields (pending (prepare_update (F_Stage st) ?q)) h))"
        using p(2) unfolding one q(2) by (simp add: synced_def)
    qed
    with False show ?thesis by (simp add: start_stage_def Let_def)
  qed
qed

lemma in_sync_finalize:
  "in_sync p h \<Longrightarrow> finalize_updates p d = (fs, p', d') \<Longrightarrow>
     synced p' (set_fields fs h) \<and> pending p' = [] \<and> fs = pending p \<and> identity_of p' = identity_of p \<and>
     pr_status p' = pr_status p \<and> pr_stage p' = pr_stage p \<and> pr_attempt p' = pr_attempt p \<and> pr_mode p' = pr_mode p"
  by (auto simp: finalize_updates_def Let_def in_sync_def synced_def pending_def identity_of_def split: if_splits)

lemma synced_load:
  "challenge_from_hash h = Some (Some s) \<Longrightarrow> synced (load_processor hk s) h \<and> pending (load_processor hk s) = [] \<and>
     list_all modifiable (pr_db_updates (load_processor hk s))"
  by (auto simp: challenge_from_hash_def synced_def load_processor_def pending_def split: option.splits prod.splits if_splits)

lemma in_sync_load: "challenge_from_hash h = Some (Some s) \<Longrightarrow> in_sync (load_processor hk s) h"
  using synced_load [of h s hk] by (simp add: in_sync_def)

subsection \<open>Challenge kinds\<close>

text \<open>
  What the base class relies on in the methods of a challenge kind: their changes go through the methods that collect
  updates, and they leave the identity of the challenge and the events of other ticks alone.
\<close>

locale challenge_kind =
  fixes hk :: "'c hooks"
  assumes event_sync: "hk_event hk es i p d = (r, es', p', d') \<Longrightarrow> in_sync p h \<Longrightarrow> in_sync p' h"
    and event_identity: "hk_event hk es i p d = (r, es', p', d') \<Longrightarrow>
      identity_of p' = identity_of p \<and> pr_stage p' = pr_stage p \<and> pr_attempt p' = pr_attempt p \<and> length es' = length es"
    and stage_sync: "hk_stage hk st me p d = (p', d') \<Longrightarrow> in_sync p h \<Longrightarrow> in_sync p' h"
    and stage_identity: "hk_stage hk st me p d = (p', d') \<Longrightarrow>
      identity_of p' = identity_of p \<and> pr_stage p' = pr_stage p \<and> pr_attempt p' = pr_attempt p \<and> pr_status p' = pr_status p"
    and finish_identity: "hk_finish hk now n p d = (p', d') \<Longrightarrow> identity_of p' = identity_of p \<and> pr_status p' = pr_status p"
begin

lemma base_event:
  assumes "process_base pp e p d = Some (p', d')"
  shows "(in_sync p h \<longrightarrow> in_sync p' h) \<and> identity_of p' = identity_of p \<and> pr_stage p' = pr_stage p \<and> pr_attempt p' = pr_attempt p"
proof -
  have frame: "in_sync q' h = in_sync q h" if "sync_view q' = sync_view q" for q q' :: "'a processor"
    using that by (rule in_sync_view)
  have gear: "in_sync p' h = in_sync p h \<and> identity_of p' = identity_of p \<and> pr_stage p' = pr_stage p \<and> pr_attempt p' = pr_attempt p"
    if "try_determine_gear pp pl p d = (p', d')" for pl p'
    using that frame [of p' p]
    by (auto simp: try_determine_gear_def sync_view_def identity_of_def split: option.splits if_splits)
  have npcs: "in_sync (set_npcs f p) h = in_sync p h \<and> identity_of (set_npcs f p) = identity_of p \<and>
      pr_stage (set_npcs f p) = pr_stage p \<and> pr_attempt (set_npcs f p) = pr_attempt p" for f
    using frame [of "set_npcs f p" p] by (simp add: set_npcs_def sync_view_def identity_of_def)
  have death: "identity_of (add_player_death name p) = identity_of p \<and> pr_stage (add_player_death name p) = pr_stage p \<and>
      pr_attempt (add_player_death name p) = pr_attempt p" for name
    by (simp add: add_player_death_def Let_def identity_of_def prepare_update_def)
  have death_sync: "in_sync p h \<Longrightarrow> in_sync (add_player_death name p) h" for name by (rule in_sync_methods(5))
  show ?thesis
    using assms gear npcs death death_sync
    by (cases "ev_type e") (auto simp: process_base_def handle_npc_spawn_def handle_npc_death_def split: option.splits)
qed

lemma one_event:
  assumes "process_event pp hk es i p d = (ok, es', p', d')"
  shows "(in_sync p h \<longrightarrow> in_sync p' h) \<and> identity_of p' = identity_of p \<and> pr_stage p' = pr_stage p \<and>
     pr_attempt p' = pr_attempt p \<and> length es' = length es"
proof -
  have written: "in_sync (q\<lparr>pr_room := r\<rparr>) h = in_sync q h" "identity_of (q\<lparr>pr_room := r\<rparr>) = identity_of q"
    for q :: "'c processor" and r
    by (rule in_sync_view, simp add: sync_view_def) (simp add: identity_of_def)
  show ?thesis
  proof (cases "process_base pp (es ! i) p d")
    case (Some q)
    obtain p1 d1 where q: "q = (p1, d1)" by (cases q)
    obtain r es2 p2 d2 where h2: "hk_event hk es i p1 d1 = (r, es2, p2, d2)" by (cases "hk_event hk es i p1 d1") auto
    note b = base_event [OF Some [unfolded q], of h]
    show ?thesis
      using assms Some q h2 b event_sync [OF h2, of h] event_identity [OF h2]
      by (auto simp: process_event_def written split: option.splits if_splits)
  qed (use assms in \<open>simp add: process_event_def\<close>)
qed

lemma all_events:
  "process_events pp hk is es p d = (ok, es', p', d') \<Longrightarrow>
     (in_sync p h \<longrightarrow> in_sync p' h) \<and> identity_of p' = identity_of p \<and> pr_stage p' = pr_stage p \<and>
     pr_attempt p' = pr_attempt p \<and> length es' = length es"
proof (induction "is" arbitrary: es p d)
  case (Cons i "is")
  show ?case
  proof (cases "case ev_player (es ! i) of None \<Rightarrow> False | Some pl \<Rightarrow> pm_name pl \<notin> set (pr_party p)")
    case False
    obtain ok1 es1 p1 d1 where one: "process_event pp hk es i p d = (ok1, es1, p1, d1)"
      by (cases "process_event pp hk es i p d") auto
    show ?thesis
    proof (cases ok1)
      case True
      with Cons.prems one False have "process_events pp hk is es1 p1 d1 = (ok, es', p', d')" by simp
      from Cons.IH [OF this] one_event [OF one, of h] show ?thesis by simp
    next
      case no: False
      with Cons.prems one False have "es' = es1" "p' = p1" by simp_all
      with one_event [OF one, of h] show ?thesis by simp
    qed
  qed (use Cons in simp)
qed simp

lemma load_ids_frame:
  "load_ids p d = Some q \<Longrightarrow> sync_view q = sync_view p \<and> identity_of q = identity_of p \<and> pr_status q = pr_status p \<and>
     pr_custom q = pr_custom p"
  by (auto simp: load_ids_def sync_view_def identity_of_def Let_def split: option.splits if_splits)

lemma clear_stage_frame: "sync_view (clear_stage p) = sync_view p \<and> identity_of (clear_stage p) = identity_of p"
  by (simp add: clear_stage_def sync_view_def identity_of_def)

text \<open>A stage that is processed: its updates bring the hash up to the processor, status, players and data included.\<close>

lemma processed_stage:
  assumes run: "process_stage pp hk now today stage me p d = (Some fs, p', d')" and sync: "in_sync p h"
  shows "synced p' (set_fields fs h) \<and> ch_status (set_fields fs h) = Some (pr_status p') \<and>
     ch_players (set_fields fs h) = Some (pr_players p') \<and>
     ch_custom (set_fields fs h) = Some (hk_custom_data hk (pr_custom p')) \<and>
     identity_of p' = identity_of p \<and> pr_stage p' = pr_stage p \<and> pr_attempt p' = pr_attempt p \<and>
     pr_status p' = stage_outcome pp (pr_last p) stage (me_status me)"
proof -
  obtain p0 where p0: "load_ids p d = Some p0" using run by (auto simp: process_stage_def split: option.splits)
  obtain ok es p1 d1 where ev: "process_events pp hk [0..<length (me_events me)] (me_events me) (clear_stage p0) d = (ok, es, p1, d1)"
    by (cases "process_events pp hk [0..<length (me_events me)] (me_events me) (clear_stage p0) d") auto
  have "ok" using run p0 ev by (cases ok) (auto simp: process_stage_def)
  let ?p2 = "set_total_ticks (pr_ticks p1 + me_last_tick me) p1"
  let ?p3 = "?p2\<lparr>pr_status := stage_outcome pp (pr_last ?p2) stage (me_status me)\<rparr>"
  let ?me = "if pr_party_changed ?p3 then restrict_accuracy_to 0 (me\<lparr>me_events := es\<rparr>) else me\<lparr>me_events := es\<rparr>"
  obtain p4 d4 where st: "hk_stage hk stage ?me ?p3 d1 = (p4, d4)" by (cases "hk_stage hk stage ?me ?p3 d1")
  obtain d5 where d5: "write_stage_events stage (map ((!) es) (sg_written (pr_room p4))) (me_queryable_until ?me) p4
      (add_stage_deaths p4 d4) = Some d5"
    using run p0 ev \<open>ok\<close> st by (auto simp: process_stage_def Let_def split: option.splits prod.splits)
  obtain gs p5 d6 where fin: "finalize_updates p4 (record_stage now today ?me p4 d5) = (gs, p5, d6)"
    by (cases "finalize_updates p4 (record_stage now today ?me p4 d5)") auto
  have out: "fs = stage_updates hk p5 gs" "p' = p5"
    using run p0 ev \<open>ok\<close> st d5 fin by (auto simp: process_stage_def Let_def)
  have "in_sync (clear_stage p0) h"
    using sync load_ids_frame [OF p0] clear_stage_frame [of p0] in_sync_view [of "clear_stage p0" p h] by simp
  then have s1: "in_sync p1 h" using all_events [OF ev, of h] by simp
  have "in_sync ?p3 h" using in_sync_methods(4) [OF s1] in_sync_view [of ?p3 ?p2 h] by (simp add: sync_view_def)
  then have s4: "in_sync p4 h" by (rule stage_sync [OF st])
  have id1: "identity_of p1 = identity_of p" "pr_stage p1 = pr_stage p" "pr_attempt p1 = pr_attempt p"
    using all_events [OF ev, of h] load_ids_frame [OF p0] clear_stage_frame [of p0]
    by (auto simp: sync_view_def clear_stage_def)
  have id3: "identity_of ?p3 = identity_of p1" "pr_stage ?p3 = pr_stage p1" "pr_attempt ?p3 = pr_attempt p1"
    by (simp_all add: identity_of_def set_total_ticks_def prepare_update_def)
  have last: "pr_last ?p2 = pr_last p" using id1(1) by (simp add: identity_of_def set_total_ticks_def prepare_update_def)
  show ?thesis
    using in_sync_finalize [OF s4 fin] stage_identity [OF st] id1 id3 last
    by (auto simp: out stage_updates_def synced_def)
qed

text \<open>A challenge that ends keeps the status its last stage gave it, unless its stage status says that a stage is running.\<close>

lemma finished_challenge:
  assumes run: "finish_challenge hk now today t p d = (Some kept, p', d')"
  shows "identity_of p' = identity_of p \<and> (kept \<longleftrightarrow> pr_ticks p \<noteq> 0) \<and>
     (pr_status p' = (if kept \<and> pr_stage_status p = STARTED then ABANDONED else pr_status p))"
proof -
  obtain p0 where p0: "load_ids p d = Some p0" using run by (auto simp: finish_challenge_def split: option.splits)
  let ?p1 = "clear_stage p0"
  have f: "sync_view ?p1 = sync_view p" "identity_of ?p1 = identity_of p" "pr_status ?p1 = pr_status p"
    using load_ids_frame [OF p0] clear_stage_frame [of p0] by (simp_all add: clear_stage_def)
  then have ticks: "pr_ticks ?p1 = pr_ticks p" and ss: "pr_stage_status ?p1 = pr_stage_status p"
    by (simp_all add: sync_view_def identity_of_def)
  show ?thesis
  proof (cases "pr_ticks p = 0")
    case True
    then show ?thesis using run p0 f ticks by (auto simp: finish_challenge_def Let_def)
  next
    case False
    let ?p2 = "if pr_stage_status ?p1 = STARTED then ?p1\<lparr>pr_status := ABANDONED\<rparr> else ?p1"
    have id2: "identity_of ?p2 = identity_of ?p1" by (simp add: identity_of_def)
    obtain p3 d3 where fin: "hk_finish hk now (final_ticks hk ?p2) ?p2
        (update_session (pr_session ?p2) [S_End t] (update_challenge_row (pr_uuid ?p2) (finish_row hk t ?p2) d)) = (p3, d3)"
      by (meson surj_pair)
    have "p' = p3" "kept"
      using run p0 False ticks fin by (auto simp: finish_challenge_def Let_def split: prod.splits)
    then show ?thesis using finish_identity [OF fin] f id2 ss False by auto
  qed
qed

end

end
