(* ===== verification/Challenge_Kinds.thy ===== *)
theory Challenge_Kinds
  imports Processor
begin

text \<open>
  The processors of the Colosseum, the Inferno and the Doom of Mokhaiotl
  (\<^verbatim>\<open>challenge-server/event-processing/colosseum.ts\<close>, \<^verbatim>\<open>inferno.ts\<close>, \<^verbatim>\<open>mokhaiotl.ts\<close>): their data, with the fields
  that last for one stage only, and their methods as \<^typ>\<open>'c hooks\<close>. The numbers of the stages, of the two Mokhaiotl
  attacks and of the attack styles come from generated code and are parameters. The files that hold the data of a
  challenge are left out; their contents are the data itself. The constructor of the Inferno replaces the mode by
  \<open>NO_MODE\<close>, its only one; the model keeps the stored mode.
\<close>

subsection \<open>Parameters\<close>

record kind_params =
  kn_stage :: "stage \<Rightarrow> int"
  kn_rocky_support :: "int \<Rightarrow> bool"
  kn_meleer_dig :: int
  kn_mager_resurrect :: int
  kn_mokha_auto :: int
  kn_mokha_ball :: int
  kn_mokha_ranged_ball :: int
  kn_mokha_mage_ball :: int
  kn_mokha_melee_auto :: int
  kn_mokha_ranged_auto :: int
  kn_mokha_mage_auto :: int
  kn_style_melee :: int
  kn_style_range :: int
  kn_style_mage :: int

text \<open>A wave as it is stored; the last three fields are those of the single kinds.\<close>

record stage_record =
  sw_stage :: stage
  sw_ticks_lost :: nat
  sw_npcs :: room_npcs

text \<open>Whether every stage from the first to the given one is among the recorded ones: the loop runs over the numbers.\<close>

definition recorded_up_to :: "(stage \<Rightarrow> int) \<Rightarrow> stage \<Rightarrow> stage \<Rightarrow> stage list \<Rightarrow> stage \<Rightarrow> bool" where
  "recorded_up_to num first last_st recorded stage \<longleftrightarrow>
     num first \<le> num stage \<and> num stage \<le> num last_st \<and>
     list_all (\<lambda>s. s \<in> num ` set recorded) [num first..num stage]"

definition count_outcome :: "string \<Rightarrow> string \<Rightarrow> string \<Rightarrow> 'c processor \<Rightarrow> 'c processor" where
  "count_outcome completions resets wipes p =
     fold (\<lambda>name q. case pr_status q of
         CHALLENGE_COMPLETED \<Rightarrow> add_stat name completions q
       | RESET \<Rightarrow> add_stat name resets q
       | CHALLENGE_WIPED \<Rightarrow> add_stat name wipes q
       | _ \<Rightarrow> q) (pr_party p) p"

definition set_kind_stats :: "string \<Rightarrow> int list \<Rightarrow> 'c processor \<Rightarrow> db \<Rightarrow> db" where
  "set_kind_stats column v p d =
     d\<lparr>d_kind_stats := (d_kind_stats d)(pr_id p := (d_kind_stats d (pr_id p))(column := v))\<rparr>"

definition map_custom :: "('c \<Rightarrow> 'c) \<Rightarrow> 'c processor \<Rightarrow> 'c processor" where
  "map_custom f p = p\<lparr>pr_custom := f (pr_custom p)\<rparr>"

subsection \<open>Colosseum\<close>

definition handicap_level_increment :: int where
  "handicap_level_increment = 30"

definition handicap_base :: "int \<Rightarrow> int" where
  "handicap_base h = h mod handicap_level_increment"

definition handicap_level :: "int \<Rightarrow> int" where
  "handicap_level h = h div handicap_level_increment + 1"

record colosseum_wave = stage_record +
  cw_handicap :: int
  cw_options :: "int list"

record colosseum =
  co_waves :: "colosseum_wave list"
  co_handicaps :: "int list"
  co_levels :: "int list"
  co_selected :: "int option"
  co_options :: "int list"

definition initial_colosseum :: colosseum where
  "initial_colosseum = \<lparr>co_waves = [], co_handicaps = [], co_levels = replicate 14 0, co_selected = None, co_options = []\<rparr>"

text \<open>The level array is read by a handicap from 0 to 13; outside it the code computes \<open>NaN\<close>, and the model 0.\<close>

definition level_of :: "int list \<Rightarrow> int \<Rightarrow> int" where
  "level_of levels h = (if 0 \<le> h \<and> nat h < length levels then levels ! nat h else 0)"

definition level_handicap :: "int list \<Rightarrow> int \<Rightarrow> int" where
  "level_handicap levels h = h + level_of levels h * handicap_level_increment"

definition raise_handicap :: "int \<Rightarrow> int \<Rightarrow> int list \<Rightarrow> int list" where
  "raise_handicap handicap selected hs =
     (case index_of (selected - handicap_level_increment) hs of
        Some i \<Rightarrow> hs[i := hs ! i + handicap_level_increment]
      | None \<Rightarrow> hs @ [handicap])"

definition choose_handicap :: "int \<Rightarrow> int list \<Rightarrow> colosseum \<Rightarrow> colosseum" where
  "choose_handicap h options c =
     (let selected = level_handicap (co_levels c) h in
      c\<lparr>co_selected := Some selected, co_options := map (level_handicap (co_levels c)) options,
        co_levels := (co_levels c)[nat h := level_of (co_levels c) h + 1],
        co_handicaps := raise_handicap h selected (co_handicaps c)\<rparr>)"

text \<open>The handicaps written to the statistics: each base handicap once for every level it has.\<close>

definition handicaps_taken :: "colosseum \<Rightarrow> int list" where
  "handicaps_taken c = concat (map (\<lambda>h. replicate (nat (handicap_level h)) (handicap_base h)) (co_handicaps c))"

definition colosseum_event ::
    "event list \<Rightarrow> nat \<Rightarrow> colosseum processor \<Rightarrow> db \<Rightarrow> bool option \<times> event list \<times> colosseum processor \<times> db" where
  "colosseum_event es i p d =
     (if ev_type (es ! i) = COLOSSEUM_HANDICAP_CHOICE
      then (Some True, es, map_custom (choose_handicap (ev_handicap (es ! i)) (ev_handicap_options (es ! i))) p, d)
      else (Some True, es, p, d))"

definition colosseum_recorded :: "kind_params \<Rightarrow> colosseum \<Rightarrow> stage \<Rightarrow> bool" where
  "colosseum_recorded kn c =
     recorded_up_to (kn_stage kn) (COLOSSEUM_WAVE 1) (COLOSSEUM_WAVE 12) (map sw_stage (co_waves c))"

definition colosseum_wave_of :: "stage \<Rightarrow> merged_events \<Rightarrow> colosseum processor \<Rightarrow> colosseum_wave" where
  "colosseum_wave_of stage me p =
     \<lparr>sw_stage = stage, sw_ticks_lost = me_missing me, sw_npcs = sg_npcs (pr_room p),
      cw_handicap = (case co_selected (pr_custom p) of None \<Rightarrow> 0 | Some h \<Rightarrow> h), cw_options = co_options (pr_custom p)\<rparr>"

definition colosseum_stage ::
    "kind_params \<Rightarrow> stage \<Rightarrow> merged_events \<Rightarrow> colosseum processor \<Rightarrow> db \<Rightarrow> colosseum processor \<times> db" where
  "colosseum_stage kn stage me p d =
     (let num = kn_stage kn;
          index = num stage - num (COLOSSEUM_WAVE 1);
          p1 = map_custom (\<lambda>c. c\<lparr>co_waves := co_waves c @ [colosseum_wave_of stage me p]\<rparr>) p;
          p2 = set_stage_split (152 + index) (me_last_tick me) 0 True p1;
          p3 = (if me_status me = COMPLETED \<and> num stage > num (COLOSSEUM_WAVE 1) \<and> num stage < num (COLOSSEUM_WAVE 12) \<and>
                  colosseum_recorded kn (pr_custom p2) stage
                then set_challenge_split (164 + (index - 1)) (pr_ticks p2) (Some (\<not> pr_party_changed p2 \<and> me_precise me)) p2
                else p2)
      in (p3, set_kind_stats ''handicaps'' (handicaps_taken (pr_custom p3)) p3 d))"

definition colosseum_finish :: "int \<Rightarrow> int \<Rightarrow> colosseum processor \<Rightarrow> db \<Rightarrow> colosseum processor \<times> db" where
  "colosseum_finish now ticks p d =
     (count_outcome ''colosseumCompletions'' ''colosseumResets'' ''colosseumWipes'' (set_challenge_split 150 ticks None p), d)"

definition colosseum_hooks :: "kind_params \<Rightarrow> colosseum hooks" where
  "colosseum_hooks kn =
     \<lparr>hk_type = COLOSSEUM, hk_first = COLOSSEUM_WAVE 1, hk_last = COLOSSEUM_WAVE 12, hk_initial = initial_colosseum,
      hk_custom_data = (\<lambda>c. c\<lparr>co_selected := None, co_options := []\<rparr>), hk_retriable = (\<lambda>_. False),
      hk_recorded = colosseum_recorded kn, hk_create = (\<lambda>p d. set_kind_stats ''handicaps'' [] p d),
      hk_event = colosseum_event, hk_stage = colosseum_stage kn, hk_final_ticks = pr_ticks, hk_finish = colosseum_finish\<rparr>"

subsection \<open>Inferno\<close>

record inferno_wave = stage_record +
  iw_ticks :: int
  iw_start :: int

record inferno =
  in_waves :: "inferno_wave list"
  in_digs :: int
  in_revives :: int
  in_wave_start :: "int option"

definition initial_inferno :: inferno where
  "initial_inferno = \<lparr>in_waves = [], in_digs = 0, in_revives = 0, in_wave_start = None\<rparr>"

definition wave_to_split :: "int \<Rightarrow> int option" where
  "wave_to_split wave =
     map_of [(9, 222), (18, 223), (25, 224), (35, 225), (42, 226), (50, 227), (57, 228), (60, 229), (63, 230), (66, 231),
       (67, 232), (68, 233), (69, 234)] wave"

definition stage_to_wave :: "kind_params \<Rightarrow> stage \<Rightarrow> int" where
  "stage_to_wave kn stage = kn_stage kn stage - kn_stage kn (INFERNO_WAVE 1) + 1"

datatype pillar = UNKNOWN_PILLAR | WEST | EAST | SOUTH

definition pillar_from_coords :: "int \<Rightarrow> int \<Rightarrow> pillar" where
  "pillar_from_coords x y =
     (if x = 2257 \<and> y = 5349 then WEST else if x = 2274 \<and> y = 5351 then EAST
      else if x = 2267 \<and> y = 5335 then SOUTH else UNKNOWN_PILLAR)"

definition pillar_collapse :: "kind_params \<Rightarrow> event \<Rightarrow> npc_msg \<Rightarrow> inferno processor \<Rightarrow> db \<Rightarrow> db" where
  "pillar_collapse kn e n p d =
     (if kn_rocky_support kn (nm_id n)
      then (case pillar_from_coords (ev_x e) (ev_y e) of
          WEST \<Rightarrow> set_kind_stats ''west_pillar_collapse_wave'' [stage_to_wave kn (pr_stage p)] p d
        | EAST \<Rightarrow> set_kind_stats ''east_pillar_collapse_wave'' [stage_to_wave kn (pr_stage p)] p d
        | SOUTH \<Rightarrow> set_kind_stats ''south_pillar_collapse_wave'' [stage_to_wave kn (pr_stage p)] p d
        | UNKNOWN_PILLAR \<Rightarrow> d)
      else d)"

definition count_inferno_attack :: "kind_params \<Rightarrow> int \<Rightarrow> inferno \<Rightarrow> inferno" where
  "count_inferno_attack kn a c =
     (if a = kn_meleer_dig kn then c\<lparr>in_digs := in_digs c + 1\<rparr>
      else if a = kn_mager_resurrect kn then c\<lparr>in_revives := in_revives c + 1\<rparr> else c)"

definition inferno_event ::
    "kind_params \<Rightarrow> event list \<Rightarrow> nat \<Rightarrow> inferno processor \<Rightarrow> db \<Rightarrow> bool option \<times> event list \<times> inferno processor \<times> db" where
  "inferno_event kn es i p d =
     (let e = es ! i in
      case ev_type e of
        NPC_DEATH \<Rightarrow> (case ev_npc e of None \<Rightarrow> (None, es, p, d) | Some n \<Rightarrow> (Some True, es, p, pillar_collapse kn e n p d))
      | NPC_ATTACK \<Rightarrow>
          (case ev_npc_attack e of None \<Rightarrow> (None, es, p, d)
           | Some a \<Rightarrow> (Some True, es, map_custom (count_inferno_attack kn (na_attack a)) p, d))
      | INFERNO_WAVE_START \<Rightarrow> (Some False, es, map_custom (\<lambda>c. c\<lparr>in_wave_start := Some (ev_overall_ticks e)\<rparr>) p, d)
      | _ \<Rightarrow> (Some True, es, p, d))"

definition inferno_recorded :: "kind_params \<Rightarrow> inferno \<Rightarrow> stage \<Rightarrow> bool" where
  "inferno_recorded kn c =
     recorded_up_to (kn_stage kn) (INFERNO_WAVE 1) (INFERNO_WAVE 69) (map sw_stage (in_waves c))"

text \<open>The total follows the reported start of the wave, or counts the six ticks between two waves.\<close>

definition inferno_total :: "kind_params \<Rightarrow> stage \<Rightarrow> merged_events \<Rightarrow> inferno processor \<Rightarrow> inferno processor" where
  "inferno_total kn stage me p =
     (case in_wave_start (pr_custom p) of
        Some start \<Rightarrow>
          (let p1 = set_total_ticks (start + me_last_tick me) p
           in case wave_to_split (stage_to_wave kn stage) of None \<Rightarrow> p1 | Some s \<Rightarrow> set_challenge_split s start None p1)
      | None \<Rightarrow> set_total_ticks (pr_ticks p + 6) p)"

definition inferno_wave_of :: "stage \<Rightarrow> merged_events \<Rightarrow> inferno processor \<Rightarrow> inferno_wave" where
  "inferno_wave_of stage me p =
     \<lparr>sw_stage = stage, sw_ticks_lost = me_missing me, sw_npcs = sg_npcs (pr_room p), iw_ticks = me_last_tick me,
      iw_start = (case in_wave_start (pr_custom p) of Some t \<Rightarrow> t | None \<Rightarrow> pr_ticks p - me_last_tick me)\<rparr>"

definition inferno_stage :: "kind_params \<Rightarrow> stage \<Rightarrow> merged_events \<Rightarrow> inferno processor \<Rightarrow> db \<Rightarrow> inferno processor \<times> db" where
  "inferno_stage kn stage me p d =
     (let p1 = set_stage_split (235 + (stage_to_wave kn stage - 1)) (me_last_tick me) 0 True (inferno_total kn stage me p);
          p2 = map_custom (\<lambda>c. c\<lparr>in_waves := in_waves c @ [inferno_wave_of stage me p1]\<rparr>) p1
      in (p2, set_kind_stats ''mager_revives'' [in_revives (pr_custom p2)] p2
            (set_kind_stats ''meleer_digs'' [in_digs (pr_custom p2)] p2 d)))"

definition set_splits_accurate :: "int \<Rightarrow> 'c processor \<Rightarrow> db \<Rightarrow> db" where
  "set_splits_accurate now p d =
     (let d1 = d\<lparr>d_splits := map (\<lambda>s. if sp_challenge s = pr_id p then s\<lparr>sp_accurate := True\<rparr> else s) (d_splits d)\<rparr>
      in update_own_pbs now (filter (\<lambda>s. sp_challenge s = pr_id p) (d_splits d1)) p d1)"

definition inferno_finish :: "kind_params \<Rightarrow> int \<Rightarrow> int \<Rightarrow> inferno processor \<Rightarrow> db \<Rightarrow> inferno processor \<times> db" where
  "inferno_finish kn now ticks p d =
     (let p1 = count_outcome ''infernoCompletions'' ''infernoResets'' ''infernoWipes''
            (set_challenge_split 221 ticks None (set_challenge_split 220 ticks None p))
      in (p1, if inferno_recorded kn (pr_custom p1) (INFERNO_WAVE 69) \<and> pr_status p1 = CHALLENGE_COMPLETED \<and>
                 ticks = pr_ticks p1
              then set_splits_accurate now p1 d else d))"

definition inferno_hooks :: "kind_params \<Rightarrow> inferno hooks" where
  "inferno_hooks kn =
     \<lparr>hk_type = INFERNO, hk_first = INFERNO_WAVE 1, hk_last = INFERNO_WAVE 69, hk_initial = initial_inferno,
      hk_custom_data = (\<lambda>c. c\<lparr>in_wave_start := None\<rparr>), hk_retriable = (\<lambda>_. False), hk_recorded = inferno_recorded kn,
      hk_create = (\<lambda>p d. set_kind_stats ''meleer_digs'' [0] p d), hk_event = inferno_event kn,
      hk_stage = inferno_stage kn, hk_final_ticks = pr_ticks, hk_finish = inferno_finish kn\<rparr>"

subsection \<open>Doom of Mokhaiotl\<close>

text \<open>\<^verbatim>\<open>MOKHAIOTL_DELVE_8PLUS\<close>, the stage after the eighth delve, which is repeated.\<close>

definition delve_8plus :: stage where
  "delve_8plus = MOKHAIOTL_DELVE 9"

record mokhaiotl_delve = stage_record +
  md_delve :: int
  md_ticks :: int
  md_larvae :: int

record mokhaiotl =
  mo_delves :: "mokhaiotl_delve list"
  mo_ticks_1_to_8 :: "int option"
  mo_larvae :: int

definition initial_mokhaiotl :: mokhaiotl where
  "initial_mokhaiotl = \<lparr>mo_delves = [], mo_ticks_1_to_8 = None, mo_larvae = 0\<rparr>"

definition get_delve :: "kind_params \<Rightarrow> 'c processor \<Rightarrow> int" where
  "get_delve kn p =
     (if pr_stage p = delve_8plus then 8 + (case pr_attempt p of None \<Rightarrow> 1 | Some a \<Rightarrow> a)
      else kn_stage kn (pr_stage p) - kn_stage kn (MOKHAIOTL_DELVE 1) + 1)"

definition styled_attack :: "kind_params \<Rightarrow> int \<Rightarrow> int \<Rightarrow> int" where
  "styled_attack kn attack style =
     (if attack = kn_mokha_ball kn
      then (if style = kn_style_range kn then kn_mokha_ranged_ball kn
            else if style = kn_style_mage kn then kn_mokha_mage_ball kn else attack)
      else (if style = kn_style_melee kn then kn_mokha_melee_auto kn
            else if style = kn_style_range kn then kn_mokha_ranged_auto kn
            else if style = kn_style_mage kn then kn_mokha_mage_auto kn else attack))"

definition unstyled_attack :: "kind_params \<Rightarrow> int \<Rightarrow> event \<Rightarrow> bool" where
  "unstyled_attack kn t e \<longleftrightarrow>
     ev_tick e = t \<and> ev_type e = NPC_ATTACK \<and>
     (case ev_npc_attack e of None \<Rightarrow> True | Some a \<Rightarrow> na_attack a = kn_mokha_auto kn \<or> na_attack a = kn_mokha_ball kn)"

fun find_index :: "('a \<Rightarrow> bool) \<Rightarrow> 'a list \<Rightarrow> nat option" where
  "find_index P [] = None"
| "find_index P (x # xs) = (if P x then Some 0 else map_option Suc (find_index P xs))"

definition set_attack_style :: "kind_params \<Rightarrow> int \<Rightarrow> event \<Rightarrow> event" where
  "set_attack_style kn style e =
     e\<lparr>ev_npc_attack := map_option (\<lambda>a. a\<lparr>na_attack := styled_attack kn (na_attack a) style\<rparr>) (ev_npc_attack e)\<rparr>"

text \<open>
  The style event rewrites the attack it refers to, which may be among the events to write already, and is not written.
  The search throws when it meets an attack without its message.
\<close>

definition mokhaiotl_event ::
    "kind_params \<Rightarrow> event list \<Rightarrow> nat \<Rightarrow> mokhaiotl processor \<Rightarrow> db \<Rightarrow>
     bool option \<times> event list \<times> mokhaiotl processor \<times> db" where
  "mokhaiotl_event kn es i p d =
     (let e = es ! i in
      case ev_type e of
        MOKHAIOTL_ATTACK_STYLE \<Rightarrow>
          (case ev_attack_tick e of
             None \<Rightarrow> (None, es, p, d)
           | Some t \<Rightarrow>
               (case find_index (unstyled_attack kn t) es of
                  None \<Rightarrow> (Some False, es, p, d)
                | Some k \<Rightarrow>
                    (if ev_npc_attack (es ! k) = None then (None, es, p, d)
                     else (Some False, es[k := set_attack_style kn (ev_attack_style e) (es ! k)], p, d))))
      | MOKHAIOTL_LARVA_LEAK \<Rightarrow> (Some True, es, map_custom (\<lambda>c. c\<lparr>mo_larvae := mo_larvae c + 1\<rparr>) p, d)
      | _ \<Rightarrow> (Some True, es, p, d))"

definition mokhaiotl_recorded :: "kind_params \<Rightarrow> mokhaiotl \<Rightarrow> stage \<Rightarrow> bool" where
  "mokhaiotl_recorded kn c =
     recorded_up_to (kn_stage kn) (MOKHAIOTL_DELVE 1) delve_8plus (map sw_stage (mo_delves c))"

definition mokhaiotl_splits ::
    "kind_params \<Rightarrow> stage \<Rightarrow> merged_events \<Rightarrow> mokhaiotl processor \<Rightarrow> mokhaiotl processor" where
  "mokhaiotl_splits kn stage me p =
     (if stage = delve_8plus then p
      else
        (let num = kn_stage kn;
             index = num stage - num (MOKHAIOTL_DELVE 1);
             p1 = (if stage = MOKHAIOTL_DELVE 8 then map_custom (\<lambda>c. c\<lparr>mo_ticks_1_to_8 := Some (pr_ticks p)\<rparr>) p else p);
             p2 = set_stage_split (202 + index) (me_last_tick me) 0 True p1
         in if me_status me = COMPLETED \<and> num stage > num (MOKHAIOTL_DELVE 1) \<and> num stage < num (MOKHAIOTL_DELVE 8) \<and>
               mokhaiotl_recorded kn (pr_custom p2) stage
            then set_challenge_split (210 + (index - 1)) (pr_ticks p2) (Some (\<not> pr_party_changed p2 \<and> me_precise me)) p2
            else p2))"

definition count_delve :: "int \<Rightarrow> bool \<Rightarrow> string \<Rightarrow> 'c processor \<Rightarrow> 'c processor" where
  "count_delve delve completed name p =
     (let p1 = add_stat name ''mokhaiotlTotalDelves'' p;
          p2 = (if completed then add_stat name ''mokhaiotlDelvesCompleted'' p1 else p1)
      in if completed \<and> delve \<ge> 8 then add_stat name ''mokhaiotlDeepDelvesCompleted'' p2 else p2)"

definition update_mokhaiotl_stats :: "int \<Rightarrow> int \<Rightarrow> int option \<Rightarrow> 'c processor \<Rightarrow> db \<Rightarrow> db" where
  "update_mokhaiotl_stats delve larvae completed p d =
     (let old = (case d_kind_stats d (pr_id p) ''larvae_leaked'' of [] \<Rightarrow> 0 | n # _ \<Rightarrow> n);
          d1 = set_kind_stats ''larvae_leaked'' [old + larvae] p (set_kind_stats ''delve'' [delve] p d)
      in case completed of
           Some c \<Rightarrow> (if c \<noteq> 0 then set_kind_stats ''max_completed_delve'' [c] p d1 else d1)
         | None \<Rightarrow> d1)"

definition mokhaiotl_stage ::
    "kind_params \<Rightarrow> stage \<Rightarrow> merged_events \<Rightarrow> mokhaiotl processor \<Rightarrow> db \<Rightarrow> mokhaiotl processor \<times> db" where
  "mokhaiotl_stage kn stage me p d =
     (let delve = get_delve kn p;
          p1 = map_custom (\<lambda>c. c\<lparr>mo_delves := mo_delves c @
            [\<lparr>sw_stage = stage, sw_ticks_lost = me_missing me, sw_npcs = sg_npcs (pr_room p), md_delve = delve,
              md_ticks = me_last_tick me, md_larvae = mo_larvae c\<rparr>]\<rparr>) p;
          p2 = mokhaiotl_splits kn stage me p1;
          p3 = fold (count_delve delve (me_status me = COMPLETED)) (pr_party p2) p2
      in (p3, update_mokhaiotl_stats delve (mo_larvae (pr_custom p3))
            (if me_status me = COMPLETED then Some delve else None) p3 d))"

definition mokhaiotl_final_ticks :: "mokhaiotl processor \<Rightarrow> int" where
  "mokhaiotl_final_ticks p = (case mo_ticks_1_to_8 (pr_custom p) of Some t \<Rightarrow> t | None \<Rightarrow> pr_ticks p)"

definition mokhaiotl_finish :: "int \<Rightarrow> int \<Rightarrow> mokhaiotl processor \<Rightarrow> db \<Rightarrow> mokhaiotl processor \<times> db" where
  "mokhaiotl_finish now ticks p d =
     (count_outcome ''mokhaiotlCompletions'' ''mokhaiotlResets'' ''mokhaiotlWipes'' (set_challenge_split 200 ticks None p), d)"

definition mokhaiotl_hooks :: "kind_params \<Rightarrow> mokhaiotl hooks" where
  "mokhaiotl_hooks kn =
     \<lparr>hk_type = MOKHAIOTL, hk_first = MOKHAIOTL_DELVE 1, hk_last = MOKHAIOTL_DELVE 8, hk_initial = initial_mokhaiotl,
      hk_custom_data = (\<lambda>c. c\<lparr>mo_larvae := 0\<rparr>), hk_retriable = (\<lambda>s. s = delve_8plus),
      hk_recorded = mokhaiotl_recorded kn, hk_create = (\<lambda>p d. set_kind_stats ''delve'' [get_delve kn p] p d),
      hk_event = mokhaiotl_event kn, hk_stage = mokhaiotl_stage kn, hk_final_ticks = mokhaiotl_final_ticks,
      hk_finish = mokhaiotl_finish\<rparr>"

subsection \<open>Frames\<close>

lemma map_custom_frame [simp]:
  "sync_view (map_custom f p) = sync_view p" "identity_of (map_custom f p) = identity_of p"
  "pr_stage (map_custom f p) = pr_stage p" "pr_attempt (map_custom f p) = pr_attempt p"
  "pr_status (map_custom f p) = pr_status p" "pr_ticks (map_custom f p) = pr_ticks p"
  by (simp_all add: map_custom_def sync_view_def identity_of_def)

lemma set_stage_split_frame [simp]:
  "sync_view (set_stage_split ty t st r p) = sync_view p" "identity_of (set_stage_split ty t st r p) = identity_of p"
  "pr_stage (set_stage_split ty t st r p) = pr_stage p" "pr_attempt (set_stage_split ty t st r p) = pr_attempt p"
  "pr_status (set_stage_split ty t st r p) = pr_status p"
  by (simp_all add: set_stage_split_def sync_view_def identity_of_def)

lemma set_challenge_split_frame [simp]:
  "sync_view (set_challenge_split ty t a p) = sync_view p" "identity_of (set_challenge_split ty t a p) = identity_of p"
  "pr_stage (set_challenge_split ty t a p) = pr_stage p" "pr_attempt (set_challenge_split ty t a p) = pr_attempt p"
  "pr_status (set_challenge_split ty t a p) = pr_status p"
  by (simp_all add: set_challenge_split_def sync_view_def identity_of_def)

lemma add_stat_frame [simp]:
  "sync_view (add_stat_by m n k p) = sync_view p" "identity_of (add_stat_by m n k p) = identity_of p"
  "pr_stage (add_stat_by m n k p) = pr_stage p" "pr_attempt (add_stat_by m n k p) = pr_attempt p"
  "pr_status (add_stat_by m n k p) = pr_status p"
  by (simp_all add: add_stat_by_def Let_def sync_view_def identity_of_def split: option.splits)

lemma fold_frame:
  assumes "\<And>x q. sync_view (f x q) = sync_view q \<and> identity_of (f x q) = identity_of q \<and> pr_status (f x q) = pr_status q"
  shows "sync_view (fold f xs p) = sync_view p \<and> identity_of (fold f xs p) = identity_of p \<and> pr_status (fold f xs p) = pr_status p"
  using assms by (induction xs arbitrary: p) auto

lemma sync_view_stage: "sync_view p = sync_view q \<Longrightarrow> pr_stage p = pr_stage q \<and> pr_attempt p = pr_attempt q"
  by (simp add: sync_view_def)

lemma count_outcome_frame [simp]:
  "sync_view (count_outcome a b c p) = sync_view p" "identity_of (count_outcome a b c p) = identity_of p"
  "pr_status (count_outcome a b c p) = pr_status p"
  unfolding count_outcome_def
  by (rule fold_frame [THEN conjunct1] fold_frame [THEN conjunct2, THEN conjunct1] fold_frame [THEN conjunct2, THEN conjunct2],
      simp split: challenge_status.split)+

lemma count_delve_frame [simp]:
  "sync_view (fold (count_delve n b) ns p) = sync_view p" "identity_of (fold (count_delve n b) ns p) = identity_of p"
  "pr_status (fold (count_delve n b) ns p) = pr_status p"
  by (rule fold_frame [THEN conjunct1] fold_frame [THEN conjunct2, THEN conjunct1] fold_frame [THEN conjunct2, THEN conjunct2],
      simp add: count_delve_def Let_def)+

lemma set_total_ticks_frame [simp]:
  "identity_of (set_total_ticks n p) = identity_of p" "pr_stage (set_total_ticks n p) = pr_stage p"
  "pr_attempt (set_total_ticks n p) = pr_attempt p" "pr_status (set_total_ticks n p) = pr_status p"
  by (simp_all add: set_total_ticks_def identity_of_def prepare_update_def)

subsection \<open>The three kinds meet the contract\<close>

interpretation colosseum_kind: challenge_kind "colosseum_hooks kn" for kn
proof
  fix es i p d r es' p' d' h st me now n
  show "hk_event (colosseum_hooks kn) es i p d = (r, es', p', d') \<Longrightarrow> in_sync p h \<Longrightarrow> in_sync p' h"
    using in_sync_view [of p' p h] by (auto simp: colosseum_hooks_def colosseum_event_def split: if_splits)
  show "hk_event (colosseum_hooks kn) es i p d = (r, es', p', d') \<Longrightarrow>
      identity_of p' = identity_of p \<and> pr_stage p' = pr_stage p \<and> pr_attempt p' = pr_attempt p \<and> length es' = length es"
    by (auto simp: colosseum_hooks_def colosseum_event_def split: if_splits)
  show "hk_stage (colosseum_hooks kn) st me p d = (p', d') \<Longrightarrow> in_sync p h \<Longrightarrow> in_sync p' h"
    using in_sync_view [of p' p h] by (auto simp: colosseum_hooks_def colosseum_stage_def Let_def split: if_splits)
  show "hk_stage (colosseum_hooks kn) st me p d = (p', d') \<Longrightarrow>
      identity_of p' = identity_of p \<and> pr_stage p' = pr_stage p \<and> pr_attempt p' = pr_attempt p \<and> pr_status p' = pr_status p"
    by (auto simp: colosseum_hooks_def colosseum_stage_def Let_def split: if_splits)
  show "hk_finish (colosseum_hooks kn) now n p d = (p', d') \<Longrightarrow> identity_of p' = identity_of p \<and> pr_status p' = pr_status p"
    by (auto simp: colosseum_hooks_def colosseum_finish_def)
qed

lemma inferno_total_frame [simp]:
  "identity_of (inferno_total kn st me p) = identity_of p" "pr_stage (inferno_total kn st me p) = pr_stage p"
  "pr_attempt (inferno_total kn st me p) = pr_attempt p" "pr_status (inferno_total kn st me p) = pr_status p"
  by (simp_all add: inferno_total_def Let_def split: option.splits)

lemma in_sync_challenge_split [simp]: "in_sync (set_challenge_split ty t a p) h = in_sync p h"
  by (rule in_sync_view) simp

lemma inferno_total_sync: "in_sync p h \<Longrightarrow> in_sync (inferno_total kn st me p) h"
  by (auto simp: inferno_total_def Let_def in_sync_methods split: option.splits)

interpretation inferno_kind: challenge_kind "inferno_hooks kn" for kn
proof
  fix es i p d r es' p' d' h st me now n
  show "hk_event (inferno_hooks kn) es i p d = (r, es', p', d') \<Longrightarrow> in_sync p h \<Longrightarrow> in_sync p' h"
    using in_sync_view [of p' p h]
    by (auto simp: inferno_hooks_def inferno_event_def Let_def split: event_type.splits option.splits)
  show "hk_event (inferno_hooks kn) es i p d = (r, es', p', d') \<Longrightarrow>
      identity_of p' = identity_of p \<and> pr_stage p' = pr_stage p \<and> pr_attempt p' = pr_attempt p \<and> length es' = length es"
    by (auto simp: inferno_hooks_def inferno_event_def Let_def split: event_type.splits option.splits)
  show "hk_stage (inferno_hooks kn) st me p d = (p', d') \<Longrightarrow> in_sync p h \<Longrightarrow> in_sync p' h"
    using in_sync_view [of p' "inferno_total kn st me p" h] inferno_total_sync [of p h kn st me]
    by (auto simp: inferno_hooks_def inferno_stage_def Let_def)
  show "hk_stage (inferno_hooks kn) st me p d = (p', d') \<Longrightarrow>
      identity_of p' = identity_of p \<and> pr_stage p' = pr_stage p \<and> pr_attempt p' = pr_attempt p \<and> pr_status p' = pr_status p"
    by (auto simp: inferno_hooks_def inferno_stage_def Let_def)
  show "hk_finish (inferno_hooks kn) now n p d = (p', d') \<Longrightarrow> identity_of p' = identity_of p \<and> pr_status p' = pr_status p"
    by (auto simp: inferno_hooks_def inferno_finish_def Let_def)
qed

lemma mokhaiotl_splits_frame [simp]:
  "sync_view (mokhaiotl_splits kn st me p) = sync_view p" "identity_of (mokhaiotl_splits kn st me p) = identity_of p"
  "pr_status (mokhaiotl_splits kn st me p) = pr_status p"
  by (simp_all add: mokhaiotl_splits_def Let_def)

lemma mokhaiotl_stage_frame:
  "mokhaiotl_stage kn st me p d = (p', d') \<Longrightarrow>
     sync_view p' = sync_view p \<and> identity_of p' = identity_of p \<and> pr_status p' = pr_status p"
  by (auto simp: mokhaiotl_stage_def Let_def)

interpretation mokhaiotl_kind: challenge_kind "mokhaiotl_hooks kn" for kn
proof
  fix es i p d r es' p' d' h st me now n
  show "hk_event (mokhaiotl_hooks kn) es i p d = (r, es', p', d') \<Longrightarrow> in_sync p h \<Longrightarrow> in_sync p' h"
    using in_sync_view [of p' p h]
    by (auto simp: mokhaiotl_hooks_def mokhaiotl_event_def Let_def split: event_type.splits option.splits if_splits)
  show "hk_event (mokhaiotl_hooks kn) es i p d = (r, es', p', d') \<Longrightarrow>
      identity_of p' = identity_of p \<and> pr_stage p' = pr_stage p \<and> pr_attempt p' = pr_attempt p \<and> length es' = length es"
    by (auto simp: mokhaiotl_hooks_def mokhaiotl_event_def Let_def split: event_type.splits option.splits if_splits)
  show "hk_stage (mokhaiotl_hooks kn) st me p d = (p', d') \<Longrightarrow> in_sync p h \<Longrightarrow> in_sync p' h"
    using in_sync_view [of p' p h] mokhaiotl_stage_frame [of kn st me p d p' d'] by (simp add: mokhaiotl_hooks_def)
  show "hk_stage (mokhaiotl_hooks kn) st me p d = (p', d') \<Longrightarrow>
      identity_of p' = identity_of p \<and> pr_stage p' = pr_stage p \<and> pr_attempt p' = pr_attempt p \<and> pr_status p' = pr_status p"
    using mokhaiotl_stage_frame [of kn st me p d p' d'] sync_view_stage [of p' p] by (simp add: mokhaiotl_hooks_def)
  show "hk_finish (mokhaiotl_hooks kn) now n p d = (p', d') \<Longrightarrow> identity_of p' = identity_of p \<and> pr_status p' = pr_status p"
    by (auto simp: mokhaiotl_hooks_def mokhaiotl_finish_def)
qed

subsection \<open>Updates of a stage\<close>

text \<open>A running Colosseum challenge and a wave of it in which one handicap is chosen.\<close>

definition sample_stage_number :: "stage \<Rightarrow> int" where
  "sample_stage_number s =
     (case s of MOKHAIOTL_DELVE n \<Rightarrow> 40 + int n | COLOSSEUM_WAVE n \<Rightarrow> 100 + int n | INFERNO_WAVE n \<Rightarrow> 200 + int n
      | UNKNOWN_STAGE \<Rightarrow> 0 | _ \<Rightarrow> 10)"

definition sample_kinds :: kind_params where
  "sample_kinds =
     \<lparr>kn_stage = sample_stage_number, kn_rocky_support = (\<lambda>i. i = 7709), kn_meleer_dig = 1, kn_mager_resurrect = 2,
      kn_mokha_auto = 3, kn_mokha_ball = 4, kn_mokha_ranged_ball = 5, kn_mokha_mage_ball = 6, kn_mokha_melee_auto = 7,
      kn_mokha_ranged_auto = 8, kn_mokha_mage_auto = 9, kn_style_melee = 0, kn_style_range = 1, kn_style_mage = 2\<rparr>"

definition sample_proc :: proc_params where
  "sample_proc =
     \<lparr>pp_stage = sample_stage_number, pp_mode = (\<lambda>m. if m = NO_MODE then 0 else 1), pp_hash = (\<lambda>s. s), pp_torso = 4,
      pp_head = 0\<rparr>"

definition sample_challenge_state :: "colosseum challenge_state" where
  "sample_challenge_state =
     \<lparr>cs_id = 3, cs_session = 2, cs_uuid = ''u'', cs_type = COLOSSEUM, cs_mode = NO_MODE, cs_stage = COLOSSEUM_WAVE 1,
      cs_attempt = None, cs_status = IN_PROGRESS, cs_stage_status = ENTERED, cs_party = [''Zed''],
      cs_players = [\<lparr>pi_id = 7, pi_gear = TORVA\<rparr>], cs_deaths = 0, cs_ticks = 12, cs_reported_challenge = None,
      cs_reported_overall = None, cs_custom = None, cs_party_changed = False, cs_state = ACTIVE, cs_timeout = NO_TIMEOUT,
      cs_processing = None\<rparr>"

definition handicap_event :: event where
  "handicap_event =
     \<lparr>ev_type = COLOSSEUM_HANDICAP_CHOICE, ev_stage = COLOSSEUM_WAVE 1, ev_tick = 0, ev_x = 0, ev_y = 0, ev_npc = None,
      ev_player = None, ev_player_attack = None, ev_player_spell = None, ev_npc_attack = None, ev_sote = None, ev_coords = [],
      ev_nylo_wave = None, ev_phase = 0, ev_dawn_dropped = None, ev_heal_player = None, ev_exhumed = None,
      ev_attack_tick = None, ev_bounced_player = [], ev_room_cap = 0, ev_nylos_alive = 0, ev_attack_style = 0,
      ev_dawn_player = [], ev_dawn_damage = 0, ev_bloat_down = (0, 0), ev_bounce_counts = (0, 0), ev_heal_amount = 0,
      ev_handicap = 2, ev_handicap_options = [2, 5], ev_overall_ticks = 0, ev_grapple = (0, 0)\<rparr>"

definition sample_colosseum_wave :: merged_events where
  "sample_colosseum_wave =
     \<lparr>me_events = [handicap_event], me_status = COMPLETED, me_last_tick = 40, me_missing = 0, me_precise = True,
      me_accurate_until = 41, me_queryable_until = 0\<rparr>"

lemma process_stage_runs:
  assumes "load_ids p d = Some p0"
    and "process_events pp hk [0..<length (me_events me)] (me_events me) (clear_stage p0) d = (True, es, p1, d1)"
    and "me_queryable_until me \<le> 0"
  shows "\<exists>fs p' d'. process_stage pp hk now today stage me p d = (Some fs, p', d')"
  using assms
  by (auto simp: process_stage_def Let_def write_stage_events_def restrict_accuracy_to_def split: prod.splits option.splits)

lemma sample_ids: "load_ids (load_processor (colosseum_hooks sample_kinds) sample_challenge_state) empty_db =
   Some (load_processor (colosseum_hooks sample_kinds) sample_challenge_state)"
  by (simp add: load_ids_def load_processor_def sample_challenge_state_def colosseum_hooks_def)

lemma sample_colosseum_wave_processed:
  "\<exists>es p1 d1. process_events sample_proc (colosseum_hooks sample_kinds) [0] [handicap_event]
     (clear_stage (load_processor (colosseum_hooks sample_kinds) sample_challenge_state)) empty_db = (True, es, p1, d1)"
  by (simp add: process_event_def process_base_def handicap_event_def colosseum_hooks_def colosseum_event_def)

lemma sample_stage_runs:
  "\<exists>fs p' d'. process_stage sample_proc (colosseum_hooks sample_kinds) 100 5 (COLOSSEUM_WAVE 1) sample_colosseum_wave
      (load_processor (colosseum_hooks sample_kinds) sample_challenge_state) empty_db = (Some fs, p', d')"
  using sample_colosseum_wave_processed process_stage_runs [OF sample_ids] by (fastforce simp: sample_colosseum_wave_def)

text \<open>
  C12: When a stage of a stored challenge is processed, the updates the processor returns bring the stored hash exactly up to
  the processor's state: mode, stage, attempt, deaths, ticks, party flag, status, players and the data of the challenge
  kind. The status is the one the stage's outcome determines; uuid, party, stage and attempt are left alone.
\<close>

theorem stage_updates_mirror_state:
  assumes "challenge_kind hk" and "challenge_from_hash h = Some (Some s)"
    and "process_stage pp hk now today stage me (load_processor hk s) d = (Some fs, p', d')"
  shows "synced p' (set_fields fs h) \<and> ch_status (set_fields fs h) = Some (pr_status p') \<and>
     ch_players (set_fields fs h) = Some (pr_players p') \<and>
     ch_custom (set_fields fs h) = Some (hk_custom_data hk (pr_custom p')) \<and>
     pr_status p' = stage_outcome pp (hk_last hk) stage (me_status me) \<and>
     pr_uuid p' = cs_uuid s \<and> pr_party p' = cs_party s \<and> pr_stage p' = cs_stage s \<and> pr_attempt p' = cs_attempt s"
  using challenge_kind.processed_stage [OF assms(1,3) in_sync_load [OF assms(2)]]
  by (simp add: identity_of_def load_processor_def)

theorem stage_updates_mirror_state_witness:
  "\<exists>fs p' d'. process_stage sample_proc (colosseum_hooks sample_kinds) 100 5 (COLOSSEUM_WAVE 1) sample_colosseum_wave
      (load_processor (colosseum_hooks sample_kinds) sample_challenge_state) empty_db = (Some fs, p', d') \<and>
     synced p' (set_fields fs (set_fields (state_fields sample_challenge_state) empty_hash)) \<and> pr_uuid p' = ''u''"
proof -
  obtain fs p' d' where run: "process_stage sample_proc (colosseum_hooks sample_kinds) 100 5 (COLOSSEUM_WAVE 1) sample_colosseum_wave
      (load_processor (colosseum_hooks sample_kinds) sample_challenge_state) empty_db = (Some fs, p', d')"
    using sample_stage_runs by blast
  show ?thesis
    using run stage_updates_mirror_state
      [OF colosseum_kind.challenge_kind_axioms challenge_from_state_fields [of sample_challenge_state] run]
    by (simp add: sample_challenge_state_def)
qed

subsection \<open>Handicaps\<close>

definition handicaps_wf :: "colosseum \<Rightarrow> bool" where
  "handicaps_wf c \<longleftrightarrow>
     length (co_levels c) = 14 \<and> (\<forall>x \<in> set (co_handicaps c). 0 \<le> x) \<and>
     (\<forall>h < 14. 0 \<le> co_levels c ! h \<and>
        (0 < co_levels c ! h \<longrightarrow> int h + 30 * (co_levels c ! h - 1) \<in> set (co_handicaps c)))"

lemma raise_handicap_taken:
  "mset (concat (map (\<lambda>h. replicate (nat (handicap_level h)) (handicap_base h)) (raise_handicap h (h + l * 30) hs))) =
     add_mset h (mset (concat (map (\<lambda>h. replicate (nat (handicap_level h)) (handicap_base h)) hs)))"
  if "0 \<le> h" "h < 14" "0 \<le> l" "\<forall>x \<in> set hs. 0 \<le> x" "0 < l \<longrightarrow> h + 30 * (l - 1) \<in> set hs" for h l :: int and hs
proof (cases "index_of (h + l * 30 - 30) hs")
  case None
  then have "h + l * 30 - 30 \<notin> set hs" by (simp add: index_of_None)
  with that have "l = 0" by (cases "l = 0") (auto simp: algebra_simps)
  with None that show ?thesis
    by (simp add: raise_handicap_def handicap_level_increment_def handicap_level_def handicap_base_def)
next
  case (Some i)
  then have i: "i < length hs" "hs ! i = h + l * 30 - 30" using index_of_Some by force+
  then have "0 \<le> h + l * 30 - 30" using that(4) by (metis nth_mem)
  with that have l: "0 < l" by linarith
  have base: "handicap_base (h + l * 30) = h" "handicap_base (h + l * 30 - 30) = h"
    "handicap_level (h + l * 30) = l + 1" "handicap_level (h + l * 30 - 30) = l"
    using that(1,2) by (simp_all add: handicap_base_def handicap_level_def handicap_level_increment_def mod_diff_eq [symmetric])
  let ?f = "\<lambda>h. replicate (nat (handicap_level h)) (handicap_base h)"
  have hs: "hs = take i hs @ (h + l * 30 - 30) # drop (Suc i) hs" using i by (metis id_take_nth_drop)
  have "nat (l + 1) = Suc (nat l)" using l by simp
  moreover have "mset (concat (map ?f (take i hs @ (h + l * 30) # drop (Suc i) hs))) =
      add_mset h (mset (concat (map ?f (take i hs @ (h + l * 30 - 30) # drop (Suc i) hs))))"
    using base calculation by simp
  moreover have "raise_handicap h (h + l * 30) hs = take i hs @ (h + l * 30) # drop (Suc i) hs"
    using Some i by (simp add: raise_handicap_def handicap_level_increment_def upd_conv_take_nth_drop)
  ultimately show ?thesis using hs by metis
qed

lemma set_raise_handicap:
  "x \<in> set hs \<Longrightarrow> x \<noteq> sel - 30 \<Longrightarrow> x \<in> set (raise_handicap h sel hs)"
  by (cases "index_of (sel - 30) hs")
    (auto simp: raise_handicap_def handicap_level_increment_def in_set_conv_nth nth_list_update dest!: index_of_Some)

lemma handicap_values_differ:
  "0 \<le> k \<Longrightarrow> k < 14 \<Longrightarrow> 0 \<le> h \<Longrightarrow> h < 14 \<Longrightarrow> k \<noteq> h \<Longrightarrow> k + 30 * (a - 1) \<noteq> h + b * 30 - (30 :: int)"
  by presburger

lemma choose_handicap_step:
  assumes wf: "handicaps_wf c" and h: "0 \<le> h" "h < 14"
  shows "handicaps_wf (choose_handicap h opts c) \<and>
     mset (handicaps_taken (choose_handicap h opts c)) = add_mset h (mset (handicaps_taken c))"
proof -
  let ?l = "co_levels c ! nat h" and ?hs = "co_handicaps c"
  have len: "length (co_levels c) = 14" and nn: "\<forall>x \<in> set ?hs. 0 \<le> x" using wf by (simp_all add: handicaps_wf_def)
  have lev: "0 \<le> ?l" "0 < ?l \<longrightarrow> h + 30 * (?l - 1) \<in> set ?hs"
    using wf h by (auto simp: handicaps_wf_def dest!: spec [of _ "nat h"])
  have sel: "level_handicap (co_levels c) h = h + ?l * 30" "level_of (co_levels c) h = ?l"
    using h len by (auto simp: level_handicap_def level_of_def handicap_level_increment_def)
  note taken = raise_handicap_taken [OF h lev(1) nn lev(2)]
  have new: "h + 30 * ?l \<in> set (raise_handicap h (h + ?l * 30) ?hs)"
  proof (cases "index_of (h + ?l * 30 - 30) ?hs")
    case None
    then have "?l = 0" using lev by (auto simp: index_of_None algebra_simps)
    with None show ?thesis by (simp add: raise_handicap_def handicap_level_increment_def)
  next
    case (Some i)
    with index_of_Some [OF Some] show ?thesis
      by (auto simp: raise_handicap_def handicap_level_increment_def in_set_conv_nth intro!: exI [of _ i])
  qed
  have pos: "0 \<le> x" if x: "x \<in> set (raise_handicap h (h + ?l * 30) ?hs)" for x
    using x nn h lev(1) by (auto simp: raise_handicap_def handicap_level_increment_def dest!: index_of_Some
        subsetD [OF set_update_subset_insert] split: option.splits)
  have keep: "int k + 30 * (co_levels c ! k - 1) \<in> set (raise_handicap h (h + ?l * 30) ?hs)"
    if k: "k < 14" "k \<noteq> nat h" "0 < co_levels c ! k" for k
  proof (rule set_raise_handicap)
    show "int k + 30 * (co_levels c ! k - 1) \<in> set ?hs" using wf k by (simp add: handicaps_wf_def)
    show "int k + 30 * (co_levels c ! k - 1) \<noteq> h + ?l * 30 - 30"
      using k h by (intro handicap_values_differ) auto
  qed
  have "handicaps_wf (choose_handicap h opts c)"
    unfolding handicaps_wf_def choose_handicap_def Let_def sel
    using wf len h lev(1) new keep pos
    by (auto simp: handicaps_wf_def nth_list_update algebra_simps)
  with taken show ?thesis by (simp add: handicaps_taken_def choose_handicap_def sel Let_def)
qed

text \<open>
  C13: After any sequence of handicap choices in the Colosseum, the handicaps written to the statistics are exactly the
  chosen ones, each as often as it was chosen, although the code stores a handicap only once and counts its level in
  the number.
\<close>

theorem colosseum_handicaps_counted:
  assumes "list_all (\<lambda>(h, opts). 0 \<le> h \<and> h < 14) choices"
  shows "mset (handicaps_taken (fold (\<lambda>(h, opts). choose_handicap h opts) choices initial_colosseum)) = mset (map fst choices)"
proof -
  have "list_all (\<lambda>(h, opts). 0 \<le> h \<and> h < 14) cs \<Longrightarrow> handicaps_wf c \<Longrightarrow>
      mset (handicaps_taken (fold (\<lambda>(h, opts). choose_handicap h opts) cs c)) = mset (handicaps_taken c) + mset (map fst cs)"
    for cs c
  proof (induction cs arbitrary: c)
    case (Cons x cs)
    then show ?case using choose_handicap_step [of c "fst x" "snd x"] by (cases x) simp
  qed simp
  moreover have "handicaps_wf initial_colosseum" by (simp add: handicaps_wf_def initial_colosseum_def)
  ultimately show ?thesis using assms by (simp add: handicaps_taken_def initial_colosseum_def)
qed

theorem colosseum_handicaps_counted_witness:
  "mset (handicaps_taken (fold (\<lambda>(h, opts). choose_handicap h opts) [(2, [2, 3]), (5, [5]), (2, [2, 7])] initial_colosseum)) =
     {#2, 2, 5#}"
  using colosseum_handicaps_counted [of "[(2, [2, 3]), (5, [5]), (2, [2, 7])]"] by simp

end
