(* ===== verification/Optimistic.thy ===== *)
theory Optimistic
  imports Blert_Prelude
begin

text \<open>
  Transactions with optimistic locking (\<^verbatim>\<open>TransactionClient\<close> and \<^verbatim>\<open>retryTransaction\<close> of
  \<^verbatim>\<open>challenge-server/redis-client.ts\<close>), over any store of keys. A transaction reads keys, each of which it watches first,
  queues writes, and executes them at its end unless a watched key was written in between; then it is tried again. Its
  reads do not see its own queued writes. Some transactions also write to the SQL database, at once: that effect is part of
  the program and is not undone when the transaction is tried again.
\<close>

subsection \<open>Transactions\<close>

datatype ('k, 'v, 'w, 'd, 'a) txn =
    Return 'a
  | Throw
  | Read 'k "'v \<Rightarrow> ('k, 'v, 'w, 'd, 'a) txn"
  | Queue 'w "('k, 'v, 'w, 'd, 'a) txn"
  | Effect "'d \<Rightarrow> 'd" "('k, 'v, 'w, 'd, 'a) txn"

text \<open>
  The reference: a transaction that runs alone. Its result, which is \<^const>\<open>None\<close> when it throws, the writes it queues
  and the database. A transaction that throws executes none of its writes.
\<close>

primrec run_txn ::
    "('k \<Rightarrow> 's \<Rightarrow> 'v) \<Rightarrow> ('k, 'v, 'w, 'd, 'a) txn \<Rightarrow> 's \<Rightarrow> 'd \<Rightarrow> 'a option \<times> 'w list \<times> 'd" where
  "run_txn rd (Return a) s d = (Some a, [], d)"
| "run_txn rd Throw s d = (None, [], d)"
| "run_txn rd (Read k f) s d = run_txn rd (f (rd k s)) s d"
| "run_txn rd (Queue w p) s d =
     (case run_txn rd p s d of
        (None, ws, d') \<Rightarrow> (None, [], d')
      | (Some a, ws, d') \<Rightarrow> (Some a, w # ws, d'))"
| "run_txn rd (Effect g p) s d = run_txn rd p s (g d)"

lemma run_txn_throws: "run_txn rd p s d = (None, ws, d') \<Longrightarrow> ws = []"
proof (induction p arbitrary: d ws d')
  case (Read k f)
  then show ?case using Read.IH [OF rangeI] by simp
qed (auto split: prod.splits option.splits)

definition atomically ::
    "('k \<Rightarrow> 's \<Rightarrow> 'v) \<Rightarrow> ('w \<Rightarrow> 's \<Rightarrow> 's) \<Rightarrow> ('k, 'v, 'w, 'd, 'a) txn \<Rightarrow> 's \<Rightarrow> 'd \<Rightarrow> 'a option \<times> 's \<times> 'd" where
  "atomically rd ap p s d = (case run_txn rd p s d of (r, ws, d') \<Rightarrow> (r, fold ap ws s, d'))"

subsection \<open>Optimistic attempts\<close>

text \<open>
  What others write between two commands of a transaction, and whether that touches a watched key. The interference of an
  attempt is a list with the writes before each of its reads and before its execution; none are left when it is exhausted.
\<close>

definition interfere ::
    "('w \<Rightarrow> 's \<Rightarrow> 's) \<Rightarrow> ('w \<Rightarrow> 'k set) \<Rightarrow> 'k set \<Rightarrow> 'w list \<Rightarrow> 's \<Rightarrow> bool \<Rightarrow> 's \<times> bool" where
  "interfere ap tc watched ws s dirty = (fold ap ws s, dirty \<or> list_ex (\<lambda>w. tc w \<inter> watched \<noteq> {}) ws)"

definition first_writes :: "'w list list \<Rightarrow> 'w list" where
  "first_writes es = (case es of [] \<Rightarrow> [] | e # _ \<Rightarrow> e)"

text \<open>
  One attempt: \<^const>\<open>None\<close> when the execution is refused, otherwise the result as above, the store and the database. A
  transaction that queued nothing executes nothing, and is not checked.
\<close>

primrec attempt ::
    "('k \<Rightarrow> 's \<Rightarrow> 'v) \<Rightarrow> ('w \<Rightarrow> 's \<Rightarrow> 's) \<Rightarrow> ('w \<Rightarrow> 'k set) \<Rightarrow> ('k, 'v, 'w, 'd, 'a) txn \<Rightarrow> 'w list list \<Rightarrow> 'k set \<Rightarrow> bool \<Rightarrow>
     'w list \<Rightarrow> 's \<Rightarrow> 'd \<Rightarrow> 'a option option \<times> 's \<times> 'd" where
  "attempt rd ap tc (Return a) es watched dirty q s d =
     (case interfere ap tc watched (first_writes es) s dirty of
        (s', dirty') \<Rightarrow>
          (if q = [] then (Some (Some a), s', d)
           else if dirty' then (None, s', d)
           else (Some (Some a), fold ap q s', d)))"
| "attempt rd ap tc Throw es watched dirty q s d = (Some None, s, d)"
| "attempt rd ap tc (Read k f) es watched dirty q s d =
     (case interfere ap tc (insert k watched) (first_writes es) s dirty of
        (s', dirty') \<Rightarrow> attempt rd ap tc (f (rd k s')) (tl es) (insert k watched) dirty' q s' d)"
| "attempt rd ap tc (Queue w p) es watched dirty q s d = attempt rd ap tc p es watched dirty (q @ [w]) s d"
| "attempt rd ap tc (Effect g p) es watched dirty q s d = attempt rd ap tc p es watched dirty q s (g d)"

text \<open>Trying again: the interference of every attempt, numbered, and the number of the attempt that went through.\<close>

partial_function (option) retry_txn ::
    "('k \<Rightarrow> 's \<Rightarrow> 'v) \<Rightarrow> ('w \<Rightarrow> 's \<Rightarrow> 's) \<Rightarrow> ('w \<Rightarrow> 'k set) \<Rightarrow> ('k, 'v, 'w, 'd, 'a) txn \<Rightarrow> (nat \<Rightarrow> 'w list list) \<Rightarrow> nat \<Rightarrow> 's \<Rightarrow> 'd \<Rightarrow>
     ('a option \<times> nat \<times> 's \<times> 'd) option" where
  "retry_txn rd ap tc p envs n s d =
     (case attempt rd ap tc p (envs n) {} False [] s d of
        (Some r, s', d') \<Rightarrow> Some (r, n, s', d')
      | (None, s', d') \<Rightarrow> retry_txn rd ap tc p envs (Suc n) s' d')"

text \<open>
  Several clients at once, each with its own transaction: one that runs has the rest of its program, the keys it watches,
  whether one of them was written since, and the writes it queued. Watching a key and reading it are two commands, others'
  commands may come between any two, and the execution of one transaction disturbs the others. A refused client starts
  again. Writers outside of the clients may write at any time what \<open>allowed\<close> admits.
\<close>

datatype ('k, 'v, 'w, 'd, 'a) session =
    Running "('k, 'v, 'w, 'd, 'a) txn" "'k set" bool "'w list"
  | Finished "'a option"

fun disturb :: "('w \<Rightarrow> 'k set) \<Rightarrow> 'w list \<Rightarrow> ('k, 'v, 'w, 'd, 'a) session \<Rightarrow> ('k, 'v, 'w, 'd, 'a) session" where
  "disturb tc ws (Running p W b q) = Running p W (b \<or> list_ex (\<lambda>w. tc w \<inter> W \<noteq> {}) ws) q"
| "disturb tc ws (Finished r) = Finished r"

inductive concurrent_step ::
    "('k \<Rightarrow> 's \<Rightarrow> 'v) \<Rightarrow> (int \<Rightarrow> 'w \<Rightarrow> 's \<Rightarrow> 's) \<Rightarrow> ('w \<Rightarrow> 'k set) \<Rightarrow> ('w \<Rightarrow> bool) \<Rightarrow> ('i \<Rightarrow> ('k, 'v, 'w, 'd, 'a) txn) \<Rightarrow>
     ('i \<Rightarrow> ('k, 'v, 'w, 'd, 'a) session) \<times> 's \<times> 'd \<Rightarrow> ('i \<Rightarrow> ('k, 'v, 'w, 'd, 'a) session) \<times> 's \<times> 'd \<Rightarrow> bool"
  for rd ap tc allowed prog where
  step_watch: "c i = Running (Read k f) W b q \<Longrightarrow>
    concurrent_step rd ap tc allowed prog (c, s, d) (c(i := Running (Read k f) (insert k W) b q), s, d)"
| step_read: "c i = Running (Read k f) W b q \<Longrightarrow> k \<in> W \<Longrightarrow>
    concurrent_step rd ap tc allowed prog (c, s, d) (c(i := Running (f (rd k s)) W b q), s, d)"
| step_queue: "c i = Running (Queue w p) W b q \<Longrightarrow>
    concurrent_step rd ap tc allowed prog (c, s, d) (c(i := Running p W b (q @ [w])), s, d)"
| step_effect: "c i = Running (Effect g p) W b q \<Longrightarrow>
    concurrent_step rd ap tc allowed prog (c, s, d) (c(i := Running p W b q), s, g d)"
| step_throw: "c i = Running Throw W b q \<Longrightarrow>
    concurrent_step rd ap tc allowed prog (c, s, d) (c(i := Finished None), s, d)"
| step_execute: "c i = Running (Return a) W b q \<Longrightarrow> \<not> b \<or> q = [] \<Longrightarrow>
    concurrent_step rd ap tc allowed prog (c, s, d) ((disturb tc q \<circ> c)(i := Finished (Some a)), fold (ap t) q s, d)"
| step_refuse: "c i = Running (Return a) W True q \<Longrightarrow> q \<noteq> [] \<Longrightarrow>
    concurrent_step rd ap tc allowed prog (c, s, d) (c(i := Running (prog i) {} False []), s, d)"
| step_outside: "allowed w \<Longrightarrow>
    concurrent_step rd ap tc allowed prog (c, s, d) (disturb tc [w] \<circ> c, ap t w s, d)"

definition concurrent_start :: "('i \<Rightarrow> ('k, 'v, 'w, 'd, 'a) txn) \<Rightarrow> 'i \<Rightarrow> ('k, 'v, 'w, 'd, 'a) session" where
  "concurrent_start prog i = Running (prog i) {} False []"

text \<open>The keys a transaction may read.\<close>

primrec reads_within :: "'k set \<Rightarrow> ('k, 'v, 'w, 'd, 'a) txn \<Rightarrow> bool" where
  "reads_within K (Return a) = True"
| "reads_within K Throw = True"
| "reads_within K (Read k f) = (k \<in> K \<and> (\<forall>v. reads_within K (f v)))"
| "reads_within K (Queue w p) = reads_within K p"
| "reads_within K (Effect g p) = reads_within K p"

definition undisturbed :: "('w \<Rightarrow> 'k set) \<Rightarrow> 'k set \<Rightarrow> 'w list list \<Rightarrow> bool" where
  "undisturbed tc K es \<longleftrightarrow> list_all (list_all (\<lambda>w. tc w \<inter> K = {})) es"

subsection \<open>Stores\<close>

text \<open>The law of a store: a write changes only the keys it touches.\<close>

locale watched_store =
  fixes rd :: "'k \<Rightarrow> 's \<Rightarrow> 'v" and ap :: "'w \<Rightarrow> 's \<Rightarrow> 's" and tc :: "'w \<Rightarrow> 'k set"
  assumes untouched: "k \<notin> tc w \<Longrightarrow> rd k (ap w s) = rd k s"
begin

lemma untouched_fold: "list_all (\<lambda>w. k \<notin> tc w) ws \<Longrightarrow> rd k (fold ap ws s) = rd k s"
  by (induction ws arbitrary: s) (simp_all add: untouched)

lemma interfere_clean:
  "interfere ap tc W ws s b = (s', False) \<Longrightarrow> \<not> b \<and> s' = fold ap ws s \<and> (\<forall>k \<in> W. rd k s' = rd k s)"
  using untouched_fold [of _ ws s] by (auto simp: interfere_def list_ex_iff list_all_iff)

lemma attempt_dirty:
  "attempt rd ap tc p es W True q s d = (Some (Some a), s', d') \<Longrightarrow>
     q = [] \<and> (\<exists>n. s' = fold ap (concat (take n es)) s)"
proof (induction p arbitrary: es W q s d)
  case (Return x)
  then show ?case
    by (cases es) (auto simp: interfere_def first_writes_def split: if_splits intro: exI [of _ 0] exI [of _ 1])
next
  case (Read k f)
  have "attempt rd ap tc (f (rd k (fold ap (first_writes es) s))) (tl es) (insert k W) True q (fold ap (first_writes es) s) d
      = (Some (Some a), s', d')"
    using Read.prems by (simp add: interfere_def)
  from Read.IH [OF rangeI this] obtain n where q: "q = []"
    and n: "s' = fold ap (concat (take n (tl es))) (fold ap (first_writes es) s)" by blast
  have "s' = fold ap (concat (take (Suc n) es)) s" using n by (cases es) (simp_all add: first_writes_def)
  with q show ?case by blast
next
  case (Queue w p)
  from Queue.prems Queue.IH [of es W "q @ [w]" s d] show ?case by simp
next
  case (Effect g p)
  from Effect.prems Effect.IH [of es W q s "g d"] show ?case by simp
qed simp

text \<open>
  An attempt that goes through with writes is the transaction running alone at the moment of its execution: the keys it
  watched read as they did.
\<close>

lemma attempt_atomic:
  "attempt rd ap tc p es W False q s d = (Some (Some a), s', d') \<Longrightarrow>
     (\<exists>n sc ws. sc = fold ap (concat (take n es)) s \<and> (\<forall>k \<in> W. rd k sc = rd k s) \<and>
        run_txn rd p sc d = (Some a, ws, d') \<and> s' = fold ap (q @ ws) sc) \<or>
     (q = [] \<and> (\<exists>n. s' = fold ap (concat (take n es)) s))"
proof (induction p arbitrary: es W q s d)
  case (Return x)
  let ?e = "first_writes es"
  have e: "?e = concat (take 1 es)" by (cases es) (simp_all add: first_writes_def)
  obtain s1 b where i: "interfere ap tc W ?e s False = (s1, b)" by (meson surj_pair)
  then have s1: "s1 = fold ap (concat (take 1 es)) s" using e by (simp add: interfere_def)
  show ?case
  proof (cases "q = []")
    case True
    with Return.prems i s1 show ?thesis by auto
  next
    case False
    with Return.prems i have b: "\<not> b" and r: "x = a" "d = d'" "s' = fold ap q s1" by (auto split: if_splits)
    from b i have "interfere ap tc W ?e s False = (s1, False)" by simp
    from interfere_clean [OF this] have "\<forall>k \<in> W. rd k s1 = rd k s" by blast
    with r s1 show ?thesis by (intro disjI1 exI [of _ 1] exI [of _ s1] exI [of _ "[]"]) simp
  qed
next
  case (Read k f)
  let ?e = "first_writes es"
  have e: "concat (take (Suc n) es) = ?e @ concat (take n (tl es))" for n by (cases es) (simp_all add: first_writes_def)
  obtain s1 b where i: "interfere ap tc (insert k W) ?e s False = (s1, b)" by (meson surj_pair)
  then have s1: "s1 = fold ap ?e s" by (simp add: interfere_def)
  with e have s1n: "fold ap (concat (take n (tl es))) s1 = fold ap (concat (take (Suc n) es)) s" for n by simp
  have run: "attempt rd ap tc (f (rd k s1)) (tl es) (insert k W) b q s1 d = (Some (Some a), s', d')"
    using Read.prems i by simp
  show ?case
  proof (cases b)
    case True
    then have "attempt rd ap tc (f (rd k s1)) (tl es) (insert k W) True q s1 d = (Some (Some a), s', d')"
      using run by simp
    from attempt_dirty [OF this] obtain n where "q = []" "s' = fold ap (concat (take n (tl es))) s1" by blast
    then have "q = []" "s' = fold ap (concat (take (Suc n) es)) s" using s1n [of n] by simp_all
    then show ?thesis by blast
  next
    case False
    with i have "interfere ap tc (insert k W) ?e s False = (s1, False)" by simp
    from interfere_clean [OF this] have same: "\<forall>j \<in> insert k W. rd j s1 = rd j s" by blast
    have "attempt rd ap tc (f (rd k s1)) (tl es) (insert k W) False q s1 d = (Some (Some a), s', d')"
      using run False by simp
    from Read.IH [OF rangeI this] show ?thesis
    proof (elim disjE exE conjE)
      fix n sc ws
      assume h: "sc = fold ap (concat (take n (tl es))) s1" "\<forall>j \<in> insert k W. rd j sc = rd j s1"
        "run_txn rd (f (rd k s1)) sc d = (Some a, ws, d')" "s' = fold ap (q @ ws) sc"
      then have "sc = fold ap (concat (take (Suc n) es)) s" "\<forall>j \<in> W. rd j sc = rd j s" "rd k sc = rd k s1"
        using s1n [of n] same by simp_all
      with h(3,4) show ?thesis by (intro disjI1 exI [of _ "Suc n"] exI [of _ sc] exI [of _ ws]) simp
    next
      fix n
      assume "q = []" "s' = fold ap (concat (take n (tl es))) s1"
      then show ?thesis using s1n [of n] by blast
    qed
  qed
next
  case (Queue w p)
  from Queue.prems Queue.IH [of es W "q @ [w]" s d] obtain n sc ws where
    "sc = fold ap (concat (take n es)) s" "\<forall>k \<in> W. rd k sc = rd k s" "run_txn rd p sc d = (Some a, ws, d')"
    "s' = fold ap ((q @ [w]) @ ws) sc" by auto
  then show ?case by (intro disjI1 exI [of _ n] exI [of _ sc] exI [of _ "w # ws"]) simp
next
  case (Effect g p)
  from Effect.prems Effect.IH [of es W q s "g d"] show ?case by simp
qed simp

text \<open>A refused attempt wrote nothing.\<close>

lemma attempt_refused:
  "attempt rd ap tc p es W b q s d = (None, s', d') \<Longrightarrow> \<exists>n. s' = fold ap (concat (take n es)) s"
proof (induction p arbitrary: es W b q s d)
  case (Return x)
  then show ?case
    by (cases es) (auto simp: interfere_def first_writes_def split: if_splits intro: exI [of _ 0] exI [of _ 1])
next
  case (Read k f)
  let ?s = "fold ap (first_writes es) s"
  obtain b' where "attempt rd ap tc (f (rd k ?s)) (tl es) (insert k W) b' q ?s d = (None, s', d')"
    using Read.prems by (auto simp: interfere_def)
  from Read.IH [OF rangeI this] obtain n where n: "s' = fold ap (concat (take n (tl es))) ?s" by blast
  have "s' = fold ap (concat (take (Suc n) es)) s" using n by (cases es) (simp_all add: first_writes_def)
  then show ?case by blast
next
  case (Queue w p)
  from Queue.prems Queue.IH [of es W b "q @ [w]" s d] show ?case by simp
next
  case (Effect g p)
  from Effect.prems Effect.IH [of es W b q s "g d"] show ?case by simp
qed simp

lemma undisturbed_goes_through:
  "reads_within K p \<Longrightarrow> undisturbed tc K es \<Longrightarrow> W \<subseteq> K \<Longrightarrow>
     \<exists>r s' d'. attempt rd ap tc p es W False q s d = (Some r, s', d')"
proof (induction p arbitrary: es W q s d)
  case (Return x)
  have "snd (interfere ap tc W (first_writes es) s False) = False"
    using Return by (cases es) (auto simp: interfere_def first_writes_def undisturbed_def list_all_iff list_ex_iff)
  then show ?case by (auto simp: split: prod.splits)
next
  case (Read k f)
  have "snd (interfere ap tc (insert k W) (first_writes es) s False) = False"
    using Read.prems by (cases es) (auto simp: interfere_def first_writes_def undisturbed_def list_all_iff list_ex_iff)
  moreover obtain s1 b where "interfere ap tc (insert k W) (first_writes es) s False = (s1, b)" by (meson surj_pair)
  moreover have "undisturbed tc K (tl es)" using Read.prems by (cases es) (simp_all add: undisturbed_def)
  ultimately show ?case using Read.prems Read.IH [OF rangeI, of "rd k s1" "tl es" "insert k W" q s1 d] by auto
next
  case (Queue w p)
  from Queue.prems Queue.IH [of es W "q @ [w]" s d] show ?case by simp
next
  case (Effect g p)
  from Effect.prems Effect.IH [of es W q s "g d"] show ?case by simp
qed simp

text \<open>Retrying ends with the first attempt that is not disturbed, at the latest.\<close>

lemma retry_returns:
  "reads_within K p \<Longrightarrow> undisturbed tc K (envs (n + j)) \<Longrightarrow>
     \<exists>r m s' d'. retry_txn rd ap tc p envs n s d = Some (r, m, s', d') \<and> n \<le> m \<and> m \<le> n + j"
proof (induction j arbitrary: n s d)
  case 0
  with undisturbed_goes_through [of K p "envs n" "{}" "[]" s d] show ?case by (subst retry_txn.simps) auto
next
  case (Suc j)
  obtain r s1 d1 where a: "attempt rd ap tc p (envs n) {} False [] s d = (r, s1, d1)" by (rule prod_cases3)
  show ?case
  proof (cases r)
    case None
    from Suc.IH [of "Suc n" s1 d1] Suc.prems obtain r' m s' d' where
      "retry_txn rd ap tc p envs (Suc n) s1 d1 = Some (r', m, s', d')" "Suc n \<le> m" "m \<le> Suc n + j" by auto
    with a None show ?thesis by (subst retry_txn.simps) auto
  next
    case (Some x)
    with a show ?thesis by (subst retry_txn.simps) auto
  qed
qed

end

end
