(* ===== verification/Challenge_Store.thy ===== *)
theory Challenge_Store
  imports Processor Optimistic
begin

text \<open>
  The Redis store of running challenges (\<^verbatim>\<open>challenge-server/redis-client.ts\<close>, keys from \<^verbatim>\<open>common/db/redis.ts\<close>): its state,
  the operations of \<^verbatim>\<open>ChallengeWriter\<close> and \<^verbatim>\<open>ChallengeReader\<close>, the deletion of a challenge, and that the store is a
  \<open>watched_store\<close>. The numbers and JSON texts the store holds are kept as the values they encode. A hash, set or list without
  elements does not exist, so a missing key is the empty one. Sessions carry the time at which they expire. The type
  variables are the data of a challenge kind and the records of an event stream.
\<close>

subsection \<open>State\<close>

type_synonym party_key = "challenge_type \<times> string"
type_synonym stage_key = "stage \<times> int option"

datatype challenge_notice = Notice_Finish string | Notice_Stage_End string stage "int option"

record ('c, 'b) redis =
  rd_challenges :: "string \<Rightarrow> 'c challenge_hash"
  rd_clients :: "string \<Rightarrow> (int, challenge_client) omap"
  rd_client_challenge :: "int \<Rightarrow> string option"
  rd_parties :: "party_key \<Rightarrow> string list"
  rd_streams :: "string \<times> stage_key \<Rightarrow> 'b list"
  rd_stream_sets :: "string \<Rightarrow> stage_key list"
  rd_processed :: "string \<Rightarrow> stage_key set"
  rd_timeouts :: "(string, challenge_timeout) omap"
  rd_sessions :: "party_key \<Rightarrow> (int \<times> int) option"
  rd_players :: "string \<Rightarrow> string option"
  rd_published :: "challenge_notice list"
  rd_feed :: "string list"

definition empty_redis :: "('c, 'b) redis" where
  "empty_redis =
     \<lparr>rd_challenges = (\<lambda>_. empty_hash), rd_clients = (\<lambda>_. []), rd_client_challenge = (\<lambda>_. None), rd_parties = (\<lambda>_. []),
      rd_streams = (\<lambda>_. []), rd_stream_sets = (\<lambda>_. []), rd_processed = (\<lambda>_. {}), rd_timeouts = [],
      rd_sessions = (\<lambda>_. None), rd_players = (\<lambda>_. None), rd_published = [], rd_feed = []\<rparr>"

definition party_key :: "challenge_type \<Rightarrow> string list \<Rightarrow> party_key" where
  "party_key ty party = (ty, party_string party)"

definition session_key :: "proc_params \<Rightarrow> challenge_type \<Rightarrow> string list \<Rightarrow> party_key" where
  "session_key pp ty party = (ty, party_hash pp party)"

definition active_player_key :: "string \<Rightarrow> string" where
  "active_player_key name = normalize_rsn name"

subsection \<open>Writes\<close>

datatype 'c rwrite =
    Set_Fields string "'c field list"
  | Set_Client string int challenge_client
  | Remove_Client string int
  | Delete_Stream string stage_key
  | Set_Processed string stage_key
  | Set_Timeout string timeout_state challenge_timeout
  | Clear_Timeout string
  | Set_Session party_key int
  | Refresh_Session party_key
  | Set_Player string string
  | Add_Party party_key string
  | Pop_Party party_key
  | Publish challenge_notice
  | Add_Feed string
  | Del_Challenge string
  | Del_Clients string
  | Del_Processed string
  | Del_Timeout string
  | Del_Stream_Set string
  | Remove_Party party_key string
  | Del_Player string

text \<open>A session is refreshed only while it has not expired, and only to a later time.\<close>

definition refresh :: "int \<Rightarrow> (int \<times> int) option \<Rightarrow> (int \<times> int) option" where
  "refresh now s =
     (case s of
        None \<Rightarrow> None
      | Some (sid, t) \<Rightarrow> Some (sid, if now < t \<and> t < now + session_activity_duration_ms then now + session_activity_duration_ms else t))"

fun apply_write :: "int \<Rightarrow> 'c rwrite \<Rightarrow> ('c, 'b) redis \<Rightarrow> ('c, 'b) redis" where
  "apply_write now (Set_Fields u fs) s =
     s\<lparr>rd_challenges := (rd_challenges s)(u := set_fields fs (rd_challenges s u))\<rparr>"
| "apply_write now (Set_Client u c cl) s =
     s\<lparr>rd_clients := (rd_clients s)(u := AList.update c cl (rd_clients s u)),
       rd_client_challenge := (rd_client_challenge s)(c := Some u)\<rparr>"
| "apply_write now (Remove_Client u c) s =
     s\<lparr>rd_clients := (rd_clients s)(u := AList.delete c (rd_clients s u)),
       rd_client_challenge := (if rd_client_challenge s c = Some u then (rd_client_challenge s)(c := None)
         else rd_client_challenge s)\<rparr>"
| "apply_write now (Delete_Stream u k) s = s\<lparr>rd_streams := (rd_streams s)((u, k) := [])\<rparr>"
| "apply_write now (Set_Processed u k) s = s\<lparr>rd_processed := (rd_processed s)(u := insert k (rd_processed s u))\<rparr>"
| "apply_write now (Set_Timeout u st t) s =
     s\<lparr>rd_challenges := (rd_challenges s)(u := set_field (F_Timeout st) (rd_challenges s u)),
       rd_timeouts := AList.update u t (rd_timeouts s)\<rparr>"
| "apply_write now (Clear_Timeout u) s =
     s\<lparr>rd_challenges := (rd_challenges s)(u := set_field (F_Timeout NO_TIMEOUT) (rd_challenges s u)),
       rd_timeouts := AList.delete u (rd_timeouts s)\<rparr>"
| "apply_write now (Set_Session k sid) s = s\<lparr>rd_sessions := (rd_sessions s)(k := Some (sid, now + session_activity_duration_ms))\<rparr>"
| "apply_write now (Refresh_Session k) s = s\<lparr>rd_sessions := (rd_sessions s)(k := refresh now (rd_sessions s k))\<rparr>"
| "apply_write now (Set_Player n u) s = s\<lparr>rd_players := (rd_players s)(n := Some u)\<rparr>"
| "apply_write now (Add_Party k u) s = s\<lparr>rd_parties := (rd_parties s)(k := rd_parties s k @ [u])\<rparr>"
| "apply_write now (Pop_Party k) s = s\<lparr>rd_parties := (rd_parties s)(k := butlast (rd_parties s k))\<rparr>"
| "apply_write now (Publish m) s = s\<lparr>rd_published := rd_published s @ [m]\<rparr>"
| "apply_write now (Add_Feed u) s = s\<lparr>rd_feed := rd_feed s @ [u]\<rparr>"
| "apply_write now (Del_Challenge u) s = s\<lparr>rd_challenges := (rd_challenges s)(u := empty_hash)\<rparr>"
| "apply_write now (Del_Clients u) s = s\<lparr>rd_clients := (rd_clients s)(u := [])\<rparr>"
| "apply_write now (Del_Processed u) s = s\<lparr>rd_processed := (rd_processed s)(u := {})\<rparr>"
| "apply_write now (Del_Timeout u) s = s\<lparr>rd_timeouts := AList.delete u (rd_timeouts s)\<rparr>"
| "apply_write now (Del_Stream_Set u) s = s\<lparr>rd_stream_sets := (rd_stream_sets s)(u := [])\<rparr>"
| "apply_write now (Remove_Party k u) s = s\<lparr>rd_parties := (rd_parties s)(k := remove1 u (rd_parties s k))\<rparr>"
| "apply_write now (Del_Player n) s = s\<lparr>rd_players := (rd_players s)(n := None)\<rparr>"

definition apply_writes :: "int \<Rightarrow> 'c rwrite list \<Rightarrow> ('c, 'b) redis \<Rightarrow> ('c, 'b) redis" where
  "apply_writes now ws s = fold (apply_write now) ws s"

lemma apply_writes_simps [simp]:
  "apply_writes now [] s = s" "apply_writes now (w # ws) s = apply_writes now ws (apply_write now w s)"
  "apply_writes now (ws @ vs) s = apply_writes now vs (apply_writes now ws s)"
  by (simp_all add: apply_writes_def)

subsection \<open>Reads\<close>

datatype rkey =
    K_Challenge string
  | K_Clients string
  | K_Client_Challenge int
  | K_Party party_key
  | K_Stream string stage_key
  | K_Stream_Set string
  | K_Processed string
  | K_Timeouts
  | K_Session party_key
  | K_Player string

datatype ('c, 'b) rvalue =
    V_Challenge (the_challenge: "'c challenge_hash")
  | V_Clients (the_clients: "(int, challenge_client) omap")
  | V_Name (the_name: "string option")
  | V_List (the_list: "string list")
  | V_Stream (the_stream: "'b list")
  | V_Stream_Set (the_stream_set: "stage_key list")
  | V_Processed (the_processed: "stage_key set")
  | V_Timeouts (the_timeouts: "(string, challenge_timeout) omap")
  | V_Session (the_session: "(int \<times> int) option")

fun read_value :: "rkey \<Rightarrow> ('c, 'b) redis \<Rightarrow> ('c, 'b) rvalue" where
  "read_value (K_Challenge u) s = V_Challenge (rd_challenges s u)"
| "read_value (K_Clients u) s = V_Clients (rd_clients s u)"
| "read_value (K_Client_Challenge c) s = V_Name (rd_client_challenge s c)"
| "read_value (K_Party k) s = V_List (rd_parties s k)"
| "read_value (K_Stream u k) s = V_Stream (rd_streams s (u, k))"
| "read_value (K_Stream_Set u) s = V_Stream_Set (rd_stream_sets s u)"
| "read_value (K_Processed u) s = V_Processed (rd_processed s u)"
| "read_value K_Timeouts s = V_Timeouts (rd_timeouts s)"
| "read_value (K_Session k) s = V_Session (rd_sessions s k)"
| "read_value (K_Player n) s = V_Name (rd_players s n)"

text \<open>The keys a write touches, among those that are read.\<close>

fun touched_keys :: "'c rwrite \<Rightarrow> rkey set" where
  "touched_keys (Set_Fields u fs) = {K_Challenge u}"
| "touched_keys (Set_Client u c cl) = {K_Clients u, K_Client_Challenge c}"
| "touched_keys (Remove_Client u c) = {K_Clients u, K_Client_Challenge c}"
| "touched_keys (Delete_Stream u k) = {K_Stream u k}"
| "touched_keys (Set_Processed u k) = {K_Processed u}"
| "touched_keys (Set_Timeout u st t) = {K_Challenge u, K_Timeouts}"
| "touched_keys (Clear_Timeout u) = {K_Challenge u, K_Timeouts}"
| "touched_keys (Set_Session k sid) = {K_Session k}"
| "touched_keys (Refresh_Session k) = {K_Session k}"
| "touched_keys (Set_Player n u) = {K_Player n}"
| "touched_keys (Add_Party k u) = {K_Party k}"
| "touched_keys (Pop_Party k) = {K_Party k}"
| "touched_keys (Publish m) = {}"
| "touched_keys (Add_Feed u) = {}"
| "touched_keys (Del_Challenge u) = {K_Challenge u}"
| "touched_keys (Del_Clients u) = {K_Clients u}"
| "touched_keys (Del_Processed u) = {K_Processed u}"
| "touched_keys (Del_Timeout u) = {K_Timeouts}"
| "touched_keys (Del_Stream_Set u) = {K_Stream_Set u}"
| "touched_keys (Remove_Party k u) = {K_Party k}"
| "touched_keys (Del_Player n) = {K_Player n}"

lemma read_untouched: "k \<notin> touched_keys w \<Longrightarrow> read_value k (apply_write now w s) = read_value k s"
  by (cases w; cases k) auto

interpretation redis_store: watched_store read_value "apply_write now" touched_keys for now
  by unfold_locales (rule read_untouched)

subsection \<open>Transactions on the store\<close>

type_synonym ('c, 'b, 'a) rtxn = "(rkey, ('c, 'b) rvalue, 'c rwrite, db, 'a) txn"

definition get_challenge ::
    "string \<Rightarrow> ('c challenge_state option \<Rightarrow> ('c, 'b, 'a) rtxn) \<Rightarrow> ('c, 'b, 'a) rtxn" where
  "get_challenge u f =
     Read (K_Challenge u) (\<lambda>v. case challenge_from_hash (the_challenge v) of None \<Rightarrow> Throw | Some c \<Rightarrow> f c)"

definition get_challenge_fields ::
    "string \<Rightarrow> ('c challenge_hash \<Rightarrow> ('c, 'b, 'a) rtxn) \<Rightarrow> ('c, 'b, 'a) rtxn" where
  "get_challenge_fields u f = Read (K_Challenge u) (f \<circ> the_challenge)"

definition get_challenge_clients ::
    "string \<Rightarrow> (challenge_client list \<Rightarrow> ('c, 'b, 'a) rtxn) \<Rightarrow> ('c, 'b, 'a) rtxn" where
  "get_challenge_clients u f = Read (K_Clients u) (\<lambda>v. f (map snd (the_clients v)))"

definition get_challenge_client ::
    "string \<Rightarrow> int \<Rightarrow> (challenge_client option \<Rightarrow> ('c, 'b, 'a) rtxn) \<Rightarrow> ('c, 'b, 'a) rtxn" where
  "get_challenge_client u c f = Read (K_Clients u) (\<lambda>v. f (map_of (the_clients v) c))"

definition get_active_challenge ::
    "int \<Rightarrow> (string option \<Rightarrow> ('c, 'b, 'a) rtxn) \<Rightarrow> ('c, 'b, 'a) rtxn" where
  "get_active_challenge c f = Read (K_Client_Challenge c) (f \<circ> the_name)"

definition get_last_challenge ::
    "party_key \<Rightarrow> (string option \<Rightarrow> ('c, 'b, 'a) rtxn) \<Rightarrow> ('c, 'b, 'a) rtxn" where
  "get_last_challenge k f =
     Read (K_Party k) (\<lambda>v. f (if the_list v = [] then None else Some (List.last (the_list v))))"

definition has_processed_stage ::
    "string \<Rightarrow> stage_key \<Rightarrow> (bool \<Rightarrow> ('c, 'b, 'a) rtxn) \<Rightarrow> ('c, 'b, 'a) rtxn" where
  "has_processed_stage u k f = Read (K_Processed u) (\<lambda>v. f (k \<in> the_processed v))"

definition get_challenge_timeout ::
    "string \<Rightarrow> (challenge_timeout option \<Rightarrow> ('c, 'b, 'a) rtxn) \<Rightarrow> ('c, 'b, 'a) rtxn" where
  "get_challenge_timeout u f = Read K_Timeouts (\<lambda>v. f (map_of (the_timeouts v) u))"

definition get_session_id ::
    "int \<Rightarrow> party_key \<Rightarrow> (int option \<Rightarrow> ('c, 'b, 'a) rtxn) \<Rightarrow> ('c, 'b, 'a) rtxn" where
  "get_session_id now k f =
     Read (K_Session k) (\<lambda>v. f (case the_session v of None \<Rightarrow> None | Some (sid, t) \<Rightarrow> if now < t then Some sid else None))"

text \<open>A transaction that runs alone, on the store and the database.\<close>

definition run_alone :: "int \<Rightarrow> ('c, 'b, 'a) rtxn \<Rightarrow> ('c, 'b) redis \<Rightarrow> db \<Rightarrow> 'a option \<times> ('c, 'b) redis \<times> db" where
  "run_alone now p s d = atomically read_value (apply_write now) p s d"

lemmas txn_reads = get_challenge_def get_challenge_fields_def get_challenge_clients_def get_challenge_client_def
  get_active_challenge_def get_last_challenge_def has_processed_stage_def get_challenge_timeout_def get_session_id_def

subsection \<open>Deleting a challenge\<close>

text \<open>
  \<^verbatim>\<open>deleteChallengeData\<close>. The type and the party, when they are not given, are looked up outside of the watched reads and
  kept when the transaction is tried again.
\<close>

fun read_players :: "string list \<Rightarrow> (string option list \<Rightarrow> ('c, 'b, 'a) rtxn) \<Rightarrow> ('c, 'b, 'a) rtxn" where
  "read_players [] f = f []"
| "read_players (n # ns) f = Read (K_Player (active_player_key n)) (\<lambda>v. read_players ns (\<lambda>vs. f (the_name v # vs)))"

fun queue_all :: "'w list \<Rightarrow> ('k, 'v, 'w, 'd, 'a) txn \<Rightarrow> ('k, 'v, 'w, 'd, 'a) txn" where
  "queue_all [] p = p"
| "queue_all (w # ws) p = Queue w (queue_all ws p)"

definition delete_txn :: "string \<Rightarrow> challenge_type option \<Rightarrow> string list option \<Rightarrow> ('c, 'b, unit) rtxn" where
  "delete_txn u ty party =
     queue_all [Del_Challenge u, Del_Clients u, Del_Processed u, Del_Timeout u]
       (Read (K_Stream_Set u) (\<lambda>v.
          queue_all (map (Delete_Stream u) (the_stream_set v) @ [Del_Stream_Set u])
            (case party of
               None \<Rightarrow> Return ()
             | Some names \<Rightarrow>
                 queue_all (case ty of None \<Rightarrow> [] | Some t \<Rightarrow> [Remove_Party (party_key t names) u])
                   (read_players names (\<lambda>owners.
                      queue_all (map (Del_Player \<circ> active_player_key \<circ> fst) (filter (\<lambda>p. snd p = Some u) (zip names owners)))
                        (Return ()))))))"

definition delete_challenge_data ::
    "int \<Rightarrow> string \<Rightarrow> challenge_type option \<Rightarrow> string list option \<Rightarrow> ('c, 'b) redis \<Rightarrow> ('c, 'b) redis" where
  "delete_challenge_data now u ty party s =
     (let h = rd_challenges s u;
          ty' = (case ty of None \<Rightarrow> ch_type h | Some t \<Rightarrow> Some t);
          party' = (case party of None \<Rightarrow> ch_party h | Some p \<Rightarrow> Some p)
      in apply_writes now (fst (snd (run_txn read_value (delete_txn u ty' party') s empty_db))) s)"

lemma run_queue_all [simp]:
  "run_txn rd (queue_all ws p) s d =
     (case run_txn rd p s d of (None, vs, d') \<Rightarrow> (None, [], d') | (Some a, vs, d') \<Rightarrow> (Some a, ws @ vs, d'))"
  by (induction ws) (auto simp: run_txn_throws split: prod.splits option.splits)

lemma run_read_players [simp]:
  "run_txn read_value (read_players ns f) s d = run_txn read_value (f (map (rd_players s \<circ> active_player_key) ns)) s d"
  by (induction ns arbitrary: f) simp_all

end
