(* ===== verification/Challenge_Requests.thy ===== *)
theory Challenge_Requests
  imports Challenge_Store
begin

text \<open>
  The transactions behind the requests and status events of clients (\<^verbatim>\<open>challenge-server/challenge-manager.ts\<close>): starting,
  joining and finishing a challenge, updating its stage, and clients that connect, disconnect or become idle. Each is a
  transaction on the store, with the time of the server as an argument. The numbers that the generated code gives to stages
  are a parameter, as are the processors of the challenge kinds and the merge service.
\<close>

subsection \<open>Parameters\<close>

text \<open>
  The processor of a challenge type is \<^const>\<open>None\<close> where making one throws. A merge gives \<^const>\<open>None\<close> when it throws and
  \<^term>\<open>Some None\<close> for null.
\<close>

record ('c, 'b) manager_params =
  mg_proc :: proc_params
  mg_hooks :: "challenge_type \<Rightarrow> 'c hooks option"
  mg_merge :: "'c challenge_state \<Rightarrow> stage \<Rightarrow> int option \<Rightarrow> 'b list \<Rightarrow> merged_events option option"

abbreviation mg_stage :: "('c, 'b, 'z) manager_params_scheme \<Rightarrow> stage \<Rightarrow> int" where
  "mg_stage g \<equiv> pp_stage (mg_proc g)"

definition max_reconnection_period :: int where "max_reconnection_period = 1000 * 60 * 5"

definition max_inactivity_period :: int where "max_inactivity_period = 1000 * 60 * 15"

definition stage_end_timeout :: int where "stage_end_timeout = 2000"

definition max_attempt :: "int option \<Rightarrow> int option \<Rightarrow> int option" where
  "max_attempt a b =
     (case (a, b) of (None, _) \<Rightarrow> b | (_, None) \<Rightarrow> a | (Some x, Some y) \<Rightarrow> Some (max x y))"

definition timeout_of :: "'c challenge_hash \<Rightarrow> timeout_state" where
  "timeout_of h = (case ch_timeout h of None \<Rightarrow> NO_TIMEOUT | Some t \<Rightarrow> t)"

subsection \<open>Clients\<close>

record connecting_client =
  cn_user :: int
  cn_id :: int
  cn_token :: string
  cn_plugin :: string
  cn_runelite :: string

record status_response =
  sr_uuid :: string
  sr_mode :: challenge_mode
  sr_stage :: stage
  sr_attempt :: "int option"

text \<open>A client that rejoins keeps its last completed stage, its user and its recording type.\<close>

definition client_entry ::
    "challenge_client option \<Rightarrow> connecting_client \<Rightarrow> recording_type \<Rightarrow> stage \<Rightarrow> int option \<Rightarrow> challenge_client" where
  "client_entry existing cn rtype stage att =
     (case existing of
        Some c \<Rightarrow> c\<lparr>cc_stage := stage, cc_attempt := att, cc_stage_status := ENTERED, cc_token := cn_token cn,
          cc_active := True, cc_plugin := cn_plugin cn, cc_runelite := cn_runelite cn\<rparr>
      | None \<Rightarrow>
          \<lparr>cc_user = cn_user cn, cc_id = cn_id cn, cc_token = cn_token cn, cc_plugin = cn_plugin cn,
           cc_runelite = cn_runelite cn, cc_type = rtype, cc_active = True, cc_stage = stage, cc_attempt = att,
           cc_stage_status = ENTERED, cc_last_stage = UNKNOWN_STAGE, cc_last_attempt = None\<rparr>)"

text \<open>\<^verbatim>\<open>createChallengeClient\<close> followed by \<^verbatim>\<open>setChallengeClient\<close>, which the code always does.\<close>

definition join_as ::
    "string \<Rightarrow> connecting_client \<Rightarrow> recording_type \<Rightarrow> stage \<Rightarrow> int option \<Rightarrow> ('c, 'b, 'a) rtxn \<Rightarrow> ('c, 'b, 'a) rtxn" where
  "join_as u cn rtype stage att p =
     get_challenge_client u (cn_id cn) (\<lambda>ex. Queue (Set_Client u (cn_id cn) (client_entry ex cn rtype stage att)) p)"

subsection \<open>Starting a challenge\<close>

datatype start_decision =
    Create_Challenge string "int option"
  | Deferred_Join string
  | Immediate_Join string status_response

definition create_txn ::
    "proc_params \<Rightarrow> int \<Rightarrow> challenge_type \<Rightarrow> stage \<Rightarrow> string list \<Rightarrow> string \<Rightarrow> ('c, 'b, start_decision) rtxn" where
  "create_txn pp now ty stage party uuid =
     Queue (Add_Party (party_key ty party) uuid)
       (Queue (Set_Fields uuid [F_State INITIALIZING, F_Status IN_PROGRESS, F_Stage stage, F_Timeout NO_TIMEOUT])
          (get_session_id now (session_key pp ty party) (\<lambda>sid. Return (Create_Challenge uuid sid))))"

text \<open>Joining a challenge that waits for its cleanup stops the cleanup.\<close>

definition joining :: "string \<Rightarrow> start_decision \<Rightarrow> ('c, 'b, start_decision) rtxn" where
  "joining u dec =
     get_challenge_fields u (\<lambda>h. if ch_timeout h = Some CLEANUP_TIMEOUT then Queue (Clear_Timeout u) (Return dec) else Return dec)"

text \<open>\<^verbatim>\<open>determineStartAction\<close>; the last argument is the UUID a new challenge would get.\<close>

definition start_txn ::
    "proc_params \<Rightarrow> int \<Rightarrow> connecting_client \<Rightarrow> challenge_type \<Rightarrow> recording_type \<Rightarrow> stage \<Rightarrow> string list \<Rightarrow> string \<Rightarrow>
     ('c, 'b, start_decision) rtxn" where
  "start_txn pp now cn ty rtype stage party uuid =
     (let create = create_txn pp now ty stage party uuid in
      get_last_challenge (party_key ty party) (\<lambda>last_ch.
        case last_ch of
          None \<Rightarrow> create
        | Some u \<Rightarrow> get_challenge_fields u (\<lambda>h.
            case (ch_state h, ch_status h, ch_stage h) of
              (Some life, Some status, Some last_stage) \<Rightarrow>
                (if life = CLEANUP then Queue (Pop_Party (party_key ty party)) create
                 else if status = CHALLENGE_COMPLETED \<or> timeout_of h = CHALLENGE_END_TIMEOUT then create
                 else if stage \<noteq> UNKNOWN_STAGE \<and> pp_stage pp stage < pp_stage pp last_stage then create
                 else if life = INITIALIZING then joining u (Deferred_Join u)
                 else
                   join_as u cn rtype last_stage (ch_attempt h)
                     (Queue (Refresh_Session (session_key pp ty party))
                        (joining u (Immediate_Join u
                           \<lparr>sr_uuid = u, sr_mode = (case ch_mode h of None \<Rightarrow> NO_MODE | Some m \<Rightarrow> m), sr_stage = last_stage,
                            sr_attempt = ch_attempt h\<rparr>))))
            | _ \<Rightarrow> Queue (Pop_Party (party_key ty party)) create)))"

text \<open>The transaction that makes a challenge known once it is in the database.\<close>

definition created_txn ::
    "proc_params \<Rightarrow> 'c hooks \<Rightarrow> 'c processor \<Rightarrow> connecting_client \<Rightarrow> challenge_type \<Rightarrow> recording_type \<Rightarrow> stage \<Rightarrow> string list \<Rightarrow>
     ('c, 'b, unit) rtxn" where
  "created_txn pp hk p cn ty rtype stage party =
     get_challenge_client (pr_uuid p) (cn_id cn) (\<lambda>ex.
       queue_all ([Set_Fields (pr_uuid p) (get_state hk p @ [F_State ACTIVE]),
           Set_Client (pr_uuid p) (cn_id cn) (client_entry ex cn rtype stage None),
           Set_Session (session_key pp ty party) (pr_session p)] @
           map (\<lambda>n. Set_Player (active_player_key n) (pr_uuid p)) party)
         (Return ()))"

text \<open>One attempt of a deferred join: \<^const>\<open>None\<close> while the challenge is not ready. It throws when the challenge is gone.\<close>

definition deferred_txn ::
    "string \<Rightarrow> connecting_client \<Rightarrow> recording_type \<Rightarrow> ('c, 'b, status_response option) rtxn" where
  "deferred_txn u cn rtype =
     get_challenge_fields u (\<lambda>h.
       case ch_state h of
         None \<Rightarrow> Throw
       | Some life \<Rightarrow>
           (if life = CLEANUP then Throw
            else if life \<noteq> ACTIVE then Return None
            else
              (let r = \<lparr>sr_uuid = u, sr_mode = (case ch_mode h of None \<Rightarrow> NO_MODE | Some m \<Rightarrow> m),
                  sr_stage = (case ch_stage h of None \<Rightarrow> UNKNOWN_STAGE | Some s \<Rightarrow> s), sr_attempt = ch_attempt h\<rparr>
               in join_as u cn rtype (sr_stage r) (sr_attempt r) (Return (Some r)))))"

subsection \<open>Finishing a challenge\<close>

datatype finish_result = Not_In_Challenge | Challenge_Not_Active | Finish_Accepted bool

definition end_timeout :: "int \<Rightarrow> challenge_timeout" where
  "end_timeout now = \<lparr>to_timestamp = now + 1500, to_retries = 3, to_interval = 1000\<rparr>"

text \<open>
  The timer a finish request starts. The last client, or one that knows the challenge has ended, starts the short one;
  a client that only leaves starts the long one, unless the short one is running.
\<close>

definition finish_timer ::
    "int \<Rightarrow> bool \<Rightarrow> bool \<Rightarrow> challenge_client \<Rightarrow> reported_times option \<Rightarrow> timeout_state \<Rightarrow> timeout_state \<times> challenge_timeout" where
  "finish_timer now alone soft self reported current =
     (if alone \<or> (\<not> soft \<and> cc_type self = PARTICIPANT) \<or> reported \<noteq> None \<or> current = CHALLENGE_END_TIMEOUT
      then (CHALLENGE_END_TIMEOUT, end_timeout now)
      else (CLEANUP_TIMEOUT, \<lparr>to_timestamp = now + max_reconnection_period, to_retries = 1, to_interval = max_reconnection_period\<rparr>))"

definition reported_fields :: "reported_times option \<Rightarrow> 'c field list" where
  "reported_fields reported =
     (case reported of None \<Rightarrow> [] | Some r \<Rightarrow> [F_Reported_Challenge (Some (rt_challenge r)), F_Reported_Overall (rt_overall r)])"

definition finish_txn ::
    "proc_params \<Rightarrow> int \<Rightarrow> string \<Rightarrow> int \<Rightarrow> reported_times option \<Rightarrow> bool \<Rightarrow> ('c, 'b, finish_result) rtxn" where
  "finish_txn pp now u cid reported soft =
     get_active_challenge cid (\<lambda>current.
       if current \<noteq> Some u then Return Not_In_Challenge
       else
         Queue (Remove_Client u cid) (get_challenge u (\<lambda>ch.
           case ch of
             None \<Rightarrow> Return Challenge_Not_Active
           | Some c \<Rightarrow>
               (if cs_state c \<noteq> ACTIVE then Return Challenge_Not_Active
                else
                  Queue (Refresh_Session (session_key pp (cs_type c) (cs_party c)))
                    (get_challenge_clients u (\<lambda>clients.
                       case List.find (\<lambda>k. cc_id k = cid) clients of
                         None \<Rightarrow> Return Not_In_Challenge
                       | Some self \<Rightarrow>
                           (let (st, t) = finish_timer now (length clients = 1) soft self reported (cs_timeout c)
                            in Queue (Set_Timeout u st t)
                                 (queue_all (if reported = None then [] else [Set_Fields u (reported_fields reported)])
                                    (Return (Finish_Accepted (length clients = 1))))))))))) "

subsection \<open>Updating a challenge\<close>

record challenge_update =
  cu_mode :: challenge_mode
  cu_stage :: "(stage \<times> stage_status) option"
  cu_party :: "string list option"

record update_result =
  ur_response :: "status_response option"
  ur_cleanup :: bool
  ur_finish :: "(stage \<times> int option) option"

definition update_nothing :: update_result where
  "update_nothing = \<lparr>ur_response = None, ur_cleanup = False, ur_finish = None\<rparr>"

definition is_finished :: "stage_status \<Rightarrow> bool" where
  "is_finished st \<longleftrightarrow> st = COMPLETED \<or> st = WIPED"

definition has_finished_stage :: "(stage \<Rightarrow> int) \<Rightarrow> 'c challenge_state \<Rightarrow> challenge_client \<Rightarrow> bool" where
  "has_finished_stage num c k \<longleftrightarrow>
     num (cc_stage k) > num (cs_stage c) \<or>
     (is_finished (cc_stage_status k) \<and> max_attempt (cc_attempt k) (cs_attempt c) = cc_attempt k)"

text \<open>What a client's update of its stage does to its entry, the processor, and the store; and the stage to complete.\<close>

definition stage_finished_writes ::
    "(stage \<Rightarrow> int) \<Rightarrow> int \<Rightarrow> string \<Rightarrow> 'c challenge_state \<Rightarrow> challenge_client list \<Rightarrow> 'c rwrite list" where
  "stage_finished_writes num now u c clients =
     (if list_all (has_finished_stage num c) clients
      then (if cs_timeout c \<noteq> CHALLENGE_END_TIMEOUT then [Clear_Timeout u] else [])
      else if cs_timeout c \<noteq> STAGE_END_TIMEOUT
      then [Set_Timeout u STAGE_END_TIMEOUT
              \<lparr>to_timestamp = now + stage_end_timeout, to_retries = 0, to_interval = 0\<rparr>]
      else [])"

definition started_stage :: "'c hooks \<Rightarrow> stage \<Rightarrow> challenge_client \<Rightarrow> 'c processor \<Rightarrow> 'c processor" where
  "started_stage hk stage us p =
     (if stage \<noteq> pr_stage p then start_stage hk stage p
      else if cc_stage us = pr_stage p \<and> pr_attempt p \<noteq> None \<and> cc_attempt us = pr_attempt p then start_stage hk stage p
      else p)"

text \<open>The update of the stage: the processor, the client's entry, the writes and the stage to complete.\<close>

definition stage_update ::
    "(stage \<Rightarrow> int) \<Rightarrow> 'c hooks \<Rightarrow> int \<Rightarrow> string \<Rightarrow> 'c challenge_state \<Rightarrow> challenge_client list \<Rightarrow> challenge_client \<Rightarrow> stage \<Rightarrow> stage_status \<Rightarrow>
     'c processor \<Rightarrow> 'c processor \<times> 'c rwrite list \<times> (stage \<times> int option) option" where
  "stage_update num hk now u c clients us stage status p =
     (let us1 = us\<lparr>cc_stage := stage, cc_stage_status := status, cc_active := True\<rparr> in
      if is_finished status
      then
        (let us2 = us1\<lparr>cc_last_stage := stage, cc_last_attempt := cc_attempt us1\<rparr>;
             all = map (\<lambda>k. if cc_id k = cc_id us then us2 else k) clients
         in (p, stage_finished_writes num now u c all @ [Set_Client u (cc_id us) us2],
             if list_all (has_finished_stage num c) all then Some (stage, cc_attempt us2) else None))
      else if status = STARTED
      then (let p' = started_stage hk stage us1 p
            in (p', [Set_Client u (cc_id us) (us1\<lparr>cc_attempt := pr_attempt p'\<rparr>)], None))
      else (p, [Set_Client u (cc_id us) us1], None))"

text \<open>The response holds the challenge as it was read, overwritten by the updates.\<close>

definition update_response :: "string \<Rightarrow> 'c challenge_state \<Rightarrow> 'c field list \<Rightarrow> status_response" where
  "update_response u c fs =
     (let h = set_fields fs (empty_hash\<lparr>ch_mode := Some (cs_mode c), ch_stage := Some (cs_stage c), ch_attempt := cs_attempt c\<rparr>)
      in \<lparr>sr_uuid = u, sr_mode = the (ch_mode h), sr_stage = the (ch_stage h), sr_attempt = ch_attempt h\<rparr>)"

text \<open>The database writes of \<^verbatim>\<open>finalizeUpdates\<close> happen inside of the transaction.\<close>

definition finalize_txn ::
    "string \<Rightarrow> 'c challenge_state \<Rightarrow> (stage \<times> int option) option \<Rightarrow> 'c processor \<Rightarrow> ('c, 'b, update_result) rtxn" where
  "finalize_txn u c fin p =
     Effect (\<lambda>d. snd (snd (finalize_updates p d)))
       (queue_all (if pending p = [] then [] else [Set_Fields u (pending p)])
          (Return \<lparr>ur_response = Some (update_response u c (pending p)), ur_cleanup = False, ur_finish = fin\<rparr>))"

definition update_txn ::
    "('c, 'b) manager_params \<Rightarrow> int \<Rightarrow> string \<Rightarrow> int \<Rightarrow> challenge_update \<Rightarrow> ('c, 'b, update_result) rtxn" where
  "update_txn g now u cid upd =
     get_challenge u (\<lambda>ch.
       case ch of
         None \<Rightarrow> Return update_nothing
       | Some c \<Rightarrow>
           queue_all (if cs_timeout c = CLEANUP_TIMEOUT then [Clear_Timeout u] else [])
             (Queue (Refresh_Session (session_key (mg_proc g) (cs_type c) (cs_party c)))
                (case mg_hooks g (cs_type c) of
                   None \<Rightarrow> Throw
                 | Some hk \<Rightarrow>
                     (if cu_mode upd = TOB_ENTRY then Return (update_nothing\<lparr>ur_cleanup := True\<rparr>)
                      else
                        (let p1 = set_mode (cu_mode upd) (load_processor hk c);
                             p2 = (case cu_party upd of None \<Rightarrow> p1 | Some ps \<Rightarrow> if ps = [] then p1 else update_party ps p1)
                         in case cu_stage upd of
                              None \<Rightarrow> finalize_txn u c None p2
                            | Some (stage, status) \<Rightarrow>
                                (if mg_stage g stage < mg_stage g (cs_stage c) then Return update_nothing
                                 else
                                   get_challenge_clients u (\<lambda>clients.
                                     case List.find (\<lambda>k. cc_id k = cid) clients of
                                       None \<Rightarrow> Return update_nothing
                                     | Some us \<Rightarrow>
                                         (let (p3, ws, fin) = stage_update (mg_stage g) hk now u c clients us stage status p2
                                          in queue_all ws (finalize_txn u c fin p3)))))))))"

subsection \<open>Connected clients\<close>

definition add_client_txn ::
    "string \<Rightarrow> connecting_client \<Rightarrow> recording_type \<Rightarrow> ('c, 'b, status_response option) rtxn" where
  "add_client_txn u cn rtype =
     get_challenge u (\<lambda>ch. get_challenge_clients u (\<lambda>clients.
       case ch of
         None \<Rightarrow> Return None
       | Some c \<Rightarrow>
           (if cs_state c \<noteq> ACTIVE then Return None
            else
              join_as u cn rtype (cs_stage c) (cs_attempt c)
                (queue_all (if list_all (\<lambda>k. \<not> cc_active k) clients \<and> cs_timeout c = CLEANUP_TIMEOUT then [Clear_Timeout u] else [])
                   (Return (Some \<lparr>sr_uuid = u, sr_mode = cs_mode c, sr_stage = cs_stage c, sr_attempt = cs_attempt c\<rparr>))))))"

definition remove_client_txn :: "int \<Rightarrow> int \<Rightarrow> string \<Rightarrow> string \<Rightarrow> ('c, 'b, unit) rtxn" where
  "remove_client_txn now cid u token =
     get_challenge_client u cid (\<lambda>ex.
       if map_option cc_token ex \<noteq> Some token then Return ()
       else
         Queue (Remove_Client u cid) (get_challenge_fields u (\<lambda>h. get_challenge_clients u (\<lambda>clients.
           if ch_state h = None \<or> ch_state h = Some CLEANUP then Return ()
           else
             queue_all (if length clients \<le> 1
                 then [Set_Timeout u CLEANUP_TIMEOUT
                   \<lparr>to_timestamp = now + max_reconnection_period, to_retries = 3, to_interval = max_reconnection_period\<rparr>]
                 else [])
               (Return ())))))"

text \<open>A missing client fails the comparison of session tokens, so the code's own check for null is never reached.\<close>

definition set_client_active_txn :: "int \<Rightarrow> string \<Rightarrow> string \<Rightarrow> ('c, 'b, unit) rtxn" where
  "set_client_active_txn cid u token =
     get_active_challenge cid (\<lambda>current. get_challenge u (\<lambda>ch. get_challenge_client u cid (\<lambda>ex.
       case ex of
         None \<Rightarrow> Return ()
       | Some us \<Rightarrow>
           (if cc_token us \<noteq> token then Return ()
            else if current \<noteq> Some u then Queue (Remove_Client u cid) (Return ())
            else case ch of
                None \<Rightarrow> Queue (Remove_Client u cid) (Return ())
              | Some c \<Rightarrow>
                  (if cc_active us then Return ()
                   else
                     Queue (Set_Client u cid (us\<lparr>cc_active := True\<rparr>))
                       (queue_all (if cs_timeout c = CLEANUP_TIMEOUT then [Clear_Timeout u] else []) (Return ())))))))"

definition set_client_inactive_txn :: "int \<Rightarrow> int \<Rightarrow> string \<Rightarrow> string \<Rightarrow> ('c, 'b, unit) rtxn" where
  "set_client_inactive_txn now cid u token =
     get_active_challenge cid (\<lambda>current. get_challenge u (\<lambda>ch. get_challenge_clients u (\<lambda>clients.
       case List.find (\<lambda>k. cc_id k = cid) clients of
         None \<Rightarrow> Queue (Remove_Client u cid) (Return ())
       | Some us \<Rightarrow>
           (if cc_token us \<noteq> token then Return ()
            else if current \<noteq> Some u then Queue (Remove_Client u cid) (Return ())
            else case ch of
                None \<Rightarrow> Queue (Remove_Client u cid) (Return ())
              | Some c \<Rightarrow>
                  (if \<not> cc_active us then Return ()
                   else
                     Queue (Set_Client u cid (us\<lparr>cc_active := False\<rparr>))
                       (queue_all (if list_all (\<lambda>k. cc_id k = cid \<or> \<not> cc_active k) clients \<and> cs_timeout c = NO_TIMEOUT
                           then [Set_Timeout u CLEANUP_TIMEOUT
                             \<lparr>to_timestamp = now + max_inactivity_period, to_retries = 0, to_interval = max_inactivity_period\<rparr>]
                           else [])
                         (Return ())))))))"

end
