(* ===== verification/Challenge_Manager.thy ===== *)
theory Challenge_Manager
  imports Challenge_Requests
begin

text \<open>
  The challenge manager (\<^verbatim>\<open>challenge-server/challenge-manager.ts\<close>): the handlers of requests, composed of the transactions of
  \<^theory_text>\<open>Challenge_Requests\<close>; the completion of a stage; the cleanup of a challenge; and the timeouts. A handler is a sequence of
  atomic actions on the store, here run one after the other; \<open>lifecycle_step\<close> below lets the actions of all handlers interleave. Logging,
  metrics and webhooks are left out, and the clock stands still during a handler.
\<close>

subsection \<open>Completing a stage\<close>

record ('c, 'b) server =
  se_redis :: "('c, 'b) redis"
  se_db :: db
  se_tasks :: "(string \<times> stage \<times> int option) list"

definition pipeline :: "int \<Rightarrow> 'c rwrite list \<Rightarrow> ('c, 'b) server \<Rightarrow> ('c, 'b) server" where
  "pipeline now ws w = w\<lparr>se_redis := apply_writes now ws (se_redis w)\<rparr>"

definition transact :: "int \<Rightarrow> ('c, 'b, 'a) rtxn \<Rightarrow> ('c, 'b) server \<Rightarrow> 'a option \<times> ('c, 'b) server" where
  "transact now p w =
     (case run_alone now p (se_redis w) (se_db w) of (r, s, d) \<Rightarrow> (r, w\<lparr>se_redis := s, se_db := d\<rparr>))"

text \<open>The claim to process a stage, which only one caller gets.\<close>

definition claim_txn :: "int \<Rightarrow> string \<Rightarrow> stage_key \<Rightarrow> ('c, 'b, bool) rtxn" where
  "claim_txn now u k =
     has_processed_stage u k (\<lambda>done.
       if done then Return False
       else Queue (Set_Processed u k) (Queue (Set_Fields u [F_Processing (Some now)]) (Return True)))"

definition stage_writes :: "string \<Rightarrow> stage_key \<Rightarrow> 'c field list \<Rightarrow> 'c rwrite list" where
  "stage_writes u k fs =
     [Set_Fields u (fs @ [F_Processing None]), Delete_Stream u k, Publish (Notice_Stage_End u (fst k) (snd k))]"

text \<open>
  The processing of a claimed stage. The result is \<^const>\<open>None\<close> when the merge throws; a stage whose processing throws
  has no updates, but the database keeps what was written.
\<close>

definition process_claimed ::
    "('c, 'b) manager_params \<Rightarrow> 'c hooks \<Rightarrow> int \<Rightarrow> int \<Rightarrow> 'c challenge_state \<Rightarrow> 'c processor \<Rightarrow> stage_key \<Rightarrow> ('c, 'b) server \<Rightarrow>
     'c processor option \<times> ('c, 'b) server" where
  "process_claimed g hk now today c p k w =
     (let events = rd_streams (se_redis w) (cs_uuid c, k) in
      if events = []
      then (Some p, pipeline now [Delete_Stream (cs_uuid c) k, Set_Fields (cs_uuid c) [F_Processing None]] w)
      else case mg_merge g c (fst k) (snd k) events of
          None \<Rightarrow> (None, w)
        | Some None \<Rightarrow> (Some p, pipeline now (stage_writes (cs_uuid c) k []) w)
        | Some (Some me) \<Rightarrow>
            (case process_stage (mg_proc g) hk now today (fst k) me p (se_db w) of
               (fs, p', d') \<Rightarrow>
                 (Some p', pipeline now (stage_writes (cs_uuid c) k (case fs of None \<Rightarrow> [] | Some us \<Rightarrow> us))
                    (w\<lparr>se_db := d'\<rparr>))))"

definition complete_stage ::
    "('c, 'b) manager_params \<Rightarrow> 'c hooks \<Rightarrow> int \<Rightarrow> int \<Rightarrow> 'c challenge_state \<Rightarrow> 'c processor \<Rightarrow> stage_key \<Rightarrow> ('c, 'b) server \<Rightarrow>
     'c processor option \<times> ('c, 'b) server" where
  "complete_stage g hk now today c p k w =
     (let w1 = (if cs_timeout c = STAGE_END_TIMEOUT then pipeline now [Clear_Timeout (cs_uuid c)] w else w);
          (ok, w2) = transact now (claim_txn now (cs_uuid c) k) w1
      in if ok = Some True then process_claimed g hk now today c p k w2 else (Some p, w2))"

text \<open>
  \<^verbatim>\<open>loadAndCompleteChallengeStage\<close>. Whatever the completion throws is caught; what is thrown before it, when the hash
  cannot be read or has no processor, is not (\<^const>\<open>False\<close>).
\<close>

definition load_and_complete ::
    "('c, 'b) manager_params \<Rightarrow> int \<Rightarrow> int \<Rightarrow> string \<Rightarrow> stage_key \<Rightarrow> ('c, 'b) server \<Rightarrow> bool \<times> ('c, 'b) server" where
  "load_and_complete g now today u k w =
     (if fst k = UNKNOWN_STAGE then (True, w)
      else case challenge_from_hash (rd_challenges (se_redis w) u) of
          None \<Rightarrow> (False, w)
        | Some None \<Rightarrow> (True, pipeline now [Delete_Stream u k] w)
        | Some (Some c) \<Rightarrow>
            (case mg_hooks g (cs_type c) of
               None \<Rightarrow> (False, w)
             | Some hk \<Rightarrow> (True, snd (complete_stage g hk now today c (load_processor hk c) k w))))"

subsection \<open>Cleaning up a challenge\<close>

datatype cleanup_status = Cleanup_Ok | Active_Clients | Processing_Stage | Challenge_Not_Found | Failed_Cleanup

definition max_stage_processing_time :: int where "max_stage_processing_time = 1000 * 30"

definition stage_processing_retry_interval :: int where "stage_processing_retry_interval = 1500"

text \<open>While a stage is processed, the cleanup waits, without using up one of its attempts.\<close>

definition pause_cleanup :: "int \<Rightarrow> string \<Rightarrow> challenge_timeout option \<Rightarrow> timeout_state \<Rightarrow> 'c rwrite" where
  "pause_cleanup now u timeout st =
     (case timeout of
        Some t \<Rightarrow> Set_Timeout u st (t\<lparr>to_timestamp := now + to_interval t\<rparr>)
      | None \<Rightarrow>
          Set_Timeout u (if st = NO_TIMEOUT then CHALLENGE_END_TIMEOUT else st)
            \<lparr>to_timestamp = now + stage_processing_retry_interval, to_retries = 0,
             to_interval = stage_processing_retry_interval\<rparr>)"

definition cleanup_txn ::
    "int \<Rightarrow> string \<Rightarrow> challenge_timeout option \<Rightarrow> ('c, 'b, cleanup_status) rtxn" where
  "cleanup_txn now u timeout =
     get_challenge_fields u (\<lambda>h. get_challenge_clients u (\<lambda>clients.
       if ch_state h = None then Return Challenge_Not_Found
       else if ch_state h = Some CLEANUP then Return Failed_Cleanup
       else if (case ch_processing h of None \<Rightarrow> False | Some t \<Rightarrow> now - t < max_stage_processing_time)
       then Queue (pause_cleanup now u timeout (timeout_of h)) (Return Processing_Stage)
       else if timeout_of h \<noteq> CLEANUP_TIMEOUT \<and> timeout_of h \<noteq> CHALLENGE_END_TIMEOUT \<and> timeout \<noteq> None then Return Active_Clients
       else case timeout of
           None \<Rightarrow> Queue (Set_Fields u [F_State CLEANUP, F_Processing None]) (Return Cleanup_Ok)
         | Some t \<Rightarrow>
             (if to_retries t = 0 \<or> clients = []
              then Queue (Set_Fields u [F_State CLEANUP, F_Processing None]) (Return Cleanup_Ok)
              else Queue (Set_Timeout u (timeout_of h)
                  \<lparr>to_timestamp = now + to_interval t, to_retries = to_retries t - 1, to_interval = to_interval t\<rparr>)
                (Return Active_Clients))))"

text \<open>The end of a challenge the caller owns; \<^const>\<open>False\<close> when it throws, which leaves the challenge's data behind.\<close>

definition end_challenge ::
    "('c, 'b) manager_params \<Rightarrow> int \<Rightarrow> int \<Rightarrow> string \<Rightarrow> ('c, 'b) server \<Rightarrow> bool \<times> ('c, 'b) server" where
  "end_challenge g now today u w =
     (case challenge_from_hash (rd_challenges (se_redis w) u) of
        None \<Rightarrow> (False, w)
      | Some ch \<Rightarrow>
          (let w1 = pipeline now [Publish (Notice_Finish u)] w in
           case ch of
             None \<Rightarrow> (True, w1\<lparr>se_redis := delete_challenge_data now u None None (se_redis w1)\<rparr>)
           | Some c \<Rightarrow>
               (case mg_hooks g (cs_type c) of
                  None \<Rightarrow> (False, w1)
                | Some hk \<Rightarrow>
                    (case complete_stage g hk now today c (load_processor hk c) (cs_stage c, cs_attempt c) w1 of
                       (None, w2) \<Rightarrow> (False, w2)
                     | (Some p, w2) \<Rightarrow>
                         (case finish_challenge hk now today now p (se_db w2) of
                            (None, p', d') \<Rightarrow> (False, w2\<lparr>se_db := d'\<rparr>)
                          | (Some valid, p', d') \<Rightarrow>
                              (let w3 = w2\<lparr>se_db := d'\<rparr>;
                                   w4 = (if valid \<and> pr_status p' \<noteq> ABANDONED then pipeline now [Add_Feed u] w3 else w3)
                               in (True, w4\<lparr>se_redis := delete_challenge_data now u (Some (cs_type c)) (Some (cs_party c))
                                     (se_redis w4)\<rparr>)))))))"

definition cleanup_challenge ::
    "('c, 'b) manager_params \<Rightarrow> int \<Rightarrow> int \<Rightarrow> string \<Rightarrow> challenge_timeout option \<Rightarrow> ('c, 'b) server \<Rightarrow> bool \<times> ('c, 'b) server" where
  "cleanup_challenge g now today u timeout w =
     (case transact now (cleanup_txn now u timeout) w of
        (None, w1) \<Rightarrow> (False, w1)
      | (Some Cleanup_Ok, w1) \<Rightarrow> end_challenge g now today u w1
      | (Some Active_Clients, w1) \<Rightarrow> (True, w1)
      | (Some Processing_Stage, w1) \<Rightarrow> (True, w1)
      | (Some st, w1) \<Rightarrow> (True, w1\<lparr>se_redis := delete_challenge_data now u None None (se_redis w1)\<rparr>))"

subsection \<open>Timeouts\<close>

text \<open>The latest stage any client has completed, with its highest attempt.\<close>

definition last_completed :: "(stage \<Rightarrow> int) \<Rightarrow> challenge_client list \<Rightarrow> stage_key" where
  "last_completed num clients =
     fold (\<lambda>k (s, a). if num (cc_last_stage k) > num s then (cc_last_stage k, cc_last_attempt k)
         else if cc_last_stage k = s then (s, max_attempt a (cc_last_attempt k)) else (s, a))
       clients (UNKNOWN_STAGE, None)"

definition handle_stage_end_timeout ::
    "('c, 'b) manager_params \<Rightarrow> int \<Rightarrow> int \<Rightarrow> string \<Rightarrow> ('c, 'b) server \<Rightarrow> bool \<times> ('c, 'b) server" where
  "handle_stage_end_timeout g now today u w =
     load_and_complete g now today u (last_completed (mg_stage g) (map snd (rd_clients (se_redis w) u))) w"

definition check_active_txn :: "int \<Rightarrow> string \<Rightarrow> ('c, 'b, unit) rtxn" where
  "check_active_txn now u =
     get_challenge_fields u (\<lambda>h. get_challenge_clients u (\<lambda>clients. get_challenge_timeout u (\<lambda>t.
       if t \<noteq> None \<and> timeout_of h \<noteq> NO_TIMEOUT then Return ()
       else
         queue_all (if filter cc_active clients = []
             then [Set_Timeout u CLEANUP_TIMEOUT
               \<lparr>to_timestamp = now + max_reconnection_period, to_retries = 3, to_interval = max_reconnection_period\<rparr>]
             else [])
           (Return ()))))"

definition expired_timeout :: "int \<Rightarrow> (string, challenge_timeout) omap \<Rightarrow> (string \<times> challenge_timeout) option" where
  "expired_timeout now ts = List.find (\<lambda>(u, t). to_timestamp t \<le> now) ts"

text \<open>
  \<^verbatim>\<open>processOneChallengeTimeout\<close>: the first expired timeout is handled; one that belongs to no timeout state is removed, and
  the next one is looked for.
\<close>

lemma length_alist_delete: "k \<in> fst ` set xs \<Longrightarrow> length (AList.delete k xs) < length xs"
  by (induction xs) (auto simp: AList.delete_eq intro: le_imp_less_Suc)

lemma expired_timeout_mem: "expired_timeout now ts = Some (u, t) \<Longrightarrow> (u, t) \<in> set ts \<and> to_timestamp t \<le> now"
  by (auto simp: expired_timeout_def find_Some_iff in_set_conv_nth)

function process_one_timeout ::
    "('c, 'b) manager_params \<Rightarrow> int \<Rightarrow> int \<Rightarrow> ('c, 'b) server \<Rightarrow> bool \<times> ('c, 'b) server" where
  "process_one_timeout g now today w =
     (case expired_timeout now (rd_timeouts (se_redis w)) of
        None \<Rightarrow> (True, w)
      | Some (u, t) \<Rightarrow>
          (case timeout_of (rd_challenges (se_redis w) u) of
             CLEANUP_TIMEOUT \<Rightarrow> cleanup_challenge g now today u (Some t) w
           | CHALLENGE_END_TIMEOUT \<Rightarrow> cleanup_challenge g now today u (Some t) w
           | STAGE_END_TIMEOUT \<Rightarrow>
               (case handle_stage_end_timeout g now today u w of
                  (False, w1) \<Rightarrow> (False, w1)
                | (True, w1) \<Rightarrow> (True, snd (transact now (check_active_txn now u) w1)))
           | NO_TIMEOUT \<Rightarrow> process_one_timeout g now today (pipeline now [Clear_Timeout u] w)))"
  by pat_completeness auto

termination process_one_timeout
proof (relation "measure (\<lambda>(g, now, today, w). length (rd_timeouts (se_redis w)))")
  fix g :: "('c, 'b) manager_params" and now today and w :: "('c, 'b) server" and x u t
  assume e: "expired_timeout now (rd_timeouts (se_redis w)) = Some x" "(u, t) = x"
  then have "u \<in> fst ` set (rd_timeouts (se_redis w))" using expired_timeout_mem by force
  then show "((g, now, today, pipeline now [Clear_Timeout u] w), (g, now, today, w))
      \<in> measure (\<lambda>(g, now, today, w). length (rd_timeouts (se_redis w)))"
    by (simp add: pipeline_def length_alist_delete)
qed simp

declare process_one_timeout.simps [simp del]

subsection \<open>Requests\<close>

datatype manager_error = Failed_Precondition | Unsupported | Internal | Thrown

text \<open>A challenge whose creation fails leaves nothing behind in the store.\<close>

definition handle_create ::
    "('c, 'b) manager_params \<Rightarrow> int \<Rightarrow> string \<Rightarrow> int option \<Rightarrow> connecting_client \<Rightarrow> recording_type \<Rightarrow> challenge_type \<Rightarrow>
     challenge_mode \<Rightarrow> stage \<Rightarrow> string list \<Rightarrow> ('c, 'b) server \<Rightarrow> (manager_error + status_response) \<times> ('c, 'b) server" where
  "handle_create g now u session cn rtype ty mode stage party w =
     (case (case mg_hooks g ty of
          None \<Rightarrow> (None, se_db w)
        | Some hk \<Rightarrow>
            (case create_new (mg_proc g) hk now session (new_processor hk u mode stage party) (se_db w) of
               (None, d) \<Rightarrow> (None, d) | (Some p, d) \<Rightarrow> (Some (hk, p), d))) of
        (None, d) \<Rightarrow>
          (Inl Internal, w\<lparr>se_redis := delete_challenge_data now u (Some ty) (Some party) (se_redis w), se_db := d\<rparr>)
      | (Some (hk, p), d) \<Rightarrow>
          (case transact now (created_txn (mg_proc g) hk p cn ty rtype stage party) (w\<lparr>se_db := d\<rparr>) of
             (None, w1) \<Rightarrow> (Inl Thrown, w1)
           | (Some x, w1) \<Rightarrow> (Inr \<lparr>sr_uuid = u, sr_mode = mode, sr_stage = stage, sr_attempt = pr_attempt p\<rparr>, w1)))"

text \<open>
  A deferred join tries up to ten times, with a pause after each failure; \<open>others n\<close> is what happens to the server during
  the pause that leaves \<open>n\<close> attempts.
\<close>

fun deferred_join ::
    "int \<Rightarrow> string \<Rightarrow> connecting_client \<Rightarrow> recording_type \<Rightarrow> (nat \<Rightarrow> ('c, 'b) server \<Rightarrow> ('c, 'b) server) \<Rightarrow> nat \<Rightarrow>
     ('c, 'b) server \<Rightarrow> (manager_error + status_response) \<times> ('c, 'b) server" where
  "deferred_join now u cn rtype others 0 w = (Inl Internal, w)"
| "deferred_join now u cn rtype others (Suc n) w =
     (case transact now (deferred_txn u cn rtype) w of
        (None, w1) \<Rightarrow> (Inl Internal, w1)
      | (Some None, w1) \<Rightarrow> deferred_join now u cn rtype others n (others n w1)
      | (Some (Some r), w1) \<Rightarrow> (Inr r, w1))"

definition deferred_join_max_retries :: nat where "deferred_join_max_retries = 10"

text \<open>\<^verbatim>\<open>createOrJoin\<close>; the last arguments are the UUID of a new challenge and what happens during the pauses.\<close>

definition create_or_join ::
    "('c, 'b) manager_params \<Rightarrow> int \<Rightarrow> connecting_client \<Rightarrow> challenge_type \<Rightarrow> challenge_mode \<Rightarrow> stage \<Rightarrow> string list \<Rightarrow>
     recording_type \<Rightarrow> string \<Rightarrow> (nat \<Rightarrow> ('c, 'b) server \<Rightarrow> ('c, 'b) server) \<Rightarrow> ('c, 'b) server \<Rightarrow>
     (manager_error + status_response) \<times> ('c, 'b) server" where
  "create_or_join g now cn ty mode stage party rtype uuid others w =
     (if mode = TOB_ENTRY then (Inl Unsupported, w)
      else case transact now (start_txn (mg_proc g) now cn ty rtype stage party uuid) w of
          (None, w1) \<Rightarrow> (Inl Thrown, w1)
        | (Some dec, w1) \<Rightarrow>
            (case (case dec of
                Create_Challenge u session \<Rightarrow> handle_create g now u session cn rtype ty mode stage party w1
              | Deferred_Join u \<Rightarrow> deferred_join now u cn rtype others deferred_join_max_retries w1
              | Immediate_Join u r \<Rightarrow> (Inr r, w1)) of
               (Inl e, w2) \<Rightarrow> (Inl e, w2)
             | (Inr r, w2) \<Rightarrow>
                 (case add_recorder (sr_uuid r) (cn_user cn) rtype (se_db w2) of
                    (ok, d) \<Rightarrow> (if ok then Inr r else Inl Thrown, w2\<lparr>se_db := d\<rparr>))))"

definition finish ::
    "('c, 'b) manager_params \<Rightarrow> int \<Rightarrow> string \<Rightarrow> int \<Rightarrow> reported_times option \<Rightarrow> bool \<Rightarrow> ('c, 'b) server \<Rightarrow>
     finish_result option \<times> ('c, 'b) server" where
  "finish g now u cid reported soft w = transact now (finish_txn (mg_proc g) now u cid reported soft) w"

text \<open>\<^verbatim>\<open>update\<close>: the first check is a read of its own; a stage that all clients have finished is completed in the background.\<close>

definition update_challenge ::
    "('c, 'b) manager_params \<Rightarrow> int \<Rightarrow> int \<Rightarrow> string \<Rightarrow> int \<Rightarrow> challenge_update \<Rightarrow> ('c, 'b) server \<Rightarrow>
     (manager_error + status_response option) \<times> ('c, 'b) server" where
  "update_challenge g now today u cid upd w =
     (if rd_client_challenge (se_redis w) cid \<noteq> Some u then (Inr None, w)
      else case transact now (update_txn g now u cid upd) w of
          (None, w1) \<Rightarrow> (Inl Thrown, w1)
        | (Some r, w1) \<Rightarrow>
            (if ur_cleanup r
             then (case cleanup_challenge g now today u None w1 of
                 (ok, w2) \<Rightarrow> (if ok then Inr (ur_response r) else Inl Thrown, w2))
             else case ur_finish r of
                 None \<Rightarrow> (Inr (ur_response r), w1)
               | Some (stage, att) \<Rightarrow>
                   (Inr (ur_response r),
                    (pipeline now [Set_Fields u [F_Processing (Some now)]] w1)
                      \<lparr>se_tasks := se_tasks w1 @ [(u, stage, att)]\<rparr>)))"

text \<open>A completion in the background; what it throws is dropped.\<close>

definition run_task :: "('c, 'b) manager_params \<Rightarrow> int \<Rightarrow> int \<Rightarrow> ('c, 'b) server \<Rightarrow> ('c, 'b) server" where
  "run_task g now today w =
     (case se_tasks w of
        [] \<Rightarrow> w
      | (u, k) # ts \<Rightarrow> snd (load_and_complete g now today u k (w\<lparr>se_tasks := ts\<rparr>)))"

definition add_client ::
    "int \<Rightarrow> string \<Rightarrow> connecting_client \<Rightarrow> recording_type \<Rightarrow> ('c, 'b) server \<Rightarrow>
     (manager_error + status_response) \<times> ('c, 'b) server" where
  "add_client now u cn rtype w =
     (case rd_client_challenge (se_redis w) (cn_id cn) of
        Some v \<Rightarrow>
          (if v \<noteq> u then (Inl Failed_Precondition, w)
           else case transact now (add_client_txn u cn rtype) w of
               (None, w1) \<Rightarrow> (Inl Thrown, w1)
             | (Some None, w1) \<Rightarrow> (Inl Failed_Precondition, w1)
             | (Some (Some r), w1) \<Rightarrow> (Inr r, w1))
      | None \<Rightarrow>
          (case transact now (add_client_txn u cn rtype) w of
             (None, w1) \<Rightarrow> (Inl Thrown, w1)
           | (Some None, w1) \<Rightarrow> (Inl Failed_Precondition, w1)
           | (Some (Some r), w1) \<Rightarrow> (Inr r, w1)))"

datatype client_status = Client_Active | Client_Idle | Client_Disconnected

text \<open>
  One round of \<^verbatim>\<open>processClientEvents\<close>, for an event from the queue: whether the loop goes on. It ends when a transaction throws.
\<close>

definition process_client_event :: "int \<Rightarrow> int \<Rightarrow> string \<Rightarrow> client_status \<Rightarrow> ('c, 'b) server \<Rightarrow> bool \<times> ('c, 'b) server" where
  "process_client_event now cid token status w =
     (case rd_client_challenge (se_redis w) cid of
        None \<Rightarrow> (True, w)
      | Some u \<Rightarrow>
          (case transact now
               (case status of
                  Client_Active \<Rightarrow> set_client_active_txn cid u token
                | Client_Idle \<Rightarrow> set_client_inactive_txn now cid u token
                | Client_Disconnected \<Rightarrow> remove_client_txn now cid u token) w of
             (r, w1) \<Rightarrow> (r \<noteq> None, w1)))"

text \<open>The session watchdog: a session of the database ends when its key has expired or belongs to another session.\<close>

definition finish_inactive_sessions :: "proc_params \<Rightarrow> int \<Rightarrow> ('c, 'b) server \<Rightarrow> ('c, 'b) server" where
  "finish_inactive_sessions pp now w =
     w\<lparr>se_db := fold
         (\<lambda>r d. if (case rd_sessions (se_redis w) (sn_type r, sn_hash r) of
              None \<Rightarrow> True | Some (sid, t) \<Rightarrow> \<not> now < t \<or> sid \<noteq> sn_id r)
            then snd (finalize_session (pp_mode pp) (sn_id r) d) else d)
         (load_expiring_sessions now (se_db w)) (se_db w)\<rparr>"

end
