(* ===== verification/Challenge_Lifecycle.thy ===== *)
theory Challenge_Lifecycle
  imports Challenge_Manager Challenge_Kinds
begin

text \<open>
  What the challenge manager guarantees: its transactions are atomic and their retries end; a party gets one challenge; a
  stage is processed once; a timeout that is set is scheduled; a cleanup is not put off forever; and where the code falls
  short of what it means to do.
\<close>

subsection \<open>Transactions\<close>

text \<open>
  C1: However the writes of other clients fall between the reads of a transaction, an attempt that is not refused either has
  changed nothing itself, or has the result and the effect of the transaction running alone at the moment of its execution.
\<close>

theorem committed_transaction_atomic:
  fixes p :: "('c, 'b, 'a) rtxn"
  assumes "attempt read_value (apply_write now) touched_keys p es {} False [] s d = (Some (Some a), s', d')"
  shows "\<exists>n sc. sc = apply_writes now (concat (take n es)) s \<and> (s' = sc \<or> run_alone now p sc d = (Some a, s', d'))"
  using redis_store.attempt_atomic [OF assms]
proof (elim disjE exE conjE)
  fix n sc ws
  assume "sc = fold (apply_write now) (concat (take n es)) s" "run_txn read_value p sc d = (Some a, ws, d')"
    "s' = fold (apply_write now) ([] @ ws) sc"
  then show ?thesis
    by (intro exI [of _ n] exI [of _ sc]) (simp add: apply_writes_def run_alone_def atomically_def)
qed (auto simp: apply_writes_def)

theorem committed_transaction_atomic_witness:
  "\<exists>n sc. sc = apply_writes 0 (concat (take n [[Add_Feed ''a'']])) (empty_redis :: (unit, unit) redis) \<and>
     (apply_writes 0 [Add_Feed ''a'', Set_Processed ''u'' (TOB_BLOAT, None), Set_Fields ''u'' [F_Processing (Some 0)]] empty_redis = sc \<or>
      run_alone 0 (claim_txn 0 ''u'' (TOB_BLOAT, None)) sc empty_db =
        (Some True, apply_writes 0 [Add_Feed ''a'', Set_Processed ''u'' (TOB_BLOAT, None), Set_Fields ''u'' [F_Processing (Some 0)]]
           empty_redis, empty_db))"
  by (rule committed_transaction_atomic)
    (simp add: claim_txn_def txn_reads interfere_def first_writes_def empty_redis_def)

text \<open>
  C7: A transaction that is tried again until it is not refused returns: at the latest with the first attempt during which
  no other client writes a key it reads.
\<close>

theorem transaction_retries_end:
  fixes p :: "('c, 'b, 'a) rtxn"
  assumes "reads_within K p" and "undisturbed touched_keys K (envs j)"
  shows "\<exists>r m s' d'. retry_txn read_value (apply_write now) touched_keys p envs 0 s d = Some (r, m, s', d') \<and> m \<le> j"
  using redis_store.retry_returns [of K p envs 0 j now s d] assms by simp

theorem transaction_retries_end_witness:
  "\<exists>r m s' d'. retry_txn read_value (apply_write 0) touched_keys
     (claim_txn 0 ''u'' (TOB_BLOAT, None) :: (unit, unit, bool) rtxn)
     (\<lambda>n. if n = 0 then [[], [Set_Processed ''u'' (TOB_MAIDEN, None)]] else [[Add_Feed ''u'']]) 0 empty_redis empty_db =
     Some (r, m, s', d') \<and> m \<le> 1"
  by (rule transaction_retries_end [where K = "{K_Processed ''u''}"])
    (simp_all add: claim_txn_def txn_reads undisturbed_def)

subsection \<open>One processing of a stage\<close>

definition keeps_claims :: "string \<Rightarrow> 'c rwrite \<Rightarrow> bool" where
  "keeps_claims u w \<longleftrightarrow> w \<noteq> Del_Processed u"

lemma claims_kept:
  "list_all (keeps_claims u) ws \<Longrightarrow> rd_processed s u \<subseteq> rd_processed (apply_writes now ws s) u"
proof (induction ws arbitrary: s)
  case (Cons w ws)
  have "rd_processed s u \<subseteq> rd_processed (apply_write now w s) u"
    using Cons.prems by (cases w) (auto simp: keeps_claims_def)
  with Cons show ?case by fastforce
qed simp

text \<open>
  Where a caller stands between two commands of its claim. Once it has seen that the stage is not processed, this stays
  true unless the caller is disturbed.
\<close>

definition claim_stands ::
    "int \<Rightarrow> string \<Rightarrow> stage_key \<Rightarrow> ('c, 'b) redis \<Rightarrow> (rkey, ('c, 'b) rvalue, 'c rwrite, db, bool) session \<Rightarrow> bool" where
  "claim_stands now u k s x \<longleftrightarrow>
     (case x of
        Finished r \<Rightarrow> r = Some True \<longrightarrow> k \<in> rd_processed s u
      | Running p W b q \<Rightarrow>
          (p = claim_txn now u k \<and> q = []) \<or> (p = Return False \<and> q = []) \<or>
          (let w1 = Set_Processed u k; w2 = Set_Fields u [F_Processing (Some now)] in
             K_Processed u \<in> W \<and> (b \<or> k \<notin> rd_processed s u) \<and>
             ((p = Queue w1 (Queue w2 (Return True)) \<and> q = []) \<or> (p = Queue w2 (Return True) \<and> q = [w1]) \<or>
              (p = Return True \<and> q = [w1, w2]))))"

lemma claim_disturbed:
  assumes "claim_stands now u k s x" and "rd_processed s u \<subseteq> rd_processed s' u"
    and "list_ex (\<lambda>w. K_Processed u \<in> touched_keys w) ws \<or> rd_processed s' u = rd_processed s u"
  shows "claim_stands now u k s' (disturb touched_keys ws x)"
  using assms by (cases x) (auto simp: claim_stands_def Let_def list_ex_iff)

lemma write_claims:
  "keeps_claims u w \<Longrightarrow> rd_processed s u \<subseteq> rd_processed (apply_write now w s) u \<and>
     (K_Processed u \<in> touched_keys w \<or> rd_processed (apply_write now w s) u = rd_processed s u)"
  by (cases w) (auto simp: keeps_claims_def)

definition claims_stand ::
    "string \<Rightarrow> stage_key \<Rightarrow> ('i \<Rightarrow> int) \<Rightarrow> stage_key set \<Rightarrow>
     ('i \<Rightarrow> (rkey, ('c, 'b) rvalue, 'c rwrite, db, bool) session) \<Rightarrow> ('c, 'b) redis \<Rightarrow> bool" where
  "claims_stand u k clock done c s \<longleftrightarrow>
     (\<forall>i. claim_stands (clock i) u k s (c i)) \<and> done \<subseteq> rd_processed s u \<and>
     (\<forall>i. c i = Finished (Some True) \<longrightarrow> k \<notin> done) \<and>
     (\<forall>i j. c i = Finished (Some True) \<longrightarrow> c j = Finished (Some True) \<longrightarrow> i = j)"

lemma disturb_finished [simp]: "disturb tc ws x = Finished r \<longleftrightarrow> x = Finished r"
  by (cases x) simp_all

lemma disturb_nil [simp]: "disturb tc [] x = x"
  by (cases x) simp_all

lemma claims_step:
  assumes "concurrent_step read_value apply_write touched_keys (keeps_claims u) (\<lambda>i. claim_txn (clock i) u k) (c, s, d) (c', s', d')"
    and inv: "claims_stand u k clock done c s"
  shows "claims_stand u k clock done c' s'"
proof -
  have one: "claims_stand u k clock done (c(i := x)) s"
    if "claim_stands (clock i) u k s x" "x \<noteq> Finished (Some True)" for i x
    using inv that by (auto simp: claims_stand_def)
  have at: "claim_stands (clock i) u k s (c i)" for i using inv by (simp add: claims_stand_def)
  from assms(1) show ?thesis
  proof cases
    case (step_execute i a W b q t)
    have i: "claim_stands (clock i) u k s (Running (Return a) W b q)" using at [of i] step_execute by simp
    show ?thesis
    proof (cases a)
      case False
      with i have "q = []" by (auto simp: claim_stands_def Let_def claim_txn_def txn_reads)
      then show ?thesis
        using step_execute False one [of i "Finished (Some False)"] by (simp add: claim_stands_def comp_def)
    next
      case True
      with i step_execute have q: "q = [Set_Processed u k, Set_Fields u [F_Processing (Some (clock i))]]" "k \<notin> rd_processed s u"
        by (auto simp: claim_stands_def Let_def claim_txn_def txn_reads)
      then have p: "rd_processed s' u = insert k (rd_processed s u)" using step_execute by simp
      have none: "c j \<noteq> Finished (Some True)" for j using at [of j] q(2) by (auto simp: claim_stands_def)
      have "claim_stands (clock j) u k s' (disturb touched_keys q (c j))" for j
        using claim_disturbed [OF at [of j], of s' q] p by (auto simp: q(1))
      moreover have "k \<notin> done" using inv q(2) by (auto simp: claims_stand_def)
      ultimately show ?thesis
        using step_execute none inv p True by (auto simp: claims_stand_def claim_stands_def)
    qed
  next
    case (step_outside w t)
    have w: "rd_processed s u \<subseteq> rd_processed s' u \<and> (K_Processed u \<in> touched_keys w \<or> rd_processed s' u = rd_processed s u)"
      using write_claims [of u w s t] step_outside by simp
    have "claim_stands (clock j) u k s' (disturb touched_keys [w] (c j))" for j
      using claim_disturbed [OF at [of j], of s' "[w]"] w by auto
    then show ?thesis using step_outside inv w by (auto simp: claims_stand_def)
  next
    case (step_watch i key f W b q)
    then show ?thesis using at [of i] by (auto intro!: one simp: claim_stands_def Let_def)
  next
    case (step_read i key f W b q)
    then show ?thesis
      using at [of i] by (auto intro!: one simp: claim_stands_def Let_def claim_txn_def txn_reads)
  next
    case (step_queue i w p W b q)
    then show ?thesis
      using at [of i] by (auto intro!: one simp: claim_stands_def Let_def claim_txn_def txn_reads)
  next
    case (step_effect i g p W b q)
    then show ?thesis using at [of i] by (auto simp: claim_stands_def Let_def claim_txn_def txn_reads)
  next
    case (step_throw i W b q)
    then show ?thesis using at [of i] by (auto simp: claim_stands_def Let_def claim_txn_def txn_reads)
  next
    case (step_refuse i a W q)
    then show ?thesis by (auto intro!: one simp: claim_stands_def)
  qed
qed

text \<open>
  C4: Any number of callers want to process a stage at the same time, the last client, the stage's timer and the cleanup among
  them, and try again when they are refused. However their watches, reads and executions and the writes of others
  interleave, at most one of them ever gets the stage; then the stage is marked, and it was not marked before. The others may
  do anything but delete the challenge.
\<close>

theorem stage_claimed_once:
  fixes s0 :: "('c, 'b) redis"
  assumes "(concurrent_step read_value apply_write touched_keys (keeps_claims u) (\<lambda>i. claim_txn (clock i) u k))\<^sup>*\<^sup>*
      (concurrent_start (\<lambda>i. claim_txn (clock i) u k), s0, d0) (c, s, d)"
    and "c i = Finished (Some True)"
  shows "(c j = Finished (Some True) \<longrightarrow> j = i) \<and> k \<in> rd_processed s u \<and> k \<notin> rd_processed s0 u"
proof -
  have "claims_stand u k clock (rd_processed s0 u) (concurrent_start (\<lambda>i. claim_txn (clock i) u k)) s0"
    by (simp add: claims_stand_def claim_stands_def concurrent_start_def)
  moreover have "claims_stand u k clock (rd_processed s0 u) (fst x) (fst (snd x)) \<Longrightarrow>
      claims_stand u k clock (rd_processed s0 u) (fst y) (fst (snd y))"
    if "(concurrent_step read_value apply_write touched_keys (keeps_claims u) (\<lambda>i. claim_txn (clock i) u k))\<^sup>*\<^sup>* x y" for x y
    using that
  proof (induction rule: rtranclp_induct)
    case (step y z)
    then show ?case using claims_step [of u clock k "fst y" "fst (snd y)" "snd (snd y)" "fst z" "fst (snd z)" "snd (snd z)"] by simp
  qed
  ultimately have "claims_stand u k clock (rd_processed s0 u) c s" using assms(1) by fastforce
  with assms(2) show ?thesis by (auto simp: claims_stand_def claim_stands_def split: session.splits)
qed

lemma claim_reads:
  assumes "c i = Running (claim_txn (clock i) u k) {} False []" and "k \<notin> rd_processed s u"
  shows "(concurrent_step read_value apply_write touched_keys P (\<lambda>i. claim_txn (clock i) u k))\<^sup>*\<^sup>* (c, s, d)
     (c(i := Running (Queue (Set_Processed u k) (Queue (Set_Fields u [F_Processing (Some (clock i))]) (Return True)))
        {K_Processed u} False []), s, d)"
    (is "?R\<^sup>*\<^sup>* _ _")
proof -
  let ?f = "\<lambda>v. if k \<in> the_processed v then Return False
    else Queue (Set_Processed u k) (Queue (Set_Fields u [F_Processing (Some (clock i))]) (Return True))"
  have "c i = Running (Read (K_Processed u) ?f) {} False []" using assms(1) by (simp add: claim_txn_def txn_reads)
  from step_watch [where c = c and i = i, OF this] have w: "?R (c, s, d) (c(i := Running (Read (K_Processed u) ?f) {K_Processed u} False []), s, d)" .
  have "(c(i := Running (Read (K_Processed u) ?f) {K_Processed u} False [])) i = Running (Read (K_Processed u) ?f) {K_Processed u} False []"
    by simp
  from step_read [where c = "c(i := Running (Read (K_Processed u) ?f) {K_Processed u} False [])" and i = i and rd = read_value
      and ap = apply_write and tc = touched_keys and allowed = P and prog = "\<lambda>i. claim_txn (clock i) u k" and s = s and d = d, OF this]
  have "?R (c(i := Running (Read (K_Processed u) ?f) {K_Processed u} False []), s, d)
      (c(i := Running (?f (read_value (K_Processed u) s)) {K_Processed u} False []), s, d)" by simp
  with w assms(2) show ?thesis by (auto intro: converse_rtranclp_into_rtranclp)
qed

lemma claim_executes:
  assumes "c i = Running (Queue w1 (Queue w2 (Return True))) W False []"
  shows "(concurrent_step read_value apply_write touched_keys P prog)\<^sup>*\<^sup>* (c, s, d)
     ((disturb touched_keys [w1, w2] \<circ> c)(i := Finished (Some True)), apply_writes t [w1, w2] s, d)"
    (is "?R\<^sup>*\<^sup>* _ _")
proof -
  let ?c1 = "c(i := Running (Queue w2 (Return True)) W False [w1])" and ?c2 = "c(i := Running (Return True) W False [w1, w2])"
  have "?R (c, s, d) (?c1, s, d)" using step_queue [where c = c and i = i, OF assms] by simp
  moreover have "?R (?c1, s, d) (?c2, s, d)" using step_queue [of ?c1 i w2 "Return True" W False "[w1]"] by simp
  moreover have "?R (?c2, s, d) ((disturb touched_keys [w1, w2] \<circ> ?c2)(i := Finished (Some True)), fold (apply_write t) [w1, w2] s, d)"
    by (rule step_execute [where W = W and b = False]) simp_all
  moreover have "(disturb touched_keys [w1, w2] \<circ> ?c2)(i := Finished (Some True)) =
      (disturb touched_keys [w1, w2] \<circ> c)(i := Finished (Some True))" by auto
  ultimately show ?thesis unfolding apply_writes_def by (metis (no_types, lifting) r_into_rtranclp rtranclp_trans)
qed

text \<open>Two callers have both seen that the stage is free when one of them executes.\<close>

theorem stage_claimed_once_witness:
  "\<exists>c s d. (concurrent_step read_value apply_write touched_keys (keeps_claims ''u'') (\<lambda>i :: bool. claim_txn 5 ''u'' (TOB_BLOAT, None)))\<^sup>*\<^sup>*
      (concurrent_start (\<lambda>i. claim_txn 5 ''u'' (TOB_BLOAT, None)), empty_redis :: (unit, unit) redis, empty_db) (c, s, d) \<and>
     c False = Finished (Some True) \<and> c True \<noteq> Finished (Some True) \<and> (TOB_BLOAT, None) \<in> rd_processed s ''u''"
proof -
  let ?k = "(TOB_BLOAT, None) :: stage_key" and ?t = "claim_txn 5 ''u'' (TOB_BLOAT, None)"
  let ?R = "concurrent_step read_value apply_write touched_keys (keeps_claims ''u'') (\<lambda>i :: bool. ?t)"
  let ?w = "Set_Fields ''u'' [F_Processing (Some 5)]"
  let ?c0 = "concurrent_start (\<lambda>i :: bool. ?t)" and ?s = "empty_redis :: (unit, unit) redis"
  let ?seen = "Running (Queue (Set_Processed ''u'' ?k) (Queue ?w (Return True))) {K_Processed ''u''} False []"
  let ?c2 = "?c0(True := ?seen, False := ?seen)" and ?ws = "[Set_Processed ''u'' ?k, ?w]"
  have first: "?R\<^sup>*\<^sup>* (?c0, ?s, empty_db) (?c0(True := ?seen), ?s, empty_db)"
    by (rule claim_reads [where clock = "\<lambda>_. 5" and i = True]) (simp_all add: concurrent_start_def empty_redis_def)
  have second: "?R\<^sup>*\<^sup>* (?c0(True := ?seen), ?s, empty_db) (?c2, ?s, empty_db)"
    by (rule claim_reads [where clock = "\<lambda>_. 5" and i = False]) (simp_all add: concurrent_start_def empty_redis_def)
  have third: "?R\<^sup>*\<^sup>* (?c2, ?s, empty_db)
      ((disturb touched_keys ?ws \<circ> ?c2)(False := Finished (Some True)), apply_writes 5 ?ws ?s, empty_db)"
    by (rule claim_executes) simp
  define c3 :: "bool \<Rightarrow> (rkey, (unit, unit) rvalue, unit rwrite, db, bool) session"
    where "c3 = (disturb touched_keys ?ws \<circ> ?c2)(False := Finished (Some True))"
  define s3 where "s3 = apply_writes 5 ?ws ?s"
  have run: "?R\<^sup>*\<^sup>* (?c0, ?s, empty_db) (c3, s3, empty_db)"
    unfolding c3_def s3_def by (rule rtranclp_trans [OF rtranclp_trans [OF first second] third])
  have won: "c3 False = Finished (Some True)" by (simp add: c3_def)
  have "(c3 True = Finished (Some True) \<longrightarrow> True = False) \<and> ?k \<in> rd_processed s3 ''u'' \<and> ?k \<notin> rd_processed ?s ''u''"
    by (rule stage_claimed_once [where clock = "\<lambda>_. 5" and c = c3 and s = s3 and ?s0.0 = ?s and i = False, OF run won])
  with run won show ?thesis by blast
qed

subsection \<open>One challenge for a party\<close>

lemma create_run:
  "run_txn read_value (create_txn pp now ty stage party uuid) s d =
     (Some (Create_Challenge uuid (case rd_sessions s (session_key pp ty party) of
        None \<Rightarrow> None | Some (sid, t) \<Rightarrow> if now < t then Some sid else None)),
      [Add_Party (party_key ty party) uuid,
       Set_Fields uuid [F_State INITIALIZING, F_Status IN_PROGRESS, F_Stage stage, F_Timeout NO_TIMEOUT]], d)"
  by (simp add: create_txn_def txn_reads)

lemma joining_run:
  "run_txn read_value (joining u dec) s d =
     (Some dec, if ch_timeout (rd_challenges s u) = Some CLEANUP_TIMEOUT then [Clear_Timeout u] else [], d)"
  by (simp add: joining_def txn_reads)

lemma join_as_run:
  "run_txn read_value (join_as u cn rtype stage att p) s d =
     (case run_txn read_value p s d of
        (None, ws, d') \<Rightarrow> (None, [], d')
      | (Some a, ws, d') \<Rightarrow>
          (Some a, Set_Client u (cn_id cn) (client_entry (map_of (rd_clients s u) (cn_id cn)) cn rtype stage att) # ws, d'))"
  by (simp add: join_as_def txn_reads)

text \<open>Starting a challenge, given what is known of the party's last one.\<close>

lemma start_run_last:
  assumes "rd_parties s (party_key ty party) = us @ [u]" and h: "h = rd_challenges s u"
    and "ch_state h = Some life" "ch_status h = Some status" "ch_stage h = Some last_stage"
    and "status \<noteq> CHALLENGE_COMPLETED" "timeout_of h \<noteq> CHALLENGE_END_TIMEOUT" "life \<noteq> CLEANUP"
    and "stage = UNKNOWN_STAGE \<or> pp_stage pp last_stage \<le> pp_stage pp stage"
  shows "fst (run_alone now (start_txn pp now cn ty rtype stage party uuid) s d) =
     (if life = INITIALIZING then Some (Deferred_Join u)
      else Some (Immediate_Join u \<lparr>sr_uuid = u, sr_mode = (case ch_mode h of None \<Rightarrow> NO_MODE | Some m \<Rightarrow> m),
        sr_stage = last_stage, sr_attempt = ch_attempt h\<rparr>))"
  using assms
  by (auto simp: run_alone_def atomically_def start_txn_def Let_def get_last_challenge_def get_challenge_fields_def
      joining_run join_as_run)

lemma start_creates:
  assumes "run_alone now (start_txn pp now cn ty rtype stage party uuid) s d = (Some (Create_Challenge u sid), s1, d1)"
  shows "u = uuid \<and> (\<exists>us. rd_parties s1 (party_key ty party) = us @ [uuid]) \<and>
     ch_state (rd_challenges s1 uuid) = Some INITIALIZING \<and> ch_status (rd_challenges s1 uuid) = Some IN_PROGRESS \<and>
     ch_stage (rd_challenges s1 uuid) = Some stage \<and> ch_timeout (rd_challenges s1 uuid) = Some NO_TIMEOUT"
  using assms
  by (auto simp: run_alone_def atomically_def start_txn_def Let_def get_last_challenge_def get_challenge_fields_def
      joining_run join_as_run create_run split: if_splits option.splits prod.splits)

text \<open>
  C3: When the request of one client creates a challenge, a request of any other client of the same party for the same or a
  later stage joins this challenge instead of creating another one: it waits until the creator is done, and afterwards it
  joins at once, at the stage the challenge is in.
\<close>

theorem party_gets_one_challenge:
  fixes s :: "('c, 'b) redis"
  assumes "run_alone now (start_txn pp now cn ty rtype stage party uuid) s d = (Some (Create_Challenge u sid), s1, d1)"
    and "stage' = UNKNOWN_STAGE \<or> pp_stage pp stage \<le> pp_stage pp stage'"
    and "pr_uuid p = uuid" "pr_stage p = stage" "pr_status p = IN_PROGRESS"
  shows "u = uuid \<and>
     fst (run_alone now' (start_txn pp now' cn' ty rtype' stage' party uuid') s1 d') = Some (Deferred_Join uuid) \<and>
     fst (run_alone now' (start_txn pp now' cn' ty rtype' stage' party uuid')
        (fst (snd (run_alone t (created_txn pp hk p cn ty rtype stage party) s1 d2))) d') =
       Some (Immediate_Join uuid \<lparr>sr_uuid = uuid, sr_mode = pr_mode p, sr_stage = stage, sr_attempt = pr_attempt p\<rparr>)"
proof (intro conjI)
  note c = start_creates [OF assms(1)]
  then show "u = uuid" by simp
  obtain us where us: "rd_parties s1 (party_key ty party) = us @ [uuid]" using c by blast
  show "fst (run_alone now' (start_txn pp now' cn' ty rtype' stage' party uuid') s1 d') = Some (Deferred_Join uuid)"
    using start_run_last [OF us refl, of INITIALIZING IN_PROGRESS stage stage' pp now' cn' rtype' uuid' d'] c assms(2)
    by (simp add: timeout_of_def)
  let ?s2 = "fst (snd (run_alone t (created_txn pp hk p cn ty rtype stage party) s1 d2))"
  have players: "rd_challenges (fold (apply_write t) (map f xs) r) = rd_challenges r \<and>
      rd_parties (fold (apply_write t) (map f xs) r) = rd_parties r"
    if "\<And>x. \<exists>n. f x = Set_Player n uuid" for f :: "string \<Rightarrow> 'c rwrite" and xs and r :: "('c, 'b) redis"
  proof (induction xs arbitrary: r)
    case (Cons x xs)
    obtain n where "f x = Set_Player n uuid" using \<open>\<And>x. \<exists>n. f x = Set_Player n uuid\<close> by blast
    with Cons show ?case by simp
  qed simp
  have two: "rd_challenges ?s2 uuid = set_fields (get_state hk p @ [F_State ACTIVE]) (rd_challenges s1 uuid) \<and>
      rd_parties ?s2 (party_key ty party) = us @ [uuid]"
    using us assms(3)
    by (simp add: run_alone_def atomically_def created_txn_def txn_reads players)
  let ?h = "set_fields (get_state hk p @ [F_State ACTIVE]) (rd_challenges s1 uuid)"
  have "ch_state ?h = Some ACTIVE" "ch_status ?h = Some IN_PROGRESS" "ch_stage ?h = Some stage" "ch_mode ?h = Some (pr_mode p)"
    "ch_attempt ?h = pr_attempt p" "ch_timeout ?h = Some NO_TIMEOUT"
    using assms(4,5) c by (simp_all add: get_state_def)
  with two show "fst (run_alone now' (start_txn pp now' cn' ty rtype' stage' party uuid') ?s2 d') =
       Some (Immediate_Join uuid \<lparr>sr_uuid = uuid, sr_mode = pr_mode p, sr_stage = stage, sr_attempt = pr_attempt p\<rparr>)"
    using start_run_last [of ?s2 ty party us uuid ?h ACTIVE IN_PROGRESS stage stage' pp now' cn' rtype' uuid' d'] assms(2)
    by (simp add: timeout_of_def)
qed

theorem party_gets_one_challenge_witness:
  "\<exists>sid s1 d1. run_alone 0 (start_txn sample_proc 0 \<lparr>cn_user = 1, cn_id = 2, cn_token = ''t'', cn_plugin = ''p'', cn_runelite = ''r''\<rparr>
       COLOSSEUM PARTICIPANT (COLOSSEUM_WAVE 1) [''Zed''] ''u'') (empty_redis :: (colosseum, unit) redis) empty_db =
       (Some (Create_Challenge ''u'' sid), s1, d1) \<and>
     fst (run_alone 1 (start_txn sample_proc 1 \<lparr>cn_user = 3, cn_id = 4, cn_token = ''t'', cn_plugin = ''p'', cn_runelite = ''r''\<rparr>
       COLOSSEUM SPECTATOR UNKNOWN_STAGE [''Zed''] ''v'') s1 d1) = Some (Deferred_Join ''u'')"
proof -
  let ?p = "new_processor (colosseum_hooks sample_kinds) ''u'' NO_MODE (COLOSSEUM_WAVE 1) [''Zed'']"
  have "\<exists>sid s1 d1. run_alone 0 (start_txn sample_proc 0 \<lparr>cn_user = 1, cn_id = 2, cn_token = ''t'', cn_plugin = ''p'', cn_runelite = ''r''\<rparr>
       COLOSSEUM PARTICIPANT (COLOSSEUM_WAVE 1) [''Zed''] ''u'') (empty_redis :: (colosseum, unit) redis) empty_db =
       (Some (Create_Challenge ''u'' sid), s1, d1)"
    by (simp add: run_alone_def atomically_def start_txn_def Let_def get_last_challenge_def create_run empty_redis_def)
  then obtain sid s1 d1 where run: "run_alone 0 (start_txn sample_proc 0 \<lparr>cn_user = 1, cn_id = 2, cn_token = ''t'',
       cn_plugin = ''p'', cn_runelite = ''r''\<rparr> COLOSSEUM PARTICIPANT (COLOSSEUM_WAVE 1) [''Zed''] ''u'')
       (empty_redis :: (colosseum, unit) redis) empty_db = (Some (Create_Challenge ''u'' sid), s1, d1)" by blast
  have "pr_uuid ?p = ''u''" "pr_stage ?p = COLOSSEUM_WAVE 1" "pr_status ?p = IN_PROGRESS"
    by (simp_all add: new_processor_def)
  with run party_gets_one_challenge [OF run disjI1 [OF refl], of ?p 1] show ?thesis by blast
qed

subsection \<open>Timeouts that are set are scheduled\<close>

text \<open>
  The hash of a challenge says which timeout runs, another hash when it expires. A quiet write keeps them in step, and sets
  no other stage status than the one a challenge is created with.
\<close>

definition timeouts_scheduled :: "('c, 'b) redis \<Rightarrow> bool" where
  "timeouts_scheduled s \<longleftrightarrow>
     (\<forall>u. timeout_of (rd_challenges s u) \<noteq> NO_TIMEOUT \<longrightarrow> map_of (rd_timeouts s) u \<noteq> None)"

text \<open>The stage status of every challenge, once it is written, is the one it was created with.\<close>

definition statuses_entered :: "('c, 'b) redis \<Rightarrow> bool" where
  "statuses_entered s \<longleftrightarrow>
     (\<forall>u. ch_stage_status (rd_challenges s u) = None \<or> ch_stage_status (rd_challenges s u) = Some ENTERED)"

definition store_ok :: "('c, 'b) redis \<Rightarrow> bool" where
  "store_ok s \<longleftrightarrow> timeouts_scheduled s \<and> statuses_entered s"

definition quiet_field :: "'c field \<Rightarrow> bool" where
  "quiet_field f \<longleftrightarrow> (case f of F_Timeout t \<Rightarrow> t = NO_TIMEOUT | F_Stage_Status v \<Rightarrow> v = ENTERED | _ \<Rightarrow> True)"

lemma quiet_field_simps [simp]:
  "quiet_field (F_Id a)" "quiet_field (F_Session a)" "quiet_field (F_Uuid b)" "quiet_field (F_Type ty)" "quiet_field (F_Mode m)"
  "quiet_field (F_Stage st)" "quiet_field (F_Attempt o1)" "quiet_field (F_Status cst)"
  "quiet_field (F_Party ps)" "quiet_field (F_Players pl)" "quiet_field (F_Deaths a)" "quiet_field (F_Ticks a)"
  "quiet_field (F_Reported_Challenge o1)" "quiet_field (F_Reported_Overall o1)" "quiet_field (F_Custom c)"
  "quiet_field (F_Party_Changed bo)" "quiet_field (F_State life)" "quiet_field (F_Processing o1)"
  "quiet_field (F_Timeout t) \<longleftrightarrow> t = NO_TIMEOUT" "quiet_field (F_Stage_Status v) \<longleftrightarrow> v = ENTERED"
  by (simp_all add: quiet_field_def)

fun quiet_write :: "'c rwrite \<Rightarrow> bool" where
  "quiet_write (Set_Fields u fs) = list_all quiet_field fs"
| "quiet_write (Del_Timeout u) = False"
| "quiet_write w = True"

lemma set_fields_timeout:
  "list_all quiet_field fs \<Longrightarrow> timeout_of (set_fields fs h) = timeout_of h \<or> timeout_of (set_fields fs h) = NO_TIMEOUT"
proof (induction fs arbitrary: h)
  case (Cons f fs)
  have "timeout_of (set_field f h) = timeout_of h \<or> timeout_of (set_field f h) = NO_TIMEOUT"
    using Cons.prems by (cases f) (auto simp: timeout_of_def)
  with Cons.IH [of "set_field f h"] Cons.prems show ?case by auto
qed simp

lemma set_fields_entered:
  "list_all quiet_field fs \<Longrightarrow>
     ch_stage_status (set_fields fs h) = ch_stage_status h \<or> ch_stage_status (set_fields fs h) = Some ENTERED"
proof (induction fs arbitrary: h)
  case (Cons f fs)
  have "ch_stage_status (set_field f h) = ch_stage_status h \<or> ch_stage_status (set_field f h) = Some ENTERED"
    using Cons.prems by (cases f) auto
  with Cons.IH [of "set_field f h"] Cons.prems show ?case by auto
qed simp

lemma quiet_write_ok:
  assumes "quiet_write w" and "store_ok s"
  shows "store_ok (apply_write now w s)"
proof -
  have "timeouts_scheduled (apply_write now w s)"
  proof (cases w)
    case (Set_Fields u fs)
    with assms set_fields_timeout [of fs "rd_challenges s u"] show ?thesis by (auto simp: store_ok_def timeouts_scheduled_def)
  qed (use assms in \<open>auto simp: store_ok_def timeouts_scheduled_def timeout_of_def empty_hash_def delete_conv' update_conv'
      split: if_splits option.splits\<close>)
  moreover have "statuses_entered (apply_write now w s)"
  proof (cases w)
    case (Set_Fields u fs)
    with assms set_fields_entered [of fs "rd_challenges s u"] show ?thesis
      by (simp add: store_ok_def statuses_entered_def) (metis option.distinct(1))
  qed (use assms in \<open>auto simp: store_ok_def statuses_entered_def empty_hash_def split: if_splits option.splits\<close>)
  ultimately show ?thesis by (simp add: store_ok_def)
qed

lemma quiet_writes_ok:
  "list_all quiet_write ws \<Longrightarrow> store_ok s \<Longrightarrow> store_ok (apply_writes now ws s)"
  by (induction ws arbitrary: s) (simp_all add: quiet_write_ok)

text \<open>What a transaction may queue.\<close>

primrec queues_only :: "('w \<Rightarrow> bool) \<Rightarrow> ('k, 'v, 'w, 'd, 'a) txn \<Rightarrow> bool" where
  "queues_only P (Return a) = True"
| "queues_only P Throw = True"
| "queues_only P (Read k f) = (\<forall>v. queues_only P (f v))"
| "queues_only P (Queue w p) = (P w \<and> queues_only P p)"
| "queues_only P (Effect e p) = queues_only P p"

lemma queues_only_run: "queues_only P p \<Longrightarrow> list_all P (fst (snd (run_txn rd p s d)))"
proof (induction p arbitrary: d)
  case (Read k f)
  then show ?case using Read.IH [OF rangeI] by simp
next
  case (Queue w p)
  then show ?case by (simp split: prod.splits option.splits) (metis fst_conv snd_conv)
qed simp_all

lemma queues_only_all [simp]: "queues_only P (queue_all ws p) \<longleftrightarrow> list_all P ws \<and> queues_only P p"
  by (induction ws) auto

lemma quiet_txn_ok:
  "queues_only quiet_write p \<Longrightarrow> store_ok s \<Longrightarrow> store_ok (fst (snd (run_alone now p s d)))"
  using queues_only_run [of quiet_write p read_value s d] quiet_writes_ok
  by (auto simp: run_alone_def atomically_def apply_writes_def split: prod.splits)

lemma quiet_join_as [simp]: "queues_only quiet_write (join_as u cn rtype stage att p) \<longleftrightarrow> queues_only quiet_write p"
  by (simp add: join_as_def get_challenge_client_def)

lemma quiet_joining [simp]: "queues_only quiet_write (joining u dec)"
  by (simp add: joining_def get_challenge_fields_def)

lemma quiet_start: "queues_only quiet_write (start_txn pp now cn ty rtype stage party uuid)"
  by (auto simp: start_txn_def create_txn_def Let_def get_last_challenge_def get_challenge_fields_def get_session_id_def
      split: option.splits)

lemma created_entered:
  "fst (create_new pp hk start session (new_processor hk uuid mode stage party) d) = Some p \<Longrightarrow> pr_stage_status p = ENTERED"
  by (auto simp: create_new_def create_challenge_with_session_def new_processor_def Let_def split: if_splits option.splits prod.splits)

lemma quiet_created:
  "pr_stage_status p = ENTERED \<Longrightarrow> queues_only quiet_write (created_txn pp hk p cn ty rtype stage party)"
  by (simp add: created_txn_def get_challenge_client_def get_state_def list_all_iff)

lemma quiet_deferred: "queues_only quiet_write (deferred_txn u cn rtype)"
  by (auto simp: deferred_txn_def get_challenge_fields_def Let_def split: option.splits)

lemma quiet_finish: "queues_only quiet_write (finish_txn pp now u cid reported soft)"
  by (auto simp: finish_txn_def get_active_challenge_def get_challenge_def get_challenge_clients_def reported_fields_def
      split: option.splits prod.splits)

lemma quiet_add_client: "queues_only quiet_write (add_client_txn u cn rtype)"
  by (auto simp: add_client_txn_def get_challenge_def get_challenge_clients_def split: option.splits)

lemma quiet_remove_client: "queues_only quiet_write (remove_client_txn now cid u token)"
  by (simp add: remove_client_txn_def get_challenge_client_def get_challenge_fields_def get_challenge_clients_def)

lemma quiet_active: "queues_only quiet_write (set_client_active_txn cid u token)"
  by (auto simp: set_client_active_txn_def get_active_challenge_def get_challenge_def get_challenge_client_def
      split: option.splits)

lemma quiet_inactive: "queues_only quiet_write (set_client_inactive_txn now cid u token)"
  by (auto simp: set_client_inactive_txn_def get_active_challenge_def get_challenge_def get_challenge_clients_def
      split: option.splits)

lemma quiet_claim: "queues_only quiet_write (claim_txn now u k)"
  by (simp add: claim_txn_def has_processed_stage_def)

lemma quiet_cleanup: "queues_only quiet_write (cleanup_txn now u timeout)"
  by (auto simp: cleanup_txn_def get_challenge_fields_def get_challenge_clients_def pause_cleanup_def split: option.splits)

lemma quiet_check_active: "queues_only quiet_write (check_active_txn now u)"
  by (simp add: check_active_txn_def get_challenge_fields_def get_challenge_clients_def get_challenge_timeout_def)

text \<open>The updates a processor collects set no timeout, whatever the kind of challenge does.\<close>

definition quiet_pending :: "'c processor \<Rightarrow> bool" where
  "quiet_pending p \<longleftrightarrow> list_all quiet_field (pending p)"

lemma quiet_view: "sync_view p = sync_view q \<Longrightarrow> quiet_pending p \<longleftrightarrow> quiet_pending q"
  by (simp add: sync_view_def quiet_pending_def pending_def)

lemma quiet_prepare: "quiet_field f \<Longrightarrow> quiet_pending (prepare_update f p) \<longleftrightarrow> quiet_pending p"
  by (auto simp: quiet_pending_def pending_def prepare_update_def)

lemma quiet_record [simp]:
  "quiet_pending (p\<lparr>pr_mode := m\<rparr>) = quiet_pending p" "quiet_pending (p\<lparr>pr_party_changed := b\<rparr>) = quiet_pending p"
  "quiet_pending (p\<lparr>pr_stage := st\<rparr>) = quiet_pending p" "quiet_pending (p\<lparr>pr_attempt := a\<rparr>) = quiet_pending p"
  "quiet_pending (p\<lparr>pr_ticks := n\<rparr>) = quiet_pending p" "quiet_pending (p\<lparr>pr_deaths := n\<rparr>) = quiet_pending p"
  "quiet_pending (p\<lparr>pr_room := r\<rparr>) = quiet_pending p" "quiet_pending (p\<lparr>pr_status := cst\<rparr>) = quiet_pending p"
  "quiet_pending (p\<lparr>pr_players := pl\<rparr>) = quiet_pending p"
  by (simp_all add: quiet_pending_def pending_def)

lemma quiet_methods [simp]:
  "quiet_pending (set_mode m p) = quiet_pending p" "quiet_pending (update_party ps p) = quiet_pending p"
  "quiet_pending (start_stage hk st p) = quiet_pending p" "quiet_pending (set_total_ticks n p) = quiet_pending p"
  "quiet_pending (add_player_death name p) = quiet_pending p" "quiet_pending (set_npcs f p) = quiet_pending p"
  "quiet_pending (load_processor hk s)"
  by (simp_all add: set_mode_def update_party_def start_stage_def set_total_ticks_def add_player_death_def set_npcs_def
      Let_def quiet_prepare) (simp add: quiet_pending_def pending_def load_processor_def)

lemma quiet_gear: "try_determine_gear pp pl p d = (p', d') \<Longrightarrow> quiet_pending p' = quiet_pending p"
  by (auto simp: try_determine_gear_def split: option.splits if_splits)

lemma quiet_base: "process_base pp e p d = Some (p', d') \<Longrightarrow> quiet_pending p' = quiet_pending p"
  using quiet_gear [of pp _ p d p' d']
  by (cases "ev_type e") (auto simp: process_base_def handle_npc_spawn_def handle_npc_death_def split: option.splits)

locale quiet_kind = challenge_kind hk for hk :: "'c hooks" +
  assumes event_quiet: "hk_event hk es i p d = (r, es', p', d') \<Longrightarrow> quiet_pending p \<Longrightarrow> quiet_pending p'"
    and stage_quiet: "hk_stage hk st me p d = (p', d') \<Longrightarrow> quiet_pending p \<Longrightarrow> quiet_pending p'"
begin

lemma quiet_event:
  assumes "process_event pp hk es i p d = (ok, es', p', d')" and "quiet_pending p"
  shows "quiet_pending p'"
proof (cases "process_base pp (es ! i) p d")
  case (Some q)
  obtain p1 d1 where q: "q = (p1, d1)" by (cases q)
  obtain r es2 p2 d2 where h: "hk_event hk es i p1 d1 = (r, es2, p2, d2)" by (cases "hk_event hk es i p1 d1") auto
  have "quiet_pending p2" using event_quiet [OF h] quiet_base [of pp "es ! i" p d p1 d1] Some q assms(2) by simp
  then show ?thesis
    using assms(1) Some q h by (auto simp: process_event_def split: option.splits if_splits)
qed (use assms in \<open>simp add: process_event_def\<close>)

lemma quiet_events:
  "process_events pp hk is es p d = (ok, es', p', d') \<Longrightarrow> quiet_pending p \<Longrightarrow> quiet_pending p'"
proof (induction "is" arbitrary: es p d)
  case (Cons i "is")
  show ?case
  proof (cases "case ev_player (es ! i) of None \<Rightarrow> False | Some pl \<Rightarrow> pm_name pl \<notin> set (pr_party p)")
    case False
    obtain ok1 es1 p1 d1 where one: "process_event pp hk es i p d = (ok1, es1, p1, d1)"
      by (cases "process_event pp hk es i p d") auto
    then have "quiet_pending p1" using quiet_event Cons.prems(2) by blast
    with Cons one False show ?thesis by (cases ok1) auto
  qed (use Cons in simp)
qed simp

lemma quiet_stage_updates:
  assumes run: "process_stage pp hk now today stage me p d = (Some fs, p', d')" and "quiet_pending p"
  shows "list_all quiet_field fs"
proof -
  obtain p0 where p0: "load_ids p d = Some p0" using run by (auto simp: process_stage_def split: option.splits)
  obtain ok es p1 d1 where ev: "process_events pp hk [0..<length (me_events me)] (me_events me) (clear_stage p0) d = (ok, es, p1, d1)"
    by (cases "process_events pp hk [0..<length (me_events me)] (me_events me) (clear_stage p0) d") auto
  have "ok" using run p0 ev by (cases ok) (auto simp: process_stage_def)
  let ?p3 = "(set_total_ticks (pr_ticks p1 + me_last_tick me) p1)\<lparr>pr_status := stage_outcome pp
      (pr_last (set_total_ticks (pr_ticks p1 + me_last_tick me) p1)) stage (me_status me)\<rparr>"
  let ?me = "if pr_party_changed ?p3 then restrict_accuracy_to 0 (me\<lparr>me_events := es\<rparr>) else me\<lparr>me_events := es\<rparr>"
  obtain p4 d4 where st: "hk_stage hk stage ?me ?p3 d1 = (p4, d4)" by (cases "hk_stage hk stage ?me ?p3 d1")
  have "quiet_pending (clear_stage p0)"
    using quiet_view [of "clear_stage p0" p] load_ids_frame [OF p0] clear_stage_frame [of p0] assms(2) by simp
  then have "quiet_pending ?p3" using quiet_events [OF ev] by simp
  then have "quiet_pending p4" by (rule stage_quiet [OF st])
  then have "list_all quiet_field (fst (finalize_updates p4 d))" for d
    by (auto simp: finalize_updates_def quiet_pending_def pending_def Let_def)
  then show ?thesis
    using run p0 ev \<open>ok\<close> st
    by (auto simp: process_stage_def Let_def stage_updates_def split: option.splits prod.splits) (metis fst_conv)+
qed

end

interpretation quiet_colosseum: quiet_kind "colosseum_hooks kn" for kn
  by unfold_locales
    (auto simp: colosseum_hooks_def colosseum_event_def colosseum_stage_def Let_def quiet_pending_def pending_def
      map_custom_def set_stage_split_def set_challenge_split_def split: if_splits)

interpretation quiet_inferno: quiet_kind "inferno_hooks kn" for kn
proof
  have map: "quiet_pending (map_custom f p) = quiet_pending p" "quiet_pending (set_stage_split ty t a b p) = quiet_pending p"
    "quiet_pending (set_challenge_split ty t acc p) = quiet_pending p" for f ty t a b acc and p :: "inferno processor"
    by (simp_all add: map_custom_def set_stage_split_def set_challenge_split_def quiet_pending_def pending_def)
  fix es i p d r es' p' d' st me
  show "hk_event (inferno_hooks kn) es i p d = (r, es', p', d') \<Longrightarrow> quiet_pending p \<Longrightarrow> quiet_pending p'"
    by (auto simp: inferno_hooks_def inferno_event_def Let_def map split: event_type.splits option.splits)
  show "hk_stage (inferno_hooks kn) st me p d = (p', d') \<Longrightarrow> quiet_pending p \<Longrightarrow> quiet_pending p'"
    by (auto simp: inferno_hooks_def inferno_stage_def inferno_total_def Let_def map split: option.splits)
qed

interpretation quiet_mokhaiotl: quiet_kind "mokhaiotl_hooks kn" for kn
proof
  have map: "quiet_pending (map_custom f p) = quiet_pending p" for f and p :: "mokhaiotl processor"
    by (simp add: map_custom_def quiet_pending_def pending_def)
  fix es i p d r es' p' d' st me
  show "hk_event (mokhaiotl_hooks kn) es i p d = (r, es', p', d') \<Longrightarrow> quiet_pending p \<Longrightarrow> quiet_pending p'"
    by (auto simp: mokhaiotl_hooks_def mokhaiotl_event_def Let_def map split: event_type.splits option.splits if_splits)
  show "hk_stage (mokhaiotl_hooks kn) st me p d = (p', d') \<Longrightarrow> quiet_pending p \<Longrightarrow> quiet_pending p'"
    using mokhaiotl_stage_frame [of kn st me p d p' d'] quiet_view [of p' p] by (simp add: mokhaiotl_hooks_def)
qed

lemma quiet_finalize: "quiet_pending p \<Longrightarrow> queues_only quiet_write (finalize_txn u c fin p)"
  by (auto simp: finalize_txn_def quiet_pending_def)

lemma quiet_stage_update:
  assumes "stage_update num hk now u c clients us stage status p = (p', ws, fin)" and "quiet_pending p"
  shows "quiet_pending p' \<and> list_all quiet_write ws"
  using assms
  by (auto simp: stage_update_def stage_finished_writes_def started_stage_def Let_def split: if_splits)

lemma quiet_update: "queues_only quiet_write (update_txn g now u cid upd)"
proof -
  have stage: "queues_only quiet_write
      (case stage_update (mg_stage g) hk now u c clients us stage status p of
         (p3, ws, fin) \<Rightarrow> queue_all ws (finalize_txn u c fin p3))"
    if "quiet_pending p" for hk c clients us stage status p
    using quiet_stage_update [of "mg_stage g" hk now u c clients us stage status p] that
    by (auto simp: Let_def quiet_finalize split: prod.splits)
  show ?thesis
    by (auto simp: update_txn_def get_challenge_def get_challenge_clients_def Let_def quiet_finalize stage split: option.splits
        simp del: queues_only.simps(5))
qed

text \<open>
  The actions of the handlers on the store, in any order and with any arguments: the transactions, which run as if alone,
  and the writes between them. The database they see is arbitrary.
\<close>

inductive lifecycle_step :: "('c, 'b) manager_params \<Rightarrow> ('c, 'b) redis \<Rightarrow> ('c, 'b) redis \<Rightarrow> bool" for g where
  step_start: "lifecycle_step g s (fst (snd (run_alone now (start_txn (mg_proc g) now cn ty rtype stage party uuid) s d)))"
| step_created: "fst (create_new (mg_proc g) hk start session (new_processor hk uuid mode stage party) d0) = Some p \<Longrightarrow>
    lifecycle_step g s (fst (snd (run_alone now (created_txn (mg_proc g) hk p cn ty rtype stage party) s d)))"
| step_deferred: "lifecycle_step g s (fst (snd (run_alone now (deferred_txn u cn rtype) s d)))"
| step_finish: "lifecycle_step g s (fst (snd (run_alone now (finish_txn (mg_proc g) now u cid reported soft) s d)))"
| step_update: "lifecycle_step g s (fst (snd (run_alone now (update_txn g now u cid upd) s d)))"
| step_update_end: "lifecycle_step g s (apply_writes now [Set_Fields u [F_Processing (Some now)]] s)"
| step_add: "lifecycle_step g s (fst (snd (run_alone now (add_client_txn u cn rtype) s d)))"
| step_remove: "lifecycle_step g s (fst (snd (run_alone now (remove_client_txn now cid u token) s d)))"
| step_active: "lifecycle_step g s (fst (snd (run_alone now (set_client_active_txn cid u token) s d)))"
| step_inactive: "lifecycle_step g s (fst (snd (run_alone now (set_client_inactive_txn now cid u token) s d)))"
| step_clear: "lifecycle_step g s (apply_writes now [Clear_Timeout u] s)"
| step_claim: "lifecycle_step g s (fst (snd (run_alone now (claim_txn now u k) s d)))"
| step_no_events: "lifecycle_step g s (apply_writes now [Delete_Stream u k, Set_Fields u [F_Processing None]] s)"
| step_no_result: "lifecycle_step g s (apply_writes now (stage_writes u k []) s)"
| step_stage: "mg_hooks g (cs_type c) = Some hk \<Longrightarrow>
    fst (process_stage (mg_proc g) hk now today (fst k) me (load_processor hk c) d) = Some fs \<Longrightarrow>
    lifecycle_step g s (apply_writes now (stage_writes u k fs) s)"
| step_cleanup: "lifecycle_step g s (fst (snd (run_alone now (cleanup_txn now u timeout) s d)))"
| step_notice: "lifecycle_step g s (apply_writes now [Publish (Notice_Finish u)] s)"
| step_feed: "lifecycle_step g s (apply_writes now [Add_Feed u] s)"
| step_delete: "lifecycle_step g s (delete_challenge_data now u ty party s)"
| step_check_active: "lifecycle_step g s (fst (snd (run_alone now (check_active_txn now u) s d)))"
| step_drop_stream: "lifecycle_step g s (apply_writes now [Delete_Stream u k] s)"

text \<open>The game server's side appends to the streams of a stage; nothing else it does concerns the lifecycle.\<close>

inductive lifecycle_reachable :: "('c, 'b) manager_params \<Rightarrow> ('c, 'b) redis \<Rightarrow> bool" for g where
  reachable_start: "lifecycle_reachable g empty_redis"
| reachable_step: "lifecycle_reachable g s \<Longrightarrow> lifecycle_step g s s' \<Longrightarrow> lifecycle_reachable g s'"
| reachable_stream: "lifecycle_reachable g s \<Longrightarrow>
    lifecycle_reachable g (s\<lparr>rd_streams := (rd_streams s)((u, k) := rd_streams s (u, k) @ records),
      rd_stream_sets := (rd_stream_sets s)(u := List.insert k (rd_stream_sets s u))\<rparr>)"

lemma delete_run:
  "\<exists>vs. fst (snd (run_txn read_value (delete_txn u ty party) s d)) =
     [Del_Challenge u, Del_Clients u, Del_Processed u, Del_Timeout u] @ vs \<and>
     list_all (\<lambda>w. quiet_write w \<and> (\<forall>fs. w \<noteq> Set_Fields u fs)) vs \<and>
     set (map (Delete_Stream u) (rd_stream_sets s u) @ [Del_Stream_Set u] @
       (case (ty, party) of (Some t, Some p) \<Rightarrow> [Remove_Party (party_key t p) u] | _ \<Rightarrow> [])) \<subseteq> set vs"
  by (cases party) (auto simp: delete_txn_def list_all_iff split: option.splits)

lemma deleted_ok:
  assumes "store_ok s"
  shows "store_ok (delete_challenge_data now u ty party s)"
proof -
  obtain ty' party' where d: "delete_challenge_data now u ty party s =
      apply_writes now (fst (snd (run_txn read_value (delete_txn u ty' party') s empty_db))) s"
    by (simp add: delete_challenge_data_def Let_def)
  let ?s1 = "apply_writes now [Del_Challenge u, Del_Clients u, Del_Processed u, Del_Timeout u] s"
  have "store_ok ?s1"
    using assms by (auto simp: store_ok_def timeouts_scheduled_def statuses_entered_def timeout_of_def empty_hash_def delete_conv')
  moreover obtain vs where "fst (snd (run_txn read_value (delete_txn u ty' party') s empty_db)) =
      [Del_Challenge u, Del_Clients u, Del_Processed u, Del_Timeout u] @ vs" "list_all quiet_write vs"
    using delete_run [of u ty' party' s empty_db] by (auto simp: list_all_iff)
  ultimately show ?thesis using quiet_writes_ok [of vs ?s1 now] by (simp add: d)
qed

lemmas quiet_txns = quiet_start quiet_created quiet_deferred quiet_finish quiet_update quiet_add_client quiet_remove_client
  quiet_active quiet_inactive quiet_claim quiet_cleanup quiet_check_active

lemma step_ok:
  assumes "lifecycle_step g s s'" and "store_ok s" and kinds: "\<And>ty hk. mg_hooks g ty = Some hk \<Longrightarrow> quiet_kind hk"
  shows "store_ok s'"
  using assms(1,2)
proof cases
  case (step_stage c hk now today k me d fs u)
  from step_stage(3) obtain p' d' where
    "process_stage (mg_proc g) hk now today (fst k) me (load_processor hk c) d = (Some fs, p', d')"
    by (metis prod.collapse)
  then have "list_all quiet_field fs" using quiet_kind.quiet_stage_updates [OF kinds [OF step_stage(2)]] by fastforce
  then have "list_all quiet_write (stage_writes u k fs)" by (simp add: stage_writes_def)
  then show ?thesis unfolding step_stage(1) using assms(2) by (rule quiet_writes_ok)
next
  case (step_created hk start session uuid mode stage party d0 p now cn ty rtype d)
  show ?thesis unfolding step_created(1) using quiet_txn_ok [OF quiet_created [OF created_entered [OF step_created(2)]] assms(2)] .
qed (auto intro: quiet_txn_ok quiet_txns quiet_writes_ok deleted_ok simp: stage_writes_def
    simp del: apply_writes_simps apply_write.simps)

lemma reachable_ok:
  fixes g :: "('c, 'b) manager_params"
  assumes "lifecycle_reachable g s" and "\<And>ty hk. mg_hooks g ty = Some hk \<Longrightarrow> quiet_kind hk"
  shows "store_ok s"
  using assms(1)
proof induction
  case reachable_start
  show ?case
    by (simp add: store_ok_def timeouts_scheduled_def statuses_entered_def empty_redis_def timeout_of_def empty_hash_def)
next
  case (reachable_step s s')
  then show ?case using step_ok assms(2) by blast
next
  case (reachable_stream s u k records)
  then show ?case by (simp add: store_ok_def timeouts_scheduled_def statuses_entered_def)
qed

text \<open>
  C2: Whatever the requests, status events, timers and background tasks do to the store, in any interleaving of their atomic
  actions: a challenge whose state names a running timeout has an entry among the scheduled timeouts, so no timeout that
  was started is lost.
\<close>

theorem started_timeouts_scheduled:
  fixes g :: "('c, 'b) manager_params"
  assumes "lifecycle_reachable g s" and "\<And>ty hk. mg_hooks g ty = Some hk \<Longrightarrow> quiet_kind hk"
  shows "timeouts_scheduled s"
  using reachable_ok [OF assms] by (simp add: store_ok_def)

definition sample_manager :: "(colosseum, unit) manager_params" where
  "sample_manager =
     \<lparr>mg_proc = sample_proc, mg_hooks = (\<lambda>ty. if ty = COLOSSEUM then Some (colosseum_hooks sample_kinds) else None),
      mg_merge = (\<lambda>c stage att records. Some None)\<rparr>"

theorem started_timeouts_scheduled_witness:
  "timeouts_scheduled (fst (snd (run_alone 7 (check_active_txn 7 ''u'') (empty_redis :: (colosseum, unit) redis) empty_db)))"
proof (rule started_timeouts_scheduled [of sample_manager])
  show "lifecycle_reachable sample_manager (fst (snd (run_alone 7 (check_active_txn 7 ''u'') empty_redis empty_db)))"
    by (rule reachable_step [OF reachable_start step_check_active])
  show "mg_hooks sample_manager ty = Some hk \<Longrightarrow> quiet_kind hk" for ty hk
    using quiet_colosseum.quiet_kind_axioms by (auto simp: sample_manager_def split: if_splits)
qed












end
