(* ===== verification/Challenge_Timeouts.thy ===== *)
theory Challenge_Timeouts
  imports Challenge_Lifecycle
begin

text \<open>
  The handlers of the challenge manager one by one: when a stage is complete, how long a cleanup is put off, what a
  deletion leaves; and three situations in which the code does not do what it means to.
\<close>

subsection \<open>Finishing a stage\<close>

lemma response_of_update [simp]: "sr_uuid (update_response u c fs) = u"
  by (simp add: update_response_def Let_def)

lemma timeout_of_set [simp]: "timeout_of (h\<lparr>ch_timeout := Some t\<rparr>) = t"
  by (simp add: timeout_of_def)

lemma find_by_id: "List.find (\<lambda>k. cc_id k = cid) ks = Some us \<Longrightarrow> cc_id us = cid \<and> us \<in> set ks"
  by (auto simp: find_Some_iff in_set_conv_nth)

definition finished_entry :: "stage \<Rightarrow> stage_status \<Rightarrow> challenge_client \<Rightarrow> challenge_client" where
  "finished_entry stage status k =
     k\<lparr>cc_stage := stage, cc_stage_status := status, cc_active := True, cc_last_stage := stage, cc_last_attempt := cc_attempt k\<rparr>"

lemma quiet_timeout_kept:
  "list_all (\<lambda>f. \<forall>t. f \<noteq> F_Timeout t) fs \<Longrightarrow> timeout_of (set_fields fs h) = timeout_of h"
proof (induction fs arbitrary: h)
  case (Cons f fs)
  have "timeout_of (set_field f h) = timeout_of h" using Cons.prems by (cases f) (auto simp: timeout_of_def)
  with Cons show ?case by simp
qed simp

lemma loaded_pending:
  "list_all (\<lambda>f. \<forall>t. f \<noteq> F_Timeout t) (pending (set_mode m (load_processor hk c)))"
  "list_all (\<lambda>f. \<forall>t. f \<noteq> F_Timeout t) (pending (update_party ps (set_mode m (load_processor hk c))))"
  by (auto simp: pending_def set_mode_def update_party_def prepare_update_def load_processor_def Let_def)

text \<open>
  C6: When a client reports that it has finished a stage, the stage is handed over for processing exactly if by then every
  connected client has finished it or is past it; until then, a timer for the end of the stage runs, and once the stage is
  handed over none does, unless the challenge is about to end anyway.
\<close>

theorem stage_complete_when_all_finished:
  fixes s :: "('c, 'b) redis" and g :: "('c, 'b) manager_params"
  assumes c: "challenge_from_hash (rd_challenges s u) = Some (Some c)" and hk: "mg_hooks g (cs_type c) = Some hk"
    and upd: "cu_stage upd = Some (stage, status)" "is_finished status" "cu_mode upd \<noteq> TOB_ENTRY"
    and stage: "mg_stage g (cs_stage c) \<le> mg_stage g stage"
    and us: "List.find (\<lambda>k. cc_id k = cid) (map snd (rd_clients s u)) = Some us"
    and all: "all = list_all (has_finished_stage (mg_stage g) c)
      (map (\<lambda>k. if cc_id k = cid then finished_entry stage status us else k) (map snd (rd_clients s u)))"
  shows "\<exists>r s' d'. run_alone now (update_txn g now u cid upd) s d = (Some r, s', d') \<and>
     ur_finish r = (if all then Some (stage, cc_attempt us) else None) \<and>
     timeout_of (rd_challenges s' u) =
       (if \<not> all then STAGE_END_TIMEOUT else if cs_timeout c = CHALLENGE_END_TIMEOUT then CHALLENGE_END_TIMEOUT else NO_TIMEOUT)"
proof -
  let ?q = "case cu_party upd of None \<Rightarrow> set_mode (cu_mode upd) (load_processor hk c)
      | Some ps \<Rightarrow> if ps = [] then set_mode (cu_mode upd) (load_processor hk c)
          else update_party ps (set_mode (cu_mode upd) (load_processor hk c))"
  have quiet: "list_all (\<lambda>f. \<forall>t. f \<noteq> F_Timeout t) (pending ?q)"
    using loaded_pending by (auto split: option.splits)
  have c_timeout: "timeout_of (rd_challenges s u) = cs_timeout c"
    using c by (auto simp: challenge_from_hash_def timeout_of_def split: if_splits option.splits prod.splits)
  note id = find_by_id [OF us]
  have su: "stage_update (mg_stage g) hk now u c (map snd (rd_clients s u)) us stage status p =
      (p, stage_finished_writes (mg_stage g) now u c
          (map (\<lambda>k. if cc_id k = cid then finished_entry stage status us else k) (map snd (rd_clients s u))) @
        [Set_Client u cid (finished_entry stage status us)],
       if all then Some (stage, cc_attempt us) else None)" for p
    using upd(2) id by (simp add: stage_update_def Let_def all finished_entry_def cong: if_cong)
  let ?w1 = "if cs_timeout c = CLEANUP_TIMEOUT then [Clear_Timeout u] else []"
  let ?w2 = "stage_finished_writes (mg_stage g) now u c
      (map (\<lambda>k. if cc_id k = cid then finished_entry stage status us else k) (map snd (rd_clients s u)))"
  have w2: "?w2 = (if all then (if cs_timeout c \<noteq> CHALLENGE_END_TIMEOUT then [Clear_Timeout u] else [])
      else if cs_timeout c \<noteq> STAGE_END_TIMEOUT
      then [Set_Timeout u STAGE_END_TIMEOUT \<lparr>to_timestamp = now + stage_end_timeout, to_retries = 0, to_interval = 0\<rparr>]
      else [])" by (simp only: stage_finished_writes_def all)
  let ?ws = "?w1 @ [Refresh_Session (session_key (mg_proc g) (cs_type c) (cs_party c))] @ ?w2 @
      [Set_Client u cid (finished_entry stage status us)] @ (if pending ?q = [] then [] else [Set_Fields u (pending ?q)])"
  have run: "run_txn read_value (update_txn g now u cid upd) s d =
      (Some \<lparr>ur_response = Some (update_response u c (pending ?q)), ur_cleanup = False,
         ur_finish = if all then Some (stage, cc_attempt us) else None\<rparr>, ?ws, snd (snd (finalize_updates ?q d)))"
    using c hk upd stage us
    by (simp add: update_txn_def txn_reads su finalize_txn_def Let_def split del: if_split cong: option.case_cong)
  have "timeout_of (rd_challenges (apply_writes now ?ws s) u) =
      (if \<not> all then STAGE_END_TIMEOUT else if cs_timeout c = CHALLENGE_END_TIMEOUT then CHALLENGE_END_TIMEOUT else NO_TIMEOUT)"
    using c_timeout quiet_timeout_kept [OF quiet] unfolding w2 by auto
  with run show ?thesis by (auto simp: run_alone_def atomically_def apply_writes_def)
qed

text \<open>A store with the running Colosseum challenge and two clients, of which the first is about to finish the wave.\<close>

definition sample_client :: "int \<Rightarrow> challenge_client" where
  "sample_client i =
     \<lparr>cc_user = 10 + i, cc_id = i, cc_token = ''t'', cc_plugin = ''p'', cc_runelite = ''r'', cc_type = PARTICIPANT,
      cc_active = True, cc_stage = COLOSSEUM_WAVE 1, cc_attempt = None, cc_stage_status = STARTED,
      cc_last_stage = UNKNOWN_STAGE, cc_last_attempt = None\<rparr>"

definition sample_redis :: "(colosseum, unit) redis" where
  "sample_redis =
     empty_redis\<lparr>rd_challenges := (\<lambda>_. empty_hash)(''u'' := set_fields (state_fields sample_challenge_state) empty_hash),
       rd_clients := (\<lambda>_. [])(''u'' := [(1, sample_client 1), (2, sample_client 2)]),
       rd_client_challenge := (\<lambda>_. None)(1 := Some ''u'', 2 := Some ''u'')\<rparr>"

lemma sample_redis_challenge: "challenge_from_hash (rd_challenges sample_redis ''u'') = Some (Some sample_challenge_state)"
  by (simp add: sample_redis_def challenge_from_state_fields)

lemma sample_redis_clients: "rd_clients sample_redis ''u'' = [(1, sample_client 1), (2, sample_client 2)]"
  by (simp add: sample_redis_def)

theorem stage_complete_when_all_finished_witness:
  "\<exists>r s' d'. run_alone 9 (update_txn sample_manager 9 ''u'' 1
       \<lparr>cu_mode = NO_MODE, cu_stage = Some (COLOSSEUM_WAVE 1, COMPLETED), cu_party = None\<rparr>) sample_redis empty_db = (Some r, s', d') \<and>
     ur_finish r = None \<and> timeout_of (rd_challenges s' ''u'') = STAGE_END_TIMEOUT"
proof -
  have hk: "mg_hooks sample_manager (cs_type sample_challenge_state) = Some (colosseum_hooks sample_kinds)"
    by (simp add: sample_manager_def sample_challenge_state_def)
  have other: "\<not> has_finished_stage (mg_stage sample_manager) sample_challenge_state (sample_client 2)"
    by (simp add: has_finished_stage_def sample_client_def sample_challenge_state_def is_finished_def)
  show ?thesis
    using stage_complete_when_all_finished [OF sample_redis_challenge hk, of
        "\<lparr>cu_mode = NO_MODE, cu_stage = Some (COLOSSEUM_WAVE 1, COMPLETED), cu_party = None\<rparr>"
        "COLOSSEUM_WAVE 1" COMPLETED 1 "sample_client 1" False 9 empty_db] other
    by (simp add: sample_redis_clients is_finished_def sample_challenge_state_def sample_client_def)
qed

subsection \<open>Cleanups are not put off forever\<close>

definition leaves_challenge :: "string \<Rightarrow> 'c rwrite \<Rightarrow> bool" where
  "leaves_challenge u w \<longleftrightarrow> K_Challenge u \<notin> touched_keys w \<and> w \<noteq> Del_Timeout u"

lemma leaves_challenge_kept:
  "list_all (leaves_challenge u) ws \<Longrightarrow>
     rd_challenges (apply_writes now ws s) u = rd_challenges s u \<and>
     map_of (rd_timeouts (apply_writes now ws s)) u = map_of (rd_timeouts s) u"
proof (induction ws arbitrary: s)
  case (Cons w ws)
  have "rd_challenges (apply_write now w s) u = rd_challenges s u \<and>
      map_of (rd_timeouts (apply_write now w s)) u = map_of (rd_timeouts s) u"
    using Cons.prems by (cases w) (auto simp: leaves_challenge_def update_conv' delete_conv')
  with Cons show ?case by simp
qed simp

text \<open>
  The rounds of the cleanup of a challenge: at the given times its timeout is handled as stored, and before each round others
  write to the store.
\<close>

fun cleanup_rounds :: "(int \<times> 'c rwrite list) list \<Rightarrow> string \<Rightarrow> ('c, 'b) redis \<Rightarrow> cleanup_status list" where
  "cleanup_rounds [] u s = []"
| "cleanup_rounds ((now, ws) # rs) u s =
     (let s1 = apply_writes now ws s in
      case run_alone now (cleanup_txn now u (map_of (rd_timeouts s1) u)) s1 empty_db of
        (None, s2, d) \<Rightarrow> []
      | (Some st, s2, d) \<Rightarrow> st # cleanup_rounds rs u s2)"

lemma cleanup_round:
  fixes s :: "('c, 'b) redis" and u now
  defines "h \<equiv> rd_challenges s u"
  assumes "ch_state h = Some ACTIVE" "ch_processing h = None" "timeout_of h \<in> {CLEANUP_TIMEOUT, CHALLENGE_END_TIMEOUT}"
  shows "run_alone now (cleanup_txn now u (Some t)) s d =
     (if to_retries t = 0 \<or> rd_clients s u = []
      then (Some Cleanup_Ok, apply_writes now [Set_Fields u [F_State CLEANUP, F_Processing None]] s, d)
      else (Some Active_Clients, apply_writes now [Set_Timeout u (timeout_of h)
          \<lparr>to_timestamp = now + to_interval t, to_retries = to_retries t - 1, to_interval = to_interval t\<rparr>] s, d))"
  using assms by (auto simp: run_alone_def atomically_def cleanup_txn_def txn_reads)

text \<open>
  C5: A challenge whose cleanup is due is cleaned up after as many further rounds as its timeout has retries, even if its
  clients never leave and others keep using the store, unless they touch the challenge itself; in every round before,
  it is put off because of its clients.
\<close>

theorem cleanup_not_put_off_forever:
  fixes s :: "('c, 'b) redis"
  assumes "ch_state (rd_challenges s u) = Some ACTIVE" and "ch_processing (rd_challenges s u) = None"
    and "timeout_of (rd_challenges s u) \<in> {CLEANUP_TIMEOUT, CHALLENGE_END_TIMEOUT}"
    and "map_of (rd_timeouts s) u = Some t" and "to_retries t = int n" and "n < length rs"
    and "list_all (\<lambda>(now, ws). list_all (leaves_challenge u) ws) rs"
  shows "\<exists>m ys. m \<le> n \<and> cleanup_rounds rs u s = replicate m Active_Clients @ Cleanup_Ok # ys"
  using assms
proof (induction n arbitrary: s t rs)
  case 0
  obtain now ws rs' where rs: "rs = (now, ws) # rs'" using 0 by (cases rs) auto
  let ?s = "apply_writes now ws s"
  have k: "rd_challenges ?s u = rd_challenges s u" "map_of (rd_timeouts ?s) u = Some t"
    using leaves_challenge_kept [of u ws now s] 0 rs by simp_all
  show ?case using 0 k cleanup_round [of ?s u now t empty_db] by (auto simp: rs Let_def)
next
  case (Suc n)
  obtain now ws rs' where rs: "rs = (now, ws) # rs'" using Suc.prems by (cases rs) auto
  let ?s = "apply_writes now ws s"
  have k: "rd_challenges ?s u = rd_challenges s u" "map_of (rd_timeouts ?s) u = Some t"
    using leaves_challenge_kept [of u ws now s] Suc.prems rs by simp_all
  let ?t = "\<lparr>to_timestamp = now + to_interval t, to_retries = to_retries t - 1, to_interval = to_interval t\<rparr>"
  let ?s2 = "apply_writes now [Set_Timeout u (timeout_of (rd_challenges ?s u)) ?t] ?s"
  note run = cleanup_round [of ?s u now t empty_db]
  show ?case
  proof (cases "rd_clients ?s u = []")
    case True
    with Suc.prems k run show ?thesis by (auto simp: rs Let_def intro: exI [of _ 0])
  next
    case False
    have "\<exists>m ys. m \<le> n \<and> cleanup_rounds rs' u ?s2 = replicate m Active_Clients @ Cleanup_Ok # ys"
    proof (rule Suc.IH [of ?s2 ?t])
      show "map_of (rd_timeouts ?s2) u = Some ?t" by (simp add: update_conv')
      show "to_retries ?t = int n" using Suc.prems by simp
    qed (use Suc.prems k rs in auto)
    then obtain m ys where "m \<le> n" "cleanup_rounds rs' u ?s2 = replicate m Active_Clients @ Cleanup_Ok # ys" by blast
    then have "cleanup_rounds rs u s = replicate (Suc m) Active_Clients @ Cleanup_Ok # ys"
      using Suc.prems k run False by (auto simp: rs Let_def)
    with \<open>m \<le> n\<close> show ?thesis by (metis Suc_le_mono)
  qed
qed

theorem cleanup_not_put_off_forever_witness:
  "\<exists>m ys. m \<le> 1 \<and>
     cleanup_rounds [(5, []), (10, [Add_Feed ''v'']), (20, [])] ''u''
       (apply_writes 0 [Set_Timeout ''u'' CLEANUP_TIMEOUT \<lparr>to_timestamp = 5, to_retries = 1, to_interval = 5\<rparr>] sample_redis) =
     replicate m Active_Clients @ Cleanup_Ok # ys"
  by (rule cleanup_not_put_off_forever [where t = "\<lparr>to_timestamp = 5, to_retries = 1, to_interval = 5\<rparr>"])
    (simp_all add: sample_redis_def state_fields_def sample_challenge_state_def leaves_challenge_def empty_redis_def)

subsection \<open>What a deletion leaves\<close>

lemma apply_delete_streams:
  "apply_writes now (map (Delete_Stream u) ks) s =
     s\<lparr>rd_streams := (\<lambda>x. if fst x = u \<and> snd x \<in> set ks then [] else rd_streams s x)\<rparr>"
  by (induction ks arbitrary: s) (auto simp: fun_eq_iff intro!: redis.equality)

lemma apply_delete_players:
  "apply_writes now (map Del_Player ns) s = s\<lparr>rd_players := (\<lambda>x. if x \<in> set ns then None else rd_players s x)\<rparr>"
  by (induction ns arbitrary: s) (auto simp: fun_eq_iff intro!: redis.equality)

lemma delete_writes:
  "fst (snd (run_txn read_value (delete_txn u (Some ty) (Some party)) s d)) =
     [Del_Challenge u, Del_Clients u, Del_Processed u, Del_Timeout u] @ map (Delete_Stream u) (rd_stream_sets s u) @
     [Del_Stream_Set u, Remove_Party (party_key ty party) u] @
     map Del_Player (filter (\<lambda>n. rd_players s n = Some u) (map active_player_key party))"
proof -
  have "map (Del_Player \<circ> active_player_key \<circ> fst) (filter (\<lambda>p. snd p = Some u) (zip ns (map (rd_players s \<circ> active_player_key) ns))) =
      map Del_Player (filter (\<lambda>n. rd_players s n = Some u) (map active_player_key ns))" for ns
    by (induction ns) auto
  then show ?thesis by (simp add: delete_txn_def)
qed

text \<open>
  C11: Deleting a challenge removes everything the store has of it, its hash, clients, claims, timeout and the streams it knows,
  takes one mention of it from its party's list, and frees the players that are in it; other challenges, and players who
  are in another challenge by now, keep what they have.
\<close>

theorem deletion_removes_challenge:
  fixes s :: "('c, 'b) redis"
  assumes "s' = delete_challenge_data now u (Some ty) (Some party) s"
  shows "rd_challenges s' = (rd_challenges s)(u := empty_hash) \<and> rd_clients s' = (rd_clients s)(u := []) \<and>
     rd_processed s' = (rd_processed s)(u := {}) \<and> map_of (rd_timeouts s') = (map_of (rd_timeouts s))(u := None) \<and>
     rd_stream_sets s' = (rd_stream_sets s)(u := []) \<and>
     rd_streams s' = (\<lambda>x. if fst x = u \<and> snd x \<in> set (rd_stream_sets s u) then [] else rd_streams s x) \<and>
     rd_parties s' = (rd_parties s)(party_key ty party := remove1 u (rd_parties s (party_key ty party))) \<and>
     rd_players s' = (\<lambda>n. if n \<in> set (map active_player_key party) \<and> rd_players s n = Some u then None else rd_players s n) \<and>
     rd_sessions s' = rd_sessions s \<and> rd_client_challenge s' = rd_client_challenge s"
  unfolding assms delete_challenge_data_def Let_def option.case delete_writes
  by (auto simp: apply_delete_streams apply_delete_players delete_conv' fun_eq_iff)

theorem deletion_removes_challenge_witness:
  "rd_clients (delete_challenge_data 3 ''u'' (Some COLOSSEUM) (Some [''Zed'']) sample_redis) = (rd_clients sample_redis)(''u'' := [])"
  using deletion_removes_challenge [OF refl, of 3 "''u''" COLOSSEUM "[''Zed'']" sample_redis] by simp

subsection \<open>Where the code falls short\<close>

lemma last_completed_none:
  "list_all (\<lambda>k. cc_last_stage k = UNKNOWN_STAGE) ks \<Longrightarrow> fst (last_completed num ks) = UNKNOWN_STAGE"
proof -
  have "list_all (\<lambda>k. cc_last_stage k = UNKNOWN_STAGE) ks \<Longrightarrow>
      fst (fold (\<lambda>k (s, a). if num (cc_last_stage k) > num s then (cc_last_stage k, cc_last_attempt k)
         else if cc_last_stage k = s then (s, max_attempt a (cc_last_attempt k)) else (s, a)) ks (UNKNOWN_STAGE, a)) = UNKNOWN_STAGE"
    for a by (induction ks arbitrary: a) simp_all
  then show "list_all (\<lambda>k. cc_last_stage k = UNKNOWN_STAGE) ks \<Longrightarrow> ?thesis" by (simp add: last_completed_def)
qed

text \<open>
  C8: When the timer for the end of a challenge's first stage expires and no client that is still connected has completed a
  stage, because the one that had started the timer has left, then a round of the timeout task changes nothing: the timer
  stays, and as the first expired one it is the only one that every later round handles.
\<close>

theorem stage_end_timer_stuck:
  fixes w :: "('c, 'b) server"
  assumes "expired_timeout now (rd_timeouts (se_redis w)) = Some (u, t)"
    and "timeout_of (rd_challenges (se_redis w) u) = STAGE_END_TIMEOUT"
    and "list_all (\<lambda>(c, k). cc_last_stage k = UNKNOWN_STAGE) (rd_clients (se_redis w) u)"
  shows "process_one_timeout g now today w = (True, w)"
proof -
  have "list_all (\<lambda>k. cc_last_stage k = UNKNOWN_STAGE) (map snd (rd_clients (se_redis w) u))"
    using assms(3) by (auto simp: list_all_iff)
  then have "fst (last_completed (mg_stage g) (map snd (rd_clients (se_redis w) u))) = UNKNOWN_STAGE"
    by (rule last_completed_none)
  then have "handle_stage_end_timeout g now today u w = (True, w)"
    by (simp add: handle_stage_end_timeout_def load_and_complete_def)
  moreover have "map_of (rd_timeouts (se_redis w)) u \<noteq> None"
    using expired_timeout_mem [OF assms(1)] by (metis map_of_eq_None_iff fst_conv image_eqI)
  ultimately show ?thesis
    using assms(1,2)
    by (subst process_one_timeout.simps)
      (auto simp: transact_def run_alone_def atomically_def check_active_txn_def txn_reads)
qed

theorem stage_end_timer_stuck_witness:
  "\<exists>w :: (colosseum, unit) server. process_one_timeout sample_manager 9 0 w = (True, w) \<and>
     expired_timeout 9 (rd_timeouts (se_redis w)) \<noteq> None"
proof -
  let ?s = "apply_writes 0 [Set_Timeout ''u'' STAGE_END_TIMEOUT \<lparr>to_timestamp = 5, to_retries = 0, to_interval = 0\<rparr>] sample_redis"
  let ?w = "\<lparr>se_redis = ?s, se_db = empty_db, se_tasks = []\<rparr>"
  have e: "expired_timeout 9 (rd_timeouts (se_redis ?w)) =
      Some (''u'', \<lparr>to_timestamp = 5, to_retries = 0, to_interval = 0\<rparr>)"
    by (simp add: expired_timeout_def sample_redis_def empty_redis_def)
  have "process_one_timeout sample_manager 9 0 ?w = (True, ?w)"
    by (rule stage_end_timer_stuck [OF e]) (simp_all add: sample_redis_def sample_client_def)
  with e show ?thesis by (intro exI [of _ ?w]) simp
qed

text \<open>
  C10: A write to the fields of a challenge that has just been deleted brings a part of its hash back: every read of the
  challenge throws from then on, and the first status event of a client that still refers to it ends the loop that
  processes the events of all clients.
\<close>

theorem late_write_breaks_challenge:
  fixes w :: "('c, 'b) server"
  assumes "rd_challenges (se_redis w) u = empty_hash" and "rd_client_challenge (se_redis w) cid = Some u"
    and "w' = pipeline now [Set_Fields u [F_Processing (Some now)]] w"
  shows "challenge_from_hash (rd_challenges (se_redis w') u) = None \<and>
     process_client_event now' cid token Client_Active w' = (False, w')"
  using assms
  by (auto simp: pipeline_def challenge_from_hash_def empty_hash_def process_client_event_def transact_def run_alone_def
      atomically_def set_client_active_txn_def txn_reads)

theorem late_write_breaks_challenge_witness:
  "\<exists>w :: (colosseum, unit) server. process_client_event 4 1 ''t'' Client_Active w = (False, w)"
proof -
  let ?w = "\<lparr>se_redis = delete_challenge_data 3 ''u'' (Some COLOSSEUM) (Some [''Zed'']) sample_redis, se_db = empty_db, se_tasks = []\<rparr>"
  have "rd_challenges (delete_challenge_data 3 ''u'' (Some COLOSSEUM) (Some [''Zed'']) sample_redis) ''u'' = empty_hash"
    "rd_client_challenge (delete_challenge_data 3 ''u'' (Some COLOSSEUM) (Some [''Zed'']) sample_redis) 1 = Some ''u''"
    unfolding delete_challenge_data_def Let_def option.case delete_writes
    by (simp_all add: apply_delete_streams apply_delete_players sample_redis_def)
  with late_write_breaks_challenge [of ?w "''u''" 1 _ 3 4 "''t''"] show ?thesis by auto
qed

text \<open>
  C9: An update of a challenge that starts a new stage writes the stage to the database before its transaction is executed:
  when the execution is refused, because another client has written the challenge in between, the database has the
  stage and the store does not.
\<close>

theorem refused_update_reaches_database:
  fixes s :: "('c, 'b) redis"
  assumes c: "challenge_from_hash (rd_challenges s u) = Some (Some c)" and hk: "mg_hooks g (cs_type c) = Some hk"
    and upd: "cu_mode upd = NO_MODE" "cu_party upd = None" "cu_stage upd = Some (stage, STARTED)"
    and stage: "mg_stage g (cs_stage c) \<le> mg_stage g stage" "stage \<noteq> cs_stage c"
    and us: "List.find (\<lambda>k. cc_id k = cid) (map snd (rd_clients s u)) = Some us"
    and others: "list_ex (\<lambda>w. K_Challenge u \<in> touched_keys w) ws"
  shows "attempt read_value (apply_write now) touched_keys (update_txn g now u cid upd) [[], [], ws] {} False [] s d =
     (None, apply_writes now ws s, update_challenge_row (cs_uuid c) (\<lambda>r. r\<lparr>ck_stage := stage\<rparr>) d)"
proof -
  let ?p = "start_stage hk stage (load_processor hk c)"
  have p: "pr_db_updates ?p = [F_Stage stage]" "pr_uuid ?p = cs_uuid c" "pending ?p \<noteq> []"
    using stage(2) by (simp_all add: start_stage_def load_processor_def Let_def prepare_update_def is_modifiable_key_def pending_def)
  have row: "set_row_field (F_Stage stage :: 'c field) = (\<lambda>r. r\<lparr>ck_stage := stage\<rparr>)" by (simp add: fun_eq_iff)
  have fin: "snd (snd (finalize_updates ?p d)) = update_challenge_row (cs_uuid c) (\<lambda>r. r\<lparr>ck_stage := stage\<rparr>) d"
    using p row by (simp add: finalize_updates_def Let_def)
  have st: "started_stage hk stage k (load_processor hk c) = ?p" for k
    using stage(2) by (simp add: started_stage_def load_processor_def)
  have mode: "set_mode NO_MODE (load_processor hk c) = load_processor hk c" by (simp add: set_mode_def)
  have dirty: "list_ex (\<lambda>w. touched_keys w \<inter> {K_Clients u, K_Challenge u} \<noteq> {}) ws"
    using others by (auto simp: list_ex_iff)
  show ?thesis
    using c hk upd stage us p(3) dirty
    by (simp add: update_txn_def txn_reads mode stage_update_def is_finished_def st finalize_txn_def fin interfere_def
        first_writes_def Let_def apply_writes_def)
qed

theorem refused_update_reaches_database_witness:
  "\<exists>r. r \<in> set (d_challenges (snd (snd (attempt read_value (apply_write 9) touched_keys
       (update_txn sample_manager 9 ''u'' 1 \<lparr>cu_mode = NO_MODE, cu_stage = Some (COLOSSEUM_WAVE 2, STARTED), cu_party = None\<rparr>)
       [[], [], [Set_Fields ''u'' [F_Stage (COLOSSEUM_WAVE 3)]]] {} False [] sample_redis
       (empty_db\<lparr>d_challenges := [\<lparr>ck_id = 3, ck_uuid = ''u'', ck_type = COLOSSEUM, ck_mode = NO_MODE, ck_scale = 1,
          ck_stage = COLOSSEUM_WAVE 1, ck_status = IN_PROGRESS, ck_start = 0, ck_session = 2, ck_ticks = 0,
          ck_overall = None, ck_deaths = 0, ck_finish = None, ck_full = False\<rparr>]\<rparr>))))) \<and>
     ck_stage r = COLOSSEUM_WAVE 2"
proof -
  have hk: "mg_hooks sample_manager (cs_type sample_challenge_state) = Some (colosseum_hooks sample_kinds)"
    by (simp add: sample_manager_def sample_challenge_state_def)
  have st: "mg_stage sample_manager (cs_stage sample_challenge_state) \<le> mg_stage sample_manager (COLOSSEUM_WAVE 2)"
    "COLOSSEUM_WAVE 2 \<noteq> cs_stage sample_challenge_state" "cs_uuid sample_challenge_state = ''u''"
    by (simp_all add: sample_manager_def sample_challenge_state_def sample_proc_def sample_stage_number_def)
  have us: "List.find (\<lambda>k. cc_id k = 1) (map snd (rd_clients sample_redis ''u'')) = Some (sample_client 1)"
    by (simp add: sample_redis_clients) (simp add: sample_client_def)
  show ?thesis
    by (subst refused_update_reaches_database [OF sample_redis_challenge hk _ _ _ st(1,2) us])
      (simp_all add: st(3) update_challenge_row_def)
qed

end
