(* ===== verification/Spec2Isabelle.thy ===== *)
theory Spec2Isabelle
  imports Blert_Prelude Ledger Bank_Api Alignment Tick_Mapping Items World Events Graphics Tick_State
    Client_Consistency Nylocas_Correction Client_Events Merged_Events Classification Trusted_Prefixes Reconcile Consolidation
    Npc_Ids Similarity Merge_Consistency Matchings Confidence Derivation Merge_Run Event_Flow
    Challenge_State Challenge_Db Queryable Processor Challenge_Kinds
    Optimistic Challenge_Store Challenge_Requests Challenge_Manager Challenge_Lifecycle Challenge_Timeouts
begin

text \<open>
  A verification library for Blert, a tracker of raids in a game. Players' clients record the events of a
  stage of a raid, tick by tick; the challenge server merges the recordings of a stage into one
  timeline and judges how far it can be trusted; a ledger service keeps the accounts of an internal
  currency. All paths below are relative to \<^verbatim>\<open>src/\<close>.

  \<^bold>\<open>The ledger.\<close>

  \<^item> \<^theory_text>\<open>Ledger\<close>: the tables of \<^verbatim>\<open>blertbank/migrations\<close> as the record \<^verbatim>\<open>ledger\<close>, the stored procedure
    \<^verbatim>\<open>post_blertcoin_transaction\<close> (\<^verbatim>\<open>blertbank/sql\<close>) and the account functions of \<^verbatim>\<open>blertbank/core\<close> as functions
    on it. A database error is an \<^const>\<open>Inl\<close>, a rolled back statement returns the ledger it started from.
    Its lemmas show that the books balance in every reachable ledger, which outcome a posting has,
    and that a replayed idempotency key changes nothing.
  \<^item> \<^theory_text>\<open>Bank_Api\<close>: the HTTP handlers of \<^verbatim>\<open>blertbank/api\<close>, from the parsed JSON body to status and response.
    A request's answer, with its error code, is known on every branch; a lost race to open an account ends in an
    internal error, because the recovery in the code queries an aborted transaction.

  \<^bold>\<open>Merging\<close> (\<^verbatim>\<open>challenge-server/merging\<close>), in the order of the data flow.

  \<^item> \<^theory_text>\<open>Items\<close> (\<^verbatim>\<open>common/item-delta.ts\<close>, \<^verbatim>\<open>common/prayer-set.ts\<close>, the skill levels of \<^verbatim>\<open>common/challenge.ts\<close>),
    \<^theory_text>\<open>World\<close> (\<^verbatim>\<open>world.ts\<close>, stages and modes), \<^theory_text>\<open>Events\<close> (\<^verbatim>\<open>event.ts\<close>: the messages, their classes and the
    remapping of their ticks) and \<^theory_text>\<open>Graphics\<close> (\<^verbatim>\<open>graphics.ts\<close>): the vocabulary, with round trips of the
    encodings.
  \<^item> \<^theory_text>\<open>Tick_State\<close> (\<^verbatim>\<open>tick-state.ts\<close>): the state of one tick, merging two of them, and resynchronizing a
    merged timeline, which writes its events anew from its states. The abstract contract is that a
    consumer replaying the equipment deltas of the rewritten timeline has the equipment of the states.
  \<^item> \<^theory_text>\<open>Client_Consistency\<close> (\<^verbatim>\<open>client-consistency.ts\<close>): the checks of one client's timeline, each proved
    equivalent to a statement about the timeline.
  \<^item> \<^theory_text>\<open>Nylocas_Correction\<close> and \<^theory_text>\<open>Client_Events\<close> (\<^verbatim>\<open>client-events.ts\<close>): the game correction of a stream of events,
    and building a client from its raw events: which events each tick holds, the players at each
    tick, and when the client counts as accurate.
  \<^item> \<^theory_text>\<open>Classification\<close> (\<^verbatim>\<open>classification.ts\<close> and \<^verbatim>\<open>classifyAndUpdateClients\<close> of \<^verbatim>\<open>merge.ts\<close>): the base client, the
    reference tick count, the matching clients, and the demotion of accurate clients that disagree.
  \<^item> \<^theory_text>\<open>Alignment\<close> (\<^verbatim>\<open>alignment.ts\<close>) and \<^theory_text>\<open>Tick_Mapping\<close> (\<^verbatim>\<open>tick-mapping.ts\<close>): aligning the ticks of two timelines
    and the mappings into the merged timeline. Scores are rationals instead of floating-point numbers;
    the similarity of two ticks is a parameter.
    \<^theory_text>\<open>Similarity\<close> (\<^verbatim>\<open>similarity-scorer.ts\<close>, on the NPC classes of \<^theory_text>\<open>Npc_Ids\<close>) is the similarity the code uses: it is
    symmetric, bounded, and minus infinity exactly for incompatible ticks.
  \<^item> \<^theory_text>\<open>Reconcile\<close> and \<^theory_text>\<open>Consolidation\<close> (\<^verbatim>\<open>event-consolidator.ts\<close>): merging the ticks of two timelines along the
    mappings, reconciling attacks and spells, and matching stream events of both sides.
  \<^item> \<^theory_text>\<open>Matchings\<close> and \<^theory_text>\<open>Confidence\<close> (\<^verbatim>\<open>confidence.ts\<close>, \<^verbatim>\<open>math.ts\<close>): how far a merge step was forced; the dynamic program
    counts exactly the order-preserving pairings, and every confidence value lies between 0 and 1.
  \<^item> \<^theory_text>\<open>Merge_Consistency\<close> (\<^verbatim>\<open>merge-consistency.ts\<close>): the check of a merged timeline, which accepts it exactly when it
    meets the specification \<^verbatim>\<open>consistent_timeline\<close>.
  \<^item> \<^theory_text>\<open>Derivation\<close> (\<^verbatim>\<open>derivation.ts\<close>): the events derived from the merged timeline.
  \<^item> \<^theory_text>\<open>Trusted_Prefixes\<close> (\<^verbatim>\<open>trusted-prefixes.ts\<close>, \<^verbatim>\<open>quality.ts\<close>, \<^verbatim>\<open>context.ts\<close>): the prefixes of the merged timeline
    that are accurate and queryable, proved to be the longest ones whose ticks are corroborated.
  \<^item> \<^theory_text>\<open>Merged_Events\<close> and \<^theory_text>\<open>Merge_Run\<close> (\<^verbatim>\<open>merge.ts\<close>): a whole merge, composed of the parts above: the steps that merge one client after the
    other, the end alignment, the correction of Maiden's spawn, and the merged events with a report on every client.
    Its lemmas show that a step is atomic and keeps the chain of mappings in order, and what a merge reports.
  \<^item> \<^theory_text>\<open>Event_Flow\<close>: what holds of every recorded event and survives renumbering holds of every event of the merged
    timeline; so a merge invents no event, and does not throw on events that carry the messages their type promises.

  \<^bold>\<open>Challenges\<close> (\<^verbatim>\<open>challenge-server\<close>).

  \<^item> \<^theory_text>\<open>Challenge_State\<close> (\<^verbatim>\<open>redis-client.ts\<close>): the state of a running challenge, its hash in Redis and partial updates;
    a complete state written field by field is read back as it was.
  \<^item> \<^theory_text>\<open>Challenge_Db\<close> (\<^verbatim>\<open>event-processing/challenge-processor.ts\<close>, \<^verbatim>\<open>players.ts\<close>, \<^verbatim>\<open>common/split.ts\<close>): the tables of challenges,
    sessions, players and splits; personal bests only improve, statistics accumulate.
  \<^item> \<^theory_text>\<open>Queryable\<close>, \<^theory_text>\<open>Processor\<close> and \<^theory_text>\<open>Challenge_Kinds\<close> (\<^verbatim>\<open>challenge-processor.ts\<close>, \<^verbatim>\<open>colosseum.ts\<close>, \<^verbatim>\<open>inferno.ts\<close>,
    \<^verbatim>\<open>mokhaiotl.ts\<close>): processing the merged events of a stage and ending a challenge. The locale \<open>challenge_kind\<close> is what
    the base class relies on in a kind of challenge; the updates a stage returns mirror the state of the processor.
  \<^item> \<^theory_text>\<open>Optimistic\<close> and \<^theory_text>\<open>Challenge_Store\<close> (\<^verbatim>\<open>redis-client.ts\<close>, \<^verbatim>\<open>common/db/redis.ts\<close>): transactions with optimistic locking
    over a store of watched keys (the locale \<open>watched_store\<close>), any number of which may overlap (\<open>concurrent_step\<close>), and the Redis store of challenges as such a store.
  \<^item> \<^theory_text>\<open>Challenge_Requests\<close> and \<^theory_text>\<open>Challenge_Manager\<close> (\<^verbatim>\<open>challenge-manager.ts\<close>): the transactions of the client requests, and the
    handlers composed of them: starting, joining, updating and finishing a challenge, completing a stage, cleanup, timeouts.
  \<^item> \<^theory_text>\<open>Challenge_Lifecycle\<close> and \<^theory_text>\<open>Challenge_Timeouts\<close>: a transaction that goes through is atomic and retries end; in every
    interleaving of the handlers' atomic actions (\<open>lifecycle_step\<close>) started timeouts are scheduled and no challenge is ever
    marked as abandoned; callers whose transactions overlap (\<open>concurrent_step\<close>) claim a stage once, a party gets one challenge, a cleanup is not put off forever; and three situations in which the code falls short.

  \<^bold>\<open>Conventions\<close> (\<^theory_text>\<open>Blert_Prelude\<close>). A JavaScript array written by index is a list of options, a \<^verbatim>\<open>Map\<close> an
  insertion-ordered association list, a thrown error \<^const>\<open>None\<close> or an \<^const>\<open>Inl\<close>, a message object a record; the
  objects that one function changes through an alias are returned updated. JavaScript numbers that
  hold ticks, identifiers and counts are \<^typ>\<open>int\<close> or \<^typ>\<open>nat\<close>. No definition needs fuel: the loops are structural
  recursions or have a measure, so that every function is total.

  \<^bold>\<open>Not modelled.\<close> Logging, metrics and the merge tracer; the network, Redis and PostgreSQL
  clients; the generated protobuf code (records stand for its messages, decoding is a parameter);
  the web front end; and the services in Rust. The manifest lists these parts.
\<close>

end
